(* ===== verification/Prelude.thy ===== *)
theory Prelude
  imports Complex_Main "HOL-Library.Char_ord" "HOL-Library.List_Lexorder" "HOL-Library.Sublist"
begin

text \<open>
  The vocabulary shared by every component: Rust's string operations over UTF-8 bytes, decimal
  printing, results as sums, and the generic facts on them.

  A Rust \<open>str\<close> is a \<^typ>\<open>string\<close> whose characters are its UTF-8 bytes, so \<open>len()\<close>
  is \<^const>\<open>length\<close> and the byte-wise \<open>Ord\<close> of strings is the lexicographic order of
  \<^theory_text>\<open>List_Lexorder\<close> over \<^theory_text>\<open>Char_ord\<close>. Splitting, searching and prefix tests on
  UTF-8 strings agree with the same operations on bytes, because no UTF-8 sequence is a proper
  part of another one.
\<close>

named_theorems str_simps "unfolding rules of the string operations"

section \<open>Prefixes and suffixes\<close>

definition starts_with :: "string \<Rightarrow> string \<Rightarrow> bool" where
  "starts_with p s = (take (length p) s = p)"

definition ends_with :: "string \<Rightarrow> string \<Rightarrow> bool" where
  "ends_with p s = (length p \<le> length s \<and> drop (length s - length p) s = p)"

lemma starts_with_iff_prefix: "starts_with p s \<longleftrightarrow> prefix p s"
  unfolding starts_with_def prefix_def by (metis append_eq_conv_conj append_take_drop_id)

lemma ends_with_iff_suffix: "ends_with p s \<longleftrightarrow> suffix p s"
proof
  assume "ends_with p s"
  then have "s = take (length s - length p) s @ p"
    unfolding ends_with_def by (metis append_take_drop_id)
  then show "suffix p s" unfolding suffix_def by blast
next
  assume "suffix p s"
  then obtain zs where "s = zs @ p" unfolding suffix_def by blast
  then show "ends_with p s" by (simp add: ends_with_def)
qed

lemma starts_with_Nil [simp]: "starts_with [] s"
  by (simp add: starts_with_def)

lemma starts_with_refl [simp]: "starts_with s s"
  by (simp add: starts_with_def)

lemma starts_with_append [simp]: "starts_with p (p @ s)"
  by (simp add: starts_with_def)

lemma starts_with_Cons [simp]: "starts_with (a # p) (b # s) \<longleftrightarrow> a = b \<and> starts_with p s"
  by (auto simp: starts_with_def)

lemma starts_with_Cons_Nil [simp]: "\<not> starts_with (a # p) []"
  by (simp add: starts_with_def)

lemma starts_with_trans: "starts_with p q \<Longrightarrow> starts_with q s \<Longrightarrow> starts_with p s"
  by (simp add: starts_with_iff_prefix)

lemma ends_with_Nil [simp]: "ends_with [] s"
  by (simp add: ends_with_def)

lemma ends_with_append [simp]: "ends_with p (s @ p)"
  by (simp add: ends_with_def)

text \<open>\<open>str::strip_prefix\<close> and \<open>str::strip_suffix\<close>.\<close>

definition strip_prefix :: "string \<Rightarrow> string \<Rightarrow> string option" where
  "strip_prefix p s = (if starts_with p s then Some (drop (length p) s) else None)"

definition strip_suffix :: "string \<Rightarrow> string \<Rightarrow> string option" where
  "strip_suffix p s = (if ends_with p s then Some (take (length s - length p) s) else None)"

lemma strip_prefix_Some_iff: "strip_prefix p s = Some t \<longleftrightarrow> s = p @ t"
  by (auto simp: strip_prefix_def starts_with_iff_prefix prefix_def)

lemma strip_prefix_append [simp]: "strip_prefix p (p @ t) = Some t"
  by (simp add: strip_prefix_Some_iff)

section \<open>Searching, splitting, trimming\<close>

text \<open>\<open>str::contains\<close> with a string pattern.\<close>

fun contains_str :: "string \<Rightarrow> string \<Rightarrow> bool" where
  "contains_str p [] = starts_with p []"
| "contains_str p (c # s) = (starts_with p (c # s) \<or> contains_str p s)"

lemma contains_str_iff: "contains_str p s \<longleftrightarrow> sublist p s"
proof (induction s)
  case Nil
  then show ?case by (simp add: starts_with_iff_prefix)
next
  case (Cons c s)
  then show ?case by (simp add: starts_with_iff_prefix sublist_Cons_right)
qed

text \<open>\<open>str::split\<close> on one character: always at least one piece.\<close>

fun split_on :: "char \<Rightarrow> string \<Rightarrow> string list" where
  "split_on d [] = [[]]"
| "split_on d (c # s) =
     (if c = d then [] # split_on d s
      else (case split_on d s of [] \<Rightarrow> [[c]] | w # ws \<Rightarrow> (c # w) # ws))"

fun join_with :: "string \<Rightarrow> string list \<Rightarrow> string" where
  "join_with d [] = []"
| "join_with d [w] = w"
| "join_with d (w # v # ws) = w @ d @ join_with d (v # ws)"

lemma split_on_not_Nil [simp]: "split_on d s \<noteq> []"
  by (induction s) (auto split: list.splits)

lemma split_on_no_sep: "d \<notin> set s \<Longrightarrow> split_on d s = [s]"
  by (induction s) auto

lemma split_on_piece: "w \<in> set (split_on d s) \<Longrightarrow> d \<notin> set w"
  by (induction s arbitrary: w) (auto split: if_splits list.splits)

lemma split_on_piece_subset: "w \<in> set (split_on d s) \<Longrightarrow> set w \<subseteq> set s"
proof (induction s arbitrary: w)
  case Nil
  then show ?case by simp
next
  case (Cons c s)
  then consider "w \<in> set (split_on d s)" | "w = []"
    | v where "w = c # v" "v \<in> set (split_on d s)" | "w = [c]"
    by (auto split: if_splits list.splits)
  then show ?case using Cons.IH by cases auto
qed

lemma split_on_append_sep: "d \<notin> set w \<Longrightarrow> split_on d (w @ d # s) = w # split_on d s"
  by (induction w) auto

lemma join_split: "join_with [d] (split_on d s) = s"
proof (induction s)
  case Nil
  then show ?case by simp
next
  case (Cons c s)
  show ?case
  proof (cases "split_on d s")
    case Nil
    then show ?thesis by simp
  next
    case (Cons w ws)
    with Cons.IH have "join_with [d] (w # ws) = s" by simp
    then show ?thesis using Cons by (cases ws) auto
  qed
qed

lemma split_on_append_Cons: "split_on d (s @ d # t) = split_on d s @ split_on d t"
proof (induction s)
  case Nil
  then show ?case by simp
next
  case (Cons c s)
  then show ?case by (cases "split_on d s") auto
qed

lemma split_on_append_free:
  "d \<notin> set t \<Longrightarrow> split_on d (s @ t) = butlast (split_on d s) @ [last (split_on d s) @ t]"
proof (induction s)
  case Nil
  then show ?case by (simp add: split_on_no_sep)
next
  case (Cons c s)
  then show ?case
  proof (cases "split_on d s")
    case Nil
    then show ?thesis by simp
  next
    case (Cons w ws)
    with Cons.IH Cons.prems show ?thesis by (cases ws) auto
  qed
qed

lemma join_with_append:
  "xs \<noteq> [] \<Longrightarrow> ys \<noteq> [] \<Longrightarrow> join_with d (xs @ ys) = join_with d xs @ d @ join_with d ys"
proof (induction xs)
  case Nil
  then show ?case by simp
next
  case (Cons x xs)
  then show ?case by (cases xs; cases ys) auto
qed

lemma join_with_snoc:
  "join_with d (xs @ [x]) = (if xs = [] then x else join_with d xs @ d @ x)"
  by (simp add: join_with_append)

lemma split_on_inj: "split_on d s = split_on d t \<Longrightarrow> s = t"
  by (metis join_split)

text \<open>A list of pieces is a prefix of another exactly when the strings are at a separator.\<close>

lemma prefix_split_on_iff:
  "prefix (split_on d s) (split_on d t) \<longleftrightarrow> t = s \<or> prefix (s @ [d]) t"
proof
  assume "prefix (split_on d s) (split_on d t)"
  then obtain zs where zs: "split_on d t = split_on d s @ zs" by (auto simp: prefix_def)
  show "t = s \<or> prefix (s @ [d]) t"
  proof (cases "zs = []")
    case True
    with zs show ?thesis using split_on_inj [of d t s] by simp
  next
    case False
    have "t = join_with [d] (split_on d s @ zs)" using zs join_split [of d t] by simp
    also have "\<dots> = s @ [d] @ join_with [d] zs"
      using False by (simp add: join_with_append join_split)
    finally show ?thesis by (simp add: prefix_def)
  qed
next
  assume "t = s \<or> prefix (s @ [d]) t"
  then show "prefix (split_on d s) (split_on d t)"
    by (auto simp: prefix_def split_on_append_Cons)
qed

text \<open>\<open>trim_end_matches\<close>: with a character, and with a non-empty string pattern.\<close>

definition trim_end_char :: "char \<Rightarrow> string \<Rightarrow> string" where
  "trim_end_char c s = rev (dropWhile (\<lambda>x. x = c) (rev s))"

definition trim_start_chars :: "char list \<Rightarrow> string \<Rightarrow> string" where
  "trim_start_chars cs s = dropWhile (\<lambda>x. x \<in> set cs) s"

definition trim_end_chars :: "char list \<Rightarrow> string \<Rightarrow> string" where
  "trim_end_chars cs s = rev (dropWhile (\<lambda>x. x \<in> set cs) (rev s))"

lemma cut_length_less: "p \<noteq> [] \<Longrightarrow> length p \<le> length s \<Longrightarrow> length s - length p < length s"
  by (cases p) auto

function trim_end_str :: "string \<Rightarrow> string \<Rightarrow> string" where
  "trim_end_str p s =
     (if p \<noteq> [] \<and> ends_with p s then trim_end_str p (take (length s - length p) s) else s)"
  by pat_completeness auto
termination
  by (relation "measure (\<lambda>(p, s). length s)") (auto simp: ends_with_def intro: cut_length_less)

declare trim_end_str.simps [simp del]

lemma trim_end_char_snoc [simp]: "trim_end_char c (s @ [c]) = trim_end_char c s"
  by (simp add: trim_end_char_def)

lemma trim_end_char_decomp: "\<exists>n. s = trim_end_char c s @ replicate n c"
proof -
  have "rev s = takeWhile (\<lambda>x. x = c) (rev s) @ dropWhile (\<lambda>x. x = c) (rev s)" by simp
  then have "s = trim_end_char c s @ rev (takeWhile (\<lambda>x. x = c) (rev s))"
    unfolding trim_end_char_def by (metis rev_append rev_rev_ident)
  moreover have "takeWhile (\<lambda>x. x = c) (rev s) =
      replicate (length (takeWhile (\<lambda>x. x = c) (rev s))) c"
    by (rule replicate_eqI [symmetric, THEN sym]) (auto dest: set_takeWhileD)
  ultimately show ?thesis by (metis rev_replicate)
qed

lemma trim_end_char_prefix: "prefix (trim_end_char c s) s"
  using trim_end_char_decomp by (metis prefixI)

lemma trim_end_char_not_ends: "\<not> ends_with [c] (trim_end_char c s)"
proof
  assume "ends_with [c] (trim_end_char c s)"
  then have "rev (trim_end_char c s) \<noteq> []" and "hd (rev (trim_end_char c s)) = c"
    by (auto simp: ends_with_iff_suffix suffix_def)
  then show False
    unfolding trim_end_char_def using hd_dropWhile [of "\<lambda>x. x = c" "rev s"] by simp
qed

lemma trim_end_str_not_ends: "p \<noteq> [] \<Longrightarrow> \<not> ends_with p (trim_end_str p s)"
  by (induction p s rule: trim_end_str.induct) (metis trim_end_str.simps)

lemma trim_end_str_id: "\<not> ends_with p s \<Longrightarrow> trim_end_str p s = s"
  by (simp add: trim_end_str.simps)

lemma trim_end_str_prefix: "prefix (trim_end_str p s) s"
proof (induction p s rule: trim_end_str.induct)
  case (1 p s)
  show ?case
  proof (cases "p \<noteq> [] \<and> ends_with p s")
    case True
    then have "prefix (trim_end_str p (take (length s - length p) s)) s"
      using 1 by (metis prefix_order.trans take_is_prefix)
    with True show ?thesis by (simp add: trim_end_str.simps [of p s])
  next
    case False
    then show ?thesis by (auto simp: trim_end_str.simps [of p s])
  qed
qed

text \<open>\<open>str::replace\<close> of one character by one character.\<close>

definition replace_char :: "char \<Rightarrow> char \<Rightarrow> string \<Rightarrow> string" where
  "replace_char a b s = map (\<lambda>c. if c = a then b else c) s"

text \<open>\<open>find\<close> of the first character of a class, and \<open>rfind\<close>, as indices.\<close>

fun find_index :: "('a \<Rightarrow> bool) \<Rightarrow> 'a list \<Rightarrow> nat option" where
  "find_index P [] = None"
| "find_index P (x # xs) = (if P x then Some 0 else map_option Suc (find_index P xs))"

fun rfind_index :: "('a \<Rightarrow> bool) \<Rightarrow> 'a list \<Rightarrow> nat option" where
  "rfind_index P [] = None"
| "rfind_index P (x # xs) =
     (case rfind_index P xs of Some i \<Rightarrow> Some (Suc i) | None \<Rightarrow> if P x then Some 0 else None)"

lemma find_index_None_iff: "find_index P xs = None \<longleftrightarrow> (\<forall>x \<in> set xs. \<not> P x)"
  by (induction xs) auto

lemma find_index_SomeD:
  "find_index P xs = Some i \<Longrightarrow> i < length xs \<and> P (xs ! i) \<and> (\<forall>j < i. \<not> P (xs ! j))"
proof (induction xs arbitrary: i)
  case Nil
  then show ?case by simp
next
  case (Cons x xs)
  show ?case
  proof (cases "P x")
    case True
    with Cons.prems show ?thesis by simp
  next
    case False
    with Cons.prems obtain k where k: "find_index P xs = Some k" "i = Suc k" by auto
    with Cons.IH [OF k(1)] False show ?thesis by (auto simp: less_Suc_eq_0_disj)
  qed
qed

lemma rfind_index_None_iff: "rfind_index P xs = None \<longleftrightarrow> (\<forall>x \<in> set xs. \<not> P x)"
  by (induction xs) (auto split: option.splits)

lemma rfind_index_SomeD:
  "rfind_index P xs = Some i \<Longrightarrow>
     i < length xs \<and> P (xs ! i) \<and> (\<forall>j. i < j \<and> j < length xs \<longrightarrow> \<not> P (xs ! j))"
proof (induction xs arbitrary: i)
  case Nil
  then show ?case by simp
next
  case (Cons x xs)
  show ?case
  proof (cases "rfind_index P xs")
    case None
    with Cons.prems have "P x" and "i = 0" by (auto split: if_splits)
    with None show ?thesis
      by (auto simp: rfind_index_None_iff nth_Cons split: nat.splits)
  next
    case (Some k)
    with Cons.prems have i: "i = Suc k" by simp
    from Cons.IH [OF Some] show ?thesis
      unfolding i by (auto simp: nth_Cons split: nat.splits)
  qed
qed

section \<open>Case folding and white space\<close>

lemma char_of_eq_small: "n < 256 \<Longrightarrow> char_of n = k \<longleftrightarrow> n = (of_char k :: nat)"
proof -
  assume n: "n < 256"
  then have "(of_char (char_of n :: char) :: nat) = n" by simp
  then show ?thesis by (metis char_of_char)
qed

definition ascii_lower_char :: "char \<Rightarrow> char" where
  "ascii_lower_char c =
     (if 65 \<le> (of_char c :: nat) \<and> (of_char c :: nat) \<le> 90 then char_of (of_char c + 32 :: nat) else c)"

definition to_ascii_lowercase :: "string \<Rightarrow> string" where
  "to_ascii_lowercase s = map ascii_lower_char s"

definition eq_ignore_ascii_case :: "string \<Rightarrow> string \<Rightarrow> bool" where
  "eq_ignore_ascii_case a b = (to_ascii_lowercase a = to_ascii_lowercase b)"

lemma eq_ignore_ascii_case_refl [simp]: "eq_ignore_ascii_case a a"
  by (simp add: eq_ignore_ascii_case_def)

lemma eq_ignore_ascii_case_sym: "eq_ignore_ascii_case a b \<longleftrightarrow> eq_ignore_ascii_case b a"
  by (auto simp: eq_ignore_ascii_case_def)

lemma eq_ignore_ascii_case_trans:
  "eq_ignore_ascii_case a b \<Longrightarrow> eq_ignore_ascii_case b c \<Longrightarrow> eq_ignore_ascii_case a c"
  by (simp add: eq_ignore_ascii_case_def)

lemma ascii_lower_char_idem [simp]: "ascii_lower_char (ascii_lower_char c) = ascii_lower_char c"
proof (cases "65 \<le> (of_char c :: nat) \<and> (of_char c :: nat) \<le> 90")
  case True
  then have "(of_char (char_of (of_char c + 32 :: nat)) :: nat) = of_char c + 32" by simp
  with True show ?thesis by (simp add: ascii_lower_char_def)
next
  case False
  then show ?thesis by (auto simp: ascii_lower_char_def)
qed

lemma to_ascii_lowercase_idem [simp]:
  "to_ascii_lowercase (to_ascii_lowercase s) = to_ascii_lowercase s"
  by (simp add: to_ascii_lowercase_def)

definition is_ascii_digit :: "char \<Rightarrow> bool" where
  "is_ascii_digit c = (48 \<le> (of_char c :: nat) \<and> (of_char c :: nat) \<le> 57)"

definition is_ascii_alphabetic :: "char \<Rightarrow> bool" where
  "is_ascii_alphabetic c =
     ((65 \<le> (of_char c :: nat) \<and> (of_char c :: nat) \<le> 90) \<or>
      (97 \<le> (of_char c :: nat) \<and> (of_char c :: nat) \<le> 122))"

definition is_ascii_alphanumeric :: "char \<Rightarrow> bool" where
  "is_ascii_alphanumeric c = (is_ascii_digit c \<or> is_ascii_alphabetic c)"

definition is_ascii :: "string \<Rightarrow> bool" where
  "is_ascii s = list_all (\<lambda>c. (of_char c :: nat) < 128) s"

text \<open>
  \<open>str::trim\<close> removes the characters with the Unicode property White\_Space; these are their
  UTF-8 encodings.
\<close>

definition white_space :: "string list" where
  "white_space =
     map (map char_of)
       ([[9], [10], [11], [12], [13], [32], [194, 133], [194, 160], [225, 154, 128],
         [226, 128, 168], [226, 128, 169], [226, 128, 175], [226, 129, 159], [227, 128, 128]]
        @ map (\<lambda>b. [226, 128, b]) [128 ..< 139 :: nat])"

lemma white_space_not_Nil [simp]: "[] \<notin> set white_space"
  by (auto simp: white_space_def)

function trim_start :: "string \<Rightarrow> string" where
  "trim_start s =
     (case find (\<lambda>w. w \<noteq> [] \<and> starts_with w s) white_space of
        Some w \<Rightarrow> trim_start (drop (length w) s) | None \<Rightarrow> s)"
  by pat_completeness auto
termination
  by (relation "measure length")
     (auto simp: find_Some_iff starts_with_iff_prefix dest!: prefix_length_le intro: cut_length_less)

function trim_end :: "string \<Rightarrow> string" where
  "trim_end s =
     (case find (\<lambda>w. w \<noteq> [] \<and> ends_with w s) white_space of
        Some w \<Rightarrow> trim_end (take (length s - length w) s) | None \<Rightarrow> s)"
  by pat_completeness auto
termination
  by (relation "measure length") (auto simp: find_Some_iff ends_with_def intro: cut_length_less)

declare trim_start.simps [simp del] trim_end.simps [simp del]

definition trim :: "string \<Rightarrow> string" where
  "trim s = trim_end (trim_start s)"

section \<open>Decimal printing\<close>

definition digit_char :: "nat \<Rightarrow> char" where
  "digit_char d = char_of (48 + d)"

fun show_nat :: "nat \<Rightarrow> string" where
  "show_nat n = (if n < 10 then [digit_char n] else show_nat (n div 10) @ [digit_char (n mod 10)])"

declare show_nat.simps [simp del]

definition show_int :: "int \<Rightarrow> string" where
  "show_int i = (if i < 0 then ''-'' @ show_nat (nat (- i)) else show_nat (nat i))"

text \<open>The \<open>{:0w}\<close> format of a number.\<close>

definition pad_left :: "nat \<Rightarrow> string \<Rightarrow> string" where
  "pad_left w s = replicate (w - length s) (CHR ''0'') @ s"

definition digit_value :: "char \<Rightarrow> nat" where
  "digit_value c = of_char c - 48"

definition read_nat :: "string \<Rightarrow> nat" where
  "read_nat s = foldl (\<lambda>v c. v * 10 + digit_value c) 0 s"

lemma digit_value_char [simp]: "d < 10 \<Longrightarrow> digit_value (digit_char d) = d"
  by (simp add: digit_value_def digit_char_def)

lemma is_ascii_digit_char [simp]: "d < 10 \<Longrightarrow> is_ascii_digit (digit_char d)"
  by (simp add: is_ascii_digit_def digit_char_def)

lemma show_nat_not_Nil [simp]: "show_nat n \<noteq> []"
  by (subst show_nat.simps) simp

lemma show_nat_digits: "c \<in> set (show_nat n) \<Longrightarrow> is_ascii_digit c"
proof (induction n rule: show_nat.induct)
  case (1 n)
  show ?case
  proof (cases "n < 10")
    case True
    with "1.prems" show ?thesis by (simp add: show_nat.simps [of n])
  next
    case False
    with 1 show ?thesis by (auto simp: show_nat.simps [of n])
  qed
qed

lemma read_show_nat [simp]: "read_nat (show_nat n) = n"
proof (induction n rule: show_nat.induct)
  case (1 n)
  show ?case
  proof (cases "n < 10")
    case True
    then show ?thesis by (simp add: show_nat.simps [of n] read_nat_def)
  next
    case False
    with 1 have "read_nat (show_nat (n div 10)) = n div 10" by simp
    with False show ?thesis by (simp add: show_nat.simps [of n] read_nat_def)
  qed
qed

lemma inj_show_nat: "show_nat m = show_nat n \<longleftrightarrow> m = n"
  by (metis read_show_nat)

lemma read_pad_left [simp]: "read_nat (pad_left w s) = read_nat s"
proof -
  have "foldl (\<lambda>v c. v * 10 + digit_value c) 0 (replicate k (CHR ''0'')) = 0" for k
    by (induction k) (auto simp: digit_value_def)
  then show ?thesis by (simp add: read_nat_def pad_left_def)
qed

lemma length_pad_left: "length (pad_left w s) = max w (length s)"
  by (simp add: pad_left_def)

lemma length_show_nat_le: "n < 10 ^ k \<Longrightarrow> 0 < k \<Longrightarrow> length (show_nat n) \<le> k"
proof (induction n arbitrary: k rule: show_nat.induct)
  case (1 n)
  show ?case
  proof (cases "n < 10")
    case True
    with "1.prems" show ?thesis by (simp add: show_nat.simps [of n])
  next
    case False
    obtain j where j: "k = Suc j" using "1.prems" by (cases k) auto
    with False "1.prems" have "0 < j" by (cases j) auto
    moreover have "n div 10 < 10 ^ j" using "1.prems" j by simp
    ultimately have "length (show_nat (n div 10)) \<le> j" using 1 False by simp
    with False j show ?thesis by (simp add: show_nat.simps [of n])
  qed
qed

lemma length_pad_show: "n < 10 ^ w \<Longrightarrow> 0 < w \<Longrightarrow> length (pad_left w (show_nat n)) = w"
  using length_show_nat_le [of n w] by (simp add: length_pad_left)

section \<open>Results\<close>

type_synonym ('e, 'a) res = "'e + 'a"

fun is_ok :: "('e, 'a) res \<Rightarrow> bool" where
  "is_ok (Inl e) = False"
| "is_ok (Inr x) = True"

fun bind_res :: "('e, 'a) res \<Rightarrow> ('a \<Rightarrow> ('e, 'b) res) \<Rightarrow> ('e, 'b) res" where
  "bind_res (Inl e) f = Inl e"
| "bind_res (Inr x) f = f x"

fun map_res_err :: "('e \<Rightarrow> 'f) \<Rightarrow> ('e, 'a) res \<Rightarrow> ('f, 'a) res" where
  "map_res_err g (Inl e) = Inl (g e)"
| "map_res_err g (Inr x) = Inr x"

text \<open>\<open>iter().map(f).collect::<Result<Vec<_>, _>>()\<close>: the first error wins.\<close>

fun collect_res :: "('a \<Rightarrow> ('e, 'b) res) \<Rightarrow> 'a list \<Rightarrow> ('e, 'b list) res" where
  "collect_res f [] = Inr []"
| "collect_res f (x # xs) = bind_res (f x) (\<lambda>y. bind_res (collect_res f xs) (\<lambda>ys. Inr (y # ys)))"

lemma bind_res_Inr_iff: "bind_res r f = Inr y \<longleftrightarrow> (\<exists>x. r = Inr x \<and> f x = Inr y)"
  by (cases r) auto

lemma collect_res_Inr_iff:
  "collect_res f xs = Inr ys \<longleftrightarrow> list_all2 (\<lambda>x y. f x = Inr y) xs ys"
  by (induction xs arbitrary: ys) (auto simp: bind_res_Inr_iff list_all2_Cons1)

definition opt_or :: "'a option \<Rightarrow> 'a option \<Rightarrow> 'a option" where
  "opt_or a b = (case a of Some x \<Rightarrow> Some x | None \<Rightarrow> b)"

definition opt_default :: "'a \<Rightarrow> 'a option \<Rightarrow> 'a" where
  "opt_default d a = (case a of Some x \<Rightarrow> x | None \<Rightarrow> d)"

lemma opt_or_simps [simp]: "opt_or (Some x) b = Some x" "opt_or None b = b"
  by (auto simp: opt_or_def)

lemma opt_default_simps [simp]: "opt_default d (Some x) = x" "opt_default d None = d"
  by (auto simp: opt_default_def)

text \<open>
  A \<^verbatim>\<open>for\<close> loop whose body may return early, and a sequence of such blocks: the first
  result wins.
\<close>

fun first_some :: "('a \<Rightarrow> 'b option) \<Rightarrow> 'a list \<Rightarrow> 'b option" where
  "first_some f [] = None"
| "first_some f (x # xs) = (case f x of Some y \<Rightarrow> Some y | None \<Rightarrow> first_some f xs)"

lemma first_some_None_iff: "first_some f xs = None \<longleftrightarrow> (\<forall>x \<in> set xs. f x = None)"
  by (induction xs) (auto split: option.splits)

lemma first_some_SomeD: "first_some f xs = Some y \<Longrightarrow> \<exists>x \<in> set xs. f x = Some y"
  by (induction xs) (auto split: option.splits)

lemma first_some_const:
  "x \<in> set xs \<Longrightarrow> P x \<Longrightarrow> first_some (\<lambda>x. if P x then Some c else None) xs = Some c"
  by (induction xs) auto

lemma first_some_append:
  "first_some f (xs @ ys) = (case first_some f xs of Some y \<Rightarrow> Some y | None \<Rightarrow> first_some f ys)"
  by (induction xs) (auto split: option.splits)

lemma first_some_cong [fundef_cong]:
  "xs = ys \<Longrightarrow> (\<And>x. x \<in> set ys \<Longrightarrow> f x = g x) \<Longrightarrow> first_some f xs = first_some g ys"
  by (induction xs arbitrary: ys) (auto split: option.splits)

lemma opt_or_None_iff [simp]: "opt_or a b = None \<longleftrightarrow> a = None \<and> b = None"
  by (cases a) auto

lemma opt_or_Some_iff: "opt_or a b = Some x \<longleftrightarrow> a = Some x \<or> (a = None \<and> b = Some x)"
  by (cases a) auto

section \<open>Replacing\<close>

text \<open>\<open>str::replace\<close> with a pattern that is not empty: leftmost matches that do not overlap.\<close>

function str_replace :: "string \<Rightarrow> string \<Rightarrow> string \<Rightarrow> string" where
  "str_replace pat to [] = []"
| "str_replace pat to (c # s) =
     (if pat \<noteq> [] \<and> starts_with pat (c # s) then to @ str_replace pat to (drop (length pat) (c # s))
      else c # str_replace pat to s)"
  by pat_completeness auto
termination by (relation "measure (\<lambda>(pat, to, s). length s)") (auto simp: neq_Nil_conv)

lemma str_replace_free: "\<not> sublist pat s \<Longrightarrow> str_replace pat to s = s"
  by (induction pat to s rule: str_replace.induct) (auto simp: starts_with_iff_prefix sublist_Cons_right)

text \<open>A replacement that starts with a character of no use to \<open>v\<close> makes no new prefix \<open>v\<close>.\<close>

lemma prefix_str_replace:
  "c \<notin> set v \<Longrightarrow> prefix v (str_replace pat (c # m) s) \<Longrightarrow> prefix v s"
proof (induction pat "c # m" s arbitrary: v rule: str_replace.induct)
  case (1 pat)
  then show ?case by simp
next
  case (2 pat a s)
  show ?case
  proof (cases v)
    case Nil
    then show ?thesis by simp
  next
    case (Cons x v')
    with 2 show ?thesis by (auto split: if_splits)
  qed
qed

lemma sublist_bordered:
  assumes "c \<notin> set v" "d \<notin> set v" "sublist v ((c # m @ [d]) @ s)"
  shows "sublist v m \<or> sublist v s"
proof -
  have split: "sublist v (xs @ e # ys) \<Longrightarrow> e \<notin> set v \<Longrightarrow> sublist v xs \<or> sublist v ys" for xs ys e
  proof -
    assume s: "sublist v (xs @ e # ys)" and e: "e \<notin> set v"
    have "prefix q (e # ys) \<Longrightarrow> suffix p xs \<Longrightarrow> v = p @ q \<Longrightarrow> sublist v xs" for p q
      using e by (cases q) (auto dest: suffix_imp_sublist)
    moreover have "sublist v (e # ys) \<Longrightarrow> v \<noteq> [] \<Longrightarrow> sublist v ys"
      using e by (cases v) (auto simp: sublist_Cons_right)
    ultimately show ?thesis using s by (cases "v = []") (auto simp: sublist_append)
  qed
  have "sublist v [] \<or> sublist v (m @ d # s)" using split [of "[]" c "m @ d # s"] assms by simp
  then have "v = [] \<or> sublist v m \<or> sublist v s" using split [of m d s] assms(2) by auto
  then show ?thesis by auto
qed

text \<open>
  Replacing by a bracketed text creates no occurrence of a word that is free of the brackets and not
  in the text, and removes every occurrence of the pattern.
\<close>

lemma sublist_str_replace:
  assumes "c \<notin> set v" "d \<notin> set v" "\<not> sublist v m"
  shows "sublist v (str_replace pat (c # m @ [d]) s) \<Longrightarrow> sublist v s"
proof (induction pat "c # m @ [d]" s rule: str_replace.induct)
  case (1 pat)
  then show ?case by simp
next
  case (2 pat a s)
  show ?case
  proof (cases "pat \<noteq> [] \<and> starts_with pat (a # s)")
    case True
    let ?r = "drop (length pat) (a # s)"
    have "sublist v ((c # m @ [d]) @ str_replace pat (c # m @ [d]) ?r)" using 2(3) True by simp
    then have "sublist v (str_replace pat (c # m @ [d]) ?r)"
      using sublist_bordered [OF assms(1,2)] assms(3) by blast
    then have "sublist v ?r" using 2(1) True by blast
    moreover have "sublist ?r (a # s)" by (rule suffix_imp_sublist [OF suffix_drop])
    ultimately show ?thesis by (rule sublist_order.order.trans)
  next
    case False
    have eq: "str_replace pat (c # m @ [d]) (a # s) = a # str_replace pat (c # m @ [d]) s"
      by (simp only: str_replace.simps if_not_P [OF False])
    have "sublist v (a # str_replace pat (c # m @ [d]) s)" using 2(3) unfolding eq .
    then consider "prefix v (a # str_replace pat (c # m @ [d]) s)" | "sublist v (str_replace pat (c # m @ [d]) s)"
      by (auto simp: sublist_Cons_right)
    then show ?thesis
    proof cases
      case 1
      then have "prefix v (str_replace pat (c # m @ [d]) (a # s))" unfolding eq .
      then show ?thesis using prefix_str_replace [OF assms(1)] prefix_imp_sublist by blast
    next
      case 2
      then show ?thesis using "2.hyps"(2) False by (auto simp: sublist_Cons_right)
    qed
  qed
qed

lemma str_replace_removes:
  "c \<notin> set pat \<Longrightarrow> d \<notin> set pat \<Longrightarrow> \<not> sublist pat m \<Longrightarrow>
     \<not> sublist pat (str_replace pat (c # m @ [d]) s)"
proof (induction pat "c # m @ [d]" s rule: str_replace.induct)
  case (1 pat)
  then show ?case by auto
next
  case (2 pat a s)
  have ne: "pat \<noteq> []" using 2(5) by auto
  show ?case
  proof (cases "starts_with pat (a # s)")
    case True
    then have "\<not> sublist pat (str_replace pat (c # m @ [d]) (drop (length pat) (a # s)))"
      using 2(1) 2(3-5) ne by blast
    then have "\<not> sublist pat ((c # m @ [d]) @ str_replace pat (c # m @ [d]) (drop (length pat) (a # s)))"
      using sublist_bordered [OF 2(3,4)] 2(5) by blast
    then show ?thesis using True ne by simp
  next
    case False
    then have nm: "\<not> (pat \<noteq> [] \<and> starts_with pat (a # s))" by blast
    have eq: "str_replace pat (c # m @ [d]) (a # s) = a # str_replace pat (c # m @ [d]) s"
      by (simp only: str_replace.simps if_not_P [OF nm])
    have "\<not> prefix pat (a # s)" using False by (simp add: starts_with_iff_prefix)
    then have "\<not> prefix pat (a # str_replace pat (c # m @ [d]) s)"
      using prefix_str_replace [OF 2(3), of pat "m @ [d]" "a # s"] unfolding eq by blast
    moreover have "\<not> sublist pat (str_replace pat (c # m @ [d]) s)" by (rule 2(2) [OF nm 2(3-5)])
    ultimately show ?thesis unfolding eq sublist_Cons_right by blast
  qed
qed

section \<open>Searching for a substring, parsing numbers\<close>

fun find_sub :: "string \<Rightarrow> string \<Rightarrow> nat option" where
  "find_sub p [] = (if p = [] then Some 0 else None)"
| "find_sub p (c # s) = (if starts_with p (c # s) then Some 0 else map_option Suc (find_sub p s))"

definition split_once :: "string \<Rightarrow> string \<Rightarrow> (string \<times> string) option" where
  "split_once p s = map_option (\<lambda>i. (take i s, drop (i + length p) s)) (find_sub p s)"

lemma find_sub_Some: "find_sub p s = Some i \<Longrightarrow> s = take i s @ p @ drop (i + length p) s"
proof (induction p s arbitrary: i rule: find_sub.induct)
  case (1 p)
  then show ?case by (simp split: if_splits)
next
  case (2 p c s)
  then show ?case by (auto simp: starts_with_iff_prefix prefix_def split: if_splits)
qed

lemma split_once_eq: "split_once p s = Some (a, b) \<Longrightarrow> s = a @ p @ b"
  by (auto simp: split_once_def dest: find_sub_Some)

text \<open>\<open>i64::from_str\<close> and \<open>u64::from_str\<close>.\<close>

definition parse_digits_only :: "string \<Rightarrow> nat option" where
  "parse_digits_only s = (if s \<noteq> [] \<and> list_all is_ascii_digit s then Some (read_nat s) else None)"

definition parse_i64 :: "string \<Rightarrow> int option" where
  "parse_i64 s =
     (case s of
        [] \<Rightarrow> None
      | c # r \<Rightarrow>
          if c = CHR ''-'' then
            (case parse_digits_only r of Some n \<Rightarrow> if int n \<le> 2 ^ 63 then Some (- int n) else None | None \<Rightarrow> None)
          else
            (case parse_digits_only (if c = CHR ''+'' then r else s) of
               Some n \<Rightarrow> if int n < 2 ^ 63 then Some (int n) else None | None \<Rightarrow> None))"

definition parse_u64 :: "string \<Rightarrow> nat option" where
  "parse_u64 s =
     (case parse_digits_only (if s \<noteq> [] \<and> hd s = CHR ''+'' then tl s else s) of
        Some n \<Rightarrow> if n < 2 ^ 64 then Some n else None | None \<Rightarrow> None)"

lemma parse_digits_only_show [simp]: "parse_digits_only (show_nat n) = Some n"
  by (simp add: parse_digits_only_def list_all_iff show_nat_digits read_show_nat)

lemma parse_i64_show_nat: "n < 2 ^ 63 \<Longrightarrow> parse_i64 (show_nat n) = Some (int n)"
proof -
  assume n: "n < 2 ^ 63"
  have "show_nat n \<noteq> []" "list_all is_ascii_digit (show_nat n)" by (simp_all add: list_all_iff show_nat_digits)
  then obtain c r where c: "show_nat n = c # r" "is_ascii_digit c" by (cases "show_nat n") auto
  then have "c \<noteq> CHR ''-''" "c \<noteq> CHR ''+''" by (auto simp: is_ascii_digit_def)
  moreover have "int n < 2 ^ 63" using n by simp
  ultimately show ?thesis using c(1) parse_digits_only_show [of n] by (simp add: parse_i64_def)
qed

section \<open>Trimming ASCII text\<close>

definition ascii_space :: "char \<Rightarrow> bool" where
  "ascii_space c \<longleftrightarrow> c \<in> set (map char_of [9, 10, 11, 12, 13, 32 :: nat])"

definition ascii_char :: "char \<Rightarrow> bool" where
  "ascii_char c \<longleftrightarrow> of_char c < (128 :: nat)"

lemma white_space_heads:
  "list_all (\<lambda>w. if ascii_char (hd w) then w = [hd w] \<and> ascii_space (hd w) else length w > 1 \<and> \<not> ascii_char (last w)) white_space"
  by (simp add: white_space_def ascii_space_def ascii_char_def upt_rec)

lemma white_space_ascii: "ascii_space c \<Longrightarrow> [c] \<in> set white_space \<and> ascii_char c"
  by (auto simp: ascii_space_def white_space_def ascii_char_def)

lemma white_space_cases:
  assumes "w \<in> set white_space"
  shows "(\<exists>c. w = [c] \<and> ascii_space c \<and> ascii_char c)
    \<or> (w \<noteq> [] \<and> \<not> ascii_char (hd w) \<and> \<not> ascii_char (last w))"
proof -
  have "if ascii_char (hd w) then w = [hd w] \<and> ascii_space (hd w) else length w > 1 \<and> \<not> ascii_char (last w)"
    using white_space_heads assms unfolding list_all_iff by (rule bspec)
  then show ?thesis by (cases "ascii_char (hd w)") auto
qed

lemma find_only:
  "(\<And>x. x \<in> set xs \<Longrightarrow> P x \<longleftrightarrow> x = a \<and> b) \<Longrightarrow> (b \<Longrightarrow> a \<in> set xs) \<Longrightarrow>
     find P xs = (if b then Some a else None)"
  by (induction xs) auto

lemma trim_start_ascii:
  assumes "ascii_char c"
  shows "trim_start (c # s) = (if ascii_space c then trim_start s else c # s)"
proof -
  have "find (\<lambda>w. w \<noteq> [] \<and> starts_with w (c # s)) white_space = (if ascii_space c then Some [c] else None)"
  proof (rule find_only)
    fix w assume w: "w \<in> set white_space"
    show "w \<noteq> [] \<and> starts_with w (c # s) \<longleftrightarrow> w = [c] \<and> ascii_space c"
      using white_space_cases [OF w] assms by (cases w rule: list.exhaust) auto
  qed (simp add: white_space_ascii)
  then show ?thesis by (simp add: trim_start.simps [of "c # s"])
qed

lemma trim_end_ascii:
  assumes "ascii_char c"
  shows "trim_end (s @ [c]) = (if ascii_space c then trim_end s else s @ [c])"
proof -
  have "find (\<lambda>w. w \<noteq> [] \<and> ends_with w (s @ [c])) white_space = (if ascii_space c then Some [c] else None)"
  proof (rule find_only)
    fix w assume w: "w \<in> set white_space"
    show "w \<noteq> [] \<and> ends_with w (s @ [c]) \<longleftrightarrow> w = [c] \<and> ascii_space c"
      using white_space_cases [OF w] assms by (cases w rule: rev_cases) (auto simp: ends_with_iff_suffix)
  qed (simp add: white_space_ascii)
  then show ?thesis by (simp add: trim_end.simps [of "s @ [c]"])
qed

lemma trim_Nil [simp]: "trim [] = []"
proof -
  have n: "find (\<lambda>w. w \<noteq> [] \<and> starts_with w []) white_space = None"
    "find (\<lambda>w. w \<noteq> [] \<and> ends_with w []) white_space = None"
    by (auto simp: find_None_iff starts_with_def ends_with_def)
  show ?thesis by (simp add: trim_def trim_start.simps [of "[]"] trim_end.simps [of "[]"] n)
qed

lemma ascii_space_iff [simp]: "ascii_space c \<longleftrightarrow> (of_char c :: nat) \<in> {9, 10, 11, 12, 13, 32}"
proof -
  have "c = char_of n \<longleftrightarrow> of_char c = n" if "n < 256" for n :: nat
    using that by (auto simp: of_char_of)
  then show ?thesis by (auto simp: ascii_space_def)
qed

text \<open>A text that starts and ends with ASCII characters other than spaces.\<close>

lemma trim_one: "ascii_char c \<Longrightarrow> \<not> ascii_space c \<Longrightarrow> trim [c] = [c]"
  using trim_start_ascii [of c "[]"] trim_end_ascii [of c "[]"] by (simp add: trim_def)

lemma trim_id:
  assumes "ascii_char c" "\<not> ascii_space c" "ascii_char d" "\<not> ascii_space d"
  shows "trim (c # s @ [d]) = c # s @ [d]"
  using trim_start_ascii [OF assms(1), of "s @ [d]"] trim_end_ascii [OF assms(3), of "c # s"] assms(2,4)
  by (simp add: trim_def)

lemma trim_ends:
  assumes "u \<noteq> []" "ascii_char (hd u)" "\<not> ascii_space (hd u)" "ascii_char (last u)" "\<not> ascii_space (last u)"
  shows "trim u = u"
proof -
  obtain c t where u: "u = c # t" using assms(1) by (cases u) auto
  show ?thesis
  proof (cases t rule: rev_cases)
    case Nil
    then show ?thesis using assms u trim_one [of c] by simp
  next
    case (snoc s d)
    then show ?thesis using assms u trim_id [of c d s] by simp
  qed
qed

end
