(* ===== verification/FabricTypes.thy ===== *)
theory FabricTypes
  imports Prelude "HOL-Library.Word"
begin

text \<open>
  The shared type vocabulary of \<^verbatim>\<open>crates/fabric-types/src/lib.rs\<close>: task states, task kinds,
  audit kinds, key purposes and the clock-skew check of signed envelopes, the latter on 64-bit
  two's-complement words.
\<close>

section \<open>Enumerations and their wire names\<close>

datatype task_status = Queued | Claimed | Running | Reporting | Done | Failed | Cancelled | TimedOut

fun is_terminal :: "task_status \<Rightarrow> bool" where
  "is_terminal Done = True"
| "is_terminal Failed = True"
| "is_terminal Cancelled = True"
| "is_terminal TimedOut = True"
| "is_terminal _ = False"

text \<open>The \<^verbatim>\<open>snake_case\<close> renaming of the derived serialisation.\<close>

fun task_status_name :: "task_status \<Rightarrow> string" where
  "task_status_name Queued = ''queued''"
| "task_status_name Claimed = ''claimed''"
| "task_status_name Running = ''running''"
| "task_status_name Reporting = ''reporting''"
| "task_status_name Done = ''done''"
| "task_status_name Failed = ''failed''"
| "task_status_name Cancelled = ''cancelled''"
| "task_status_name TimedOut = ''timed_out''"

datatype task_kind = Agent | Command

fun task_kind_name :: "task_kind \<Rightarrow> string" where
  "task_kind_name Agent = ''agent''"
| "task_kind_name Command = ''command''"

datatype stream_channel = Stdout | Stderr | Info

fun stream_channel_name :: "stream_channel \<Rightarrow> string" where
  "stream_channel_name Stdout = ''stdout''"
| "stream_channel_name Stderr = ''stderr''"
| "stream_channel_name Info = ''info''"

datatype audit_kind = AuditDispatch | AuditClaim | AuditResult

fun audit_kind_name :: "audit_kind \<Rightarrow> string" where
  "audit_kind_name AuditDispatch = ''dispatch''"
| "audit_kind_name AuditClaim = ''claim''"
| "audit_kind_name AuditResult = ''result''"

datatype key_purpose = PurposeDispatcher | PurposeRunner | PurposeHub | PurposeNode

fun key_purpose_name :: "key_purpose \<Rightarrow> string" where
  "key_purpose_name PurposeDispatcher = ''dispatcher''"
| "key_purpose_name PurposeRunner = ''runner''"
| "key_purpose_name PurposeHub = ''hub''"
| "key_purpose_name PurposeNode = ''node''"

lemma task_status_name_inj: "task_status_name a = task_status_name b \<longleftrightarrow> a = b"
  by (cases a; cases b) auto

section \<open>The clock-skew window\<close>

type_synonym i64 = "64 word"

definition signature_max_skew_seconds :: i64 where
  "signature_max_skew_seconds = 300"

text \<open>
  Rust's \<open>-\<close> and \<open>abs\<close> on \<open>i64\<close> panic on overflow when the build has overflow checks (the
  \<^verbatim>\<open>dev\<close> and \<^verbatim>\<open>test\<close> profiles) and wrap when it has not (the \<^verbatim>\<open>release\<close> profile, whose
  \<^verbatim>\<open>Cargo.toml\<close> section leaves \<^verbatim>\<open>overflow-checks\<close> at its default). The first argument says
  which; \<^const>\<open>None\<close> is the panic.
\<close>

definition i64_sub :: "bool \<Rightarrow> i64 \<Rightarrow> i64 \<Rightarrow> i64 option" where
  "i64_sub checks a b =
     (if checks \<and> sint (a - b) \<noteq> sint a - sint b then None else Some (a - b))"

definition i64_abs :: "bool \<Rightarrow> i64 \<Rightarrow> i64 option" where
  "i64_abs checks a =
     (if sint a < 0 then (if checks \<and> sint (- a) < 0 then None else Some (- a)) else Some a)"

datatype timestamp_error = OutOfSkew (skew_delta: i64) (skew_max: i64)

definition check_timestamp_skew :: "bool \<Rightarrow> i64 \<Rightarrow> i64 \<Rightarrow> (timestamp_error + unit) option" where
  "check_timestamp_skew checks timestamp now =
     (case i64_sub checks now timestamp of
        None \<Rightarrow> None
      | Some diff \<Rightarrow>
          (case i64_abs checks diff of
             None \<Rightarrow> None
           | Some delta \<Rightarrow>
               if signature_max_skew_seconds <s delta
               then Some (Inl (OutOfSkew delta signature_max_skew_seconds))
               else Some (Inr ())))"

subsection \<open>Signed readings of wrapped results\<close>

lemma sint64_bounds: "- (2 ^ 63) \<le> sint (a :: i64)" "sint (a :: i64) < 2 ^ 63"
  using sint_ge [of a] sint_lt [of a] by simp_all

definition wrap64 :: "int \<Rightarrow> int" where
  "wrap64 x = (x + 2 ^ 63) mod 2 ^ 64 - 2 ^ 63"

lemma wrap64_id: "- (2 ^ 63) \<le> x \<Longrightarrow> x < 2 ^ 63 \<Longrightarrow> wrap64 x = x"
  by (simp add: wrap64_def)

lemma sint_wrap64: "sint (of_int x :: i64) = wrap64 x"
proof -
  have "sint (of_int x :: i64) = signed_take_bit 63 x" by (simp add: of_int_sint sint_sbintrunc')
  also have "\<dots> = wrap64 x"
    by (simp add: wrap64_def signed_take_bit_eq_take_bit_shift take_bit_eq_mod)
  finally show ?thesis .
qed

lemma sint_minus64: "sint (a - b :: i64) = wrap64 (sint a - sint b)"
  using sint_wrap64 [of "sint a - sint b"] by simp

lemma sint_uminus64: "sint (- a :: i64) = wrap64 (- sint a)"
  using sint_wrap64 [of "- sint a"] by simp

lemma sint_uminus64_id: "sint (a :: i64) \<noteq> - (2 ^ 63) \<Longrightarrow> sint (- a) = - sint a"
  using sint64_bounds [of a] by (simp add: sint_uminus64 wrap64_id)

lemma sint_uminus64_min: "sint (a :: i64) = - (2 ^ 63) \<Longrightarrow> sint (- a) = - (2 ^ 63)"
  by (simp add: sint_uminus64 wrap64_def)

lemma skew_accepts_iff_wrapped:
  "check_timestamp_skew False ts now = Some (Inr ()) \<longleftrightarrow>
     (let d = wrap64 (sint now - sint ts) in \<bar>d\<bar> \<le> 300 \<or> d = - (2 ^ 63))"
proof -
  define w where "w = now - ts"
  have d: "wrap64 (sint now - sint ts) = sint w" by (simp add: w_def sint_minus64)
  have "check_timestamp_skew False ts now = Some (Inr ()) \<longleftrightarrow>
          \<not> (300 < (if sint w < 0 then sint (- w) else sint w))"
    by (simp add: check_timestamp_skew_def i64_sub_def i64_abs_def signature_max_skew_seconds_def
        w_def word_sless_alt)
  also have "\<dots> \<longleftrightarrow> \<bar>sint w\<bar> \<le> 300 \<or> sint w = - (2 ^ 63)"
    by (cases "sint w = - (2 ^ 63)") (auto simp: sint_uminus64_id sint_uminus64_min)
  finally show ?thesis by (simp add: d Let_def)
qed

lemma skew_checked_never_overaccepts:
  assumes "check_timestamp_skew True ts now = Some (Inr ())"
  shows "\<bar>sint now - sint ts\<bar> \<le> 300"
proof -
  define w where "w = now - ts"
  from assms have s: "sint w = sint now - sint ts"
    by (auto simp: check_timestamp_skew_def i64_sub_def w_def split: if_splits)
  show ?thesis
  proof (cases "sint w < 0")
    case True
    with assms s have n: "\<not> sint (- w) < 0" and le: "sint (- w) \<le> 300"
      by (auto simp: check_timestamp_skew_def i64_sub_def i64_abs_def w_def
          signature_max_skew_seconds_def word_sless_alt split: if_splits)
    have "sint w \<noteq> - (2 ^ 63)" using n sint_uminus64_min [of w] by auto
    with le s True show ?thesis by (simp add: sint_uminus64_id)
  next
    case False
    with assms s show ?thesis
      by (auto simp: check_timestamp_skew_def i64_sub_def i64_abs_def w_def
          signature_max_skew_seconds_def word_sless_alt split: if_splits)
  qed
qed

end
