(* ===== verification/Floats.thy ===== *)
theory Floats
  imports Prelude
begin

text \<open>
  Rust's \<open>f64\<close> as the code uses it: comparison and printing. A finite value is its exact
  rational; NaN, the infinities and the negative zero are constructors of their own. Every
  comparison with a NaN is false.
\<close>

datatype f64 = NaN | NegInf | PosInf | NegZero | Fin rat

fun f64_lt :: "f64 \<Rightarrow> f64 \<Rightarrow> bool" where
  "f64_lt NaN _ = False"
| "f64_lt _ NaN = False"
| "f64_lt NegInf y = (y \<noteq> NegInf)"
| "f64_lt x NegInf = False"
| "f64_lt PosInf y = False"
| "f64_lt x PosInf = True"
| "f64_lt NegZero NegZero = False"
| "f64_lt NegZero (Fin y) = (0 < y)"
| "f64_lt (Fin x) NegZero = (x < 0)"
| "f64_lt (Fin x) (Fin y) = (x < y)"

fun f64_eq :: "f64 \<Rightarrow> f64 \<Rightarrow> bool" where
  "f64_eq NaN _ = False"
| "f64_eq _ NaN = False"
| "f64_eq NegZero (Fin y) = (y = 0)"
| "f64_eq (Fin x) NegZero = (x = 0)"
| "f64_eq x y = (x = y)"

instantiation f64 :: ord
begin

definition less_f64 :: "f64 \<Rightarrow> f64 \<Rightarrow> bool" where
  "less_f64 x y = f64_lt x y"

definition less_eq_f64 :: "f64 \<Rightarrow> f64 \<Rightarrow> bool" where
  "less_eq_f64 x y = (f64_lt x y \<or> f64_eq x y)"

instance ..

end

lemma f64_nan [simp]: "\<not> NaN \<le> x" "\<not> x \<le> NaN" "\<not> NaN < x" "\<not> x < NaN"
  by (cases x; simp add: less_f64_def less_eq_f64_def)+

lemma f64_le_Fin [simp]: "Fin x \<le> Fin y \<longleftrightarrow> x \<le> y"
  by (auto simp: less_eq_f64_def)

lemma f64_less_Fin [simp]: "Fin x < Fin y \<longleftrightarrow> x < y"
  by (simp add: less_f64_def)

lemma f64_not_less_iff: "x \<noteq> NaN \<Longrightarrow> y \<noteq> NaN \<Longrightarrow> \<not> x < (y :: f64) \<longleftrightarrow> y \<le> x"
  by (cases x; cases y) (auto simp: less_f64_def less_eq_f64_def)

lemma f64_le_trans: "x \<le> y \<Longrightarrow> y \<le> z \<Longrightarrow> x \<le> (z :: f64)"
  by (cases x; cases y; cases z) (auto simp: less_eq_f64_def)

text \<open>The \<^verbatim>\<open>{:.4}\<close> format: the exact value rounded to four decimals, ties to even.\<close>

definition round_half_even :: "rat \<Rightarrow> int" where
  "round_half_even r =
     (let f = \<lfloor>r\<rfloor>; d = r - of_int f in
      if d < 1 / 2 then f
      else if 1 / 2 < d then f + 1
      else if even f then f else f + 1)"

definition fmt4_mag :: "rat \<Rightarrow> string" where
  "fmt4_mag r =
     (let m = nat (round_half_even (r * 10000)) in
      show_nat (m div 10000) @ ''.'' @ pad_left 4 (show_nat (m mod 10000)))"

fun fmt4 :: "f64 \<Rightarrow> string" where
  "fmt4 NaN = ''NaN''"
| "fmt4 NegInf = ''-inf''"
| "fmt4 PosInf = ''inf''"
| "fmt4 NegZero = ''-0.0000''"
| "fmt4 (Fin r) = (if r < 0 then ''-'' @ fmt4_mag (- r) else fmt4_mag r)"

lemma round_half_even_near: "\<bar>of_int (round_half_even r) - r\<bar> \<le> 1 / 2"
proof -
  have "of_int \<lfloor>r\<rfloor> \<le> r" "r < of_int \<lfloor>r\<rfloor> + 1" by linarith+
  then show ?thesis unfolding round_half_even_def Let_def by (auto simp: abs_le_iff)
qed

end
