(* ===== verification/Dates.thy ===== *)
theory Dates
  imports Prelude "HOL-Library.Signed_Division"
begin

text \<open>
  Dates: the period keys of \<^verbatim>\<open>crates/fabric-store-rqlite/src/dates.rs\<close> and the timestamp
  formatters \<^verbatim>\<open>epoch_secs_to_iso\<close> of the store and of the hub. Rust's \<open>i64\<close> division truncates
  and is \<^theory_text>\<open>sdiv\<close>/\<^theory_text>\<open>smod\<close>; \<open>div_euclid\<close>/\<open>rem_euclid\<close> by a positive number are
  \<open>div\<close>/\<open>mod\<close>. No value here leaves the range of \<open>i64\<close>, so integers are unbounded.
\<close>

section \<open>Period keys\<close>

definition days_from_civil :: "int \<Rightarrow> int \<Rightarrow> int \<Rightarrow> int" where
  "days_from_civil y0 m d =
     (let y = (if m \<le> 2 then y0 - 1 else y0);
          era = (if y \<ge> 0 then y else y - 399) sdiv 400;
          yoe = y - era * 400;
          mp = (m + (if m > 2 then - 3 else 9)) smod 12;
          doy = (153 * mp + 2) sdiv 5 + d - 1;
          doe = yoe * 365 + yoe sdiv 4 - yoe sdiv 100 + doy
      in era * 146097 + doe - 719468)"

definition iso_weekday :: "int \<Rightarrow> int" where
  "iso_weekday days = (days + 3) mod 7 + 1"

definition year_p :: "int \<Rightarrow> int" where
  "year_p y = (y + y div 4 - y div 100 + y div 400) mod 7"

definition weeks_in_year :: "int \<Rightarrow> int" where
  "weeks_in_year y = (if year_p y = 4 \<or> year_p (y - 1) = 3 then 53 else 52)"

definition parse_digits :: "string \<Rightarrow> nat \<Rightarrow> nat \<Rightarrow> int option" where
  "parse_digits b start len =
     (let ds = take len (drop start b) in
      if list_all is_ascii_digit ds then Some (int (read_nat ds)) else None)"

definition parse_ymd :: "string \<Rightarrow> (int \<times> int \<times> int) option" where
  "parse_ymd now =
     (if length now < 10 \<or> now ! 4 \<noteq> CHR ''-'' \<or> now ! 7 \<noteq> CHR ''-'' then None
      else case parse_digits now 0 4 of None \<Rightarrow> None | Some y \<Rightarrow>
        case parse_digits now 5 2 of None \<Rightarrow> None | Some m \<Rightarrow>
        case parse_digits now 8 2 of None \<Rightarrow> None | Some d \<Rightarrow>
          if \<not> (1 \<le> m \<and> m \<le> 12) \<or> \<not> (1 \<le> d \<and> d \<le> 31) then None else Some (y, m, d))"

definition day_key :: "string \<Rightarrow> string" where
  "day_key now = (if 10 \<le> length now then take 10 now else now)"

definition iso_week :: "int \<Rightarrow> int \<Rightarrow> int \<Rightarrow> int \<times> int" where
  "iso_week y m d =
     (let days = days_from_civil y m d;
          wd = iso_weekday days;
          ordinal = days - days_from_civil y 1 1 + 1;
          week = (ordinal - wd + 10) sdiv 7
      in if week < 1 then (y - 1, weeks_in_year (y - 1))
         else if weeks_in_year y < week then (y + 1, 1)
         else (y, week))"

text \<open>The \<^verbatim>\<open>{:0w}\<close> format of a signed number.\<close>

definition pad_int :: "nat \<Rightarrow> int \<Rightarrow> string" where
  "pad_int w i = (if i < 0 then ''-'' @ pad_left (w - 1) (show_nat (nat (- i)))
                  else pad_left w (show_nat (nat i)))"

definition iso_week_key :: "string \<Rightarrow> string" where
  "iso_week_key now =
     (case parse_ymd now of
        None \<Rightarrow> day_key now
      | Some (y, m, d) \<Rightarrow>
          (case iso_week y m d of (iso_year, week) \<Rightarrow> show_int iso_year @ ''-W'' @ pad_int 2 week))"

section \<open>Timestamps\<close>

definition is_leap :: "int \<Rightarrow> bool" where
  "is_leap year = (year smod 4 = 0 \<and> (year smod 100 \<noteq> 0 \<or> year smod 400 = 0))"

definition days_in_year :: "int \<Rightarrow> int" where
  "days_in_year year = (if is_leap year then 366 else 365)"

function year_loop :: "int \<Rightarrow> int \<Rightarrow> int \<times> int" where
  "year_loop days year =
     (let diy = days_in_year year in
      if days < diy then (days, year) else year_loop (days - diy) (year + 1))"
  by pat_completeness auto
termination
  by (relation "measure (\<lambda>(days, year). nat days)") (auto simp: days_in_year_def split: if_splits)

declare year_loop.simps [simp del]

definition month_lengths :: "bool \<Rightarrow> int list" where
  "month_lengths leap = [31, if leap then 29 else 28, 31, 30, 31, 30, 31, 31, 30, 31, 30, 31]"

text \<open>
  The month loop: the month index where it breaks and the days left; when it runs through, the
  month keeps its initial value 0.
\<close>

fun month_loop :: "nat \<Rightarrow> int list \<Rightarrow> int \<Rightarrow> nat \<times> int" where
  "month_loop i [] days = (0, days)"
| "month_loop i (m # ms) days =
     (if days < m then (i, days) else month_loop (i + 1) ms (days - m))"

definition civil_from_days :: "int \<Rightarrow> int \<times> nat \<times> int" where
  "civil_from_days d =
     (case year_loop d 1970 of (days, year) \<Rightarrow>
        case month_loop 0 (month_lengths (is_leap year)) days of (month, day) \<Rightarrow> (year, month, day))"

definition format_stamp :: "int \<Rightarrow> nat \<Rightarrow> int \<Rightarrow> int \<Rightarrow> int \<Rightarrow> int \<Rightarrow> string" where
  "format_stamp year month day hours mins secs =
     pad_int 4 year @ ''-'' @ pad_int 2 (int month + 1) @ ''-'' @ pad_int 2 (day + 1) @ '' ''
       @ pad_int 2 hours @ '':'' @ pad_int 2 mins @ '':'' @ pad_int 2 secs"

text \<open>The hub's formatter, on signed seconds.\<close>

definition hub_epoch_secs_to_iso :: "int \<Rightarrow> string" where
  "hub_epoch_secs_to_iso total_secs =
     (let secs = total_secs smod 60;
          mins = (total_secs sdiv 60) smod 60;
          hours = (total_secs sdiv 3600) smod 24
      in case civil_from_days (total_secs sdiv 86400) of (year, month, day) \<Rightarrow>
           format_stamp year month day hours mins secs)"

text \<open>The store's formatter: a negative count reads as the epoch.\<close>

definition store_epoch_secs_to_iso :: "int \<Rightarrow> string" where
  "store_epoch_secs_to_iso secs0 =
     (let total_secs = (if 0 \<le> secs0 then secs0 else 0);
          secs = total_secs mod 60;
          mins = (total_secs div 60) mod 60;
          hours = (total_secs div 3600) mod 24
      in case civil_from_days (total_secs div 86400) of (year, month, day) \<Rightarrow>
           format_stamp year month day hours mins secs)"

text \<open>
  The cut-off below which session nonces are pruned, from the wall clock in whole seconds since the
  epoch; before the epoch plus the skew window it is the empty string, which prunes nothing.
\<close>

definition prune_cutoff :: "int \<Rightarrow> string" where
  "prune_cutoff now_secs =
     (if 0 \<le> now_secs - 300 then store_epoch_secs_to_iso (now_secs - 300) else [])"


section \<open>The day count\<close>

lemma trunc_nonneg: "0 \<le> a \<Longrightarrow> 0 < b \<Longrightarrow> a sdiv b = a div (b :: int)"
  "0 \<le> a \<Longrightarrow> 0 < b \<Longrightarrow> a smod b = a mod (b :: int)"
  by (simp_all add: signed_divide_int_def signed_modulo_int_def sgn_if minus_mult_div_eq_mod)

lemma div_pred: "0 < k \<Longrightarrow> y div k = (y - 1) div k + (if y mod k = 0 then 1 else (0 :: int))"
proof -
  assume k: "0 < k"
  have y: "y = k * (y div k) + y mod k" and r: "0 \<le> y mod k" "y mod k < k" using k by simp_all
  show ?thesis
  proof (cases "y mod k = 0")
    case True
    then have "y - 1 = k * (y div k - 1) + (k - 1)" using y by (simp add: algebra_simps)
    then have "(y - 1) div k = y div k - 1" by (rule int_div_pos_eq) (use k in auto)
    with True show ?thesis by simp
  next
    case False
    then have "y - 1 = k * (y div k) + (y mod k - 1)" using y by simp
    then have "(y - 1) div k = y div k" by (rule int_div_pos_eq) (use r False in auto)
    with False show ?thesis by simp
  qed
qed

text \<open>The days before March of a year counted from March of year 0, and the closed form.\<close>

definition jd :: "int \<Rightarrow> int" where
  "jd y = 365 * y + y div 4 - y div 100 + y div 400"

lemma jd_era: "jd (400 * e + r) = 146097 * e + jd r"
proof -
  have "(400 * e + r) div 4 = 100 * e + r div 4" "(400 * e + r) div 100 = 4 * e + r div 100"
    "(400 * e + r) div 400 = e + r div 400"
    using div_mult_self2 [of 4 r "100 * e"] div_mult_self2 [of 100 r "4 * e"]
      div_mult_self2 [of 400 r e] by (simp_all add: algebra_simps)
  then show ?thesis by (simp add: jd_def)
qed

definition march_offset :: "int \<Rightarrow> int" where
  "march_offset m = (153 * ((m + (if m > 2 then - 3 else 9)) mod 12) + 2) div 5"

lemma days_from_civil_eq:
  assumes "1 \<le> y" and "1 \<le> m" and "m \<le> 12"
  shows "days_from_civil y m d =
    jd (if m \<le> 2 then y - 1 else y) + march_offset m + d - 719469"
proof -
  define Y where "Y = (if m \<le> 2 then y - 1 else y)"
  define e r where "e = Y div 400" and "r = Y mod 400"
  have Y: "0 \<le> Y" using assms by (auto simp: Y_def)
  have r: "0 \<le> r" "r < 400" by (simp_all add: r_def)
  have Yer: "Y = 400 * e + r" by (simp add: e_def r_def)
  define mp where "mp = (m + (if m > 2 then - 3 else 9)) mod 12"
  have "0 \<le> m + (if m > 2 then - 3 else 9)" using assms by auto
  then have mp: "(m + (if m > 2 then - 3 else 9)) smod 12 = mp" "0 \<le> mp"
    by (simp_all add: mp_def trunc_nonneg)
  have era: "(if Y \<ge> 0 then Y else Y - 399) sdiv 400 = e" using Y by (simp add: e_def trunc_nonneg)
  have yoe: "Y - e * 400 = r" by (simp add: e_def r_def minus_div_mult_eq_mod)
  have doy: "(153 * mp + 2) sdiv 5 = march_offset m"
    using mp(2) by (simp add: march_offset_def mp_def trunc_nonneg)
  have q: "r sdiv 4 = r div 4" "r sdiv 100 = r div 100" using r by (simp_all add: trunc_nonneg)
  have "days_from_civil y m d =
      e * 146097 + (r * 365 + r div 4 - r div 100 + (march_offset m + d - 1)) - 719468"
    unfolding days_from_civil_def Let_def Y_def [symmetric] era yoe mp(1) doy q ..
  moreover have "jd Y = 146097 * e + jd r" unfolding Yer by (rule jd_era)
  moreover have "r div 400 = 0" using r by simp
  moreover have "jd r = 365 * r + r div 4 - r div 100 + r div 400" by (rule jd_def)
  ultimately have "days_from_civil y m d = jd Y + march_offset m + d - 719469" by simp
  then show ?thesis unfolding Y_def .
qed

lemma is_leap_iff: "0 \<le> y \<Longrightarrow> is_leap y \<longleftrightarrow> y mod 4 = 0 \<and> (y mod 100 \<noteq> 0 \<or> y mod 400 = 0)"
  by (simp add: is_leap_def trunc_nonneg)

lemma jd_step: "0 \<le> y \<Longrightarrow> jd y = jd (y - 1) + days_in_year y"
proof -
  assume y: "0 \<le> y"
  have "jd y = jd (y - 1) + 365 + (if y mod 4 = 0 then 1 else 0)
      - (if y mod 100 = 0 then 1 else 0) + (if y mod 400 = 0 then 1 else 0)"
  proof -
    have sum3: "a = a' + p \<Longrightarrow> b = b' + q \<Longrightarrow> c = c' + r \<Longrightarrow>
        365 * y + a - b + c = 365 * (y - 1) + a' - b' + c' + 365 + p - q + r"
      for a a' b b' c c' p q r :: int by simp
    show ?thesis unfolding jd_def by (rule sum3; rule div_pred) simp_all
  qed
  also have "\<dots> = jd (y - 1) + days_in_year y"
  proof -
    have sel: "(c \<Longrightarrow> b) \<Longrightarrow> (b \<Longrightarrow> a) \<Longrightarrow>
        j + 365 + (if a then 1 else 0) - (if b then 1 else 0) + (if c then 1 else 0)
          = j + (if a \<and> (\<not> b \<or> c) then 366 else 365)" for a b c and j :: int
      by (cases a; cases b; cases c) auto
    have "y mod 400 = 0 \<Longrightarrow> y mod 100 = 0" "y mod 100 = 0 \<Longrightarrow> y mod 4 = 0"
      using mod_mod_cancel [of 100 400 y] mod_mod_cancel [of 4 100 y] by simp_all
    then show ?thesis unfolding days_in_year_def is_leap_iff [OF y] by (rule sel)
  qed
  finally show ?thesis .
qed

lemma month_cases:
  assumes "m < (12 :: nat)"
  obtains "m = 0" | "m = 1" | "m = 2" | "m = 3" | "m = 4" | "m = 5" | "m = 6" | "m = 7"
    | "m = 8" | "m = 9" | "m = 10" | "m = 11"
  using assms that by (auto simp: numeral_eq_Suc less_Suc_eq)

lemma days_from_civil_month:
  assumes "1 \<le> y" and "m < 12"
  shows "days_from_civil y (int m + 1) d =
    days_from_civil y 1 1 + sum_list (take m (month_lengths (is_leap y))) + d - 1"
  using assms jd_step [of y]
  by (cases rule: month_cases [OF assms(2)])
     (simp_all add: days_from_civil_eq march_offset_def month_lengths_def days_in_year_def numeral_eq_Suc)

lemma days_from_civil_next_year:
  "1 \<le> y \<Longrightarrow> days_from_civil (y + 1) 1 1 = days_from_civil y 1 1 + days_in_year y"
  using jd_step [of y] by (simp add: days_from_civil_eq march_offset_def)

lemma days_from_civil_1970: "days_from_civil 1970 1 1 = 0"
  by (simp add: days_from_civil_eq march_offset_def jd_def)


section \<open>From a day count to a date\<close>

lemma days_in_year_bounds: "365 \<le> days_in_year y" "days_in_year y \<le> 366"
  by (simp_all add: days_in_year_def)

lemma year_loop_spec:
  assumes "0 \<le> days" and "1 \<le> year" and "year_loop days year = (r, y)"
  shows "0 \<le> r \<and> r < days_in_year y \<and> year \<le> y \<and>
    days_from_civil year 1 1 + days = days_from_civil y 1 1 + r"
  using assms
proof (induction days year arbitrary: r y rule: year_loop.induct)
  case (1 days year)
  show ?case
  proof (cases "days < days_in_year year")
    case True
    with 1 show ?thesis by (simp add: year_loop.simps [of days year])
  next
    case False
    then have "year_loop (days - days_in_year year) (year + 1) = (r, y)"
      using 1 by (simp add: year_loop.simps [of days year])
    with 1 False show ?thesis using days_from_civil_next_year [of year] by fastforce
  qed
qed

lemma month_loop_spec:
  assumes "0 \<le> days" and "days < sum_list ms" and "month_loop i ms days = (m, r)"
  shows "\<exists>k < length ms. m = i + k \<and> 0 \<le> r \<and> r < ms ! k \<and> days = sum_list (take k ms) + r"
  using assms
proof (induction i ms days rule: month_loop.induct)
  case (1 i days)
  then show ?case by simp
next
  case (2 i l ms days)
  show ?case
  proof (cases "days < l")
    case True
    with 2 show ?thesis by (intro exI [of _ 0]) auto
  next
    case False
    with 2 obtain k where "k < length ms" "m = i + 1 + k" "0 \<le> r" "r < ms ! k"
        "days - l = sum_list (take k ms) + r" by auto
    then show ?thesis by (intro exI [of _ "Suc k"]) auto
  qed
qed

definition valid_date :: "int \<Rightarrow> nat \<Rightarrow> int \<Rightarrow> bool" where
  "valid_date y m d \<longleftrightarrow> m < 12 \<and> 0 \<le> d \<and> d < month_lengths (is_leap y) ! m"

lemma sum_month_lengths: "sum_list (month_lengths (is_leap y)) = days_in_year y"
  by (simp add: month_lengths_def days_in_year_def)

lemma length_month_lengths [simp]: "length (month_lengths l) = 12"
  by (simp add: month_lengths_def)

lemma month_lengths_le: "m < 12 \<Longrightarrow> month_lengths l ! m \<le> 31"
  by (elim month_cases) (simp_all add: month_lengths_def)

lemma civil_from_days_spec:
  assumes "0 \<le> n" and "civil_from_days n = (y, m, d)"
  shows "1970 \<le> y" and "valid_date y m d" and "days_from_civil y (int m + 1) (d + 1) = n"
proof -
  obtain r where yl: "year_loop n 1970 = (r, y)"
      and ml: "month_loop 0 (month_lengths (is_leap y)) r = (m, d)"
    using assms(2) by (auto simp: civil_from_days_def split: prod.splits)
  from year_loop_spec [OF assms(1) _ yl] have r: "0 \<le> r" "r < days_in_year y" "1970 \<le> y"
      "n = days_from_civil y 1 1 + r" by (auto simp: days_from_civil_1970)
  from month_loop_spec [OF r(1) _ ml] r(2) have m: "m < 12" "0 \<le> d" "d < month_lengths (is_leap y) ! m"
      "r = sum_list (take m (month_lengths (is_leap y))) + d"
    by (auto simp: sum_month_lengths)
  show "1970 \<le> y" by (rule r(3))
  show "valid_date y m d" using m by (simp add: valid_date_def)
  show "days_from_civil y (int m + 1) (d + 1) = n"
    using days_from_civil_month [of y m "d + 1"] m r by simp
qed

section \<open>Fixed-width numbers\<close>

lemma pad_left_digits: "list_all is_ascii_digit (pad_left w (show_nat n))"
  using show_nat_digits [of _ n] by (auto simp: pad_left_def list_all_iff is_ascii_digit_def)

lemma pad_int_nonneg: "0 \<le> i \<Longrightarrow> pad_int w i = pad_left w (show_nat (nat i))"
  by (simp add: pad_int_def)

lemma length_pad_int: "0 \<le> i \<Longrightarrow> i < 10 ^ w \<Longrightarrow> 0 < w \<Longrightarrow> length (pad_int w i) = w"
  using length_pad_show [of "nat i" w] by (simp add: pad_int_nonneg nat_less_iff)

lemma parse_digits_at:
  assumes "0 \<le> i" and "i < 10 ^ w" and "0 < w" and "b = pre @ pad_int w i @ post"
  shows "parse_digits b (length pre) w = Some i"
proof -
  have "take w (drop (length pre) b) = pad_left w (show_nat (nat i))"
    using assms length_pad_int [of i w] by (simp add: pad_int_nonneg)
  then show ?thesis using assms(1) pad_left_digits by (simp add: parse_digits_def)
qed

lemma parse_format_stamp:
  assumes "0 \<le> y" and "y < 10000" and "valid_date y m d"
  shows "parse_ymd (format_stamp y m d h mi s) = Some (y, int m + 1, d + 1)"
proof -
  let ?b = "format_stamp y m d h mi s"
  let ?rest = "'' '' @ pad_int 2 h @ '':'' @ pad_int 2 mi @ '':'' @ pad_int 2 s"
  have m: "0 \<le> int m + 1" "int m + 1 < 10 ^ 2" "0 \<le> d + 1" "d + 1 < 10 ^ 2" "int m + 1 \<le> 12" "d + 1 \<le> 31"
    using assms(3) month_lengths_le [of m "is_leap y"] by (auto simp: valid_date_def)
  have ly: "length (pad_int 4 y) = 4" using assms by (intro length_pad_int) auto
  have lm: "length (pad_int 2 (int m + 1)) = 2" and ld: "length (pad_int 2 (d + 1)) = 2"
    using m by (auto intro!: length_pad_int)
  have b: "?b = pad_int 4 y @ ''-'' @ pad_int 2 (int m + 1) @ ''-'' @ pad_int 2 (d + 1) @ ?rest"
    by (simp add: format_stamp_def)
  have "parse_digits ?b 0 4 = Some y"
    using parse_digits_at [of y 4 ?b "[]"] assms b by simp
  moreover have "parse_digits ?b 5 2 = Some (int m + 1)"
    using parse_digits_at [of "int m + 1" 2 ?b "pad_int 4 y @ ''-''"] m(1,2) b ly by simp
  moreover have "parse_digits ?b 8 2 = Some (d + 1)"
    using parse_digits_at [of "d + 1" 2 ?b "pad_int 4 y @ ''-'' @ pad_int 2 (int m + 1) @ ''-''"]
      m(3,4) b ly lm by simp
  moreover have "?b ! 4 = CHR ''-''" "?b ! 7 = CHR ''-''" "10 \<le> length ?b"
    using b ly lm ld by (simp_all add: nth_append)
  ultimately show ?thesis using m assms(3) by (auto simp: parse_ymd_def valid_date_def)
qed


section \<open>The order of dates\<close>

lemma day_count_mono:
  assumes "1 \<le> y" and "y \<le> y'"
  shows "days_from_civil y 1 1 \<le> days_from_civil y' 1 1"
  using assms(2)
proof (induction y' rule: int_ge_induct)
  case base
  then show ?case by simp
next
  case (step y')
  then show ?case
    using days_from_civil_next_year [of y'] days_in_year_bounds(1) [of y'] assms(1) by simp
qed

lemma sum_take_mono:
  "(\<And>x. x \<in> set xs \<Longrightarrow> 0 \<le> x) \<Longrightarrow> i \<le> j \<Longrightarrow> sum_list (take i xs) \<le> sum_list (take j (xs :: int list))"
proof -
  assume nn: "\<And>x. x \<in> set xs \<Longrightarrow> 0 \<le> x" and ij: "i \<le> j"
  have "take j xs = take i xs @ take (j - i) (drop i xs)"
    using ij by (metis le_add_diff_inverse take_add)
  moreover have "0 \<le> sum_list (take (j - i) (drop i xs))"
    using nn by (intro sum_list_nonneg) (meson in_set_dropD in_set_takeD)
  ultimately show ?thesis by simp
qed

lemma month_lengths_nonneg: "x \<in> set (month_lengths l) \<Longrightarrow> 0 \<le> x"
  by (auto simp: month_lengths_def split: if_splits)

lemma month_start_mono:
  assumes "m < n" and "n \<le> 12"
  shows "sum_list (take m (month_lengths l)) + month_lengths l ! m \<le> sum_list (take n (month_lengths l))"
proof -
  have "sum_list (take (Suc m) (month_lengths l)) \<le> sum_list (take n (month_lengths l))"
    using assms month_lengths_nonneg by (intro sum_take_mono) auto
  then show ?thesis using assms by (simp add: take_Suc_conv_app_nth)
qed

lemma date_before:
  assumes "1 \<le> y" "1 \<le> y'" and "valid_date y m d" and "valid_date y' m' d'"
    and "days_from_civil y (int m + 1) (d + 1) < days_from_civil y' (int m' + 1) (d' + 1)"
  shows "y < y' \<or> (y = y' \<and> (m < m' \<or> (m = m' \<and> d < d')))"
proof (rule ccontr)
  assume not: "\<not> ?thesis"
  have v: "m < 12" "0 \<le> d" "m' < 12" "d' < month_lengths (is_leap y') ! m'"
    using assms(3,4) by (auto simp: valid_date_def)
  have e: "days_from_civil y (int m + 1) (d + 1) = days_from_civil y 1 1 + sum_list (take m (month_lengths (is_leap y))) + d"
    and e': "days_from_civil y' (int m' + 1) (d' + 1) = days_from_civil y' 1 1 + sum_list (take m' (month_lengths (is_leap y'))) + d'"
    using days_from_civil_month [of y m "d + 1"] days_from_civil_month [of y' m' "d' + 1"] assms v by auto
  consider "y' < y" | "y = y'" "m' < m" | "y = y'" "m = m'" "d' \<le> d" using not by fastforce
  then show False
  proof cases
    case 1
    have "days_from_civil y' (int m' + 1) (d' + 1) < days_from_civil (y' + 1) 1 1"
    proof -
      have "take 12 (month_lengths (is_leap y')) = month_lengths (is_leap y')"
        by (rule take_all) simp
      then have "sum_list (take 12 (month_lengths (is_leap y'))) = days_in_year y'"
        by (simp only: sum_month_lengths)
      then show ?thesis
        using e' v(3,4) month_start_mono [of m' 12 "is_leap y'"] days_from_civil_next_year [OF assms(2)]
        by linarith
    qed
    also have "\<dots> \<le> days_from_civil y 1 1" using 1 assms by (intro day_count_mono) auto
    also have "\<dots> \<le> days_from_civil y (int m + 1) (d + 1)"
    proof -
      have "0 \<le> sum_list (take m (month_lengths (is_leap y)))"
        using month_lengths_nonneg by (intro sum_list_nonneg) (meson in_set_takeD)
      then show ?thesis using e v(2) by linarith
    qed
    finally show False using assms(5) by simp
  next
    case 2
    then show False using e e' v assms(5) month_start_mono [of m' m "is_leap y"] by auto
  next
    case 3
    then show False using e e' assms(5) by simp
  qed
qed

section \<open>The order of timestamps\<close>

lemma read_nat_snoc: "read_nat (s @ [c]) = read_nat s * 10 + digit_value c"
  by (simp add: read_nat_def)

lemma read_nat_append: "read_nat (a @ b) = read_nat a * 10 ^ length b + read_nat b"
proof (induction b rule: rev_induct)
  case Nil
  then show ?case by (simp add: read_nat_def)
next
  case (snoc c b)
  have "read_nat (a @ b @ [c]) = read_nat ((a @ b) @ [c])" by simp
  also have "\<dots> = read_nat (a @ b) * 10 + digit_value c" by (rule read_nat_snoc)
  finally show ?case using snoc by (simp add: read_nat_snoc algebra_simps)
qed

lemma digit_value_less: "is_ascii_digit c \<Longrightarrow> digit_value c < 10"
  by (auto simp: is_ascii_digit_def digit_value_def)

lemma read_nat_bound: "list_all is_ascii_digit s \<Longrightarrow> read_nat s < 10 ^ length s"
proof (induction s rule: rev_induct)
  case Nil
  then show ?case by (simp add: read_nat_def)
next
  case (snoc c s)
  then show ?case using digit_value_less [of c] by (simp add: read_nat_snoc)
qed

lemma digit_char_less_iff:
  "is_ascii_digit a \<Longrightarrow> is_ascii_digit b \<Longrightarrow> a < b \<longleftrightarrow> digit_value a < digit_value b"
  by (auto simp: less_char_def digit_value_def is_ascii_digit_def)

lemma read_nat_Cons: "read_nat (c # s) = digit_value c * 10 ^ length s + read_nat s"
  using read_nat_append [of "[c]" s] by (simp add: read_nat_def)

lemma digits_less:
  "length a = length b \<Longrightarrow> list_all is_ascii_digit a \<Longrightarrow> list_all is_ascii_digit b \<Longrightarrow>
     read_nat a < read_nat b \<Longrightarrow> a < b"
proof (induction a b rule: list_induct2)
  case Nil
  then show ?case by simp
next
  case (Cons x xs y ys)
  have bd: "read_nat xs < 10 ^ length ys" "read_nat ys < 10 ^ length ys"
    using Cons by (auto dest: read_nat_bound)
  have "digit_value x \<le> digit_value y"
  proof (rule ccontr)
    assume "\<not> ?thesis"
    then have "(digit_value y + 1) * 10 ^ length ys \<le> digit_value x * 10 ^ length ys" by (intro mult_right_mono) auto
    then show False using Cons bd by (simp add: read_nat_Cons)
  qed
  then consider "digit_value x < digit_value y" | "digit_value x = digit_value y" by linarith
  then show ?case
  proof cases
    case 1
    then show ?thesis using Cons digit_char_less_iff [of x y] by simp
  next
    case 2
    then have "x = y" using Cons.prems digit_char_less_iff [of x y] digit_char_less_iff [of y x] by auto
    moreover have "read_nat xs < read_nat ys" using Cons.prems 2 Cons.hyps by (simp add: read_nat_Cons)
    ultimately show ?thesis using Cons by simp
  qed
qed

lemma pad_int_less:
  assumes "0 \<le> i" "i < j" "j < 10 ^ w" "0 < w"
  shows "pad_int w i < pad_int w j"
proof (rule digits_less)
  show "length (pad_int w i) = length (pad_int w j)" using assms length_pad_int [of i w] length_pad_int [of j w] by simp
  show "read_nat (pad_int w i) < read_nat (pad_int w j)" using assms by (simp add: pad_int_nonneg)
qed (use assms pad_left_digits in \<open>simp_all add: pad_int_nonneg\<close>)

lemma append_less: "length a = length b \<Longrightarrow> a < b \<Longrightarrow> a @ x < b @ (y :: string)"
  by (induction a b rule: list_induct2) auto

lemma append_same_less [simp]: "a @ x < a @ y \<longleftrightarrow> x < (y :: string)"
  by (induction a) auto

lemma pad_int_append_less:
  "0 \<le> i \<Longrightarrow> i < j \<Longrightarrow> j < 10 ^ w \<Longrightarrow> 0 < w \<Longrightarrow> pad_int w i @ x < pad_int w j @ y"
  using length_pad_int [of i w] length_pad_int [of j w] by (intro append_less pad_int_less) auto


lemma year_before_10000:
  assumes "0 \<le> s" and "s < 253402300800" and "civil_from_days (s div 86400) = (y, m, d)"
  shows "y < 10000"
proof (rule ccontr)
  assume "\<not> y < 10000"
  have n: "0 \<le> s div 86400" "s div 86400 < 2932897" using assms by auto
  note c = civil_from_days_spec [OF n(1) assms(3)]
  have m: "m < 12" "0 \<le> d" using c(2) by (auto simp: valid_date_def)
  have "0 \<le> sum_list (take m (month_lengths (is_leap y)))"
    using month_lengths_nonneg by (intro sum_list_nonneg) (meson in_set_takeD)
  then have "days_from_civil y 1 1 \<le> s div 86400"
    using days_from_civil_month [of y m "d + 1"] c m by simp
  moreover have "days_from_civil 10000 1 1 \<le> days_from_civil y 1 1"
    using \<open>\<not> y < 10000\<close> by (intro day_count_mono) auto
  moreover have "days_from_civil 10000 1 1 = 2932897"
    by (simp add: days_from_civil_eq march_offset_def jd_def)
  ultimately show False using n(2) by simp
qed

text \<open>
  The two timestamp formatters agree from the epoch to the end of year 9999, and the date they
  print is the right one: parsing it back and counting the days to it gives the day of the instant.
\<close>

lemma timestamp_roundtrip:
  assumes "0 \<le> s" and "s < 253402300800"
  shows "hub_epoch_secs_to_iso s = store_epoch_secs_to_iso s \<and>
    (\<exists>y m d. parse_ymd (store_epoch_secs_to_iso s) = Some (y, m, d) \<and>
       days_from_civil y m d = s div 86400)"
proof -
  obtain y m d where c: "civil_from_days (s div 86400) = (y, m, d)" by (metis prod_cases3)
  have "0 \<le> s div 86400" using assms by simp
  note cs = civil_from_days_spec [OF this c]
  have "hub_epoch_secs_to_iso s = store_epoch_secs_to_iso s"
    using assms by (simp add: hub_epoch_secs_to_iso_def store_epoch_secs_to_iso_def trunc_nonneg)
  moreover have "parse_ymd (store_epoch_secs_to_iso s) = Some (y, int m + 1, d + 1)"
    using assms c cs year_before_10000 [OF assms c]
    by (simp add: store_epoch_secs_to_iso_def parse_format_stamp)
  ultimately show ?thesis using cs(3) by blast
qed

theorem timestamp_roundtrip_witness:
  "hub_epoch_secs_to_iso 1748649600 = store_epoch_secs_to_iso 1748649600"
  using timestamp_roundtrip [of 1748649600] by simp

lemma stamp_less_iff:
  assumes "0 \<le> s" "s < 253402300800" and "0 \<le> t" "t < 253402300800"
  shows "store_epoch_secs_to_iso s < store_epoch_secs_to_iso t \<longleftrightarrow> s < t"
proof -
  have mono: "store_epoch_secs_to_iso s < store_epoch_secs_to_iso t"
    if b: "0 \<le> s" "s < 253402300800" "0 \<le> t" "t < 253402300800" "s < t" for s t
  proof -
    obtain y m d where c: "civil_from_days (s div 86400) = (y, m, d)" by (metis prod_cases3)
    obtain y' m' d' where c': "civil_from_days (t div 86400) = (y', m', d')" by (metis prod_cases3)
    have n: "0 \<le> s div 86400" "0 \<le> t div 86400" using b by auto
    note cs = civil_from_days_spec [OF n(1) c] and cs' = civil_from_days_spec [OF n(2) c']
    have yb: "y < 10000" "y' < 10000" using b c c' year_before_10000 by blast+
    have md: "m' < 12" "0 \<le> d" "d < 31" "d' < 31" "0 \<le> d'"
      using cs(2) cs'(2) month_lengths_le [of m "is_leap y"] month_lengths_le [of m' "is_leap y'"]
      by (auto simp: valid_date_def)
    define hs ms ss where "hs = (s div 3600) mod 24" and "ms = (s div 60) mod 60" and "ss = s mod 60"
    define ht mt st where "ht = (t div 3600) mod 24" and "mt = (t div 60) mod 60" and "st = t mod 60"
    note defs = hs_def ms_def ss_def ht_def mt_def st_def
    have bounds: "0 \<le> hs" "ht < 24" "0 \<le> ms" "mt < 60" "0 \<le> ss" "st < 60" by (simp_all add: defs)
    have es: "store_epoch_secs_to_iso s = format_stamp y m d hs ms ss"
      and et: "store_epoch_secs_to_iso t = format_stamp y' m' d' ht mt st"
      using b c c' by (simp_all add: store_epoch_secs_to_iso_def defs)
    have "s div 86400 < t div 86400 \<or> s div 86400 = t div 86400"
      using zdiv_mono1 [of s t 86400] b by linarith
    then show ?thesis
    proof
      assume "s div 86400 < t div 86400"
      then have "y < y' \<or> (y = y' \<and> (m < m' \<or> (m = m' \<and> d < d')))"
        using date_before [of y y' m d m' d'] cs cs' by auto
      then show ?thesis
        unfolding es et format_stamp_def
      proof (elim disjE conjE)
        assume "y < y'"
        then show "pad_int 4 y @ ''-'' @ pad_int 2 (int m + 1) @ ''-'' @ pad_int 2 (d + 1) @ '' '' @
            pad_int 2 hs @ '':'' @ pad_int 2 ms @ '':'' @ pad_int 2 ss
          < pad_int 4 y' @ ''-'' @ pad_int 2 (int m' + 1) @ ''-'' @ pad_int 2 (d' + 1) @ '' '' @
            pad_int 2 ht @ '':'' @ pad_int 2 mt @ '':'' @ pad_int 2 st"
          using cs(1) yb by (intro pad_int_append_less) auto
      qed (use md in \<open>simp, intro pad_int_append_less; simp\<close>)+
    next
      assume e: "s div 86400 = t div 86400"
      have split: "x = (x div 86400) * 86400 + (x div 3600) mod 24 * 3600 + (x div 60) mod 60 * 60 + x mod 60"
        for x :: int
      proof -
        have "x div 3600 = x div 60 div 60" "x div 86400 = x div 3600 div 24"
          using zdiv_zmult2_eq [of 60 x 60] zdiv_zmult2_eq [of 24 x 3600] by simp_all
        moreover have "x0 = a * 60 + u \<Longrightarrow> a = b * 60 + v \<Longrightarrow> b = q * 24 + w \<Longrightarrow>
            x0 = q * 86400 + w * 3600 + v * 60 + u" for x0 a b q u v w :: int by simp
        ultimately show ?thesis by (metis div_mult_mod_eq)
      qed
      have "hs < ht \<or> (hs = ht \<and> (ms < mt \<or> (ms = mt \<and> ss < st)))"
      proof -
        have combine: "a < b \<Longrightarrow> a = q * 86400 + h1 * 3600 + m1 * 60 + s1 \<Longrightarrow>
            b = q * 86400 + h2 * 3600 + m2 * 60 + s2 \<Longrightarrow> 0 \<le> m1 \<Longrightarrow> m2 < 60 \<Longrightarrow> 0 \<le> s1 \<Longrightarrow> s2 < 60 \<Longrightarrow>
            h1 < h2 \<or> (h1 = h2 \<and> (m1 < m2 \<or> (m1 = m2 \<and> s1 < s2)))"
          for a b q h1 h2 m1 m2 s1 s2 :: int by arith
        show ?thesis
          by (rule combine [OF \<open>s < t\<close> split [of s, folded defs] split [of t, folded defs e]])
             (use bounds in auto)
      qed
      moreover have "y = y'" "m = m'" "d = d'" using c c' e by auto
      ultimately show ?thesis
        unfolding es et format_stamp_def
        by (elim disjE conjE)
           (simp, (intro pad_int_append_less | intro pad_int_less); use bounds in simp)+
    qed
  qed
  show ?thesis
  proof
    assume "store_epoch_secs_to_iso s < store_epoch_secs_to_iso t"
    then show "s < t" using mono [of t s] assms by (metis less_asym linorder_neqE)
  qed (use mono assms in blast)
qed

text \<open>
  Timestamps compare as strings the way the instants compare, from the epoch to the end of year
  9999: the order on which the store's \<open>expires_at > now\<close> and \<open>used_at < cutoff\<close> tests rest.
\<close>

lemma timestamp_order:
  assumes "0 \<le> s" "s < 253402300800" and "0 \<le> t" "t < 253402300800"
  shows "store_epoch_secs_to_iso s < store_epoch_secs_to_iso t \<longleftrightarrow> s < t"
  using assms by (rule stamp_less_iff)

theorem timestamp_order_witness:
  "store_epoch_secs_to_iso 1748649599 < store_epoch_secs_to_iso 1748649600"
  using timestamp_order [of 1748649599 1748649600] by simp


section \<open>ISO weeks\<close>

lemma day_count_year_p:
  "1 \<le> y \<Longrightarrow> days_from_civil y 1 1 mod 7 = 0 \<longleftrightarrow> year_p (y - 1) = 3"
  "1 \<le> y \<Longrightarrow> (days_from_civil (y + 1) 1 1 - 1) mod 7 = 0 \<longleftrightarrow> year_p y = 4"
proof -
  have jd: "jd z mod 7 = year_p z" for z
  proof -
    have "jd z = z + z div 4 - z div 100 + z div 400 + 7 * (52 * z)" by (simp add: jd_def)
    then show ?thesis unfolding year_p_def by (metis mod_mult_self2)
  qed
  have shift: "(a - 719162) mod 7 = 0 \<longleftrightarrow> a mod 7 = 3" "(a - 719163) mod 7 = 0 \<longleftrightarrow> a mod 7 = 4"
    for a :: int by presburger+
  assume y: "1 \<le> y"
  have "days_from_civil y 1 1 = jd (y - 1) - 719162" "days_from_civil (y + 1) 1 1 - 1 = jd y - 719163"
    using y by (simp_all add: days_from_civil_eq march_offset_def)
  then show "days_from_civil y 1 1 mod 7 = 0 \<longleftrightarrow> year_p (y - 1) = 3"
    and "(days_from_civil (y + 1) 1 1 - 1) mod 7 = 0 \<longleftrightarrow> year_p y = 4"
    by (simp_all only: shift jd)
qed

text \<open>A year has 53 weeks exactly when its first or its last day is a Thursday.\<close>

lemma weeks_in_year_53:
  "1 \<le> y \<Longrightarrow> weeks_in_year y =
     (if days_from_civil y 1 1 mod 7 = 0 \<or> (days_from_civil (y + 1) 1 1 - 1) mod 7 = 0 then 53 else 52)"
  by (auto simp: weeks_in_year_def day_count_year_p)

lemma thursday_offsets:
  fixes k a L :: int
  assumes a: "0 \<le> a" "a < 7" and L: "L = 365 \<or> L = 366"
    and x: "- 3 \<le> 7 * k - a" "7 * k - a \<le> L + 2"
    and w: "w = (if a = 0 \<or> (L = 366 \<and> a = 6) then 53 else (52 :: int))"
  shows "0 \<le> 7 * k - a \<Longrightarrow> (7 * k - a) div 7 + 1 \<le> w \<longleftrightarrow> 7 * k - a < L"
    and "(7 * k - a) div 7 + 1 < 1 \<longleftrightarrow> 7 * k - a < 0"
    and "L \<le> 7 * k - a \<Longrightarrow> (7 * k - a - L) div 7 + 1 = 1"
    and "L - 3 \<le> 7 * k - a \<Longrightarrow> 7 * k - a < L \<Longrightarrow> (7 * k - a) div 7 + 1 = w"
proof -
  have q: "(7 * k - a) div 7 = (if a = 0 then k else k - 1)"
  proof (cases "a = 0")
    case False
    then have "(7 * k - a) div 7 = k - 1" using a by (intro int_div_pos_eq [of _ _ _ "7 - a"]) auto
    with False show ?thesis by simp
  qed simp
  show "0 \<le> 7 * k - a \<Longrightarrow> (7 * k - a) div 7 + 1 \<le> w \<longleftrightarrow> 7 * k - a < L"
    unfolding q w using a L x by (auto; arith)
  show "(7 * k - a) div 7 + 1 < 1 \<longleftrightarrow> 7 * k - a < 0"
    unfolding q using a x by (auto; arith)
  show "L \<le> 7 * k - a \<Longrightarrow> (7 * k - a - L) div 7 + 1 = 1"
    using x by (simp add: div_pos_pos_trivial)
  show "L - 3 \<le> 7 * k - a \<Longrightarrow> 7 * k - a < L \<Longrightarrow> (7 * k - a) div 7 + 1 = w"
    unfolding q w using a L x by (auto; arith)
qed

lemma last_day_mod:
  assumes "0 \<le> a" "a < 7" and L: "L = 365 \<or> L = (366 :: int)"
  shows "(a + L - 1) mod 7 = 0 \<longleftrightarrow> (L = 365 \<and> a = 0) \<or> (L = 366 \<and> a = 6)"
proof -
  have "a = 0 \<or> a = 1 \<or> a = 2 \<or> a = 3 \<or> a = 4 \<or> a = 5 \<or> a = 6" using assms by arith
  then show ?thesis using L by (elim disjE) simp_all
qed

text \<open>The year from \<open>J\<close> to before \<open>J'\<close>, its number of weeks \<open>w\<close>, and a Thursday \<open>T\<close> around it.\<close>

lemma thursday_arith:
  fixes J J' T :: int
  assumes "T mod 7 = 0" and "J' = J + 365 \<or> J' = J + 366" and "J - 3 \<le> T" and "T \<le> J' + 2"
    and w: "w = (if J mod 7 = 0 \<or> (J' - 1) mod 7 = 0 then 53 else 52)"
  shows "J \<le> T \<Longrightarrow> (T - J) div 7 + 1 \<le> w \<longleftrightarrow> T < J'"
    and "(T - J) div 7 + 1 < 1 \<longleftrightarrow> T < J"
    and "J' \<le> T \<Longrightarrow> (T - J') div 7 + 1 = 1"
    and "J' - 3 \<le> T \<Longrightarrow> T < J' \<Longrightarrow> (T - J) div 7 + 1 = w"
proof -
  define a k L where "a = J mod 7" and "k = T div 7 - J div 7" and "L = J' - J"
  have "T = 7 * (T div 7)" "J = 7 * (J div 7) + a" using assms(1) by (auto simp: a_def)
  moreover have "x = 7 * q \<Longrightarrow> z = 7 * r + a \<Longrightarrow> x - z = 7 * (q - r) - a" for x z q r :: int by simp
  ultimately have TJ: "T - J = 7 * k - a" unfolding k_def by blast
  have J': "J' = J + L" and L: "L = 365 \<or> L = 366" using assms(2) by (auto simp: L_def)
  have a: "0 \<le> a" "a < 7" by (simp_all add: a_def)
  have "(J' - 1) mod 7 = (a + L - 1) mod 7" unfolding J' a_def by (metis mod_add_left_eq mod_diff_left_eq)
  then have w': "w = (if a = 0 \<or> (L = 366 \<and> a = 6) then 53 else 52)"
    using last_day_mod [OF a L] by (auto simp: w a_def)
  have r: "- 3 \<le> 7 * k - a" "7 * k - a \<le> L + 2" using assms(3,4) TJ J' by linarith+
  have TJ': "T - J' = 7 * k - a - L" using TJ J' by simp
  note o = thursday_offsets [OF a L r w']
  show "J \<le> T \<Longrightarrow> (T - J) div 7 + 1 \<le> w \<longleftrightarrow> T < J'"
    using o(1) TJ J' by (metis add.commute diff_ge_0_iff_ge diff_less_eq)
  show "(T - J) div 7 + 1 < 1 \<longleftrightarrow> T < J"
    using o(2) TJ by (metis diff_less_0_iff_less)
  show "J' \<le> T \<Longrightarrow> (T - J') div 7 + 1 = 1"
    unfolding TJ' using o(3) TJ J' by linarith
  show "J' - 3 \<le> T \<Longrightarrow> T < J' \<Longrightarrow> (T - J) div 7 + 1 = w"
    unfolding TJ using o(4) TJ J' by linarith
qed

lemma weekday_thursday: "(n - iso_weekday n + 4) mod 7 = 0" "1 \<le> iso_weekday n" "iso_weekday n \<le> 7"
proof -
  have "n - iso_weekday n + 4 = 7 * ((n + 3) div 7)"
    using mult_div_mod_eq [of 7 "n + 3"] unfolding iso_weekday_def by linarith
  then show "(n - iso_weekday n + 4) mod 7 = 0" by simp
qed (simp_all add: iso_weekday_def)

text \<open>
  The ISO week key is the one of the standard: the ISO year is the calendar year that contains
  the Thursday of the date's week, and the week number counts the Thursdays of that year up to it.
\<close>

lemma iso_week_thursday_rule:
  assumes "2 \<le> y" and "valid_date y m d"
  shows "let n = days_from_civil y (int m + 1) (d + 1); thursday = n - iso_weekday n + 4;
           (iy, w) = iso_week y (int m + 1) (d + 1)
         in days_from_civil iy 1 1 \<le> thursday \<and> thursday < days_from_civil (iy + 1) 1 1 \<and>
            w = (thursday - days_from_civil iy 1 1) div 7 + 1"
proof -
  define n where "n = days_from_civil y (int m + 1) (d + 1)"
  define T where "T = n - iso_weekday n + 4"
  define D where "D z = days_from_civil z 1 1" for z
  have nxt: "D (z + 1) = D z + 365 \<or> D (z + 1) = D z + 366" if "1 \<le> z" for z
    using days_from_civil_next_year [OF that] by (auto simp: D_def days_in_year_def)
  have T7: "T mod 7 = 0" unfolding T_def by (rule weekday_thursday)
  have near: "n - 3 \<le> T" "T \<le> n + 3" using weekday_thursday(2,3) [of n] by (auto simp: T_def)
  have m: "m < 12" "0 \<le> d" "d < month_lengths (is_leap y) ! m"
    using assms(2) by (auto simp: valid_date_def)
  have nD: "n = D y + sum_list (take m (month_lengths (is_leap y))) + d"
    using days_from_civil_month [of y m "d + 1"] assms m by (simp add: n_def D_def)
  have "0 \<le> sum_list (take m (month_lengths (is_leap y)))"
    using month_lengths_nonneg by (intro sum_list_nonneg) (meson in_set_takeD)
  then have lo: "D y \<le> n" using nD m by linarith
  have "take 12 (month_lengths (is_leap y)) = month_lengths (is_leap y)" by (rule take_all) simp
  then have "sum_list (take 12 (month_lengths (is_leap y))) = days_in_year y"
    by (simp only: sum_month_lengths)
  then have hi: "n < D (y + 1)"
    using nD m month_start_mono [of m 12 "is_leap y"] days_from_civil_next_year [of y] assms(1)
    unfolding D_def by linarith
  have wk: "weeks_in_year z = (if D z mod 7 = 0 \<or> (D (z + 1) - 1) mod 7 = 0 then 53 else 52)"
    if "1 \<le> z" for z using weeks_in_year_53 [OF that] by (simp add: D_def)
  have rng: "D y - 3 \<le> T" "T \<le> D (y + 1) + 2" using near lo hi by linarith+
  have y1: "1 \<le> y" "1 \<le> y - 1" using assms(1) by auto
  note o = thursday_arith [OF T7 nxt [OF y1(1)] rng wk [OF y1(1)]]
  define w where "w = (T - D y) div 7 + 1"
  have "n - D y + 1 - iso_weekday n + 10 = (T - D y) + 7" by (simp add: T_def)
  then have "(n - D y + 1 - iso_weekday n + 10) sdiv 7 = w"
    using rng by (simp add: trunc_nonneg w_def)
  then have iso: "iso_week y (int m + 1) (d + 1) =
      (if w < 1 then (y - 1, weeks_in_year (y - 1)) else if weeks_in_year y < w then (y + 1, 1) else (y, w))"
    by (simp add: iso_week_def n_def [symmetric] D_def Let_def)
  consider "w < 1" | "1 \<le> w" "weeks_in_year y < w" | "1 \<le> w" "w \<le> weeks_in_year y" by linarith
  then have "case iso_week y (int m + 1) (d + 1) of (iy, v) \<Rightarrow>
      D iy \<le> T \<and> T < D (iy + 1) \<and> v = (T - D iy) div 7 + 1"
  proof cases
    case 1
    have TD: "T < D y" using o(2) 1 w_def by simp
    have J: "D (y - 1) - 3 \<le> T" "T \<le> D (y - 1 + 1) + 2" "D (y - 1) \<le> T"
      using rng TD nxt [OF y1(2)] by auto
    have "(T - D (y - 1)) div 7 + 1 = weeks_in_year (y - 1)"
      using thursday_arith(4) [OF T7 nxt [OF y1(2)] J(1,2) wk [OF y1(2)]] rng TD by simp
    with 1 TD J show ?thesis by (simp add: iso)
  next
    case 2
    have ge: "D y \<le> T" using o(2) 2(1) w_def by linarith
    have ge': "D (y + 1) \<le> T" using o(1) [OF ge] 2(2) w_def by linarith
    have "T < D (y + 1 + 1)" using nxt [of "y + 1"] y1 rng by auto
    with 2 ge' o(3) show ?thesis by (simp add: iso)
  next
    case 3
    have ge: "D y \<le> T" using o(2) 3(1) w_def by linarith
    have "T < D (y + 1)" using o(1) [OF ge] 3(2) w_def by linarith
    with 3 ge show ?thesis by (simp add: iso w_def)
  qed
  then show ?thesis by (auto simp: Let_def n_def [symmetric] T_def [symmetric] D_def)
qed

theorem iso_week_thursday_rule_witness:
  "iso_week_key ''2021-01-03 12:00:00'' = ''2020-W53'' \<and>
   (let (iy, w) = iso_week 2021 1 3 in days_from_civil iy 1 1 \<le> 18627 - 7 + 3)"
  using iso_week_thursday_rule [of 2021 0 2] by (simp add: valid_date_def month_lengths_def) code_simp

end
