(* ===== verification/Policy.thy ===== *)
theory Policy
  imports FabricTypes Floats
begin

text \<open>
  The dispatch, completion and intent gates of \<^verbatim>\<open>crates/fabric-policy/src/lib.rs\<close>: the
  operator's policy, the budget caps, the glob matcher and the engine that turns a request into a
  decision. Reading and writing the YAML file is not modelled; a policy is the parsed record.
\<close>

section \<open>Data\<close>

record budget_policy =
  weekly_task_cap :: "i64 option"
  daily_cost_cap_usd :: "f64 option"
  weekly_cost_cap_usd :: "f64 option"

definition default_budget :: budget_policy where
  "default_budget = \<lparr>weekly_task_cap = None, daily_cost_cap_usd = None, weekly_cost_cap_usd = None\<rparr>"

record fabric_policy =
  protected_branches :: "string list"
  blocked_branches :: "string list"
  allowed_branches :: "string list"
  forbidden_paths :: "string list"
  allowed_scope_globs :: "string list"
  blocked_scope_globs :: "string list"
  require_approval_for_scopes :: "string list"
  require_approval_actions :: "string list"
  egress_allowlist :: "string list"
  max_diff_lines :: "i64 option"
  max_concurrent_tasks :: "i64 option"
  require_signed_dispatch :: bool
  daily_budget_usd :: "f64 option"
  weekly_budget_usd :: "f64 option"
  weekly_alert_threshold :: "f64 option"
  policy_budget :: budget_policy

definition default_policy :: fabric_policy where
  "default_policy =
     \<lparr>protected_branches = [], blocked_branches = [], allowed_branches = [], forbidden_paths = [],
      allowed_scope_globs = [], blocked_scope_globs = [], require_approval_for_scopes = [],
      require_approval_actions = [], egress_allowlist = [], max_diff_lines = None,
      max_concurrent_tasks = None, require_signed_dispatch = False, daily_budget_usd = None,
      weekly_budget_usd = None, weekly_alert_threshold = None, policy_budget = default_budget\<rparr>"

definition safe_default :: fabric_policy where
  "safe_default = default_policy
     \<lparr>protected_branches := [''main'', ''release/*''],
      forbidden_paths := [''.github/workflows/**'', ''secrets/**''],
      max_diff_lines := Some 2000,
      require_approval_actions := [''merge'', ''push'', ''network_egress''],
      egress_allowlist := [''pypi.org'', ''github.com''],
      daily_budget_usd := Some (Fin 5),
      weekly_budget_usd := Some (Fin 25)\<rparr>"

definition effective_budget :: "fabric_policy \<Rightarrow> budget_policy" where
  "effective_budget p =
     \<lparr>weekly_task_cap = weekly_task_cap (policy_budget p),
      daily_cost_cap_usd = opt_or (daily_budget_usd p) (daily_cost_cap_usd (policy_budget p)),
      weekly_cost_cap_usd = opt_or (weekly_budget_usd p) (weekly_cost_cap_usd (policy_budget p))\<rparr>"

definition budget_is_default :: "budget_policy \<Rightarrow> bool" where
  "budget_is_default b =
     (weekly_task_cap b = None \<and> daily_cost_cap_usd b = None \<and> weekly_cost_cap_usd b = None)"

definition has_cost_caps :: "budget_policy \<Rightarrow> bool" where
  "has_cost_caps b = (daily_cost_cap_usd b \<noteq> None \<or> weekly_cost_cap_usd b \<noteq> None)"

record policy_decision =
  allowed :: bool
  denied :: bool
  needs_approval :: bool
  reasons :: "string list"

definition decision_allow :: policy_decision where
  "decision_allow = \<lparr>allowed = True, denied = False, needs_approval = False, reasons = []\<rparr>"

definition decision_deny :: "string \<Rightarrow> policy_decision" where
  "decision_deny reason = \<lparr>allowed = False, denied = True, needs_approval = False, reasons = [reason]\<rparr>"

definition decision_require_approval :: "string \<Rightarrow> policy_decision" where
  "decision_require_approval reason =
     \<lparr>allowed = False, denied = False, needs_approval = True, reasons = [reason]\<rparr>"

definition check_cost :: "budget_policy \<Rightarrow> f64 \<Rightarrow> f64 \<Rightarrow> policy_decision" where
  "check_cost b daily_spend weekly_spend =
     opt_default decision_allow
       (opt_or
         (case daily_cost_cap_usd b of
            None \<Rightarrow> None
          | Some cap \<Rightarrow>
              if cap \<le> daily_spend
              then Some (decision_deny (''daily budget exceeded: $'' @ fmt4 daily_spend @ '' of $''
                           @ fmt4 cap @ '' cap''))
              else None)
         (case weekly_cost_cap_usd b of
            None \<Rightarrow> None
          | Some cap \<Rightarrow>
              if cap \<le> weekly_spend
              then Some (decision_deny (''weekly budget exceeded: $'' @ fmt4 weekly_spend @ '' of $''
                           @ fmt4 cap @ '' cap''))
              else None))"

section \<open>Globs\<close>

definition segment_match :: "string \<Rightarrow> string \<Rightarrow> bool" where
  "segment_match pattern v =
     (if pattern = ''*'' \<or> pattern = ''**'' then True
      else if \<not> CHR ''*'' \<in> set pattern then pattern = v
      else case strip_prefix ''*'' pattern of
             Some suf \<Rightarrow> ends_with suf v
           | None \<Rightarrow>
               (case strip_suffix ''*'' pattern of
                  Some pre \<Rightarrow> starts_with pre v
                | None \<Rightarrow> False))"

fun glob_parts_match :: "string list \<Rightarrow> string list \<Rightarrow> bool" where
  "glob_parts_match [] v = True"
| "glob_parts_match (p # ps) v =
     (if p = ''**'' then True
      else case v of
             w # ws \<Rightarrow> segment_match p w \<and> glob_parts_match ps ws
           | [] \<Rightarrow> False)"

definition glob_match :: "string \<Rightarrow> string \<Rightarrow> bool" where
  "glob_match pattern v =
     (if pattern = ''**'' then True
      else let pat = trim_end_str ''/**'' pattern in
        if \<not> CHR ''*'' \<in> set pat then v = pat \<or> starts_with (pat @ ''/'') v
        else glob_parts_match (split_on (CHR ''/'') pat) (split_on (CHR ''/'') v))"

text \<open>The normalisation shared by \<^verbatim>\<open>scopes_overlap\<close> and the working-directory checks.\<close>

definition strip_globs :: "string \<Rightarrow> string" where
  "strip_globs a = trim_end_char (CHR ''*'') (trim_end_str ''/**'' a)"

definition scopes_overlap :: "string \<Rightarrow> string \<Rightarrow> bool" where
  "scopes_overlap a b =
     (starts_with (strip_globs b) (strip_globs a) \<or> starts_with (strip_globs a) (strip_globs b))"

section \<open>The engine\<close>

record dispatch_request =
  dr_task_id :: string
  dr_scope_globs :: "string list"
  dr_target_branch :: "string option"
  dr_dispatcher_id :: "string option"
  dr_kind :: string
  dr_cwd :: "string option"

record completion_request =
  cr_task_id :: string
  cr_changed_paths :: "string list"
  cr_diff_lines :: i64

text \<open>The UTF-8 bytes of the em dash in one of the messages.\<close>

definition em_dash :: string where
  "em_dash = map char_of [226, 128, 148 :: nat]"

definition branch_checks :: "fabric_policy \<Rightarrow> string \<Rightarrow> policy_decision option" where
  "branch_checks p branch =
     opt_or
       (first_some (\<lambda>blocked.
          if glob_match blocked branch
          then Some (decision_deny (''branch '' @ [CHR 0x27] @ branch @ [CHR 0x27]
                       @ '' is blocked by policy''))
          else None) (blocked_branches p))
     (opt_or
       (if allowed_branches p \<noteq> [] \<and> \<not> list_ex (\<lambda>a. glob_match a branch) (allowed_branches p)
        then Some (decision_deny (''branch '' @ [CHR 0x27] @ branch @ [CHR 0x27]
                     @ '' not in allowed list''))
        else None)
       (first_some (\<lambda>pat.
          if glob_match pat branch
          then Some (decision_require_approval (''branch '' @ [CHR 0x27] @ branch @ [CHR 0x27]
                       @ '' is protected '' @ em_dash @ '' operator approval required''))
          else None) (protected_branches p)))"

definition scope_checks :: "fabric_policy \<Rightarrow> string \<Rightarrow> policy_decision option" where
  "scope_checks p glob =
     opt_or
       (first_some (\<lambda>blocked.
          if scopes_overlap glob blocked
          then Some (decision_deny (''scope '' @ [CHR 0x27] @ glob @ [CHR 0x27]
                       @ '' blocked by policy''))
          else None) (blocked_scope_globs p))
     (opt_or
       (first_some (\<lambda>forbidden.
          if scopes_overlap glob forbidden
          then Some (decision_deny (''scope '' @ [CHR 0x27] @ glob @ [CHR 0x27]
                       @ '' overlaps forbidden path '' @ [CHR 0x27] @ forbidden @ [CHR 0x27]))
          else None) (forbidden_paths p))
       (first_some (\<lambda>approval_scope.
          if scopes_overlap glob approval_scope
          then Some (decision_require_approval (''scope '' @ [CHR 0x27] @ glob @ [CHR 0x27]
                       @ '' requires operator approval''))
          else None) (require_approval_for_scopes p)))"

definition cwd_forbidden :: "string \<Rightarrow> string \<Rightarrow> bool" where
  "cwd_forbidden forbidden cwd =
     (glob_match forbidden cwd \<or> starts_with (strip_globs forbidden) cwd)"

definition cwd_in_scope :: "string \<Rightarrow> string \<Rightarrow> bool" where
  "cwd_in_scope cwd pre =
     (let p = strip_globs pre in p = [] \<or> starts_with p cwd)"

definition cwd_checks :: "fabric_policy \<Rightarrow> string list \<Rightarrow> string \<Rightarrow> policy_decision option" where
  "cwd_checks p globs cwd =
     opt_or
       (first_some (\<lambda>forbidden.
          if cwd_forbidden forbidden cwd
          then Some (decision_deny (''cwd '' @ [CHR 0x27] @ cwd @ [CHR 0x27]
                       @ '' overlaps forbidden path '' @ [CHR 0x27] @ forbidden @ [CHR 0x27]))
          else None) (forbidden_paths p))
       (if globs \<noteq> [] \<and> \<not> list_ex (cwd_in_scope cwd) globs
        then Some (decision_deny (''cwd '' @ [CHR 0x27] @ cwd @ [CHR 0x27]
                     @ '' is outside the allowed scope prefixes''))
        else None)"

definition evaluate_dispatch :: "fabric_policy \<Rightarrow> dispatch_request \<Rightarrow> policy_decision" where
  "evaluate_dispatch p req =
     opt_default decision_allow
       (opt_or
         (case dr_target_branch req of None \<Rightarrow> None | Some branch \<Rightarrow> branch_checks p branch)
       (opt_or
         (first_some (scope_checks p) (dr_scope_globs req))
         (if dr_kind req = ''command''
          then (case dr_cwd req of
                  None \<Rightarrow> None
                | Some cwd \<Rightarrow>
                    if cwd \<noteq> [] then cwd_checks p (dr_scope_globs req) cwd else None)
          else None)))"

definition evaluate_completion :: "fabric_policy \<Rightarrow> completion_request \<Rightarrow> policy_decision" where
  "evaluate_completion p req =
     opt_default decision_allow
       (opt_or
         (case max_diff_lines p of
            None \<Rightarrow> None
          | Some mx \<Rightarrow>
              if mx <s cr_diff_lines req
              then Some (decision_deny (''diff too large: '' @ show_int (sint (cr_diff_lines req))
                           @ '' lines exceeds policy limit of '' @ show_int (sint mx)))
              else None)
         (first_some (\<lambda>path.
            first_some (\<lambda>forbidden.
              if glob_match forbidden path
              then Some (decision_deny (''changed path '' @ [CHR 0x27] @ path @ [CHR 0x27]
                           @ '' overlaps forbidden path '' @ [CHR 0x27] @ forbidden @ [CHR 0x27]))
              else None) (forbidden_paths p)) (cr_changed_paths req)))"

definition evaluate_intent :: "fabric_policy \<Rightarrow> string \<Rightarrow> policy_decision" where
  "evaluate_intent p action =
     (if list_ex (\<lambda>a. a = action) (require_approval_actions p)
      then decision_require_approval (''action '' @ [CHR 0x27] @ action @ [CHR 0x27]
             @ '' requires operator approval per policy'')
      else decision_allow)"

section \<open>The budget enforcer and the combined gate\<close>

record budget_enforcer =
  be_policy :: budget_policy
  tasks_this_week :: i64

definition budget_enforcer_new :: "budget_policy \<Rightarrow> budget_enforcer" where
  "budget_enforcer_new p = \<lparr>be_policy = p, tasks_this_week = 0\<rparr>"

definition check_dispatch_budget :: "budget_enforcer \<Rightarrow> policy_decision" where
  "check_dispatch_budget b =
     (case weekly_task_cap (be_policy b) of
        None \<Rightarrow> decision_allow
      | Some cap \<Rightarrow>
          if cap \<le>s tasks_this_week b
          then decision_deny (''weekly task cap reached ('' @ show_int (sint cap) @ '' tasks)'')
          else decision_allow)"

definition i64_add :: "bool \<Rightarrow> i64 \<Rightarrow> i64 \<Rightarrow> i64 option" where
  "i64_add checks a b =
     (if checks \<and> sint (a + b) \<noteq> sint a + sint b then None else Some (a + b))"

definition record_dispatch :: "bool \<Rightarrow> budget_enforcer \<Rightarrow> budget_enforcer option" where
  "record_dispatch checks b =
     map_option (\<lambda>n. b\<lparr>tasks_this_week := n\<rparr>) (i64_add checks (tasks_this_week b) 1)"

definition reset_weekly :: "budget_enforcer \<Rightarrow> budget_enforcer" where
  "reset_weekly b = b\<lparr>tasks_this_week := 0\<rparr>"

record dispatch_gate =
  gate_engine :: fabric_policy
  gate_budget :: budget_enforcer

definition dispatch_gate_new :: "fabric_policy \<Rightarrow> dispatch_gate" where
  "dispatch_gate_new p =
     \<lparr>gate_engine = p, gate_budget = budget_enforcer_new (effective_budget p)\<rparr>"

definition gate_dispatch :: "dispatch_gate \<Rightarrow> dispatch_request \<Rightarrow> policy_decision" where
  "gate_dispatch g req =
     (let budget = check_dispatch_budget (gate_budget g) in
      if denied budget then budget else evaluate_dispatch (gate_engine g) req)"

definition gate_completion :: "dispatch_gate \<Rightarrow> completion_request \<Rightarrow> policy_decision" where
  "gate_completion g req = evaluate_completion (gate_engine g) req"

definition gate_intent :: "dispatch_gate \<Rightarrow> string \<Rightarrow> policy_decision" where
  "gate_intent g action = evaluate_intent (gate_engine g) action"


section \<open>What the globs match\<close>

lemma glob_parts_match_append:
  "glob_parts_match ps vs \<Longrightarrow> glob_parts_match ps (vs @ ws)"
  proof (induction ps vs rule: glob_parts_match.induct)
  case (1 v)
  then show ?case by simp
next
  case (2 p ps v)
  then show ?case by (cases v) (auto split: if_splits)
qed

lemma glob_match_star_free:
  assumes "CHR ''*'' \<notin> set (trim_end_str ''/**'' pat)"
  shows "glob_match pat v \<longleftrightarrow>
    pat = ''**'' \<or> prefix (split_on (CHR ''/'') (trim_end_str ''/**'' pat)) (split_on (CHR ''/'') v)"
  using assms by (simp add: glob_match_def prefix_split_on_iff starts_with_iff_prefix Let_def)

lemma glob_match_descendant:
  assumes "glob_match pat v"
  shows "glob_match pat (v @ ''/'' @ w)"
proof (cases "pat = ''**'' \<or> CHR ''*'' \<in> set (trim_end_str ''/**'' pat)")
  case True
  with assms show ?thesis
    by (auto simp: glob_match_def split_on_append_Cons glob_parts_match_append Let_def)
next
  case False
  with assms show ?thesis
    by (auto simp: glob_match_star_free split_on_append_Cons)
qed

lemma segment_match_starred:
  assumes "segment_match (w @ replicate n (CHR ''*'')) v" and "CHR ''*'' \<notin> set w" and "0 < n"
  shows "prefix w v"
proof (cases w)
  case Nil
  then show ?thesis by simp
next
  case (Cons c cs)
  obtain k where n: "n = Suc k" using assms(3) by (cases n) auto
  have "take k (CHR ''*'' # replicate k (CHR ''*'')) = replicate k (CHR ''*'')"
    using take_replicate [of k "Suc k" "CHR ''*''"] by simp
  moreover have "ends_with ''*'' (w @ replicate n (CHR ''*''))"
    by (simp add: n replicate_append_same [symmetric] ends_with_iff_suffix suffix_def)
  moreover have "strip_prefix ''*'' (w @ replicate n (CHR ''*'')) = None"
    using assms(2) Cons by (auto simp: strip_prefix_def starts_with_def)
  ultimately have "starts_with (w @ replicate k (CHR ''*'')) v"
    using assms Cons n
    by (auto simp: segment_match_def strip_suffix_def split: if_splits)
  then show ?thesis by (metis append_prefixD starts_with_iff_prefix)
qed

lemma glob_parts_match_starred:
  assumes "glob_parts_match (qs @ [w @ replicate n (CHR ''*'')]) vs"
    and "\<forall>q \<in> set (qs @ [w]). CHR ''*'' \<notin> set q" and "0 < n"
    and "w @ replicate n (CHR ''*'') \<noteq> ''**''"
  shows "\<exists>u us. vs = qs @ (w @ u) # us"
  using assms(1,2)
proof (induction qs arbitrary: vs)
  case Nil
  with assms(3,4) show ?case
    using segment_match_starred [of w n "hd vs"]
    by (auto simp: prefix_def split: list.splits if_splits)
next
  case (Cons q qs)
  then have q: "q \<noteq> ''**''" and qf: "CHR ''*'' \<notin> set q" by auto
  with Cons.prems obtain v vs' where v: "vs = v # vs'" "segment_match q v"
      "glob_parts_match (qs @ [w @ replicate n (CHR ''*'')]) vs'"
    by (auto split: list.splits)
  moreover have "v = q" using v(2) qf by (auto simp: segment_match_def split: if_splits)
  moreover have "\<exists>u us. vs' = qs @ (w @ u) # us" using Cons.IH [OF v(3)] Cons.prems(2) by simp
  ultimately show ?case by auto
qed

lemma join_with_prefix:
  "prefix (join_with d (qs @ [w])) (join_with d (qs @ (w @ u) # us))"
proof (cases "qs = []")
  case True
  then show ?thesis by (cases us) auto
next
  case False
  then show ?thesis by (cases us) (auto simp: join_with_append)
qed

text \<open>
  A glob whose only stars are trailing ones admits only values that start with the text before
  the stars.
\<close>

lemma glob_match_strip_prefix:
  assumes "glob_match pat v" and "CHR ''*'' \<notin> set (strip_globs pat)"
  shows "prefix (strip_globs pat) v"
proof -
  define t where "t = trim_end_str ''/**'' pat"
  define s where "s = strip_globs pat"
  obtain n where t: "t = s @ replicate n (CHR ''*'')"
    unfolding s_def strip_globs_def t_def using trim_end_char_decomp by blast
  have nt: "\<not> ends_with ''/**'' t" by (simp add: t_def trim_end_str_not_ends)
  show ?thesis
  proof (cases "pat = ''**'' \<or> s = [] \<or> n = 0")
    case True
    moreover have "pat = ''**'' \<Longrightarrow> s = []"
      by (simp add: s_def strip_globs_def trim_end_str_id ends_with_def trim_end_char_def)
    moreover have "n = 0 \<Longrightarrow> pat \<noteq> ''**'' \<Longrightarrow> prefix s v"
      using assms t
      by (auto simp: glob_match_def t_def [symmetric] s_def [symmetric] starts_with_iff_prefix Let_def
          dest: append_prefixD split: if_splits)
    ultimately show ?thesis unfolding s_def [symmetric] by fastforce
  next
    case False
    define sp where "sp = split_on (CHR ''/'') s"
    define qs w where "qs = butlast sp" and "w = last sp"
    have sp: "sp = qs @ [w]" by (simp add: qs_def w_def sp_def)
    have splt: "split_on (CHR ''/'') t = qs @ [w @ replicate n (CHR ''*'')]"
      unfolding t by (subst split_on_append_free) (auto simp: qs_def w_def sp_def)
    have "glob_parts_match (qs @ [w @ replicate n (CHR ''*'')]) (split_on (CHR ''/'') v)"
      using assms(1) False t splt
      by (auto simp: glob_match_def t_def [symmetric] Let_def split: if_splits)
    moreover have free: "\<forall>q \<in> set (qs @ [w]). CHR ''*'' \<notin> set q"
    proof
      fix q assume "q \<in> set (qs @ [w])"
      then have "q \<in> set sp" using sp by simp
      then have "set q \<subseteq> set s" by (simp add: sp_def split_on_piece_subset)
      then show "CHR ''*'' \<notin> set q" using assms(2) s_def by auto
    qed
    moreover have "w @ replicate n (CHR ''*'') \<noteq> ''**''"
    proof
      assume ww: "w @ replicate n (CHR ''*'') = ''**''"
      then have "t = join_with ''/'' (qs @ [''**''])"
        using splt join_split [of "CHR ''/''" t] by simp
      then have "t = (if qs = [] then ''**'' else join_with ''/'' qs @ ''/**'')"
        by (simp add: join_with_snoc)
      moreover have "qs = [] \<Longrightarrow> s = w" using sp join_split [of "CHR ''/''" s] sp_def by simp
      moreover have "CHR ''*'' \<notin> set w" using free by auto
      moreover from this ww have "w = []" by (cases w) auto
      ultimately show False using nt False by (auto split: if_splits)
    qed
    ultimately obtain u us where "split_on (CHR ''/'') v = qs @ (w @ u) # us"
      using glob_parts_match_starred [of qs w n] False by blast
    then have "v = join_with ''/'' (qs @ (w @ u) # us)"
      using join_split [of "CHR ''/''" v] by simp
    moreover have "s = join_with ''/'' (qs @ [w])"
      using join_split [of "CHR ''/''" s] sp sp_def by simp
    ultimately show ?thesis unfolding s_def [symmetric] using join_with_prefix by simp
  qed
qed

lemma scopes_overlap_sym: "scopes_overlap a b \<longleftrightarrow> scopes_overlap b a"
  by (auto simp: scopes_overlap_def)


section \<open>Decisions\<close>

definition decision_ok :: "policy_decision \<Rightarrow> bool" where
  "decision_ok d =
     (d = decision_allow \<or>
      (\<exists>r. reasons d = [r] \<and> (d = decision_deny r \<or> d = decision_require_approval r)))"

named_theorems decision_simps "the three decisions and their flags"

declare decision_allow_def [decision_simps] decision_deny_def [decision_simps]
  decision_require_approval_def [decision_simps]

lemma decision_ok_intros [intro, simp]:
  "decision_ok decision_allow" "decision_ok (decision_deny r)"
  "decision_ok (decision_require_approval r)"
  by (auto simp: decision_ok_def decision_simps)

lemma decision_distinct [simp]:
  "decision_allow \<noteq> decision_deny r" "decision_allow \<noteq> decision_require_approval r"
  "decision_deny r \<noteq> decision_allow" "decision_require_approval r \<noteq> decision_allow"
  "decision_deny r \<noteq> decision_require_approval r'" "decision_require_approval r' \<noteq> decision_deny r"
  by (auto simp: decision_simps)

lemma decision_flags [simp]:
  "allowed decision_allow" "\<not> denied decision_allow" "\<not> needs_approval decision_allow"
  "\<not> allowed (decision_deny r)" "denied (decision_deny r)" "\<not> needs_approval (decision_deny r)"
  "\<not> allowed (decision_require_approval r)" "\<not> denied (decision_require_approval r)"
  "needs_approval (decision_require_approval r)"
  "reasons decision_allow = []" "reasons (decision_deny r) = [r]"
  "reasons (decision_require_approval r) = [r]"
  by (simp_all add: decision_simps)

text \<open>
  What a caller of a gate relies on: it branches on \<open>denied\<close>, then on \<open>needs_approval\<close>, and takes
  the third case for an admission.
\<close>

locale decision_gate =
  fixes decide :: "'r \<Rightarrow> policy_decision"
  assumes decide_ok: "decision_ok (decide r)"
begin

lemma cases_flags:
  obtains (allow) "decide r = decision_allow"
    | (deny) x where "decide r = decision_deny x"
    | (approval) x where "decide r = decision_require_approval x"
  using decide_ok [of r] by (auto simp: decision_ok_def)

lemma exactly_one:
  "(allowed (decide r) \<and> \<not> denied (decide r) \<and> \<not> needs_approval (decide r)) \<or>
   (\<not> allowed (decide r) \<and> denied (decide r) \<and> \<not> needs_approval (decide r)) \<or>
   (\<not> allowed (decide r) \<and> \<not> denied (decide r) \<and> needs_approval (decide r))"
  by (cases rule: cases_flags [of r]) auto

lemma admitted_otherwise: "\<not> denied (decide r) \<Longrightarrow> \<not> needs_approval (decide r) \<Longrightarrow> allowed (decide r)"
  using exactly_one [of r] by blast

lemma reason_iff_not_allowed: "reasons (decide r) \<noteq> [] \<longleftrightarrow> \<not> allowed (decide r)"
  by (cases rule: cases_flags [of r]) auto

lemma allowed_iff: "allowed (decide r) \<longleftrightarrow> decide r = decision_allow"
  by (cases rule: cases_flags [of r]) auto

end

lemma opt_default_decision_ok:
  "(\<And>d. a = Some d \<Longrightarrow> decision_ok d) \<Longrightarrow> decision_ok (opt_default decision_allow a)"
  by (cases a) auto

lemma branch_checks_ok: "branch_checks p b = Some d \<Longrightarrow> decision_ok d \<and> \<not> allowed d"
  by (auto simp: branch_checks_def opt_or_Some_iff dest!: first_some_SomeD split: if_splits)

lemma scope_checks_ok: "scope_checks p g = Some d \<Longrightarrow> decision_ok d \<and> \<not> allowed d"
  by (auto simp: scope_checks_def opt_or_Some_iff dest!: first_some_SomeD split: if_splits)

lemma cwd_checks_ok: "cwd_checks p gs c = Some d \<Longrightarrow> decision_ok d \<and> \<not> allowed d"
  by (auto simp: cwd_checks_def opt_or_Some_iff dest!: first_some_SomeD split: if_splits)

lemmas checks_ok = branch_checks_ok scope_checks_ok cwd_checks_ok

lemma evaluate_dispatch_ok: "decision_ok (evaluate_dispatch p req)"
  unfolding evaluate_dispatch_def
  by (rule opt_default_decision_ok)
     (auto simp: opt_or_Some_iff dest!: first_some_SomeD checks_ok
       split: option.splits if_splits)

lemma evaluate_completion_ok: "decision_ok (evaluate_completion p req)"
  unfolding evaluate_completion_def
  by (rule opt_default_decision_ok)
     (auto simp: opt_or_Some_iff dest!: first_some_SomeD split: option.splits if_splits)

interpretation dispatch_engine: decision_gate "evaluate_dispatch p"
  by unfold_locales (rule evaluate_dispatch_ok)

interpretation completion_engine: decision_gate "evaluate_completion p"
  by unfold_locales (rule evaluate_completion_ok)

interpretation intent_engine: decision_gate "evaluate_intent p"
  by unfold_locales (simp add: evaluate_intent_def)

interpretation budget_gate: decision_gate check_dispatch_budget
  by unfold_locales (auto simp: check_dispatch_budget_def split: option.splits)

interpretation cost_gate: decision_gate "\<lambda>(daily, weekly). check_cost b daily weekly"
  by unfold_locales
     (auto simp: check_cost_def opt_or_def opt_default_def split: option.splits prod.splits if_splits)

interpretation combined_gate: decision_gate "gate_dispatch g"
  by unfold_locales
     (auto simp: gate_dispatch_def Let_def budget_gate.decide_ok dispatch_engine.decide_ok)

section \<open>When the engine admits\<close>

definition branch_clear :: "fabric_policy \<Rightarrow> string \<Rightarrow> bool" where
  "branch_clear p b \<longleftrightarrow>
     (\<forall>x \<in> set (blocked_branches p). \<not> glob_match x b) \<and>
     (allowed_branches p = [] \<or> (\<exists>x \<in> set (allowed_branches p). glob_match x b)) \<and>
     (\<forall>x \<in> set (protected_branches p). \<not> glob_match x b)"

definition scope_clear :: "fabric_policy \<Rightarrow> string \<Rightarrow> bool" where
  "scope_clear p g \<longleftrightarrow>
     (\<forall>x \<in> set (blocked_scope_globs p) \<union> set (forbidden_paths p) \<union>
        set (require_approval_for_scopes p). \<not> scopes_overlap g x)"

definition cwd_clear :: "fabric_policy \<Rightarrow> string list \<Rightarrow> string \<Rightarrow> bool" where
  "cwd_clear p gs c \<longleftrightarrow>
     (\<forall>x \<in> set (forbidden_paths p). \<not> cwd_forbidden x c) \<and>
     (gs = [] \<or> (\<exists>g \<in> set gs. cwd_in_scope c g))"

lemma branch_checks_None_iff: "branch_checks p b = None \<longleftrightarrow> branch_clear p b"
  by (auto simp: branch_checks_def branch_clear_def first_some_None_iff list_ex_iff)

lemma scope_checks_None_iff: "scope_checks p g = None \<longleftrightarrow> scope_clear p g"
  by (auto simp: scope_checks_def scope_clear_def first_some_None_iff)

lemma cwd_checks_None_iff: "cwd_checks p gs c = None \<longleftrightarrow> cwd_clear p gs c"
  by (auto simp: cwd_checks_def cwd_clear_def first_some_None_iff list_ex_iff)

lemmas checks_None_iff = branch_checks_None_iff scope_checks_None_iff cwd_checks_None_iff

lemma allowed_opt_default:
  "(\<And>d. a = Some d \<Longrightarrow> \<not> allowed d) \<Longrightarrow> allowed (opt_default decision_allow a) \<longleftrightarrow> a = None"
  by (cases a) auto

text \<open>
  The policy field \<open>allowed_scope_globs\<close> is read by no dispatch check: whatever it is set to, the
  decision is the same.
\<close>

lemma allowed_scope_globs_ignored:
  "evaluate_dispatch (p\<lparr>allowed_scope_globs := gs\<rparr>) req = evaluate_dispatch p req"
proof -
  have "scope_checks (p\<lparr>allowed_scope_globs := gs\<rparr>) = scope_checks p"
    and "cwd_checks (p\<lparr>allowed_scope_globs := gs\<rparr>) = cwd_checks p"
    and "branch_checks (p\<lparr>allowed_scope_globs := gs\<rparr>) = branch_checks p"
    by (simp_all add: fun_eq_iff scope_checks_def cwd_checks_def branch_checks_def)
  then show ?thesis by (simp add: evaluate_dispatch_def split: option.splits)
qed

text \<open>
  C21. The dispatch gate admits a request exactly when its branch is neither blocked nor protected and is in
  the branch allow-list when there is one, none of its scopes overlaps a blocked, forbidden or approval-only
  scope, and, for a command, its working directory lies outside every forbidden path and inside one of its
  scopes. No other rule counts: the decision is the same whatever the policy's list of allowed scopes
  (\<^verbatim>\<open>allowed_scope_globs\<close>) says, although its comment promises that tasks outside it are denied.
\<close>

theorem evaluate_dispatch_allowed_iff:
  "(allowed (evaluate_dispatch p req) \<longleftrightarrow>
     pred_option (branch_clear p) (dr_target_branch req) \<and>
     list_all (scope_clear p) (dr_scope_globs req) \<and>
     (dr_kind req = ''command'' \<longrightarrow>
        pred_option (\<lambda>c. c = [] \<or> cwd_clear p (dr_scope_globs req) c) (dr_cwd req)))
   \<and> evaluate_dispatch (p\<lparr>allowed_scope_globs := gs\<rparr>) req = evaluate_dispatch p req"
proof (intro conjI allowed_scope_globs_ignored)
  have "allowed (evaluate_dispatch p req) \<longleftrightarrow>
     (case dr_target_branch req of None \<Rightarrow> None | Some branch \<Rightarrow> branch_checks p branch) = None \<and>
     first_some (scope_checks p) (dr_scope_globs req) = None \<and>
     (if dr_kind req = ''command''
      then (case dr_cwd req of None \<Rightarrow> None
            | Some cwd \<Rightarrow> if cwd \<noteq> [] then cwd_checks p (dr_scope_globs req) cwd else None)
      else None) = None"
    unfolding evaluate_dispatch_def
    by (subst allowed_opt_default)
       (auto simp: opt_or_Some_iff dest!: first_some_SomeD checks_ok split: option.splits if_splits)
  then show "allowed (evaluate_dispatch p req) \<longleftrightarrow>
     pred_option (branch_clear p) (dr_target_branch req) \<and>
     list_all (scope_clear p) (dr_scope_globs req) \<and>
     (dr_kind req = ''command'' \<longrightarrow>
        pred_option (\<lambda>c. c = [] \<or> cwd_clear p (dr_scope_globs req) c) (dr_cwd req))"
    by (auto simp: checks_None_iff first_some_None_iff list_all_iff split: option.splits)
qed

theorem evaluate_dispatch_allowed_iff_witness:
  "allowed (evaluate_dispatch safe_default
     \<lparr>dr_task_id = ''t1'', dr_scope_globs = [''src/**''], dr_target_branch = Some ''agent/fix'',
      dr_dispatcher_id = None, dr_kind = ''command'', dr_cwd = Some ''src/app''\<rparr>) \<and>
   \<not> allowed (evaluate_dispatch safe_default
     \<lparr>dr_task_id = ''t2'', dr_scope_globs = [''secrets/k''], dr_target_branch = None,
      dr_dispatcher_id = None, dr_kind = ''agent'', dr_cwd = None\<rparr>)"
proof -
  have "branch_clear safe_default ''agent/fix''" by code_simp
  moreover have "scope_clear safe_default ''src/**''" by code_simp
  moreover have "cwd_clear safe_default [''src/**''] ''src/app''" by code_simp
  moreover have "\<not> scope_clear safe_default ''secrets/k''" by code_simp
  ultimately show ?thesis by (simp add: evaluate_dispatch_allowed_iff)
qed

section \<open>Soundness of the glob tests\<close>

text \<open>
  The overlap test of two scopes is sound for globs whose only stars are trailing: whenever
  some path matches both globs, the test reports an overlap.
\<close>

lemma scopes_overlap_sound:
  assumes "glob_match a v" and "glob_match b v"
    and "CHR ''*'' \<notin> set (strip_globs a)" and "CHR ''*'' \<notin> set (strip_globs b)"
  shows "scopes_overlap a b"
proof -
  have "prefix (strip_globs a) v" and "prefix (strip_globs b) v"
    using assms by (simp_all add: glob_match_strip_prefix)
  then show ?thesis
    unfolding scopes_overlap_def starts_with_iff_prefix by (metis prefix_same_cases)
qed

theorem scopes_overlap_sound_witness: "scopes_overlap ''src/*'' ''src/core/**''"
  by (rule scopes_overlap_sound [where v = "''src/core''"]) code_simp+

lemma evaluate_completion_allowed_iff:
  "allowed (evaluate_completion p req) \<longleftrightarrow>
     pred_option (\<lambda>mx. cr_diff_lines req \<le>s mx) (max_diff_lines p) \<and>
     (\<forall>v \<in> set (cr_changed_paths req). \<forall>g \<in> set (forbidden_paths p). \<not> glob_match g v)"
  unfolding evaluate_completion_def
  by (subst allowed_opt_default)
     (auto simp: opt_or_Some_iff first_some_None_iff word_sless_alt word_sle_eq
       dest!: first_some_SomeD split: option.splits if_splits)

lemma evaluate_completion_denied_iff:
  "denied (evaluate_completion p req) \<longleftrightarrow> \<not> allowed (evaluate_completion p req)"
  unfolding evaluate_completion_def
  by (auto simp: opt_default_def opt_or_Some_iff dest!: first_some_SomeD split: option.splits if_splits)

text \<open>
  With a star that is not trailing the test misses overlaps: under the shipped default policy
  a request for the scope \<^verbatim>\<open>**/id_rsa\<close> is admitted although the glob matches a file below the
  forbidden \<^verbatim>\<open>secrets/**\<close>, which the same policy refuses at completion time.
\<close>

lemma leading_star_scope_escapes_forbidden_path:
  "''secrets/**'' \<in> set (forbidden_paths safe_default) \<and>
   glob_match ''secrets/**'' ''secrets/id_rsa'' \<and> glob_match ''**/id_rsa'' ''secrets/id_rsa'' \<and>
   allowed (evaluate_dispatch safe_default
     \<lparr>dr_task_id = t, dr_scope_globs = [''**/id_rsa''], dr_target_branch = None,
      dr_dispatcher_id = d, dr_kind = ''agent'', dr_cwd = None\<rparr>) \<and>
   denied (evaluate_completion safe_default
     \<lparr>cr_task_id = t, cr_changed_paths = [''secrets/id_rsa''], cr_diff_lines = 1\<rparr>)"
proof (intro conjI)
  have "scope_clear safe_default ''**/id_rsa''" by code_simp
  then have "scope_checks safe_default ''**/id_rsa'' = None" by (simp add: scope_checks_None_iff)
  then show "allowed (evaluate_dispatch safe_default
     \<lparr>dr_task_id = t, dr_scope_globs = [''**/id_rsa''], dr_target_branch = None,
      dr_dispatcher_id = d, dr_kind = ''agent'', dr_cwd = None\<rparr>)"
    unfolding evaluate_dispatch_def by simp
  have "''secrets/**'' \<in> set (forbidden_paths safe_default)"
    and "glob_match ''secrets/**'' ''secrets/id_rsa''" by code_simp+
  then show "denied (evaluate_completion safe_default
     \<lparr>cr_task_id = t, cr_changed_paths = [''secrets/id_rsa''], cr_diff_lines = 1\<rparr>)"
    unfolding evaluate_completion_denied_iff evaluate_completion_allowed_iff by auto
qed code_simp+

text \<open>
  C22. The completion gate admits a result exactly when the diff is within the cap and no changed
  path matches a forbidden glob; and a forbidden glob that matches a path matches everything below
  it, so a forbidden directory cannot be reached through a longer path.
\<close>

theorem completion_forbids_subtree:
  "allowed (evaluate_completion p req) \<longleftrightarrow>
     pred_option (\<lambda>mx. cr_diff_lines req \<le>s mx) (max_diff_lines p) \<and>
     (\<forall>v \<in> set (cr_changed_paths req). \<forall>g \<in> set (forbidden_paths p).
        \<not> glob_match g v \<and> (\<nexists>u w. v = u @ ''/'' @ w \<and> glob_match g u))"
proof -
  have "glob_match g u \<Longrightarrow> glob_match g (u @ ''/'' @ w)" for g u w
    by (rule glob_match_descendant)
  then show ?thesis unfolding evaluate_completion_allowed_iff by blast
qed

theorem completion_forbids_subtree_witness:
  "\<not> allowed (evaluate_completion safe_default
     \<lparr>cr_task_id = ''t1'', cr_changed_paths = [''secrets/prod/key.pem''], cr_diff_lines = 3\<rparr>)"
proof -
  have "glob_match ''secrets/**'' ''secrets''" by code_simp
  moreover have "''secrets/prod/key.pem'' = ''secrets'' @ ''/'' @ ''prod/key.pem''" by simp
  moreover have "''secrets/**'' \<in> set (forbidden_paths safe_default)" by code_simp
  moreover have "''secrets/prod/key.pem'' \<in> set (cr_changed_paths \<lparr>cr_task_id = ''t1'',
      cr_changed_paths = [''secrets/prod/key.pem''], cr_diff_lines = 3\<rparr>)" by simp
  ultimately show ?thesis unfolding completion_forbids_subtree by blast
qed

text \<open>
  A protected branch is asked about before any path is looked at: on a branch that is
  protected, not blocked and in the allow-list the gate answers \<open>needs_approval\<close> whatever the scopes
  are, so a forbidden path is not denied there.
\<close>

lemma protected_branch_masks_forbidden_paths:
  assumes "dr_target_branch req = Some b"
    and "g \<in> set (protected_branches p)" and "glob_match g b"
    and "\<forall>x \<in> set (blocked_branches p). \<not> glob_match x b"
    and "allowed_branches p = [] \<or> (\<exists>x \<in> set (allowed_branches p). glob_match x b)"
  shows "needs_approval (evaluate_dispatch p (req\<lparr>dr_scope_globs := gs\<rparr>))"
proof -
  have "first_some (\<lambda>pat. if glob_match pat b then Some (decision_require_approval
          (''branch '' @ [CHR 0x27] @ b @ [CHR 0x27] @ '' is protected '' @ em_dash
            @ '' operator approval required'')) else None) (protected_branches p)
        = Some (decision_require_approval (''branch '' @ [CHR 0x27] @ b @ [CHR 0x27]
            @ '' is protected '' @ em_dash @ '' operator approval required''))"
    using assms(2,3) by (rule first_some_const)
  moreover have "first_some (\<lambda>blocked. if glob_match blocked b then Some (decision_deny
          (''branch '' @ [CHR 0x27] @ b @ [CHR 0x27] @ '' is blocked by policy'')) else None)
          (blocked_branches p) = None"
    using assms(4) by (simp add: first_some_None_iff)
  ultimately show ?thesis
    using assms(1,5)
    by (auto simp: evaluate_dispatch_def branch_checks_def list_ex_iff)
qed

theorem protected_branch_masks_forbidden_paths_witness:
  "needs_approval (evaluate_dispatch safe_default
     ((\<lparr>dr_task_id = ''t1'', dr_scope_globs = [], dr_target_branch = Some ''main'',
        dr_dispatcher_id = None, dr_kind = ''agent'', dr_cwd = None\<rparr>)
      \<lparr>dr_scope_globs := [''secrets/**'']\<rparr>))"
  by (rule protected_branch_masks_forbidden_paths [where b = "''main''" and g = "''main''"])
     (code_simp | simp)+

section \<open>The weekly task cap\<close>

fun record_n :: "bool \<Rightarrow> nat \<Rightarrow> budget_enforcer \<Rightarrow> budget_enforcer option" where
  "record_n checks 0 b = Some b"
| "record_n checks (Suc n) b = Option.bind (record_n checks n b) (record_dispatch checks)"

lemma sint_of_nat64: "n < 2 ^ 63 \<Longrightarrow> sint (of_nat n :: i64) = int n"
  using sint_wrap64 [of "int n"] by (simp add: wrap64_id)

text \<open>
  After \<open>n\<close> recorded dispatches the enforcer refuses exactly when a weekly cap is configured and
  is at most \<open>n\<close>; recording never panics below the range of the counter, and a weekly reset
  reopens the gate for every positive cap.
\<close>

lemma weekly_cap_enforced:
  assumes "n < 2 ^ 63"
  shows "\<exists>b. record_n checks n (budget_enforcer_new p) = Some b \<and>
    (denied (check_dispatch_budget b) \<longleftrightarrow>
       (\<exists>cap. weekly_task_cap p = Some cap \<and> sint cap \<le> int n)) \<and>
    (denied (check_dispatch_budget (reset_weekly b)) \<longleftrightarrow>
       (\<exists>cap. weekly_task_cap p = Some cap \<and> sint cap \<le> 0))"
proof -
  have "record_n checks n (budget_enforcer_new p) = Some \<lparr>be_policy = p, tasks_this_week = of_nat n\<rparr>"
    using assms
  proof (induction n)
    case 0
    then show ?case by (simp add: budget_enforcer_new_def)
  next
    case (Suc n)
    then have n: "n + 1 < 2 ^ 63" by simp
    then have "sint (of_nat n + 1 :: i64) = sint (of_nat n :: i64) + sint (1 :: i64)"
      using sint_of_nat64 [of "n + 1"] sint_of_nat64 [of n] by (simp add: add.commute)
    with Suc n show ?case
      by (simp add: record_dispatch_def i64_add_def add.commute)
  qed
  then show ?thesis
    using sint_of_nat64 [OF assms]
    by (auto simp: check_dispatch_budget_def reset_weekly_def word_sle_eq split: option.splits)
qed

theorem weekly_cap_enforced_witness:
  "\<exists>b. record_n True 2 (budget_enforcer_new (default_budget\<lparr>weekly_task_cap := Some 2\<rparr>)) = Some b \<and>
     denied (check_dispatch_budget b)"
  using weekly_cap_enforced [of 2 True "default_budget\<lparr>weekly_task_cap := Some 2\<rparr>"] by auto

end
