(* ===== verification/Router.thy ===== *)
theory Router
  imports Prelude
begin

text \<open>
  Capability-aware claim routing, \<^verbatim>\<open>crates/fabric-claim-router/src/lib.rs\<close>: the six gates a
  candidate task passes before a runner may take it, and the choice of the first task that passes.
\<close>

section \<open>Data and operations\<close>

record candidate_task =
  ct_scope_globs :: "string list"
  ct_required_tools :: "string list"
  ct_required_tags :: "string list"
  ct_tenant :: "string option"
  ct_workspace_root :: "string option"
  ct_require_base_commit :: bool
  ct_base_commit :: string

record runner_view =
  rv_scope_prefixes :: "string list"
  rv_tools :: "string list"
  rv_tags :: "string list"
  rv_tenant :: "string option"
  rv_workspace_root :: "string option"
  rv_last_known_commit :: "string option"

definition normalize_prefix :: "string \<Rightarrow> string" where
  "normalize_prefix p = trim_end_char (CHR ''/'') (replace_char (CHR 0x5C) (CHR ''/'') p) @ ''/''"

definition runner_view_from_raw ::
  "string list \<Rightarrow> string list \<Rightarrow> string list \<Rightarrow> string option \<Rightarrow> string option \<Rightarrow> string option
     \<Rightarrow> runner_view" where
  "runner_view_from_raw scope_prefixes tools tags tenant workspace_root last_known_commit =
     \<lparr>rv_scope_prefixes = map normalize_prefix (filter (\<lambda>p. p \<noteq> []) scope_prefixes),
      rv_tools = tools, rv_tags = tags, rv_tenant = tenant,
      rv_workspace_root = workspace_root, rv_last_known_commit = last_known_commit\<rparr>"

definition glob_wildcard :: "char \<Rightarrow> bool" where
  "glob_wildcard c = (c \<in> set [CHR ''*'', CHR ''?'', CHR ''[''])"

definition glob_static_prefix :: "string \<Rightarrow> string" where
  "glob_static_prefix glob =
     (let norm = (if CHR 0x5C \<in> set glob then replace_char (CHR 0x5C) (CHR ''/'') glob else glob);
          cut = opt_default (length norm) (find_index glob_wildcard norm);
          head = take cut norm
      in case rfind_index (\<lambda>c. c = CHR ''/'') head of
           Some i \<Rightarrow> take i head @ ''/''
         | None \<Rightarrow> [])"

definition scopes_within :: "string list \<Rightarrow> string list \<Rightarrow> bool" where
  "scopes_within task_globs runner_prefixes =
     (if runner_prefixes = [] then True
      else list_all (\<lambda>glob.
        let head = glob_static_prefix glob in
        list_ex (\<lambda>p. starts_with p head \<or> starts_with head p) runner_prefixes) task_globs)"

definition has_all_ignoring_case :: "string list \<Rightarrow> string list \<Rightarrow> bool" where
  "has_all_ignoring_case required offered =
     list_all (\<lambda>t. list_ex (\<lambda>rt. eq_ignore_ascii_case rt t) offered) required"

definition matches :: "candidate_task \<Rightarrow> runner_view \<Rightarrow> bool" where
  "matches task runner =
     (if (case ct_tenant task of Some t \<Rightarrow> rv_tenant runner \<noteq> Some t | None \<Rightarrow> False) then False
      else if (case (ct_workspace_root task, rv_workspace_root runner) of
                 (Some t_ws, Some r_ws) \<Rightarrow> t_ws \<noteq> r_ws | _ \<Rightarrow> False) then False
      else if \<not> scopes_within (ct_scope_globs task) (rv_scope_prefixes runner) then False
      else if \<not> has_all_ignoring_case (ct_required_tools task) (rv_tools runner) then False
      else if \<not> has_all_ignoring_case (ct_required_tags task) (rv_tags runner) then False
      else if ct_require_base_commit task
      then (case rv_last_known_commit runner of
              None \<Rightarrow> False | Some rc \<Rightarrow> rc = ct_base_commit task)
      else True)"

text \<open>The loop of \<^verbatim>\<open>pick_task\<close> with its two counters.\<close>

fun pick_task_from :: "nat \<Rightarrow> candidate_task list \<Rightarrow> runner_view \<Rightarrow> nat option \<times> nat" where
  "pick_task_from seen [] runner = (None, seen)"
| "pick_task_from seen (task # tasks) runner =
     (if matches task runner then (Some seen, seen + 1)
      else pick_task_from (seen + 1) tasks runner)"

definition pick_task :: "candidate_task list \<Rightarrow> runner_view \<Rightarrow> nat option \<times> nat" where
  "pick_task tasks runner = pick_task_from 0 tasks runner"

section \<open>The choice of a task\<close>

lemma pick_task_from_eq:
  "pick_task_from n tasks r =
     (case find_index (\<lambda>t. matches t r) tasks of
        Some i \<Rightarrow> (Some (n + i), n + i + 1) | None \<Rightarrow> (None, n + length tasks))"
  by (induction tasks arbitrary: n) (auto split: option.splits)

lemma pick_task_eq:
  "pick_task tasks r =
     (case find_index (\<lambda>t. matches t r) tasks of
        Some i \<Rightarrow> (Some i, i + 1) | None \<Rightarrow> (None, length tasks))"
  by (simp add: pick_task_def pick_task_from_eq split: option.splits)

text \<open>
  The router takes the first candidate that passes the match contract, and the count it reports
  is the number of candidates it looked at: all of them when none passes, and up to and including
  the chosen one otherwise.
\<close>

lemma pick_task_first_match:
  "(\<exists>i < length tasks. pick_task tasks r = (Some i, Suc i) \<and> matches (tasks ! i) r \<and>
      (\<nexists>j. j < i \<and> matches (tasks ! j) r)) \<or>
   (pick_task tasks r = (None, length tasks) \<and> (\<nexists>t. t \<in> set tasks \<and> matches t r))"
proof (cases "find_index (\<lambda>t. matches t r) tasks")
  case None
  then have "\<not> (\<exists>t \<in> set tasks. matches t r)" by (simp add: find_index_None_iff)
  with None show ?thesis by (auto simp: pick_task_eq)
next
  case (Some i)
  then show ?thesis using find_index_SomeD [OF Some] by (auto simp: pick_task_eq)
qed

section \<open>Scope affinity\<close>

lemma glob_static_prefix_decomp:
  "\<exists>rest. replace_char (CHR 0x5C) (CHR ''/'') glob = glob_static_prefix glob @ rest"
proof -
  define norm where "norm = replace_char (CHR 0x5C) (CHR ''/'') glob"
  have n: "(if CHR 0x5C \<in> set glob then replace_char (CHR 0x5C) (CHR ''/'') glob else glob) = norm"
    by (auto simp: norm_def replace_char_def intro!: map_idI [symmetric])
  define head where "head = take (opt_default (length norm) (find_index glob_wildcard norm)) norm"
  have "prefix (glob_static_prefix glob) head"
  proof (cases "rfind_index (\<lambda>c. c = CHR ''/'') head")
    case None
    then show ?thesis
      unfolding glob_static_prefix_def n Let_def head_def by simp
  next
    case (Some i)
    then have i: "i < length head" "head ! i = CHR ''/''" by (auto dest: rfind_index_SomeD)
    then have "take i head @ ''/'' = take (Suc i) head" by (simp add: take_Suc_conv_app_nth)
    moreover have "glob_static_prefix glob = take i head @ ''/''"
      using Some unfolding glob_static_prefix_def n Let_def head_def by simp
    ultimately show ?thesis by (simp add: take_is_prefix)
  qed
  moreover have "prefix head norm" by (simp add: head_def take_is_prefix)
  ultimately show ?thesis unfolding norm_def [symmetric] prefix_def by force
qed

lemma glob_static_prefix_no_wildcard: "c \<in> set (glob_static_prefix glob) \<Longrightarrow> \<not> glob_wildcard c"
proof -
  assume c: "c \<in> set (glob_static_prefix glob)"
  define norm where
    "norm = (if CHR 0x5C \<in> set glob then replace_char (CHR 0x5C) (CHR ''/'') glob else glob)"
  define cut where "cut = opt_default (length norm) (find_index glob_wildcard norm)"
  have free: "\<not> glob_wildcard x" if "x \<in> set (take cut norm)" for x
  proof (cases "find_index glob_wildcard norm")
    case None
    with that show ?thesis by (simp add: cut_def find_index_None_iff)
  next
    case (Some k)
    with that show ?thesis
      using find_index_SomeD [OF Some] by (auto simp: cut_def in_set_conv_nth)
  qed
  from c have "c \<in> set (take cut norm) \<or> c = CHR ''/''"
    unfolding glob_static_prefix_def norm_def [symmetric] cut_def [symmetric] Let_def
    by (auto simp del: take_take dest: in_set_takeD split: option.splits)
  with free show ?thesis by (auto simp: glob_wildcard_def)
qed


text \<open>
  Scope affinity means what the crate's contract says of overlap: a task fits a runner exactly
  when the runner names no prefix, or every task glob has a path that both begins with the glob's
  leading literal directory and lies below one of the runner's prefixes.
\<close>

lemma scopes_within_iff_common_path:
  "scopes_within globs rps \<longleftrightarrow>
     rps = [] \<or>
     list_all (\<lambda>g. \<exists>p v. p \<in> set rps \<and> prefix p v \<and> prefix (glob_static_prefix g) v) globs"
proof -
  have k: "(starts_with p h \<or> starts_with h p) \<longleftrightarrow> (\<exists>v. prefix p v \<and> prefix h v)" for p h
    unfolding starts_with_iff_prefix by (metis prefix_order.order_refl prefix_same_cases)
  show ?thesis
    unfolding scopes_within_def list_all_iff list_ex_iff Let_def k by (simp, blast)
qed

section \<open>The match contract\<close>

text \<open>The six clauses of the crate's documentation, as one predicate.\<close>

definition match_contract :: "candidate_task \<Rightarrow> runner_view \<Rightarrow> bool" where
  "match_contract t r \<longleftrightarrow>
     (\<forall>x. ct_tenant t = Some x \<longrightarrow> rv_tenant r = Some x) \<and>
     (\<forall>x y. ct_workspace_root t = Some x \<and> rv_workspace_root r = Some y \<longrightarrow> x = y) \<and>
     (rv_scope_prefixes r = [] \<or>
      (\<forall>g \<in> set (ct_scope_globs t). \<exists>p \<in> set (rv_scope_prefixes r).
         prefix p (glob_static_prefix g) \<or> prefix (glob_static_prefix g) p)) \<and>
     to_ascii_lowercase ` set (ct_required_tools t) \<subseteq> to_ascii_lowercase ` set (rv_tools r) \<and>
     to_ascii_lowercase ` set (ct_required_tags t) \<subseteq> to_ascii_lowercase ` set (rv_tags r) \<and>
     (ct_require_base_commit t \<longrightarrow> rv_last_known_commit r = Some (ct_base_commit t))"

lemma has_all_ignoring_case_iff:
  "has_all_ignoring_case ts rs \<longleftrightarrow> to_ascii_lowercase ` set ts \<subseteq> to_ascii_lowercase ` set rs"
  by (auto simp: has_all_ignoring_case_def list_all_iff list_ex_iff eq_ignore_ascii_case_def
      image_iff subset_iff) metis+

text \<open>
  C28. The early-return chain of the matcher implements the documented six-clause contract.
\<close>

theorem matches_iff_contract: "matches t r \<longleftrightarrow> match_contract t r"
  by (auto simp: matches_def match_contract_def has_all_ignoring_case_iff scopes_within_def
      starts_with_iff_prefix list_all_iff list_ex_iff Let_def split: option.splits)

theorem matches_iff_contract_witness:
  "matches
     \<lparr>ct_scope_globs = [''src/core/**''], ct_required_tools = [''Git''], ct_required_tags = [],
      ct_tenant = Some ''acme'', ct_workspace_root = None, ct_require_base_commit = True,
      ct_base_commit = ''c0ffee''\<rparr>
     (runner_view_from_raw [''src''] [''git''] [] (Some ''acme'') None (Some ''c0ffee''))"
proof -
  have "glob_static_prefix ''src/core/**'' = ''src/core/''" by code_simp
  moreover have "prefix ''src/'' ''src/core/''" by (simp add: prefix_def)
  moreover have "normalize_prefix ''src'' = ''src/''" by code_simp
  moreover have "to_ascii_lowercase ''Git'' = ''git''" "to_ascii_lowercase ''git'' = ''git''" by code_simp+
  ultimately show ?thesis
    unfolding matches_iff_contract
    by (simp add: match_contract_def runner_view_from_raw_def)
qed

lemma normalize_prefix_shape:
  "ends_with ''/'' (normalize_prefix p)" "CHR 0x5C \<notin> set (normalize_prefix p)"
  using trim_end_char_prefix [of "CHR ''/''" "replace_char (CHR 0x5C) (CHR ''/'') p"]
  by (auto simp: normalize_prefix_def replace_char_def dest!: set_mono_prefix split: if_splits)

lemma from_raw_no_empty_prefix:
  "p \<in> set (rv_scope_prefixes (runner_view_from_raw ps tools tags ten ws com)) \<Longrightarrow> p \<noteq> []"
  by (auto simp: runner_view_from_raw_def normalize_prefix_def)

end
