(* ===== verification/Interfaces.thy ===== *)
theory Interfaces
  imports Prelude
begin

text \<open>
  The contracts several components share, as locales: a source of sequence numbers per key, and
  (further down) the tables that record a value once. Each is interpreted on the definitions of the
  components that provide it.
\<close>

section \<open>Runs of labelled steps\<close>

fun trace_run :: "('s \<Rightarrow> 'l \<Rightarrow> 's \<Rightarrow> bool) \<Rightarrow> 's \<Rightarrow> 'l list \<Rightarrow> 's \<Rightarrow> bool" where
  "trace_run step s [] s' = (s' = s)"
| "trace_run step s (l # ls) s' = (\<exists>u. step s l u \<and> trace_run step u ls s')"

lemma trace_run_append:
  "trace_run step s (ls @ ms) t \<longleftrightarrow> (\<exists>u. trace_run step s ls u \<and> trace_run step u ms t)"
  by (induction ls arbitrary: s) auto

text \<open>The numbers issued for one key along a run; a step that issues none has label \<^const>\<open>None\<close>.\<close>

fun issued_for :: "'k \<Rightarrow> ('k \<times> nat) option list \<Rightarrow> nat list" where
  "issued_for k [] = []"
| "issued_for k (None # ls) = issued_for k ls"
| "issued_for k (Some (j, n) # ls) = (if j = k then n # issued_for k ls else issued_for k ls)"

lemma issued_for_append: "issued_for k (ls @ ms) = issued_for k ls @ issued_for k ms"
  by (induction k ls rule: issued_for.induct) auto

section \<open>Sequence numbers\<close>

text \<open>
  \<open>high\<close> is the largest number issued so far for a key. An issuing step hands out a number above it
  and records it; no step lowers it.
\<close>

locale seq_source =
  fixes high :: "'s \<Rightarrow> 'k \<Rightarrow> nat"
    and step :: "'s \<Rightarrow> ('k \<times> nat) option \<Rightarrow> 's \<Rightarrow> bool"
  assumes issue: "step s (Some (k, n)) s' \<Longrightarrow> high s k < n \<and> high s' k = n"
    and high_mono: "step s l s' \<Longrightarrow> high s j \<le> high s' j"
begin

lemma high_mono_run: "trace_run step s ls s' \<Longrightarrow> high s j \<le> high s' j"
  by (induction ls arbitrary: s) (auto dest: high_mono intro: order_trans)

lemma issued_above: "trace_run step s ls s' \<Longrightarrow> n \<in> set (issued_for k ls) \<Longrightarrow> high s k < n \<and> n \<le> high s' k"
proof (induction ls arbitrary: s)
  case Nil
  then show ?case by simp
next
  case (Cons l ls)
  then obtain u where u: "step s l u" "trace_run step u ls s'" by auto
  show ?case
  proof (cases "l = Some (k, n)")
    case True
    then show ?thesis using issue [of s k n u] u high_mono_run [OF u(2), of k] by auto
  next
    case False
    then have "n \<in> set (issued_for k ls)"
      using Cons.prems(2) by (cases l) (auto split: if_splits)
    with Cons.IH u show ?thesis using high_mono [OF u(1), of k] by fastforce
  qed
qed

lemma issued_increasing: "trace_run step s ls s' \<Longrightarrow> sorted_wrt (<) (issued_for k ls)"
proof (induction ls arbitrary: s)
  case Nil
  then show ?case by simp
next
  case (Cons l ls)
  then obtain u where u: "step s l u" "trace_run step u ls s'" by auto
  with Cons.IH have inc: "sorted_wrt (<) (issued_for k ls)" by blast
  show ?case
  proof (cases l)
    case None
    with inc show ?thesis by simp
  next
    case (Some jn)
    then show ?thesis
      using inc u issue [of s k "snd jn" u] issued_above [OF u(2)]
      by (cases jn) auto
  qed
qed

lemma issued_distinct: "trace_run step s ls s' \<Longrightarrow> distinct (issued_for k ls)"
  using issued_increasing strict_sorted_iff by blast

end

section \<open>Values that may be used once\<close>

text \<open>
  Attempts to use a value, each at a time, on states that are \<open>ok\<close>. A value on record is refused and stays on record as long as
  the times of the attempts protect its stamp; an accepted value is on record with the stamp of its
  attempt.
\<close>

fun attempts :: "('t \<Rightarrow> 'k \<Rightarrow> 's \<Rightarrow> bool \<times> 's) \<Rightarrow> ('t \<times> 'k) list \<Rightarrow> 's \<Rightarrow> bool list \<times> 's" where
  "attempts att [] s = ([], s)"
| "attempts att ((t, k) # xs) s =
     (case att t k s of (b, s1) \<Rightarrow> case attempts att xs s1 of (bs, s2) \<Rightarrow> (b # bs, s2))"

lemma length_attempts: "attempts att xs s = (bs, s') \<Longrightarrow> length bs = length xs"
  by (induction att xs s arbitrary: bs rule: attempts.induct) (auto split: prod.splits)

locale single_use =
  fixes att :: "'t \<Rightarrow> 'k \<Rightarrow> 's \<Rightarrow> bool \<times> 's"
    and ok :: "'s \<Rightarrow> bool"
    and used :: "'s \<Rightarrow> 'k \<Rightarrow> 'u \<Rightarrow> bool"
    and stamp :: "'t \<Rightarrow> 'u"
    and protects :: "'t \<Rightarrow> 'u \<Rightarrow> bool"
  assumes still_ok: "ok s \<Longrightarrow> att t k s = (b, s') \<Longrightarrow> ok s'"
    and refuse: "ok s \<Longrightarrow> used s k u \<Longrightarrow> protects t u \<Longrightarrow> att t k s = (b, s') \<Longrightarrow> \<not> b"
    and record_use: "ok s \<Longrightarrow> att t k s = (True, s') \<Longrightarrow> used s' k (stamp t)"
    and remember: "ok s \<Longrightarrow> used s k u \<Longrightarrow> protects t u \<Longrightarrow> att t j s = (b, s') \<Longrightarrow> used s' k u"
begin

lemma used_stays_refused:
  "ok s \<Longrightarrow> used s k u \<Longrightarrow> \<forall>(t, j) \<in> set xs. protects t u \<Longrightarrow> attempts att xs s = (bs, s') \<Longrightarrow>
     (\<forall>i < length xs. snd (xs ! i) = k \<longrightarrow> \<not> bs ! i)"
proof (induction xs arbitrary: s bs)
  case Nil
  then show ?case by simp
next
  case (Cons x xs)
  obtain t j where x: "x = (t, j)" by fastforce
  obtain b s1 where a: "att t j s = (b, s1)" by fastforce
  obtain cs where cs: "attempts att xs s1 = (cs, s')" "bs = b # cs"
    using Cons.prems(4) a by (auto simp: x split: prod.splits)
  have prot: "protects t u" using Cons.prems(3) by (simp add: x)
  have "used s1 k u" using remember [OF Cons.prems(1,2) prot a] .
  then have rest: "\<forall>i < length xs. snd (xs ! i) = k \<longrightarrow> \<not> cs ! i"
    using Cons.IH [OF still_ok [OF Cons.prems(1) a] _ _ cs(1)] Cons.prems(3) by simp
  have "j = k \<Longrightarrow> \<not> b" using refuse [OF Cons.prems(1,2) prot] a by blast
  with rest show ?case by (auto simp: cs(2) x nth_Cons' less_Suc_eq_0_disj)
qed

lemma accepted_once:
  assumes "ok s" "att t k s = (True, s1)" "attempts att xs s1 = (bs, s')"
    and "\<forall>(x, j) \<in> set xs. protects x (stamp t)"
  shows "\<forall>i < length xs. snd (xs ! i) = k \<longrightarrow> \<not> bs ! i"
  using used_stays_refused [OF still_ok [OF assms(1,2)] record_use [OF assms(1,2)] assms(4,3)] .

end

section \<open>Names bound to keys\<close>

text \<open>
  A registration names an identity and a key. Unless it evicts the identity, it leaves a binding as it
  is, and it fails when it asks for another key than the bound one.
\<close>

fun registers :: "('r \<Rightarrow> 's \<Rightarrow> bool \<times> 's) \<Rightarrow> 'r list \<Rightarrow> 's \<Rightarrow> bool list \<times> 's" where
  "registers reg [] s = ([], s)"
| "registers reg (r # rs) s =
     (case reg r s of (b, s1) \<Rightarrow> case registers reg rs s1 of (bs, s2) \<Rightarrow> (b # bs, s2))"

fun unevicted :: "('r \<Rightarrow> 's \<Rightarrow> bool \<times> 's) \<Rightarrow> ('r \<Rightarrow> 's \<Rightarrow> 'i \<Rightarrow> bool) \<Rightarrow> 'i \<Rightarrow> 'r list \<Rightarrow> 's \<Rightarrow> bool" where
  "unevicted reg evicts i [] s = True"
| "unevicted reg evicts i (r # rs) s = (\<not> evicts r s i \<and> unevicted reg evicts i rs (snd (reg r s)))"

locale key_registry =
  fixes register :: "'r \<Rightarrow> 's \<Rightarrow> bool \<times> 's"
    and req_id :: "'r \<Rightarrow> 'i" and req_key :: "'r \<Rightarrow> 'k"
    and bound :: "'s \<Rightarrow> 'i \<Rightarrow> 'k option"
    and evicts :: "'r \<Rightarrow> 's \<Rightarrow> 'i \<Rightarrow> bool"
  assumes keeps_binding: "bound s i = Some k \<Longrightarrow> \<not> evicts r s i \<Longrightarrow> register r s = (b, s') \<Longrightarrow> bound s' i = Some k"
    and refuses: "bound s (req_id r) = Some k \<Longrightarrow> \<not> evicts r s (req_id r) \<Longrightarrow> req_key r \<noteq> k \<Longrightarrow>
        register r s = (b, s') \<Longrightarrow> \<not> b"
begin

lemma binding_forever:
  "bound s i = Some k \<Longrightarrow> unevicted register evicts i rs s \<Longrightarrow> registers register rs s = (bs, s') \<Longrightarrow>
     bound s' i = Some k \<and> (\<forall>j < length rs. req_id (rs ! j) = i \<and> req_key (rs ! j) \<noteq> k \<longrightarrow> \<not> bs ! j)"
proof (induction rs arbitrary: s bs)
  case Nil
  then show ?case by simp
next
  case (Cons r rs)
  obtain b s1 where r: "register r s = (b, s1)" by fastforce
  obtain cs where cs: "registers register rs s1 = (cs, s')" "bs = b # cs"
    using Cons.prems(3) r by (auto split: prod.splits)
  have e: "\<not> evicts r s i" "unevicted register evicts i rs s1" using Cons.prems(2) r by simp_all
  have "bound s1 i = Some k" using keeps_binding [OF Cons.prems(1) e(1) r] .
  then have rest: "bound s' i = Some k"
    "\<forall>j < length rs. req_id (rs ! j) = i \<and> req_key (rs ! j) \<noteq> k \<longrightarrow> \<not> cs ! j"
    using Cons.IH [OF _ e(2) cs(1)] by blast+
  have "req_id r = i \<Longrightarrow> req_key r \<noteq> k \<Longrightarrow> \<not> b"
    using refuses [OF _ _ _ r] Cons.prems(1) e(1) by blast
  with rest show ?case by (auto simp: cs(2) nth_Cons' less_Suc_eq_0_disj)
qed

end

section \<open>Versions that only move forward\<close>

text \<open>
  A conditional write names the version it was made for. It succeeds only at that version, which is at
  least the one the caller started from, and leaves a later one; nothing lowers the version.
\<close>

text \<open>The versions the successful writes of a sequence were made for.\<close>

primrec writes_won :: "('v \<Rightarrow> int \<Rightarrow> 's \<Rightarrow> bool \<times> 's) \<Rightarrow> ('v \<times> int) list \<Rightarrow> 's \<Rightarrow> int list" where
  "writes_won put [] s = []"
| "writes_won put (x # xs) s =
     (case put (fst x) (snd x) s of (b, s1) \<Rightarrow> (if b then [snd x] else []) @ writes_won put xs s1)"

locale version_register =
  fixes version :: "'s \<Rightarrow> int"
    and put :: "'v \<Rightarrow> int \<Rightarrow> 's \<Rightarrow> bool \<times> 's"
    and ok :: "'s \<Rightarrow> bool"
  assumes put_ok: "ok s \<Longrightarrow> put v e s = (b, s') \<Longrightarrow> ok s' \<and> version s \<le> version s'"
    and put_wins: "ok s \<Longrightarrow> put v e s = (True, s') \<Longrightarrow> version s \<le> e \<and> e < version s'"
begin

lemma won_above: "ok s \<Longrightarrow> e \<in> set (writes_won put xs s) \<Longrightarrow> version s \<le> e"
proof (induction xs arbitrary: s)
  case (Cons x xs)
  obtain b s1 where p: "put (fst x) (snd x) s = (b, s1)" by fastforce
  from put_ok [OF Cons.prems(1) p] have s1: "ok s1" "version s \<le> version s1" by auto
  show ?case
    using Cons.IH [OF s1(1)] s1(2) put_wins [OF Cons.prems(1)] p Cons.prems(2)
    by (cases b) fastforce+
qed simp

lemma won_increasing: "ok s \<Longrightarrow> sorted_wrt (<) (writes_won put xs s)"
proof (induction xs arbitrary: s)
  case (Cons x xs)
  obtain b s1 where p: "put (fst x) (snd x) s = (b, s1)" by fastforce
  from put_ok [OF Cons.prems p] have s1: "ok s1" by auto
  show ?case
  proof (cases b)
    case True
    with p have "put (fst x) (snd x) s = (True, s1)" by simp
    then have "snd x < version s1" using put_wins [OF Cons.prems] by blast
    then have "\<forall>e \<in> set (writes_won put xs s1). snd x < e" using won_above [OF s1] by fastforce
    then show ?thesis using Cons.IH [OF s1] p True by simp
  next
    case False
    then show ?thesis using Cons.IH [OF s1] p by simp
  qed
qed simp

end

end
