(* ===== verification/Streams.thy ===== *)
theory Streams
  imports Interfaces "HOL-Library.Word"
begin

text \<open>
  Stream-sequence accounting and bounded write buffering,
  \<^verbatim>\<open>crates/fabric-streams/src/lib.rs\<close>: the per-task counter, and the per-task buffer with its
  durability profiles. Each operation runs under the mutex of its structure, so an interleaving of
  callers is a sequence of operations. Task ids are the keys of both maps.
\<close>

section \<open>Durability profiles\<close>

datatype durability_profile = Strict | Balanced | Throughput

definition from_profile_str :: "string \<Rightarrow> durability_profile" where
  "from_profile_str s =
     (let l = to_ascii_lowercase s in
      if l = ''balanced'' then Balanced else if l = ''throughput'' then Throughput else Strict)"

fun profile_as_str :: "durability_profile \<Rightarrow> string" where
  "profile_as_str Strict = ''strict''"
| "profile_as_str Balanced = ''balanced''"
| "profile_as_str Throughput = ''throughput''"

fun flush_threshold :: "durability_profile \<Rightarrow> nat" where
  "flush_threshold Strict = 1"
| "flush_threshold Balanced = 50"
| "flush_threshold Throughput = 200"

fun profile_cap :: "durability_profile \<Rightarrow> nat" where
  "profile_cap Strict = 1"
| "profile_cap Balanced = 500"
| "profile_cap Throughput = 2000"

lemma profile_str_roundtrip: "from_profile_str (profile_as_str p) = p"
  by (cases p) (simp_all add: from_profile_str_def to_ascii_lowercase_def ascii_lower_char_def)

section \<open>The sequence counter\<close>

type_synonym u64 = "64 word"

type_synonym stream_counter = "int \<Rightarrow> u64 option"

definition counter_new :: stream_counter where
  "counter_new = (\<lambda>_. None)"

definition counter_prime :: "int \<Rightarrow> u64 \<Rightarrow> stream_counter \<Rightarrow> stream_counter" where
  "counter_prime task current_max c =
     (let e = opt_default 0 (c task) in c(task \<mapsto> (if e < current_max then current_max else e)))"

definition is_primed :: "int \<Rightarrow> stream_counter \<Rightarrow> bool" where
  "is_primed task c = (c task \<noteq> None)"

text \<open>
  \<^verbatim>\<open>*entry += 1\<close> on a \<open>u64\<close>: with overflow checks it panics at the top of the range, without
  them it wraps to 0. \<open>Overflowed\<close> is the panic.
\<close>

datatype seq_reply = NotPrimed | Seq u64 | Overflowed

definition next_seq :: "bool \<Rightarrow> int \<Rightarrow> stream_counter \<Rightarrow> seq_reply \<times> stream_counter" where
  "next_seq checks task c =
     (case c task of
        None \<Rightarrow> (NotPrimed, c)
      | Some e \<Rightarrow>
          if checks \<and> e = - 1 then (Overflowed, c)
          else (Seq (e + 1), c(task \<mapsto> e + 1)))"

definition counter_forget :: "int \<Rightarrow> stream_counter \<Rightarrow> stream_counter" where
  "counter_forget task c = c(task := None)"

definition counter_task_count :: "stream_counter \<Rightarrow> nat" where
  "counter_task_count c = card (dom c)"

datatype counter_op = OpPrime int u64 | OpNext int | OpForget int

fun counter_step :: "bool \<Rightarrow> counter_op \<Rightarrow> stream_counter \<Rightarrow> seq_reply option \<times> stream_counter" where
  "counter_step checks (OpPrime t m) c = (None, counter_prime t m c)"
| "counter_step checks (OpNext t) c = (case next_seq checks t c of (r, c') \<Rightarrow> (Some r, c'))"
| "counter_step checks (OpForget t) c = (None, counter_forget t c)"

text \<open>The numbers handed out for one task by a sequence of operations, oldest first.\<close>

fun issued_seqs :: "bool \<Rightarrow> int \<Rightarrow> counter_op list \<Rightarrow> stream_counter \<Rightarrow> u64 list" where
  "issued_seqs checks t [] c = []"
| "issued_seqs checks t (op # ops) c =
     (case counter_step checks op c of (r, c') \<Rightarrow>
        (case (op, r) of (OpNext u, Some (Seq s)) \<Rightarrow> if u = t then [s] else [] | _ \<Rightarrow> [])
        @ issued_seqs checks t ops c')"

fun no_forget :: "int \<Rightarrow> counter_op list \<Rightarrow> bool" where
  "no_forget t ops = list_all (\<lambda>op. op \<noteq> OpForget t) ops"

section \<open>The write buffer\<close>

record pending_entry =
  pe_task_id :: int
  pe_worker_id :: string
  pe_channel :: string
  pe_line :: string
  pe_ts :: string

record stream_buffer =
  sb_profile :: durability_profile
  sb_pending :: "int \<Rightarrow> pending_entry list option"

definition buffer_new :: "durability_profile \<Rightarrow> stream_buffer" where
  "buffer_new p = \<lparr>sb_profile = p, sb_pending = (\<lambda>_. None)\<rparr>"

definition buffered :: "stream_buffer \<Rightarrow> int \<Rightarrow> pending_entry list" where
  "buffered b t = opt_default [] (sb_pending b t)"

definition buffer_extend ::
  "int \<Rightarrow> pending_entry list \<Rightarrow> stream_buffer \<Rightarrow> pending_entry list option \<times> stream_buffer" where
  "buffer_extend t es b =
     (let q = buffered b t @ es in
      if flush_threshold (sb_profile b) \<le> length q \<or> profile_cap (sb_profile b) \<le> length q
      then (Some q, b\<lparr>sb_pending := (sb_pending b)(t \<mapsto> [])\<rparr>)
      else (None, b\<lparr>sb_pending := (sb_pending b)(t \<mapsto> q)\<rparr>))"

definition buffer_push ::
  "int \<Rightarrow> string \<Rightarrow> string \<Rightarrow> string \<Rightarrow> string \<Rightarrow> stream_buffer
     \<Rightarrow> pending_entry list option \<times> stream_buffer" where
  "buffer_push t worker channel line ts b =
     buffer_extend t [\<lparr>pe_task_id = t, pe_worker_id = worker, pe_channel = channel,
                       pe_line = line, pe_ts = ts\<rparr>] b"

definition buffer_push_bulk ::
  "int \<Rightarrow> pending_entry list \<Rightarrow> stream_buffer \<Rightarrow> pending_entry list option \<times> stream_buffer" where
  "buffer_push_bulk t es b = (if es = [] then (None, b) else buffer_extend t es b)"

definition buffer_flush_task :: "int \<Rightarrow> stream_buffer \<Rightarrow> pending_entry list \<times> stream_buffer" where
  "buffer_flush_task t b =
     (case sb_pending b t of
        None \<Rightarrow> ([], b)
      | Some q \<Rightarrow> (q, b\<lparr>sb_pending := (sb_pending b)(t \<mapsto> [])\<rparr>))"

definition buffer_forget :: "int \<Rightarrow> stream_buffer \<Rightarrow> stream_buffer" where
  "buffer_forget t b = b\<lparr>sb_pending := (sb_pending b)(t := None)\<rparr>"

definition buffered_line_count :: "stream_buffer \<Rightarrow> nat" where
  "buffered_line_count b = (\<Sum>t \<in> dom (sb_pending b). length (buffered b t))"

definition buffered_task_count :: "stream_buffer \<Rightarrow> nat" where
  "buffered_task_count b = card {t \<in> dom (sb_pending b). buffered b t \<noteq> []}"


section \<open>The counter is a source of sequence numbers\<close>

definition counter_high :: "stream_counter \<Rightarrow> int \<Rightarrow> nat" where
  "counter_high c t = unat (opt_default 0 (c t))"

fun op_label :: "counter_op \<Rightarrow> seq_reply option \<Rightarrow> (int \<times> nat) option" where
  "op_label (OpNext t) (Some (Seq n)) = Some (t, unat n)"
| "op_label _ _ = None"

text \<open>A step of the counter that forgets nothing and does not wrap.\<close>

definition counter_lstep ::
  "bool \<Rightarrow> stream_counter \<Rightarrow> (int \<times> nat) option \<Rightarrow> stream_counter \<Rightarrow> bool" where
  "counter_lstep checks c l c' \<longleftrightarrow>
     (\<exists>op r. counter_step checks op c = (r, c') \<and> l = op_label op r \<and>
        (\<forall>t. op \<noteq> OpForget t) \<and> (\<forall>t. op = OpNext t \<longrightarrow> checks \<or> c t \<noteq> Some (- 1)))"

lemma unat_succ: "e \<noteq> - 1 \<Longrightarrow> unat (e + 1 :: u64) = unat e + 1"
  using unatSuc [of e] max_word_wrap [of e] by (auto simp: add.commute)


lemma op_label_Some:
  "op_label op r = Some (k, n) \<longleftrightarrow> op = OpNext k \<and> (\<exists>w. r = Some (Seq w) \<and> n = unat w)"
  by (cases "(op, r)" rule: op_label.cases) auto

lemma next_seq_Seq:
  "next_seq checks t c = (Seq w, c') \<longleftrightarrow>
     (\<exists>e. c t = Some e \<and> \<not> (checks \<and> e = - 1) \<and> w = e + 1 \<and> c' = c(t \<mapsto> e + 1))"
  by (auto simp: next_seq_def split: option.splits)

interpretation counter: seq_source counter_high "counter_lstep checks"
proof
  fix s k n s'
  assume "counter_lstep checks s (Some (k, n)) s'"
  then show "counter_high s k < n \<and> counter_high s' k = n"
    by (auto simp: counter_lstep_def counter_high_def op_label_Some next_seq_Seq unat_succ
        dest!: sym [of "Some (k, n)"] split: prod.splits)
next
  fix s l s' j
  assume "counter_lstep checks s l s'"
  then obtain op r where s: "counter_step checks op s = (r, s')" "\<forall>t. op \<noteq> OpForget t"
      "\<forall>t. op = OpNext t \<longrightarrow> checks \<or> s t \<noteq> Some (- 1)"
    unfolding counter_lstep_def by auto
  show "counter_high s j \<le> counter_high s' j"
    using s
    by (cases op)
       (auto simp: counter_high_def counter_prime_def next_seq_def unat_succ word_le_nat_alt
         word_less_nat_alt Let_def split: option.splits if_splits)
qed

fun counter_labels :: "bool \<Rightarrow> counter_op list \<Rightarrow> stream_counter \<Rightarrow> (int \<times> nat) option list" where
  "counter_labels checks [] c = []"
| "counter_labels checks (op # ops) c =
     (case counter_step checks op c of (r, c') \<Rightarrow> op_label op r # counter_labels checks ops c')"

lemma issued_for_labels:
  "issued_for t (counter_labels checks ops c) = map unat (issued_seqs checks t ops c)"
proof (induction ops arbitrary: c)
  case Nil
  then show ?case by simp
next
  case (Cons op ops)
  show ?case
  proof (cases op)
    case (OpNext u)
    obtain rep c' where "next_seq checks u c = (rep, c')" by fastforce
    with OpNext Cons.IH show ?thesis by (cases rep) auto
  qed (use Cons.IH in auto)
qed

text \<open>The room a counter needs so that \<open>n\<close> more operations cannot wrap it.\<close>

definition room :: "nat \<Rightarrow> counter_op list \<Rightarrow> stream_counter \<Rightarrow> bool" where
  "room n ops c \<longleftrightarrow>
     (\<forall>t. counter_high c t + n < 2 ^ 64) \<and> (\<forall>t m. OpPrime t m \<in> set ops \<longrightarrow> unat m + n < 2 ^ 64)"

lemma room_step:
  assumes "room (Suc n) (op # ops) c" and "counter_step checks op c = (r, c')"
  shows "room n ops c'" and "c t \<noteq> Some (- 1)"
proof -
  show c: "c t \<noteq> Some (- 1)" for t
  proof
    assume "c t = Some (- 1)"
    moreover have "unat (- 1 :: u64) = 2 ^ 64 - 1" 
      by (simp only: unsigned_minus_1_eq_mask) (simp add: mask_eq_exp_minus_1)
    ultimately have "counter_high c t = 2 ^ 64 - 1" by (simp add: counter_high_def)
    moreover have "counter_high c t + Suc n < 2 ^ 64" using assms(1) unfolding room_def by blast
    ultimately show False by simp
  qed
  have "counter_high c' t + n < 2 ^ 64" for t
  proof -
    have "counter_high c t + Suc n < 2 ^ 64" using assms(1) unfolding room_def by blast
    moreover have "op = OpPrime u m \<Longrightarrow> unat m + Suc n < 2 ^ 64" for u m
      using assms(1) unfolding room_def by simp
    moreover have "unat (e + 1) = unat e + 1" if "c u = Some e" for u e
      using c [of u] that by (intro unat_succ) auto
    ultimately show ?thesis
      using assms(2)
      by (cases op)
         (auto simp: counter_high_def counter_prime_def counter_forget_def next_seq_def Let_def
           split: option.splits if_splits)
  qed
  then show "room n ops c'" using assms(1) by (fastforce simp: room_def)
qed

lemma counter_labels_run:
  assumes "room (length ops) ops c" and "\<forall>t. OpForget t \<notin> set ops"
  shows "\<exists>c'. trace_run (counter_lstep checks) c (counter_labels checks ops c) c'"
  using assms
proof (induction ops arbitrary: c)
  case Nil
  then show ?case by simp
next
  case (Cons op ops)
  obtain r c1 where st: "counter_step checks op c = (r, c1)" by fastforce
  have "room (Suc (length ops)) (op # ops) c" using Cons.prems by simp
  note rs = room_step [OF this st]
  have "counter_lstep checks c (op_label op r) c1"
    unfolding counter_lstep_def using st rs(2) Cons.prems(2)
    by (intro exI [of _ op] exI [of _ r]) auto
  moreover obtain c' where "trace_run (counter_lstep checks) c1 (counter_labels checks ops c1) c'"
    using Cons.IH [OF rs(1)] Cons.prems(2) by auto
  ultimately show ?case using st by auto
qed

text \<open>
  The numbers the counter hands out for one task are strictly increasing and lie above
  everything the task was primed with before, however calls for other tasks and further primes
  interleave, as long as the task is not forgotten and no counter comes within the number of
  operations of the top of \<^typ>\<open>u64\<close>; this holds with and without overflow checks.
\<close>

lemma issued_seqs_increasing:
  assumes "room (length ops) ops c" and "\<forall>u. OpForget u \<notin> set ops"
  shows "sorted_wrt (\<lambda>a b. unat a < unat b) (issued_seqs checks t ops c) \<and>
    list_all (\<lambda>n. counter_high c t < unat n) (issued_seqs checks t ops c)"
proof -
  obtain c' where run: "trace_run (counter_lstep checks) c (counter_labels checks ops c) c'"
    using counter_labels_run [OF assms] by blast
  have "sorted_wrt (<) (map unat (issued_seqs checks t ops c))"
    using counter.issued_increasing [OF run, of t] by (simp add: issued_for_labels)
  moreover have "\<forall>n \<in> set (map unat (issued_seqs checks t ops c)). counter_high c t < n"
    using counter.issued_above [OF run, of _ t] by (simp add: issued_for_labels)
  ultimately show ?thesis by (simp add: sorted_wrt_map list_all_iff)
qed

theorem issued_seqs_increasing_witness:
  "issued_seqs False 7 [OpPrime 7 100, OpNext 7, OpPrime 7 50, OpNext 8, OpNext 7] counter_new
     = [101, 102] \<and>
   sorted_wrt (\<lambda>a b. unat a < unat b) (issued_seqs False 7
     [OpPrime 7 100, OpNext 7, OpPrime 7 50, OpNext 8, OpNext 7] counter_new)"
proof
  show "sorted_wrt (\<lambda>a b. unat a < unat b) (issued_seqs False 7
     [OpPrime 7 100, OpNext 7, OpPrime 7 50, OpNext 8, OpNext 7] counter_new)"
    by (rule issued_seqs_increasing [THEN conjunct1])
       (auto simp: room_def counter_high_def counter_new_def)
qed (simp add: counter_new_def counter_prime_def next_seq_def)


section \<open>What the buffer keeps\<close>

datatype buffer_op =
    BPush int string string string string
  | BBulk int "pending_entry list"
  | BFlush int
  | BForget int

text \<open>
  What leaves the buffer at an operation: a batch it returns for a task, or the lines a \<open>forget\<close> of the
  task throws away (which the code does without a word).
\<close>

datatype departure =
    Stays
  | Returned int "pending_entry list"
  | Discarded int "pending_entry list"

definition returned :: "int \<Rightarrow> pending_entry list option \<Rightarrow> departure" where
  "returned t r = (case r of None \<Rightarrow> Stays | Some es \<Rightarrow> Returned t es)"

fun buffer_step :: "buffer_op \<Rightarrow> stream_buffer \<Rightarrow> departure \<times> stream_buffer" where
  "buffer_step (BPush t w ch l ts) b =
     (case buffer_push t w ch l ts b of (r, b') \<Rightarrow> (returned t r, b'))"
| "buffer_step (BBulk t es) b =
     (case buffer_push_bulk t es b of (r, b') \<Rightarrow> (returned t r, b'))"
| "buffer_step (BFlush t) b = (case buffer_flush_task t b of (r, b') \<Rightarrow> (Returned t r, b'))"
| "buffer_step (BForget t) b = (Discarded t (buffered b t), buffer_forget t b)"

fun pushed :: "int \<Rightarrow> buffer_op \<Rightarrow> pending_entry list" where
  "pushed t (BPush u w ch l ts) =
     (if u = t then [\<lparr>pe_task_id = u, pe_worker_id = w, pe_channel = ch, pe_line = l, pe_ts = ts\<rparr>] else [])"
| "pushed t (BBulk u es) = (if u = t then es else [])"
| "pushed t (BFlush u) = []"
| "pushed t (BForget u) = []"

fun departed :: "int \<Rightarrow> departure \<Rightarrow> pending_entry list" where
  "departed t Stays = []"
| "departed t (Returned u es) = (if u = t then es else [])"
| "departed t (Discarded u es) = (if u = t then es else [])"

fun discarded :: "int \<Rightarrow> departure \<Rightarrow> pending_entry list" where
  "discarded t (Discarded u es) = (if u = t then es else [])"
| "discarded t _ = []"

fun buffer_run :: "buffer_op list \<Rightarrow> stream_buffer \<Rightarrow> departure list \<times> stream_buffer" where
  "buffer_run [] b = ([], b)"
| "buffer_run (op # ops) b =
     (case buffer_step op b of (r, b') \<Rightarrow> case buffer_run ops b' of (rs, b'') \<Rightarrow> (r # rs, b''))"

definition buffer_ok :: "stream_buffer \<Rightarrow> bool" where
  "buffer_ok b \<longleftrightarrow> (\<forall>t. length (buffered b t) < flush_threshold (sb_profile b))"

lemma threshold_le_cap: "flush_threshold p \<le> profile_cap p"
  by (cases p) simp_all

lemma threshold_pos: "0 < flush_threshold p"
  by (cases p) simp_all

lemma departed_returned [simp]:
  "departed t (returned u r) = (if u = t then opt_default [] r else [])" "discarded t (returned u r) = []"
  by (cases r; simp add: returned_def opt_default_def)+

lemma buffer_extend_step:
  assumes "buffer_extend u es b = (r, b')"
  shows "sb_profile b' = sb_profile b"
    and "\<And>t. buffered b t @ (if u = t then es else []) = departed t (returned u r) @ buffered b' t"
    and "buffer_ok b \<Longrightarrow> buffer_ok b'"
  using assms threshold_le_cap [of "sb_profile b"] threshold_pos [of "sb_profile b"]
  by (auto simp: buffer_extend_def buffered_def opt_default_def buffer_ok_def Let_def split: if_splits)

lemma buffer_flush_step:
  assumes "buffer_flush_task u b = (r, b')"
  shows "sb_profile b' = sb_profile b"
    and "buffered b t = departed t (Returned u r) @ buffered b' t"
    and "buffer_ok b \<Longrightarrow> buffer_ok b'"
  using assms threshold_pos [of "sb_profile b"]
  by (auto simp: buffer_flush_task_def buffered_def opt_default_def buffer_ok_def split: option.splits if_splits)

lemma buffer_step_facts:
  assumes "buffer_step op b = (r, b')"
  shows "sb_profile b' = sb_profile b"
    and "buffered b t @ pushed t op = departed t r @ buffered b' t"
    and "buffer_ok b \<Longrightarrow> buffer_ok b'"
    and "discarded t r \<noteq> [] \<Longrightarrow> op = BForget t"
proof -
  have "sb_profile b' = sb_profile b \<and> buffered b t @ pushed t op = departed t r @ buffered b' t
      \<and> (buffer_ok b \<longrightarrow> buffer_ok b') \<and> (discarded t r \<noteq> [] \<longrightarrow> op = BForget t)"
  proof (cases op)
    case (BPush u w ch l ts)
    obtain o1 where "buffer_push u w ch l ts b = (o1, b')" "r = returned u o1"
      using assms BPush by (auto split: prod.splits)
    then have e: "buffer_extend u (pushed u op) b = (o1, b')" using BPush by (simp add: buffer_push_def)
    from buffer_extend_step(1,3) [OF e] buffer_extend_step(2) [OF e, of t] show ?thesis
      using BPush \<open>r = returned u o1\<close> by (cases "u = t") auto
  next
    case (BBulk u es)
    show ?thesis
    proof (cases "es = []")
      case True
      with BBulk assms show ?thesis by (auto simp: buffer_push_bulk_def returned_def)
    next
      case False
      obtain o1 where "buffer_push_bulk u es b = (o1, b')" "r = returned u o1"
        using assms BBulk by (auto split: prod.splits)
      with BBulk False show ?thesis
        using buffer_extend_step [of u es b o1 b'] by (simp add: buffer_push_bulk_def)
    qed
  next
    case (BFlush u)
    obtain o1 where "buffer_flush_task u b = (o1, b')" "r = Returned u o1"
      using assms BFlush by (auto split: prod.splits)
    with BFlush show ?thesis using buffer_flush_step [of u b o1 b'] by simp
  next
    case (BForget u)
    then show ?thesis using assms threshold_pos [of "sb_profile b"]
      by (auto simp: buffer_forget_def buffered_def opt_default_def buffer_ok_def split: if_splits)
  qed
  then show "sb_profile b' = sb_profile b"
    and "buffered b t @ pushed t op = departed t r @ buffered b' t"
    and "buffer_ok b \<Longrightarrow> buffer_ok b'"
    and "discarded t r \<noteq> [] \<Longrightarrow> op = BForget t" by auto
qed

lemma buffer_run_conserves:
  "buffer_run ops b = (rs, b') \<Longrightarrow>
     buffered b t @ concat (map (pushed t) ops) = concat (map (departed t) rs) @ buffered b' t \<and>
     (buffer_ok b \<longrightarrow> buffer_ok b') \<and> list_all2 (\<lambda>op r. discarded t r \<noteq> [] \<longrightarrow> op = BForget t) ops rs"
proof (induction ops arbitrary: b b' rs)
  case Nil
  then show ?case by simp
next
  case (Cons op ops)
  obtain r b1 where s: "buffer_step op b = (r, b1)" by fastforce
  obtain rs1 b2 where t: "buffer_run ops b1 = (rs1, b2)" by fastforce
  with s Cons.prems have eqs: "rs = r # rs1" "b' = b2" by auto
  have "buffered b t @ pushed t op @ concat (map (pushed t) ops)
      = departed t r @ buffered b1 t @ concat (map (pushed t) ops)"
    using buffer_step_facts(2) [OF s, of t] by (metis append.assoc)
  then show ?case
    using Cons.IH [OF t] buffer_step_facts(3,4) [OF s] by (simp add: eqs)
qed

text \<open>
  C32. The buffer loses nothing but what a \<open>forget\<close> throws away, repeats and reorders nothing, and stays
  bounded. From a new buffer, through any pushes, bulk pushes, flushes and forgets, for every task: what
  left the buffer so far, followed by what is still in it, is what was pushed for the task, in order; lines
  are discarded (rather than returned in a batch) by a \<open>forget\<close> of that task only; and fewer lines than
  the profile's flush threshold are waiting.
\<close>

theorem buffer_conserves_and_bounded:
  assumes "buffer_run ops (buffer_new p) = (rs, b)"
  shows "concat (map (pushed t) ops) = concat (map (departed t) rs) @ buffered b t \<and>
    list_all2 (\<lambda>op r. discarded t r \<noteq> [] \<longrightarrow> op = BForget t) ops rs \<and>
    length (buffered b t) < flush_threshold p"
proof -
  have new: "buffer_ok (buffer_new p)" "buffered (buffer_new p) t = []" for t
    by (auto simp: buffer_ok_def buffered_def buffer_new_def threshold_pos)
  have "sb_profile b' = sb_profile a" if "buffer_run ops a = (rs, b')" for ops a rs b'
    using that by (induction ops arbitrary: a rs) (auto dest: buffer_step_facts(1) split: prod.splits)
  from this [OF assms] have "sb_profile b = p" by (simp add: buffer_new_def)
  with buffer_run_conserves [OF assms, of t] new show ?thesis by (auto simp: buffer_ok_def)
qed

definition demo_ops :: "buffer_op list" where
  "demo_ops = [BPush 1 ''w'' ''stdout'' ''a'' ''t0'', BFlush 1, BPush 1 ''w'' ''stdout'' ''b'' ''t1'', BForget 1]"

lemma demo_ops_run:
  "map (departed 1) (fst (buffer_run demo_ops (buffer_new Balanced)))
     = [[], pushed 1 (hd demo_ops), [], pushed 1 (demo_ops ! 2)]"
  by code_simp

theorem buffer_conserves_and_bounded_witness:
  "map (departed 1) (fst (buffer_run demo_ops (buffer_new Balanced))) = [[], pushed 1 (hd demo_ops), [], pushed 1 (demo_ops ! 2)]
   \<and> length (buffered (snd (buffer_run demo_ops (buffer_new Balanced))) 1) < flush_threshold Balanced"
  using demo_ops_run buffer_conserves_and_bounded [where ops = demo_ops and p = Balanced and t = 1, OF surjective_pairing] by simp

end
