(* ===== verification/Json.thy ===== *)
theory Json
  imports Prelude
begin

text \<open>
  JSON values as \<^verbatim>\<open>serde_json::Value\<close> has them (an object is its entries in the order of its
  map), the decoding of UTF-8 bytes into code points, and the canonical writer that the signed
  envelopes and the audit log share in structure: sorted keys, compact separators. The writer of
  strings and the text of numbers are parameters here; the components supply theirs.
\<close>

section \<open>Values\<close>

datatype 'n json =
    JNull
  | JBool bool
  | JNum 'n
  | JStr string
  | JArr "'n json list"
  | JObj "(string \<times> 'n json) list"

definition obj_get :: "string \<Rightarrow> 'n json \<Rightarrow> 'n json option" where
  "obj_get k v = (case v of JObj es \<Rightarrow> map_of es k | _ \<Rightarrow> None)"

definition as_str :: "'n json \<Rightarrow> string option" where
  "as_str v = (case v of JStr s \<Rightarrow> Some s | _ \<Rightarrow> None)"

definition as_array :: "'n json \<Rightarrow> 'n json list option" where
  "as_array v = (case v of JArr vs \<Rightarrow> Some vs | _ \<Rightarrow> None)"

definition as_bool :: "'n json \<Rightarrow> bool option" where
  "as_bool v = (case v of JBool b \<Rightarrow> Some b | _ \<Rightarrow> None)"

lemma json_accessor_simps [simp]:
  "as_str (JStr s) = Some s" "as_str JNull = None" "as_str (JBool b) = None" "as_str (JNum n) = None"
  "as_str (JArr vs) = None" "as_str (JObj es) = None"
  "as_array (JArr vs) = Some vs" "as_array JNull = None" "as_array (JStr s) = None"
  "as_array (JObj es) = None" "as_array (JBool b) = None" "as_array (JNum n) = None"
  "obj_get k (JObj es) = map_of es k" "obj_get k JNull = None" "obj_get k (JStr s) = None"
  "obj_get k (JArr vs) = None" "obj_get k (JNum n) = None" "obj_get k (JBool b) = None"
  by (simp_all add: as_str_def as_array_def obj_get_def)

text \<open>\<^verbatim>\<open>json!\<close> of an object, whose map is ordered by key, of an option and of strings.\<close>

definition jobj :: "(string \<times> 'n json) list \<Rightarrow> 'n json" where
  "jobj es = JObj (sort_key fst es)"

definition jopt :: "('a \<Rightarrow> 'n json) \<Rightarrow> 'a option \<Rightarrow> 'n json" where
  "jopt f a = (case a of None \<Rightarrow> JNull | Some x \<Rightarrow> f x)"

definition jstrs :: "string list \<Rightarrow> 'n json" where
  "jstrs ss = JArr (map JStr ss)"

section \<open>Code points\<close>

definition scalar_value :: "nat \<Rightarrow> bool" where
  "scalar_value c \<longleftrightarrow> c < 0xD800 \<or> (0xE000 \<le> c \<and> c < 0x110000)"

definition utf8_encode1 :: "nat \<Rightarrow> nat list" where
  "utf8_encode1 c =
     (if c < 0x80 then [c]
      else if c < 0x800 then [0xC0 + c div 64, 0x80 + c mod 64]
      else if c < 0x10000 then [0xE0 + c div 4096, 0x80 + c div 64 mod 64, 0x80 + c mod 64]
      else [0xF0 + c div 262144, 0x80 + c div 4096 mod 64, 0x80 + c div 64 mod 64, 0x80 + c mod 64])"

definition utf8_encode :: "nat list \<Rightarrow> string" where
  "utf8_encode cs = map char_of (concat (map utf8_encode1 cs))"

text \<open>\<open>str::chars\<close>: decoding by the length the first byte announces.\<close>

fun decode_bytes :: "nat list \<Rightarrow> nat list" where
  "decode_bytes [] = []"
| "decode_bytes (b0 # bs) =
     (if b0 < 0x80 then b0 # decode_bytes bs
      else if b0 < 0xE0 then
        (case bs of b1 # r \<Rightarrow> ((b0 - 0xC0) * 64 + (b1 - 0x80)) # decode_bytes r | _ \<Rightarrow> [])
      else if b0 < 0xF0 then
        (case bs of b1 # b2 # r \<Rightarrow>
           ((b0 - 0xE0) * 4096 + (b1 - 0x80) * 64 + (b2 - 0x80)) # decode_bytes r | _ \<Rightarrow> [])
      else
        (case bs of b1 # b2 # b3 # r \<Rightarrow>
           ((b0 - 0xF0) * 262144 + (b1 - 0x80) * 4096 + (b2 - 0x80) * 64 + (b3 - 0x80)) # decode_bytes r
         | _ \<Rightarrow> []))"

definition str_chars :: "string \<Rightarrow> nat list" where
  "str_chars s = decode_bytes (map of_char s)"

definition valid_utf8 :: "string \<Rightarrow> bool" where
  "valid_utf8 s \<longleftrightarrow> list_all scalar_value (str_chars s) \<and> utf8_encode (str_chars s) = s"

lemma utf8_encode1_bytes: "c < 0x110000 \<Longrightarrow> b \<in> set (utf8_encode1 c) \<Longrightarrow> b < 256"
  by (auto simp: utf8_encode1_def split: if_splits)

lemma decode_encode1: "c < 0x110000 \<Longrightarrow> decode_bytes (utf8_encode1 c @ bs) = c # decode_bytes bs"
proof -
  assume c: "c < 0x110000"
  have parts: "c = c div 64 * 64 + c mod 64" "c div 64 = c div 4096 * 64 + c div 64 mod 64"
    "c div 4096 = c div 262144 * 64 + c div 4096 mod 64"
    using div_mult2_eq [of c 64 64] div_mult2_eq [of c 4096 64] by simp_all
  consider "c < 0x80" | "0x80 \<le> c" "c < 0x800" | "0x800 \<le> c" "c < 0x10000" | "0x10000 \<le> c"
    by linarith
  then show ?thesis
  proof cases
    case 1
    then show ?thesis by (simp add: utf8_encode1_def)
  next
    case 2
    then have "c div 64 < 32" by simp
    with 2 show ?thesis by (simp add: utf8_encode1_def)
  next
    case 3
    then have "c div 4096 < 16" by simp
    moreover have "q = a * 64 + b \<Longrightarrow> c = q * 64 + d \<Longrightarrow> a * 4096 + b * 64 + d = c" for a b d q
      by simp
    from this [OF parts(2) parts(1)]
    have "c div 4096 * 4096 + c div 64 mod 64 * 64 + c mod 64 = c" .
    ultimately show ?thesis using 3 by (simp add: utf8_encode1_def)
  next
    case 4
    then have "c div 262144 < 8" using c by simp
    moreover have "r = z * 64 + a \<Longrightarrow> q = r * 64 + b \<Longrightarrow> c = q * 64 + d \<Longrightarrow>
        z * 262144 + a * 4096 + b * 64 + d = c" for a b d q r z by simp
    from this [OF parts(3) parts(2) parts(1)]
    have "c div 262144 * 262144 + c div 4096 mod 64 * 4096 + c div 64 mod 64 * 64 + c mod 64 = c" .
    ultimately show ?thesis using 4 by (simp add: utf8_encode1_def)
  qed
qed

lemma str_chars_encode: "list_all scalar_value cs \<Longrightarrow> str_chars (utf8_encode cs) = cs"
proof -
  assume a: "list_all scalar_value cs"
  have lt: "scalar_value c \<Longrightarrow> c < 0x110000" for c by (auto simp: scalar_value_def)
  have "map (of_char \<circ> char_of) bs = bs" if "\<forall>b \<in> set bs. b < 256" for bs :: "nat list"
    using that by (induction bs) auto
  moreover have "\<forall>b \<in> set (concat (map utf8_encode1 cs)). b < 256"
    using a lt utf8_encode1_bytes by (fastforce simp: list_all_iff)
  ultimately have "str_chars (utf8_encode cs) = decode_bytes (concat (map utf8_encode1 cs))"
    by (simp add: str_chars_def utf8_encode_def comp_def)
  also have "\<dots> = cs" using a by (induction cs) (auto simp: decode_encode1 lt)
  finally show ?thesis .
qed

lemma valid_utf8_encode: "list_all scalar_value cs \<Longrightarrow> valid_utf8 (utf8_encode cs)"
  by (simp add: valid_utf8_def str_chars_encode)

lemma str_chars_inj: "valid_utf8 s \<Longrightarrow> valid_utf8 t \<Longrightarrow> str_chars s = str_chars t \<Longrightarrow> s = t"
  by (metis valid_utf8_def)

lemma ascii_valid_utf8: "is_ascii s \<Longrightarrow> valid_utf8 s"
proof -
  assume a: "is_ascii s"
  have "str_chars s = map of_char s"
    using a unfolding str_chars_def is_ascii_def by (induction s) auto
  moreover have "utf8_encode (map of_char s) = s"
    using a unfolding is_ascii_def utf8_encode_def utf8_encode1_def by (induction s) auto
  ultimately show ?thesis using a by (auto simp: valid_utf8_def scalar_value_def is_ascii_def list_all_iff)
qed


section \<open>The canonical writer\<close>

lemma size_entry: "e \<in> set es \<Longrightarrow> size (snd e) < Suc (size_list (size_prod (\<lambda>x. 0) size) es)"
  by (induction es) auto

function write_json :: "(string \<Rightarrow> string) \<Rightarrow> ('n \<Rightarrow> string) \<Rightarrow> 'n json \<Rightarrow> string" where
  "write_json ws nt JNull = ''null''"
| "write_json ws nt (JBool b) = (if b then ''true'' else ''false'')"
| "write_json ws nt (JNum n) = nt n"
| "write_json ws nt (JStr s) = ws s"
| "write_json ws nt (JArr vs) = ''['' @ join_with '','' (map (write_json ws nt) vs) @ '']''"
| "write_json ws nt (JObj es) =
     ''{'' @ join_with '','' (map (\<lambda>e. ws (fst e) @ '':'' @ write_json ws nt (snd e)) (sort_key fst es))
     @ ''}''"
  by pat_completeness auto
termination
proof (relation "measure (\<lambda>(ws, nt, v). size v)")
  show "wf (measure (\<lambda>(ws :: string \<Rightarrow> string, nt :: 'n \<Rightarrow> string, v :: 'n json). size v))" by simp
next
  fix ws :: "string \<Rightarrow> string" and nt :: "'n \<Rightarrow> string" and vs :: "'n json list" and x
  assume "x \<in> set vs"
  then show "((ws, nt, x), ws, nt, JArr vs) \<in> measure (\<lambda>(ws, nt, v). size v)"
    by (induction vs) auto
next
  fix ws :: "string \<Rightarrow> string" and nt :: "'n \<Rightarrow> string" and es :: "(string \<times> 'n json) list" and x
  assume "x \<in> set (sort_key fst es)"
  then show "((ws, nt, snd x), ws, nt, JObj es) \<in> measure (\<lambda>(ws, nt, v). size v)"
    using size_entry [of x es] by simp
qed

text \<open>
  The values a map without duplicate keys can hold, in key order, over valid strings.
\<close>

fun wf_json :: "'n json \<Rightarrow> bool" where
  "wf_json (JStr s) = valid_utf8 s"
| "wf_json (JArr vs) = list_all wf_json vs"
| "wf_json (JObj es) =
     (sorted_wrt (<) (map fst es) \<and> list_all (\<lambda>e. valid_utf8 (fst e) \<and> wf_json (snd e)) es)"
| "wf_json _ = True"

lemma sort_key_sorted: "sorted_wrt (<) (map f es) \<Longrightarrow> sort_key f es = es"
  by (rule sort_key_id_if_sorted) (simp add: strict_sorted_iff)

section \<open>Unique readability\<close>

definition number_chars :: "char set" where
  "number_chars = set ''0123456789+-.eE''"

definition stops :: "string \<Rightarrow> bool" where
  "stops r \<longleftrightarrow> r = [] \<or> hd r \<notin> number_chars"

text \<open>Items after an opening bracket, up to the closing character and the rest.\<close>

fun seq_rest :: "('a \<Rightarrow> string) \<Rightarrow> char \<Rightarrow> 'a list \<Rightarrow> string \<Rightarrow> string" where
  "seq_rest f c [] r = c # r"
| "seq_rest f c (x # xs) r = CHR '','' # f x @ seq_rest f c xs r"

lemma join_seq_rest:
  "join_with '','' (map f (x # xs)) @ c # r = f x @ seq_rest f c xs r"
  by (induction xs arbitrary: x) auto

lemma seq_rest_stops: "c \<notin> number_chars \<Longrightarrow> stops (seq_rest f c xs r)"
  by (cases xs) (auto simp: stops_def number_chars_def)

text \<open>An item whose text, before something that cannot continue a number, determines it.\<close>

definition cancels :: "('a \<Rightarrow> string) \<Rightarrow> ('a \<Rightarrow> bool) \<Rightarrow> 'a \<Rightarrow> bool" where
  "cancels f Q x \<longleftrightarrow>
     (\<forall>y s s'. Q y \<and> stops s \<and> stops s' \<and> f x @ s = f y @ s' \<longrightarrow> x = y \<and> s = s')"

lemma cancelsD:
  "cancels f Q x \<Longrightarrow> Q y \<Longrightarrow> stops s \<Longrightarrow> stops s' \<Longrightarrow> f x @ s = f y @ s' \<Longrightarrow> x = y \<and> s = s'"
  by (auto simp: cancels_def)

lemma seq_rest_cancel:
  assumes "list_all (cancels f Q) xs" and "list_all Q ys" and "c \<notin> number_chars"
    and "c \<noteq> CHR '',''" and "seq_rest f c xs r = seq_rest f c ys r'"
  shows "xs = ys \<and> r = r'"
  using assms
proof (induction xs arbitrary: ys)
  case Nil
  then show ?case by (cases ys) auto
next
  case (Cons x xs)
  from Cons.prems(4,5) obtain y zs where ys: "ys = y # zs"
    by (cases ys) auto
  with Cons.prems have "cancels f Q x" "Q y" "f x @ seq_rest f c xs r = f y @ seq_rest f c zs r'" by auto
  then have "x = y" "seq_rest f c xs r = seq_rest f c zs r'"
    using cancelsD [of f Q x y] seq_rest_stops [OF Cons.prems(3)] by metis+
  moreover from this Cons.prems ys have "xs = zs \<and> r = r'" by (intro Cons.IH) auto
  ultimately show ?case using ys by simp
qed

lemma join_cancel:
  assumes "list_all (cancels f Q) xs" and "list_all Q ys" and "c \<notin> number_chars"
    and "c \<noteq> CHR '',''" and hd: "\<And>x. f x \<noteq> [] \<and> hd (f x) \<noteq> c"
    and "join_with '','' (map f xs) @ c # r = join_with '','' (map f ys) @ c # r'"
  shows "xs = ys \<and> r = r'"
proof -
  have no: "join_with '','' (map f (x # zs)) @ c # r1 \<noteq> c # r2" for x zs r1 r2
    unfolding join_seq_rest using hd [of x] by (cases "f x") auto
  show ?thesis
  proof (cases xs; cases ys)
    fix y ys' assume "xs = []" "ys = y # ys'"
    with assms(6) no show ?thesis by (metis append_Nil join_with.simps(1) list.simps(8))
  next
    fix x xs' assume "xs = x # xs'" "ys = []"
    with assms(6) no show ?thesis by (metis append_Nil join_with.simps(1) list.simps(8))
  next
    fix x xs' y ys' assume xs: "xs = x # xs'" and ys: "ys = y # ys'"
    with assms(6) have e: "f x @ seq_rest f c xs' r = f y @ seq_rest f c ys' r'"
      by (simp only: join_seq_rest)
    have "x = y \<and> seq_rest f c xs' r = seq_rest f c ys' r'"
      using assms(1,2) xs ys e seq_rest_stops [OF assms(3)]
      by (intro cancelsD [where f = f and Q = Q]) auto
    then have "x = y" and e': "seq_rest f c xs' r = seq_rest f c ys' r'" by auto
    have "xs' = ys' \<and> r = r'"
      using assms(1,2) xs ys by (intro seq_rest_cancel [OF _ _ assms(3,4) e']) auto
    with \<open>x = y\<close> xs ys show ?thesis by simp
  qed (use assms(6) in auto)
qed

text \<open>
  What the canonical form needs of the texts of strings and numbers: a string's text begins with a
  quote and cannot be continued into another string's text, and a number's text is a non-empty run
  of number characters that determines the number.
\<close>

locale text_format =
  fixes ws :: "string \<Rightarrow> string" and nt :: "'n \<Rightarrow> string"
  assumes ws_cancel: "valid_utf8 s \<Longrightarrow> valid_utf8 t \<Longrightarrow> ws s @ r = ws t @ r' \<Longrightarrow> s = t \<and> r = r'"
    and ws_quote: "ws s \<noteq> [] \<and> hd (ws s) = CHR 0x22"
    and nt_chars: "nt n \<noteq> [] \<and> set (nt n) \<subseteq> number_chars"
    and nt_inj: "nt m = nt n \<Longrightarrow> m = n"
begin

lemma nt_cancel:
  assumes "stops r" and "stops r'" and "nt m @ r = nt n @ r'"
  shows "m = n \<and> r = r'"
proof -
  have tw: "takeWhile (\<lambda>c. c \<in> number_chars) (nt k @ q) = nt k" if "stops q" for k q
  proof -
    have "takeWhile (\<lambda>c. c \<in> number_chars) (nt k @ q) = nt k @ takeWhile (\<lambda>c. c \<in> number_chars) q"
      by (rule takeWhile_append2) (use nt_chars [of k] in auto)
    also have "takeWhile (\<lambda>c. c \<in> number_chars) q = []" using that by (cases q) (auto simp: stops_def)
    finally show ?thesis by simp
  qed
  have "nt m = nt n" using tw [OF assms(1), of m] tw [OF assms(2), of n] assms(3) by simp
  with assms(3) nt_inj show ?thesis by auto
qed

lemma write_head:
  "write_json ws nt v \<noteq> [] \<and>
   hd (write_json ws nt v) \<in> {CHR ''n'', CHR ''t'', CHR ''f'', CHR ''['', CHR ''{'', CHR 0x22} \<union> number_chars \<and>
   (hd (write_json ws nt v) \<in> number_chars \<longleftrightarrow> (\<exists>n. v = JNum n)) \<and>
   (hd (write_json ws nt v) = CHR 0x22 \<longleftrightarrow> (\<exists>s. v = JStr s))"
proof (cases v)
  case (JNum n)
  then show ?thesis using nt_chars [of n] by (cases "nt n") (auto simp: number_chars_def)
next
  case (JStr s)
  then show ?thesis using ws_quote [of s] by (auto simp: number_chars_def)
qed (auto simp: number_chars_def)

lemma write_cancels: "wf_json v \<Longrightarrow> cancels (write_json ws nt) wf_json v"
proof (induction v)
  case (JArr vs)
  show ?case unfolding cancels_def
  proof (intro allI impI; elim conjE)
    fix w s s'
    assume w: "wf_json w" and e: "write_json ws nt (JArr vs) @ s = write_json ws nt w @ s'"
    have "hd (write_json ws nt w) = CHR ''[''"
      using e write_head [of w] by (cases "write_json ws nt w") auto
    then obtain us where us: "w = JArr us"
      using write_head [of w] by (cases w) (auto simp: number_chars_def split: if_splits)
    have "list_all (cancels (write_json ws nt) wf_json) vs"
      using JArr by (auto simp: list_all_iff)
    moreover have "write_json ws nt u \<noteq> [] \<and> hd (write_json ws nt u) \<noteq> CHR '']''" for u
      using write_head [of u] by (auto simp: number_chars_def)
    ultimately have "vs = us \<and> s = s'"
      using w e us by (intro join_cancel [where c = "CHR '']''" and Q = wf_json and f = "write_json ws nt"])
        (auto simp: number_chars_def)
    with us show "JArr vs = w \<and> s = s'" by simp
  qed
next
  case (JObj es)
  let ?f = "\<lambda>e. ws (fst e) @ '':'' @ write_json ws nt (snd e)"
  let ?Q = "\<lambda>e. valid_utf8 (fst e) \<and> wf_json (snd e)"
  show ?case unfolding cancels_def
  proof (intro allI impI; elim conjE)
    fix w s s'
    assume w: "wf_json w" and e: "write_json ws nt (JObj es) @ s = write_json ws nt w @ s'"
    have "hd (write_json ws nt w) = CHR ''{''"
      using e write_head [of w] by (cases "write_json ws nt w") auto
    then obtain us where us: "w = JObj us"
      using write_head [of w] by (cases w) (auto simp: number_chars_def split: if_splits)
    have c: "list_all (cancels ?f ?Q) es"
    proof (unfold list_all_iff cancels_def, intro ballI allI impI; elim conjE)
      fix x y r r'
      assume x: "x \<in> set es" and y: "valid_utf8 (fst y)" "wf_json (snd y)" and st: "stops r" "stops r'"
        and eq: "?f x @ r = ?f y @ r'"
      have vx: "valid_utf8 (fst x)" "wf_json (snd x)" using x JObj.prems by (auto simp: list_all_iff)
      have "fst x = fst y \<and> '':'' @ write_json ws nt (snd x) @ r = '':'' @ write_json ws nt (snd y) @ r'"
        using eq vx y by (intro ws_cancel) auto
      moreover have "cancels (write_json ws nt) wf_json (snd x)"
        using JObj.IH [of x "snd x"] x vx by (cases x) auto
      ultimately show "x = y \<and> r = r'"
        using cancelsD [of "write_json ws nt" wf_json "snd x" "snd y" r r'] y st by (auto simp: prod_eq_iff)
    qed
    have h: "?f x \<noteq> [] \<and> hd (?f x) \<noteq> CHR ''}''" for x
      using ws_quote [of "fst x"] by (cases "ws (fst x)") auto
    have "sort_key fst es = es" "sort_key fst us = us"
      using JObj.prems w us by (auto intro: sort_key_sorted)
    then have "join_with '','' (map ?f es) @ CHR ''}'' # s = join_with '','' (map ?f us) @ CHR ''}'' # s'"
      using e us by simp
    then have "es = us \<and> s = s'"
      using w us by (intro join_cancel [OF c _ _ _ h]) (auto simp: number_chars_def)
    with us show "JObj es = w \<and> s = s'" by simp
  qed
next
  case (JNum n)
  show ?case unfolding cancels_def
  proof (intro allI impI; elim conjE)
    fix w s s'
    assume st: "stops s" "stops s'" and e: "write_json ws nt (JNum n) @ s = write_json ws nt w @ s'"
    have "hd (write_json ws nt w) \<in> number_chars"
      using e write_head [of w] nt_chars [of n] by (cases "write_json ws nt w"; cases "nt n") auto
    then obtain m where "w = JNum m" using write_head [of w] by auto
    with e nt_cancel [OF st, of n m] show "JNum n = w \<and> s = s'" by simp
  qed
next
  case (JStr t)
  show ?case unfolding cancels_def
  proof (intro allI impI; elim conjE)
    fix w s s'
    assume w: "wf_json w" and e: "write_json ws nt (JStr t) @ s = write_json ws nt w @ s'"
    have "hd (write_json ws nt w) = CHR 0x22"
      using e write_head [of w] ws_quote [of t] by (cases "write_json ws nt w"; cases "ws t") auto
    then obtain u where "w = JStr u" using write_head [of w] by auto
    with e w JStr ws_cancel [of t u s s'] show "JStr t = w \<and> s = s'" by simp
  qed
next
  case JNull
  show ?case unfolding cancels_def
  proof (intro allI impI; elim conjE)
    fix w s s' assume e: "write_json ws nt JNull @ s = write_json ws nt w @ s'"
    then have "hd (write_json ws nt w) = CHR ''n''"
      using write_head [of w] by (cases "write_json ws nt w") auto
    then have "w = JNull"
      using write_head [of w] by (cases w) (auto simp: number_chars_def split: if_splits)
    with e show "JNull = w \<and> s = s'" by simp
  qed
next
  case (JBool b)
  show ?case unfolding cancels_def
  proof (intro allI impI; elim conjE)
    fix w s s' assume e: "write_json ws nt (JBool b) @ s = write_json ws nt w @ s'"
    then have "hd (write_json ws nt w) = (if b then CHR ''t'' else CHR ''f'')"
      using write_head [of w] by (cases "write_json ws nt w") (auto split: if_splits)
    then have "w = JBool b"
      using write_head [of w] by (cases w) (auto simp: number_chars_def split: if_splits)
    with e show "JBool b = w \<and> s = s'" by simp
  qed
qed

lemma canonical_inj: "wf_json v \<Longrightarrow> wf_json w \<Longrightarrow> write_json ws nt v = write_json ws nt w \<Longrightarrow> v = w"
  using cancelsD [OF write_cancels, of v w "[]" "[]"] by (simp add: stops_def)

end

end
