(* ===== verification/Protocol.thy ===== *)
theory Protocol
  imports Json FabricTypes
begin

text \<open>
  The wire protocol of \<^verbatim>\<open>crates/fabric-protocol/src/lib.rs\<close>: canonical JSON with ASCII-only
  strings, and signing and verification over it. The crates \<^verbatim>\<open>hex\<close> and \<^verbatim>\<open>ed25519_dalek\<close> are
  parameters, collected in one record that the hub and the audit log share.
\<close>

section \<open>Third-party code\<close>

text \<open>
  \<open>hex_decode\<close> gives the error text or the bytes; \<open>pk_from_bytes\<close> says whether 32 bytes are a
  valid public key; \<open>ed_verify\<close> takes key, message and signature bytes.
\<close>

record crypto =
  hex_decode :: "string \<Rightarrow> (string, string) res"
  hex_encode :: "string \<Rightarrow> string"
  pk_from_bytes :: "string \<Rightarrow> bool"
  ed_verify :: "string \<Rightarrow> string \<Rightarrow> string \<Rightarrow> bool"
  ed_sign :: "string \<Rightarrow> string \<Rightarrow> string"
  sha256 :: "string \<Rightarrow> string"

section \<open>Canonical strings\<close>

definition hex_digit :: "nat \<Rightarrow> char" where
  "hex_digit n = (if n < 10 then char_of (48 + n) else char_of (97 + (n - 10)))"

definition write_unicode_escape :: "nat \<Rightarrow> string" where
  "write_unicode_escape cp =
     [CHR 0x5C, CHR ''u''] @
     map hex_digit [cp div 4096 mod 16, cp div 256 mod 16, cp div 16 mod 16, cp mod 16]"

definition write_ascii_char :: "nat \<Rightarrow> string" where
  "write_ascii_char c =
     (if c = 0x22 then [CHR 0x5C, CHR 0x22]
      else if c = 0x5C then [CHR 0x5C, CHR 0x5C]
      else if c = 0x08 then [CHR 0x5C, CHR ''b'']
      else if c = 0x09 then [CHR 0x5C, CHR ''t'']
      else if c = 0x0A then [CHR 0x5C, CHR ''n'']
      else if c = 0x0C then [CHR 0x5C, CHR ''f'']
      else if c = 0x0D then [CHR 0x5C, CHR ''r'']
      else if c < 0x20 then write_unicode_escape c
      else if c < 0x7F then [char_of c]
      else if c \<le> 0xFFFF then write_unicode_escape c
      else let v = c - 0x10000 in
        write_unicode_escape (0xD800 + v div 1024) @ write_unicode_escape (0xDC00 + v mod 1024))"

definition write_ascii_string :: "string \<Rightarrow> string" where
  "write_ascii_string s = [CHR 0x22] @ concat (map write_ascii_char (str_chars s)) @ [CHR 0x22]"

definition canonicalize :: "('n \<Rightarrow> string) \<Rightarrow> 'n json \<Rightarrow> string" where
  "canonicalize nt v = write_json write_ascii_string nt v"

section \<open>Signatures\<close>

datatype protocol_error =
    PHex string
  | PublicKeyLength nat
  | PrivateKeyLength nat
  | SignatureLength nat
  | PublicKeyBytes

definition decode_hex_fixed :: "crypto \<Rightarrow> nat \<Rightarrow> string \<Rightarrow> (protocol_error, string) res" where
  "decode_hex_fixed cr n s =
     (case hex_decode cr s of
        Inl e \<Rightarrow> Inl (PHex e)
      | Inr raw \<Rightarrow>
          if length raw \<noteq> n then
            Inl (if n = 32 \<and> length s = 64 then PublicKeyLength (length raw)
                 else if n = 64 then SignatureLength (length raw)
                 else PublicKeyLength (length raw))
          else Inr raw)"

definition verify_signature_hex ::
  "crypto \<Rightarrow> string \<Rightarrow> string \<Rightarrow> string \<Rightarrow> (protocol_error, bool) res" where
  "verify_signature_hex cr public_key_hex payload signature_hex =
     (case decode_hex_fixed cr 32 public_key_hex of
        Inl _ \<Rightarrow> Inl (PublicKeyLength (length public_key_hex div 2))
      | Inr pk \<Rightarrow>
          (case hex_decode cr signature_hex of
             Inl e \<Rightarrow> Inl (PHex e)
           | Inr sig \<Rightarrow>
               if length sig \<noteq> 64 then Inl (SignatureLength (length sig))
               else if \<not> pk_from_bytes cr pk then Inl PublicKeyBytes
               else Inr (ed_verify cr pk payload sig)))"

definition sign_payload_hex :: "crypto \<Rightarrow> string \<Rightarrow> string \<Rightarrow> (protocol_error, string) res" where
  "sign_payload_hex cr secret_key_hex payload =
     (case hex_decode cr secret_key_hex of
        Inl e \<Rightarrow> Inl (PHex e)
      | Inr sk \<Rightarrow>
          if length sk \<noteq> 32 then Inl (PrivateKeyLength (length sk))
          else Inr (hex_encode cr (ed_sign cr sk payload)))"

definition verify_envelope_hex ::
  "crypto \<Rightarrow> ('n \<Rightarrow> string) \<Rightarrow> string \<Rightarrow> 'n json \<Rightarrow> string \<Rightarrow> (protocol_error, bool) res" where
  "verify_envelope_hex cr nt public_key_hex envelope signature_hex =
     verify_signature_hex cr public_key_hex (canonicalize nt envelope) signature_hex"

definition sign_envelope_hex ::
  "crypto \<Rightarrow> ('n \<Rightarrow> string) \<Rightarrow> string \<Rightarrow> 'n json \<Rightarrow> (protocol_error, string) res" where
  "sign_envelope_hex cr nt secret_key_hex envelope =
     sign_payload_hex cr secret_key_hex (canonicalize nt envelope)"

section \<open>Reading an escaped character back\<close>

definition hex_value :: "char \<Rightarrow> nat" where
  "hex_value c = (if of_char c < (58 :: nat) then of_char c - 48 else of_char c - 87)"

fun read4 :: "string \<Rightarrow> nat" where
  "read4 (a # b # c # d # r) = ((hex_value a * 16 + hex_value b) * 16 + hex_value c) * 16 + hex_value d"
| "read4 _ = 0"

definition short_escape :: "char \<Rightarrow> nat" where
  "short_escape e =
     (if e = CHR ''b'' then 0x08 else if e = CHR ''t'' then 0x09 else if e = CHR ''n'' then 0x0A
      else if e = CHR ''f'' then 0x0C else if e = CHR ''r'' then 0x0D else of_char e)"

fun read_char :: "string \<Rightarrow> nat \<times> string" where
  "read_char (a # e # r) =
     (if a \<noteq> CHR 0x5C then (of_char a, e # r)
      else if e \<noteq> CHR ''u'' then (short_escape e, r)
      else let v = read4 r in
        if 0xD800 \<le> v \<and> v < 0xDC00
        then (0x10000 + (v - 0xD800) * 1024 + (read4 (drop 6 r) - 0xDC00), drop 10 r)
        else (v, drop 4 r))"
| "read_char s = (of_char (hd s), tl s)"

lemma hex_value_digit: "n < 16 \<Longrightarrow> hex_value (hex_digit n) = n"
  by (simp add: hex_value_def hex_digit_def)

lemma write_unicode_escape_eq:
  "write_unicode_escape cp = CHR 0x5C # CHR ''u'' #
     hex_digit (cp div 4096 mod 16) # hex_digit (cp div 256 mod 16) # hex_digit (cp div 16 mod 16) #
     hex_digit (cp mod 16) # []"
  by (simp add: write_unicode_escape_def)

lemma read4_nibbles:
  assumes "cp < 65536"
  shows "read4 (hex_digit (cp div 4096 mod 16) # hex_digit (cp div 256 mod 16) #
    hex_digit (cp div 16 mod 16) # hex_digit (cp mod 16) # r) = cp"
proof -
  have d: "cp div 256 = cp div 16 div 16" "cp div 4096 = cp div 256 div 16"
    using div_mult2_eq [of cp 16 16] div_mult2_eq [of cp 256 16] by simp_all
  have top: "cp div 4096 < 16" using assms by simp
  then have "cp div 4096 mod 16 = cp div 4096" by simp
  moreover have "a = q * 16 + n \<Longrightarrow> b = a * 16 + m \<Longrightarrow> cp = b * 16 + k \<Longrightarrow>
      ((q * 16 + n) * 16 + m) * 16 + k = cp" for a b q n m k by simp
  from this [of "cp div 256" "cp div 4096" "cp div 256 mod 16" "cp div 16" "cp div 16 mod 16" "cp mod 16"]
  have "((cp div 4096 * 16 + cp div 256 mod 16) * 16 + cp div 16 mod 16) * 16 + cp mod 16 = cp"
    using d by (metis div_mult_mod_eq)
  ultimately show ?thesis using top by (simp add: hex_value_digit)
qed


lemma read_char_escape:
  "cp < 65536 \<Longrightarrow> cp < 0xD800 \<or> 0xDC00 \<le> cp \<Longrightarrow> read_char (write_unicode_escape cp @ r) = (cp, r)"
  using read4_nibbles [of cp r] by (auto simp: write_unicode_escape_eq Let_def)

lemma escape_shape:
  assumes "cp < 65536"
  obtains a b c d where "write_unicode_escape cp = [CHR 0x5C, CHR ''u'', a, b, c, d]"
    and "\<And>r. read4 (a # b # c # d # r) = cp"
  using that [OF write_unicode_escape_eq] read4_nibbles [OF assms] by blast

lemma read_char_pair:
  assumes "0xD800 \<le> h" "h < 0xDC00" "l < 65536"
  shows "read_char (write_unicode_escape h @ write_unicode_escape l @ r)
    = (0x10000 + (h - 0xD800) * 1024 + (l - 0xDC00), r)"
proof -
  have "h < 65536" using assms by simp
  then obtain a b c d where h: "write_unicode_escape h = [CHR 0x5C, CHR ''u'', a, b, c, d]"
      "\<And>r. read4 (a # b # c # d # r) = h" by (rule escape_shape) blast
  obtain e f g i where l: "write_unicode_escape l = [CHR 0x5C, CHR ''u'', e, f, g, i]"
      "\<And>r. read4 (e # f # g # i # r) = l" using escape_shape [OF assms(3)] by blast
  show ?thesis using assms by (simp add: h l Let_def del: read4.simps)
qed

lemma read_char_surrogates:
  assumes "v < 1048576"
  shows "read_char (write_unicode_escape (0xD800 + v div 1024) @ write_unicode_escape (0xDC00 + v mod 1024) @ r)
    = (0x10000 + v, r)"
proof -
  have "0xD800 + v div 1024 < 0xDC00" "0xDC00 + v mod 1024 < 65536"
    using assms mod_less_divisor [of 1024 v] by auto
  then have "read_char (write_unicode_escape (0xD800 + v div 1024) @ write_unicode_escape (0xDC00 + v mod 1024) @ r)
      = (0x10000 + (0xD800 + v div 1024 - 0xD800) * 1024 + (0xDC00 + v mod 1024 - 0xDC00), r)"
    by (intro read_char_pair) auto
  then show ?thesis by simp
qed

lemma write_ascii_char_read: "scalar_value c \<Longrightarrow> read_char (write_ascii_char c @ r) = (c, r)"
proof -
  assume c: "scalar_value c"
  consider "c \<in> {0x22, 0x5C, 0x08, 0x09, 0x0A, 0x0C, 0x0D}"
    | "c \<notin> {0x22, 0x5C, 0x08, 0x09, 0x0A, 0x0C, 0x0D}" "c < 0x20"
    | "c \<notin> {0x22, 0x5C, 0x08, 0x09, 0x0A, 0x0C, 0x0D}" "0x20 \<le> c" "c < 0x7F"
    | "0x7F \<le> c" "c \<le> 0xFFFF" | "0xFFFF < c" by auto linarith
  then show ?thesis
  proof cases
    case 1
    then show ?thesis by (auto simp: write_ascii_char_def short_escape_def)
  next
    case 2
    then show ?thesis using read_char_escape [of c r] by (simp add: write_ascii_char_def)
  next
    case 3
    then have "char_of c \<noteq> CHR 0x5C" by (simp add: char_of_eq_small)
    moreover from 3 have "of_char (char_of c) = c" by simp
    moreover have "read_char (a # r) = (of_char a, r)" if "a \<noteq> CHR 0x5C" for a
      using that by (cases r) auto
    ultimately show ?thesis using 3 by (simp add: write_ascii_char_def)
  next
    case 4
    with c have "read_char (write_unicode_escape c @ r) = (c, r)"
      by (intro read_char_escape) (auto simp: scalar_value_def)
    with 4 show ?thesis by (simp add: write_ascii_char_def)
  next
    case 5
    with c have "c - 0x10000 < 1048576" "0x10000 + (c - 0x10000) = c" by (auto simp: scalar_value_def)
    with 5 show ?thesis
      using read_char_surrogates [of "c - 0x10000" r] by (simp add: write_ascii_char_def Let_def)
  qed
qed

lemma write_ascii_char_head: "write_ascii_char c \<noteq> [] \<and> hd (write_ascii_char c) \<noteq> CHR 0x22"
proof -
  have "(c < 0x7F \<and> c \<noteq> 0x22 \<and> write_ascii_char c = [char_of c]) \<or> (\<exists>t. write_ascii_char c = CHR 0x5C # t)"
    by (simp add: write_ascii_char_def write_unicode_escape_eq Let_def)
  moreover have "c < 0x7F \<Longrightarrow> c \<noteq> 0x22 \<Longrightarrow> char_of c \<noteq> CHR 0x22"
    using char_of_eq_small [of c "CHR 0x22"] by simp
  ultimately show ?thesis by (elim disjE exE) (simp, simp)
qed

lemma write_ascii_chars_cancel:
  assumes "list_all scalar_value cs" and "list_all scalar_value ds"
    and "concat (map write_ascii_char cs) @ CHR 0x22 # r = concat (map write_ascii_char ds) @ CHR 0x22 # r'"
  shows "cs = ds \<and> r = r'"
  using assms
proof (induction cs arbitrary: ds)
  case Nil
  show ?case
  proof (cases ds)
    case (Cons d ds')
    with Nil.prems write_ascii_char_head [of d] show ?thesis by (cases "write_ascii_char d") auto
  qed (use Nil.prems in simp)
next
  case (Cons c cs)
  show ?case
  proof (cases ds)
    case Nil
    with Cons.prems write_ascii_char_head [of c] show ?thesis by (cases "write_ascii_char c") auto
  next
    fix d ds' assume ds: "ds = d # ds'"
    let ?t = "concat (map write_ascii_char cs) @ CHR 0x22 # r"
    let ?t' = "concat (map write_ascii_char ds') @ CHR 0x22 # r'"
    have "write_ascii_char c @ ?t = write_ascii_char d @ ?t'" using Cons.prems ds by simp
    moreover have sc: "scalar_value c" "scalar_value d" "list_all scalar_value cs" "list_all scalar_value ds'"
      using Cons.prems(1,2) ds by auto
    ultimately have cd: "(c, ?t) = (d, ?t')"
      using write_ascii_char_read [OF sc(1), of ?t] write_ascii_char_read [OF sc(2), of ?t'] by metis
    then have "cs = ds' \<and> r = r'" by (intro Cons.IH sc) (rule Pair_inject)
    with cd ds show ?thesis by simp
  qed
qed

section \<open>The canonical form of integers and strings determines the envelope\<close>

lemma show_int_inj: "show_int i = show_int j \<Longrightarrow> i = j"
proof -
  assume e: "show_int i = show_int j"
  have nd: "CHR ''-'' \<notin> set (show_nat n)" for n
    using show_nat_digits [of "CHR ''-''" n] by (auto simp: is_ascii_digit_def)
  have "i < 0 \<longleftrightarrow> j < 0"
  proof -
    have "i < 0 \<longleftrightarrow> CHR ''-'' \<in> set (show_int i)" for i using nd by (auto simp: show_int_def)
    with e show ?thesis by metis
  qed
  with e show "i = j" by (auto simp: show_int_def inj_show_nat split: if_splits)
qed

lemma show_int_chars: "show_int i \<noteq> [] \<and> set (show_int i) \<subseteq> number_chars"
proof -
  have "is_ascii_digit c \<Longrightarrow> c \<in> number_chars" for c
  proof -
    assume "is_ascii_digit c"
    then have "(of_char c :: nat) \<in> {48..<58}" by (auto simp: is_ascii_digit_def)
    also have "{48..<58} = set [48, 49, 50, 51, 52, 53, 54, 55, 56, 57 :: nat]"
      unfolding atLeastLessThan_upt by (simp add: upt_rec)
    finally have "char_of (of_char c :: nat) \<in> char_of ` set [48, 49, 50, 51, 52, 53, 54, 55, 56, 57 :: nat]"
      by (rule imageI)
    moreover have "char_of ` set [48, 49, 50, 51, 52, 53, 54, 55, 56, 57 :: nat] \<subseteq> number_chars"
      by (simp add: number_chars_def char_of_eq_small)
    ultimately show ?thesis by auto
  qed
  then have "set (show_nat n) \<subseteq> number_chars" for n using show_nat_digits by blast
  moreover have "CHR ''-'' \<in> number_chars" by (simp add: number_chars_def)
  ultimately show ?thesis by (simp add: show_int_def)
qed

interpretation ascii_ints: text_format write_ascii_string show_int
proof
  fix s t r r'
  assume v: "valid_utf8 s" "valid_utf8 t" and e: "write_ascii_string s @ r = write_ascii_string t @ r'"
  have "str_chars s = str_chars t \<and> r = r'"
    by (rule write_ascii_chars_cancel) (use v e in \<open>auto simp: valid_utf8_def write_ascii_string_def\<close>)
  with v str_chars_inj show "s = t \<and> r = r'" by blast
qed (use show_int_inj show_int_chars in \<open>auto simp: write_ascii_string_def\<close>)

end
