(* ===== verification/AuditChain.thy ===== *)
theory AuditChain
  imports Protocol
begin

text \<open>
  The hash-chained audit log of \<^verbatim>\<open>crates/fabric-audit/src/lib.rs\<close>: the canonical payload, the
  event hash over \<open>prev|kind|payload\<close>, and the verification of a chain. SHA-256 and hex encoding
  come from \<^typ>\<open>crypto\<close>; the texts \<^verbatim>\<open>serde_json\<close> gives strings and numbers are a parameter.
\<close>

record 'n json_text =
  str_text :: "string \<Rightarrow> string"
  num_text :: "'n \<Rightarrow> string"

definition audit_genesis_hash :: string where
  "audit_genesis_hash = replicate 64 (CHR ''0'')"

definition audit_separator :: char where
  "audit_separator = CHR 0x7C"

definition audit_canonical_json :: "'n json_text \<Rightarrow> 'n json \<Rightarrow> string" where
  "audit_canonical_json jt payload = write_json (str_text jt) (num_text jt) payload"

definition hash_input :: "'n json_text \<Rightarrow> string \<Rightarrow> string \<Rightarrow> 'n json \<Rightarrow> string" where
  "hash_input jt prev_hash kind payload =
     prev_hash @ [audit_separator] @ kind @ [audit_separator] @ audit_canonical_json jt payload"

definition audit_event_hash ::
  "crypto \<Rightarrow> 'n json_text \<Rightarrow> string \<Rightarrow> string \<Rightarrow> 'n json \<Rightarrow> string" where
  "audit_event_hash cr jt prev_hash kind payload =
     hex_encode cr (sha256 cr (hash_input jt prev_hash kind payload))"

record 'n audit_event =
  event_id_hash :: string
  prev_event_id_hash :: string
  event_kind :: string
  event_payload :: "'n json"

datatype audit_error =
    ChainBreak (break_index: nat) (break_expected: string) (break_found: string)
  | HashMismatch (mismatch_index: nat) (mismatch_stored: string) (mismatch_recomputed: string)

fun verify_chain_from ::
  "crypto \<Rightarrow> 'n json_text \<Rightarrow> nat \<Rightarrow> string option \<Rightarrow> 'n audit_event list \<Rightarrow> (audit_error, unit) res" where
  "verify_chain_from cr jt i prev [] = Inr ()"
| "verify_chain_from cr jt i prev (e # es) =
     (if (case prev of Some expected \<Rightarrow> prev_event_id_hash e \<noteq> expected | None \<Rightarrow> False)
      then Inl (ChainBreak i (the prev) (prev_event_id_hash e))
      else let recomputed = audit_event_hash cr jt (prev_event_id_hash e) (event_kind e) (event_payload e) in
        if recomputed \<noteq> event_id_hash e then Inl (HashMismatch i (event_id_hash e) recomputed)
        else verify_chain_from cr jt (i + 1) (Some (event_id_hash e)) es)"

definition verify_chain ::
  "crypto \<Rightarrow> 'n json_text \<Rightarrow> 'n audit_event list \<Rightarrow> (audit_error, unit) res" where
  "verify_chain cr jt es = verify_chain_from cr jt 0 None es"

section \<open>What verification accepts\<close>

definition hash_ok :: "crypto \<Rightarrow> 'n json_text \<Rightarrow> 'n audit_event \<Rightarrow> bool" where
  "hash_ok cr jt e \<longleftrightarrow>
     event_id_hash e = audit_event_hash cr jt (prev_event_id_hash e) (event_kind e) (event_payload e)"

fun linked :: "string option \<Rightarrow> 'n audit_event list \<Rightarrow> bool" where
  "linked prev [] = True"
| "linked prev (e # es) =
     ((prev = None \<or> prev = Some (prev_event_id_hash e)) \<and> linked (Some (event_id_hash e)) es)"

lemma verify_chain_from_iff:
  "verify_chain_from cr jt i prev es = Inr () \<longleftrightarrow> linked prev es \<and> list_all (hash_ok cr jt) es"
  by (induction es arbitrary: i prev) (auto simp: hash_ok_def Let_def split: option.splits)

lemma verify_chain_iff:
  "verify_chain cr jt es = Inr () \<longleftrightarrow> linked None es \<and> list_all (hash_ok cr jt) es"
  by (simp add: verify_chain_def verify_chain_from_iff)

lemma linked_snoc:
  "linked prev (es @ [e]) \<longleftrightarrow>
     linked prev es \<and>
     (if es = [] then prev = None \<or> prev = Some (prev_event_id_hash e)
      else prev_event_id_hash e = event_id_hash (last es))"
  by (induction es arbitrary: prev) auto

lemma verify_chain_snoc:
  "verify_chain cr jt (es @ [e]) = Inr () \<longleftrightarrow>
     verify_chain cr jt es = Inr () \<and> hash_ok cr jt e \<and>
     (es = [] \<or> prev_event_id_hash e = event_id_hash (last es))"
  by (auto simp: verify_chain_iff linked_snoc)

section \<open>Tamper evidence\<close>

definition event_input :: "'n json_text \<Rightarrow> 'n audit_event \<Rightarrow> string" where
  "event_input jt e = hash_input jt (prev_event_id_hash e) (event_kind e) (event_payload e)"

definition digest :: "crypto \<Rightarrow> string \<Rightarrow> string" where
  "digest cr x = hex_encode cr (sha256 cr x)"

definition clean_event :: "'n audit_event \<Rightarrow> bool" where
  "clean_event e \<longleftrightarrow>
     audit_separator \<notin> set (prev_event_id_hash e) \<and> audit_separator \<notin> set (event_kind e) \<and>
     wf_json (event_payload e)"

lemma hash_ok_digest: "hash_ok cr jt e \<longleftrightarrow> event_id_hash e = digest cr (event_input jt e)"
  by (simp add: hash_ok_def audit_event_hash_def digest_def event_input_def)

lemma separated_eq:
  "c \<notin> set a \<Longrightarrow> c \<notin> set b \<Longrightarrow> a @ [c] @ r = b @ [c] @ r' \<Longrightarrow> a = b \<and> r = r'"
proof (induction a arbitrary: b)
  case Nil
  then show ?case by (cases b) auto
next
  case (Cons x a)
  then show ?case by (cases b) auto
qed

lemma event_input_inj:
  assumes "text_format (str_text jt) (num_text jt)" and "clean_event e" and "clean_event f"
    and "event_input jt e = event_input jt f"
  shows "prev_event_id_hash e = prev_event_id_hash f \<and> event_kind e = event_kind f \<and>
    event_payload e = event_payload f"
proof -
  let ?p = "\<lambda>e. event_kind e @ [audit_separator] @ audit_canonical_json jt (event_payload e)"
  have "prev_event_id_hash e @ [audit_separator] @ ?p e = prev_event_id_hash f @ [audit_separator] @ ?p f"
    using assms(4) by (simp add: event_input_def hash_input_def)
  then have "prev_event_id_hash e = prev_event_id_hash f \<and> ?p e = ?p f"
    using assms(2,3) by (intro separated_eq) (auto simp: clean_event_def)
  moreover from this have "event_kind e = event_kind f \<and>
      audit_canonical_json jt (event_payload e) = audit_canonical_json jt (event_payload f)"
    using assms(2,3) by (intro separated_eq [where c = audit_separator]) (auto simp: clean_event_def)
  moreover from this have "event_payload e = event_payload f"
    using text_format.canonical_inj [OF assms(1), of "event_payload e" "event_payload f"] assms(2,3)
    by (auto simp: audit_canonical_json_def clean_event_def)
  ultimately show ?thesis by simp
qed

text \<open>The same event, when the hash and what was hashed agree.\<close>

lemma event_committed:
  assumes "text_format (str_text jt) (num_text jt)" and "hash_ok cr jt e" and "hash_ok cr jt f"
    and "event_id_hash e = event_id_hash f" and "inj_on (digest cr) (event_input jt ` S)" and "e \<in> S" and "f \<in> S"
    and "clean_event e" and "clean_event f"
  shows "e = (f :: 'n audit_event)"
proof -
  have "event_input jt e = event_input jt f"
    by (rule inj_onD [OF assms(5)]) (use assms(2-4,6,7) in \<open>simp_all add: hash_ok_digest\<close>)
  then show ?thesis using event_input_inj [OF assms(1,8,9)] assms(4) by (cases e; cases f) simp
qed

text \<open>
  C5. The last hash commits to the history: of two chains that verify and end in the same event hash one
  is a tail of the other, event for event, as long as no two of the hashed byte strings collide and no
  previous hash or kind contains the separator. So no event of a chain can be altered, inserted or left
  out without changing its last hash; only events at the front can be missing, because the first previous
  hash is taken on trust, and chains of equal length are equal.
\<close>

theorem audit_chain_tamper_evident:
  assumes "text_format (str_text jt) (num_text jt)"
    and "verify_chain cr jt es = Inr ()" and "verify_chain cr jt fs = Inr ()"
    and "es \<noteq> []" and "fs \<noteq> []" and "event_id_hash (last es) = event_id_hash (last fs)"
    and "inj_on (digest cr) (event_input jt ` set (es @ fs))"
    and "list_all clean_event (es @ fs)"
  shows "(suffix es fs \<or> suffix fs es) \<and> (length es = length fs \<longrightarrow> es = (fs :: 'n audit_event list))"
proof -
  have "suffix es fs \<or> suffix fs es"
    using assms(2-8)
  proof (induction es arbitrary: fs rule: rev_induct)
    case (snoc e es)
    obtain gs f where fs: "fs = gs @ [f]" using snoc.prems(4) by (cases fs rule: rev_cases) auto
    have ok: "hash_ok cr jt e" "hash_ok cr jt f" "event_id_hash e = event_id_hash f" "clean_event e" "clean_event f"
      using snoc.prems(1,2,5,7) unfolding fs verify_chain_snoc by auto
    have ef: "e = f" using event_committed [OF assms(1) ok(1-3) snoc.prems(6) _ _ ok(4,5)] fs by simp
    show ?case
    proof (cases "es = [] \<or> gs = []")
      case True
      then show ?thesis by (auto simp: fs ef)
    next
      case False
      have es: "verify_chain cr jt es = Inr ()" "prev_event_id_hash e = event_id_hash (last es)"
        using snoc.prems(1) False unfolding verify_chain_snoc by blast+
      have gs: "verify_chain cr jt gs = Inr ()" "prev_event_id_hash f = event_id_hash (last gs)"
        using snoc.prems(2) False unfolding fs verify_chain_snoc by blast+
      have "suffix es gs \<or> suffix gs es"
      proof (rule snoc.IH [OF es(1) gs(1)])
        show "event_id_hash (last es) = event_id_hash (last gs)" using es(2) gs(2) ef by simp
        show "inj_on (digest cr) (event_input jt ` set (es @ gs))"
          by (rule inj_on_subset [OF snoc.prems(6)]) (auto simp: fs)
        show "list_all clean_event (es @ gs)" using snoc.prems(7) fs by simp
      qed (use False in simp_all)
      then show ?thesis by (simp add: fs ef)
    qed
  qed simp
  moreover from this have "length es = length fs \<longrightarrow> es = fs" by (auto simp: suffix_def)
  ultimately show ?thesis by blast
qed

text \<open>Leaving out the front of a chain is not noticed.\<close>

lemma front_may_be_missing: "verify_chain cr jt (es @ fs) = Inr () \<Longrightarrow> verify_chain cr jt fs = Inr ()"
proof (induction es)
  case (Cons e es)
  then show ?case by (cases "es @ fs") (auto simp: verify_chain_iff)
qed simp

text \<open>A hash that tells the inputs of the example apart, by their length.\<close>

definition toy_crypto :: crypto where
  "toy_crypto =
     \<lparr>hex_decode = Inr, hex_encode = id, pk_from_bytes = (\<lambda>_. True), ed_verify = (\<lambda>pk m s. s = m),
      ed_sign = (\<lambda>sk m. m), sha256 = (\<lambda>x. replicate (length x) (CHR ''a''))\<rparr>"

definition toy_text :: "int json_text" where
  "toy_text = \<lparr>str_text = write_ascii_string, num_text = show_int\<rparr>"

definition toy_event :: "string \<Rightarrow> string \<Rightarrow> int \<Rightarrow> int audit_event" where
  "toy_event prev kind n =
     \<lparr>event_id_hash = audit_event_hash toy_crypto toy_text prev kind (JNum n),
      prev_event_id_hash = prev, event_kind = kind, event_payload = JNum n\<rparr>"

theorem audit_chain_tamper_evident_witness:
  "let first = toy_event ''0'' ''dispatch'' 7; second = toy_event (event_id_hash first) ''claim'' 8;
       forged = toy_event ''0'' ''dispatch'' 1234 in
   verify_chain toy_crypto toy_text [first, second] = Inr () \<and>
   verify_chain toy_crypto toy_text [forged, second] \<noteq> Inr ()"
proof -
  define a b c where "a = toy_event ''0'' ''dispatch'' 7"
    and "b = toy_event (event_id_hash a) ''claim'' 8" and "c = toy_event ''0'' ''dispatch'' 1234"
  have tf: "text_format (str_text toy_text) (num_text toy_text)"
    by (simp add: toy_text_def ascii_ints.text_format_axioms)
  have ok: "verify_chain toy_crypto toy_text [a, b] = Inr ()"
    by (simp add: verify_chain_iff hash_ok_def a_def b_def toy_event_def)
  have len: "length (event_input toy_text a) = 12" "length (event_input toy_text b) = 20"
      "length (event_input toy_text c) = 15"
    by (simp_all add: a_def b_def c_def) code_simp+
  have "verify_chain toy_crypto toy_text [c, b] \<noteq> Inr ()"
  proof
    assume v: "verify_chain toy_crypto toy_text [c, b] = Inr ()"
    have "(suffix [a, b] [c, b] \<or> suffix [c, b] [a, b]) \<and> (length [a, b] = length [c, b] \<longrightarrow> [a, b] = [c, b])"
    proof (rule audit_chain_tamper_evident [OF tf ok v])
      show "inj_on (digest toy_crypto) (event_input toy_text ` set ([a, b] @ [c, b]))"
        using len by (auto simp: inj_on_def digest_def toy_crypto_def dest!: arg_cong [of _ _ length])
      have "audit_separator \<notin> set (event_id_hash a)"
        by (auto simp: a_def toy_event_def audit_event_hash_def toy_crypto_def audit_separator_def)
      then show "list_all clean_event ([a, b] @ [c, b])"
        by (simp add: a_def b_def c_def toy_event_def clean_event_def audit_separator_def)
    qed simp_all
    then show False by (simp add: a_def c_def toy_event_def)
  qed
  with ok show ?thesis by (simp add: Let_def a_def b_def c_def)
qed

end
