(* ===== verification/AccountTypes.thy ===== *)
theory AccountTypes
  imports Json FabricTypes
begin

text \<open>
  Human principals (\<^verbatim>\<open>crates/fabric-accounts/src\<close>: \<^verbatim>\<open>domain.rs\<close>, \<^verbatim>\<open>webauthn.rs\<close>, \<^verbatim>\<open>error.rs\<close>) and the
  tables that hold them (\<^verbatim>\<open>init_human_accounts_schema\<close> of
  \<^verbatim>\<open>crates/fabric-store-rqlite/src/human_accounts.rs\<close>). A column that holds the text of an enumeration
  is the enumeration: \<open>parse_\<dots>\<close> reads every text \<open>\<dots>_str\<close> writes, and nothing else writes the column.
\<close>

section \<open>Enumerations\<close>

datatype account_status =
    Invited | ActiveAccount | Disabled | Locked | RecoveryRequiredStatus | DeletionPending | DeletedTombstone

fun account_status_str :: "account_status \<Rightarrow> string" where
  "account_status_str Invited = ''invited''"
| "account_status_str ActiveAccount = ''active''"
| "account_status_str Disabled = ''disabled''"
| "account_status_str Locked = ''locked''"
| "account_status_str RecoveryRequiredStatus = ''recovery_required''"
| "account_status_str DeletionPending = ''deletion_pending''"
| "account_status_str DeletedTombstone = ''deleted_tombstone''"

definition may_authenticate_normally :: "account_status \<Rightarrow> bool" where
  "may_authenticate_normally s = (s = ActiveAccount)"

datatype human_role = Observer | Dispatcher | Approver | Reviewer | Admin | Runner

fun human_role_str :: "human_role \<Rightarrow> string" where
  "human_role_str Observer = ''observer''"
| "human_role_str Dispatcher = ''dispatcher''"
| "human_role_str Approver = ''approver''"
| "human_role_str Reviewer = ''reviewer''"
| "human_role_str Admin = ''admin''"
| "human_role_str Runner = ''runner''"

definition human_assignable :: "human_role \<Rightarrow> bool" where
  "human_assignable r = (r \<noteq> Runner)"

datatype credential_kind = Password | Webauthn

fun credential_kind_str :: "credential_kind \<Rightarrow> string" where
  "credential_kind_str Password = ''password''"
| "credential_kind_str Webauthn = ''webauthn''"

datatype assurance_level = Aal1 | Aal2 | RecoveryLimited

fun assurance_str :: "assurance_level \<Rightarrow> string" where
  "assurance_str Aal1 = ''aal1''"
| "assurance_str Aal2 = ''aal2''"
| "assurance_str RecoveryLimited = ''recovery_limited''"

datatype client_kind = Vsix | Desktop | Cli | OtherClient

fun client_kind_str :: "client_kind \<Rightarrow> string" where
  "client_kind_str Vsix = ''vsix''"
| "client_kind_str Desktop = ''desktop''"
| "client_kind_str Cli = ''cli''"
| "client_kind_str OtherClient = ''other''"

datatype challenge_purpose = Registration | Authentication | StepUp

fun purpose_str :: "challenge_purpose \<Rightarrow> string" where
  "purpose_str Registration = ''registration''"
| "purpose_str Authentication = ''authentication''"
| "purpose_str StepUp = ''step_up''"

datatype challenge_status = PendingChallenge | ConsumedChallenge | FailedChallenge

fun challenge_status_str :: "challenge_status \<Rightarrow> string" where
  "challenge_status_str PendingChallenge = ''pending''"
| "challenge_status_str ConsumedChallenge = ''consumed''"
| "challenge_status_str FailedChallenge = ''failed''"

section \<open>Errors\<close>

datatype accounts_error =
    AuthenticationRequired
  | InvalidCredentials
  | SessionExpired
  | SessionRevoked
  | RefreshReplayDetected
  | AccountDisabled
  | AccountLocked "int option"
  | RecoveryRequired
  | StepUpRequired
  | AssuranceTooLow
  | AccountPolicyViolation string
  | LastAdministratorViolation
  | UsernameConflict
  | CredentialConflict
  | BootstrapClosed
  | BootstrapLocalOnly
  | AuthServiceUnavailable
  | RolePolicyViolation
  | ChallengeInvalid
  | CredentialReplaySuspected
  | RealmAlreadyEstablished

fun accounts_error_code :: "accounts_error \<Rightarrow> string" where
  "accounts_error_code AuthenticationRequired = ''AuthenticationRequired''"
| "accounts_error_code InvalidCredentials = ''InvalidCredentials''"
| "accounts_error_code SessionExpired = ''SessionExpired''"
| "accounts_error_code SessionRevoked = ''SessionRevoked''"
| "accounts_error_code RefreshReplayDetected = ''RefreshReplayDetected''"
| "accounts_error_code AccountDisabled = ''AccountDisabled''"
| "accounts_error_code (AccountLocked _) = ''AccountLocked''"
| "accounts_error_code RecoveryRequired = ''RecoveryRequired''"
| "accounts_error_code StepUpRequired = ''StepUpRequired''"
| "accounts_error_code AssuranceTooLow = ''AssuranceTooLow''"
| "accounts_error_code (AccountPolicyViolation _) = ''AccountPolicyViolation''"
| "accounts_error_code LastAdministratorViolation = ''LastAdministratorViolation''"
| "accounts_error_code UsernameConflict = ''UsernameConflict''"
| "accounts_error_code CredentialConflict = ''CredentialConflict''"
| "accounts_error_code BootstrapClosed = ''BootstrapClosed''"
| "accounts_error_code BootstrapLocalOnly = ''BootstrapLocalOnly''"
| "accounts_error_code AuthServiceUnavailable = ''AuthServiceUnavailable''"
| "accounts_error_code RolePolicyViolation = ''RolePolicyViolation''"
| "accounts_error_code ChallengeInvalid = ''ChallengeInvalid''"
| "accounts_error_code CredentialReplaySuspected = ''CredentialReplaySuspected''"
| "accounts_error_code RealmAlreadyEstablished = ''RealmAlreadyEstablished''"

definition accounts_error_codes :: "string list" where
  "accounts_error_codes =
     [''AuthenticationRequired'', ''InvalidCredentials'', ''SessionExpired'', ''SessionRevoked'',
      ''RefreshReplayDetected'', ''AccountDisabled'', ''AccountLocked'', ''RecoveryRequired'',
      ''StepUpRequired'', ''AssuranceTooLow'', ''AccountPolicyViolation'', ''LastAdministratorViolation'',
      ''UsernameConflict'', ''CredentialConflict'', ''BootstrapClosed'', ''BootstrapLocalOnly'',
      ''AuthServiceUnavailable'', ''RolePolicyViolation'', ''ChallengeInvalid'',
      ''CredentialReplaySuspected'', ''RealmAlreadyEstablished'']"

section \<open>Reading the enumerations\<close>

definition parse_account_status :: "string \<Rightarrow> (accounts_error, account_status) res" where
  "parse_account_status s =
     (if s = ''invited'' then Inr Invited
      else if s = ''active'' then Inr ActiveAccount
      else if s = ''disabled'' then Inr Disabled
      else if s = ''locked'' then Inr Locked
      else if s = ''recovery_required'' then Inr RecoveryRequiredStatus
      else if s = ''deletion_pending'' then Inr DeletionPending
      else if s = ''deleted_tombstone'' then Inr DeletedTombstone
      else Inl (AccountPolicyViolation (''unrecognized_account_status:'' @ s)))"

definition parse_human_role :: "string \<Rightarrow> (accounts_error, human_role) res" where
  "parse_human_role s =
     (if s = ''observer'' then Inr Observer
      else if s = ''dispatcher'' then Inr Dispatcher
      else if s = ''approver'' then Inr Approver
      else if s = ''reviewer'' then Inr Reviewer
      else if s = ''admin'' then Inr Admin
      else if s = ''runner'' then Inr Runner
      else Inl (AccountPolicyViolation (''unrecognized_role:'' @ s)))"

definition parse_credential_kind :: "string \<Rightarrow> (accounts_error, credential_kind) res" where
  "parse_credential_kind s =
     (if s = ''password'' then Inr Password
      else if s = ''webauthn'' then Inr Webauthn
      else Inl (AccountPolicyViolation (''unrecognized_credential_kind:'' @ s)))"

definition parse_assurance :: "string \<Rightarrow> (accounts_error, assurance_level) res" where
  "parse_assurance s =
     (if s = ''aal1'' then Inr Aal1
      else if s = ''aal2'' then Inr Aal2
      else if s = ''recovery_limited'' then Inr RecoveryLimited
      else Inl (AccountPolicyViolation (''unrecognized_assurance_level:'' @ s)))"

definition parse_client_kind :: "string \<Rightarrow> client_kind" where
  "parse_client_kind s =
     (if s = ''vsix'' then Vsix else if s = ''desktop'' then Desktop
      else if s = ''cli'' then Cli else OtherClient)"

definition parse_purpose :: "string \<Rightarrow> (accounts_error, challenge_purpose) res" where
  "parse_purpose s =
     (if s = ''registration'' then Inr Registration
      else if s = ''authentication'' then Inr Authentication
      else if s = ''step_up'' then Inr StepUp
      else Inl ChallengeInvalid)"

definition parse_challenge_status :: "string \<Rightarrow> (accounts_error, challenge_status) res" where
  "parse_challenge_status s =
     (if s = ''pending'' then Inr PendingChallenge
      else if s = ''consumed'' then Inr ConsumedChallenge
      else if s = ''failed'' then Inr FailedChallenge
      else Inl ChallengeInvalid)"

text \<open>Every column of the tables below reads back as what was written to it.\<close>

lemma enumeration_columns_roundtrip:
  "parse_account_status (account_status_str st) = Inr st
    \<and> parse_human_role (human_role_str r) = Inr r
    \<and> parse_credential_kind (credential_kind_str ck) = Inr ck
    \<and> parse_assurance (assurance_str al) = Inr al
    \<and> parse_client_kind (client_kind_str c) = c
    \<and> parse_purpose (purpose_str pu) = Inr pu
    \<and> parse_challenge_status (challenge_status_str cs) = Inr cs"
proof (intro conjI)
  show "parse_account_status (account_status_str st) = Inr st" by (cases st) (simp_all add: parse_account_status_def)
  show "parse_human_role (human_role_str r) = Inr r" by (cases r) (simp_all add: parse_human_role_def)
  show "parse_credential_kind (credential_kind_str ck) = Inr ck" by (cases ck) (simp_all add: parse_credential_kind_def)
  show "parse_assurance (assurance_str al) = Inr al" by (cases al) (simp_all add: parse_assurance_def)
  show "parse_client_kind (client_kind_str c) = c" by (cases c) (simp_all add: parse_client_kind_def)
  show "parse_purpose (purpose_str pu) = Inr pu" by (cases pu) (simp_all add: parse_purpose_def)
  show "parse_challenge_status (challenge_status_str cs) = Inr cs" by (cases cs) (simp_all add: parse_challenge_status_def)
qed

lemma accounts_error_code_listed: "accounts_error_code e \<in> set accounts_error_codes"
  by (cases e) (simp_all add: accounts_error_codes_def)

section \<open>Records\<close>

record account =
  ac_account_id :: string
  ac_realm_id :: string
  ac_username_normalized :: string
  ac_username_display :: string
  ac_display_name :: string
  ac_email_normalized :: "string option"
  ac_status :: account_status
  ac_created_at :: string
  ac_updated_at :: string
  ac_disabled_at :: "string option"
  ac_deleted_at :: "string option"
  ac_revision :: int
  ac_security_version :: int

text \<open>A row of the credential table has the sign count of a passkey beside the credential.\<close>

record 'v credential_of =
  cd_credential_id :: string
  cd_account_id :: string
  cd_kind :: credential_kind
  cd_secret_verifier :: "string option"
  cd_algorithm :: "string option"
  cd_algorithm_params :: "'v option"
  cd_version :: int
  cd_public_key_material :: "string option"
  cd_label :: "string option"
  cd_created_at :: string
  cd_last_used_at :: "string option"
  cd_compromised_at :: "string option"
  cd_revoked_at :: "string option"
  cd_revision :: int
  cd_backup_eligible :: bool
  cd_backup_state :: bool

record 'v credential_row_of = "'v credential_of" +
  cd_sign_count :: "int option"

record membership =
  mb_membership_id :: string
  mb_account_id :: string
  mb_realm_id :: string
  mb_role :: human_role
  mb_granted_by :: "string option"
  mb_granted_at :: string
  mb_revoked_at :: "string option"
  mb_revision :: int

record session =
  hs_session_id :: string
  hs_account_id :: string
  hs_realm_id :: string
  hs_access_secret_hash :: string
  hs_refresh_family_id :: string
  hs_refresh_secret_hash :: string
  hs_client_identity_id :: "string option"
  hs_client_kind :: client_kind
  hs_client_label :: "string option"
  hs_assurance_level :: assurance_level
  hs_authenticated_at :: string
  hs_step_up_at :: "string option"
  hs_created_at :: string
  hs_last_seen_at :: string
  hs_idle_expires_at :: string
  hs_absolute_expires_at :: string
  hs_security_version_at_issue :: int
  hs_revoked_at :: "string option"
  hs_revoke_reason :: "string option"
  hs_revision :: int
  hs_bound_public_key :: "string option"

record realm_identity =
  ri_realm_id :: string
  ri_name :: string
  ri_rp_id :: string
  ri_origins :: "string list"
  ri_created_at :: string
  ri_genesis_node :: "string option"
  ri_key_alg :: string

record recovery_code_row =
  rc_code_id :: string
  rc_account_id :: string
  rc_code_verifier :: string
  rc_batch_id :: string
  rc_created_at :: string
  rc_consumed_at :: "string option"
  rc_revoked_at :: "string option"
  rc_expires_at :: "string option"

record login_attempt_row =
  la_id :: int
  la_dimension_kind :: string
  la_dimension_key :: string
  la_attempted_at :: string
  la_successful :: bool

record auth_challenge =
  ch_challenge_id :: string
  ch_purpose :: challenge_purpose
  ch_account_id :: "string option"
  ch_session_id :: "string option"
  ch_client_identity_id :: "string option"
  ch_challenge_hash :: string
  ch_ceremony_state :: string
  ch_created_at :: string
  ch_expires_at :: string
  ch_consumed_at :: "string option"
  ch_attempt_count :: int
  ch_status :: challenge_status

text \<open>The tables; the two singletons are optional rows.\<close>

record 'v people_of =
  accounts :: "account list"
  credentials :: "'v credential_row_of list"
  memberships :: "membership list"
  sessions :: "session list"
  recovery_codes :: "recovery_code_row list"
  challenges :: "auth_challenge list"
  login_attempts :: "login_attempt_row list"
  last_attempt_id :: int
  bootstrap_state :: "(string \<times> string) option"
  realm_singleton :: "realm_identity option"

definition no_people :: "'v people_of" where
  "no_people =
     \<lparr>accounts = [], credentials = [], memberships = [], sessions = [], recovery_codes = [],
      challenges = [], login_attempts = [], last_attempt_id = 0, bootstrap_state = None,
      realm_singleton = None\<rparr>"

section \<open>Memberships\<close>

definition membership_for_human ::
  "string \<Rightarrow> string \<Rightarrow> string \<Rightarrow> human_role \<Rightarrow> string option \<Rightarrow> string \<Rightarrow> (accounts_error, membership) res" where
  "membership_for_human i account realm role granted_by now =
     (if \<not> human_assignable role then Inl (AccountPolicyViolation ''human_runner_membership_forbidden'')
      else Inr \<lparr>mb_membership_id = i, mb_account_id = account, mb_realm_id = realm, mb_role = role,
                mb_granted_by = granted_by, mb_granted_at = now, mb_revoked_at = None, mb_revision = 0\<rparr>)"

definition membership_for_automation :: "string \<Rightarrow> string \<Rightarrow> string \<Rightarrow> string \<Rightarrow> membership" where
  "membership_for_automation i account realm now =
     \<lparr>mb_membership_id = i, mb_account_id = account, mb_realm_id = realm, mb_role = Runner,
      mb_granted_by = None, mb_granted_at = now, mb_revoked_at = None, mb_revision = 0\<rparr>"

end
