(* ===== verification/StoreTypes.thy ===== *)
theory StoreTypes
  imports AccountTypes Json FabricTypes Floats
begin

text \<open>
  The rows of the durable state (\<^verbatim>\<open>crates/fabric-store/src/lib.rs\<close>) and the tables of the rqlite
  backend (\<^verbatim>\<open>crates/fabric-store-rqlite/src/lib.rs\<close>). A table is the list of its rows in the order
  of insertion; a JSON column holds the value its text decodes to. Ids and counters are integers;
  the id columns declared \<^verbatim>\<open>AUTOINCREMENT\<close> have a counter that never goes back.
\<close>

datatype jnum = JInt int | JFloat f64

type_synonym jv = "jnum json"

text \<open>\<^verbatim>\<open>json!\<close> of a number; a float that JSON has no number for becomes null.\<close>

definition jint :: "int \<Rightarrow> jv" where
  "jint n = JNum (JInt n)"

definition jfloat :: "f64 \<Rightarrow> jv" where
  "jfloat x = (if x = NaN \<or> x = PosInf \<or> x = NegInf then JNull else JNum (JFloat x))"

datatype store_error =
    NotFound string
  | Conflict string
  | PermissionDenied string
  | Schema string
  | Backend string

text \<open>What a dispatch fixes of a task; nothing changes it later.\<close>

record create_task_params =
  cp_title :: string
  cp_prompt :: string
  cp_scope_globs :: "string list"
  cp_base_commit :: string
  cp_branch :: string
  cp_todo_id :: "string option"
  cp_timeout_minutes :: int
  cp_priority :: int
  cp_kind :: string
  cp_metadata :: jv
  cp_required_tools :: "string list option"
  cp_required_tags :: "string list option"
  cp_tenant :: "string option"
  cp_workspace_root :: "string option"
  cp_require_base_commit :: bool
  cp_required_capabilities :: "string list option"
  cp_secrets_needed :: "string list option"
  cp_network_egress :: "jv option"
  cp_dispatcher_id :: "string option"
  cp_dispatch :: "string option"
  cp_skill :: "string option"
  cp_tool :: "string option"
  cp_command :: "string list option"
  cp_cwd :: "string option"
  cp_env :: "jv option"
  cp_initial_status :: "string option"
  cp_dispatched_by_user :: "string option"
  cp_dispatched_by_host :: "string option"
  cp_dispatched_by_agent :: "string option"
  cp_dispatcher_pubkey_fingerprint :: "string option"
  cp_approval_id :: "string option"
  cp_policy_decisions :: "jv list"
  cp_approvals_required :: int
  cp_approvals_received :: int

record task_row =
  t_id :: int
  t_brief :: create_task_params
  t_status :: string
  t_worker_id :: "string option"
  t_created_at :: string
  t_claimed_at :: "string option"
  t_started_at :: "string option"
  t_completed_at :: "string option"
  t_dispatched_at :: string
  t_claimed_by_runner :: "string option"
  t_claimed_by_host :: "string option"
  t_wall_seconds :: "f64 option"
  t_runner_cpu_seconds :: "f64 option"
  t_policy_decisions :: "jv list"
  t_approvals_required :: int
  t_approvals_received :: int
  t_approval_id :: "string option"
  t_exit_reason :: "string option"
  t_exit_code :: "int option"
  t_cancel_requested :: bool

datatype claim_result = Claimed task_row | AlreadyClaimed

record submit_result_params =
  sr_task_id :: int
  sr_worker_id :: string
  sr_status :: string
  sr_head_commit :: "string option"
  sr_commits :: "string list"
  sr_files_touched :: "string list"
  sr_test_summary :: "string option"
  sr_log_tail :: "string option"
  sr_error :: "string option"
  sr_wall_seconds :: "f64 option"
  sr_runner_cpu_seconds :: "f64 option"
  sr_exit_reason :: string
  sr_exit_code :: "int option"

record result_row =
  r_task_id :: int
  r_status :: string
  r_branch :: string
  r_head_commit :: "string option"
  r_commits :: "string list"
  r_files_touched :: "string list"
  r_test_summary :: "string option"
  r_log_tail :: "string option"
  r_error :: "string option"
  r_reported_at :: string

text \<open>The payload a runner registers with, as the fields the store reads of it.\<close>

record runner_payload =
  rp_runner_id :: "string option"
  rp_public_key :: string
  rp_hostname :: string
  rp_os :: string
  rp_arch :: string
  rp_tools :: "string list"
  rp_tags :: "string list"
  rp_scope_prefixes :: "string list"
  rp_tenant :: "string option"
  rp_workspace_root :: "string option"
  rp_runner_version :: string
  rp_protocol_version :: int
  rp_max_concurrent :: int
  rp_metadata :: jv
  rp_capabilities :: jv
  rp_kinds :: "string list"
  rp_agent_type :: "string option"
  rp_mcp_manifest :: "jv option"

record runner_row =
  rn_runner_id :: string
  rn_public_key :: string
  rn_payload :: runner_payload
  rn_kinds :: "string list"
  rn_mcp_manifest_version :: int
  rn_state :: string
  rn_drain_requested :: bool
  rn_last_known_commit :: "string option"
  rn_first_seen :: string
  rn_last_heartbeat :: string
  rn_last_nonce :: "string option"
  rn_claim_failures_total :: int
  rn_claim_failures_consecutive :: int
  rn_last_claim_error :: "string option"
  rn_heartbeat_failures_total :: int

record heartbeat_payload =
  hb_nonce :: string
  hb_last_known_commit :: "string option"
  hb_claim_failures_total :: "int option"
  hb_claim_failures_consecutive :: "int option"
  hb_last_claim_error :: "string option"
  hb_heartbeat_failures_total :: "int option"

record dispatcher_payload =
  dp_dispatcher_id :: "string option"
  dp_public_key :: string
  dp_label :: string
  dp_hostname :: "string option"
  dp_metadata :: jv

record dispatcher_row =
  d_dispatcher_id :: string
  d_public_key :: string
  d_label :: string
  d_hostname :: "string option"
  d_metadata :: jv
  d_first_seen :: string
  d_last_seen :: string
  d_last_nonce :: "string option"

record nonce_row =
  n_holder :: string
  n_nonce :: string
  n_used_at :: string

record stream_line =
  sl_id :: int
  sl_task_id :: int
  sl_seq :: int
  sl_channel :: string
  sl_line :: string
  sl_created_at :: string

record progress_entry =
  pg_id :: int
  pg_task_id :: int
  pg_seq :: int
  pg_message :: string
  pg_files_touched :: "string list"
  pg_created_at :: string

record note_row =
  nt_id :: int
  nt_task_id :: int
  nt_author :: string
  nt_body :: string
  nt_created_at :: string

record audit_row =
  au_seq :: int
  au_event_id_hash :: string
  au_prev_event_id_hash :: string
  au_kind :: string
  au_task_id :: "int option"
  au_payload_json :: string
  au_created_at :: string

datatype audit_append_result =
    AppendOk audit_row
  | TailConflict (conflict_expected: string) (conflict_actual: string)

record approval_row =
  ap_approval_id :: string
  ap_envelope_hash :: string
  ap_status :: string
  ap_decision :: jv
  ap_task_label :: "string option"
  ap_branch :: "string option"
  ap_scope_globs :: "string list"
  ap_dispatcher_id :: "string option"
  ap_approver :: "string option"
  ap_reason :: "string option"
  ap_created_at :: string
  ap_resolved_at :: "string option"

record secret_row =
  s_name :: string
  s_encrypted_value :: string
  s_version :: int
  s_created_at :: string
  s_last_rotated_at :: "string option"

record label_row =
  lb_key :: string
  lb_value :: string
  lb_updated_by :: "string option"
  lb_updated_at :: string

record host_role_row =
  hr_hostname :: string
  hr_role :: string
  hr_enabled :: bool
  hr_status :: "string option"
  hr_metadata :: jv
  hr_updated_at :: string

record role_token_row =
  rt_token_id :: string
  rt_token_hash :: string
  rt_label :: string
  rt_roles :: "string list"
  rt_created_at :: string
  rt_created_by :: string
  rt_migrated :: bool
  rt_revoked_at :: "string option"

record cost_row =
  c_id :: int
  c_task_id :: string
  c_dispatcher_id :: "string option"
  c_runner_id :: "string option"
  c_model_id :: string
  c_prompt_tokens :: int
  c_completion_tokens :: int
  c_cost_usd :: f64
  c_wall_seconds :: f64
  c_runner_cpu_seconds :: f64
  c_created_at :: string

record budget_row =
  b_scope :: string
  b_period_key :: string
  b_spend_usd :: f64
  b_updated_at :: string

record current_budget_row =
  cb_today :: string
  cb_week :: string
  cb_daily_spend_usd :: f64
  cb_weekly_spend_usd :: f64

record capability_row =
  cap_runner_id :: string
  cap_kind :: string
  cap_name :: string
  cap_source_server :: string
  cap_description :: "string option"
  cap_extra :: jv
  cap_updated_at :: string

record settings_document =
  sd_revision :: int
  sd_value :: jv
  sd_updated_at :: "string option"
  sd_updated_by :: "string option"

record watermark_row =
  wm_stream :: string
  wm_sequence :: int
  wm_updated_at :: string

section \<open>The database\<close>

record db =
  tasks :: "task_row list"
  last_task_id :: int
  results :: "result_row list"
  runners :: "runner_row list"
  dispatchers :: "dispatcher_row list"
  dispatcher_nonces :: "nonce_row list"
  runner_nonces :: "nonce_row list"
  session_nonces :: "nonce_row list"
  task_streams :: "stream_line list"
  last_stream_id :: int
  progress :: "progress_entry list"
  last_progress_id :: int
  note_rows :: "note_row list"
  last_note_id :: int
  audit_events :: "audit_row list"
  last_audit_seq :: int
  approvals :: "approval_row list"
  secrets :: "secret_row list"
  labels :: "label_row list"
  host_roles :: "host_role_row list"
  role_tokens :: "role_token_row list"
  cost_ledger :: "cost_row list"
  last_cost_id :: int
  budget_state :: "budget_row list"
  runner_capabilities :: "capability_row list"
  settings_doc :: "settings_document option"
  watermarks :: "watermark_row list"
  people :: "jv people_of"

definition empty_db :: db where
  "empty_db =
     \<lparr>tasks = [], last_task_id = 0, results = [], runners = [], dispatchers = [],
      dispatcher_nonces = [], runner_nonces = [], session_nonces = [],
      task_streams = [], last_stream_id = 0, progress = [], last_progress_id = 0,
      note_rows = [], last_note_id = 0, audit_events = [], last_audit_seq = 0,
      approvals = [], secrets = [], labels = [], host_roles = [], role_tokens = [],
      cost_ledger = [], last_cost_id = 0, budget_state = [], runner_capabilities = [],
      settings_doc = None, watermarks = [], people = no_people\<rparr>"

end
