(* ===== verification/StoreCore.thy ===== *)
theory StoreCore
  imports StoreTypes
begin

text \<open>
  How the store talks to rqlite (\<^verbatim>\<open>crates/fabric-store-rqlite/src/lib.rs\<close>, \<^verbatim>\<open>execute\<close>,
  \<^verbatim>\<open>execute_one\<close>, \<^verbatim>\<open>execute_insert\<close>, \<^verbatim>\<open>execute_tx\<close>, \<^verbatim>\<open>query\<close>): every statement is one HTTP
  request that the leader applies atomically. Before a statement runs other clients may have run
  theirs, and a request may fail before or after the statement took effect. A world is the database
  and the script of what happens at each of the coming statements; when the script is at its end
  nothing interferes.
\<close>

section \<open>Backend replies\<close>

datatype rqlite_error =
    HttpError string
  | StatusError int string
  | QuorumLoss
  | RedirectLoop

fun rqlite_error_text :: "rqlite_error \<Rightarrow> string" where
  "rqlite_error_text (HttpError m) = ''rqlite HTTP error: '' @ m"
| "rqlite_error_text (StatusError s b) = ''rqlite returned '' @ show_int s @ '': '' @ b"
| "rqlite_error_text QuorumLoss = ''rqlite quorum loss (503)''"
| "rqlite_error_text RedirectLoop = ''rqlite redirect loop (>3 redirects)''"

fun store_error_of :: "rqlite_error \<Rightarrow> store_error" where
  "store_error_of QuorumLoss = Backend ''rqlite quorum loss''"
| "store_error_of e = Backend (rqlite_error_text e)"

text \<open>
  \<open>Answered\<close>: the statement ran and its result came back. \<open>Refused\<close>: it did not run. \<open>Lost\<close>: it
  ran, but the client sees the error.
\<close>

datatype reply = Answered | Refused rqlite_error | Lost rqlite_error

record turn =
  turn_env :: "db \<Rightarrow> db"
  turn_reply :: reply

record world =
  db :: db
  script :: "turn list"

type_synonym 'a rq = "world \<Rightarrow> (rqlite_error, 'a) res \<times> world"
type_synonym 'a op = "world \<Rightarrow> (store_error, 'a) res \<times> world"

definition next_turn :: "world \<Rightarrow> reply \<times> world" where
  "next_turn w =
     (case script w of
        [] \<Rightarrow> (Answered, w)
      | t # ts \<Rightarrow> (turn_reply t, w\<lparr>db := turn_env t (db w), script := ts\<rparr>))"

text \<open>
  One statement. It gives its result and the new database, or the text of the SQL error that left
  the database as it was.
\<close>

definition statement :: "(db \<Rightarrow> (string, 'a) res \<times> db) \<Rightarrow> 'a rq" where
  "statement f w =
     (case next_turn w of (r, w1) \<Rightarrow>
        case r of
          Refused e \<Rightarrow> (Inl e, w1)
        | Lost e \<Rightarrow>
            (Inl e, case f (db w1) of (Inr _, d) \<Rightarrow> w1\<lparr>db := d\<rparr> | (Inl _, _) \<Rightarrow> w1)
        | Answered \<Rightarrow>
            (case f (db w1) of
               (Inr x, d) \<Rightarrow> (Inr x, w1\<lparr>db := d\<rparr>)
             | (Inl m, _) \<Rightarrow> (Inl (StatusError 200 m), w1)))"

definition query_rq :: "(db \<Rightarrow> 'a) \<Rightarrow> 'a rq" where
  "query_rq f = statement (\<lambda>d. (Inr (f d), d))"

definition update_rq :: "(db \<Rightarrow> 'a \<times> db) \<Rightarrow> 'a rq" where
  "update_rq f = statement (\<lambda>d. case f d of (x, d') \<Rightarrow> (Inr x, d'))"

section \<open>Programs over the store\<close>

definition lift_rq :: "'a rq \<Rightarrow> 'a op" where
  "lift_rq m w = (case m w of (r, w') \<Rightarrow> (map_res_err store_error_of r, w'))"

definition ret :: "'a \<Rightarrow> 'a op" where
  "ret x w = (Inr x, w)"

definition fail :: "store_error \<Rightarrow> 'a op" where
  "fail e w = (Inl e, w)"

definition bind_op :: "'a op \<Rightarrow> ('a \<Rightarrow> 'b op) \<Rightarrow> 'b op" where
  "bind_op m f w = (case m w of (Inl e, w') \<Rightarrow> (Inl e, w') | (Inr x, w') \<Rightarrow> f x w')"

text \<open>A statement whose error the code looks at itself.\<close>

definition catch_rq :: "'a rq \<Rightarrow> ((rqlite_error, 'a) res \<Rightarrow> 'b op) \<Rightarrow> 'b op" where
  "catch_rq m f w = (case m w of (r, w') \<Rightarrow> f r w')"

definition catch_op :: "'a op \<Rightarrow> ((store_error, 'a) res \<Rightarrow> 'b op) \<Rightarrow> 'b op" where
  "catch_op m f w = (case m w of (r, w') \<Rightarrow> f r w')"

definition query :: "(db \<Rightarrow> 'a) \<Rightarrow> 'a op" where
  "query f = lift_rq (query_rq f)"

definition update_db :: "(db \<Rightarrow> 'a \<times> db) \<Rightarrow> 'a op" where
  "update_db f = lift_rq (update_rq f)"

definition try_db :: "(db \<Rightarrow> (string, 'a) res \<times> db) \<Rightarrow> 'a op" where
  "try_db f = lift_rq (statement f)"

fun for_each :: "('a \<Rightarrow> 'b op) \<Rightarrow> 'a list \<Rightarrow> 'b list op" where
  "for_each f [] = ret []"
| "for_each f (x # xs) = bind_op (f x) (\<lambda>y. bind_op (for_each f xs) (\<lambda>ys. ret (y # ys)))"

section \<open>Tables\<close>

definition update_where :: "('r \<Rightarrow> bool) \<Rightarrow> ('r \<Rightarrow> 'r) \<Rightarrow> 'r list \<Rightarrow> 'r list" where
  "update_where P f rows = map (\<lambda>r. if P r then f r else r) rows"

definition affected :: "('r \<Rightarrow> bool) \<Rightarrow> 'r list \<Rightarrow> nat" where
  "affected P rows = length (filter P rows)"

definition delete_where :: "('r \<Rightarrow> bool) \<Rightarrow> 'r list \<Rightarrow> 'r list" where
  "delete_where P rows = filter (\<lambda>r. \<not> P r) rows"

text \<open>\<^verbatim>\<open>INSERT ... ON CONFLICT(key) DO UPDATE\<close>.\<close>

definition upsert_row :: "('r \<Rightarrow> bool) \<Rightarrow> ('r \<Rightarrow> 'r) \<Rightarrow> 'r \<Rightarrow> 'r list \<Rightarrow> 'r list" where
  "upsert_row P f new rows = (if list_ex P rows then update_where P f rows else rows @ [new])"

definition first_row :: "('r \<Rightarrow> bool) \<Rightarrow> 'r list \<Rightarrow> 'r option" where
  "first_row P rows = find P rows"

definition sql_limit :: "int \<Rightarrow> 'r list \<Rightarrow> 'r list" where
  "sql_limit n rows = (if n < 0 then rows else take (nat n) rows)"

text \<open>A float that JSON has no number for is sent as null.\<close>

fun sql_real :: "f64 option \<Rightarrow> f64 option" where
  "sql_real None = None"
| "sql_real (Some x) = (if x = NaN \<or> x = PosInf \<or> x = NegInf then None else Some x)"

lemma first_row_SomeD: "first_row P rows = Some r \<Longrightarrow> P r \<and> r \<in> set rows"
  by (auto simp: first_row_def find_Some_iff)

lemma first_row_None_iff: "first_row P rows = None \<longleftrightarrow> (\<forall>r \<in> set rows. \<not> P r)"
  by (auto simp: first_row_def find_None_iff)

lemma first_row_update_where:
  "(\<And>r. P r \<Longrightarrow> Q (f r) = Q r) \<Longrightarrow>
     first_row Q (update_where P f rows) = map_option (\<lambda>r. if P r then f r else r) (first_row Q rows)"
  by (induction rows) (auto simp: first_row_def update_where_def)

lemma first_row_snoc:
  "first_row P (rows @ [x]) = (case first_row P rows of Some r \<Rightarrow> Some r | None \<Rightarrow> if P x then Some x else None)"
  by (induction rows) (auto simp: first_row_def)

lemma list_ex_first_row: "list_ex P rows \<longleftrightarrow> first_row P rows \<noteq> None"
  by (induction rows) (auto simp: first_row_def)

lemma first_row_upsert_same:
  assumes "\<And>r. P r \<Longrightarrow> P (f r)" "P new"
  shows "first_row P (upsert_row P f new rows) =
    Some (case first_row P rows of None \<Rightarrow> new | Some r \<Rightarrow> f r)"
proof (cases "first_row P rows")
  case None
  then show ?thesis using assms(2) by (simp add: upsert_row_def list_ex_first_row first_row_snoc)
next
  case (Some r)
  then have "P r" using first_row_SomeD by fastforce
  moreover have "first_row P (update_where P f rows) = map_option (\<lambda>r. if P r then f r else r) (first_row P rows)"
    by (rule first_row_update_where) (simp add: assms(1))
  ultimately show ?thesis using Some by (simp add: upsert_row_def list_ex_first_row)
qed

lemma first_row_upsert_other:
  assumes "\<And>r. P r \<Longrightarrow> \<not> Q r \<and> \<not> Q (f r)" "\<not> Q new"
  shows "first_row Q (upsert_row P f new rows) = first_row Q rows"
proof -
  have "first_row Q (update_where P f rows) = map_option (\<lambda>r. if P r then f r else r) (first_row Q rows)"
    by (rule first_row_update_where) (use assms(1) in blast)
  moreover have "map_option (\<lambda>r. if P r then f r else r) (first_row Q rows) = first_row Q rows"
    using assms(1) first_row_SomeD [of Q rows] by (cases "first_row Q rows") auto
  ultimately show ?thesis using assms(2)
    by (simp add: upsert_row_def first_row_snoc split: option.split)
qed

lemma map_update_where: "(\<And>r. P r \<Longrightarrow> g (f r) = g r) \<Longrightarrow> map g (update_where P f rows) = map g rows"
  by (induction rows) (auto simp: update_where_def)

lemma set_update_where: "r \<in> set (update_where P f rows) \<Longrightarrow>
    (r \<in> set rows \<and> \<not> P r) \<or> (\<exists>s \<in> set rows. P s \<and> r = f s)"
  by (auto simp: update_where_def split: if_splits)

lemma update_where_id: "affected P rows = 0 \<Longrightarrow> update_where P f rows = rows"
  by (induction rows) (auto simp: affected_def update_where_def split: if_splits)

lemma affected_0_iff: "affected P rows = 0 \<longleftrightarrow> (\<forall>r \<in> set rows. \<not> P r)"
  by (auto simp: affected_def filter_empty_conv)

lemma distinct_keyD: "distinct (map f xs) \<Longrightarrow> x \<in> set xs \<Longrightarrow> y \<in> set xs \<Longrightarrow> f x = f y \<Longrightarrow> x = y"
  by (auto simp: distinct_map inj_on_def)

section \<open>Preservation\<close>

text \<open>
  \<open>P\<close> is kept by everything the script lets others do, and by the program whatever the backend
  answers.
\<close>

definition env_keeps :: "(db \<Rightarrow> bool) \<Rightarrow> world \<Rightarrow> bool" where
  "env_keeps P w \<longleftrightarrow> (\<forall>t \<in> set (script w). \<forall>d. P d \<longrightarrow> P (turn_env t d))"

definition keeps :: "(db \<Rightarrow> bool) \<Rightarrow> (world \<Rightarrow> 'r \<times> world) \<Rightarrow> bool" where
  "keeps P m \<longleftrightarrow>
     (\<forall>w. (P (db w) \<and> env_keeps P w \<longrightarrow> P (db (snd (m w))))
          \<and> set (script (snd (m w))) \<subseteq> set (script w))"

named_theorems keeps_intros "rules that show a program keeps an invariant"

lemma env_keeps_subset: "env_keeps P w \<Longrightarrow> set (script w') \<subseteq> set (script w) \<Longrightarrow> env_keeps P w'"
  by (auto simp: env_keeps_def)

lemma keeps_script: "keeps P m \<Longrightarrow> m w = (r, w') \<Longrightarrow> set (script w') \<subseteq> set (script w)"
  unfolding keeps_def by (metis snd_conv)

lemma keepsD:
  assumes "keeps P m" "P (db w)" "env_keeps P w" "m w = (r, w')"
  shows "P (db w') \<and> env_keeps P w'"
proof -
  have "P (db w')" using assms unfolding keeps_def by (metis snd_conv)
  with keeps_script [OF assms(1,4)] env_keeps_subset assms(3) show ?thesis by blast
qed

lemma keepsI:
  "(\<And>w r w'. m w = (r, w') \<Longrightarrow> P (db w) \<Longrightarrow> env_keeps P w \<Longrightarrow> P (db w')) \<Longrightarrow>
   (\<And>w r w'. m w = (r, w') \<Longrightarrow> set (script w') \<subseteq> set (script w)) \<Longrightarrow> keeps P m"
  unfolding keeps_def by (metis prod.collapse)

lemma next_turn_keeps:
  "P (db w) \<Longrightarrow> env_keeps P w \<Longrightarrow> next_turn w = (r, w1) \<Longrightarrow> P (db w1) \<and> env_keeps P w1"
  by (auto simp: next_turn_def env_keeps_def split: list.splits)

lemma next_turn_script: "next_turn w = (r, w1) \<Longrightarrow> set (script w1) \<subseteq> set (script w)"
  by (auto simp: next_turn_def split: list.splits)

lemma keeps_statement:
  assumes "\<And>d x d'. P d \<Longrightarrow> f d = (Inr x, d') \<Longrightarrow> P d'"
  shows "keeps P (statement f)"
proof (rule keepsI)
  fix w r' w' assume s: "statement f w = (r', w')"
  obtain r w1 where n: "next_turn w = (r, w1)" by fastforce
  obtain y d where y: "f (db w1) = (y, d)" by fastforce
  show "set (script w') \<subseteq> set (script w)"
    using s n y next_turn_script [OF n]
    by (cases r; cases y) (auto simp: statement_def)
  assume "P (db w)" "env_keeps P w"
  then have "P (db w1)" using next_turn_keeps n by blast
  with s n y assms [of "db w1"] show "P (db w')"
    by (cases r; cases y) (auto simp: statement_def)
qed

lemma keeps_query_rq [keeps_intros]: "keeps P (query_rq f)"
  unfolding query_rq_def by (rule keeps_statement) auto

lemma keeps_update_rq [keeps_intros]:
  "(\<And>d. P d \<Longrightarrow> P (snd (f d))) \<Longrightarrow> keeps P (update_rq f)"
  unfolding update_rq_def by (rule keeps_statement) (simp add: case_prod_beta; blast)

lemma snd_lift_rq: "snd (lift_rq m w) = snd (m w)"
  by (simp add: lift_rq_def split: prod.splits)

lemma keeps_lift [keeps_intros]: "keeps P m \<Longrightarrow> keeps P (lift_rq m)"
  by (simp add: keeps_def snd_lift_rq)

lemma keeps_ret [keeps_intros]: "keeps P (ret x)"
  by (simp add: keeps_def ret_def)

lemma keeps_fail [keeps_intros]: "keeps P (fail e)"
  by (simp add: keeps_def fail_def)

lemma keeps_case:
  assumes m: "keeps P m" and f: "\<And>r. keeps P (f r)"
  shows "keeps P (\<lambda>w. case m w of (r, w') \<Rightarrow> f r w')"
proof (rule keepsI)
  fix w r' w' assume s: "(case m w of (r, w1) \<Rightarrow> f r w1) = (r', w')"
  then obtain r w1 where r: "m w = (r, w1)" "f r w1 = (r', w')" by (auto split: prod.splits)
  then show "set (script w') \<subseteq> set (script w)"
    using keeps_script [OF m] keeps_script [OF f] by blast
  assume "P (db w)" "env_keeps P w"
  with r show "P (db w')" using keepsD [OF m] keepsD [OF f] by blast
qed

lemma keeps_map: "keeps P m \<Longrightarrow> keeps P (\<lambda>w. case m w of (r, w') \<Rightarrow> (g r, w'))"
  by (simp add: keeps_def case_prod_beta)

lemma keeps_catch_rq [keeps_intros]:
  "keeps P m \<Longrightarrow> (\<And>r. keeps P (f r)) \<Longrightarrow> keeps P (catch_rq m f)"
  unfolding catch_rq_def [abs_def] by (rule keeps_case)

lemma keeps_catch_op [keeps_intros]:
  "keeps P m \<Longrightarrow> (\<And>r. keeps P (f r)) \<Longrightarrow> keeps P (catch_op m f)"
  unfolding catch_op_def [abs_def] by (rule keeps_case)

lemma bind_op_case: "bind_op m f = catch_op m (\<lambda>r. case r of Inl e \<Rightarrow> fail e | Inr x \<Rightarrow> f x)"
  by (auto simp: bind_op_def catch_op_def fail_def fun_eq_iff split: prod.splits sum.splits)

lemma keeps_bind [keeps_intros]:
  assumes "keeps P m" "\<And>x. keeps P (f x)"
  shows "keeps P (bind_op m f)"
  unfolding bind_op_case
proof (rule keeps_catch_op)
  show "keeps P (case r of Inl e \<Rightarrow> fail e | Inr x \<Rightarrow> f x)" for r
    using assms(2) keeps_fail by (cases r) auto
qed (rule assms(1))

lemma keeps_query [keeps_intros]: "keeps P (query f)"
  unfolding query_def by (intro keeps_intros)

lemma keeps_update_db [keeps_intros]: "(\<And>d. P d \<Longrightarrow> P (snd (f d))) \<Longrightarrow> keeps P (update_db f)"
  unfolding update_db_def by (intro keeps_intros)

lemma keeps_try_db [keeps_intros]:
  "(\<And>d x d'. P d \<Longrightarrow> f d = (Inr x, d') \<Longrightarrow> P d') \<Longrightarrow> keeps P (try_db f)"
  unfolding try_db_def by (intro keeps_intros keeps_statement)

lemma keeps_for_each [keeps_intros]: "(\<And>x. keeps P (f x)) \<Longrightarrow> keeps P (for_each f xs)"
  by (induction xs) (auto intro!: keeps_intros)

lemma keeps_if [keeps_intros]: "keeps P m \<Longrightarrow> keeps P n \<Longrightarrow> keeps P (if b then m else n)"
  by simp

lemma keeps_case_option [keeps_intros]:
  "keeps P m \<Longrightarrow> (\<And>x. keeps P (f x)) \<Longrightarrow> keeps P (case x of None \<Rightarrow> m | Some y \<Rightarrow> f y)"
  by (cases x) auto

lemma keeps_case_sum [keeps_intros]:
  "(\<And>e. keeps P (f e)) \<Longrightarrow> (\<And>x. keeps P (g x)) \<Longrightarrow> keeps P (case x of Inl e \<Rightarrow> f e | Inr y \<Rightarrow> g y)"
  by (cases x) auto

lemma keeps_case_prod [keeps_intros]:
  "(\<And>x y. keeps P (f x y)) \<Longrightarrow> keeps P (case p of (x, y) \<Rightarrow> f x y)"
  by (cases p) auto

lemma keeps_let [keeps_intros]: "(\<And>x. keeps P (f x)) \<Longrightarrow> keeps P (let x = e in f x)"
  by simp

text \<open>
  Other clients that run statements of a given kind: any number of them between two of ours.
\<close>

definition peers_by :: "(db \<Rightarrow> db \<Rightarrow> bool) \<Rightarrow> world \<Rightarrow> bool" where
  "peers_by R w \<longleftrightarrow> (\<forall>t \<in> set (script w). \<forall>d. R\<^sup>*\<^sup>* d (turn_env t d))"

lemma peers_by_subset: "peers_by R w \<Longrightarrow> set (script w') \<subseteq> set (script w) \<Longrightarrow> peers_by R w'"
  by (auto simp: peers_by_def)

lemma peers_by_env_keeps:
  assumes step: "\<And>d d'. P d \<Longrightarrow> R d d' \<Longrightarrow> P d'" and "peers_by R w"
  shows "env_keeps P w"
proof -
  have "R\<^sup>*\<^sup>* d d' \<Longrightarrow> P d \<Longrightarrow> P d'" for d d'
    by (induction rule: rtranclp_induct) (auto intro: step)
  with assms(2) show ?thesis by (auto simp: peers_by_def env_keeps_def)
qed

section \<open>What an answer shows\<close>

lemma bind_op_InrE:
  assumes "bind_op m f w = (Inr y, w')"
  obtains x w1 where "m w = (Inr x, w1)" "f x w1 = (Inr y, w')"
  using assms by (auto simp: bind_op_def split: prod.splits sum.splits)

lemma ret_Inr [simp]: "ret x w = (r, w') \<longleftrightarrow> r = Inr x \<and> w' = w"
  by (auto simp: ret_def)

lemma fail_Inr [simp]: "fail e w = (r, w') \<longleftrightarrow> r = Inl e \<and> w' = w"
  by (auto simp: fail_def)

lemma try_db_InrE:
  assumes "try_db f w = (Inr x, w')"
  obtains w1 d where "next_turn w = (Answered, w1)" "f (db w1) = (Inr x, d)" "w' = w1\<lparr>db := d\<rparr>"
proof -
  obtain r w1 where n: "next_turn w = (r, w1)" by fastforce
  obtain y d where y: "f (db w1) = (y, d)" by fastforce
  show thesis
    using assms n y that by (cases r; cases y) (auto simp: try_db_def lift_rq_def statement_def)
qed

lemma update_db_InrE:
  assumes "update_db f w = (Inr x, w')"
  obtains w1 where "next_turn w = (Answered, w1)" "x = fst (f (db w1))" "w' = w1\<lparr>db := snd (f (db w1))\<rparr>"
proof -
  have "try_db (\<lambda>d. case f d of (x, d') \<Rightarrow> (Inr x, d')) w = (Inr x, w')"
    using assms by (simp add: try_db_def update_db_def update_rq_def)
  then show thesis using that by (elim try_db_InrE) (auto split: prod.splits)
qed

lemma query_InrE:
  assumes "query f w = (Inr x, w')"
  obtains "next_turn w = (Answered, w')" "x = f (db w')"
proof -
  have "update_db (\<lambda>d. (f d, d)) w = (Inr x, w')"
    using assms by (simp add: query_def query_rq_def update_db_def update_rq_def)
  then show thesis using that by (elim update_db_InrE) simp
qed

section \<open>Running without interference\<close>

text \<open>The world in which every statement answers and nobody else writes.\<close>

definition calm :: "db \<Rightarrow> world" where
  "calm d = \<lparr>db = d, script = []\<rparr>"

lemma calm_sel [simp]: "db (calm d) = d" "script (calm d) = []"
  by (simp_all add: calm_def)

lemma calm_inject [simp]: "calm d = calm d' \<longleftrightarrow> d = d'"
  by (simp add: calm_def)

lemma peers_by_calm [simp]: "peers_by R (calm d)"
  by (simp add: peers_by_def)

lemma calm_env_keeps [simp]: "env_keeps P (calm d)"
  by (simp add: env_keeps_def)

named_theorems calm_simps "how programs run on a calm world"

lemma calm_statement [calm_simps]:
  "statement f (calm d) =
     (case f d of (Inr x, d') \<Rightarrow> (Inr x, calm d') | (Inl m, _) \<Rightarrow> (Inl (StatusError 200 m), calm d))"
  by (simp add: statement_def next_turn_def calm_def split: prod.splits sum.splits)

lemma calm_query_rq [calm_simps]: "query_rq f (calm d) = (Inr (f d), calm d)"
  by (simp add: query_rq_def calm_simps)

lemma calm_update_rq [calm_simps]: "update_rq f (calm d) = (Inr (fst (f d)), calm (snd (f d)))"
  by (simp add: update_rq_def calm_simps split: prod.splits)

lemma calm_query [calm_simps]: "query f (calm d) = (Inr (f d), calm d)"
  by (simp add: query_def lift_rq_def calm_simps)

lemma calm_update_db [calm_simps]: "update_db f (calm d) = (Inr (fst (f d)), calm (snd (f d)))"
  by (simp add: update_db_def lift_rq_def calm_simps)

lemma calm_try_db [calm_simps]:
  "try_db f (calm d) =
     (case f d of (Inr x, d') \<Rightarrow> (Inr x, calm d') | (Inl m, _) \<Rightarrow>
        (Inl (Backend (rqlite_error_text (StatusError 200 m))), calm d))"
  by (simp add: try_db_def lift_rq_def calm_simps split: prod.splits sum.splits)

lemmas monad_simps [calm_simps] = bind_op_def ret_def fail_def catch_rq_def catch_op_def

end
