(* ===== verification/StoreTasks.thy ===== *)
theory StoreTasks
  imports StoreCore
begin

text \<open>
  The task queue of the rqlite backend (\<^verbatim>\<open>impl TaskStore\<close> and \<^verbatim>\<open>impl ResultStore\<close> of
  \<^verbatim>\<open>crates/fabric-store-rqlite/src/lib.rs\<close>): creation, the atomic claim, running, cancellation,
  the policy evidence of a task, and results. SQLite's \<open>julianday\<close> difference is the parameter \<open>gap\<close>:
  the seconds between two timestamps, \<^const>\<open>None\<close> when one of them is no date.
\<close>

section \<open>Operations\<close>

definition new_task :: "create_task_params \<Rightarrow> string \<Rightarrow> int \<Rightarrow> task_row" where
  "new_task p now i =
     \<lparr>t_id = i, t_brief = p, t_status = opt_default ''queued'' (cp_initial_status p),
      t_worker_id = None, t_created_at = now, t_claimed_at = None, t_started_at = None,
      t_completed_at = None, t_dispatched_at = now, t_claimed_by_runner = None,
      t_claimed_by_host = None, t_wall_seconds = None, t_runner_cpu_seconds = None,
      t_policy_decisions = cp_policy_decisions p, t_approvals_required = cp_approvals_required p,
      t_approvals_received = cp_approvals_received p, t_approval_id = cp_approval_id p,
      t_exit_reason = None, t_exit_code = None, t_cancel_requested = False\<rparr>"

definition insert_task :: "create_task_params \<Rightarrow> string \<Rightarrow> db \<Rightarrow> int \<times> db" where
  "insert_task p now d =
     (let i = last_task_id d + 1
      in (i, d\<lparr>tasks := tasks d @ [new_task p now i], last_task_id := i\<rparr>))"

definition edit_tasks :: "(task_row \<Rightarrow> bool) \<Rightarrow> (task_row \<Rightarrow> task_row) \<Rightarrow> db \<Rightarrow> nat \<times> db" where
  "edit_tasks P f d = (affected P (tasks d), d\<lparr>tasks := update_where P f (tasks d)\<rparr>)"

definition find_task :: "int \<Rightarrow> db \<Rightarrow> task_row option" where
  "find_task i d = first_row (\<lambda>t. t_id t = i) (tasks d)"

definition get_task :: "int \<Rightarrow> task_row op" where
  "get_task i =
     bind_op (query (find_task i))
       (\<lambda>r. case r of None \<Rightarrow> fail (NotFound (''task '' @ show_int i)) | Some t \<Rightarrow> ret t)"

definition create_task :: "create_task_params \<Rightarrow> string \<Rightarrow> task_row op" where
  "create_task p now =
     catch_rq (update_rq (insert_task p now))
       (\<lambda>r. case r of
              Inl e \<Rightarrow> fail (Backend (rqlite_error_text e))
            | Inr i \<Rightarrow> get_task i)"

definition tasks_newest_first :: "db \<Rightarrow> task_row list" where
  "tasks_newest_first d = sort_key (\<lambda>t. - t_id t) (tasks d)"

definition list_tasks :: "string option \<Rightarrow> int \<Rightarrow> task_row list op" where
  "list_tasks status limit =
     query (\<lambda>d. sql_limit limit
              (case status of
                 Some s \<Rightarrow> filter (\<lambda>t. t_status t = s) (tasks_newest_first d)
               | None \<Rightarrow> tasks_newest_first d))"

definition claim_stmt :: "int \<Rightarrow> string \<Rightarrow> string \<Rightarrow> string \<Rightarrow> db \<Rightarrow> nat \<times> db" where
  "claim_stmt i worker host now =
     edit_tasks (\<lambda>t. t_id t = i \<and> t_status t = ''queued'' \<and> \<not> t_cancel_requested t)
       (\<lambda>t. t\<lparr>t_status := ''claimed'', t_worker_id := Some worker, t_claimed_at := Some now,
              t_claimed_by_runner := Some worker, t_claimed_by_host := Some host\<rparr>)"

definition claim_task :: "int \<Rightarrow> string \<Rightarrow> string \<Rightarrow> string \<Rightarrow> claim_result op" where
  "claim_task i worker host now =
     bind_op (update_db (claim_stmt i worker host now))
       (\<lambda>n. if n = 0 then ret AlreadyClaimed
            else bind_op (get_task i) (\<lambda>t. ret (Claimed t)))"

definition running_stmt :: "int \<Rightarrow> string \<Rightarrow> db \<Rightarrow> nat \<times> db" where
  "running_stmt i now =
     edit_tasks (\<lambda>t. t_id t = i \<and> (t_status t = ''claimed'' \<or> t_status t = ''running''))
       (\<lambda>t. t\<lparr>t_status := ''running'', t_started_at := opt_or (t_started_at t) (Some now)\<rparr>)"

definition mark_running :: "int \<Rightarrow> string \<Rightarrow> task_row op" where
  "mark_running i now = bind_op (update_db (running_stmt i now)) (\<lambda>_. get_task i)"

definition cancel_flag_stmt :: "int \<Rightarrow> db \<Rightarrow> nat \<times> db" where
  "cancel_flag_stmt i = edit_tasks (\<lambda>t. t_id t = i) (\<lambda>t. t\<lparr>t_cancel_requested := True\<rparr>)"

definition cancel_queued_stmt :: "int \<Rightarrow> string \<Rightarrow> db \<Rightarrow> nat \<times> db" where
  "cancel_queued_stmt i now =
     edit_tasks (\<lambda>t. t_id t = i \<and> t_status t = ''queued'')
       (\<lambda>t. t\<lparr>t_status := ''cancelled'', t_completed_at := Some now,
              t_exit_reason := Some ''cancelled_before_claim'',
              t_wall_seconds := Some (Fin 0), t_runner_cpu_seconds := Some (Fin 0)\<rparr>)"

definition cancel_task :: "int \<Rightarrow> string \<Rightarrow> task_row op" where
  "cancel_task i now =
     bind_op (update_db (cancel_flag_stmt i))
       (\<lambda>_. bind_op (update_db (cancel_queued_stmt i now)) (\<lambda>_. get_task i))"

definition push_decision :: "jv \<Rightarrow> jv list \<Rightarrow> jv list" where
  "push_decision v vs = (let ds = vs @ [v] in if 100 < length ds then drop (length ds - 100) ds else ds)"

definition evidence_stmt :: "int \<Rightarrow> jv list \<Rightarrow> db \<Rightarrow> nat \<times> db" where
  "evidence_stmt i ds = edit_tasks (\<lambda>t. t_id t = i) (\<lambda>t. t\<lparr>t_policy_decisions := ds\<rparr>)"

definition append_task_policy_decision :: "int \<Rightarrow> jv \<Rightarrow> task_row op" where
  "append_task_policy_decision i decision =
     bind_op (get_task i)
       (\<lambda>t. bind_op (update_db (evidence_stmt i (push_decision decision (t_policy_decisions t))))
              (\<lambda>_. get_task i))"

definition received_stmt :: "int \<Rightarrow> db \<Rightarrow> nat \<times> db" where
  "received_stmt i =
     edit_tasks (\<lambda>t. t_id t = i) (\<lambda>t. t\<lparr>t_approvals_received := t_approvals_received t + 1\<rparr>)"

definition record_task_approval_decision :: "string \<Rightarrow> jv \<Rightarrow> bool \<Rightarrow> task_row option op" where
  "record_task_approval_decision approval decision approved =
     bind_op (query (\<lambda>d. first_row (\<lambda>t. t_approval_id t = Some approval) (tasks_newest_first d)))
       (\<lambda>r. case r of
          None \<Rightarrow> ret None
        | Some t \<Rightarrow>
            bind_op (append_task_policy_decision (t_id t) decision)
              (\<lambda>_. bind_op (if approved then update_db (received_stmt (t_id t)) else ret 0)
                (\<lambda>_. bind_op (get_task (t_id t)) (\<lambda>u. ret (Some u)))))"

definition count_tasks :: "nat op" where
  "count_tasks = query (\<lambda>d. length (tasks d))"

type_synonym gap = "string \<Rightarrow> string \<Rightarrow> rat option"

definition task_start :: "task_row \<Rightarrow> string" where
  "task_start t = opt_default (t_dispatched_at t) (opt_or (t_started_at t) (t_claimed_at t))"

definition elapsed_seconds :: "gap \<Rightarrow> string \<Rightarrow> task_row \<Rightarrow> f64 option" where
  "elapsed_seconds gap now t = map_option (\<lambda>s. Fin (max 0 s)) (gap now (task_start t))"

definition finish_stmt :: "gap \<Rightarrow> submit_result_params \<Rightarrow> string \<Rightarrow> db \<Rightarrow> nat \<times> db" where
  "finish_stmt gap p now =
     edit_tasks (\<lambda>t. t_id t = sr_task_id p \<and> t_worker_id t = Some (sr_worker_id p))
       (\<lambda>t. t\<lparr>t_status := sr_status p, t_completed_at := Some now,
              t_wall_seconds := opt_or (sql_real (sr_wall_seconds p)) (elapsed_seconds gap now t),
              t_runner_cpu_seconds := opt_or (sql_real (sr_runner_cpu_seconds p)) (Some (Fin 0)),
              t_exit_reason := Some (sr_exit_reason p), t_exit_code := sr_exit_code p\<rparr>)"

definition result_of :: "submit_result_params \<Rightarrow> string \<Rightarrow> task_row \<Rightarrow> result_row" where
  "result_of p now t =
     \<lparr>r_task_id = sr_task_id p, r_status = sr_status p, r_branch = cp_branch (t_brief t),
      r_head_commit = sr_head_commit p, r_commits = sr_commits p,
      r_files_touched = sr_files_touched p, r_test_summary = sr_test_summary p,
      r_log_tail = sr_log_tail p, r_error = sr_error p, r_reported_at = now\<rparr>"

text \<open>\<^verbatim>\<open>INSERT OR REPLACE ... SELECT ... FROM tasks WHERE id=?\<close>: nothing without the task.\<close>

definition result_stmt :: "submit_result_params \<Rightarrow> string \<Rightarrow> db \<Rightarrow> nat \<times> db" where
  "result_stmt p now d =
     (case find_task (sr_task_id p) d of
        None \<Rightarrow> (0, d)
      | Some t \<Rightarrow>
          (1, d\<lparr>results := delete_where (\<lambda>r. r_task_id r = sr_task_id p) (results d)
                  @ [result_of p now t]\<rparr>))"

definition submit_result :: "gap \<Rightarrow> submit_result_params \<Rightarrow> string \<Rightarrow> task_row op" where
  "submit_result gap p now =
     bind_op (update_db (finish_stmt gap p now))
       (\<lambda>n. if n = 0 then
              bind_op (query (find_task (sr_task_id p)))
                (\<lambda>r. case r of
                   None \<Rightarrow> fail (NotFound (''task '' @ show_int (sr_task_id p)))
                 | Some t \<Rightarrow>
                     fail (PermissionDenied (''worker '' @ sr_worker_id p
                       @ '' cannot report result for task owned by ''
                       @ opt_default '''' (t_worker_id t))))
            else bind_op (update_db (result_stmt p now)) (\<lambda>_. get_task (sr_task_id p)))"

section \<open>Statements as steps\<close>

text \<open>
  Every statement these operations send, as a step on the database. \<open>Other\<close> stands for the
  statements of the other tables. The hub creates tasks as \<open>queued\<close> or \<open>held\<close> and lets a runner
  report terminal statuses only; the steps ask for that.
\<close>

definition live_status :: "string \<Rightarrow> bool" where
  "live_status s \<longleftrightarrow> s \<in> {''queued'', ''held'', ''claimed'', ''running''}"

definition fresh_status :: "create_task_params \<Rightarrow> bool" where
  "fresh_status p \<longleftrightarrow> cp_initial_status p \<in> {None, Some ''queued'', Some ''held''}"

inductive task_stmt :: "db \<Rightarrow> db \<Rightarrow> bool" where
  Create: "fresh_status p \<Longrightarrow> task_stmt d (snd (insert_task p now d))"
| Claim: "task_stmt d (snd (claim_stmt i worker host now d))"
| Run: "task_stmt d (snd (running_stmt i now d))"
| Flag: "task_stmt d (snd (cancel_flag_stmt i d))"
| Cancel: "task_stmt d (snd (cancel_queued_stmt i now d))"
| Evidence: "task_stmt d (snd (evidence_stmt i ds d))"
| Received: "task_stmt d (snd (received_stmt i d))"
| Finish: "\<not> live_status (sr_status p) \<Longrightarrow> task_stmt d (snd (finish_stmt gap p now d))"
| Result: "task_stmt d (snd (result_stmt p now d))"
| Other: "tasks d' = tasks d \<Longrightarrow> last_task_id d' = last_task_id d \<Longrightarrow> task_stmt d d'"

inductive_cases task_stmtE: "task_stmt d d'"

text \<open>The other clients of the backend: between two of our statements they run any number of theirs.\<close>

abbreviation peers :: "world \<Rightarrow> bool" where
  "peers \<equiv> peers_by task_stmt"

text \<open>A predicate that holds at every step, through every operation.\<close>

definition task_safe :: "(db \<Rightarrow> bool) \<Rightarrow> bool" where
  "task_safe P \<longleftrightarrow> (\<forall>d d'. P d \<longrightarrow> task_stmt d d' \<longrightarrow> P d')"

lemma task_safeD: "task_safe P \<Longrightarrow> P d \<Longrightarrow> task_stmt d d' \<Longrightarrow> P d'"
  by (auto simp: task_safe_def)

lemma task_safe_env: "task_safe P \<Longrightarrow> peers w \<Longrightarrow> env_keeps P w"
  by (rule peers_by_env_keeps) (auto dest: task_safeD)

lemma keeps_get_task [keeps_intros]: "keeps P (get_task i)"
  unfolding get_task_def by (intro keeps_intros)

lemma keeps_task_stmt: "task_safe P \<Longrightarrow> (\<And>d. task_stmt d (snd (f d))) \<Longrightarrow> keeps P (update_db f)"
  by (intro keeps_intros) (auto dest: task_safeD)

lemma keeps_create_task:
  assumes "task_safe P" "fresh_status p"
  shows "keeps P (create_task p now)"
  using assms(2) unfolding create_task_def
  by (intro keeps_intros) (auto dest: task_safeD [OF assms(1)] intro: task_stmt.intros)

lemma keeps_claim_task:
  assumes "task_safe P"
  shows "keeps P (claim_task i worker host now)"
  unfolding claim_task_def
  by (intro keeps_bind keeps_task_stmt [OF assms(1)] keeps_if keeps_ret keeps_get_task Claim)

lemma keeps_mark_running:
  assumes "task_safe P"
  shows "keeps P (mark_running i now)"
  unfolding mark_running_def by (intro keeps_bind keeps_task_stmt [OF assms(1)] keeps_get_task Run)

lemma keeps_cancel_task:
  assumes "task_safe P"
  shows "keeps P (cancel_task i now)"
  unfolding cancel_task_def by (intro keeps_bind keeps_task_stmt [OF assms(1)] keeps_get_task Flag Cancel)

lemma keeps_append_decision:
  assumes "task_safe P"
  shows "keeps P (append_task_policy_decision i v)"
  unfolding append_task_policy_decision_def
  by (intro keeps_bind keeps_task_stmt [OF assms(1)] keeps_get_task Evidence)

lemma keeps_record_approval:
  assumes "task_safe P"
  shows "keeps P (record_task_approval_decision a v ok)"
  unfolding record_task_approval_decision_def
  by (intro keeps_bind keeps_query keeps_case_option keeps_ret keeps_append_decision [OF assms(1)] keeps_if
      keeps_task_stmt [OF assms(1)] keeps_get_task Received)

lemma keeps_submit_result:
  assumes "task_safe P" "\<not> live_status (sr_status p)"
  shows "keeps P (submit_result gap p now)"
  using assms(2) unfolding submit_result_def
  by (intro keeps_bind keeps_task_stmt [OF assms(1)] keeps_get_task keeps_if keeps_query keeps_case_option
      keeps_fail Finish Result)

section \<open>Calls of a client\<close>

datatype task_call =
    CallCreate create_task_params string
  | CallClaim int string string string
  | CallRun int string
  | CallCancel int string
  | CallDecision int jv
  | CallApproval string jv bool
  | CallSubmit submit_result_params string
  | CallGet int

text \<open>A call's result, as far as the properties look at it: the task a claim won.\<close>

fun task_call_op :: "gap \<Rightarrow> task_call \<Rightarrow> int option op" where
  "task_call_op gap (CallCreate p now) = bind_op (create_task p now) (\<lambda>_. ret None)"
| "task_call_op gap (CallClaim i worker host now) =
     bind_op (claim_task i worker host now)
       (\<lambda>r. ret (case r of Claimed t \<Rightarrow> Some i | AlreadyClaimed \<Rightarrow> None))"
| "task_call_op gap (CallRun i now) = bind_op (mark_running i now) (\<lambda>_. ret None)"
| "task_call_op gap (CallCancel i now) = bind_op (cancel_task i now) (\<lambda>_. ret None)"
| "task_call_op gap (CallDecision i v) = bind_op (append_task_policy_decision i v) (\<lambda>_. ret None)"
| "task_call_op gap (CallApproval a v ok) = bind_op (record_task_approval_decision a v ok) (\<lambda>_. ret None)"
| "task_call_op gap (CallSubmit p now) = bind_op (submit_result gap p now) (\<lambda>_. ret None)"
| "task_call_op gap (CallGet i) = bind_op (get_task i) (\<lambda>_. ret None)"

fun call_ok :: "task_call \<Rightarrow> bool" where
  "call_ok (CallSubmit p now) = (\<not> live_status (sr_status p))"
| "call_ok (CallCreate p now) = fresh_status p"
| "call_ok _ = True"

text \<open>The claims a sequence of calls wins; an error ends its call, not the sequence.\<close>

fun wins :: "gap \<Rightarrow> task_call list \<Rightarrow> world \<Rightarrow> int list \<times> world" where
  "wins gap [] w = ([], w)"
| "wins gap (c # cs) w =
     (case task_call_op gap c w of (r, w1) \<Rightarrow>
        case wins gap cs w1 of (js, w2) \<Rightarrow>
          ((case r of Inr (Some i) \<Rightarrow> [i] | _ \<Rightarrow> []) @ js, w2))"

lemma keeps_task_call: "task_safe P \<Longrightarrow> call_ok c \<Longrightarrow> keeps P (task_call_op gap c)"
  by (cases c) (auto intro!: keeps_bind keeps_ret keeps_get_task keeps_create_task keeps_claim_task
      keeps_mark_running keeps_cancel_task keeps_append_decision keeps_record_approval
      keeps_submit_result)

lemma keeps_wins: "task_safe P \<Longrightarrow> \<forall>c \<in> set cs. call_ok c \<Longrightarrow> keeps P (wins gap cs)"
proof (induction cs)
  case Nil
  then show ?case by (simp add: keeps_def)
next
  case (Cons c cs)
  then have "keeps P (\<lambda>w. case task_call_op gap c w of (r, w1) \<Rightarrow>
      case wins gap cs w1 of (js, w2) \<Rightarrow> ((case r of Inr (Some i) \<Rightarrow> [i] | _ \<Rightarrow> []) @ js, w2))"
    by (intro keeps_case keeps_map keeps_task_call) auto
  then show ?case by simp
qed

section \<open>The life of one task\<close>

text \<open>The status machine: what one statement can do to one row.\<close>

inductive row_step :: "task_row \<Rightarrow> task_row \<Rightarrow> bool" where
  Row_Claim: "t_status t = ''queued'' \<Longrightarrow> \<not> t_cancel_requested t \<Longrightarrow>
    row_step t (t\<lparr>t_status := ''claimed'', t_worker_id := Some worker, t_claimed_at := Some now,
                  t_claimed_by_runner := Some worker, t_claimed_by_host := Some host\<rparr>)"
| Row_Run: "t_status t = ''claimed'' \<or> t_status t = ''running'' \<Longrightarrow>
    row_step t (t\<lparr>t_status := ''running'', t_started_at := s\<rparr>)"
| Row_Flag: "row_step t (t\<lparr>t_cancel_requested := True\<rparr>)"
| Row_Cancel: "t_status t = ''queued'' \<Longrightarrow>
    row_step t (t\<lparr>t_status := ''cancelled'', t_completed_at := Some c, t_exit_reason := Some e,
                  t_wall_seconds := x, t_runner_cpu_seconds := y\<rparr>)"
| Row_Evidence: "row_step t (t\<lparr>t_policy_decisions := ds\<rparr>)"
| Row_Received: "row_step t (t\<lparr>t_approvals_received := n\<rparr>)"
| Row_Finish: "t_worker_id t = Some worker \<Longrightarrow> \<not> live_status s \<Longrightarrow>
    row_step t (t\<lparr>t_status := s, t_completed_at := Some c, t_wall_seconds := x,
                  t_runner_cpu_seconds := y, t_exit_reason := Some e, t_exit_code := k\<rparr>)"

lemma row_step_id: "row_step t u \<Longrightarrow> t_id u = t_id t"
  by (erule row_step.cases) simp_all

lemma row_step_or_id: "u = t \<or> row_step t u \<Longrightarrow> t_id u = t_id t"
  by (auto dest: row_step_id)

lemma row_step_queue: "row_step t u \<Longrightarrow> t_status t \<noteq> ''queued'' \<Longrightarrow> t_status u \<noteq> ''queued''"
  by (erule row_step.cases) (auto simp: live_status_def)

text \<open>Every statement creates one task, or leaves the table alone, or steps the rows it selects.\<close>

definition steps_rows :: "db \<Rightarrow> db \<Rightarrow> bool" where
  "steps_rows d d' \<longleftrightarrow>
     last_task_id d' = last_task_id d \<and> list_all2 (\<lambda>t u. u = t \<or> row_step t u) (tasks d) (tasks d')"

lemma steps_rows_refl: "tasks d' = tasks d \<Longrightarrow> last_task_id d' = last_task_id d \<Longrightarrow> steps_rows d d'"
  by (simp add: steps_rows_def list_all2_same)

lemma steps_rows_edit: "(\<And>t. P t \<Longrightarrow> row_step t (f t)) \<Longrightarrow> steps_rows d (snd (edit_tasks P f d))"
  by (auto simp: steps_rows_def edit_tasks_def update_where_def list_all2_conv_all_nth)

lemma task_stmt_cases_rows:
  assumes "task_stmt d d'"
  obtains p now where "fresh_status p" "d' = snd (insert_task p now d)" | "steps_rows d d'"
  using assms
proof cases
  case Create
  then show thesis using that(1) by blast
next
  case Claim
  then show thesis using that(2)
    by (auto simp only: claim_stmt_def intro!: steps_rows_edit Row_Claim)
next
  case Run
  then show thesis using that(2)
    by (auto simp only: running_stmt_def intro!: steps_rows_edit Row_Run)
next
  case Flag
  then show thesis using that(2)
    by (auto simp only: cancel_flag_stmt_def intro!: steps_rows_edit Row_Flag)
next
  case Cancel
  then show thesis using that(2)
    by (auto simp only: cancel_queued_stmt_def intro!: steps_rows_edit Row_Cancel)
next
  case Evidence
  then show thesis using that(2)
    by (auto simp only: evidence_stmt_def intro!: steps_rows_edit Row_Evidence)
next
  case Received
  then show thesis using that(2)
    by (auto simp only: received_stmt_def intro!: steps_rows_edit Row_Received)
next
  case (Finish p gap now)
  have "steps_rows d (snd (finish_stmt gap p now d))"
    unfolding finish_stmt_def by (rule steps_rows_edit) (use Finish in \<open>blast intro: Row_Finish\<close>)
  then show thesis using that(2) Finish by simp
next
  case Result
  then show thesis using that(2)
    by (simp add: result_stmt_def steps_rows_refl split: option.splits)
next
  case Other
  then show thesis using that(2) by (simp add: steps_rows_refl)
qed

lemma steps_rows_rowD:
  assumes "steps_rows d d'" "u \<in> set (tasks d')"
  obtains t where "t \<in> set (tasks d)" "u = t \<or> row_step t u" "t_id u = t_id t"
proof -
  from assms obtain k where k: "k < length (tasks d')" "u = tasks d' ! k"
    "length (tasks d) = length (tasks d')"
    by (auto simp: steps_rows_def list_all2_conv_all_nth in_set_conv_nth)
  with assms(1) have "u = tasks d ! k \<or> row_step (tasks d ! k) u"
    by (simp add: steps_rows_def list_all2_conv_all_nth)
  then show thesis using that k row_step_id by (metis nth_mem)
qed

lemma steps_rows_ids: "steps_rows d d' \<Longrightarrow> map t_id (tasks d') = map t_id (tasks d)"
  by (auto simp: steps_rows_def list_all2_conv_all_nth intro!: nth_equalityI row_step_or_id)

section \<open>A task is won once\<close>

text \<open>Ids are unique and below the counter; the tasks of \<open>S\<close> exist no more or have left the queue.\<close>

definition settled :: "int set \<Rightarrow> db \<Rightarrow> bool" where
  "settled S d \<longleftrightarrow>
     distinct (map t_id (tasks d)) \<and> (\<forall>t \<in> set (tasks d). t_id t \<le> last_task_id d)
     \<and> (\<forall>i \<in> S. i \<le> last_task_id d)
     \<and> (\<forall>t \<in> set (tasks d). t_id t \<in> S \<longrightarrow> t_status t \<noteq> ''queued'')"

lemma settled_insert_task: "settled S d \<Longrightarrow> settled S (snd (insert_task p now d))"
  by (force simp: settled_def insert_task_def new_task_def Let_def)

lemma settled_steps_rows:
  assumes S: "settled S d" and steps: "steps_rows d d'"
  shows "settled S d'"
proof -
  have "t_id u \<le> last_task_id d' \<and> (t_id u \<in> S \<longrightarrow> t_status u \<noteq> ''queued'')"
    if "u \<in> set (tasks d')" for u
  proof -
    from steps_rows_rowD [OF steps that]
    obtain t where "t \<in> set (tasks d)" "u = t \<or> row_step t u" "t_id u = t_id t" by blast
    then show ?thesis using S steps row_step_queue by (auto simp: settled_def steps_rows_def)
  qed
  then show ?thesis using S steps steps_rows_ids [OF steps] by (simp add: settled_def steps_rows_def)
qed

lemma settled_safe: "task_safe (settled S)"
  unfolding task_safe_def
  by (blast elim: task_stmt_cases_rows intro: settled_steps_rows settled_insert_task)

lemma settled_claims:
  assumes S: "settled S d" and n: "fst (claim_stmt i worker host now d) \<noteq> 0"
  shows "i \<notin> S" "settled (insert i S) (snd (claim_stmt i worker host now d))"
proof -
  from n obtain t where t: "t \<in> set (tasks d)" "t_id t = i" "t_status t = ''queued''"
    "\<not> t_cancel_requested t"
    by (auto simp: claim_stmt_def edit_tasks_def affected_0_iff)
  with S show "i \<notin> S" by (auto simp: settled_def)
  have only: "u = t" if "u \<in> set (tasks d)" "t_id u = i" for u
    using that t S distinct_keyD [of t_id "tasks d" u t] by (simp add: settled_def)
  have "t_status u \<noteq> ''queued''"
    if "u \<in> set (tasks (snd (claim_stmt i worker host now d)))" "t_id u = i" for u
  proof -
    from that(1) consider
        "u \<in> set (tasks d)" "\<not> (t_id u = i \<and> t_status u = ''queued'' \<and> \<not> t_cancel_requested u)"
      | v where "v \<in> set (tasks d)" "t_status u = ''claimed''"
      by (auto simp: claim_stmt_def edit_tasks_def dest!: set_update_where)
    then show ?thesis using only [of u] that(2) t by cases auto
  qed
  moreover have "settled S (snd (claim_stmt i worker host now d))"
    using task_safeD [OF settled_safe S Claim] .
  moreover have "last_task_id (snd (claim_stmt i worker host now d)) = last_task_id d"
    by (simp add: claim_stmt_def edit_tasks_def)
  moreover have "i \<le> last_task_id d" using t S by (auto simp: settled_def)
  ultimately show "settled (insert i S) (snd (claim_stmt i worker host now d))"
    by (auto simp: settled_def)
qed

lemma settled_mono: "settled T d \<Longrightarrow> S \<subseteq> T \<Longrightarrow> settled S d"
  by (auto simp: settled_def)

lemma settled_keeps:
  "keeps (settled S) m \<Longrightarrow> settled S (db w) \<Longrightarrow> peers w \<Longrightarrow> m w = (r, w') \<Longrightarrow> settled S (db w') \<and> peers w'"
  using keepsD [of "settled S" m w r w'] task_safe_env [OF settled_safe, of w]
    keeps_script [of "settled S" m w r w'] peers_by_subset [of task_stmt w w'] by simp

lemma claim_task_settles:
  assumes S: "settled S (db w)" and p: "peers w"
    and c: "claim_task i worker host now w = (Inr (Claimed t), w')"
  shows "i \<notin> S \<and> settled (insert i S) (db w')"
proof -
  from c obtain k w2 where u: "update_db (claim_stmt i worker host now) w = (Inr k, w2)"
    and rest: "(if k = 0 then ret AlreadyClaimed
      else bind_op (get_task i) (\<lambda>t. ret (Claimed t))) w2 = (Inr (Claimed t), w')"
    unfolding claim_task_def by (elim bind_op_InrE)
  from u obtain w1 where n: "next_turn w = (Answered, w1)"
    and k: "k = fst (claim_stmt i worker host now (db w1))"
    and w2: "w2 = w1\<lparr>db := snd (claim_stmt i worker host now (db w1))\<rparr>"
    by (elim update_db_InrE)
  have w1: "settled S (db w1)"
    using next_turn_keeps [OF S task_safe_env [OF settled_safe p] n] by blast
  have p1: "peers w1" using next_turn_script [OF n] peers_by_subset p by blast
  let ?s = "claim_stmt i worker host now (db w1)"
  from rest k have won: "fst ?s \<noteq> 0"
    and g: "bind_op (get_task i) (\<lambda>t. ret (Claimed t)) (w1\<lparr>db := snd ?s\<rparr>) = (Inr (Claimed t), w')"
    by (simp_all add: w2 split: if_splits)
  from settled_claims [OF w1 won]
  have S2: "i \<notin> S" "settled (insert i S) (db (w1\<lparr>db := snd ?s\<rparr>))" by simp_all
  moreover have k2: "keeps (settled (insert i S)) (bind_op (get_task i) (\<lambda>t. ret (Claimed t)))"
    by (intro keeps_intros)
  moreover have "peers (w1\<lparr>db := snd ?s\<rparr>)" using p1 by (simp add: peers_by_def)
  ultimately have "settled (insert i S) (db w')"
    using settled_keeps [OF k2 _ _ g] by simp
  then show ?thesis using S2 by simp
qed

lemma task_call_settles:
  assumes "settled S (db w)" "peers w" "call_ok c" "task_call_op gap c w = (r, w')"
  shows "settled S (db w') \<and> peers w'
    \<and> (\<forall>i. r = Inr (Some i) \<longrightarrow> i \<notin> S \<and> settled (insert i S) (db w'))"
proof -
  have "settled S (db w') \<and> peers w'"
    using settled_keeps [OF keeps_task_call [OF settled_safe assms(3)] assms(1,2,4)] .
  moreover have "i \<notin> S \<and> settled (insert i S) (db w')" if "r = Inr (Some i)" for i
    using assms(4) that claim_task_settles [OF assms(1,2)]
    by (cases c) (auto elim!: bind_op_InrE split: claim_result.splits)
  ultimately show ?thesis by blast
qed

lemma wins_settle:
  "settled S (db w) \<Longrightarrow> peers w \<Longrightarrow> \<forall>c \<in> set cs. call_ok c \<Longrightarrow> wins gap cs w = (js, w') \<Longrightarrow>
     distinct js \<and> set js \<inter> S = {} \<and> settled (S \<union> set js) (db w')"
proof (induction cs arbitrary: S w js)
  case Nil
  then show ?case by simp
next
  case (Cons c cs)
  obtain r w1 where r: "task_call_op gap c w = (r, w1)" by fastforce
  obtain ks where ks: "wins gap cs w1 = (ks, w')"
    "js = (case r of Inr (Some i) \<Rightarrow> [i] | _ \<Rightarrow> []) @ ks"
    using Cons.prems(4) r by (auto split: prod.splits)
  have c: "settled S (db w1)" "peers w1"
    and won: "\<And>i. r = Inr (Some i) \<Longrightarrow> i \<notin> S \<and> settled (insert i S) (db w1)"
    using task_call_settles [OF Cons.prems(1,2) _ r] Cons.prems(3) by auto
  show ?case
  proof (cases "\<exists>i. r = Inr (Some i)")
    case True
    then obtain i where i: "r = Inr (Some i)" by blast
    from Cons.IH [OF conjunct2 [OF won [OF i]] c(2) _ ks(1)] Cons.prems(3) won [OF i] ks(2) i
    show ?thesis by auto
  next
    case False
    then have "js = ks" using ks(2) by (auto split: sum.splits option.splits)
    then show ?thesis using Cons.IH [OF c _ ks(1)] Cons.prems(3) by auto
  qed
qed

text \<open>
  C1. Whatever calls a client makes, and whatever statements other clients get in between, and
  whichever requests fail before or after they took effect: no task is handed out by two claims. The
  only requirement is that nobody creates a task in another status than \<open>queued\<close> or \<open>held\<close>, or
  reports one of the statuses of an unfinished task as a result.
\<close>

theorem task_claimed_at_most_once:
  assumes "settled {} (db w)" "peers w" "\<forall>c \<in> set cs. call_ok c"
  shows "distinct (fst (wins gap cs w))"
  using wins_settle [OF assms, of gap "fst (wins gap cs w)" "snd (wins gap cs w)"] by simp

definition demo_params :: create_task_params where
  "demo_params =
     \<lparr>cp_title = ''t'', cp_prompt = ''p'', cp_scope_globs = [''a''], cp_base_commit = ''c'',
      cp_branch = ''b'', cp_todo_id = None, cp_timeout_minutes = 60, cp_priority = 100,
      cp_kind = ''command'', cp_metadata = JObj [], cp_required_tools = None,
      cp_required_tags = None, cp_tenant = None, cp_workspace_root = None,
      cp_require_base_commit = False, cp_required_capabilities = None, cp_secrets_needed = None,
      cp_network_egress = None, cp_dispatcher_id = None, cp_dispatch = None, cp_skill = None,
      cp_tool = None, cp_command = None, cp_cwd = None, cp_env = None, cp_initial_status = None,
      cp_dispatched_by_user = None, cp_dispatched_by_host = None, cp_dispatched_by_agent = None,
      cp_dispatcher_pubkey_fingerprint = None, cp_approval_id = None, cp_policy_decisions = [],
      cp_approvals_required = 0, cp_approvals_received = 0\<rparr>"

definition demo_db :: "string \<Rightarrow> db" where
  "demo_db s = snd (insert_task (demo_params\<lparr>cp_initial_status := Some s\<rparr>) ''now'' empty_db)"

lemma settled_empty: "settled {} empty_db"
  by (simp add: settled_def empty_db_def)

lemma settled_demo: "settled {} (demo_db s)"
  unfolding demo_db_def by (intro settled_insert_task settled_empty)

lemma task_claimed_at_most_once_witness:
  "distinct (fst (wins (\<lambda>_ _. None)
     [CallClaim 1 ''w'' ''h'' ''n'', CallRun 1 ''n'', CallClaim 1 ''v'' ''h'' ''n'']
     \<lparr>db = demo_db ''queued'',
      script = [\<lparr>turn_env = \<lambda>d. snd (claim_stmt 1 ''other'' ''h'' ''n'' d), turn_reply = Answered\<rparr>]\<rparr>))"
  by (rule task_claimed_at_most_once)
    (auto simp: peers_by_def settled_demo intro: r_into_rtranclp Claim)

section \<open>What happens to a task over its life\<close>

definition row_wf :: "task_row \<Rightarrow> bool" where
  "row_wf t \<longleftrightarrow>
     t_claimed_by_runner t = t_worker_id t
     \<and> (t_worker_id t = None \<longleftrightarrow> t_claimed_at t = None)
     \<and> (t_worker_id t = None \<longrightarrow> t_status t \<in> {''queued'', ''held'', ''cancelled''})
     \<and> (t_status t \<in> {''queued'', ''held''} \<longrightarrow> t_worker_id t = None \<and> t_started_at t = None)
     \<and> (live_status (t_status t) \<longleftrightarrow> t_completed_at t = None)
     \<and> (live_status (t_status t) \<longleftrightarrow> t_exit_reason t = None)"

definition stage :: "string \<Rightarrow> nat" where
  "stage s = (if s = ''queued'' \<or> s = ''held'' then 0 else if s = ''claimed'' then 1
     else if s = ''running'' then 2 else 3)"

lemma row_step_wf: "row_step t u \<Longrightarrow> row_wf t \<Longrightarrow> row_wf u"
  by (erule row_step.cases) (auto simp: row_wf_def live_status_def)

lemma row_step_stage: "row_step t u \<Longrightarrow> stage (t_status t) \<le> stage (t_status u)"
  by (erule row_step.cases) (auto simp: stage_def live_status_def)

lemma row_step_brief: "row_step t u \<Longrightarrow> t_brief u = t_brief t \<and> t_created_at u = t_created_at t"
  by (erule row_step.cases) simp_all

lemma new_task_wf: "fresh_status p \<Longrightarrow> row_wf (new_task p now i)"
  by (auto simp: row_wf_def new_task_def fresh_status_def live_status_def)

definition rows_wf :: "db \<Rightarrow> bool" where
  "rows_wf d \<longleftrightarrow> (\<forall>t \<in> set (tasks d). row_wf t)"

text \<open>Every task of the first database is still there, with the same brief and at no earlier stage.\<close>

definition further :: "db \<Rightarrow> db \<Rightarrow> bool" where
  "further d d' \<longleftrightarrow>
     (\<forall>t \<in> set (tasks d). \<exists>u \<in> set (tasks d').
        t_id u = t_id t \<and> t_brief u = t_brief t \<and> t_created_at u = t_created_at t
        \<and> stage (t_status t) \<le> stage (t_status u))"

lemma further_refl: "further d d"
  by (auto simp: further_def)

lemma further_trans: "further d d' \<Longrightarrow> further d' d'' \<Longrightarrow> further d d''"
  unfolding further_def by (metis order_trans)

lemma steps_rows_imageD:
  assumes "steps_rows d d'" "t \<in> set (tasks d)"
  obtains u where "u \<in> set (tasks d')" "u = t \<or> row_step t u"
proof -
  from assms obtain k where k: "k < length (tasks d)" "t = tasks d ! k"
    "length (tasks d) = length (tasks d')"
    by (auto simp: steps_rows_def list_all2_conv_all_nth in_set_conv_nth)
  with assms(1) have "tasks d' ! k = t \<or> row_step t (tasks d' ! k)"
    by (simp add: steps_rows_def list_all2_conv_all_nth)
  then show thesis using that k by (metis nth_mem)
qed

lemma steps_rows_further:
  assumes "steps_rows d d'"
  shows "further d d'"
  unfolding further_def
proof
  fix t assume "t \<in> set (tasks d)"
  with assms obtain u where "u \<in> set (tasks d')" "u = t \<or> row_step t u"
    by (rule steps_rows_imageD)
  then show "\<exists>u \<in> set (tasks d'). t_id u = t_id t \<and> t_brief u = t_brief t
      \<and> t_created_at u = t_created_at t \<and> stage (t_status t) \<le> stage (t_status u)"
    using row_step_id row_step_brief row_step_stage by (metis order_refl)
qed

lemma insert_task_further: "further d (snd (insert_task p now d))"
  by (auto simp: further_def insert_task_def Let_def)

lemma further_safe: "task_safe (further d)"
  unfolding task_safe_def
  by (blast elim: task_stmt_cases_rows intro: further_trans steps_rows_further insert_task_further)

lemma steps_rows_wf: "steps_rows d d' \<Longrightarrow> rows_wf d \<Longrightarrow> rows_wf d'"
  unfolding rows_wf_def by (metis steps_rows_rowD row_step_wf)

lemma rows_wf_safe: "task_safe rows_wf"
  unfolding task_safe_def
proof (intro allI impI)
  fix d d' assume wf: "rows_wf d" and "task_stmt d d'"
  from this(2) show "rows_wf d'"
  proof (cases rule: task_stmt_cases_rows)
    case (1 p now)
    then show ?thesis using wf new_task_wf [OF 1(1)] by (simp add: rows_wf_def insert_task_def Let_def)
  next
    case 2
    then show ?thesis using wf by (rule steps_rows_wf)
  qed
qed

lemma wins_safe:
  assumes "task_safe P" "\<forall>c \<in> set cs. call_ok c" "P (db w)" "peers w"
  shows "P (db (snd (wins gap cs w)))"
  using keepsD [OF keeps_wins [OF assms(1,2)] assms(3) task_safe_env [OF assms(1,4)]]
  by (metis prod.collapse)

text \<open>
  C10. The life of a task: through any calls, interference and failures, every task keeps the brief it
  was created with and only moves on, from queued or held over claimed and running to a terminal
  status; at every moment a task has a worker, a claim time and a completion time exactly as its
  status says.
\<close>

theorem task_lifecycle:
  assumes "rows_wf (db w)" "peers w" "\<forall>c \<in> set cs. call_ok c"
  shows "rows_wf (db (snd (wins gap cs w))) \<and> further (db w) (db (snd (wins gap cs w)))"
  using wins_safe [OF rows_wf_safe assms(3,1,2)]
    wins_safe [where P = "further (db w)", OF further_safe assms(3) further_refl assms(2)]
  by blast

lemma rows_wf_demo: "s \<in> {''queued'', ''held''} \<Longrightarrow> rows_wf (demo_db s)"
  by (auto simp: demo_db_def demo_params_def rows_wf_def empty_db_def insert_task_def Let_def
      fresh_status_def intro!: new_task_wf)

lemma task_lifecycle_witness:
  "rows_wf (db (snd (wins (\<lambda>_ _. None) [CallClaim 1 ''w'' ''h'' ''n'', CallCancel 1 ''n'']
      (calm (demo_db ''queued'')))))"
  by (rule conjunct1 [OF task_lifecycle]) (simp_all add: rows_wf_demo)

section \<open>Held tasks\<close>

definition parked :: "int \<Rightarrow> db \<Rightarrow> bool" where
  "parked i d \<longleftrightarrow>
     i \<le> last_task_id d \<and> (\<exists>t \<in> set (tasks d). t_id t = i)
     \<and> (\<forall>t \<in> set (tasks d). t_id t = i \<longrightarrow> t_status t = ''held'' \<and> t_worker_id t = None)"

lemma row_step_held:
  "row_step t u \<Longrightarrow> t_status t = ''held'' \<Longrightarrow> t_worker_id t = None \<Longrightarrow>
     t_status u = ''held'' \<and> t_worker_id u = None"
  by (erule row_step.cases) auto

lemma parked_steps_rows:
  assumes p: "parked i d" and s: "steps_rows d d'"
  shows "parked i d'"
proof -
  have "t_status u = ''held'' \<and> t_worker_id u = None"
    if "u \<in> set (tasks d')" "t_id u = i" for u
    using steps_rows_rowD [OF s that(1)] p that(2) row_step_held unfolding parked_def by metis
  moreover have "\<exists>u \<in> set (tasks d'). t_id u = i"
    using p steps_rows_imageD [OF s] row_step_or_id unfolding parked_def by metis
  ultimately show ?thesis using p s by (auto simp: parked_def steps_rows_def)
qed

lemma parked_safe: "task_safe (parked i)"
  unfolding task_safe_def
proof (intro allI impI)
  fix d d' assume p: "parked i d" and "task_stmt d d'"
  from this(2) show "parked i d'"
  proof (cases rule: task_stmt_cases_rows)
    case (1 q now)
    then show ?thesis using p by (auto simp: parked_def insert_task_def Let_def new_task_def)
  next
    case 2
    then show ?thesis using p by (blast intro: parked_steps_rows)
  qed
qed

text \<open>
  A task that was created as \<open>held\<close> stays so for ever: no claim, cancellation, approval or result
  moves it, whoever sends them and in whatever order.
\<close>

lemma held_task_stays_held:
  assumes "parked i (db w)" "peers w" "\<forall>c \<in> set cs. call_ok c"
  shows "\<exists>t. find_task i (db (snd (wins gap cs w))) = Some t \<and> t_status t = ''held''"
proof -
  let ?d = "db (snd (wins gap cs w))"
  have p: "parked i ?d" using wins_safe [OF parked_safe assms(3,1,2)] .
  then obtain t where t: "find_task i ?d = Some t"
    using first_row_None_iff [of "\<lambda>t. t_id t = i" "tasks ?d"]
    by (cases "find_task i ?d") (auto simp: find_task_def parked_def)
  with p show ?thesis
    using first_row_SomeD [of "\<lambda>t. t_id t = i" "tasks ?d" t] by (auto simp: find_task_def parked_def)
qed

lemma parked_demo: "parked 1 (demo_db ''held'')"
  by (simp add: parked_def demo_db_def demo_params_def insert_task_def new_task_def empty_db_def)

lemma held_task_stays_held_witness:
  "\<exists>t. find_task 1 (db (snd (wins (\<lambda>_ _. None)
      [CallApproval ''a'' JNull True, CallClaim 1 ''w'' ''h'' ''n'', CallCancel 1 ''n'']
      (calm (demo_db ''held''))))) = Some t \<and> t_status t = ''held''"
  by (rule held_task_stays_held) (simp_all add: parked_demo)

section \<open>Outcomes\<close>

lemma find_edit_tasks:
  "(\<And>t. P t \<Longrightarrow> t_id (f t) = t_id t) \<Longrightarrow>
     find_task i (snd (edit_tasks P f d)) = map_option (\<lambda>t. if P t then f t else t) (find_task i d)"
  by (simp add: find_task_def edit_tasks_def first_row_update_where)

lemma find_task_the:
  assumes "settled {} d" "find_task i d = Some t" "u \<in> set (tasks d)" "t_id u = i"
  shows "u = t"
  using assms distinct_keyD [of t_id "tasks d" u t] first_row_SomeD [of "\<lambda>t. t_id t = i" "tasks d" t]
  by (simp add: find_task_def settled_def)

lemma find_task_SomeD: "find_task i d = Some t \<Longrightarrow> t_id t = i \<and> t \<in> set (tasks d)"
  unfolding find_task_def by (drule first_row_SomeD) simp

text \<open>A statement about one task selects it exactly when it meets the condition.\<close>

lemma affected_one:
  assumes S: "settled {} d" and P: "\<And>t. P t \<longleftrightarrow> t_id t = i \<and> Q t"
  shows "fst (edit_tasks P f d) = 0 \<longleftrightarrow> (\<forall>t. find_task i d = Some t \<longrightarrow> \<not> Q t)"
proof -
  have "(\<forall>u \<in> set (tasks d). \<not> P u) \<longleftrightarrow> (\<forall>t. find_task i d = Some t \<longrightarrow> \<not> Q t)"
  proof (cases "find_task i d")
    case None
    then show ?thesis unfolding find_task_def by (simp add: P) (simp add: first_row_None_iff)
  next
    case (Some t)
    then show ?thesis using find_task_the [OF S Some] find_task_SomeD [OF Some] by (auto simp: P)
  qed
  then show ?thesis by (simp add: edit_tasks_def affected_0_iff)
qed

lemma edit_tasks_one:
  assumes S: "settled {} d" and t: "find_task i d = Some t" "Q t"
    and P: "\<And>t. P t \<longleftrightarrow> t_id t = i \<and> Q t"
  shows "snd (edit_tasks P f d) = d\<lparr>tasks := map (\<lambda>u. if u = t then f t else u) (tasks d)\<rparr>"
proof -
  have "P u \<longleftrightarrow> u = t" if "u \<in> set (tasks d)" for u
    using find_task_the [OF S t(1) that] find_task_SomeD [OF t(1)] t(2) by (metis P)
  then have "update_where P f (tasks d) = map (\<lambda>u. if u = t then f t else u) (tasks d)"
    unfolding update_where_def by (intro map_cong refl) auto
  then show ?thesis by (simp add: edit_tasks_def)
qed

lemma edit_tasks_none: "fst (edit_tasks P f d) = 0 \<Longrightarrow> snd (edit_tasks P f d) = d"
  by (simp add: edit_tasks_def update_where_id)

lemma get_task_calm:
  "get_task i (calm d) =
     (case find_task i d of None \<Rightarrow> (Inl (NotFound (''task '' @ show_int i)), calm d)
      | Some t \<Rightarrow> (Inr t, calm d))"
  by (simp add: get_task_def calm_simps split: option.splits)

definition claimed_row :: "string \<Rightarrow> string \<Rightarrow> string \<Rightarrow> task_row \<Rightarrow> task_row" where
  "claimed_row worker host now t =
     t\<lparr>t_status := ''claimed'', t_worker_id := Some worker, t_claimed_at := Some now,
       t_claimed_by_runner := Some worker, t_claimed_by_host := Some host\<rparr>"

text \<open>
  A claim that nobody disturbs succeeds exactly for a task that exists, is queued and has no
  cancellation requested; it answers with that task, owned by the worker, and nothing else changes.
  In every other case it reports the task as already claimed and changes nothing.
\<close>

lemma claim_task_calm:
  assumes "settled {} d"
  shows "claim_task i worker host now (calm d) =
     (case find_task i d of
        Some t \<Rightarrow>
          if t_status t = ''queued'' \<and> \<not> t_cancel_requested t
          then (Inr (Claimed (claimed_row worker host now t)),
                calm (d\<lparr>tasks := map (\<lambda>u. if u = t then claimed_row worker host now t else u) (tasks d)\<rparr>))
          else (Inr AlreadyClaimed, calm d)
      | None \<Rightarrow> (Inr AlreadyClaimed, calm d))"
proof -
  let ?Q = "\<lambda>t. t_status t = ''queued'' \<and> \<not> t_cancel_requested t"
  let ?P = "\<lambda>t. t_id t = i \<and> t_status t = ''queued'' \<and> \<not> t_cancel_requested t"
  have stmt: "claim_stmt i worker host now = edit_tasks ?P (claimed_row worker host now)"
    by (simp add: claim_stmt_def claimed_row_def [abs_def])
  have zero: "fst (claim_stmt i worker host now d) = 0 \<longleftrightarrow> (\<forall>t. find_task i d = Some t \<longrightarrow> \<not> ?Q t)"
    unfolding stmt by (rule affected_one [OF assms]) simp
  show ?thesis
  proof (cases "\<exists>t. find_task i d = Some t \<and> ?Q t")
    case True
    then obtain t where t: "find_task i d = Some t" "?Q t" by blast
    have "snd (claim_stmt i worker host now d) =
        d\<lparr>tasks := map (\<lambda>u. if u = t then claimed_row worker host now t else u) (tasks d)\<rparr>"
      unfolding stmt by (rule edit_tasks_one [where Q = ?Q, OF assms t]) simp
    moreover have "find_task i (snd (claim_stmt i worker host now d)) =
        Some (claimed_row worker host now t)"
      unfolding stmt using t find_task_SomeD [OF t(1)]
      by (subst find_edit_tasks) (auto simp: claimed_row_def)
    ultimately show ?thesis
      using zero t by (simp add: claim_task_def calm_simps get_task_calm)
  next
    case False
    then have "fst (claim_stmt i worker host now d) = 0" using zero by blast
    moreover from this have "snd (claim_stmt i worker host now d) = d"
      unfolding stmt by (rule edit_tasks_none)
    ultimately show ?thesis
      using False by (auto simp: claim_task_def calm_simps split: option.splits)
  qed
qed

definition finished_row :: "gap \<Rightarrow> submit_result_params \<Rightarrow> string \<Rightarrow> task_row \<Rightarrow> task_row" where
  "finished_row gap p now t =
     t\<lparr>t_status := sr_status p, t_completed_at := Some now,
       t_wall_seconds := opt_or (sql_real (sr_wall_seconds p)) (elapsed_seconds gap now t),
       t_runner_cpu_seconds := opt_or (sql_real (sr_runner_cpu_seconds p)) (Some (Fin 0)),
       t_exit_reason := Some (sr_exit_reason p), t_exit_code := sr_exit_code p\<rparr>"

text \<open>
  A result that nobody disturbs: for an unknown task it is refused as not found, for a task another
  worker holds it is refused naming the owner, and both leave everything as it was; otherwise the task
  takes the reported status, whatever its status was before, and the result replaces any earlier one.
\<close>

lemma submit_result_calm:
  assumes "settled {} d"
  shows "submit_result gap p now (calm d) =
     (case find_task (sr_task_id p) d of
        None \<Rightarrow> (Inl (NotFound (''task '' @ show_int (sr_task_id p))), calm d)
      | Some t \<Rightarrow>
          if t_worker_id t = Some (sr_worker_id p)
          then (Inr (finished_row gap p now t),
                calm (d\<lparr>tasks := map (\<lambda>u. if u = t then finished_row gap p now t else u) (tasks d),
                        results := delete_where (\<lambda>r. r_task_id r = sr_task_id p) (results d)
                          @ [result_of p now t]\<rparr>))
          else (Inl (PermissionDenied (''worker '' @ sr_worker_id p
                  @ '' cannot report result for task owned by '' @ opt_default '''' (t_worker_id t))),
                calm d))"
proof -
  let ?i = "sr_task_id p"
  let ?Q = "\<lambda>t. t_worker_id t = Some (sr_worker_id p)"
  let ?P = "\<lambda>t. t_id t = ?i \<and> t_worker_id t = Some (sr_worker_id p)"
  have stmt: "finish_stmt gap p now = edit_tasks ?P (finished_row gap p now)"
    by (simp add: finish_stmt_def finished_row_def [abs_def])
  have zero: "fst (finish_stmt gap p now d) = 0 \<longleftrightarrow> (\<forall>t. find_task ?i d = Some t \<longrightarrow> \<not> ?Q t)"
    unfolding stmt by (rule affected_one [OF assms]) simp
  show ?thesis
  proof (cases "\<exists>t. find_task ?i d = Some t \<and> ?Q t")
    case True
    then obtain t where t: "find_task ?i d = Some t" "?Q t" by blast
    have d1: "snd (finish_stmt gap p now d) =
        d\<lparr>tasks := map (\<lambda>u. if u = t then finished_row gap p now t else u) (tasks d)\<rparr>" (is "_ = ?d1")
      unfolding stmt by (rule edit_tasks_one [where Q = ?Q, OF assms t]) simp
    have found: "find_task ?i ?d1 = Some (finished_row gap p now t)"
      unfolding d1 [symmetric] stmt using t find_task_SomeD [OF t(1)]
      by (subst find_edit_tasks) (auto simp: finished_row_def)
    have "result_of p now (finished_row gap p now t) = result_of p now t"
      by (simp add: result_of_def finished_row_def)
    then have "snd (result_stmt p now ?d1) =
        ?d1\<lparr>results := delete_where (\<lambda>r. r_task_id r = ?i) (results d) @ [result_of p now t]\<rparr>"
      by (simp add: result_stmt_def found)
    moreover have "find_task ?i (?d1\<lparr>results := x\<rparr>) = find_task ?i ?d1" for x
      by (simp add: find_task_def)
    ultimately show ?thesis
      using zero t found by (simp add: submit_result_def calm_simps get_task_calm d1)
  next
    case False
    then have z: "fst (finish_stmt gap p now d) = 0" using zero by blast
    moreover from this have "snd (finish_stmt gap p now d) = d"
      unfolding stmt by (rule edit_tasks_none)
    ultimately show ?thesis
      using False by (cases "find_task ?i d") (auto simp: submit_result_def calm_simps)
  qed
qed

end
