(* ===== verification/StoreFleet.thy ===== *)
theory StoreFleet
  imports StoreCore Interfaces Dates "HOL-Library.Product_Lexorder"
begin

text \<open>
  Runners, dispatchers and their nonces in the rqlite backend (\<^verbatim>\<open>impl RunnerStore\<close>,
  \<^verbatim>\<open>impl DispatcherStore\<close>, \<^verbatim>\<open>impl NonceStore\<close> of \<^verbatim>\<open>crates/fabric-store-rqlite/src/lib.rs\<close>).
  The wall clock, in whole seconds since the epoch, is the argument \<open>clock\<close>; the readings one
  operation takes of it fall in the same second. A field of a registration payload that its table
  declares \<^verbatim>\<open>NOT NULL\<close> is present.
\<close>

section \<open>Nonces\<close>

datatype nonce_table = DispatcherNonces | RunnerNonces | SessionNonces

fun nonces :: "nonce_table \<Rightarrow> db \<Rightarrow> nonce_row list" where
  "nonces DispatcherNonces d = dispatcher_nonces d"
| "nonces RunnerNonces d = runner_nonces d"
| "nonces SessionNonces d = session_nonces d"

fun with_nonces :: "nonce_table \<Rightarrow> nonce_row list \<Rightarrow> db \<Rightarrow> db" where
  "with_nonces DispatcherNonces ns d = d\<lparr>dispatcher_nonces := ns\<rparr>"
| "with_nonces RunnerNonces ns d = d\<lparr>runner_nonces := ns\<rparr>"
| "with_nonces SessionNonces ns d = d\<lparr>session_nonces := ns\<rparr>"

fun nonce_table_name :: "nonce_table \<Rightarrow> string" where
  "nonce_table_name DispatcherNonces = ''dispatcher_nonces''"
| "nonce_table_name RunnerNonces = ''runner_nonces''"
| "nonce_table_name SessionNonces = ''session_nonces''"

fun nonce_id_column :: "nonce_table \<Rightarrow> string" where
  "nonce_id_column DispatcherNonces = ''dispatcher_id''"
| "nonce_id_column RunnerNonces = ''runner_id''"
| "nonce_id_column SessionNonces = ''session_id''"

lemma nonces_with [simp]: "nonces tbl (with_nonces tbl ns d) = ns"
  by (cases tbl) simp_all

lemma nonces_with_other [simp]: "tbl \<noteq> tbl' \<Longrightarrow> nonces tbl (with_nonces tbl' ns d) = nonces tbl d"
  by (cases tbl; cases tbl') simp_all

definition prune_stmt :: "nonce_table \<Rightarrow> string \<Rightarrow> db \<Rightarrow> nat \<times> db" where
  "prune_stmt tbl cutoff d =
     (affected (\<lambda>n. n_used_at n < cutoff) (nonces tbl d),
      with_nonces tbl (delete_where (\<lambda>n. n_used_at n < cutoff) (nonces tbl d)) d)"

text \<open>The primary key of each table is the pair of holder and nonce.\<close>

definition insert_nonce :: "nonce_table \<Rightarrow> string \<Rightarrow> string \<Rightarrow> string \<Rightarrow> db \<Rightarrow> (string, nat) res \<times> db" where
  "insert_nonce tbl holder nonce now d =
     (if list_ex (\<lambda>n. n_holder n = holder \<and> n_nonce n = nonce) (nonces tbl d)
      then (Inl (''UNIQUE constraint failed: '' @ nonce_table_name tbl @ ''.'' @ nonce_id_column tbl
              @ '', '' @ nonce_table_name tbl @ ''.nonce''), d)
      else (Inr 1, with_nonces tbl
              (nonces tbl d @ [\<lparr>n_holder = holder, n_nonce = nonce, n_used_at = now\<rparr>]) d))"

definition consume_agent_nonce_strict ::
    "nonce_table \<Rightarrow> int \<Rightarrow> string \<Rightarrow> string \<Rightarrow> string \<Rightarrow> unit op" where
  "consume_agent_nonce_strict tbl clock holder nonce now =
     catch_rq (update_rq (prune_stmt tbl (prune_cutoff clock)))
       (\<lambda>_. catch_rq (statement (insert_nonce tbl holder nonce now))
          (\<lambda>r. case r of
                 Inr _ \<Rightarrow> ret ()
               | Inl e \<Rightarrow> fail (PermissionDenied
                   (''nonce replay rejected ('' @ rqlite_error_text e @ '')''))))"

definition consume_session_nonce :: "int \<Rightarrow> string \<Rightarrow> string \<Rightarrow> string \<Rightarrow> unit op" where
  "consume_session_nonce clock session nonce now =
     catch_rq (update_rq (prune_stmt SessionNonces (prune_cutoff clock)))
       (\<lambda>_. catch_rq (statement (insert_nonce SessionNonces session nonce now))
          (\<lambda>r. case r of
                 Inr _ \<Rightarrow> ret ()
               | Inl e \<Rightarrow> fail (PermissionDenied
                   (''nonce replay rejected ('' @ rqlite_error_text e @ '')''))))"

section \<open>Runners\<close>

definition runner_capability_cols :: "int \<Rightarrow> runner_payload \<Rightarrow>
    string list \<times> string option \<times> jv option \<times> int" where
  "runner_capability_cols clock p =
     (let kinds = (if rp_kinds p \<noteq> [] then rp_kinds p else [''agent'']);
          (manifest, version) =
            (case rp_mcp_manifest p of
               None \<Rightarrow> (None, 0)
             | Some m \<Rightarrow> if m = JNull then (None, 0) else (Some m, max 0 clock))
      in (kinds, rp_agent_type p, manifest, version))"

definition find_runner :: "string \<Rightarrow> db \<Rightarrow> runner_row option" where
  "find_runner i d = first_row (\<lambda>r. rn_runner_id r = i) (runners d)"

definition get_runner :: "string \<Rightarrow> runner_row op" where
  "get_runner i =
     bind_op (query (find_runner i))
       (\<lambda>r. case r of None \<Rightarrow> fail (NotFound (''runner '' @ i)) | Some x \<Rightarrow> ret x)"

definition edit_runners :: "(runner_row \<Rightarrow> bool) \<Rightarrow> (runner_row \<Rightarrow> runner_row) \<Rightarrow> db \<Rightarrow> nat \<times> db" where
  "edit_runners P f d = (affected P (runners d), d\<lparr>runners := update_where P f (runners d)\<rparr>)"

definition ghost :: "string \<Rightarrow> string \<Rightarrow> string list \<Rightarrow> string \<Rightarrow> runner_row \<Rightarrow> bool" where
  "ghost host i kinds cutoff r \<longleftrightarrow>
     rp_hostname (rn_payload r) = host \<and> rn_runner_id r \<noteq> i \<and> rn_kinds r = kinds
     \<and> rn_last_heartbeat r < cutoff"

definition prune_ghosts_stmt :: "string \<Rightarrow> string \<Rightarrow> string list \<Rightarrow> string \<Rightarrow> db \<Rightarrow> nat \<times> db" where
  "prune_ghosts_stmt host i kinds cutoff d =
     (affected (ghost host i kinds cutoff) (runners d),
      d\<lparr>runners := delete_where (ghost host i kinds cutoff) (runners d)\<rparr>)"

definition registered_runner :: "int \<Rightarrow> string \<Rightarrow> runner_payload \<Rightarrow> runner_row" where
  "registered_runner clock i p =
     (case runner_capability_cols clock p of (kinds, agent, manifest, version) \<Rightarrow>
        \<lparr>rn_runner_id = i, rn_public_key = rp_public_key p,
         rn_payload = p\<lparr>rp_runner_id := Some i, rp_kinds := kinds, rp_agent_type := agent,
           rp_mcp_manifest := manifest\<rparr>,
         rn_kinds = kinds, rn_mcp_manifest_version = version, rn_state = ''online'',
         rn_drain_requested = False, rn_last_known_commit = None,
         rn_first_seen = store_epoch_secs_to_iso clock,
         rn_last_heartbeat = store_epoch_secs_to_iso clock, rn_last_nonce = None,
         rn_claim_failures_total = 0, rn_claim_failures_consecutive = 0,
         rn_last_claim_error = None, rn_heartbeat_failures_total = 0\<rparr>)"

definition refreshed_runner :: "int \<Rightarrow> runner_payload \<Rightarrow> runner_row \<Rightarrow> runner_row" where
  "refreshed_runner clock p r =
     (case runner_capability_cols clock p of (kinds, agent, manifest, version) \<Rightarrow>
        r\<lparr>rn_payload := p\<lparr>rp_runner_id := Some (rn_runner_id r), rp_public_key := rn_public_key r,
            rp_kinds := kinds, rp_agent_type := agent, rp_mcp_manifest := manifest\<rparr>,
          rn_kinds := kinds, rn_mcp_manifest_version := version, rn_state := ''online'',
          rn_drain_requested := False, rn_last_heartbeat := store_epoch_secs_to_iso clock,
          rn_claim_failures_consecutive := 0, rn_last_claim_error := None\<rparr>)"

definition insert_runner_stmt :: "int \<Rightarrow> string \<Rightarrow> runner_payload \<Rightarrow> db \<Rightarrow> (string, nat) res \<times> db" where
  "insert_runner_stmt clock i p d =
     (if list_ex (\<lambda>r. rn_runner_id r = i) (runners d)
      then (Inl ''UNIQUE constraint failed: runners.runner_id'', d)
      else (Inr 1, d\<lparr>runners := runners d @ [registered_runner clock i p]\<rparr>))"

definition upsert_runner :: "int \<Rightarrow> runner_payload \<Rightarrow> runner_row op" where
  "upsert_runner clock p =
     (case rp_runner_id p of
        None \<Rightarrow> fail (Backend ''missing runner_id'')
      | Some i \<Rightarrow>
          (case runner_capability_cols clock p of (kinds, _) \<Rightarrow>
             bind_op
               (if rp_hostname p \<noteq> []
                then bind_op (update_db (prune_ghosts_stmt (rp_hostname p) i kinds
                       (store_epoch_secs_to_iso (clock - 120)))) (\<lambda>_. ret ())
                else ret ())
               (\<lambda>_. bind_op (query (find_runner i))
                 (\<lambda>r. bind_op
                    (case r of
                       Some x \<Rightarrow>
                         if rn_public_key x \<noteq> rp_public_key p
                         then fail (PermissionDenied ''runner_id is already bound to a different public_key'')
                         else update_db (edit_runners (\<lambda>y. rn_runner_id y = i) (refreshed_runner clock p))
                     | None \<Rightarrow> try_db (insert_runner_stmt clock i p))
                    (\<lambda>_. get_runner i)))))"

definition list_runners :: "runner_row list op" where
  "list_runners =
     query (\<lambda>d. sort_key (\<lambda>r. (rp_hostname (rn_payload r), rn_runner_id r)) (runners d))"

definition runner_public_key :: "string \<Rightarrow> string option op" where
  "runner_public_key i = query (\<lambda>d. map_option rn_public_key (find_runner i d))"

definition heartbeat_row :: "heartbeat_payload \<Rightarrow> string \<Rightarrow> runner_row \<Rightarrow> runner_row" where
  "heartbeat_row h now r =
     r\<lparr>rn_last_heartbeat := now,
       rn_last_known_commit := opt_or (hb_last_known_commit h) (rn_last_known_commit r),
       rn_last_nonce := Some (hb_nonce h),
       rn_claim_failures_total := opt_default (rn_claim_failures_total r) (hb_claim_failures_total h),
       rn_claim_failures_consecutive :=
         opt_default (rn_claim_failures_consecutive r) (hb_claim_failures_consecutive h),
       rn_last_claim_error := hb_last_claim_error h,
       rn_heartbeat_failures_total :=
         opt_default (rn_heartbeat_failures_total r) (hb_heartbeat_failures_total h),
       rn_state := (if rn_drain_requested r then ''draining'' else ''online'')\<rparr>"

definition heartbeat_runner :: "int \<Rightarrow> string \<Rightarrow> heartbeat_payload \<Rightarrow> string \<Rightarrow> runner_row op" where
  "heartbeat_runner clock i h now =
     bind_op (query (find_runner i))
       (\<lambda>r. if r = None then fail (NotFound (''runner '' @ i))
            else bind_op (consume_agent_nonce_strict RunnerNonces clock i (hb_nonce h) now)
              (\<lambda>_. bind_op (update_db (edit_runners (\<lambda>x. rn_runner_id x = i) (heartbeat_row h now)))
                (\<lambda>_. get_runner i)))"

definition request_drain :: "string \<Rightarrow> runner_row op" where
  "request_drain i =
     bind_op (update_db (edit_runners (\<lambda>x. rn_runner_id x = i)
         (\<lambda>x. x\<lparr>rn_drain_requested := True, rn_state := ''draining''\<rparr>)))
       (\<lambda>n. if n = 0 then fail (NotFound (''runner '' @ i)) else get_runner i)"

definition request_undrain :: "string \<Rightarrow> runner_row op" where
  "request_undrain i =
     bind_op (update_db (edit_runners (\<lambda>x. rn_runner_id x = i)
         (\<lambda>x. x\<lparr>rn_drain_requested := False,
                rn_state := (if rn_state x = ''draining'' then ''online'' else rn_state x)\<rparr>)))
       (\<lambda>n. if n = 0 then fail (NotFound (''runner '' @ i)) else get_runner i)"

definition delete_runner :: "string \<Rightarrow> runner_row op" where
  "delete_runner i =
     bind_op (get_runner i)
       (\<lambda>row. bind_op (update_db (\<lambda>d. (affected (\<lambda>x. rn_runner_id x = i) (runners d),
                 d\<lparr>runners := delete_where (\<lambda>x. rn_runner_id x = i) (runners d)\<rparr>)))
         (\<lambda>_. ret row))"

definition consume_runner_nonce :: "int \<Rightarrow> string \<Rightarrow> string \<Rightarrow> string \<Rightarrow> unit op" where
  "consume_runner_nonce clock i nonce now =
     bind_op (query (find_runner i))
       (\<lambda>r. if r = None then fail (NotFound (''runner '' @ i))
            else bind_op (consume_agent_nonce_strict RunnerNonces clock i nonce now)
              (\<lambda>_. bind_op (update_db (edit_runners (\<lambda>x. rn_runner_id x = i)
                       (\<lambda>x. x\<lparr>rn_last_nonce := Some nonce, rn_last_heartbeat := now\<rparr>)))
                (\<lambda>_. ret ())))"

section \<open>Dispatchers\<close>

definition find_dispatcher :: "string \<Rightarrow> db \<Rightarrow> dispatcher_row option" where
  "find_dispatcher i d = first_row (\<lambda>r. d_dispatcher_id r = i) (dispatchers d)"

definition get_dispatcher :: "string \<Rightarrow> dispatcher_row op" where
  "get_dispatcher i =
     bind_op (query (find_dispatcher i))
       (\<lambda>r. case r of None \<Rightarrow> fail (NotFound (''dispatcher '' @ i)) | Some x \<Rightarrow> ret x)"

definition edit_dispatchers ::
    "(dispatcher_row \<Rightarrow> bool) \<Rightarrow> (dispatcher_row \<Rightarrow> dispatcher_row) \<Rightarrow> db \<Rightarrow> nat \<times> db" where
  "edit_dispatchers P f d = (affected P (dispatchers d), d\<lparr>dispatchers := update_where P f (dispatchers d)\<rparr>)"

definition insert_dispatcher_stmt ::
    "string \<Rightarrow> string \<Rightarrow> dispatcher_payload \<Rightarrow> db \<Rightarrow> (string, nat) res \<times> db" where
  "insert_dispatcher_stmt now i p d =
     (if list_ex (\<lambda>r. d_dispatcher_id r = i) (dispatchers d)
      then (Inl ''UNIQUE constraint failed: dispatchers.dispatcher_id'', d)
      else (Inr 1, d\<lparr>dispatchers := dispatchers d @
              [\<lparr>d_dispatcher_id = i, d_public_key = dp_public_key p, d_label = dp_label p,
                d_hostname = dp_hostname p, d_metadata = dp_metadata p, d_first_seen = now,
                d_last_seen = now, d_last_nonce = None\<rparr>]\<rparr>))"

definition upsert_dispatcher :: "int \<Rightarrow> dispatcher_payload \<Rightarrow> dispatcher_row op" where
  "upsert_dispatcher clock p =
     (case dp_dispatcher_id p of
        None \<Rightarrow> fail (Backend ''missing dispatcher_id'')
      | Some i \<Rightarrow>
          let now = store_epoch_secs_to_iso clock in
          bind_op (query (find_dispatcher i))
            (\<lambda>r. bind_op
               (case r of
                  Some x \<Rightarrow>
                    if d_public_key x \<noteq> dp_public_key p
                    then fail (PermissionDenied ''dispatcher_id is already bound to a different public_key'')
                    else update_db (edit_dispatchers (\<lambda>y. d_dispatcher_id y = i)
                           (\<lambda>y. y\<lparr>d_label := dp_label p, d_hostname := dp_hostname p,
                                  d_metadata := dp_metadata p, d_last_seen := now\<rparr>))
                | None \<Rightarrow> try_db (insert_dispatcher_stmt now i p))
               (\<lambda>_. get_dispatcher i)))"

definition list_dispatchers :: "dispatcher_row list op" where
  "list_dispatchers = query (\<lambda>d. sort_key (\<lambda>r. (d_label r, d_dispatcher_id r)) (dispatchers d))"

definition dispatcher_public_key :: "string \<Rightarrow> string option op" where
  "dispatcher_public_key i = query (\<lambda>d. map_option d_public_key (find_dispatcher i d))"

definition delete_dispatcher :: "string \<Rightarrow> dispatcher_row op" where
  "delete_dispatcher i =
     bind_op (get_dispatcher i)
       (\<lambda>row. bind_op (update_db (\<lambda>d. (affected (\<lambda>x. d_dispatcher_id x = i) (dispatchers d),
                 d\<lparr>dispatchers := delete_where (\<lambda>x. d_dispatcher_id x = i) (dispatchers d)\<rparr>)))
         (\<lambda>_. case d_hostname row of
                None \<Rightarrow> ret row
              | Some h \<Rightarrow>
                  bind_op (query (\<lambda>d. affected (\<lambda>x. d_hostname x = Some h) (dispatchers d)))
                    (\<lambda>n. if n = 0
                         then bind_op (update_db (\<lambda>d.
                                (affected (\<lambda>x. hr_hostname x = h \<and> hr_role x = ''dispatch'') (host_roles d),
                                 d\<lparr>host_roles := delete_where
                                     (\<lambda>x. hr_hostname x = h \<and> hr_role x = ''dispatch'') (host_roles d)\<rparr>)))
                              (\<lambda>_. ret row)
                         else ret row)))"

definition consume_dispatcher_nonce :: "int \<Rightarrow> string \<Rightarrow> string \<Rightarrow> string \<Rightarrow> unit op" where
  "consume_dispatcher_nonce clock i nonce now =
     bind_op (query (find_dispatcher i))
       (\<lambda>r. if r = None then fail (NotFound (''dispatcher '' @ i))
            else bind_op (consume_agent_nonce_strict DispatcherNonces clock i nonce now)
              (\<lambda>_. bind_op (update_db (edit_dispatchers (\<lambda>x. d_dispatcher_id x = i)
                       (\<lambda>x. x\<lparr>d_last_nonce := Some nonce, d_last_seen := now\<rparr>)))
                (\<lambda>_. ret ())))"

section \<open>A nonce is accepted once\<close>

definition recorded :: "nonce_table \<Rightarrow> string \<Rightarrow> string \<Rightarrow> string \<Rightarrow> db \<Rightarrow> bool" where
  "recorded tbl holder nonce u d \<longleftrightarrow>
     (\<exists>x \<in> set (nonces tbl d). n_holder x = holder \<and> n_nonce x = nonce \<and> n_used_at x = u)"

text \<open>The other clients remove no nonce from the table that a client whose clock shows \<open>T\<close> keeps.\<close>

definition spared :: "nonce_table \<Rightarrow> int \<Rightarrow> world \<Rightarrow> bool" where
  "spared tbl T w \<longleftrightarrow>
     (\<forall>holder nonce u. \<not> u < prune_cutoff T \<longrightarrow> env_keeps (recorded tbl holder nonce u) w)"

lemma spared_calm [simp]: "spared tbl T (calm d)"
  by (simp add: spared_def)

lemma recorded_prune:
  "recorded tbl h n u d \<Longrightarrow> \<not> u < c \<Longrightarrow> recorded tbl h n u (snd (prune_stmt tbl c d))"
  by (auto simp: recorded_def prune_stmt_def delete_where_def)

lemma recorded_insert:
  "recorded tbl h n u d \<Longrightarrow> insert_nonce tbl h' n' now d = (r, d') \<Longrightarrow> recorded tbl h n u d'"
  by (auto simp: recorded_def insert_nonce_def split: if_splits)

lemma keeps_recorded_consume:
  assumes "\<not> u < prune_cutoff clock"
  shows "keeps (recorded tbl h n u) (consume_agent_nonce_strict tbl clock h' n' now)"
  unfolding consume_agent_nonce_strict_def
  by (intro keeps_catch_rq keeps_update_rq keeps_statement keeps_case_sum keeps_ret keeps_fail
      recorded_prune assms) (auto dest: recorded_insert)

lemma consume_session_nonce_eq:
  "consume_session_nonce clock h n now = consume_agent_nonce_strict SessionNonces clock h n now"
  by (simp add: consume_session_nonce_def consume_agent_nonce_strict_def)

lemma spared_subset: "spared tbl T w \<Longrightarrow> set (script w') \<subseteq> set (script w) \<Longrightarrow> spared tbl T w'"
  by (auto simp: spared_def intro: env_keeps_subset)

lemma script_consume:
  assumes "consume_agent_nonce_strict tbl clock h n now w = (r, w')"
  shows "set (script w') \<subseteq> set (script w)"
  using keeps_script [OF keeps_recorded_consume [of "prune_cutoff clock" clock] assms] by simp

lemma consume_split:
  assumes "consume_agent_nonce_strict tbl clock h n now w = (r, w')"
  obtains x w1 s where "update_rq (prune_stmt tbl (prune_cutoff clock)) w = (x, w1)"
    and "statement (insert_nonce tbl h n now) w1 = (s, w')"
    and "case s of Inr _ \<Rightarrow> r = Inr () | Inl e \<Rightarrow> \<exists>m. r = Inl (PermissionDenied m)"
proof -
  obtain x w1 where p: "update_rq (prune_stmt tbl (prune_cutoff clock)) w = (x, w1)" by fastforce
  obtain s w2 where s: "statement (insert_nonce tbl h n now) w1 = (s, w2)" by fastforce
  have "w2 = w' \<and> (case s of Inr _ \<Rightarrow> r = Inr () | Inl e \<Rightarrow> \<exists>m. r = Inl (PermissionDenied m))"
    using assms p s by (cases s) (auto simp: consume_agent_nonce_strict_def catch_rq_def)
  then show thesis using that p s by blast
qed

lemma insert_recorded_fails:
  "recorded tbl h n u d \<Longrightarrow> \<exists>m. insert_nonce tbl h n now d = (Inl m, d)"
  by (auto simp: recorded_def insert_nonce_def list_ex_iff)

lemma recorded_nonce_denied:
  assumes rec: "recorded tbl h n u (db w)" and c: "\<not> u < prune_cutoff clock"
    and env: "env_keeps (recorded tbl h n u) w"
    and run: "consume_agent_nonce_strict tbl clock h n now w = (r, w')"
  shows "\<exists>m. r = Inl (PermissionDenied m)"
proof -
  obtain x w1 s where p: "update_rq (prune_stmt tbl (prune_cutoff clock)) w = (x, w1)"
    and s: "statement (insert_nonce tbl h n now) w1 = (s, w')"
      "case s of Inr _ \<Rightarrow> r = Inr () | Inl e \<Rightarrow> \<exists>m. r = Inl (PermissionDenied m)"
    using consume_split [OF run] .
  have "keeps (recorded tbl h n u) (update_rq (prune_stmt tbl (prune_cutoff clock)))"
    by (intro keeps_update_rq recorded_prune c)
  from keepsD [where P = "recorded tbl h n u", OF this rec env p]
  have w1: "recorded tbl h n u (db w1)" "env_keeps (recorded tbl h n u) w1" by simp_all
  obtain rp w2 where n: "next_turn w1 = (rp, w2)" by fastforce
  have "recorded tbl h n u (db w2)" using next_turn_keeps [OF w1 n] by blast
  then obtain m where "insert_nonce tbl h n now (db w2) = (Inl m, db w2)"
    using insert_recorded_fails by blast
  then have "\<exists>e. s = Inl e"
    using s(1) n by (cases rp) (auto simp: statement_def)
  then show ?thesis using s(2) by auto
qed

lemma accepted_nonce_recorded:
  assumes "consume_agent_nonce_strict tbl clock h n now w = (Inr (), w')"
  shows "recorded tbl h n now (db w')"
proof -
  obtain x w1 s where "statement (insert_nonce tbl h n now) w1 = (s, w')"
    and "case s of Inr _ \<Rightarrow> Inr () = (Inr () :: (store_error, unit) res)
         | Inl e \<Rightarrow> \<exists>m. Inr () = (Inl (PermissionDenied m) :: (store_error, unit) res)"
    using consume_split [OF assms] .
  then have s: "statement (insert_nonce tbl h n now) w1 = (s, w')" "\<exists>x. s = Inr x"
    by (auto split: sum.splits)
  obtain rp w2 where n: "next_turn w1 = (rp, w2)" by fastforce
  obtain y d where y: "insert_nonce tbl h n now (db w2) = (y, d)" by fastforce
  have "(\<exists>x. y = Inr x) \<and> db w' = d"
    using s n y by (cases rp; cases y) (auto simp: statement_def)
  then have "db w' = with_nonces tbl
      (nonces tbl (db w2) @ [\<lparr>n_holder = h, n_nonce = n, n_used_at = now\<rparr>]) (db w2)"
    using y by (auto simp: insert_nonce_def split: if_splits)
  then have "nonces tbl (db w') = nonces tbl (db w2) @ [\<lparr>n_holder = h, n_nonce = n, n_used_at = now\<rparr>]"
    by simp
  then show ?thesis by (simp add: recorded_def)
qed

definition nonce_attempt :: "nonce_table \<Rightarrow> int \<Rightarrow> string \<times> string \<Rightarrow> world \<Rightarrow> bool \<times> world" where
  "nonce_attempt tbl t k w =
     (case consume_agent_nonce_strict tbl t (fst k) (snd k) (store_epoch_secs_to_iso t) w of
        (r, w') \<Rightarrow> (r = Inr (), w'))"

text \<open>A clock no later than \<open>T\<close>, which is itself within the window of the stamp.\<close>

definition protects_until :: "int \<Rightarrow> int \<Rightarrow> string \<Rightarrow> bool" where
  "protects_until T t u \<longleftrightarrow> \<not> u < prune_cutoff t \<and> \<not> u < prune_cutoff T"

interpretation nonce: single_use "nonce_attempt tbl" "spared tbl T"
    "\<lambda>w k u. recorded tbl (fst k) (snd k) u (db w)" store_epoch_secs_to_iso "protects_until T"
  for tbl T
proof unfold_locales
  fix w t k b w'
  assume "spared tbl T w" and a: "nonce_attempt tbl t k w = (b, w')"
  then show "spared tbl T w'"
    using script_consume spared_subset by (auto simp: nonce_attempt_def split: prod.splits)
next
  fix w t k b w' u
  assume ok: "spared tbl T w" and rec: "recorded tbl (fst k) (snd k) u (db w)"
    and p: "protects_until T t u" and a: "nonce_attempt tbl t k w = (b, w')"
  have "env_keeps (recorded tbl (fst k) (snd k) u) w"
    using ok p by (simp add: spared_def protects_until_def)
  with rec p a show "\<not> b"
    using recorded_nonce_denied by (fastforce simp: nonce_attempt_def protects_until_def split: prod.splits)
next
  fix w t k w'
  assume "nonce_attempt tbl t k w = (True, w')"
  then show "recorded tbl (fst k) (snd k) (store_epoch_secs_to_iso t) (db w')"
    using accepted_nonce_recorded by (auto simp: nonce_attempt_def split: prod.splits)
next
  fix w t j k b w' u
  assume ok: "spared tbl T w" and rec: "recorded tbl (fst k) (snd k) u (db w)"
    and p: "protects_until T t u" and a: "nonce_attempt tbl t j w = (b, w')"
  have env: "env_keeps (recorded tbl (fst k) (snd k) u) w"
    using ok p by (simp add: spared_def protects_until_def)
  have c: "\<not> u < prune_cutoff t" using p by (simp add: protects_until_def)
  obtain r where r: "consume_agent_nonce_strict tbl t (fst j) (snd j) (store_epoch_secs_to_iso t) w = (r, w')"
    using a by (auto simp: nonce_attempt_def split: prod.splits)
  show "recorded tbl (fst k) (snd k) u (db w')"
    using keepsD [where P = "recorded tbl (fst k) (snd k) u", OF keeps_recorded_consume [OF c] rec env r]
    by simp
qed

lemma cutoff_spares:
  assumes "0 \<le> t" "t < 253402300800" "x \<le> t + 300" "x < 253402300800"
  shows "\<not> store_epoch_secs_to_iso t < prune_cutoff x"
  using assms stamp_less_iff [of t "x - 300"] by (simp add: prune_cutoff_def)

text \<open>
  A nonce is accepted once per holder: after an accepted use at time \<open>t\<close>, every further use of the
  same nonce by the same holder until \<open>T\<close>, at most 300 seconds later, is refused, whatever other
  nonces are used in between, whatever fails, and whatever other clients do that prune nothing
  younger than their clocks, at most \<open>T\<close>, allow.
\<close>

lemma nonce_single_use:
  assumes "spared tbl T w" "nonce_attempt tbl t k w = (True, w1)"
    and "attempts (nonce_attempt tbl) xs w1 = (bs, w2)"
    and "\<forall>(x, j) \<in> set xs. x \<le> T" and "0 \<le> t" "t \<le> T" "T \<le> t + 300" "T < 253402300800"
  shows "\<forall>i < length xs. snd (xs ! i) = k \<longrightarrow> \<not> bs ! i"
proof (rule nonce.accepted_once [OF assms(1-3)])
  show "\<forall>(x, j) \<in> set xs. protects_until T x (store_epoch_secs_to_iso t)"
    using assms(4-8) cutoff_spares [of t] by (fastforce simp: protects_until_def)
qed

lemma consume_calm:
  "consume_agent_nonce_strict tbl clock h n now (calm d) =
     (let d1 = snd (prune_stmt tbl (prune_cutoff clock) d)
      in case insert_nonce tbl h n now d1 of
           (Inr _, d2) \<Rightarrow> (Inr (), calm d2)
         | (Inl m, _) \<Rightarrow> (Inl (PermissionDenied (''nonce replay rejected ('' @
               rqlite_error_text (StatusError 200 m) @ '')'')), calm d1))"
  by (simp add: consume_agent_nonce_strict_def calm_simps Let_def split: prod.splits sum.splits)

lemma nonce_single_use_witness:
  "let xs = [(1100, (''r'', ''b'')), (1300, (''r'', ''a''))];
       w = snd (nonce_attempt RunnerNonces 1000 (''r'', ''a'') (calm empty_db))
   in \<forall>i < length xs. snd (xs ! i) = (''r'', ''a'') \<longrightarrow>
        \<not> fst (attempts (nonce_attempt RunnerNonces) xs w) ! i"
  unfolding Let_def
proof (rule nonce_single_use [OF spared_calm, where t = 1000 and T = 1300])
  let ?w = "snd (nonce_attempt RunnerNonces 1000 (''r'', ''a'') (calm empty_db))"
  show "nonce_attempt RunnerNonces 1000 (''r'', ''a'') (calm empty_db) = (True, ?w)"
    by (simp add: nonce_attempt_def consume_calm Let_def prune_stmt_def insert_nonce_def empty_db_def
        delete_where_def)
  show "attempts (nonce_attempt RunnerNonces) [(1100, (''r'', ''b'')), (1300, (''r'', ''a''))] ?w =
      (fst (attempts (nonce_attempt RunnerNonces) [(1100, (''r'', ''b'')), (1300, (''r'', ''a''))] ?w),
       snd (attempts (nonce_attempt RunnerNonces) [(1100, (''r'', ''b'')), (1300, (''r'', ''a''))] ?w))"
    by simp
qed simp_all

text \<open>
  The pruning does not wait until the signature of the nonce expires: timestamps may lie up to 300
  seconds ahead of the clock, the record of a nonce is dropped 300 seconds behind it. A request signed
  for 300 seconds ahead is accepted at time \<open>t\<close> and, with the same nonce, again at \<open>t + 301\<close>, and at
  both times its timestamp passes the skew check.
\<close>

lemma nonce_replayed_after_prune:
  assumes t: "0 \<le> t" "t + 301 < 253402300800"
    and first: "consume_agent_nonce_strict tbl t h n (store_epoch_secs_to_iso t) (calm d) = (Inr (), calm d1)"
  shows "fst (consume_agent_nonce_strict tbl (t + 301) h n (store_epoch_secs_to_iso (t + 301)) (calm d1)) = Inr ()
    \<and> check_timestamp_skew False (word_of_int (t + 300)) (word_of_int t) = Some (Inr ())
    \<and> check_timestamp_skew False (word_of_int (t + 300)) (word_of_int (t + 301)) = Some (Inr ())"
proof (intro conjI)
  let ?p = "snd (prune_stmt tbl (prune_cutoff t) d)"
  have new: "\<not> list_ex (\<lambda>x. n_holder x = h \<and> n_nonce x = n) (nonces tbl ?p)"
    using first by (auto simp: consume_calm Let_def insert_nonce_def)
  then have "d1 = with_nonces tbl (nonces tbl ?p @
      [\<lparr>n_holder = h, n_nonce = n, n_used_at = store_epoch_secs_to_iso t\<rparr>]) ?p"
    using first by (simp add: consume_calm Let_def insert_nonce_def)
  then have d1: "nonces tbl d1 = nonces tbl ?p @
      [\<lparr>n_holder = h, n_nonce = n, n_used_at = store_epoch_secs_to_iso t\<rparr>]" by simp
  have "store_epoch_secs_to_iso t < prune_cutoff (t + 301)"
    using t stamp_less_iff [of t "1 + t"] by (simp add: prune_cutoff_def)
  then have "\<not> list_ex (\<lambda>x. n_holder x = h \<and> n_nonce x = n)
      (nonces tbl (snd (prune_stmt tbl (prune_cutoff (t + 301)) d1)))"
    using new by (auto simp: prune_stmt_def d1 delete_where_def list_ex_iff)
  then show "fst (consume_agent_nonce_strict tbl (t + 301) h n (store_epoch_secs_to_iso (t + 301)) (calm d1))
      = Inr ()"
    by (simp add: consume_calm Let_def insert_nonce_def)
  have s: "sint (word_of_int x :: i64) = x" if "0 \<le> x" "x < 2 ^ 63" for x
    using sint_wrap64 [of x] that by (simp add: wrap64_id)
  have ok: "check_timestamp_skew False (word_of_int x) (word_of_int y) = Some (Inr ())"
    if "0 \<le> x" "x < 2 ^ 63" "0 \<le> y" "y < 2 ^ 63" "\<bar>y - x\<bar> \<le> 300" for x y
    unfolding skew_accepts_iff_wrapped s [OF that(1,2)] s [OF that(3,4)]
    using that by (simp add: wrap64_id)
  show "check_timestamp_skew False (word_of_int (t + 300)) (word_of_int t) = Some (Inr ())"
    using t by (intro ok) simp_all
  show "check_timestamp_skew False (word_of_int (t + 300)) (word_of_int (t + 301)) = Some (Inr ())"
    using t by (intro ok) simp_all
qed

lemma nonce_replayed_after_prune_witness:
  "fst (consume_agent_nonce_strict DispatcherNonces 1301 ''d'' ''n'' (store_epoch_secs_to_iso 1301)
     (calm (empty_db\<lparr>dispatcher_nonces :=
        [\<lparr>n_holder = ''d'', n_nonce = ''n'', n_used_at = store_epoch_secs_to_iso 1000\<rparr>]\<rparr>))) = Inr ()"
  using nonce_replayed_after_prune [of 1000 DispatcherNonces "''d''" "''n''" empty_db
      "empty_db\<lparr>dispatcher_nonces :=
        [\<lparr>n_holder = ''d'', n_nonce = ''n'', n_used_at = store_epoch_secs_to_iso 1000\<rparr>]\<rparr>"]
  by (simp add: consume_calm Let_def prune_stmt_def insert_nonce_def empty_db_def delete_where_def)

section \<open>Dispatcher keys\<close>

definition dispatcher_key :: "string \<Rightarrow> db \<Rightarrow> string option" where
  "dispatcher_key i d = map_option d_public_key (find_dispatcher i d)"

lemma dispatcher_key_edit:
  "(\<And>y. P y \<Longrightarrow> d_dispatcher_id (f y) = d_dispatcher_id y \<and> d_public_key (f y) = d_public_key y) \<Longrightarrow>
     dispatcher_key i (snd (edit_dispatchers P f d)) = dispatcher_key i d"
  by (cases "find_dispatcher i d")
    (auto simp: dispatcher_key_def find_dispatcher_def edit_dispatchers_def first_row_update_where)

lemma dispatcher_key_insert:
  "dispatcher_key i d = Some k \<Longrightarrow> insert_dispatcher_stmt now j p d = (r, d') \<Longrightarrow> dispatcher_key i d' = Some k"
  by (auto simp: dispatcher_key_def find_dispatcher_def insert_dispatcher_stmt_def first_row_snoc
      split: if_splits)

lemma keeps_get_dispatcher [keeps_intros]: "keeps P (get_dispatcher i)"
  unfolding get_dispatcher_def by (intro keeps_intros)

lemma keeps_upsert_dispatcher:
  "keeps (\<lambda>d. dispatcher_key i d = Some k) (upsert_dispatcher clock p)"
  unfolding upsert_dispatcher_def Let_def
  by (intro keeps_intros) (auto simp: dispatcher_key_edit dest: dispatcher_key_insert)

lemma upsert_dispatcher_wrong_key:
  assumes k: "dispatcher_key i (db w) = Some k" and env: "env_keeps (\<lambda>d. dispatcher_key i d = Some k) w"
    and p: "dp_dispatcher_id p = Some i" "dp_public_key p \<noteq> k"
    and run: "upsert_dispatcher clock p w = (r, w')"
  shows "isl r"
proof (cases r)
  case (Inr x)
  let ?act = "\<lambda>y. case y of
      Some x \<Rightarrow>
        if d_public_key x \<noteq> dp_public_key p
        then fail (PermissionDenied ''dispatcher_id is already bound to a different public_key'')
        else update_db (edit_dispatchers (\<lambda>y. d_dispatcher_id y = i)
               (\<lambda>y. y\<lparr>d_label := dp_label p, d_hostname := dp_hostname p,
                      d_metadata := dp_metadata p, d_last_seen := store_epoch_secs_to_iso clock\<rparr>))
    | None \<Rightarrow> try_db (insert_dispatcher_stmt (store_epoch_secs_to_iso clock) i p)"
  have "bind_op (query (find_dispatcher i)) (\<lambda>y. bind_op (?act y) (\<lambda>_. get_dispatcher i)) w = (Inr x, w')"
    using run p(1) Inr by (simp add: upsert_dispatcher_def Let_def)
  then obtain y w1 where q: "query (find_dispatcher i) w = (Inr y, w1)"
    and rest: "bind_op (?act y) (\<lambda>_. get_dispatcher i) w1 = (Inr x, w')"
    by (rule bind_op_InrE)
  from q have n: "next_turn w = (Answered, w1)" "y = find_dispatcher i (db w1)"
    by (auto elim: query_InrE)
  have "dispatcher_key i (db w1) = Some k" using next_turn_keeps [OF k env n(1)] by blast
  then obtain z where "y = Some z" "d_public_key z = k"
    by (auto simp: dispatcher_key_def n(2))
  with rest p(2) show ?thesis by (auto elim: bind_op_InrE)
qed simp

definition register_dispatcher :: "int \<times> dispatcher_payload \<Rightarrow> world \<Rightarrow> bool \<times> world" where
  "register_dispatcher q w =
     (case upsert_dispatcher (fst q) (snd q) w of (r, w') \<Rightarrow> (\<not> isl r, w'))"

definition dispatcher_lost :: "int \<times> dispatcher_payload \<Rightarrow> world \<Rightarrow> string option \<Rightarrow> bool" where
  "dispatcher_lost q w i \<longleftrightarrow> \<not> (\<forall>j k. i = Some j \<longrightarrow> env_keeps (\<lambda>d. dispatcher_key j d = Some k) w)"

interpretation dispatcher: key_registry register_dispatcher "\<lambda>q. dp_dispatcher_id (snd q)"
    "\<lambda>q. dp_public_key (snd q)" "\<lambda>w i. Option.bind i (\<lambda>j. dispatcher_key j (db w))" dispatcher_lost
proof unfold_locales
  fix w :: world and i k q b w'
  assume b: "Option.bind i (\<lambda>j. dispatcher_key j (db w)) = Some k" "\<not> dispatcher_lost q w i"
    and run: "register_dispatcher q w = (b, w')"
  obtain j where j: "i = Some j" "dispatcher_key j (db w) = Some k"
    using b(1) by (cases i) auto
  obtain r where r: "upsert_dispatcher (fst q) (snd q) w = (r, w')"
    using run by (auto simp: register_dispatcher_def split: prod.splits)
  show "Option.bind i (\<lambda>j. dispatcher_key j (db w')) = Some k"
    using keepsD [where P = "\<lambda>d. dispatcher_key j d = Some k", OF keeps_upsert_dispatcher j(2) _ r] j b(2)
    by (simp add: dispatcher_lost_def)
next
  fix w :: world and q k b w'
  assume b: "Option.bind (dp_dispatcher_id (snd q)) (\<lambda>j. dispatcher_key j (db w)) = Some k"
    "\<not> dispatcher_lost q w (dp_dispatcher_id (snd q))" "dp_public_key (snd q) \<noteq> k"
    and run: "register_dispatcher q w = (b, w')"
  obtain j where j: "dp_dispatcher_id (snd q) = Some j" "dispatcher_key j (db w) = Some k"
    using b(1) by (cases "dp_dispatcher_id (snd q)") auto
  obtain r where r: "upsert_dispatcher (fst q) (snd q) w = (r, w')" "b = (\<not> isl r)"
    using run by (auto simp: register_dispatcher_def split: prod.splits)
  show "\<not> b"
    using upsert_dispatcher_wrong_key [OF j(2) _ j(1) b(3) r(1)] b(2) j(1) r(2)
    by (simp add: dispatcher_lost_def)
qed

text \<open>
  Once a dispatcher id is bound to a key, no sequence of registrations changes the binding, and
  every registration of the id with another key fails, as long as no other client removes the row.
\<close>

lemma dispatcher_key_binding:
  assumes "dispatcher_key i (db w) = Some k"
    and "unevicted register_dispatcher dispatcher_lost (Some i) qs w"
    and "registers register_dispatcher qs w = (bs, w')"
  shows "dispatcher_key i (db w') = Some k
    \<and> (\<forall>j < length qs. dp_dispatcher_id (snd (qs ! j)) = Some i \<and> dp_public_key (snd (qs ! j)) \<noteq> k
         \<longrightarrow> \<not> bs ! j)"
  using dispatcher.binding_forever [where s = w and i = "Some i" and k = k and rs = qs and bs = bs and s' = w']
    assms by simp

lemma dispatcher_key_binding_witness:
  "let d = empty_db\<lparr>dispatchers := [\<lparr>d_dispatcher_id = ''d'', d_public_key = ''k'', d_label = ''l'',
         d_hostname = None, d_metadata = JNull, d_first_seen = ''t'', d_last_seen = ''t'', d_last_nonce = None\<rparr>]\<rparr>;
       q = (1000, \<lparr>dp_dispatcher_id = Some ''d'', dp_public_key = ''other'', dp_label = ''x'',
         dp_hostname = None, dp_metadata = JNull\<rparr>)
   in dispatcher_key ''d'' (db (snd (registers register_dispatcher [q] (calm d)))) = Some ''k''"
  unfolding Let_def
  by (rule conjunct1 [OF dispatcher_key_binding [OF _ _ surjective_pairing]])
    (auto simp: dispatcher_lost_def dispatcher_key_def find_dispatcher_def first_row_def)

section \<open>Runner keys\<close>

definition runner_key :: "string \<Rightarrow> db \<Rightarrow> string option" where
  "runner_key i d = map_option rn_public_key (find_runner i d)"

text \<open>What a registration's ghost pruning removes.\<close>

definition prunes :: "int \<Rightarrow> runner_payload \<Rightarrow> runner_row \<Rightarrow> bool" where
  "prunes clock p x \<longleftrightarrow>
     rp_hostname p \<noteq> [] \<and>
     (case rp_runner_id p of None \<Rightarrow> False
      | Some j \<Rightarrow> ghost (rp_hostname p) j (fst (runner_capability_cols clock p))
          (store_epoch_secs_to_iso (clock - 120)) x)"

definition kept_runner :: "int \<Rightarrow> runner_payload \<Rightarrow> string \<Rightarrow> string \<Rightarrow> db \<Rightarrow> bool" where
  "kept_runner clock p i k d \<longleftrightarrow>
     (\<exists>x. find_runner i d = Some x \<and> rn_public_key x = k \<and> \<not> prunes clock p x)"

lemma first_row_delete_where:
  "first_row Q rows = Some x \<Longrightarrow> \<not> P x \<Longrightarrow> first_row Q (delete_where P rows) = Some x"
  by (induction rows) (auto simp: first_row_def delete_where_def split: if_splits)

lemma kept_runner_prune:
  assumes "rp_runner_id p = Some j" "rp_hostname p \<noteq> []" "kept_runner clock p i k d"
  shows "kept_runner clock p i k (snd (prune_ghosts_stmt (rp_hostname p) j
      (fst (runner_capability_cols clock p)) (store_epoch_secs_to_iso (clock - 120)) d))"
  using assms first_row_delete_where
  by (fastforce simp: kept_runner_def prunes_def prune_ghosts_stmt_def find_runner_def)

lemma refreshed_runner_simps:
  "rn_runner_id (refreshed_runner clock p r) = rn_runner_id r"
  "rn_public_key (refreshed_runner clock p r) = rn_public_key r"
  by (simp_all add: refreshed_runner_def split: prod.splits)

lemma kept_runner_refresh:
  assumes "rp_runner_id p = Some j" "kept_runner clock p i k d"
  shows "kept_runner clock p i k (snd (edit_runners (\<lambda>y. rn_runner_id y = j) (refreshed_runner clock p) d))"
proof -
  from assms(2) obtain x where x: "find_runner i d = Some x" "rn_public_key x = k" "\<not> prunes clock p x"
    by (auto simp: kept_runner_def)
  have "find_runner i (snd (edit_runners (\<lambda>y. rn_runner_id y = j) (refreshed_runner clock p) d)) =
      Some (if rn_runner_id x = j then refreshed_runner clock p x else x)"
    using x(1) by (simp add: find_runner_def edit_runners_def first_row_update_where refreshed_runner_simps)
  then show ?thesis
    using x assms(1) by (auto simp: kept_runner_def prunes_def ghost_def refreshed_runner_simps)
qed

lemma kept_runner_insert:
  "kept_runner clock p i k d \<Longrightarrow> insert_runner_stmt c j q d = (r, d') \<Longrightarrow> kept_runner clock p i k d'"
  by (auto simp: kept_runner_def insert_runner_stmt_def find_runner_def first_row_snoc split: if_splits)

lemma keeps_get_runner [keeps_intros]: "keeps P (get_runner i)"
  unfolding get_runner_def by (intro keeps_intros)

lemma keeps_upsert_runner: "keeps (kept_runner clock p i k) (upsert_runner clock p)"
proof (cases "rp_runner_id p")
  case None
  then show ?thesis by (simp add: upsert_runner_def keeps_fail)
next
  case (Some j)
  obtain ks rest where ks: "runner_capability_cols clock p = (ks, rest)" by (rule prod.exhaust)
  have "keeps (kept_runner clock p i k)
      (update_db (prune_ghosts_stmt (rp_hostname p) j ks (store_epoch_secs_to_iso (clock - 120))))"
    if "rp_hostname p \<noteq> []"
    by (intro keeps_update_db kept_runner_prune [OF Some that, of clock i k, unfolded ks fst_conv])
  moreover have "keeps (kept_runner clock p i k)
      (update_db (edit_runners (\<lambda>y. rn_runner_id y = j) (refreshed_runner clock p)))"
    using kept_runner_refresh [OF Some] by (intro keeps_update_db)
  ultimately show ?thesis
    unfolding upsert_runner_def Some ks
    by (auto intro!: keeps_bind keeps_ret keeps_query keeps_fail keeps_get_runner keeps_try_db
        dest: kept_runner_insert split: option.split)
qed

lemma upsert_runner_wrong_key:
  assumes k: "kept_runner clock p i k (db w)" and env: "env_keeps (kept_runner clock p i k) w"
    and p: "rp_runner_id p = Some i" "rp_public_key p \<noteq> k"
    and run: "upsert_runner clock p w = (r, w')"
  shows "isl r"
proof (cases r)
  case (Inr x)
  obtain ks rest where ks: "runner_capability_cols clock p = (ks, rest)" by (rule prod.exhaust)
  let ?prune = "if rp_hostname p \<noteq> []
      then bind_op (update_db (prune_ghosts_stmt (rp_hostname p) i ks
             (store_epoch_secs_to_iso (clock - 120)))) (\<lambda>_. ret ())
      else ret ()"
  let ?act = "\<lambda>y. case y of
      Some x \<Rightarrow>
        if rn_public_key x \<noteq> rp_public_key p
        then fail (PermissionDenied ''runner_id is already bound to a different public_key'')
        else update_db (edit_runners (\<lambda>y. rn_runner_id y = i) (refreshed_runner clock p))
    | None \<Rightarrow> try_db (insert_runner_stmt clock i p)"
  have "bind_op ?prune (\<lambda>_. bind_op (query (find_runner i))
      (\<lambda>y. bind_op (?act y) (\<lambda>_. get_runner i))) w = (Inr x, w')"
    using run p(1) Inr by (simp add: upsert_runner_def ks)
  then obtain u w1 where u: "?prune w = (Inr u, w1)"
    and more: "bind_op (query (find_runner i)) (\<lambda>y. bind_op (?act y) (\<lambda>_. get_runner i)) w1 = (Inr x, w')"
    by (rule bind_op_InrE)
  from more obtain y w2 where q: "query (find_runner i) w1 = (Inr y, w2)"
    and rest: "bind_op (?act y) (\<lambda>_. get_runner i) w2 = (Inr x, w')"
    by (rule bind_op_InrE)
  have prune: "keeps (kept_runner clock p i k) ?prune"
    by (auto intro!: keeps_bind keeps_ret keeps_update_db
        kept_runner_prune [OF p(1), of clock i k, unfolded ks fst_conv])
  have w1: "kept_runner clock p i k (db w1)" "env_keeps (kept_runner clock p i k) w1"
    using keepsD [OF prune k env u] by simp_all
  from q have n: "next_turn w1 = (Answered, w2)" "y = find_runner i (db w2)"
    by (auto elim: query_InrE)
  have "kept_runner clock p i k (db w2)" using next_turn_keeps [OF w1 n(1)] by blast
  then obtain z where "y = Some z" "rn_public_key z = k"
    by (auto simp: kept_runner_def n(2))
  with rest p(2) show ?thesis by (auto elim: bind_op_InrE)
qed simp

definition register_runner :: "int \<times> runner_payload \<Rightarrow> world \<Rightarrow> bool \<times> world" where
  "register_runner q w = (case upsert_runner (fst q) (snd q) w of (r, w') \<Rightarrow> (\<not> isl r, w'))"

definition runner_lost :: "int \<times> runner_payload \<Rightarrow> world \<Rightarrow> string option \<Rightarrow> bool" where
  "runner_lost q w i \<longleftrightarrow>
     \<not> (\<forall>j x. i = Some j \<longrightarrow> find_runner j (db w) = Some x \<longrightarrow> \<not> prunes (fst q) (snd q) x)
     \<or> \<not> (\<forall>j k. i = Some j \<longrightarrow> env_keeps (kept_runner (fst q) (snd q) j k) w)"

interpretation runner: key_registry register_runner "\<lambda>q. rp_runner_id (snd q)"
    "\<lambda>q. rp_public_key (snd q)" "\<lambda>w i. Option.bind i (\<lambda>j. runner_key j (db w))" runner_lost
proof unfold_locales
  fix w :: world and i k q b w'
  assume b: "Option.bind i (\<lambda>j. runner_key j (db w)) = Some k" "\<not> runner_lost q w i"
    and run: "register_runner q w = (b, w')"
  obtain j where j: "i = Some j" "runner_key j (db w) = Some k"
    using b(1) by (cases i) auto
  have kept: "kept_runner (fst q) (snd q) j k (db w)" "env_keeps (kept_runner (fst q) (snd q) j k) w"
    using b(2) j by (auto simp: runner_lost_def kept_runner_def runner_key_def)
  obtain r where r: "upsert_runner (fst q) (snd q) w = (r, w')"
    using run by (auto simp: register_runner_def split: prod.splits)
  show "Option.bind i (\<lambda>j. runner_key j (db w')) = Some k"
    using keepsD [OF keeps_upsert_runner kept r] j by (auto simp: kept_runner_def runner_key_def)
next
  fix w :: world and q k b w'
  assume b: "Option.bind (rp_runner_id (snd q)) (\<lambda>j. runner_key j (db w)) = Some k"
    "\<not> runner_lost q w (rp_runner_id (snd q))" "rp_public_key (snd q) \<noteq> k"
    and run: "register_runner q w = (b, w')"
  obtain j where j: "rp_runner_id (snd q) = Some j" "runner_key j (db w) = Some k"
    using b(1) by (cases "rp_runner_id (snd q)") auto
  have kept: "kept_runner (fst q) (snd q) j k (db w)" "env_keeps (kept_runner (fst q) (snd q) j k) w"
    using b(2) j by (auto simp: runner_lost_def kept_runner_def runner_key_def)
  obtain r where r: "upsert_runner (fst q) (snd q) w = (r, w')" "b = (\<not> isl r)"
    using run by (auto simp: register_runner_def split: prod.splits)
  show "\<not> b"
    using upsert_runner_wrong_key [OF kept j(1) b(3) r(1)] r(2) by simp
qed

text \<open>
  Once a runner id is bound to a key, no sequence of registrations changes the binding, and every
  registration of the id with another key fails, as long as no registration prunes the runner as a
  ghost of its host and no other client removes the row.
\<close>

lemma runner_key_binding:
  assumes "runner_key i (db w) = Some k"
    and "unevicted register_runner runner_lost (Some i) qs w"
    and "registers register_runner qs w = (bs, w')"
  shows "runner_key i (db w') = Some k
    \<and> (\<forall>j < length qs. rp_runner_id (snd (qs ! j)) = Some i \<and> rp_public_key (snd (qs ! j)) \<noteq> k
         \<longrightarrow> \<not> bs ! j)"
  using runner.binding_forever [where s = w and i = "Some i" and k = k and rs = qs and bs = bs and s' = w']
    assms by simp

definition demo_payload :: "string \<Rightarrow> string \<Rightarrow> runner_payload" where
  "demo_payload i key =
     \<lparr>rp_runner_id = Some i, rp_public_key = key, rp_hostname = ''h'', rp_os = ''linux'',
      rp_arch = ''x86'', rp_tools = [], rp_tags = [], rp_scope_prefixes = [], rp_tenant = None,
      rp_workspace_root = None, rp_runner_version = ''1'', rp_protocol_version = 2,
      rp_max_concurrent = 1, rp_metadata = JObj [], rp_capabilities = JObj [], rp_kinds = [],
      rp_agent_type = None, rp_mcp_manifest = None\<rparr>"

lemma runner_key_binding_witness:
  "runner_key ''r'' (db (snd (registers register_runner [(1000, demo_payload ''r'' ''other'')]
     (calm (empty_db\<lparr>runners := [registered_runner 1000 ''r'' (demo_payload ''r'' ''k'')]\<rparr>))))) = Some ''k''"
  by (rule conjunct1 [OF runner_key_binding [OF _ _ surjective_pairing]])
    (auto simp: runner_lost_def runner_key_def find_runner_def first_row_def registered_runner_def
      runner_capability_cols_def demo_payload_def prunes_def ghost_def)

text \<open>A registration that nobody disturbs and that finds its id free.\<close>

definition after_prune :: "int \<Rightarrow> runner_payload \<Rightarrow> db \<Rightarrow> db" where
  "after_prune clock p d = d\<lparr>runners := delete_where (prunes clock p) (runners d)\<rparr>"

lemma delete_where_never: "(\<And>r. \<not> P r) \<Longrightarrow> delete_where P rows = rows"
  by (simp add: delete_where_def)

lemma upsert_runner_fresh:
  assumes i: "rp_runner_id p = Some i" and free: "find_runner i (after_prune clock p d) = None"
  shows "upsert_runner clock p (calm d) =
    (Inr (registered_runner clock i p),
     calm (after_prune clock p d\<lparr>runners := runners (after_prune clock p d) @ [registered_runner clock i p]\<rparr>))"
proof -
  obtain ks rest where ks: "runner_capability_cols clock p = (ks, rest)" by (rule prod.exhaust)
  have host: "rp_hostname p \<noteq> [] \<Longrightarrow>
      snd (prune_ghosts_stmt (rp_hostname p) i ks (store_epoch_secs_to_iso (clock - 120)) d) = after_prune clock p d"
    by (simp add: prune_ghosts_stmt_def after_prune_def prunes_def [abs_def] i ks)
  have nohost: "rp_hostname p = [] \<Longrightarrow> after_prune clock p d = d"
    by (simp add: after_prune_def prunes_def delete_where_never)
  have new: "\<not> list_ex (\<lambda>r. rn_runner_id r = i) (runners (after_prune clock p d))"
    using free by (simp add: find_runner_def first_row_None_iff list_ex_iff)
  have "rn_runner_id (registered_runner clock i p) = i"
    by (simp add: registered_runner_def split: prod.splits)
  with free have "find_runner i (after_prune clock p d\<lparr>runners := runners (after_prune clock p d)
      @ [registered_runner clock i p]\<rparr>) = Some (registered_runner clock i p)"
    by (simp add: find_runner_def first_row_snoc)
  then show ?thesis
    using host nohost new free
    by (cases "rp_hostname p = []")
      (simp_all add: upsert_runner_def i ks calm_simps insert_runner_stmt_def get_runner_def)
qed

text \<open>
  The ghost pruning lets a binding be taken over: a runner that has been silent for two minutes is
  removed by the registration of any other id for the same host and kinds, and then its id can be
  registered again with another key.
\<close>

lemma silent_runner_key_taken_over:
  assumes "distinct (map rn_runner_id (runners d))" and "find_runner i d = Some x"
    and "rp_runner_id p = Some j" "find_runner j d = None" and "prunes clock p x"
    and "rp_runner_id q = Some i" "rp_public_key q = key" "i \<noteq> j"
  shows "\<exists>d1 d2. upsert_runner clock p (calm d) = (Inr (registered_runner clock j p), calm d1)
    \<and> upsert_runner clock q (calm d1) = (Inr (registered_runner clock i q), calm d2)
    \<and> runner_key i d2 = Some key"
proof -
  have gone: "find_runner k (after_prune c r d') = None" if "find_runner k d' = None" for c r k d'
    using that by (auto simp: find_runner_def first_row_None_iff after_prune_def delete_where_def)
  let ?d1 = "after_prune clock p d\<lparr>runners := runners (after_prune clock p d) @ [registered_runner clock j p]\<rparr>"
  have one: "upsert_runner clock p (calm d) = (Inr (registered_runner clock j p), calm ?d1)"
    using upsert_runner_fresh [OF assms(3) gone [OF assms(4)]] .
  have x: "x \<in> set (runners d)" "rn_runner_id x = i"
    using assms(2) first_row_SomeD [of "\<lambda>r. rn_runner_id r = i"] by (auto simp: find_runner_def)
  have "find_runner i (after_prune clock p d) = None"
  proof -
    have "y = x" if "y \<in> set (runners d)" "rn_runner_id y = i" for y
      using distinct_keyD [OF assms(1) that(1) x(1)] that(2) x(2) by simp
    then show ?thesis
      using assms(5) by (auto simp: find_runner_def first_row_None_iff after_prune_def delete_where_def)
  qed
  moreover have "rn_runner_id (registered_runner clock j p) = j"
    by (simp add: registered_runner_def split: prod.splits)
  ultimately have free: "find_runner i ?d1 = None"
    using assms(8) by (simp add: find_runner_def first_row_snoc)
  let ?d2 = "after_prune clock q ?d1\<lparr>runners := runners (after_prune clock q ?d1) @ [registered_runner clock i q]\<rparr>"
  have two: "upsert_runner clock q (calm ?d1) = (Inr (registered_runner clock i q), calm ?d2)"
    using upsert_runner_fresh [OF assms(6) gone [OF free]] .
  have "rn_runner_id (registered_runner clock i q) = i" "rn_public_key (registered_runner clock i q) = key"
    using assms(7) by (simp_all add: registered_runner_def split: prod.splits)
  then have "runner_key i ?d2 = Some key"
    using gone [OF free] by (simp add: runner_key_def find_runner_def first_row_snoc)
  with one two show ?thesis by blast
qed

lemma silent_runner_key_taken_over_witness:
  "\<exists>d1 d2. upsert_runner 2000 (demo_payload ''x'' ''a'')
        (calm (empty_db\<lparr>runners := [registered_runner 1000 ''r'' (demo_payload ''r'' ''k'')]\<rparr>))
      = (Inr (registered_runner 2000 ''x'' (demo_payload ''x'' ''a'')), calm d1)
    \<and> upsert_runner 2000 (demo_payload ''r'' ''thief'') (calm d1)
      = (Inr (registered_runner 2000 ''r'' (demo_payload ''r'' ''thief'')), calm d2)
    \<and> runner_key ''r'' d2 = Some ''thief''"
proof (rule silent_runner_key_taken_over)
  have "store_epoch_secs_to_iso 1000 < store_epoch_secs_to_iso 1880"
    using stamp_less_iff [of 1000 1880] by simp
  then show "prunes 2000 (demo_payload ''x'' ''a'') (registered_runner 1000 ''r'' (demo_payload ''r'' ''k''))"
    by (simp add: prunes_def ghost_def registered_runner_def runner_capability_cols_def demo_payload_def)
qed (simp_all add: find_runner_def first_row_def registered_runner_def runner_capability_cols_def
    demo_payload_def empty_db_def)

end
