(* ===== verification/StoreLogs.thy ===== *)
theory StoreLogs
  imports StoreTasks Interfaces
begin

text \<open>
  What a running task leaves behind (\<^verbatim>\<open>impl StreamStore\<close>, \<^verbatim>\<open>impl ProgressStore\<close>, \<^verbatim>\<open>impl NoteStore\<close>
  of \<^verbatim>\<open>crates/fabric-store-rqlite/src/lib.rs\<close>): output lines and progress entries, numbered per
  task by \<open>MAX(seq) + 1\<close>, and notes.
\<close>

section \<open>Operations\<close>

definition owner_check :: "int \<Rightarrow> string \<Rightarrow> string \<Rightarrow> unit op" where
  "owner_check i worker message =
     bind_op (query (find_task i))
       (\<lambda>r. case r of
          None \<Rightarrow> fail (NotFound (''task '' @ show_int i))
        | Some t \<Rightarrow> if t_worker_id t \<noteq> Some worker then fail (PermissionDenied message) else ret ())"

definition max_seq :: "('r \<Rightarrow> int) \<Rightarrow> ('r \<Rightarrow> int) \<Rightarrow> int \<Rightarrow> 'r list \<Rightarrow> int" where
  "max_seq task seq i rows =
     (case map seq (filter (\<lambda>r. task r = i) rows) of [] \<Rightarrow> 0 | s # ss \<Rightarrow> fold max ss s)"

definition insert_line :: "int \<Rightarrow> int \<Rightarrow> string \<Rightarrow> string \<Rightarrow> string \<Rightarrow> db \<Rightarrow> stream_line \<times> db" where
  "insert_line i seq channel line now d =
     (let row = \<lparr>sl_id = last_stream_id d + 1, sl_task_id = i, sl_seq = seq, sl_channel = channel,
                 sl_line = line, sl_created_at = now\<rparr>
      in (row, d\<lparr>task_streams := task_streams d @ [row], last_stream_id := last_stream_id d + 1\<rparr>))"

definition backend_only :: "'a rq \<Rightarrow> 'a op" where
  "backend_only m =
     catch_rq m (\<lambda>r. case r of Inl e \<Rightarrow> fail (Backend (rqlite_error_text e)) | Inr x \<Rightarrow> ret x)"

definition append_stream :: "int \<Rightarrow> string \<Rightarrow> string \<Rightarrow> string \<Rightarrow> string \<Rightarrow> stream_line op" where
  "append_stream i worker channel line now =
     bind_op (owner_check i worker ''worker mismatch on stream append'')
       (\<lambda>_. bind_op (query (\<lambda>d. max_seq sl_task_id sl_seq i (task_streams d)))
         (\<lambda>m. backend_only (update_rq (insert_line i (m + 1) channel line now))))"

fun append_lines :: "int \<Rightarrow> int \<Rightarrow> (string \<times> string) list \<Rightarrow> string \<Rightarrow> stream_line list op" where
  "append_lines i seq [] now = ret []"
| "append_lines i seq ((channel, line) # entries) now =
     bind_op (backend_only (update_rq (insert_line i (seq + 1) channel line now)))
       (\<lambda>r. bind_op (append_lines i (seq + 1) entries now) (\<lambda>rs. ret (r # rs)))"

definition append_stream_bulk ::
    "int \<Rightarrow> string \<Rightarrow> (string \<times> string) list \<Rightarrow> string \<Rightarrow> stream_line list op" where
  "append_stream_bulk i worker entries now =
     (if entries = [] then ret []
      else bind_op (owner_check i worker ''worker mismatch on stream bulk append'')
        (\<lambda>_. bind_op (query (\<lambda>d. max_seq sl_task_id sl_seq i (task_streams d)))
          (\<lambda>m. append_lines i m entries now)))"

definition lines_since :: "int \<Rightarrow> int \<Rightarrow> int \<Rightarrow> db \<Rightarrow> stream_line list" where
  "lines_since i after limit d =
     sql_limit limit (sort_key sl_seq (filter (\<lambda>r. sl_task_id r = i \<and> after < sl_seq r) (task_streams d)))"

definition streams_since :: "int \<Rightarrow> int \<Rightarrow> int \<Rightarrow> stream_line list op" where
  "streams_since i after limit = query (lines_since i after limit)"

definition insert_progress :: "int \<Rightarrow> int \<Rightarrow> string \<Rightarrow> string list \<Rightarrow> string \<Rightarrow> db \<Rightarrow> int \<times> db" where
  "insert_progress i seq message files now d =
     (last_progress_id d + 1,
      d\<lparr>progress := progress d @ [\<lparr>pg_id = last_progress_id d + 1, pg_task_id = i, pg_seq = seq,
          pg_message = message, pg_files_touched = files, pg_created_at = now\<rparr>],
        last_progress_id := last_progress_id d + 1\<rparr>)"

text \<open>The entry that is handed back has no files, whatever was stored.\<close>

definition append_progress :: "int \<Rightarrow> string \<Rightarrow> string \<Rightarrow> string list option \<Rightarrow> string \<Rightarrow> progress_entry op" where
  "append_progress i worker message files now =
     bind_op (owner_check i worker ''worker mismatch on progress'')
       (\<lambda>_. bind_op (query (\<lambda>d. max_seq pg_task_id pg_seq i (progress d)))
         (\<lambda>m. bind_op (backend_only (update_rq (insert_progress i (m + 1) message (opt_default [] files) now)))
           (\<lambda>k. ret \<lparr>pg_id = k, pg_task_id = i, pg_seq = m + 1, pg_message = message,
                     pg_files_touched = [], pg_created_at = now\<rparr>)))"

definition progress_since :: "int \<Rightarrow> int \<Rightarrow> progress_entry list op" where
  "progress_since i after =
     query (\<lambda>d. sort_key pg_seq (filter (\<lambda>r. pg_task_id r = i \<and> after < pg_seq r) (progress d)))"

definition insert_note :: "int \<Rightarrow> string \<Rightarrow> string \<Rightarrow> string \<Rightarrow> db \<Rightarrow> note_row \<times> db" where
  "insert_note i author body now d =
     (let row = \<lparr>nt_id = last_note_id d + 1, nt_task_id = i, nt_author = author, nt_body = body,
                 nt_created_at = now\<rparr>
      in (row, d\<lparr>note_rows := note_rows d @ [row], last_note_id := last_note_id d + 1\<rparr>))"

definition post_note :: "int \<Rightarrow> string \<Rightarrow> string \<Rightarrow> string \<Rightarrow> note_row op" where
  "post_note i author body now =
     bind_op (query (find_task i))
       (\<lambda>r. if r = None then fail (NotFound (''task '' @ show_int i))
            else backend_only (update_rq (insert_note i author body now)))"

definition read_notes :: "int \<Rightarrow> int \<Rightarrow> note_row list op" where
  "read_notes i after =
     query (\<lambda>d. sort_key nt_id (filter (\<lambda>r. nt_task_id r = i \<and> after < nt_id r) (note_rows d)))"

section \<open>Appends that nobody disturbs\<close>

lemma fold_max: "fold max xs (a :: int) = Max (insert a (set xs))"
proof (induction xs arbitrary: a)
  case (Cons x xs)
  then show ?case by (cases xs) (simp_all add: max.commute max.left_commute)
qed simp

lemma max_seq_ge: "r \<in> set rows \<Longrightarrow> task r = i \<Longrightarrow> seq r \<le> max_seq task seq i rows"
proof -
  assume "r \<in> set rows" "task r = i"
  then have "seq r \<in> set (map seq (filter (\<lambda>r. task r = i) rows))" by auto
  then show ?thesis
    by (cases "map seq (filter (\<lambda>r. task r = i) rows)") (auto simp: max_seq_def fold_max)
qed

lemma max_seq_snoc:
  "max_seq task seq i (rows @ [r]) =
     (if task r = i then (if \<exists>x \<in> set rows. task x = i then max (max_seq task seq i rows) (seq r) else seq r)
      else max_seq task seq i rows)"
  by (cases "map seq (filter (\<lambda>r. task r = i) rows)")
    (auto simp: max_seq_def max.commute filter_empty_conv)

lemma calm_backend_only [calm_simps]:
  "backend_only (update_rq f) (calm d) = (Inr (fst (f d)), calm (snd (f d)))"
  by (simp add: backend_only_def calm_simps)

text \<open>The next number after the rows there are, given that no number of the task is negative.\<close>

lemma max_seq_snoc_next:
  assumes "\<forall>r \<in> set rows. 0 \<le> seq r" "task r = i" "seq r = max_seq task seq i rows + 1"
  shows "max_seq task seq i (rows @ [r]) = seq r"
proof (cases "\<exists>x \<in> set rows. task x = i")
  case True
  then show ?thesis using assms by (simp add: max_seq_snoc)
next
  case False
  then show ?thesis using assms by (simp add: max_seq_snoc)
qed

lemma max_seq_nonneg: "\<forall>r \<in> set rows. 0 \<le> seq r \<Longrightarrow> 0 \<le> max_seq task seq i rows"
proof (cases "\<exists>r \<in> set rows. task r = i")
  case True
  assume "\<forall>r \<in> set rows. 0 \<le> seq r"
  with True show ?thesis using max_seq_ge by (metis order_trans)
next
  case False
  then have "filter (\<lambda>r. task r = i) rows = []" by (auto simp: filter_empty_conv)
  then show ?thesis by (simp add: max_seq_def)
qed

section \<open>Numbering\<close>

definition lines_of :: "int \<Rightarrow> db \<Rightarrow> stream_line list" where
  "lines_of i d = filter (\<lambda>r. sl_task_id r = i) (task_streams d)"

text \<open>The lines of a task are numbered 1, 2, 3, and so on, in the order of insertion.\<close>

definition numbered :: "int \<Rightarrow> db \<Rightarrow> bool" where
  "numbered i d \<longleftrightarrow> map sl_seq (lines_of i d) = [1..int (length (lines_of i d))]"

lemma numbered_max:
  assumes "numbered i d"
  shows "max_seq sl_task_id sl_seq i (task_streams d) = int (length (lines_of i d))"
proof (cases "lines_of i d")
  case Nil
  then show ?thesis by (simp add: max_seq_def lines_of_def)
next
  case (Cons l ls)
  let ?n = "int (length (lines_of i d))"
  have m: "map sl_seq (filter (\<lambda>r. sl_task_id r = i) (task_streams d)) = [1..?n]"
    using assms by (simp add: numbered_def lines_of_def)
  obtain s ss where s: "[1..?n] = s # ss" using Cons by (cases "[1..?n]") auto
  have "insert s (set ss) = {1..?n}" using s by (metis list.simps(15) set_upto)
  moreover have "Max {1..?n} = ?n" using Cons by (intro Max_eqI) auto
  ultimately show ?thesis by (simp add: max_seq_def m s fold_max)
qed

lemma lines_of_insert:
  "lines_of i (snd (insert_line j s ch l now d)) =
     lines_of i d @ (if j = i then [fst (insert_line j s ch l now d)] else [])"
  by (simp add: lines_of_def insert_line_def Let_def)

lemma sl_seq_insert: "sl_seq (fst (insert_line j s ch l now d)) = s"
  "sl_channel (fst (insert_line j s ch l now d)) = ch" "sl_line (fst (insert_line j s ch l now d)) = l"
  by (simp_all add: insert_line_def Let_def)

lemma numbered_insert:
  assumes "numbered i d" "s = int (length (lines_of j d)) + 1"
  shows "numbered i (snd (insert_line j s ch l now d))"
proof (cases "j = i")
  case True
  have "[1..int (length (lines_of i d)) + 1] = [1..int (length (lines_of i d))] @ [int (length (lines_of i d)) + 1]"
    by (rule upto_rec2 [of 1, where j = "int (length (lines_of i d)) + 1", simplified])
  then show ?thesis
    using assms True by (simp add: numbered_def lines_of_insert sl_seq_insert add.commute)
qed (use assms in \<open>simp add: numbered_def lines_of_insert\<close>)

lemma append_lines_calm:
  assumes "s = int (length (lines_of j d))"
  shows "\<exists>rs d'. append_lines j s entries now (calm d) = (Inr rs, calm d')
    \<and> map sl_seq rs = [s + 1..s + int (length entries)]
    \<and> map (\<lambda>r. (sl_channel r, sl_line r)) rs = entries
    \<and> lines_of j d' = lines_of j d @ rs
    \<and> (\<forall>i. numbered i d \<longrightarrow> numbered i d')"
  using assms
proof (induction entries arbitrary: s d)
  case Nil
  then show ?case by (simp add: ret_def)
next
  case (Cons e entries)
  obtain ch l where e: "e = (ch, l)" by fastforce
  let ?i = "insert_line j (s + 1) ch l now d"
  have "s + 1 = int (length (lines_of j (snd ?i)))" using Cons.prems by (simp add: lines_of_insert)
  then obtain rs d' where ih: "append_lines j (s + 1) entries now (calm (snd ?i)) = (Inr rs, calm d')"
    "map sl_seq rs = [s + 1 + 1..s + 1 + int (length entries)]"
    "map (\<lambda>r. (sl_channel r, sl_line r)) rs = entries" "lines_of j d' = lines_of j (snd ?i) @ rs"
    "\<forall>i. numbered i (snd ?i) \<longrightarrow> numbered i d'"
    using Cons.IH by blast
  have "append_lines j s (e # entries) now (calm d) = (Inr (fst ?i # rs), calm d')"
    using ih(1) by (simp add: e calm_simps)
  moreover have "map sl_seq (fst ?i # rs) = [s + 1..s + int (length (e # entries))]"
    using ih(2) upto_rec1 [of "s + 1" "s + 1 + int (length entries)"]
    by (simp add: sl_seq_insert algebra_simps)
  moreover have "\<forall>i. numbered i d \<longrightarrow> numbered i d'"
    using ih(5) numbered_insert [of _ d "s + 1" j ch l now] Cons.prems by simp
  ultimately show ?case
    using ih(3,4) e by (auto simp: lines_of_insert sl_seq_insert)
qed

lemma owner_check_calm [calm_simps]:
  "owner_check i worker m (calm d) =
     (case find_task i d of
        None \<Rightarrow> (Inl (NotFound (''task '' @ show_int i)), calm d)
      | Some t \<Rightarrow> if t_worker_id t = Some worker then (Inr (), calm d) else (Inl (PermissionDenied m), calm d))"
  by (simp add: owner_check_def calm_simps split: option.splits)

text \<open>
  C20. Output lines sent by the owner of a task and not interleaved with other appends are stored once
  each, in order, under the next free numbers: numbers that were gap-free stay gap-free for every
  task. Anybody else is refused and nothing is stored.
\<close>

theorem stream_bulk_gap_free:
  assumes "numbered i d" and "entries \<noteq> []"
  shows "case find_task i d of
      None \<Rightarrow> append_stream_bulk i worker entries now (calm d) = (Inl (NotFound (''task '' @ show_int i)), calm d)
    | Some t \<Rightarrow>
        if t_worker_id t \<noteq> Some worker
        then append_stream_bulk i worker entries now (calm d) =
          (Inl (PermissionDenied ''worker mismatch on stream bulk append''), calm d)
        else \<exists>rs d'. append_stream_bulk i worker entries now (calm d) = (Inr rs, calm d')
          \<and> map (\<lambda>r. (sl_channel r, sl_line r)) rs = entries
          \<and> lines_of i d' = lines_of i d @ rs \<and> numbered i d'
          \<and> map sl_seq rs = [int (length (lines_of i d)) + 1..int (length (lines_of i d) + length entries)]"
proof (cases "find_task i d")
  case None
  then show ?thesis using assms by (simp add: append_stream_bulk_def calm_simps)
next
  case (Some t)
  show ?thesis
  proof (cases "t_worker_id t = Some worker")
    case True
    have "append_stream_bulk i worker entries now (calm d) =
        append_lines i (int (length (lines_of i d))) entries now (calm d)"
      using True Some assms by (simp add: append_stream_bulk_def calm_simps numbered_max)
    then show ?thesis
      using append_lines_calm [OF refl, of i d entries now] True Some assms(1) by auto
  next
    case False
    then show ?thesis using Some assms(2) by (simp add: append_stream_bulk_def calm_simps)
  qed
qed

definition demo_task :: "int \<Rightarrow> string \<Rightarrow> task_row" where
  "demo_task i worker = claimed_row worker ''h'' ''n'' (new_task demo_params ''n'' i)"

definition demo_log :: db where
  "demo_log = empty_db\<lparr>tasks := [demo_task 1 ''w''], last_task_id := 1\<rparr>"

lemma find_demo_log: "find_task 1 demo_log = Some (demo_task 1 ''w'')" "t_worker_id (demo_task 1 ''w'') = Some ''w''"
  by (simp_all add: demo_log_def demo_task_def find_task_def first_row_def claimed_row_def new_task_def)

lemma numbered_demo: "numbered i demo_log"
  by (simp add: demo_log_def numbered_def lines_of_def empty_db_def)

lemma stream_bulk_gap_free_witness:
  "\<exists>rs d'. append_stream_bulk 1 ''w'' [(''stdout'', ''a''), (''stderr'', ''b'')] ''n'' (calm demo_log) = (Inr rs, calm d')
    \<and> map (\<lambda>r. (sl_channel r, sl_line r)) rs = [(''stdout'', ''a''), (''stderr'', ''b'')] \<and> numbered 1 d'"
  using stream_bulk_gap_free [OF numbered_demo, of "[(''stdout'', ''a''), (''stderr'', ''b'')]" 1 "''w''" "''n''"]
  by (auto simp: find_demo_log)

section \<open>The table as a source of numbers\<close>

text \<open>One insertion under the next number, or anything that leaves the table alone.\<close>

inductive log_step :: "db \<Rightarrow> (int \<times> nat) option \<Rightarrow> db \<Rightarrow> bool" where
  Line: "\<forall>r \<in> set (task_streams d). 0 \<le> sl_seq r \<Longrightarrow>
    s = max_seq sl_task_id sl_seq i (task_streams d) + 1 \<Longrightarrow>
    log_step d (Some (i, nat s)) (snd (insert_line i s ch l now d))"
| Quiet: "task_streams d' = task_streams d \<Longrightarrow> log_step d None d'"

inductive_cases log_stepE: "log_step d l d'"

interpretation stream_log: seq_source "\<lambda>d i. nat (max_seq sl_task_id sl_seq i (task_streams d))" log_step
proof unfold_locales
  fix d i n d'
  assume "log_step d (Some (i, n)) d'"
  then show "nat (max_seq sl_task_id sl_seq i (task_streams d)) < n \<and>
      nat (max_seq sl_task_id sl_seq i (task_streams d')) = n"
  proof cases
    case (Line s ch l now)
    then show ?thesis
      using max_seq_nonneg [of "task_streams d" sl_seq sl_task_id i]
      by (simp add: insert_line_def Let_def max_seq_snoc_next)
  qed
next
  fix d l d' j
  assume "log_step d l d'"
  then show "nat (max_seq sl_task_id sl_seq j (task_streams d)) \<le> nat (max_seq sl_task_id sl_seq j (task_streams d'))"
    by cases (auto simp: insert_line_def Let_def max_seq_snoc dest: max_seq_ge)
qed

text \<open>An append that nobody disturbs is such a step, under the number it answers with.\<close>

lemma append_stream_step:
  assumes "append_stream i worker ch l now (calm d) = (Inr r, w')"
    and "\<forall>r \<in> set (task_streams d). 0 \<le> sl_seq r"
  shows "\<exists>d'. w' = calm d' \<and> log_step d (Some (i, nat (sl_seq r))) d'"
proof -
  let ?i = "insert_line i (max_seq sl_task_id sl_seq i (task_streams d) + 1) ch l now d"
  have "r = fst ?i" "w' = calm (snd ?i)"
    using assms(1) by (auto simp: append_stream_def calm_simps split: option.splits if_splits)
  then show ?thesis using Line [OF assms(2) refl, of i ch l now] by (auto simp: sl_seq_insert)
qed

text \<open>
  Along any run of appends that are not interleaved, and of other steps, the numbers a task's lines
  get strictly increase.
\<close>

lemma stream_numbers_increase:
  assumes "trace_run log_step d ls d'"
  shows "sorted_wrt (<) (issued_for i ls)"
  using stream_log.issued_increasing [OF assms] .

lemma stream_numbers_increase_witness:
  "sorted_wrt (<) (issued_for 1 [Some (1, 1), None, Some (1 :: int, 2)])"
proof (rule stream_numbers_increase)
  let ?a = "snd (insert_line 1 1 ''stdout'' ''x'' ''n'' demo_log)"
  have "log_step demo_log (Some (1, nat 1)) ?a"
    by (rule Line) (simp_all add: demo_log_def empty_db_def max_seq_def)
  moreover have "log_step ?a (Some (1, nat 2)) (snd (insert_line 1 2 ''stdout'' ''y'' ''n'' ?a))"
    by (rule Line) (simp_all add: demo_log_def empty_db_def max_seq_def insert_line_def Let_def)
  moreover have "log_step ?a None ?a" by (rule Quiet) simp
  ultimately show "trace_run log_step demo_log [Some (1, 1), None, Some (1, 2)]
      (snd (insert_line 1 2 ''stdout'' ''y'' ''n'' ?a))"
    by auto
qed

text \<open>
  Interleaved appends collide: nothing makes the pair of task and number unique, so when another
  append of the task lands between our reading of the maximum and our insertion, both succeed and two
  lines carry the same number.
\<close>

lemma stream_append_race:
  assumes "find_task i d = Some t" "t_worker_id t = Some worker"
  shows "\<exists>r w'. append_stream i worker ch l now
      \<lparr>db = d, script =
        [\<lparr>turn_env = id, turn_reply = Answered\<rparr>, \<lparr>turn_env = id, turn_reply = Answered\<rparr>,
         \<lparr>turn_env = \<lambda>d. snd (insert_line i (max_seq sl_task_id sl_seq i (task_streams d) + 1) ch' l' now' d),
          turn_reply = Answered\<rparr>]\<rparr> = (Inr r, w')
    \<and> (\<exists>other. lines_of i (db w') = lines_of i d @ [other, r] \<and> sl_seq other = sl_seq r \<and> sl_line other = l')"
  using assms
  by (simp add: append_stream_def owner_check_def backend_only_def monad_simps query_def query_rq_def
      update_rq_def lift_rq_def statement_def next_turn_def lines_of_def insert_line_def Let_def)

section \<open>Reading page by page\<close>

text \<open>A reader that asks again from the last number it saw, until a page comes back empty.\<close>

fun read_pages :: "nat \<Rightarrow> int \<Rightarrow> int \<Rightarrow> int \<Rightarrow> db \<Rightarrow> stream_line list" where
  "read_pages 0 i after limit d = []"
| "read_pages (Suc fuel) i after limit d =
     (let page = lines_since i after limit d
      in if page = [] then [] else page @ read_pages fuel i (sl_seq (last page)) limit d)"

lemma filter_numbered:
  "map sl_seq rows = [b + 1..b + int (length rows)] \<Longrightarrow> b \<le> a \<Longrightarrow>
     filter (\<lambda>r. a < sl_seq r) rows = drop (nat (a - b)) rows"
proof (induction rows arbitrary: b)
  case (Cons r rows)
  have s: "[b + 1..b + int (length (r # rows))] = (b + 1) # [b + 1 + 1..b + 1 + int (length rows)]"
    using upto_rec1 [of "b + 1" "b + 1 + int (length rows)"] by (simp add: algebra_simps)
  then have r: "sl_seq r = b + 1" and rest: "map sl_seq rows = [b + 1 + 1..b + 1 + int (length rows)]"
    using Cons.prems(1) by simp_all
  show ?case
  proof (cases "a = b")
    case True
    then have "\<forall>x \<in> set rows. a < sl_seq x"
      using rest by (metis (no_types, lifting) add_less_cancel_left atLeastAtMost_iff imageI list.set_map
          set_upto zless_add1_eq zle_add1_eq_le add.assoc order_less_le_trans less_add_one)
    then show ?thesis using True r by (simp add: filter_id_conv)
  next
    case False
    then have "nat (a - b) = Suc (nat (a - (b + 1)))" using Cons.prems(2) by simp
    then show ?thesis using Cons.IH [OF rest] False Cons.prems(2) r by simp
  qed
qed simp

lemma lines_since_numbered:
  assumes "numbered i d" "0 \<le> a" "0 \<le> limit"
  shows "lines_since i a limit d = take (nat limit) (drop (nat a) (lines_of i d))"
proof -
  have seqs: "map sl_seq (lines_of i d) = [0 + 1..0 + int (length (lines_of i d))]"
    using assms(1) by (simp add: numbered_def)
  have "filter (\<lambda>r. sl_task_id r = i \<and> a < sl_seq r) (task_streams d) = filter (\<lambda>r. a < sl_seq r) (lines_of i d)"
    by (simp add: lines_of_def conj_commute)
  also have "\<dots> = drop (nat a) (lines_of i d)"
    using filter_numbered [OF seqs assms(2)] by simp
  finally have f: "filter (\<lambda>r. sl_task_id r = i \<and> a < sl_seq r) (task_streams d) = drop (nat a) (lines_of i d)" .
  have "sorted (map sl_seq (drop (nat a) (lines_of i d)))"
    using assms(1) by (simp add: numbered_def drop_map [symmetric] sorted_wrt_drop)
  then show ?thesis using f assms(3) by (simp add: lines_since_def sort_key_id_if_sorted sql_limit_def)
qed

lemma read_pages_from:
  assumes "numbered i d" "1 \<le> limit"
  shows "a \<le> length (lines_of i d) \<Longrightarrow> length (lines_of i d) < a + fuel \<Longrightarrow>
    read_pages fuel i (int a) limit d = drop a (lines_of i d)"
proof (induction fuel arbitrary: a)
  case (Suc fuel)
  let ?L = "lines_of i d"
  let ?page = "take (nat limit) (drop a ?L)"
  have page: "lines_since i (int a) limit d = ?page"
    using lines_since_numbered [OF assms(1), of "int a" limit] assms(2) by simp
  show ?case
  proof (cases "a = length ?L")
    case True
    then show ?thesis using page by (simp add: Let_def)
  next
    case False
    then have lt: "a < length ?L" using Suc.prems(1) by simp
    let ?b = "min (length ?L) (a + nat limit)"
    have ne: "?page \<noteq> []" using lt assms(2) by simp
    have len: "length ?page = ?b - a" using lt by simp
    have b: "a < ?b" "?b \<le> length ?L" using lt assms(2) by auto
    have "?page ! (?b - Suc a) = ?L ! (a + (?b - Suc a))"
      using b by (subst nth_take) auto
    moreover have "a + (?b - Suc a) = ?b - 1" using b(1) by linarith
    moreover have "last ?page = ?page ! (?b - Suc a)"
      using last_conv_nth [OF ne] len by (metis diff_diff_left plus_1_eq_Suc add.commute)
    ultimately have "last ?page = ?L ! (?b - 1)" by metis
    moreover have "sl_seq (?L ! (?b - 1)) = int ?b"
    proof -
      have "map sl_seq ?L ! (?b - 1) = [1..int (length ?L)] ! (?b - 1)"
        using assms(1) by (simp add: numbered_def)
      then show ?thesis using b by (simp add: nth_upto)
    qed
    ultimately have "sl_seq (last ?page) = int ?b" by simp
    moreover have "read_pages fuel i (int ?b) limit d = drop ?b ?L"
      by (rule Suc.IH) (use b Suc.prems in auto)
    moreover have "?page @ drop ?b ?L = drop a ?L"
    proof (cases "a + nat limit \<le> length ?L")
      case True
      then have "drop ?b ?L = drop (nat limit) (drop a ?L)" by (simp add: add.commute)
      then show ?thesis by (simp del: drop_drop)
    qed simp
    ultimately show ?thesis using ne by (simp add: page Let_def)
  qed
qed simp

text \<open>
  C35. A reader that keeps asking from the last number it has seen gets every line of a task exactly
  once and in order, with any page size, and stops: one request more than there are lines is enough. The
  lines must be numbered from one without gaps or repetitions (\<open>numbered\<close>), as appends of one
  writer at a time leave them (\<open>stream_bulk_gap_free\<close>); two concurrent appends can give two lines the
  same number (\<open>stream_append_race\<close>), and a reader whose page ends between them misses one.
\<close>

theorem paging_reads_every_line:
  assumes "numbered i d" "1 \<le> limit" "length (lines_of i d) < fuel"
  shows "read_pages fuel i 0 limit d = lines_of i d"
  using read_pages_from [OF assms(1,2), of 0 fuel] assms(3) by simp

lemma paging_reads_every_line_witness:
  "read_pages 3 1 0 1 (snd (insert_line 1 1 ''stdout'' ''x'' ''n'' demo_log)) =
     [fst (insert_line 1 1 ''stdout'' ''x'' ''n'' demo_log)]"
proof -
  let ?d = "snd (insert_line 1 1 ''stdout'' ''x'' ''n'' demo_log)"
  have l: "lines_of 1 demo_log = []" by (simp add: demo_log_def empty_db_def lines_of_def)
  have "numbered 1 ?d" by (rule numbered_insert) (simp_all add: numbered_demo l)
  from paging_reads_every_line [OF this, of 1 3] show ?thesis by (simp add: lines_of_insert l)
qed

text \<open>
  A progress entry is stored with the files it names, but the entry the caller gets back names none.
\<close>

lemma progress_answer_drops_files:
  assumes "find_task i d = Some t" "t_worker_id t = Some worker"
  shows "\<exists>e d'. append_progress i worker m files now (calm d) = (Inr e, calm d')
    \<and> pg_files_touched e = [] \<and> progress d' = progress d @ [e\<lparr>pg_files_touched := opt_default [] files\<rparr>]"
  using assms
  by (simp add: append_progress_def calm_simps insert_progress_def)

lemma stream_append_race_witness:
  "\<exists>r w'. append_stream 1 ''w'' ''stdout'' ''x'' ''n''
      \<lparr>db = demo_log, script =
        [\<lparr>turn_env = id, turn_reply = Answered\<rparr>, \<lparr>turn_env = id, turn_reply = Answered\<rparr>,
         \<lparr>turn_env = \<lambda>d. snd (insert_line 1 (max_seq sl_task_id sl_seq 1 (task_streams d) + 1) ''stdout'' ''y'' ''n'' d),
          turn_reply = Answered\<rparr>]\<rparr> = (Inr r, w')
    \<and> (\<exists>other. lines_of 1 (db w') = lines_of 1 demo_log @ [other, r] \<and> sl_seq other = sl_seq r \<and> sl_line other = ''y'')"
  by (rule stream_append_race [OF find_demo_log])

lemma progress_answer_drops_files_witness:
  "\<exists>e d'. append_progress 1 ''w'' ''m'' (Some [''f'']) ''n'' (calm demo_log) = (Inr e, calm d')
    \<and> pg_files_touched e = [] \<and> progress d' = progress demo_log @ [e\<lparr>pg_files_touched := [''f'']\<rparr>]"
  using progress_answer_drops_files [OF find_demo_log, of "''m''" "Some [''f'']" "''n''"] by simp

end
