(* ===== verification/StoreGuards.thy ===== *)
theory StoreGuards
  imports StoreCore Interfaces "HOL-Library.Product_Lexorder"
begin

text \<open>
  Approvals, secrets, labels, host roles and role tokens in the rqlite backend
  (\<^verbatim>\<open>impl ApprovalStore\<close>, \<^verbatim>\<open>SecretStore\<close>, \<^verbatim>\<open>LabelStore\<close>, \<^verbatim>\<open>HostRoleStore\<close>, \<^verbatim>\<open>RoleTokenStore\<close> of
  \<^verbatim>\<open>crates/fabric-store-rqlite/src/lib.rs\<close>). A secret's value is the encrypted envelope; a hash map
  of results is the list of its insertions. The approval ids, which the code hashes from the
  nanosecond clock and the thread, are an argument.
\<close>

section \<open>Approvals\<close>

definition find_approval :: "string \<Rightarrow> db \<Rightarrow> approval_row option" where
  "find_approval i d = first_row (\<lambda>a. ap_approval_id a = i) (approvals d)"

definition insert_approval :: "approval_row \<Rightarrow> db \<Rightarrow> (string, nat) res \<times> db" where
  "insert_approval a d =
     (if list_ex (\<lambda>b. ap_approval_id b = ap_approval_id a) (approvals d)
      then (Inl ''UNIQUE constraint failed: approvals.approval_id'', d)
      else (Inr 1, d\<lparr>approvals := approvals d @ [a]\<rparr>))"

definition create_or_get_pending_approval ::
    "string \<Rightarrow> string \<Rightarrow> jv \<Rightarrow> string \<Rightarrow> string option \<Rightarrow> string list \<Rightarrow> string option \<Rightarrow> string
     \<Rightarrow> (string \<times> bool) op" where
  "create_or_get_pending_approval new_id envelope decision label branch scopes dispatcher now =
     bind_op (query (\<lambda>d. first_row (\<lambda>a. ap_envelope_hash a = envelope \<and> ap_status a = ''pending'')
                (approvals d)))
       (\<lambda>r. case r of
          Some a \<Rightarrow> ret (ap_approval_id a, False)
        | None \<Rightarrow>
            bind_op (try_db (insert_approval
                \<lparr>ap_approval_id = new_id, ap_envelope_hash = envelope, ap_status = ''pending'',
                 ap_decision = decision, ap_task_label = Some label, ap_branch = branch,
                 ap_scope_globs = scopes, ap_dispatcher_id = dispatcher, ap_approver = None,
                 ap_reason = None, ap_created_at = now, ap_resolved_at = None\<rparr>))
              (\<lambda>_. ret (new_id, True)))"

definition edit_approvals ::
    "(approval_row \<Rightarrow> bool) \<Rightarrow> (approval_row \<Rightarrow> approval_row) \<Rightarrow> db \<Rightarrow> nat \<times> db" where
  "edit_approvals P f d = (affected P (approvals d), d\<lparr>approvals := update_where P f (approvals d)\<rparr>)"

definition consume_stmt :: "string \<Rightarrow> string \<Rightarrow> db \<Rightarrow> nat \<times> db" where
  "consume_stmt i envelope =
     edit_approvals (\<lambda>a. ap_approval_id a = i \<and> ap_envelope_hash a = envelope \<and> ap_status a = ''approved'')
       (\<lambda>a. a\<lparr>ap_status := ''consumed''\<rparr>)"

definition consume_approval :: "string \<Rightarrow> string \<Rightarrow> bool op" where
  "consume_approval i envelope = bind_op (update_db (consume_stmt i envelope)) (\<lambda>n. ret (0 < n))"

definition resolve_stmt ::
    "string \<Rightarrow> string \<Rightarrow> string option \<Rightarrow> string option \<Rightarrow> string \<Rightarrow> db \<Rightarrow> nat \<times> db" where
  "resolve_stmt i status approver reason now =
     edit_approvals (\<lambda>a. ap_approval_id a = i \<and> ap_status a = ''pending'')
       (\<lambda>a. a\<lparr>ap_status := status, ap_approver := approver, ap_reason := reason,
              ap_resolved_at := Some now\<rparr>)"

definition resolve_approval ::
    "string \<Rightarrow> string \<Rightarrow> string option \<Rightarrow> string option \<Rightarrow> string \<Rightarrow> approval_row op" where
  "resolve_approval i status approver reason now =
     bind_op (update_db (resolve_stmt i status approver reason now))
       (\<lambda>n. bind_op (query (find_approval i))
          (\<lambda>r. if n = 0
               then (case r of
                       None \<Rightarrow> fail (NotFound (''approval '' @ i))
                     | Some a \<Rightarrow> fail (Conflict (''approval already resolved: status='' @ ap_status a)))
               else (case r of
                       Some a \<Rightarrow> ret a
                     | None \<Rightarrow> fail (NotFound (''approval '' @ i)))))"

definition newest_first :: "('r \<Rightarrow> string) \<Rightarrow> 'r list \<Rightarrow> 'r list" where
  "newest_first f rows = rev (sort_key f (rev rows))"

definition list_approvals :: "string option \<Rightarrow> int \<Rightarrow> approval_row list op" where
  "list_approvals status limit =
     query (\<lambda>d. sql_limit limit (newest_first ap_created_at
       (case status of
          Some s \<Rightarrow> filter (\<lambda>a. ap_status a = s) (approvals d)
        | None \<Rightarrow> approvals d)))"

definition get_approval :: "string \<Rightarrow> approval_row option op" where
  "get_approval i = query (find_approval i)"

section \<open>Secrets\<close>

definition find_secret :: "string \<Rightarrow> db \<Rightarrow> secret_row option" where
  "find_secret name d = first_row (\<lambda>s. s_name s = name) (secrets d)"

definition put_stmt :: "string \<Rightarrow> string \<Rightarrow> string \<Rightarrow> db \<Rightarrow> nat \<times> db" where
  "put_stmt name envelope now d =
     (1, d\<lparr>secrets := upsert_row (\<lambda>s. s_name s = name)
             (\<lambda>s. s\<lparr>s_encrypted_value := envelope, s_created_at := now\<rparr>)
             \<lparr>s_name = name, s_encrypted_value = envelope, s_version = 1, s_created_at = now,
              s_last_rotated_at = None\<rparr> (secrets d)\<rparr>)"

text \<open>The metadata the callers get is the row without its value.\<close>

definition secret_metadata :: "secret_row \<Rightarrow> secret_row" where
  "secret_metadata s = s\<lparr>s_encrypted_value := ''''\<rparr>"

definition secret_or :: "string \<Rightarrow> string \<Rightarrow> secret_row op" where
  "secret_or name message =
     bind_op (query (find_secret name))
       (\<lambda>r. case r of Some s \<Rightarrow> ret (secret_metadata s) | None \<Rightarrow> fail (Backend message))"

definition put_secret :: "string \<Rightarrow> string \<Rightarrow> string \<Rightarrow> secret_row op" where
  "put_secret name envelope now =
     bind_op (update_db (put_stmt name envelope now))
       (\<lambda>_. secret_or name ''secret not found after insert'')"

definition rotate_stmt :: "string \<Rightarrow> string \<Rightarrow> string \<Rightarrow> db \<Rightarrow> nat \<times> db" where
  "rotate_stmt name envelope now d =
     (affected (\<lambda>s. s_name s = name) (secrets d),
      d\<lparr>secrets := update_where (\<lambda>s. s_name s = name)
          (\<lambda>s. s\<lparr>s_encrypted_value := envelope, s_version := s_version s + 1,
                 s_last_rotated_at := Some now\<rparr>) (secrets d)\<rparr>)"

definition rotate_secret :: "string \<Rightarrow> string \<Rightarrow> string \<Rightarrow> secret_row op" where
  "rotate_secret name envelope now =
     bind_op (update_db (rotate_stmt name envelope now))
       (\<lambda>n. if n = 0 then fail (NotFound (''secret '' @ name))
            else secret_or name ''secret not found after update'')"

definition list_secrets :: "secret_row list op" where
  "list_secrets = query (\<lambda>d. map secret_metadata (sort_key s_name (secrets d)))"

fun secret_envelopes :: "string list \<Rightarrow> (string \<times> string) list op" where
  "secret_envelopes [] = ret []"
| "secret_envelopes (name # names) =
     bind_op (query (\<lambda>d. map_option s_encrypted_value (find_secret name d)))
       (\<lambda>v. bind_op (secret_envelopes names)
          (\<lambda>out. ret (case v of Some e \<Rightarrow> (name, e) # out | None \<Rightarrow> out)))"

definition all_secret_envelopes :: "(string \<times> string) list op" where
  "all_secret_envelopes =
     query (\<lambda>d. map (\<lambda>s. (s_name s, s_encrypted_value s)) (sort_key s_name (secrets d)))"

definition delete_secret :: "string \<Rightarrow> bool op" where
  "delete_secret name =
     bind_op (update_db (\<lambda>d. (affected (\<lambda>s. s_name s = name) (secrets d),
                d\<lparr>secrets := delete_where (\<lambda>s. s_name s = name) (secrets d)\<rparr>)))
       (\<lambda>n. ret (0 < n))"

section \<open>Labels\<close>

definition label_stmt :: "string \<Rightarrow> string \<Rightarrow> string option \<Rightarrow> string \<Rightarrow> db \<Rightarrow> nat \<times> db" where
  "label_stmt key value by now d =
     (if value = [] then
        (affected (\<lambda>l. lb_key l = key) (labels d),
         d\<lparr>labels := delete_where (\<lambda>l. lb_key l = key) (labels d)\<rparr>)
      else
        (1, d\<lparr>labels := upsert_row (\<lambda>l. lb_key l = key)
                (\<lambda>l. l\<lparr>lb_value := value, lb_updated_by := by, lb_updated_at := now\<rparr>)
                \<lparr>lb_key = key, lb_value = value, lb_updated_by = by, lb_updated_at = now\<rparr> (labels d)\<rparr>))"

definition upsert_label :: "string \<Rightarrow> string \<Rightarrow> string option \<Rightarrow> string \<Rightarrow> unit op" where
  "upsert_label key value by now = bind_op (update_db (label_stmt key value by now)) (\<lambda>_. ret ())"

definition set_hub_name :: "string \<Rightarrow> string option \<Rightarrow> string \<Rightarrow> unit op" where
  "set_hub_name name by now = upsert_label ''hub_name'' name by now"

definition set_runner_alias :: "string \<Rightarrow> string \<Rightarrow> string option \<Rightarrow> string \<Rightarrow> unit op" where
  "set_runner_alias i alias by now = upsert_label (''runner_alias:'' @ i) alias by now"

definition set_host_alias :: "string \<Rightarrow> string \<Rightarrow> string option \<Rightarrow> string \<Rightarrow> unit op" where
  "set_host_alias host alias by now = upsert_label (''host_alias:'' @ host) alias by now"

record label_view =
  lv_hub_name :: string
  lv_runner_aliases :: "(string \<times> string) list"
  lv_host_aliases :: "(string \<times> string) list"

definition view_label :: "label_row \<Rightarrow> label_view \<Rightarrow> label_view" where
  "view_label l v =
     (if lb_key l = ''hub_name'' then v\<lparr>lv_hub_name := lb_value l\<rparr>
      else case strip_prefix ''runner_alias:'' (lb_key l) of
        Some i \<Rightarrow> v\<lparr>lv_runner_aliases := lv_runner_aliases v @ [(i, lb_value l)]\<rparr>
      | None \<Rightarrow> (case strip_prefix ''host_alias:'' (lb_key l) of
            Some h \<Rightarrow> v\<lparr>lv_host_aliases := lv_host_aliases v @ [(h, lb_value l)]\<rparr>
          | None \<Rightarrow> v))"

definition get_labels :: "label_view op" where
  "get_labels =
     query (\<lambda>d. fold view_label (labels d)
        \<lparr>lv_hub_name = '''', lv_runner_aliases = [], lv_host_aliases = []\<rparr>)"

section \<open>Host roles\<close>

definition find_host_role :: "string \<Rightarrow> string \<Rightarrow> db \<Rightarrow> host_role_row option" where
  "find_host_role host role d = first_row (\<lambda>r. hr_hostname r = host \<and> hr_role r = role) (host_roles d)"

definition host_role_stmt ::
    "string \<Rightarrow> string \<Rightarrow> bool \<Rightarrow> string option \<Rightarrow> jv \<Rightarrow> string \<Rightarrow> db \<Rightarrow> nat \<times> db" where
  "host_role_stmt host role enabled status metadata now d =
     (1, d\<lparr>host_roles := upsert_row (\<lambda>r. hr_hostname r = host \<and> hr_role r = role)
             (\<lambda>r. r\<lparr>hr_enabled := enabled, hr_status := status, hr_metadata := metadata,
                    hr_updated_at := now\<rparr>)
             \<lparr>hr_hostname = host, hr_role = role, hr_enabled = enabled, hr_status = status,
              hr_metadata = metadata, hr_updated_at = now\<rparr> (host_roles d)\<rparr>)"

definition set_host_role ::
    "string \<Rightarrow> string \<Rightarrow> bool \<Rightarrow> string option \<Rightarrow> jv \<Rightarrow> string \<Rightarrow> host_role_row op" where
  "set_host_role host role enabled status metadata now =
     bind_op (update_db (host_role_stmt host role enabled status metadata now))
       (\<lambda>_. bind_op (query (find_host_role host role))
          (\<lambda>r. case r of Some x \<Rightarrow> ret x | None \<Rightarrow> fail (Backend ''host_role not found after upsert'')))"

definition get_host_role :: "string \<Rightarrow> string \<Rightarrow> host_role_row option op" where
  "get_host_role host role = query (find_host_role host role)"

definition list_host_roles :: "host_role_row list op" where
  "list_host_roles = query (\<lambda>d. sort_key (\<lambda>r. (hr_hostname r, hr_role r)) (host_roles d))"

section \<open>Role tokens\<close>

definition insert_token :: "role_token_row \<Rightarrow> db \<Rightarrow> (string, nat) res \<times> db" where
  "insert_token t d =
     (if list_ex (\<lambda>u. rt_token_id u = rt_token_id t) (role_tokens d)
      then (Inl ''UNIQUE constraint failed: role_tokens.token_id'', d)
      else if list_ex (\<lambda>u. rt_token_hash u = rt_token_hash t) (role_tokens d)
      then (Inl ''UNIQUE constraint failed: role_tokens.token_hash'', d)
      else (Inr 1, d\<lparr>role_tokens := role_tokens d @ [t]\<rparr>))"

definition find_token :: "string \<Rightarrow> db \<Rightarrow> role_token_row option" where
  "find_token i d = first_row (\<lambda>t. rt_token_id t = i) (role_tokens d)"

definition create_role_token ::
    "string \<Rightarrow> string \<Rightarrow> string \<Rightarrow> string list \<Rightarrow> string \<Rightarrow> bool \<Rightarrow> string \<Rightarrow> role_token_row op" where
  "create_role_token i hash label roles by migrated now =
     catch_rq (statement (insert_token
         \<lparr>rt_token_id = i, rt_token_hash = hash, rt_label = label, rt_roles = roles,
          rt_created_at = now, rt_created_by = by, rt_migrated = migrated, rt_revoked_at = None\<rparr>))
       (\<lambda>r. case r of
          Inl e \<Rightarrow>
            fail (case e of
                    StatusError s body \<Rightarrow>
                      if contains_str ''UNIQUE constraint'' body
                      then Conflict ''role token id or credential already exists''
                      else store_error_of e
                  | _ \<Rightarrow> store_error_of e)
        | Inr _ \<Rightarrow>
            bind_op (query (find_token i))
              (\<lambda>t. case t of Some x \<Rightarrow> ret x | None \<Rightarrow> fail (Backend ''role token missing after insert'')))"

definition role_token_by_hash :: "string \<Rightarrow> role_token_row option op" where
  "role_token_by_hash hash =
     query (\<lambda>d. first_row (\<lambda>t. rt_token_hash t = hash \<and> rt_revoked_at t = None) (role_tokens d))"

definition list_role_tokens :: "bool \<Rightarrow> role_token_row list op" where
  "list_role_tokens include_revoked =
     query (\<lambda>d. sort_key (\<lambda>t. (rt_created_at t, rt_token_id t))
       (if include_revoked then role_tokens d else filter (\<lambda>t. rt_revoked_at t = None) (role_tokens d)))"

definition revoke_stmt :: "string \<Rightarrow> string \<Rightarrow> db \<Rightarrow> nat \<times> db" where
  "revoke_stmt i now d =
     (affected (\<lambda>t. rt_token_id t = i \<and> rt_revoked_at t = None) (role_tokens d),
      d\<lparr>role_tokens := update_where (\<lambda>t. rt_token_id t = i \<and> rt_revoked_at t = None)
          (\<lambda>t. t\<lparr>rt_revoked_at := Some now\<rparr>) (role_tokens d)\<rparr>)"

definition revoke_role_token :: "string \<Rightarrow> string \<Rightarrow> role_token_row option op" where
  "revoke_role_token i now =
     bind_op (update_db (revoke_stmt i now))
       (\<lambda>n. if n = 0 then ret None else query (find_token i))"

section \<open>Approvals are consumed once\<close>

text \<open>What one statement can do to the approvals table.\<close>

inductive approval_stmt :: "db \<Rightarrow> db \<Rightarrow> bool" where
  Open: "insert_approval a d = (Inr n, d') \<Longrightarrow> ap_status a = ''pending'' \<Longrightarrow> approval_stmt d d'"
| Resolve: "status \<in> {''approved'', ''denied''} \<Longrightarrow>
    approval_stmt d (snd (resolve_stmt i status approver reason now d))"
| Consume: "approval_stmt d (snd (consume_stmt i envelope d))"
| Elsewhere: "approvals d' = approvals d \<Longrightarrow> approval_stmt d d'"

inductive_cases approval_stmtE: "approval_stmt d d'"

text \<open>The approval has been used, for good.\<close>

definition spent :: "string \<Rightarrow> db \<Rightarrow> bool" where
  "spent i d \<longleftrightarrow> (\<exists>a \<in> set (approvals d). ap_approval_id a = i)
     \<and> (\<forall>a \<in> set (approvals d). ap_approval_id a = i \<longrightarrow> ap_status a \<noteq> ''approved'' \<and> ap_status a \<noteq> ''pending'')"

lemma spent_update:
  assumes "spent i d" "\<And>a. P a \<Longrightarrow> ap_approval_id (f a) = ap_approval_id a"
    and "\<And>a. P a \<Longrightarrow> ap_status a = ''pending'' \<or> ap_status a = ''approved''"
  shows "spent i (snd (edit_approvals P f d))"
proof -
  have untouched: "\<not> P a" if "a \<in> set (approvals d)" "ap_approval_id a = i" for a
    using assms(1,3) that by (auto simp: spent_def)
  from assms(1) obtain a where a: "a \<in> set (approvals d)" "ap_approval_id a = i"
    by (auto simp: spent_def)
  have "a \<in> set (update_where P f (approvals d))"
    using a untouched by (force simp: update_where_def)
  moreover have "ap_status b \<noteq> ''approved'' \<and> ap_status b \<noteq> ''pending''"
    if "b \<in> set (update_where P f (approvals d))" "ap_approval_id b = i" for b
    using set_update_where [OF that(1)] that(2) assms(1,2) untouched by (auto simp: spent_def)
  ultimately show ?thesis using a(2) by (auto simp: spent_def edit_approvals_def)
qed

definition approvals_unique :: "db \<Rightarrow> bool" where
  "approvals_unique d \<longleftrightarrow> distinct (map ap_approval_id (approvals d))"

lemma approvals_unique_edit:
  "(\<And>a. P a \<Longrightarrow> ap_approval_id (f a) = ap_approval_id a) \<Longrightarrow>
     approvals_unique d \<Longrightarrow> approvals_unique (snd (edit_approvals P f d))"
  by (simp add: approvals_unique_def edit_approvals_def map_update_where)

text \<open>Every statement adds one pending approval under a new id, or edits rows that are not used up.\<close>

lemma approval_stmt_forms:
  assumes "approval_stmt d d'"
  obtains a where "approvals d' = approvals d @ [a]" "ap_status a = ''pending''"
      "\<forall>b \<in> set (approvals d). ap_approval_id b \<noteq> ap_approval_id a"
    | P f where "approvals d' = approvals (snd (edit_approvals P f d))"
      "\<And>a. P a \<Longrightarrow> ap_approval_id (f a) = ap_approval_id a"
      "\<And>a. P a \<Longrightarrow> ap_status a = ''pending'' \<or> ap_status a = ''approved''"
    | "approvals d' = approvals d"
  using assms
proof cases
  case (Open a n)
  then show thesis using that(1) by (auto simp: insert_approval_def list_ex_iff split: if_splits)
next
  case (Resolve status i approver reason now)
  then show thesis using that(2) [OF arg_cong [of _ _ approvals, OF Resolve(1) [unfolded resolve_stmt_def]]] by auto
next
  case (Consume i envelope)
  then show thesis using that(2) [OF arg_cong [of _ _ approvals, OF Consume [unfolded consume_stmt_def]]] by auto
next
  case Elsewhere
  then show thesis by (rule that(3))
qed

lemma approvals_unique_step:
  assumes "approvals_unique d" "approval_stmt d d'"
  shows "approvals_unique d'"
  using assms(2)
proof (cases rule: approval_stmt_forms)
  case (2 P f)
  then show ?thesis
    using approvals_unique_edit [of P f d] assms(1) by (simp add: approvals_unique_def)
qed (use assms(1) in \<open>auto simp: approvals_unique_def\<close>)

lemma spent_step:
  assumes "spent i d" "approval_stmt d d'"
  shows "spent i d'"
  using assms(2)
proof (cases rule: approval_stmt_forms)
  case (2 P f)
  then show ?thesis using spent_update [OF assms(1), of P f] by (simp add: spent_def)
qed (use assms(1) in \<open>auto simp: spent_def\<close>)

lemma consume_spends:
  assumes "approvals_unique d" "fst (consume_stmt i envelope d) \<noteq> 0"
  shows "spent i (snd (consume_stmt i envelope d))"
proof -
  let ?P = "\<lambda>a. ap_approval_id a = i \<and> ap_envelope_hash a = envelope \<and> ap_status a = ''approved''"
  let ?f = "\<lambda>a. a\<lparr>ap_status := ''consumed''\<rparr>"
  from assms(2) obtain a where a: "a \<in> set (approvals d)" "?P a"
    by (auto simp: consume_stmt_def edit_approvals_def affected_0_iff)
  have only: "b = a" if "b \<in> set (approvals d)" "ap_approval_id b = i" for b
    using distinct_keyD [of ap_approval_id "approvals d" b a] assms(1) that a
    by (simp add: approvals_unique_def)
  have appr: "approvals (snd (consume_stmt i envelope d)) = update_where ?P ?f (approvals d)"
    by (simp add: consume_stmt_def edit_approvals_def)
  have all: "ap_status b \<noteq> ''approved'' \<and> ap_status b \<noteq> ''pending''"
    if b: "b \<in> set (update_where ?P ?f (approvals d))" "ap_approval_id b = i" for b
  proof -
    from set_update_where [OF b(1)] consider
        "b \<in> set (approvals d)" "\<not> ?P b" | c where "b = ?f c" by blast
    then show ?thesis
    proof cases
      case 1
      then show ?thesis using only [OF 1(1) b(2)] a(2) by simp
    qed simp
  qed
  have "?f a \<in> set (update_where ?P ?f (approvals d))"
    using a by (force simp: update_where_def)
  moreover have "ap_approval_id (?f a) = i" using a(2) by simp
  ultimately have "\<exists>b \<in> set (update_where ?P ?f (approvals d)). ap_approval_id b = i" by blast
  then show ?thesis unfolding spent_def appr using all by blast
qed

lemma consume_spent_none: "spent i d \<Longrightarrow> fst (consume_stmt i envelope d) = 0"
  by (auto simp: consume_stmt_def edit_approvals_def affected_0_iff spent_def)

text \<open>Statements of the other clients.\<close>

definition approvals_ok :: "world \<Rightarrow> bool" where
  "approvals_ok w \<longleftrightarrow> approvals_unique (db w) \<and> peers_by approval_stmt w"

definition consume_attempt :: "unit \<Rightarrow> string \<times> string \<Rightarrow> world \<Rightarrow> bool \<times> world" where
  "consume_attempt _ k w = (case consume_approval (fst k) (snd k) w of (r, w') \<Rightarrow> (r = Inr True, w'))"

lemma keeps_consume:
  assumes "\<And>d d'. P d \<Longrightarrow> approval_stmt d d' \<Longrightarrow> P d'"
  shows "keeps P (consume_approval i envelope)"
  unfolding consume_approval_def
  by (intro keeps_bind keeps_update_db keeps_ret) (blast intro: assms Consume)

lemma consume_keeps_ok:
  assumes "approvals_ok w" "consume_approval i envelope w = (r, w')"
  shows "approvals_ok w'"
proof -
  have k: "keeps approvals_unique (consume_approval i envelope)"
    by (rule keeps_consume) (rule approvals_unique_step)
  have "env_keeps approvals_unique w"
    using assms(1) peers_by_env_keeps [OF approvals_unique_step] by (simp add: approvals_ok_def)
  then show ?thesis
    using keepsD [OF k _ _ assms(2)] keeps_script [OF k assms(2)] peers_by_subset assms(1)
    by (auto simp: approvals_ok_def)
qed

lemma spent_keeps:
  assumes "approvals_ok w" "spent i (db w)" "consume_approval j envelope w = (r, w')"
  shows "spent i (db w')"
proof -
  have k: "keeps (spent i) (consume_approval j envelope)"
    by (rule keeps_consume) (rule spent_step)
  have "env_keeps (spent i) w"
    using assms(1) peers_by_env_keeps [OF spent_step] by (simp add: approvals_ok_def)
  then show ?thesis using keepsD [where P = "spent i", OF k assms(2) _ assms(3)] by simp
qed

lemma consume_approval_Inr:
  assumes "approvals_ok w" "consume_approval i envelope w = (Inr b, w')"
  shows "\<exists>w1. approvals_ok w1 \<and> (spent j (db w) \<longrightarrow> spent j (db w1))
    \<and> b = (0 < fst (consume_stmt i envelope (db w1))) \<and> db w' = snd (consume_stmt i envelope (db w1))"
proof -
  from assms(2) obtain n w2 where u: "update_db (consume_stmt i envelope) w = (Inr n, w2)"
    and b: "b = (0 < n)" "w' = w2"
    unfolding consume_approval_def by (elim bind_op_InrE) simp
  from u obtain w1 where n: "next_turn w = (Answered, w1)"
    and w2: "n = fst (consume_stmt i envelope (db w1))" "w2 = w1\<lparr>db := snd (consume_stmt i envelope (db w1))\<rparr>"
    by (elim update_db_InrE)
  have "env_keeps approvals_unique w" "env_keeps (spent j) w"
    using assms(1) peers_by_env_keeps [OF approvals_unique_step] peers_by_env_keeps [OF spent_step]
    by (simp_all add: approvals_ok_def)
  then have "approvals_unique (db w1)" "spent j (db w) \<longrightarrow> spent j (db w1)"
    using next_turn_keeps [OF _ _ n] assms(1) by (auto simp: approvals_ok_def)
  moreover have "peers_by approval_stmt w1"
    using next_turn_script [OF n] peers_by_subset assms(1) by (auto simp: approvals_ok_def)
  ultimately show ?thesis using b w2 by (auto simp: approvals_ok_def)
qed

interpretation approval_use: single_use consume_attempt approvals_ok
    "\<lambda>w k u. spent (fst k) (db w)" "\<lambda>_. ()" "\<lambda>_ _. True"
proof unfold_locales
  fix w t k b w'
  assume "approvals_ok w" "consume_attempt t k w = (b, w')"
  then show "approvals_ok w'"
    using consume_keeps_ok by (auto simp: consume_attempt_def split: prod.splits)
next
  fix w k and u :: unit and t b w'
  assume a: "approvals_ok w" "spent (fst k) (db w)" "consume_attempt t k w = (b, w')"
  show "\<not> b"
  proof
    assume b
    with a(3) have "consume_approval (fst k) (snd k) w = (Inr True, w')"
      by (auto simp: consume_attempt_def split: prod.splits)
    from consume_approval_Inr [OF a(1) this, of "fst k"] a(2) show False
      using consume_spent_none by auto
  qed
next
  fix w t k w'
  assume a: "approvals_ok w" "consume_attempt t k w = (True, w')"
  then have "consume_approval (fst k) (snd k) w = (Inr True, w')"
    by (auto simp: consume_attempt_def split: prod.splits)
  from consume_approval_Inr [OF a(1) this, of "fst k"] show "spent (fst k) (db w')"
    using consume_spends by (auto simp: approvals_ok_def)
next
  fix w k and u :: unit and t j b w'
  assume "approvals_ok w" "spent (fst k) (db w)" "consume_attempt t j w = (b, w')"
  then show "spent (fst k) (db w')"
    using spent_keeps by (auto simp: consume_attempt_def split: prod.splits)
qed

text \<open>
  C18. An approval is consumed once: after a successful consumption no later one of the same approval
  and envelope succeeds, whatever other clients open, resolve or consume in between and whatever
  fails.
\<close>

theorem approval_consumed_once:
  assumes "approvals_ok w" "consume_attempt () k w = (True, w1)"
    and "attempts consume_attempt xs w1 = (bs, w2)"
  shows "\<forall>i < length xs. snd (xs ! i) = k \<longrightarrow> \<not> bs ! i"
  by (rule approval_use.accepted_once [OF assms]) auto

definition demo_approval :: approval_row where
  "demo_approval =
     \<lparr>ap_approval_id = ''a'', ap_envelope_hash = ''e'', ap_status = ''approved'', ap_decision = JNull,
      ap_task_label = None, ap_branch = None, ap_scope_globs = [], ap_dispatcher_id = None,
      ap_approver = None, ap_reason = None, ap_created_at = ''t'', ap_resolved_at = None\<rparr>"

lemma approval_consumed_once_witness:
  "let w = calm (empty_db\<lparr>approvals := [demo_approval]\<rparr>)
   in \<forall>i < length [((), (''a'', ''e''))]. snd ([((), (''a'', ''e''))] ! i) = (''a'', ''e'') \<longrightarrow>
     \<not> fst (attempts consume_attempt [((), (''a'', ''e''))] (snd (consume_attempt () (''a'', ''e'') w))) ! i"
  unfolding Let_def
  by (rule approval_consumed_once [where w = "calm (empty_db\<lparr>approvals := [demo_approval]\<rparr>)", OF _ _ surjective_pairing])
    (simp_all add: approvals_ok_def approvals_unique_def consume_attempt_def consume_approval_def
      calm_simps consume_stmt_def edit_approvals_def affected_def demo_approval_def)

section \<open>Outcomes\<close>

text \<open>
  An approval is resolved once: a resolution that nobody disturbs succeeds exactly on a pending
  approval and sets its status; it is a conflict on one already resolved and not found on an unknown
  one, and then changes nothing.
\<close>

lemma resolve_approval_outcome:
  assumes "approvals_unique d"
  shows "resolve_approval i status approver reason now (calm d) =
    (case find_approval i d of
       None \<Rightarrow> (Inl (NotFound (''approval '' @ i)), calm d)
     | Some a \<Rightarrow>
         if ap_status a = ''pending''
         then let b = a\<lparr>ap_status := status, ap_approver := approver, ap_reason := reason,
                        ap_resolved_at := Some now\<rparr>
              in (Inr b, calm (d\<lparr>approvals := map (\<lambda>x. if x = a then b else x) (approvals d)\<rparr>))
         else (Inl (Conflict (''approval already resolved: status='' @ ap_status a)), calm d))"
proof -
  let ?P = "\<lambda>a. ap_approval_id a = i \<and> ap_status a = ''pending''"
  let ?f = "\<lambda>a. a\<lparr>ap_status := status, ap_approver := approver, ap_reason := reason,
                  ap_resolved_at := Some now\<rparr>"
  have d': "resolve_stmt i status approver reason now d =
      (affected ?P (approvals d), d\<lparr>approvals := update_where ?P ?f (approvals d)\<rparr>)"
    by (simp add: resolve_stmt_def edit_approvals_def)
  show ?thesis
  proof (cases "find_approval i d")
    case None
    then have "\<forall>a \<in> set (approvals d). \<not> ?P a"
      unfolding find_approval_def first_row_None_iff by blast
    then have z: "affected ?P (approvals d) = 0" by (simp add: affected_0_iff)
    then show ?thesis using None by (simp add: resolve_approval_def calm_simps d' update_where_id)
  next
    case (Some a)
    then have a: "a \<in> set (approvals d)" "ap_approval_id a = i"
      using first_row_SomeD [of "\<lambda>a. ap_approval_id a = i"] by (auto simp: find_approval_def)
    have only: "x = a" if "x \<in> set (approvals d)" "ap_approval_id x = i" for x
      using distinct_keyD [of ap_approval_id "approvals d" x a] assms that a
      by (simp add: approvals_unique_def)
    show ?thesis
    proof (cases "ap_status a = ''pending''")
      case True
      have nz: "affected ?P (approvals d) \<noteq> 0" unfolding affected_0_iff using a True by blast
      have "?P x \<longleftrightarrow> x = a" if "x \<in> set (approvals d)" for x
        using only [OF that] a True by blast
      then have "update_where ?P ?f (approvals d) = map (\<lambda>x. if x = a then ?f a else x) (approvals d)"
        unfolding update_where_def by (intro map_cong refl) simp
      moreover have "first_row (\<lambda>a. ap_approval_id a = i) (update_where ?P ?f (approvals d)) =
          Some (?f a)"
        using Some True a(2) by (subst first_row_update_where) (simp_all add: find_approval_def)
      ultimately show ?thesis
        using nz Some True by (simp add: resolve_approval_def calm_simps d' find_approval_def Let_def)
    next
      case False
      then have z: "affected ?P (approvals d) = 0" unfolding affected_0_iff using only by blast
      then show ?thesis using Some False by (simp add: resolve_approval_def calm_simps d' update_where_id)
    qed
  qed
qed

lemma resolve_approval_outcome_witness:
  "fst (resolve_approval ''a'' ''denied'' None None ''n'' (calm (empty_db\<lparr>approvals := [demo_approval]\<rparr>))) =
     Inl (Conflict ''approval already resolved: status=approved'')"
  by (subst resolve_approval_outcome)
    (simp_all add: approvals_unique_def find_approval_def first_row_def demo_approval_def)

text \<open>
  Rotating a secret raises its version by one and keeps its creation time, but putting it again
  under the same name replaces the value without a trace in the version.
\<close>

lemma secret_versions:
  assumes "find_secret name d = Some s"
  shows "put_secret name envelope now (calm d) =
      (Inr (secret_metadata (s\<lparr>s_created_at := now\<rparr>)), calm (snd (put_stmt name envelope now d)))
    \<and> rotate_secret name envelope now (calm d) =
      (Inr (secret_metadata (s\<lparr>s_version := s_version s + 1, s_last_rotated_at := Some now\<rparr>)),
       calm (snd (rotate_stmt name envelope now d)))"
proof -
  have s: "s \<in> set (secrets d)" "s_name s = name"
    using assms first_row_SomeD [of "\<lambda>s. s_name s = name"] by (auto simp: find_secret_def)
  have "list_ex (\<lambda>s. s_name s = name) (secrets d)" using s by (auto simp: list_ex_iff)
  then have put: "find_secret name (snd (put_stmt name envelope now d)) =
      Some (s\<lparr>s_encrypted_value := envelope, s_created_at := now\<rparr>)"
    using assms s by (simp add: find_secret_def put_stmt_def upsert_row_def first_row_update_where)
  have rot: "find_secret name (snd (rotate_stmt name envelope now d)) =
      Some (s\<lparr>s_encrypted_value := envelope, s_version := s_version s + 1, s_last_rotated_at := Some now\<rparr>)"
    using assms s by (simp add: find_secret_def rotate_stmt_def first_row_update_where)
  have nz: "fst (rotate_stmt name envelope now d) \<noteq> 0"
    using s by (auto simp: rotate_stmt_def affected_0_iff)
  show ?thesis
    using put rot nz by (simp add: put_secret_def rotate_secret_def secret_or_def calm_simps secret_metadata_def)
qed

lemma secret_versions_witness:
  "fst (rotate_secret ''k'' ''y'' ''n'' (calm (empty_db\<lparr>secrets :=
      [\<lparr>s_name = ''k'', s_encrypted_value = ''x'', s_version = 3, s_created_at = ''t'', s_last_rotated_at = None\<rparr>]\<rparr>))) =
   Inr \<lparr>s_name = ''k'', s_encrypted_value = '''', s_version = 4, s_created_at = ''t'', s_last_rotated_at = Some ''n''\<rparr>"
  by (subst conjunct2 [OF secret_versions [where s = "\<lparr>s_name = ''k'', s_encrypted_value = ''x'',
        s_version = 3, s_created_at = ''t'', s_last_rotated_at = None\<rparr>"]])
    (simp_all add: find_secret_def first_row_def secret_metadata_def)

end
