(* ===== verification/StoreLedger.thy ===== *)
theory StoreLedger
  imports StoreCore Interfaces Dates "HOL-Library.Product_Lexorder"
begin

text \<open>
  Costs and budgets, the capability index, the settings document and the export watermarks in the
  rqlite backend (\<^verbatim>\<open>impl CostStore\<close>, \<^verbatim>\<open>BudgetStore\<close>, \<^verbatim>\<open>RunnerCapabilityStore\<close>, \<^verbatim>\<open>SettingsStore\<close>,
  \<^verbatim>\<open>HistoryExportStore\<close> of \<^verbatim>\<open>crates/fabric-store-rqlite/src/lib.rs\<close>). The addition of SQLite's REAL
  values is the parameter \<open>fadd\<close>; a revision stays below the bound of \<open>i64\<close>.
\<close>

section \<open>Costs and budgets\<close>

type_synonym fadd = "f64 \<Rightarrow> f64 \<Rightarrow> f64"

definition bump :: "fadd \<Rightarrow> string \<Rightarrow> string \<Rightarrow> f64 \<Rightarrow> string \<Rightarrow> budget_row list \<Rightarrow> budget_row list" where
  "bump fadd scope key delta now =
     upsert_row (\<lambda>b. b_scope b = scope \<and> b_period_key b = key)
       (\<lambda>b. b\<lparr>b_spend_usd := fadd (b_spend_usd b) delta, b_updated_at := now\<rparr>)
       \<lparr>b_scope = scope, b_period_key = key, b_spend_usd = delta, b_updated_at = now\<rparr>"

text \<open>The ledger row and both accumulators, in one transaction.\<close>

definition cost_tx :: "fadd \<Rightarrow> cost_row \<Rightarrow> db \<Rightarrow> (string, int) res \<times> db" where
  "cost_tx fadd c d =
     (let now = c_created_at c; i = last_cost_id d + 1 in
      if sql_real (Some (c_cost_usd c)) = None then (Inl ''NOT NULL constraint failed: cost_ledger.cost_usd'', d)
      else if sql_real (Some (c_wall_seconds c)) = None
      then (Inl ''NOT NULL constraint failed: cost_ledger.wall_seconds'', d)
      else if sql_real (Some (c_runner_cpu_seconds c)) = None
      then (Inl ''NOT NULL constraint failed: cost_ledger.runner_cpu_seconds'', d)
      else (Inr i, d\<lparr>cost_ledger := cost_ledger d @ [c\<lparr>c_id := i\<rparr>], last_cost_id := i,
              budget_state :=
                bump fadd ''weekly'' (iso_week_key now) (c_cost_usd c) now
                  (bump fadd ''daily'' (day_key now) (c_cost_usd c) now (budget_state d))\<rparr>))"

definition record_cost :: "fadd \<Rightarrow> cost_row \<Rightarrow> cost_row op" where
  "record_cost fadd c = bind_op (try_db (cost_tx fadd c)) (\<lambda>i. ret (c\<lparr>c_id := i\<rparr>))"

definition query_cost :: "string option \<Rightarrow> int \<Rightarrow> cost_row list op" where
  "query_cost since limit =
     query (\<lambda>d. sql_limit limit (rev (sort_key c_created_at (rev
       (case since of
          Some s \<Rightarrow> filter (\<lambda>c. s \<le> c_created_at c) (cost_ledger d)
        | None \<Rightarrow> cost_ledger d)))))"

definition spend_of :: "string \<Rightarrow> string \<Rightarrow> db \<Rightarrow> f64 option" where
  "spend_of scope key d =
     map_option b_spend_usd (first_row (\<lambda>b. b_scope b = scope \<and> b_period_key b = key) (budget_state d))"

definition get_spend :: "string \<Rightarrow> string \<Rightarrow> f64 op" where
  "get_spend scope key = query (\<lambda>d. opt_default (Fin 0) (spend_of scope key d))"

definition add_spend_stmt :: "fadd \<Rightarrow> string \<Rightarrow> string \<Rightarrow> f64 \<Rightarrow> string \<Rightarrow> db \<Rightarrow> (string, nat) res \<times> db" where
  "add_spend_stmt fadd scope key delta now d =
     (if sql_real (Some delta) = None then (Inl ''NOT NULL constraint failed: budget_state.spend_usd'', d)
      else (Inr 1, d\<lparr>budget_state := bump fadd scope key delta now (budget_state d)\<rparr>))"

definition add_spend :: "fadd \<Rightarrow> string \<Rightarrow> string \<Rightarrow> f64 \<Rightarrow> string \<Rightarrow> f64 op" where
  "add_spend fadd scope key delta now =
     bind_op (try_db (add_spend_stmt fadd scope key delta now)) (\<lambda>_. get_spend scope key)"

definition list_budget_state :: "budget_row list op" where
  "list_budget_state = query (\<lambda>d. sort_key (\<lambda>b. (b_scope b, b_period_key b)) (budget_state d))"

definition current_budget :: "string \<Rightarrow> current_budget_row op" where
  "current_budget now =
     (let today = day_key now; week = iso_week_key now in
      bind_op (get_spend ''daily'' today)
        (\<lambda>daily. bind_op (get_spend ''weekly'' week)
          (\<lambda>weekly. ret \<lparr>cb_today = today, cb_week = week, cb_daily_spend_usd = daily,
                         cb_weekly_spend_usd = weekly\<rparr>)))"

section \<open>Capability index\<close>

fun insert_capabilities :: "string \<Rightarrow> capability_row list \<Rightarrow> capability_row list
    \<Rightarrow> (string, capability_row list) res" where
  "insert_capabilities now [] table = Inr table"
| "insert_capabilities now (c # cs) table =
     (if list_ex (\<lambda>x. cap_runner_id x = cap_runner_id c \<and> cap_kind x = cap_kind c \<and> cap_name x = cap_name c) table
      then Inl (''UNIQUE constraint failed: runner_capabilities.runner_id, ''
             @ ''runner_capabilities.capability_kind, runner_capabilities.name'')
      else insert_capabilities now cs (table @ [c\<lparr>cap_updated_at := now\<rparr>]))"

definition replace_tx :: "string \<Rightarrow> capability_row list \<Rightarrow> string \<Rightarrow> db \<Rightarrow> (string, unit) res \<times> db" where
  "replace_tx i cs now d =
     (case insert_capabilities now cs (delete_where (\<lambda>c. cap_runner_id c = i) (runner_capabilities d)) of
        Inl e \<Rightarrow> (Inl e, d)
      | Inr table \<Rightarrow> (Inr (), d\<lparr>runner_capabilities := table\<rparr>))"

definition replace_runner_capabilities :: "string \<Rightarrow> capability_row list \<Rightarrow> string \<Rightarrow> unit op" where
  "replace_runner_capabilities i cs now = try_db (replace_tx i cs now)"

definition capabilities_of :: "string \<Rightarrow> capability_row list op" where
  "capabilities_of i =
     query (\<lambda>d. sort_key (\<lambda>c. (cap_kind c, cap_name c))
        (filter (\<lambda>c. cap_runner_id c = i) (runner_capabilities d)))"

definition query_runners_by_capability :: "string \<Rightarrow> string \<Rightarrow> string list op" where
  "query_runners_by_capability kind name =
     query (\<lambda>d. sort (map cap_runner_id
        (filter (\<lambda>c. cap_kind c = kind \<and> cap_name c = name) (runner_capabilities d))))"

definition delete_runner_capabilities :: "string \<Rightarrow> unit op" where
  "delete_runner_capabilities i =
     bind_op (update_db (\<lambda>d. (affected (\<lambda>c. cap_runner_id c = i) (runner_capabilities d),
         d\<lparr>runner_capabilities := delete_where (\<lambda>c. cap_runner_id c = i) (runner_capabilities d)\<rparr>)))
       (\<lambda>_. ret ())"

section \<open>Settings\<close>

definition get_settings_document :: "settings_document op" where
  "get_settings_document =
     query (\<lambda>d. opt_default
        \<lparr>sd_revision = 0, sd_value = JObj [], sd_updated_at = None, sd_updated_by = None\<rparr> (settings_doc d))"

definition put_settings_stmt :: "int \<Rightarrow> settings_document \<Rightarrow> db \<Rightarrow> nat \<times> db" where
  "put_settings_stmt expected doc d =
     (if expected = 0 then
        (case settings_doc d of
           None \<Rightarrow> (1, d\<lparr>settings_doc := Some doc\<rparr>)
         | Some _ \<Rightarrow> (0, d))
      else
        (case settings_doc d of
           Some old \<Rightarrow> if sd_revision old = expected then (1, d\<lparr>settings_doc := Some doc\<rparr>) else (0, d)
         | None \<Rightarrow> (0, d)))"

definition put_settings_document :: "int \<Rightarrow> jv \<Rightarrow> string \<Rightarrow> string \<Rightarrow> settings_document op" where
  "put_settings_document expected value by now =
     (let doc = \<lparr>sd_revision = expected + 1, sd_value = value, sd_updated_at = Some now,
                 sd_updated_by = Some by\<rparr>
      in bind_op (update_db (put_settings_stmt expected doc))
           (\<lambda>n. if n \<noteq> 1 then fail (Conflict ''settings revision changed; refresh and retry'')
                else ret doc))"

section \<open>History export\<close>

definition history_streams :: "string list op" where
  "history_streams = ret [''tasks'', ''cost'', ''audit'']"

definition watermark_of :: "string \<Rightarrow> db \<Rightarrow> int" where
  "watermark_of stream d =
     opt_default 0 (map_option wm_sequence (first_row (\<lambda>w. wm_stream w = stream) (watermarks d)))"

definition history_watermark :: "string \<Rightarrow> int op" where
  "history_watermark stream = query (watermark_of stream)"

definition watermark_stmt :: "string \<Rightarrow> int \<Rightarrow> string \<Rightarrow> db \<Rightarrow> nat \<times> db" where
  "watermark_stmt stream sequence now d =
     (1, d\<lparr>watermarks := upsert_row (\<lambda>w. wm_stream w = stream)
             (\<lambda>w. w\<lparr>wm_sequence := max (wm_sequence w) sequence, wm_updated_at := now\<rparr>)
             \<lparr>wm_stream = stream, wm_sequence = sequence, wm_updated_at = now\<rparr> (watermarks d)\<rparr>)"

definition commit_history_watermark :: "string \<Rightarrow> int \<Rightarrow> string \<Rightarrow> unit op" where
  "commit_history_watermark stream sequence now =
     bind_op (update_db (watermark_stmt stream sequence now)) (\<lambda>_. ret ())"

datatype history_payload = TaskPayload task_row | CostPayload cost_row | AuditPayload audit_row

record history_row =
  hx_stream :: string
  hx_sequence :: int
  hx_record_id :: string
  hx_occurred_at_ms :: int
  hx_payload :: history_payload

text \<open>SQLite's \<^verbatim>\<open>strftime('%s', ...)\<close> is the parameter \<open>secs\<close>; no date gives 0.\<close>

definition after_sequence :: "('r \<Rightarrow> int) \<Rightarrow> int \<Rightarrow> nat \<Rightarrow> 'r list \<Rightarrow> 'r list" where
  "after_sequence seq after limit rows =
     sql_limit (int (max 1 (min limit 5000))) (sort_key seq (filter (\<lambda>r. after < seq r) rows))"

definition occurred_ms :: "(string \<Rightarrow> int option) \<Rightarrow> string \<Rightarrow> int" where
  "occurred_ms secs t = (case secs t of Some s \<Rightarrow> s * 1000 | None \<Rightarrow> 0)"

definition fetch_history_rows ::
    "(string \<Rightarrow> int option) \<Rightarrow> string \<Rightarrow> int \<Rightarrow> nat \<Rightarrow> history_row list op" where
  "fetch_history_rows secs stream after limit =
     (if stream = ''tasks'' then
        query (\<lambda>d. map (\<lambda>t. \<lparr>hx_stream = stream, hx_sequence = t_id t, hx_record_id = ''task:'' @ show_int (t_id t),
            hx_occurred_at_ms = occurred_ms secs (opt_default (t_created_at t) (t_completed_at t)),
            hx_payload = TaskPayload t\<rparr>) (after_sequence t_id after limit (tasks d)))
      else if stream = ''cost'' then
        query (\<lambda>d. map (\<lambda>c. \<lparr>hx_stream = stream, hx_sequence = c_id c, hx_record_id = ''cost:'' @ show_int (c_id c),
            hx_occurred_at_ms = occurred_ms secs (c_created_at c), hx_payload = CostPayload c\<rparr>)
          (after_sequence c_id after limit (cost_ledger d)))
      else if stream = ''audit'' then
        query (\<lambda>d. map (\<lambda>a. \<lparr>hx_stream = stream, hx_sequence = au_seq a, hx_record_id = au_event_id_hash a,
            hx_occurred_at_ms = occurred_ms secs (au_created_at a), hx_payload = AuditPayload a\<rparr>)
          (after_sequence au_seq after limit (audit_events d)))
      else fail (Schema (''unknown history stream: '' @ stream)))"

section \<open>The accumulators follow the ledger\<close>

definition ledger_total :: "fadd \<Rightarrow> f64 list \<Rightarrow> f64 option" where
  "ledger_total fadd xs = (case xs of [] \<Rightarrow> None | c # cs \<Rightarrow> Some (foldl fadd c cs))"

lemma ledger_total_snoc:
  "ledger_total fadd (xs @ [c]) =
     Some (case ledger_total fadd xs of None \<Rightarrow> c | Some t \<Rightarrow> fadd t c)"
  by (cases xs) (simp_all add: ledger_total_def)

text \<open>The costs of a day, of an ISO week, in the order of the ledger.\<close>

definition costs_of :: "(string \<Rightarrow> string) \<Rightarrow> string \<Rightarrow> db \<Rightarrow> f64 list" where
  "costs_of period key d = map c_cost_usd (filter (\<lambda>c. period (c_created_at c) = key) (cost_ledger d))"

definition in_step :: "fadd \<Rightarrow> db \<Rightarrow> bool" where
  "in_step fadd d \<longleftrightarrow>
     (\<forall>key. spend_of ''daily'' key d = ledger_total fadd (costs_of day_key key d)
          \<and> spend_of ''weekly'' key d = ledger_total fadd (costs_of iso_week_key key d))"

lemma spend_bump:
  "map_option b_spend_usd (first_row (\<lambda>b. b_scope b = s \<and> b_period_key b = k) (bump fadd scope key delta now rows)) =
     (if s = scope \<and> k = key
      then Some (case map_option b_spend_usd (first_row (\<lambda>b. b_scope b = scope \<and> b_period_key b = key) rows) of
                   None \<Rightarrow> delta | Some v \<Rightarrow> fadd v delta)
      else map_option b_spend_usd (first_row (\<lambda>b. b_scope b = s \<and> b_period_key b = k) rows))"
proof (cases "s = scope \<and> k = key")
  case True
  then have "s = scope" "k = key" by simp_all
  then show ?thesis
    by (simp add: bump_def first_row_upsert_same split: option.split)
next
  case False
  then show ?thesis
    unfolding bump_def by (subst first_row_upsert_other) auto
qed

lemma in_step_cost:
  assumes inv: "in_step fadd d" and tx: "cost_tx fadd c d = (Inr i, d')"
  shows "in_step fadd d'"
proof -
  have d': "cost_ledger d' = cost_ledger d @ [c\<lparr>c_id := i\<rparr>]"
    "budget_state d' = bump fadd ''weekly'' (iso_week_key (c_created_at c)) (c_cost_usd c) (c_created_at c)
        (bump fadd ''daily'' (day_key (c_created_at c)) (c_cost_usd c) (c_created_at c) (budget_state d))"
    using tx by (auto simp: cost_tx_def Let_def split: if_splits)
  have costs: "costs_of period key d' =
      costs_of period key d @ (if period (c_created_at c) = key then [c_cost_usd c] else [])" for period key
    by (simp add: costs_of_def d')
  have old: "map_option b_spend_usd (first_row (\<lambda>b. b_scope b = ''daily'' \<and> b_period_key b = key) (budget_state d))
        = ledger_total fadd (costs_of day_key key d)"
    "map_option b_spend_usd (first_row (\<lambda>b. b_scope b = ''weekly'' \<and> b_period_key b = key) (budget_state d))
        = ledger_total fadd (costs_of iso_week_key key d)" for key
    using inv by (simp_all add: in_step_def spend_of_def)
  have daily: "spend_of ''daily'' key d' = ledger_total fadd (costs_of day_key key d')" for key
    by (simp add: spend_of_def d'(2) spend_bump old costs ledger_total_snoc)
  have weekly: "spend_of ''weekly'' key d' = ledger_total fadd (costs_of iso_week_key key d')" for key
    by (simp add: spend_of_def d'(2) spend_bump old costs ledger_total_snoc)
  show ?thesis using daily weekly by (simp add: in_step_def)
qed

text \<open>
  C19. Recording costs keeps the budget accumulators in step with the ledger: for every day and every
  ISO week the accumulated spend is the sum, in ledger order, of the costs recorded in it. A request
  that fails, before or after it took effect, and other clients that keep the two in step, do not
  change that.
\<close>

theorem accumulators_follow_ledger:
  assumes "in_step fadd (db w)" "env_keeps (in_step fadd) w"
  shows "in_step fadd (db (snd (record_cost fadd c w)))"
proof -
  have k: "keeps (in_step fadd) (record_cost fadd c)"
    unfolding record_cost_def by (intro keeps_intros) (rule in_step_cost)
  obtain r w' where "record_cost fadd c w = (r, w')" by fastforce
  then show ?thesis using keepsD [where P = "in_step fadd", OF k assms] by simp
qed

definition demo_cost :: cost_row where
  "demo_cost =
     \<lparr>c_id = 0, c_task_id = ''1'', c_dispatcher_id = None, c_runner_id = None, c_model_id = ''m'',
      c_prompt_tokens = 1, c_completion_tokens = 1, c_cost_usd = Fin 2, c_wall_seconds = Fin 1,
      c_runner_cpu_seconds = Fin 1, c_created_at = ''2026-01-05 00:00:00''\<rparr>"

lemma in_step_empty: "in_step fadd empty_db"
  by (simp add: in_step_def spend_of_def costs_of_def ledger_total_def first_row_def empty_db_def)

lemma accumulators_follow_ledger_witness:
  "in_step (\<lambda>x y. y) (db (snd (record_cost (\<lambda>x y. y) demo_cost
     \<lparr>db = empty_db, script = [\<lparr>turn_env = id, turn_reply = Lost QuorumLoss\<rparr>]\<rparr>)))"
  by (rule accumulators_follow_ledger) (simp_all add: in_step_empty env_keeps_def)

text \<open>
  A cost that is no number is refused as a whole: nothing reaches the ledger or the accumulators.
\<close>

lemma nonfinite_cost_refused:
  assumes "c_cost_usd c \<in> {NaN, PosInf, NegInf}"
  shows "record_cost fadd c (calm d) =
    (Inl (Backend ''rqlite returned 200: NOT NULL constraint failed: cost_ledger.cost_usd''), calm d)"
proof -
  have "show_int 200 = ''200''" by code_simp
  then show ?thesis using assms by (auto simp: record_cost_def calm_simps cost_tx_def Let_def)
qed

lemma nonfinite_cost_refused_witness:
  "record_cost (\<lambda>x y. x) (demo_cost\<lparr>c_cost_usd := NaN\<rparr>) (calm empty_db) =
    (Inl (Backend ''rqlite returned 200: NOT NULL constraint failed: cost_ledger.cost_usd''), calm empty_db)"
  by (rule nonfinite_cost_refused) simp

section \<open>Settings revisions\<close>

definition settings_revision :: "db \<Rightarrow> int" where
  "settings_revision d = opt_default 0 (map_option sd_revision (settings_doc d))"

inductive settings_step :: "db \<Rightarrow> db \<Rightarrow> bool" where
  Put: "sd_revision doc = e + 1 \<Longrightarrow> settings_step d (snd (put_settings_stmt e doc d))"
| Apart: "settings_doc d' = settings_doc d \<Longrightarrow> settings_step d d'"

text \<open>A conditional write does something exactly at the revision it names.\<close>

definition put_fits :: "int \<Rightarrow> db \<Rightarrow> bool" where
  "put_fits e d \<longleftrightarrow> e = settings_revision d \<and> (e = 0 \<longrightarrow> settings_doc d = None)"

lemma put_settings_cases:
  "put_fits e d \<Longrightarrow> put_settings_stmt e doc d = (1, d\<lparr>settings_doc := Some doc\<rparr>)"
  "\<not> put_fits e d \<Longrightarrow> put_settings_stmt e doc d = (0, d)"
  by (cases "settings_doc d"; cases "e = 0"; simp add: put_fits_def put_settings_stmt_def settings_revision_def)+

lemma put_settings_zero:
  assumes "fst (put_settings_stmt e doc d) = 0"
  shows "snd (put_settings_stmt e doc d) = d"
proof (cases "put_fits e d")
  case True
  then show ?thesis using assms put_settings_cases(1) [OF True, of doc] by simp
next
  case False
  then show ?thesis using put_settings_cases(2) [OF False, of doc] by simp
qed

lemma settings_revision_put:
  assumes "sd_revision doc = e + 1" "fst (put_settings_stmt e doc d) \<noteq> 0"
  shows "settings_revision d = e \<and> settings_revision (snd (put_settings_stmt e doc d)) = e + 1"
proof (cases "put_fits e d")
  case True
  then have e: "settings_revision d = e" by (simp add: put_fits_def)
  have "settings_revision (d\<lparr>settings_doc := Some doc\<rparr>) = sd_revision doc"
    by (simp add: settings_revision_def)
  then show ?thesis unfolding put_settings_cases(1) [OF True] snd_conv assms(1) using e by blast
next
  case False
  then show ?thesis using assms(2) put_settings_cases(2) [OF False] by simp
qed

lemma settings_step_mono:
  assumes "n \<le> settings_revision d" "settings_step d d'"
  shows "n \<le> settings_revision d'"
  using assms(2)
proof cases
  case (Put doc e)
  show ?thesis
  proof (cases "fst (put_settings_stmt e doc d) = 0")
    case True
    then have "snd (put_settings_stmt e doc d) = d" by (rule put_settings_zero)
    then show ?thesis using assms(1) unfolding Put(1) by (rule ssubst)
  next
    case False
    then show ?thesis using settings_revision_put [OF Put(2) False] Put(1) assms(1) by simp
  qed
next
  case Apart
  then show ?thesis using assms(1) by (simp add: settings_revision_def)
qed

definition put_attempt :: "jv \<times> string \<times> string \<Rightarrow> int \<Rightarrow> world \<Rightarrow> bool \<times> world" where
  "put_attempt v e w =
     (case put_settings_document e (fst v) (fst (snd v)) (snd (snd v)) w of (r, w') \<Rightarrow> (\<not> isl r, w'))"

lemma keeps_put_settings:
  "keeps (\<lambda>d. n \<le> settings_revision d) (put_settings_document e v by now)"
  unfolding put_settings_document_def Let_def
  by (intro keeps_intros) (blast intro: settings_step_mono Put [of "\<lparr>sd_revision = e + 1, sd_value = v,
      sd_updated_at = Some now, sd_updated_by = Some by\<rparr>", simplified])

interpretation settings: version_register "\<lambda>w. settings_revision (db w)" put_attempt "peers_by settings_step"
proof unfold_locales
  fix w v e b w'
  assume p: "peers_by settings_step w" and run: "put_attempt v e w = (b, w')"
  obtain r where r: "put_settings_document e (fst v) (fst (snd v)) (snd (snd v)) w = (r, w')"
    using run by (auto simp: put_attempt_def split: prod.splits)
  note k = keeps_put_settings [of "settings_revision (db w)" e "fst v" "fst (snd v)" "snd (snd v)"]
  have "env_keeps (\<lambda>d. settings_revision (db w) \<le> settings_revision d) w"
    using peers_by_env_keeps [OF settings_step_mono p] .
  then have "settings_revision (db w) \<le> settings_revision (db w')"
    using keepsD [OF k _ _ r] by simp
  moreover have "peers_by settings_step w'"
    using peers_by_subset [OF p] keeps_script [OF k r] by blast
  ultimately show "peers_by settings_step w' \<and> settings_revision (db w) \<le> settings_revision (db w')" by blast
next
  fix w v e w'
  assume p: "peers_by settings_step w" and run: "put_attempt v e w = (True, w')"
  let ?doc = "\<lparr>sd_revision = e + 1, sd_value = fst v, sd_updated_at = Some (snd (snd v)),
      sd_updated_by = Some (fst (snd v))\<rparr>"
  obtain r where r: "put_settings_document e (fst v) (fst (snd v)) (snd (snd v)) w = (r, w')" "\<not> isl r"
    using run by (auto simp: put_attempt_def split: prod.splits)
  then obtain x where "put_settings_document e (fst v) (fst (snd v)) (snd (snd v)) w = (Inr x, w')"
    by (cases r) auto
  then obtain n w2 where u: "update_db (put_settings_stmt e ?doc) w = (Inr n, w2)"
    and rest: "(if n \<noteq> 1 then fail (Conflict ''settings revision changed; refresh and retry'') else ret ?doc) w2
      = (Inr x, w')"
    unfolding put_settings_document_def Let_def by (rule bind_op_InrE)
  from rest have n: "n = 1" "w2 = w'" by (auto split: if_splits)
  from u obtain w1 where t: "next_turn w = (Answered, w1)" "n = fst (put_settings_stmt e ?doc (db w1))"
    "w2 = w1\<lparr>db := snd (put_settings_stmt e ?doc (db w1))\<rparr>"
    by (elim update_db_InrE)
  have "env_keeps (\<lambda>d. settings_revision (db w) \<le> settings_revision d) w"
    using peers_by_env_keeps [OF settings_step_mono p] .
  then have "settings_revision (db w) \<le> settings_revision (db w1)"
    using next_turn_keeps [of "\<lambda>d. settings_revision (db w) \<le> settings_revision d" w, OF _ _ t(1)] by simp
  moreover have "settings_revision (db w1) = e \<and> settings_revision (db w') = e + 1"
    using settings_revision_put [of ?doc e "db w1"] t n by simp
  ultimately show "settings_revision (db w) \<le> e \<and> e < settings_revision (db w')" by simp
qed

text \<open>
  C27. No update of the settings is lost: whatever sequence of conditional writes a client makes, among
  other clients that write conditionally too, the revisions its successful writes were made for
  strictly increase, so no two of them started from the same document.
\<close>

theorem settings_writes_serialised:
  assumes "peers_by settings_step w"
  shows "sorted_wrt (<) (writes_won put_attempt xs w)"
  using settings.won_increasing [OF assms] .

lemma settings_writes_serialised_witness:
  "sorted_wrt (<) (writes_won put_attempt [((JNull, ''u'', ''n''), 0), ((JNull, ''v'', ''n''), 0),
     ((JNull, ''v'', ''n''), 1)] (calm empty_db))"
  by (rule settings_writes_serialised) simp

section \<open>Export watermarks\<close>

lemma watermark_stmt_of:
  "0 \<le> seq \<Longrightarrow> watermark_of stream (snd (watermark_stmt other seq now d)) =
     (if stream = other then (case first_row (\<lambda>w. wm_stream w = other) (watermarks d) of
         None \<Rightarrow> seq | Some w \<Rightarrow> max (wm_sequence w) seq)
      else watermark_of stream d)"
proof (cases "stream = other")
  case True
  then show ?thesis
    by (simp add: watermark_of_def watermark_stmt_def first_row_upsert_same split: option.split)
next
  case False
  then show ?thesis
    by (simp add: watermark_of_def watermark_stmt_def first_row_upsert_other)
qed

lemma watermark_stmt_mono:
  "0 \<le> seq \<Longrightarrow> n \<le> watermark_of stream d \<Longrightarrow> n \<le> watermark_of stream (snd (watermark_stmt other seq now d))"
  using watermark_of_def [of other d]
  by (cases "first_row (\<lambda>w. wm_stream w = other) (watermarks d)") (auto simp: watermark_stmt_of)

text \<open>
  The export watermark of a stream never recedes, whatever is committed for it or for another
  stream and whatever fails; other clients that never lower it cannot undo that.
\<close>

lemma watermark_never_recedes:
  assumes "0 \<le> seq" "n \<le> watermark_of stream (db w)" "env_keeps (\<lambda>d. n \<le> watermark_of stream d) w"
  shows "n \<le> watermark_of stream (db (snd (commit_history_watermark other seq now w)))"
proof -
  have k: "keeps (\<lambda>d. n \<le> watermark_of stream d) (commit_history_watermark other seq now)"
    unfolding commit_history_watermark_def by (intro keeps_intros watermark_stmt_mono assms(1))
  obtain r w' where "commit_history_watermark other seq now w = (r, w')" by fastforce
  then show ?thesis using keepsD [where P = "\<lambda>d. n \<le> watermark_of stream d", OF k assms(2,3)] by simp
qed

lemma watermark_never_recedes_witness:
  "7 \<le> watermark_of ''tasks'' (db (snd (commit_history_watermark ''tasks'' 3 ''n''
     (calm (empty_db\<lparr>watermarks := [\<lparr>wm_stream = ''tasks'', wm_sequence = 7, wm_updated_at = ''n''\<rparr>]\<rparr>)))))"
  by (rule watermark_never_recedes) (simp_all add: watermark_of_def first_row_def)

section \<open>The capability index is replaced as a whole\<close>

definition cap_key :: "capability_row \<Rightarrow> string \<times> string \<times> string" where
  "cap_key c = (cap_runner_id c, cap_kind c, cap_name c)"

lemma insert_capabilities_result:
  "insert_capabilities now cs table =
     (if distinct (map cap_key cs) \<and> set (map cap_key cs) \<inter> set (map cap_key table) = {}
      then Inr (table @ map (\<lambda>c. c\<lparr>cap_updated_at := now\<rparr>) cs)
      else Inl (''UNIQUE constraint failed: runner_capabilities.runner_id, ''
             @ ''runner_capabilities.capability_kind, runner_capabilities.name''))"
proof (induction cs arbitrary: table)
  case (Cons c cs)
  have hit: "list_ex (\<lambda>x. cap_runner_id x = cap_runner_id c \<and> cap_kind x = cap_kind c \<and> cap_name x = cap_name c) table
      \<longleftrightarrow> cap_key c \<in> set (map cap_key table)"
    by (induction table) (auto simp: cap_key_def)
  have key: "cap_key (c\<lparr>cap_updated_at := now\<rparr>) = cap_key c" by (simp add: cap_key_def)
  show ?case unfolding insert_capabilities.simps hit Cons.IH by (auto simp: key)
qed simp

text \<open>
  Registering a runner's capabilities replaces its entries of the index as a whole and touches
  nobody else's; a registration that names one kind and name twice is refused and leaves the old
  entries in place.
\<close>

lemma capabilities_replaced:
  assumes "\<forall>c \<in> set cs. cap_runner_id c = i"
  shows "replace_runner_capabilities i cs now (calm d) =
    (if distinct (map cap_key cs)
     then (Inr (), calm (d\<lparr>runner_capabilities := filter (\<lambda>c. cap_runner_id c \<noteq> i) (runner_capabilities d)
             @ map (\<lambda>c. c\<lparr>cap_updated_at := now\<rparr>) cs\<rparr>))
     else (Inl (Backend (''rqlite returned 200: UNIQUE constraint failed: runner_capabilities.runner_id, ''
             @ ''runner_capabilities.capability_kind, runner_capabilities.name'')), calm d))"
proof -
  have "show_int 200 = ''200''" by code_simp
  moreover have "set (map cap_key cs) \<inter> set (map cap_key (filter (\<lambda>c. cap_runner_id c \<noteq> i) (runner_capabilities d))) = {}"
    using assms by (auto simp: cap_key_def)
  ultimately show ?thesis
    by (simp add: replace_runner_capabilities_def calm_simps replace_tx_def insert_capabilities_result
        delete_where_def)
qed

lemma capabilities_replaced_witness:
  "fst (replace_runner_capabilities ''r'' [\<lparr>cap_runner_id = ''r'', cap_kind = ''tool'', cap_name = ''x'',
     cap_source_server = ''s'', cap_description = None, cap_extra = JNull, cap_updated_at = ''''\<rparr>] ''n''
     (calm empty_db)) = Inr ()"
  by (subst capabilities_replaced) simp_all

end
