(* ===== verification/StoreAudit.thy ===== *)
theory StoreAudit
  imports StoreCore AuditChain
begin

text \<open>
  The audit log in the store (\<^verbatim>\<open>impl AuditStore\<close> of \<^verbatim>\<open>crates/fabric-store-rqlite/src/lib.rs\<close>): the
  tail of the chain, the conditional append, the queries by task and day, and the verification of
  stored rows. The payload column holds the text; the parser of \<^verbatim>\<open>serde_json\<close> is a parameter.
\<close>

section \<open>Operations\<close>

definition by_seq :: "db \<Rightarrow> audit_row list" where
  "by_seq d = sort_key au_seq (audit_events d)"

definition audit_tail :: "db \<Rightarrow> string option" where
  "audit_tail d = (case rev (by_seq d) of [] \<Rightarrow> None | e # _ \<Rightarrow> Some (au_event_id_hash e))"

definition audit_chain_tail :: "string op" where
  "audit_chain_tail = bind_op (query audit_tail) (\<lambda>t. ret (opt_default audit_genesis_hash t))"

definition insert_audit :: "audit_row \<Rightarrow> db \<Rightarrow> (string, unit) res \<times> db" where
  "insert_audit row d =
     (if list_ex (\<lambda>e. au_event_id_hash e = au_event_id_hash row) (audit_events d)
      then (Inl ''UNIQUE constraint failed: audit_event.event_id_hash'', d)
      else (Inr (), d\<lparr>audit_events := audit_events d @ [row\<lparr>au_seq := last_audit_seq d + 1\<rparr>],
                     last_audit_seq := last_audit_seq d + 1\<rparr>))"

definition seq_of_hash :: "string \<Rightarrow> db \<Rightarrow> int option" where
  "seq_of_hash h d = map_option au_seq (first_row (\<lambda>e. au_event_id_hash e = h) (audit_events d))"

definition append_audit_event ::
  "string \<Rightarrow> string \<Rightarrow> string \<Rightarrow> string \<Rightarrow> int option \<Rightarrow> string \<Rightarrow> string \<Rightarrow> audit_append_result op" where
  "append_audit_event expected_tail hash prev kind task payload now =
     bind_op audit_chain_tail (\<lambda>actual.
       if actual \<noteq> expected_tail then ret (TailConflict expected_tail actual)
       else
         let row = \<lparr>au_seq = 0, au_event_id_hash = hash, au_prev_event_id_hash = prev, au_kind = kind,
                    au_task_id = task, au_payload_json = payload, au_created_at = now\<rparr>
         in catch_rq (statement (insert_audit row)) (\<lambda>r.
              case r of
                Inr _ \<Rightarrow> bind_op (query (seq_of_hash hash)) (\<lambda>s. ret (AppendOk (row\<lparr>au_seq := opt_default 0 s\<rparr>)))
              | Inl e \<Rightarrow>
                  if (case e of StatusError _ body \<Rightarrow> contains_str ''UNIQUE constraint'' body | _ \<Rightarrow> False)
                  then bind_op audit_chain_tail (\<lambda>t. ret (TailConflict expected_tail t))
                  else fail (store_error_of e)))"

definition audit_events_for_task :: "int \<Rightarrow> audit_row list op" where
  "audit_events_for_task i = query (\<lambda>d. sort_key au_seq (filter (\<lambda>e. au_task_id e = Some i) (audit_events d)))"

text \<open>\<^verbatim>\<open>LIKE\<close> of SQLite: \<open>%\<close> and \<open>_\<close> are wildcards and ASCII letters match in either case.\<close>

fun sql_like :: "string \<Rightarrow> string \<Rightarrow> bool" where
  "sql_like [] s = (s = [])"
| "sql_like (p # ps) [] = (p = CHR 0x25 \<and> sql_like ps [])"
| "sql_like (p # ps) (c # cs) =
     (if p = CHR 0x25 then sql_like ps (c # cs) \<or> sql_like (p # ps) cs
      else (p = CHR 0x5F \<or> ascii_lower_char p = ascii_lower_char c) \<and> sql_like ps cs)"

definition audit_events_for_day :: "string \<Rightarrow> audit_row list op" where
  "audit_events_for_day day =
     query (\<lambda>d. sort_key au_seq (filter (\<lambda>e. sql_like (day @ [CHR 0x25]) (au_created_at e)) (audit_events d)))"

fun verify_rows ::
  "crypto \<Rightarrow> 'n json_text \<Rightarrow> (string \<Rightarrow> (string, 'n json) res) \<Rightarrow> string option \<Rightarrow> audit_row list \<Rightarrow>
   (store_error, bool \<times> string option) res" where
  "verify_rows cr jt parse prev [] = Inr (True, None)"
| "verify_rows cr jt parse prev (e # es) =
     (if (case prev of Some expected \<Rightarrow> au_prev_event_id_hash e \<noteq> expected | None \<Rightarrow> False)
      then Inr (False, Some (''chain break at seq='' @ show_int (au_seq e) @ '': prev ''
             @ au_prev_event_id_hash e @ '' != expected '' @ the prev))
      else case parse (au_payload_json e) of
        Inl m \<Rightarrow> Inl (Backend (''invalid JSON at seq='' @ show_int (au_seq e) @ '': '' @ m))
      | Inr payload \<Rightarrow>
          let recomputed = audit_event_hash cr jt (au_prev_event_id_hash e) (au_kind e) payload in
          if recomputed \<noteq> au_event_id_hash e
          then Inr (False, Some (''hash mismatch at seq='' @ show_int (au_seq e) @ '': stored ''
                 @ au_event_id_hash e @ '' != recomputed '' @ recomputed))
          else verify_rows cr jt parse (Some (au_event_id_hash e)) es)"

definition verify_audit_chain ::
  "crypto \<Rightarrow> 'n json_text \<Rightarrow> (string \<Rightarrow> (string, 'n json) res) \<Rightarrow> audit_row list \<Rightarrow>
   (store_error, bool \<times> string option) res" where
  "verify_audit_chain cr jt parse es = verify_rows cr jt parse None es"

section \<open>Agreement with the chain library\<close>

text \<open>The event a stored row stands for, when its payload parses.\<close>

definition event_of :: "(string \<Rightarrow> (string, 'n json) res) \<Rightarrow> audit_row \<Rightarrow> 'n audit_event option" where
  "event_of parse e =
     (case parse (au_payload_json e) of
        Inl _ \<Rightarrow> None
      | Inr p \<Rightarrow> Some \<lparr>event_id_hash = au_event_id_hash e, prev_event_id_hash = au_prev_event_id_hash e,
                       event_kind = au_kind e, event_payload = p\<rparr>)"

lemma verify_rows_accepts:
  "verify_rows cr jt parse prev es = Inr (True, None) \<longleftrightarrow>
     (\<exists>vs. map (event_of parse) es = map Some vs \<and> verify_chain_from cr jt i prev vs = Inr ())"
proof (induction es arbitrary: prev i)
  case Nil
  then show ?case by simp
next
  case (Cons e es)
  show ?case
  proof (cases "parse (au_payload_json e)")
    case (Inl m)
    then show ?thesis by (auto simp: event_of_def map_eq_Cons_conv)
  next
    case (Inr p)
    let ?v = "\<lparr>event_id_hash = au_event_id_hash e, prev_event_id_hash = au_prev_event_id_hash e,
      event_kind = au_kind e, event_payload = p\<rparr>"
    have ev: "event_of parse e = Some ?v" using Inr by (simp add: event_of_def)
    have "verify_rows cr jt parse prev (e # es) = Inr (True, None) \<longleftrightarrow>
        (prev = None \<or> prev = Some (au_prev_event_id_hash e)) \<and>
        audit_event_hash cr jt (au_prev_event_id_hash e) (au_kind e) p = au_event_id_hash e \<and>
        verify_rows cr jt parse (Some (au_event_id_hash e)) es = Inr (True, None)"
      using Inr by (cases prev) (auto simp: Let_def)
    moreover have "(\<exists>vs. map (event_of parse) (e # es) = map Some vs \<and> verify_chain_from cr jt i prev vs = Inr ())
        \<longleftrightarrow> (\<exists>us. map (event_of parse) es = map Some us \<and> verify_chain_from cr jt i prev (?v # us) = Inr ())"
      using ev by (auto simp: Cons_eq_map_conv)
    moreover have "verify_chain_from cr jt i prev (?v # us) = Inr () \<longleftrightarrow>
        (prev = None \<or> prev = Some (au_prev_event_id_hash e)) \<and>
        audit_event_hash cr jt (au_prev_event_id_hash e) (au_kind e) p = au_event_id_hash e \<and>
        verify_chain_from cr jt (i + 1) (Some (au_event_id_hash e)) us = Inr ()" for us
      by (cases prev) (auto simp: Let_def)
    ultimately show ?thesis using Cons.IH [of "Some (au_event_id_hash e)" "i + 1"] by auto
  qed
qed

section \<open>Appending without competition\<close>

definition audit_part :: "db \<Rightarrow> audit_row list \<times> int" where
  "audit_part d = (audit_events d, last_audit_seq d)"

text \<open>Nobody else touches the audit log.\<close>

definition audit_quiet :: "world \<Rightarrow> bool" where
  "audit_quiet w \<longleftrightarrow> (\<forall>t \<in> set (script w). \<forall>d. audit_part (turn_env t d) = audit_part d)"

definition audit_sound :: "crypto \<Rightarrow> 'n json_text \<Rightarrow> (string \<Rightarrow> (string, 'n json) res) \<Rightarrow> db \<Rightarrow> bool" where
  "audit_sound cr jt parse d \<longleftrightarrow>
     verify_audit_chain cr jt parse (audit_events d) = Inr (True, None) \<and>
     sorted (map au_seq (audit_events d)) \<and> (\<forall>e \<in> set (audit_events d). au_seq e \<le> last_audit_seq d)"

lemma audit_quiet_keeps: "audit_quiet w \<Longrightarrow> env_keeps (\<lambda>d. audit_part d = a) w"
  by (auto simp: audit_quiet_def env_keeps_def)

lemma audit_quiet_script: "audit_quiet w \<Longrightarrow> set (script w') \<subseteq> set (script w) \<Longrightarrow> audit_quiet w'"
  by (auto simp: audit_quiet_def)

text \<open>A program that leaves the audit log alone.\<close>

lemma audit_untouched:
  assumes "keeps (\<lambda>d. audit_part d = audit_part (db w)) m" "m w = (r, w')" "audit_quiet w"
  shows "audit_part (db w') = audit_part (db w)" "audit_quiet w'"
  using keepsD [OF assms(1) refl audit_quiet_keeps [OF assms(3)] assms(2)]
    audit_quiet_script [OF assms(3) keeps_script [OF assms(1,2)]] by blast+

lemma keeps_audit_chain_tail [keeps_intros]: "keeps P audit_chain_tail"
  unfolding audit_chain_tail_def by (intro keeps_intros)

lemma by_seq_sorted: "sorted (map au_seq (audit_events d)) \<Longrightarrow> by_seq d = audit_events d"
  by (simp add: by_seq_def sort_key_id_if_sorted)

lemma audit_tail_sorted:
  "sorted (map au_seq (audit_events d)) \<Longrightarrow>
     opt_default audit_genesis_hash (audit_tail d) =
       (if audit_events d = [] then audit_genesis_hash else au_event_id_hash (last (audit_events d)))"
  by (cases "audit_events d" rule: rev_cases) (simp_all add: audit_tail_def by_seq_sorted opt_default_def)

lemma audit_chain_tail_InrE:
  assumes "audit_chain_tail w = (Inr t, w')" "audit_quiet w"
  obtains "audit_part (db w') = audit_part (db w)" "audit_quiet w'"
    "t = opt_default audit_genesis_hash (audit_tail (db w'))"
proof -
  have u: "audit_part (db w') = audit_part (db w)" "audit_quiet w'"
    using audit_untouched [OF keeps_audit_chain_tail assms(1,2)] by auto
  have "t = opt_default audit_genesis_hash (audit_tail (db w'))"
    using assms(1) unfolding audit_chain_tail_def by (elim bind_op_InrE query_InrE) simp
  with u that show thesis by blast
qed

lemma verify_rows_snoc:
  "verify_rows cr jt parse prev (es @ [e]) = Inr (True, None) \<longleftrightarrow>
     verify_rows cr jt parse prev es = Inr (True, None) \<and>
     (case (if es = [] then prev else Some (au_event_id_hash (last es))) of
        None \<Rightarrow> True | Some p \<Rightarrow> au_prev_event_id_hash e = p) \<and>
     (\<exists>v. parse (au_payload_json e) = Inr v
        \<and> audit_event_hash cr jt (au_prev_event_id_hash e) (au_kind e) v = au_event_id_hash e)"
  by (induction es arbitrary: prev)
    (auto simp: Let_def split: sum.splits option.splits)

text \<open>Inserting a row that continues the chain.\<close>

lemma insert_audit_sound:
  assumes sound: "audit_sound cr jt parse d" and tail: "prev = opt_default audit_genesis_hash (audit_tail d)"
    and payload: "parse (au_payload_json row) = Inr v"
    and hash: "au_event_id_hash row = audit_event_hash cr jt prev (au_kind row) v"
    and prev: "au_prev_event_id_hash row = prev" and ins: "insert_audit row d = (Inr x, d')"
  shows "audit_sound cr jt parse d'"
    and "audit_events d' = audit_events d @ [row\<lparr>au_seq := last_audit_seq d + 1\<rparr>]"
    and "seq_of_hash (au_event_id_hash row) d' = Some (last_audit_seq d + 1)"
proof -
  let ?row = "row\<lparr>au_seq := last_audit_seq d + 1\<rparr>"
  have fresh: "\<not> list_ex (\<lambda>e. au_event_id_hash e = au_event_id_hash row) (audit_events d)"
    and d': "d' = d\<lparr>audit_events := audit_events d @ [?row], last_audit_seq := last_audit_seq d + 1\<rparr>"
    using ins by (auto simp: insert_audit_def split: if_splits)
  show ev: "audit_events d' = audit_events d @ [?row]" by (simp add: d')
  have sorted: "sorted (map au_seq (audit_events d))"
    and le: "\<forall>e \<in> set (audit_events d). au_seq e \<le> last_audit_seq d"
    and ok: "verify_rows cr jt parse None (audit_events d) = Inr (True, None)"
    using sound by (auto simp: audit_sound_def verify_audit_chain_def)
  have "verify_rows cr jt parse None (audit_events d @ [?row]) = Inr (True, None)"
    unfolding verify_rows_snoc using ok payload hash prev tail audit_tail_sorted [OF sorted] by simp
  moreover have "sorted (map au_seq (audit_events d @ [?row]))"
    using sorted le by (fastforce simp: sorted_append)
  ultimately show "audit_sound cr jt parse d'"
    using le by (auto simp: audit_sound_def verify_audit_chain_def d')
  show "seq_of_hash (au_event_id_hash row) d' = Some (last_audit_seq d + 1)"
    using fresh by (simp add: seq_of_hash_def d' first_row_snoc list_ex_first_row)
qed

lemma audit_part_cong:
  assumes "audit_part d = audit_part d'"
  shows "audit_sound cr jt parse d = audit_sound cr jt parse d'" "audit_tail d = audit_tail d'"
    "audit_events d = audit_events d'" "seq_of_hash h d = seq_of_hash h d'"
  using assms by (simp_all add: audit_part_def audit_sound_def audit_tail_def by_seq_def seq_of_hash_def)

definition grows_by :: "audit_row \<Rightarrow> audit_row list \<Rightarrow> audit_row list \<Rightarrow> bool" where
  "grows_by row es fs \<longleftrightarrow> fs = es \<or> (\<exists>s. fs = es @ [row\<lparr>au_seq := s\<rparr>])"

lemma insert_statement_quiet:
  assumes s: "statement (insert_audit row) w = (q, w')" and quiet: "audit_quiet w"
    and sound: "audit_sound cr jt parse (db w)" and tail: "prev = opt_default audit_genesis_hash (audit_tail (db w))"
    and payload: "parse (au_payload_json row) = Inr v"
    and hash: "au_event_id_hash row = audit_event_hash cr jt prev (au_kind row) v"
    and prev: "au_prev_event_id_hash row = prev"
  shows "audit_sound cr jt parse (db w')" "audit_quiet w'"
    "grows_by row (audit_events (db w)) (audit_events (db w'))"
    "q = Inr x \<Longrightarrow> \<exists>s. seq_of_hash (au_event_id_hash row) (db w') = Some s
       \<and> audit_events (db w') = audit_events (db w) @ [row\<lparr>au_seq := s\<rparr>]"
proof -
  obtain rp wa where n: "next_turn w = (rp, wa)" by (rule prod.exhaust)
  have same: "audit_part (db wa) = audit_part (db w)"
    using next_turn_keeps [OF _ audit_quiet_keeps [OF quiet] n, of "audit_part (db w)"] by simp
  have qa: "audit_quiet wa" using audit_quiet_script [OF quiet next_turn_script [OF n]] .
  note same_simps = audit_part_cong [OF same]
  obtain y d where y: "insert_audit row (db wa) = (y, d)" by (rule prod.exhaust)
  have ins: "audit_sound cr jt parse d \<and>
      (\<exists>s. seq_of_hash (au_event_id_hash row) d = Some s \<and> audit_events d = audit_events (db w) @ [row\<lparr>au_seq := s\<rparr>])"
    if "y = Inr z" for z
    using insert_audit_sound [of cr jt parse "db wa" prev row v z d] sound tail payload hash prev y that same_simps
    by auto
  have w': "db w' = (if rp = Answered \<or> (\<exists>e. rp = Lost e) then (case y of Inr _ \<Rightarrow> d | Inl _ \<Rightarrow> db wa) else db wa)"
    using s n y by (cases rp; cases y) (auto simp: statement_def)
  have qa': "q = Inr x \<Longrightarrow> rp = Answered \<and> y = Inr x"
    using s n y by (cases rp; cases y) (auto simp: statement_def)
  have sc: "script w' = script wa"
    using s n y by (cases rp; cases y) (auto simp: statement_def)
  show "audit_sound cr jt parse (db w')" using w' ins same_simps(1) sound by (auto split: sum.split)
  show "audit_quiet w'" using qa sc by (simp add: audit_quiet_def)
  show "grows_by row (audit_events (db w)) (audit_events (db w'))"
    using w' ins same_simps(3) by (auto simp: grows_by_def split: sum.split)
  show "q = Inr x \<Longrightarrow> \<exists>s. seq_of_hash (au_event_id_hash row) (db w') = Some s
       \<and> audit_events (db w') = audit_events (db w) @ [row\<lparr>au_seq := s\<rparr>]"
    using qa' w' ins by auto
qed

lemma append_audit_event_quiet:
  assumes app: "append_audit_event tail hash tail kind task payload now w = (r, w')"
    and sound: "audit_sound cr jt parse (db w)" and quiet: "audit_quiet w"
    and payload: "parse payload = Inr v" and hash: "hash = audit_event_hash cr jt tail kind v"
  shows "audit_sound cr jt parse (db w')" (is ?sound) and "audit_quiet w'" (is ?quiet)
    and "grows_by \<lparr>au_seq = 0, au_event_id_hash = hash, au_prev_event_id_hash = tail, au_kind = kind,
                 au_task_id = task, au_payload_json = payload, au_created_at = now\<rparr>
           (audit_events (db w)) (audit_events (db w'))" (is ?grows)
    and "r = Inr (AppendOk e) \<Longrightarrow> audit_events (db w') = audit_events (db w) @ [e]" (is "_ \<Longrightarrow> ?added")
proof -
  let ?row = "\<lparr>au_seq = 0, au_event_id_hash = hash, au_prev_event_id_hash = tail, au_kind = kind,
    au_task_id = task, au_payload_json = payload, au_created_at = now\<rparr>"
  have "?sound \<and> ?quiet \<and> ?grows \<and> (r = Inr (AppendOk e) \<longrightarrow> ?added)"
  proof -
    obtain t w1 where t: "audit_chain_tail w = (t, w1)" by (rule prod.exhaust)
    have u: "audit_part (db w1) = audit_part (db w)" "audit_quiet w1"
      using audit_untouched [OF keeps_audit_chain_tail t quiet] by auto
    note same = audit_part_cong [OF u(1)]
    have sound1: "audit_sound cr jt parse (db w1)" using sound by (simp add: same(1))
    show ?thesis
    proof (cases "t = Inr tail")
      case False
      then have "w' = w1 \<and> (\<forall>e. r \<noteq> Inr (AppendOk e))"
        using app t by (cases t) (auto simp: append_audit_event_def bind_op_def)
      then show ?thesis using sound1 u(2) same(3) by (auto simp: grows_by_def)
    next
      case True
      with t have tl: "tail = opt_default audit_genesis_hash (audit_tail (db w1))"
        using quiet by (auto elim: audit_chain_tail_InrE)
      obtain q w2 where q: "statement (insert_audit ?row) w1 = (q, w2)" by (rule prod.exhaust)
      note ins = insert_statement_quiet [OF q u(2) sound1 tl, of v]
      have ins': "audit_sound cr jt parse (db w2)" "audit_quiet w2"
          "grows_by ?row (audit_events (db w)) (audit_events (db w2))"
        using ins(1-3) payload hash same(3) by simp_all
      show ?thesis
      proof (cases q)
        case (Inl err)
        have "(if (case err of StatusError _ body \<Rightarrow> contains_str ''UNIQUE constraint'' body | _ \<Rightarrow> False)
            then bind_op audit_chain_tail (\<lambda>t. ret (TailConflict tail t)) else fail (store_error_of err)) w2 = (r, w')"
          using app t True q Inl by (simp add: append_audit_event_def bind_op_def catch_rq_def Let_def)
        moreover obtain t2 w3 where t2: "audit_chain_tail w2 = (t2, w3)" by (rule prod.exhaust)
        ultimately have w3: "(w' = w2 \<or> w' = w3) \<and> (\<forall>e. r \<noteq> Inr (AppendOk e))"
          by (cases t2) (auto simp: bind_op_def ret_def split: if_splits)
        have "audit_part (db w3) = audit_part (db w2)" "audit_quiet w3"
          using audit_untouched [OF keeps_audit_chain_tail t2 ins'(2)] by auto
        then show ?thesis using w3 ins' audit_part_cong [of "db w3" "db w2"] by auto
      next
        case (Inr x)
        obtain s w3 where s: "query (seq_of_hash hash) w2 = (s, w3)" by (rule prod.exhaust)
        have u3: "audit_part (db w3) = audit_part (db w2)" "audit_quiet w3"
          using audit_untouched [OF keeps_query s ins'(2)] by auto
        have rw: "w' = w3" "r = (case s of Inl e \<Rightarrow> Inl e | Inr s \<Rightarrow> Inr (AppendOk (?row\<lparr>au_seq := opt_default 0 s\<rparr>)))"
          using app t True q Inr s
          by (auto simp: append_audit_event_def bind_op_def catch_rq_def Let_def ret_def split: sum.splits)
        obtain k where k: "seq_of_hash hash (db w2) = Some k"
            "audit_events (db w2) = audit_events (db w1) @ [?row\<lparr>au_seq := k\<rparr>]"
          using ins(4) [of x] payload hash Inr by auto
        have "s = Inr s' \<Longrightarrow> s' = Some k" for s'
          using s k(1) audit_part_cong(4) [OF u3(1)] by (auto elim: query_InrE)
        then have "r = Inr (AppendOk e) \<longrightarrow> ?added"
          using rw k(2) audit_part_cong(3) [OF u3(1)] same(3) by (auto simp: opt_default_def split: sum.splits)
        then show ?thesis using rw(1) ins' u3 audit_part_cong [OF u3(1)] by auto
      qed
    qed
  qed
  then show ?sound ?quiet ?grows "r = Inr (AppendOk e) \<Longrightarrow> ?added" by blast+
qed

section \<open>Appending in a race\<close>

lemma verify_rows_append:
  "verify_rows cr jt parse prev es = Inr (True, None) \<Longrightarrow>
     verify_rows cr jt parse prev (es @ fs) =
       verify_rows cr jt parse (if es = [] then prev else Some (au_event_id_hash (last es))) fs"
  by (induction es arbitrary: prev) (auto simp: Let_def split: sum.splits if_splits option.splits)

text \<open>A world in which another client's insertion runs after our first statement.\<close>

definition rival_insert :: "audit_row \<Rightarrow> db \<Rightarrow> world" where
  "rival_insert row d =
     \<lparr>db = d, script = [\<lparr>turn_env = id, turn_reply = Answered\<rparr>,
                       \<lparr>turn_env = \<lambda>d. snd (insert_audit row d), turn_reply = Answered\<rparr>]\<rparr>"

text \<open>
  The tail check does not serialise appends. When another client inserts its event between our
  reading of the tail and our insertion, both appends succeed on the same tail: the log holds two
  events with the same predecessor and the stored chain no longer verifies. The unique constraint on
  the event hash, on which the code relies, sees nothing, because the two hashes differ.
\<close>

lemma audit_append_race:
  assumes "audit_sound cr jt parse d" and "t = opt_default audit_genesis_hash (audit_tail d)"
    and "au_prev_event_id_hash other = t" and "parse (au_payload_json other) = Inr v"
    and "au_event_id_hash other = audit_event_hash cr jt t (au_kind other) v"
    and "h \<noteq> au_event_id_hash other" and "au_event_id_hash other \<noteq> t"
    and "\<not> list_ex (\<lambda>e. au_event_id_hash e = au_event_id_hash other \<or> au_event_id_hash e = h) (audit_events d)"
  shows "\<exists>e other' m d'. append_audit_event t h t kind task payload now (rival_insert other d) =
      (Inr (AppendOk e), \<lparr>db = d', script = []\<rparr>)
    \<and> audit_events d' = audit_events d @ [other', e]
    \<and> au_event_id_hash other' = au_event_id_hash other
    \<and> au_prev_event_id_hash other' = t \<and> au_prev_event_id_hash e = t
    \<and> verify_audit_chain cr jt parse (audit_events d') = Inr (False, Some m)"
proof -
  let ?n = "last_audit_seq d"
  let ?o = "other\<lparr>au_seq := ?n + 1\<rparr>"
  let ?e = "\<lparr>au_seq = ?n + 2, au_event_id_hash = h, au_prev_event_id_hash = t, au_kind = kind,
    au_task_id = task, au_payload_json = payload, au_created_at = now\<rparr>"
  let ?d = "d\<lparr>audit_events := audit_events d @ [?o, ?e], last_audit_seq := ?n + 2\<rparr>"
  have fresh: "\<not> list_ex (\<lambda>e. au_event_id_hash e = au_event_id_hash other) (audit_events d)"
    "\<not> list_ex (\<lambda>e. au_event_id_hash e = h) (audit_events d)"
    using assms(8) by (auto simp: list_ex_iff)
  have first: "first_row (\<lambda>e. au_event_id_hash e = h) (audit_events d @ [?o, e]) = Some e"
    if "au_event_id_hash e = h" for e
    using that fresh(2) assms(6) first_row_snoc [of "\<lambda>e. au_event_id_hash e = h" "audit_events d @ [?o]" e]
      first_row_snoc [of "\<lambda>e. au_event_id_hash e = h" "audit_events d" ?o]
    by (simp add: list_ex_first_row)
  have app: "append_audit_event t h t kind task payload now (rival_insert other d) = (Inr (AppendOk ?e), \<lparr>db = ?d, script = []\<rparr>)"
    using fresh assms(2,6)
    by (simp add: first append_audit_event_def rival_insert_def audit_chain_tail_def bind_op_def ret_def query_def lift_rq_def
        query_rq_def statement_def next_turn_def Let_def catch_rq_def insert_audit_def seq_of_hash_def opt_default_def)
  have ok: "verify_rows cr jt parse None (audit_events d) = Inr (True, None)"
    and sorted: "sorted (map au_seq (audit_events d))"
    using assms(1) by (simp_all add: audit_sound_def verify_audit_chain_def)
  have "t = (if audit_events d = [] then audit_genesis_hash else au_event_id_hash (last (audit_events d)))"
    using assms(2) audit_tail_sorted [OF sorted] by simp
  then have "\<exists>m. verify_audit_chain cr jt parse (audit_events ?d) = Inr (False, Some m)"
    unfolding verify_audit_chain_def using assms(3-5,7) verify_rows_append [OF ok, of "[?o, ?e]"]
    by (auto simp: Let_def)
  then show ?thesis using app assms(3) by (intro exI [of _ ?e] exI [of _ ?o]) auto
qed

definition rival_row :: audit_row where
  "rival_row =
     \<lparr>au_seq = 0, au_event_id_hash = audit_event_hash toy_crypto toy_text audit_genesis_hash ''claim'' (JNum 1),
      au_prev_event_id_hash = audit_genesis_hash, au_kind = ''claim'', au_task_id = None,
      au_payload_json = ''1'', au_created_at = ''now''\<rparr>"

lemma audit_append_race_witness:
  "\<exists>e other' m d'. append_audit_event audit_genesis_hash ''h'' audit_genesis_hash ''dispatch'' None ''1'' ''now''
      (rival_insert rival_row empty_db) = (Inr (AppendOk e), \<lparr>db = d', script = []\<rparr>)
    \<and> audit_events d' = audit_events empty_db @ [other', e]
    \<and> au_event_id_hash other' = au_event_id_hash rival_row
    \<and> au_prev_event_id_hash other' = audit_genesis_hash \<and> au_prev_event_id_hash e = audit_genesis_hash
    \<and> verify_audit_chain toy_crypto toy_text (\<lambda>_. Inr (JNum 1)) (audit_events d') = Inr (False, Some m)"
proof (rule audit_append_race)
  show "audit_sound toy_crypto toy_text (\<lambda>_. Inr (JNum 1)) empty_db"
    by (simp add: audit_sound_def verify_audit_chain_def empty_db_def)
  show "''h'' \<noteq> au_event_id_hash rival_row" "au_event_id_hash rival_row \<noteq> audit_genesis_hash"
    by code_simp+
qed (simp_all add: rival_row_def empty_db_def audit_tail_def by_seq_def opt_default_def)

end
