(* ===== verification/Secrets.thy ===== *)
theory Secrets
  imports Json
begin

text \<open>
  Sealed secrets and redaction (\<^verbatim>\<open>crates/fabric-secrets/src/lib.rs\<close>): the versioned envelope
  \<^verbatim>\<open>fwsecret:v1:nonce:ciphertext\<close>, the master key from the environment, and the replacement of
  secret values in texts and JSON values. AES-256-GCM and base64 are third-party code and fields of a
  record of parameters; the nonce that \<^verbatim>\<open>OsRng\<close> draws is an argument of \<open>seal\<close>.
\<close>

section \<open>Errors\<close>

datatype secret_error =
    KeyUnavailable string
  | InvalidKey string
  | LegacyUnsealed string
  | InvalidEnvelope string string
  | MissingSecret string
  | ProviderIo string

fun secret_error_text :: "secret_error \<Rightarrow> string" where
  "secret_error_text (KeyUnavailable m) = ''master key unavailable: '' @ m"
| "secret_error_text (InvalidKey m) = ''master key is invalid: '' @ m"
| "secret_error_text (LegacyUnsealed n) =
     ''secret '' @ [CHR 0x27] @ n @ [CHR 0x27]
     @ '' contains a legacy unsealed value; rotate or delete it before use''"
| "secret_error_text (InvalidEnvelope n m) =
     ''secret '' @ [CHR 0x27] @ n @ [CHR 0x27] @ '' has an invalid encrypted envelope: '' @ m"
| "secret_error_text (MissingSecret n) =
     ''secret '' @ [CHR 0x27] @ n @ [CHR 0x27]
     @ '' is missing; create or rotate it before claiming this task''"
| "secret_error_text (ProviderIo m) = ''secret provider I/O failed: '' @ m"

fun secret_error_code :: "secret_error \<Rightarrow> string" where
  "secret_error_code (KeyUnavailable _) = ''secret_key_unavailable''"
| "secret_error_code (InvalidKey _) = ''secret_key_invalid''"
| "secret_error_code (LegacyUnsealed _) = ''legacy_secret_requires_rotation''"
| "secret_error_code (InvalidEnvelope _ _) = ''secret_envelope_invalid''"
| "secret_error_code (MissingSecret _) = ''secret_missing''"
| "secret_error_code (ProviderIo _) = ''secret_provider_io''"

fun secret_remediation :: "secret_error \<Rightarrow> string" where
  "secret_remediation (LegacyUnsealed _) = ''rotate or delete the named legacy secret''"
| "secret_remediation (MissingSecret _) = ''create the named secret or remove it from secrets_needed''"
| "secret_remediation (InvalidEnvelope _ _) = ''rotate or delete the named corrupt secret''"
| "secret_remediation _ = ''provision a valid 32-byte master key provider and retry''"

section \<open>The master key\<close>

definition validate_key :: "string \<Rightarrow> (secret_error, string) res" where
  "validate_key bytes =
     (if length bytes \<noteq> 32
      then Inl (InvalidKey (''expected 32 bytes, received '' @ show_nat (length bytes)))
      else Inr bytes)"

definition hex_digit_value :: "char \<Rightarrow> nat option" where
  "hex_digit_value c =
     (let n = of_char c :: nat in
      if 48 \<le> n \<and> n \<le> 57 then Some (n - 48)
      else if 65 \<le> n \<and> n \<le> 70 then Some (n - 55)
      else if 97 \<le> n \<and> n \<le> 102 then Some (n - 87)
      else None)"

text \<open>\<open>u8::from_str_radix\<close> in base 16 on two characters: a leading plus is allowed.\<close>

definition hex_pair :: "char \<Rightarrow> char \<Rightarrow> nat option" where
  "hex_pair a b =
     (if a = CHR ''+'' then hex_digit_value b
      else case (hex_digit_value a, hex_digit_value b) of
        (Some x, Some y) \<Rightarrow> Some (16 * x + y) | _ \<Rightarrow> None)"

fun hex_bytes :: "string \<Rightarrow> (secret_error, string) res" where
  "hex_bytes (a # b # s) =
     (if \<not> valid_utf8 [a, b] then Inl (InvalidKey ''hex key is not UTF-8'')
      else case hex_pair a b of
        None \<Rightarrow> Inl (InvalidKey ''hex key contains non-hex characters'')
      | Some n \<Rightarrow> (case hex_bytes s of Inl e \<Rightarrow> Inl e | Inr r \<Rightarrow> Inr (char_of n # r)))"
| "hex_bytes _ = Inr []"

definition key_of_hex :: "string \<Rightarrow> (secret_error, string) res" where
  "key_of_hex encoded =
     (if length encoded \<noteq> 64 then Inl (InvalidKey ''hex key must contain exactly 64 characters'')
      else hex_bytes encoded)"

text \<open>The provider that reads \<^verbatim>\<open>FORGEWIRE_SECRETS_KEY_HEX\<close>, given what the variable holds.\<close>

definition env_load_key :: "string option \<Rightarrow> (secret_error, string) res" where
  "env_load_key v =
     (case v of
        None \<Rightarrow> Inl (KeyUnavailable ''FORGEWIRE_SECRETS_KEY_HEX is not set'')
      | Some encoded \<Rightarrow> bind_res (key_of_hex encoded) validate_key)"

section \<open>The broker\<close>

text \<open>
  \<open>load_key\<close> is what the provider answers; \<open>gcm_encrypt\<close> and \<open>gcm_decrypt\<close> take key, nonce,
  associated data and message.
\<close>

record broker =
  load_key :: "(secret_error, string) res"
  b64_encode :: "string \<Rightarrow> string"
  b64_decode :: "string \<Rightarrow> string option"
  gcm_encrypt :: "string \<Rightarrow> string \<Rightarrow> string \<Rightarrow> string \<Rightarrow> string option"
  gcm_decrypt :: "string \<Rightarrow> string \<Rightarrow> string \<Rightarrow> string \<Rightarrow> string option"

definition check_key :: "broker \<Rightarrow> (secret_error, unit) res" where
  "check_key br = bind_res (load_key br) (\<lambda>_. Inr ())"

definition aes_key :: "string \<Rightarrow> (secret_error, string) res" where
  "aes_key key = (if length key = 32 then Inr key else Inl (InvalidKey ''AES-256 requires 32 bytes''))"

definition seal :: "broker \<Rightarrow> string \<Rightarrow> string \<Rightarrow> string \<Rightarrow> (secret_error, string) res" where
  "seal br nonce name plaintext =
     bind_res (load_key br) (\<lambda>k. bind_res (aes_key k) (\<lambda>key.
       case gcm_encrypt br key nonce name plaintext of
         None \<Rightarrow> Inl (InvalidEnvelope name ''encryption failed'')
       | Some c \<Rightarrow> Inr (''fwsecret:v1:'' @ b64_encode br nonce @ '':'' @ b64_encode br c)))"

definition open_fields :: "broker \<Rightarrow> string \<Rightarrow> string \<Rightarrow> string \<Rightarrow> (secret_error, string) res" where
  "open_fields br name nonce_text cipher_text =
     (case b64_decode br nonce_text of
        None \<Rightarrow> Inl (InvalidEnvelope name ''nonce is not base64'')
      | Some nonce \<Rightarrow>
          if length nonce \<noteq> 12 then Inl (InvalidEnvelope name ''nonce must be 12 bytes'')
          else case b64_decode br cipher_text of
            None \<Rightarrow> Inl (InvalidEnvelope name ''ciphertext is not base64'')
          | Some c \<Rightarrow>
              bind_res (load_key br) (\<lambda>k. bind_res (aes_key k) (\<lambda>key.
                case gcm_decrypt br key nonce name c of
                  None \<Rightarrow> Inl (InvalidEnvelope name ''authentication failed'')
                | Some p \<Rightarrow>
                    if valid_utf8 p then Inr p
                    else Inl (InvalidEnvelope name ''plaintext is not UTF-8''))))"

definition open_secret :: "broker \<Rightarrow> string \<Rightarrow> string \<Rightarrow> (secret_error, string) res" where
  "open_secret br name envelope =
     (case split_on (CHR '':'') envelope of
        a # b # rest \<Rightarrow>
          if a = ''fwsecret'' \<and> b = ''v1'' then
            (case rest of
               [] \<Rightarrow> Inl (InvalidEnvelope name ''nonce missing'')
             | [n] \<Rightarrow> Inl (InvalidEnvelope name ''ciphertext missing'')
             | [n, c] \<Rightarrow> open_fields br name n c
             | n # c # x # xs \<Rightarrow> Inl (InvalidEnvelope name ''unexpected envelope fields''))
          else Inl (LegacyUnsealed name)
      | _ \<Rightarrow> Inl (LegacyUnsealed name))"

section \<open>Redaction\<close>

definition placeholder :: "string \<Rightarrow> string" where
  "placeholder name = ''['' @ (''REDACTED:secret:'' @ name) @ '']''"

text \<open>The opened values, longest first.\<close>

definition open_all :: "broker \<Rightarrow> (string \<times> string) list \<Rightarrow> (secret_error, (string \<times> string) list) res" where
  "open_all br envelopes =
     bind_res (collect_res (\<lambda>(n, e). bind_res (open_secret br n e) (\<lambda>v. Inr (n, v))) envelopes)
       (\<lambda>vs. Inr (sort_key (\<lambda>(n, v). - int (length v)) vs))"

fun redact_with :: "(string \<times> string) list \<Rightarrow> string \<Rightarrow> string" where
  "redact_with [] text = text"
| "redact_with ((name, value) # vs) text =
     redact_with vs (if value = [] then text else str_replace value (placeholder name) text)"

definition redact_text :: "broker \<Rightarrow> string \<Rightarrow> (string \<times> string) list \<Rightarrow> (secret_error, string) res" where
  "redact_text br text envelopes =
     bind_res (open_all br envelopes) (\<lambda>vs. Inr (redact_with vs text))"

primrec redact_json :: "(string \<Rightarrow> string) \<Rightarrow> 'n json \<Rightarrow> 'n json" where
  "redact_json f JNull = JNull"
| "redact_json f (JBool b) = JBool b"
| "redact_json f (JNum n) = JNum n"
| "redact_json f (JStr s) = JStr (f s)"
| "redact_json f (JArr vs) = JArr (map (redact_json f) vs)"
| "redact_json f (JObj es) = JObj (map (map_prod id (redact_json f)) es)"

definition redact_value ::
  "broker \<Rightarrow> 'n json \<Rightarrow> (string \<times> string) list \<Rightarrow> (secret_error, 'n json) res" where
  "redact_value br value envelopes =
     bind_res (open_all br envelopes) (\<lambda>vs. Inr (redact_json (redact_with vs) value))"

section \<open>Round trip\<close>

text \<open>What the code relies on of base64 and AES-GCM.\<close>

definition codec_ok :: "broker \<Rightarrow> bool" where
  "codec_ok br \<longleftrightarrow>
     (\<forall>x. b64_decode br (b64_encode br x) = Some x \<and> CHR '':'' \<notin> set (b64_encode br x)) \<and>
     (\<forall>k n a m c. gcm_encrypt br k n a m = Some c \<longrightarrow> gcm_decrypt br k n a c = Some m)"

lemma open_sealed_fields:
  assumes "codec_ok br"
  shows "open_secret br name (''fwsecret:v1:'' @ b64_encode br nonce @ '':'' @ b64_encode br c) =
    open_fields br name (b64_encode br nonce) (b64_encode br c)"
proof -
  have "split_on CHR '':'' (b64_encode br nonce @ CHR '':'' # b64_encode br c) = [b64_encode br nonce, b64_encode br c]"
    using assms by (simp add: codec_ok_def split_on_append_sep split_on_no_sep)
  then show ?thesis by (simp add: open_secret_def)
qed

text \<open>
  What the code relies on of authenticated encryption, in its ideal form: a ciphertext is accepted only
  with the associated data it was made with.
\<close>

definition authentic :: "broker \<Rightarrow> bool" where
  "authentic br \<longleftrightarrow>
     (\<forall>k n a b m c. gcm_encrypt br k n a m = Some c \<longrightarrow> gcm_decrypt br k n b c \<noteq> None \<longrightarrow> b = a)"

text \<open>
  C26. What the broker seals under a name it opens under that name, with the same key, and under no other:
  an envelope moved to another name is refused because the name is authenticated with the ciphertext.
\<close>

theorem seal_open_roundtrip:
  assumes "codec_ok br" and "authentic br" and "length nonce = 12" and "valid_utf8 plaintext"
    and "seal br nonce name plaintext = Inr envelope"
  shows "open_secret br other envelope =
    (if other = name then Inr plaintext else Inl (InvalidEnvelope other ''authentication failed''))"
proof -
  obtain k c where k: "load_key br = Inr k" "length k = 32"
    and c: "gcm_encrypt br k nonce name plaintext = Some c"
    and e: "envelope = ''fwsecret:v1:'' @ b64_encode br nonce @ '':'' @ b64_encode br c"
    using assms(5) by (auto simp: seal_def bind_res_Inr_iff aes_key_def split: if_splits option.splits)
  have "gcm_decrypt br k nonce name c = Some plaintext" using assms(1) c by (simp add: codec_ok_def)
  moreover have "gcm_decrypt br k nonce other c = None" if "other \<noteq> name"
    using assms(2) c that unfolding authentic_def by blast
  ultimately show ?thesis
    unfolding e open_sealed_fields [OF assms(1)]
    using assms(1,3,4) k by (simp add: open_fields_def codec_ok_def aes_key_def)
qed

section \<open>Redaction hides the secrets\<close>

text \<open>
  A value the redaction can hide for good: it is not empty, holds no square bracket and is no part
  of a placeholder's label.
\<close>

definition hidable :: "string list \<Rightarrow> string \<Rightarrow> bool" where
  "hidable names v \<longleftrightarrow>
     v \<noteq> [] \<and> CHR ''['' \<notin> set v \<and> CHR '']'' \<notin> set v \<and>
     (\<forall>n \<in> set names. \<not> contains_str v (''REDACTED:secret:'' @ n))"

lemma placeholder_Cons: "placeholder n = CHR ''['' # (''REDACTED:secret:'' @ n) @ [CHR '']'']"
  by (simp add: placeholder_def)

lemma redact_step_free:
  assumes "hidable names v" "n \<in> set names" "\<not> contains_str v t"
  shows "\<not> contains_str v (str_replace w (placeholder n) t)"
  using assms sublist_str_replace [of "CHR ''[''" v "CHR '']''" "''REDACTED:secret:'' @ n" w t]
  unfolding placeholder_Cons contains_str_iff hidable_def by blast

lemma redact_step_removes:
  assumes "hidable names v" "n \<in> set names"
  shows "\<not> contains_str v (str_replace v (placeholder n) t)"
  using assms str_replace_removes [of "CHR ''[''" v "CHR '']''" "''REDACTED:secret:'' @ n" t]
  unfolding placeholder_Cons contains_str_iff hidable_def by blast

lemma redact_with_free:
  "hidable names v \<Longrightarrow> fst ` set vs \<subseteq> set names \<Longrightarrow> \<not> contains_str v t \<Longrightarrow>
     \<not> contains_str v (redact_with vs t)"
  by (induction vs t rule: redact_with.induct) (simp_all add: redact_step_free)

lemma redact_with_removes:
  "hidable names v \<Longrightarrow> fst ` set vs \<subseteq> set names \<Longrightarrow> v \<in> snd ` set vs \<Longrightarrow>
     \<not> contains_str v (redact_with vs t)"
proof (induction vs t rule: redact_with.induct)
  case (1 t)
  then show ?case by simp
next
  case (2 name val vs t)
  show ?case
  proof (cases "v = val")
    case True
    then have "\<not> contains_str v (str_replace val (placeholder name) t)"
      using redact_step_removes [OF 2(2)] 2(3) by simp
    then show ?thesis
      using redact_with_free [OF 2(2)] 2(2,3) True by (simp add: hidable_def)
  next
    case False
    then show ?thesis using 2 by simp
  qed
qed

lemma open_all_values:
  assumes "open_all br envelopes = Inr vs"
  shows "fst ` set vs = fst ` set envelopes"
    and "(n, e) \<in> set envelopes \<Longrightarrow> open_secret br n e = Inr v \<Longrightarrow> v \<in> snd ` set vs"
proof -
  obtain us where all: "list_all2 (\<lambda>x y. (case x of (n, e) \<Rightarrow> bind_res (open_secret br n e) (\<lambda>v. Inr (n, v))) = Inr y) envelopes us"
      and vs: "set vs = set us"
    using assms by (auto simp: open_all_def bind_res_Inr_iff collect_res_Inr_iff)
  have us: "list_all2 (\<lambda>x y. open_secret br (fst x) (snd x) = Inr (snd y) \<and> fst y = fst x) envelopes us"
    by (rule list_all2_mono [OF all]) (auto simp: bind_res_Inr_iff split: prod.splits)
  from us have "fst ` set us = fst ` set envelopes"
    by (induction rule: list_all2_induct) auto
  with vs show "fst ` set vs = fst ` set envelopes" by simp
  assume "(n, e) \<in> set envelopes" "open_secret br n e = Inr v"
  with us have "\<exists>y \<in> set us. open_secret br n e = Inr (snd y)"
    by (induction rule: list_all2_induct) auto
  then obtain y where "y \<in> set us" "open_secret br n e = Inr (snd y)" by blast
  with vs \<open>open_secret br n e = Inr v\<close> show "v \<in> snd ` set vs" by auto
qed

fun json_texts :: "'n json \<Rightarrow> string list" where
  "json_texts (JStr s) = [s]"
| "json_texts (JArr vs) = concat (map json_texts vs)"
| "json_texts (JObj es) = concat (map (\<lambda>e. json_texts (snd e)) es)"
| "json_texts _ = []"

lemma json_texts_redact: "json_texts (redact_json f v) = map f (json_texts v)"
proof (induction v)
  case (JArr vs)
  then show ?case by (simp add: map_concat comp_def cong: map_cong)
next
  case (JObj es)
  have "json_texts (redact_json f (snd e)) = map f (json_texts (snd e))" if "e \<in> set es" for e
    using JObj that by (cases e) auto
  then show ?case by (simp add: map_concat comp_def cong: map_cong)
qed simp_all

text \<open>The keys of the objects, in order.\<close>

fun json_keys :: "'n json \<Rightarrow> string list" where
  "json_keys (JArr vs) = concat (map json_keys vs)"
| "json_keys (JObj es) = concat (map (\<lambda>e. fst e # json_keys (snd e)) es)"
| "json_keys _ = []"

lemma json_keys_redact: "json_keys (redact_json f v) = json_keys v"
proof (induction v)
  case (JArr vs)
  then show ?case by (simp add: comp_def cong: map_cong)
next
  case (JObj es)
  have "json_keys (redact_json f (snd e)) = json_keys (snd e)" if "e \<in> set es" for e
    using JObj that by (cases e) auto
  then show ?case by (simp add: comp_def cong: map_cong)
qed simp_all

text \<open>
  C25. Redaction hides every hidable secret in the string values: when the redaction of a JSON value
  succeeds, no string value in the result, at any depth, contains the value of a secret that is not
  empty, holds no square bracket and is no part of the label of a placeholder. The keys of objects are
  not redacted: they are the keys of the input, so a secret used as a key survives.
\<close>

theorem redact_value_hides_secrets:
  assumes "redact_value br value envelopes = Inr out" and "(n, e) \<in> set envelopes"
    and "open_secret br n e = Inr secret" and "hidable (map fst envelopes) secret"
  shows "list_all (\<lambda>s. \<not> contains_str secret s) (json_texts out) \<and> json_keys out = json_keys value"
proof -
  obtain vs where vs: "open_all br envelopes = Inr vs" and out: "out = redact_json (redact_with vs) value"
    using assms(1) by (auto simp: redact_value_def bind_res_Inr_iff)
  have "\<not> contains_str secret (redact_with vs s)" for s
    using redact_with_removes [OF assms(4)] open_all_values [OF vs] assms(2,3) by simp
  then show ?thesis by (simp add: out json_texts_redact json_keys_redact list_all_iff)
qed

text \<open>A broker for the examples: it does not encrypt, and its base64 is the hex of a nibble.\<close>

definition toy_nibble :: "nat \<Rightarrow> char" where
  "toy_nibble n = char_of (97 + n)"

fun toy_unhex :: "string \<Rightarrow> string option" where
  "toy_unhex [] = Some []"
| "toy_unhex [c] = None"
| "toy_unhex (a # b # s) =
     map_option (\<lambda>r. char_of (16 * (of_char a - 97) + (of_char b - 97) :: nat) # r) (toy_unhex s)"

definition toy_hex :: "string \<Rightarrow> string" where
  "toy_hex s = concat (map (\<lambda>c. [toy_nibble (of_char c div 16), toy_nibble (of_char c mod 16)]) s)"

definition toy_broker :: broker where
  "toy_broker =
     \<lparr>load_key = Inr (replicate 32 (CHR ''k'')), b64_encode = toy_hex, b64_decode = toy_unhex,
      gcm_encrypt = (\<lambda>k n a m. Some m), gcm_decrypt = (\<lambda>k n a c. Some c)\<rparr>"

lemma nibble_less: "(of_char c :: nat) div 16 < 16"
  by (rule less_mult_imp_div_less) simp

lemma toy_unhex_hex: "toy_unhex (toy_hex s) = Some s"
proof (induction s)
  case (Cons c s)
  have "(of_char c :: nat) div 16 < 16" "(of_char c :: nat) < 256"
    by (simp_all add: nibble_less)
  then show ?case using Cons by (simp add: toy_hex_def toy_nibble_def)
qed (simp add: toy_hex_def)

lemma toy_codec_ok: "codec_ok toy_broker"
proof -
  have "toy_nibble n \<noteq> CHR '':''" if "n < 16" for n
    using that by (auto simp: toy_nibble_def dest!: arg_cong [of _ _ "of_char :: char \<Rightarrow> nat"])
  then have "toy_nibble (of_char c div 16) \<noteq> CHR '':''" "toy_nibble (of_char c mod 16) \<noteq> CHR '':''" for c
    using nibble_less [of c] by simp_all
  then have "CHR '':'' \<notin> set (toy_hex s)" for s
    by (induction s) (simp_all add: toy_hex_def not_sym)
  then show ?thesis by (simp add: codec_ok_def toy_broker_def toy_unhex_hex)
qed

lemma toy_seal:
  "seal toy_broker (replicate 12 (CHR ''n'')) ''db'' ''hunter2'' = Inr (''fwsecret:v1:''
     @ toy_hex (replicate 12 (CHR ''n'')) @ '':'' @ toy_hex ''hunter2'')"
  by (simp add: seal_def toy_broker_def aes_key_def)

lemma ascii_secret: "valid_utf8 ''hunter2''"
  by (rule ascii_valid_utf8) (simp add: is_ascii_def)

text \<open>A broker whose ciphertext carries the name it was sealed under.\<close>

definition named_broker :: broker where
  "named_broker = toy_broker
     \<lparr>gcm_encrypt := (\<lambda>k n a m. Some (toy_hex a @ CHR '':'' # m)),
      gcm_decrypt := (\<lambda>k n a c. strip_prefix (toy_hex a @ '':'') c)\<rparr>"

lemma toy_hex_colon: "CHR '':'' \<notin> set (toy_hex s)"
  using toy_codec_ok by (simp add: codec_ok_def toy_broker_def)

lemma named_codec_ok: "codec_ok named_broker"
  using toy_codec_ok strip_prefix_append [of "toy_hex a @ '':''" for a] by (simp add: codec_ok_def named_broker_def toy_broker_def)

lemma named_authentic: "authentic named_broker"
proof -
  have "b = a" if nn: "strip_prefix (toy_hex b @ '':'') (toy_hex a @ CHR '':'' # m) \<noteq> None" for a b m
  proof -
    obtain r where "strip_prefix (toy_hex b @ '':'') (toy_hex a @ CHR '':'' # m) = Some r" using nn by blast
    then have "toy_hex a @ CHR '':'' # m = toy_hex b @ CHR '':'' # r" by (simp add: strip_prefix_Some_iff)
    then have "split_on CHR '':'' (toy_hex a @ CHR '':'' # m) = split_on CHR '':'' (toy_hex b @ CHR '':'' # r)" by simp
    then have "toy_hex a = toy_hex b" by (simp add: split_on_append_sep toy_hex_colon)
    then show "b = a" by (metis toy_unhex_hex option.inject)
  qed
  then show ?thesis by (auto simp: authentic_def named_broker_def)
qed

definition named_envelope :: string where
  "named_envelope = ''fwsecret:v1:'' @ toy_hex (replicate 12 (CHR ''n'')) @ '':'' @ toy_hex (toy_hex ''db'' @ '':hunter2'')"

lemma named_seal: "seal named_broker (replicate 12 (CHR ''n'')) ''db'' ''hunter2'' = Inr named_envelope"
  by (simp add: seal_def named_broker_def toy_broker_def aes_key_def named_envelope_def)

theorem seal_open_roundtrip_witness:
  "open_secret named_broker ''db'' named_envelope = Inr ''hunter2''
   \<and> open_secret named_broker ''ci'' named_envelope = Inl (InvalidEnvelope ''ci'' ''authentication failed'')"
  using seal_open_roundtrip [OF named_codec_ok named_authentic _ ascii_secret named_seal, of "''db''"]
    seal_open_roundtrip [OF named_codec_ok named_authentic _ ascii_secret named_seal, of "''ci''"] by simp

definition toy_envelope :: "string" where
  "toy_envelope = ''fwsecret:v1:'' @ toy_hex (replicate 12 (CHR ''n'')) @ '':'' @ toy_hex ''hunter2''"

lemma toy_open: "open_secret toy_broker ''db'' toy_envelope = Inr ''hunter2''"
  using open_sealed_fields [OF toy_codec_ok, of "''db''" "replicate 12 (CHR ''n'')" "''hunter2''"]
  by (simp add: toy_envelope_def open_fields_def aes_key_def ascii_secret toy_broker_def toy_unhex_hex)

theorem redact_value_hides_secrets_witness:
  "\<exists>out. redact_value toy_broker (JArr [JStr ''pw=hunter2;'', JNum (1 :: int)]) [(''db'', toy_envelope)] = Inr out
    \<and> list_all (\<lambda>s. \<not> contains_str ''hunter2'' s) (json_texts out)"
proof -
  have r: "redact_value toy_broker (JArr [JStr ''pw=hunter2;'', JNum (1 :: int)]) [(''db'', toy_envelope)]
      = Inr (redact_json (redact_with [(''db'', ''hunter2'')]) (JArr [JStr ''pw=hunter2;'', JNum (1 :: int)]))"
    by (simp add: redact_value_def open_all_def toy_open)
  have h: "hidable (map fst [(''db'', toy_envelope)]) ''hunter2''" by (simp add: hidable_def)
  show ?thesis
    using redact_value_hides_secrets [OF r _ toy_open h] r by auto
qed

text \<open>Two values the redaction leaves visible: a key, and a secret that is part of the placeholder.\<close>

lemma secret_key_survives:
  "redact_value toy_broker (JObj [(''hunter2'', JNum (1 :: int))]) [(''db'', toy_envelope)]
    = Inr (JObj [(''hunter2'', JNum 1)])"
  by (simp add: redact_value_def open_all_def toy_open)

lemma placeholder_shows_secret: "redact_with [(''db'', ''secret'')] ''pw=secret'' = ''pw=[REDACTED:secret:db]''"
  by code_simp

end
