(* ===== verification/ForgeLink.thy ===== *)
theory ForgeLink
  imports StoreTypes
begin

text \<open>
  The optional routing of approvals to ForgeLink (\<^verbatim>\<open>crates/fabric-hub/src/forgelink.rs\<close>): the
  configuration read from the environment, the request that is sent for a held task, and how the
  answer to a status poll is read. The HTTP client is a parameter: what a request to a URL with a
  credential comes back with, or the text of the transport error.
\<close>

record forgelink_config =
  base_url :: "string option"
  channel_id :: string
  channel_token :: "string option"
  mcp_token :: "string option"
  opted_out :: bool

text \<open>
  A variable of the environment, trimmed, when something is left of it. The four values that opt out
  are ASCII, and no other character lowers to one of theirs.
\<close>

definition clean_var :: "(string \<Rightarrow> string option) \<Rightarrow> string \<Rightarrow> string option" where
  "clean_var env k =
     (case env k of None \<Rightarrow> None | Some v \<Rightarrow> let t = trim v in if t = [] then None else Some t)"

definition forgelink_from_env :: "(string \<Rightarrow> string option) \<Rightarrow> forgelink_config" where
  "forgelink_from_env env =
     \<lparr>base_url = map_option (trim_end_char (CHR ''/'')) (clean_var env ''FORGELINK_BASE_URL''),
      channel_id = opt_default ''forgewire'' (clean_var env ''FORGELINK_CHANNEL_ID''),
      channel_token = clean_var env ''FORGELINK_CHANNEL_TOKEN'',
      mcp_token = clean_var env ''FORGELINK_MCP_TOKEN'',
      opted_out = (case env ''FORGELINK_HITL'' of
          None \<Rightarrow> False
        | Some v \<Rightarrow> to_ascii_lowercase (trim v) \<in> set [''off'', ''0'', ''false'', ''disabled''])\<rparr>"

definition forgelink_enabled :: "forgelink_config \<Rightarrow> bool" where
  "forgelink_enabled c \<longleftrightarrow> \<not> opted_out c \<and> base_url c \<noteq> None \<and> channel_token c \<noteq> None"

definition reconcile_enabled :: "forgelink_config \<Rightarrow> bool" where
  "reconcile_enabled c \<longleftrightarrow> forgelink_enabled c \<and> mcp_token c \<noteq> None"

datatype forgelink_decision = Approved | Denied

definition authority_for_kind :: "string \<Rightarrow> string" where
  "authority_for_kind kind =
     (if kind \<in> set [''merge'', ''push'', ''release''] then ''release_approval'' else ''general_approval'')"

definition evidence_pack :: "string \<Rightarrow> string \<Rightarrow> string option \<Rightarrow> string list \<Rightarrow> jv" where
  "evidence_pack title kind branch resources =
     jobj [(''summary'', JStr (''Fabric is holding '' @ [CHR 0x22] @ title @ [CHR 0x22] @ '' pending approval.'')),
           (''affected_resources'', jstrs resources),
           (''diff_summary'', JStr ''Diff not transmitted to ForgeLink; review in Fabric.''),
           (''proposed_operation'', JStr (''Fabric dispatch of kind '' @ kind
              @ opt_default [] (map_option (\<lambda>b. '' on branch '' @ b) branch))),
           (''checks'', jstrs [''fabric policy gate: needs_approval'']),
           (''rollback_plan'', JStr ''Deny to keep the task held; no action runs without approval.''),
           (''links'', JArr []),
           (''limitations'', JStr ''Evidence summarized by Fabric; full context lives in the Fabric hub.''),
           (''redaction_profile'', JStr ''desktop_full'')]"

definition decision_option :: "string \<Rightarrow> string \<Rightarrow> jv" where
  "decision_option i label = jobj [(''id'', JStr i), (''label'', JStr label)]"

definition build_approval_request ::
    "string \<Rightarrow> string \<Rightarrow> string \<Rightarrow> string \<Rightarrow> string option \<Rightarrow> string list \<Rightarrow> string \<Rightarrow> jv" where
  "build_approval_request approval title reason kind branch resources source =
     jobj [(''id'', JStr (''fabric-'' @ approval)),
           (''kind'', JStr ''approval_request''),
           (''source'', JStr source),
           (''source_kind'', JStr ''forgewire_fabric''),
           (''urgency'', JStr ''normal''),
           (''title'', JStr title),
           (''body'', JStr reason),
           (''intent'', JStr (''Fabric dispatch requires approval: '' @ title)),
           (''requested_action'', JStr (''Run the held Fabric task ('' @ kind @ '')'')),
           (''reason_for_interrupt'', JStr reason),
           (''risk'', JStr ''normal''),
           (''required_authority'', JStr (authority_for_kind kind)),
           (''to_human'', JStr ''operator:primary''),
           (''affected_resources'', jstrs resources),
           (''timeout_behavior'', JStr ''deny_on_timeout''),
           (''deny_behavior'', JStr ''do_not_run''),
           (''expected_response_time'', JStr ''soon''),
           (''no_response_behavior'', JStr ''deny_on_timeout''),
           (''decision_options'', JArr [decision_option ''approve'' ''Approve'', decision_option ''deny'' ''Deny'']),
           (''template_id'', JStr ''git_commit''),
           (''evidence_pack'', evidence_pack title kind branch resources)]"

section \<open>Requests\<close>

record http_reply =
  http_status :: nat
  http_json :: "(string, jv) res"

text \<open>What a POST with a channel token, or a GET with a bearer token, comes back with.\<close>

record transport =
  http_post :: "string \<Rightarrow> string \<Rightarrow> jv \<Rightarrow> (string, http_reply) res"
  http_get :: "string \<Rightarrow> string \<Rightarrow> (string, http_reply) res"

definition http_success :: "http_reply \<Rightarrow> bool" where
  "http_success r \<longleftrightarrow> 200 \<le> http_status r \<and> http_status r < 300"

definition http_refusal :: "http_reply \<Rightarrow> string" where
  "http_refusal r = ''forgelink returned HTTP '' @ show_nat (http_status r)"

definition routed_id :: "jv \<Rightarrow> string" where
  "routed_id v =
     (case obj_get ''message'' v of
        None \<Rightarrow> []
      | Some m \<Rightarrow> (case obj_get ''id'' m of None \<Rightarrow> [] | Some i \<Rightarrow> opt_default [] (as_str i)))"

definition require_setting :: "string \<Rightarrow> string option \<Rightarrow> (string, string) res" where
  "require_setting name v =
     (case v of None \<Rightarrow> Inl (''forgelink '' @ name @ '' not configured'') | Some x \<Rightarrow> Inr x)"

definition route_approval :: "forgelink_config \<Rightarrow> transport \<Rightarrow> jv \<Rightarrow> (string, string) res" where
  "route_approval c http body =
     bind_res (require_setting ''base_url'' (base_url c)) (\<lambda>base.
     bind_res (require_setting ''channel_token'' (channel_token c)) (\<lambda>token.
     bind_res (http_post http (base @ ''/api/agent-channels/'' @ channel_id c @ ''/messages'') token body)
       (\<lambda>r. if \<not> http_success r then Inl (http_refusal r)
            else bind_res (http_json r) (\<lambda>v. Inr (routed_id v)))))"

definition denials :: "string list" where
  "denials = [''deny'', ''dismiss'', ''reject'', ''decline'', ''cancel'']"

definition decision_from_status :: "jv \<Rightarrow> forgelink_decision option" where
  "decision_from_status v =
     (if \<not> opt_default False (Option.bind (obj_get ''decided'' v) as_bool) then None
      else let decision = opt_default [] (Option.bind (obj_get ''decision'' v) as_str) in
        if decision \<in> set denials then Some Denied else Some Approved)"

definition fetch_decision ::
    "forgelink_config \<Rightarrow> transport \<Rightarrow> string \<Rightarrow> (string, forgelink_decision option) res" where
  "fetch_decision c http approval =
     bind_res (require_setting ''base_url'' (base_url c)) (\<lambda>base.
     bind_res (require_setting ''mcp_token'' (mcp_token c)) (\<lambda>token.
     bind_res (http_get http (base @ ''/api/agent-messages/fabric-'' @ approval @ ''/status'') token)
       (\<lambda>r. if http_status r = 404 then Inr None
            else if \<not> http_success r then Inl (http_refusal r)
            else bind_res (http_json r) (\<lambda>v. Inr (decision_from_status v)))))"

definition no_forgelink :: forgelink_config where
  "no_forgelink =
     \<lparr>base_url = None, channel_id = [], channel_token = None, mcp_token = None, opted_out = False\<rparr>"

definition offline :: transport where
  "offline = \<lparr>http_post = \<lambda>_ _ _. Inl ''offline'', http_get = \<lambda>_ _. Inl ''offline''\<rparr>"

lemma no_forgelink_disabled [simp]:
  "\<not> forgelink_enabled no_forgelink" "\<not> reconcile_enabled no_forgelink"
  by (simp_all add: forgelink_enabled_def reconcile_enabled_def no_forgelink_def)

section \<open>What a decision means\<close>

text \<open>
  Whatever the environment holds, requests only go out when a base URL and a token are configured:
  an enabled configuration never fails for a missing setting.
\<close>

lemma enabled_routes:
  assumes "forgelink_enabled c"
  shows "route_approval c http body =
    (case http_post http (the (base_url c) @ ''/api/agent-channels/'' @ channel_id c @ ''/messages'')
         (the (channel_token c)) body of
       Inl e \<Rightarrow> Inl e
     | Inr r \<Rightarrow> if http_success r then bind_res (http_json r) (\<lambda>v. Inr (routed_id v))
                else Inl (http_refusal r))"
  using assms
  by (auto simp: forgelink_enabled_def route_approval_def require_setting_def split: sum.splits)

text \<open>
  A poll resolves an approval only on a success answer that says it is decided. Of the decided
  answers only the five denials deny: a timeout, an unknown word or no decision at all approve.
\<close>

lemma decision_approved_iff:
  "decision_from_status v = Some Approved \<longleftrightarrow>
     Option.bind (obj_get ''decided'' v) as_bool = Some True
     \<and> (\<forall>d. Option.bind (obj_get ''decision'' v) as_str = Some d \<longrightarrow> d \<notin> set denials)"
  by (auto simp: decision_from_status_def denials_def Let_def opt_default_def split: option.splits bool.splits)

lemma timeout_approves:
  "decision_from_status (jobj [(''decided'', JBool True), (''decision'', JStr ''timeout'')]) = Some Approved"
  by (simp add: decision_from_status_def denials_def jobj_def as_bool_def)

end
