(* ===== verification/HubBase.thy ===== *)
theory HubBase
  imports StoreAudit StoreGuards StoreLedger StoreFleet Policy Secrets ForgeLink
begin

text \<open>
  What every route of the hub shares (\<^verbatim>\<open>crates/fabric-hub/src/utils.rs\<close>, \<^verbatim>\<open>state.rs\<close>,
  \<^verbatim>\<open>error.rs\<close>): the configuration of a running hub, the identity behind a request, API errors,
  the audit append with its redaction and retries, the budget gate, and signature checks.

  A reading of the system clock is an argument, in seconds since the epoch; a handler that reads the
  clock several times takes a function from the number of the reading. An error of an HTTP handler is
  its status and message.
\<close>

section \<open>Identity and errors\<close>

record auth_context =
  subject :: string
  roles :: "string list"
  legacy_compat :: bool
  human_principal :: "string option"
  session_id :: "string option"
  assurance_level :: "string option"
  step_up_at :: "string option"

definition attribution :: "auth_context \<Rightarrow> jv" where
  "attribution actor =
     jobj [(''human_account_id'', jopt JStr (human_principal actor)),
           (''authenticated_subject'', JStr (subject actor)),
           (''legacy_bearer'', JBool (legacy_compat actor))]"

record api_error =
  err_status :: nat
  err_code :: string
  err_message :: string
  err_remediation :: "string option"

definition request_failed :: "nat \<times> string \<Rightarrow> api_error" where
  "request_failed e =
     \<lparr>err_status = fst e, err_code = ''request_failed'', err_message = snd e, err_remediation = None\<rparr>"

definition api_secret_error :: "secret_error \<Rightarrow> api_error" where
  "api_secret_error e =
     \<lparr>err_status = (case e of MissingSecret _ \<Rightarrow> 409 | LegacyUnsealed _ \<Rightarrow> 409 | InvalidEnvelope _ _ \<Rightarrow> 409
                      | _ \<Rightarrow> 503),
      err_code = secret_error_code e, err_message = secret_error_text e,
      err_remediation = Some (secret_remediation e)\<rparr>"

definition api_not_found :: "string \<Rightarrow> api_error" where
  "api_not_found m = \<lparr>err_status = 404, err_code = ''NotFound'', err_message = m, err_remediation = None\<rparr>"

text \<open>The body of the response an error becomes.\<close>

definition error_body :: "api_error \<Rightarrow> jv" where
  "error_body e =
     jobj [(''error'', jobj [(''code'', JStr (err_code e)), (''message'', JStr (err_message e)),
                             (''remediation'', jopt JStr (err_remediation e))])]"

fun store_error_text :: "store_error \<Rightarrow> string" where
  "store_error_text (NotFound m) = ''not found: '' @ m"
| "store_error_text (Conflict m) = ''conflict: '' @ m"
| "store_error_text (PermissionDenied m) = ''permission denied: '' @ m"
| "store_error_text (Schema m) = ''schema error: '' @ m"
| "store_error_text (Backend m) = ''backend error: '' @ m"

section \<open>A running hub\<close>

text \<open>
  \<open>float_text\<close> is the text serde gives a float, \<open>to_text\<close> and \<open>parse_text\<close> are
  \<^verbatim>\<open>serde_json::to_string\<close> and \<^verbatim>\<open>from_str\<close>; \<open>forgelink_http\<close> is the HTTP client.
\<close>

record hub =
  hub_token :: string
  hub_broker :: broker
  hub_crypto :: crypto
  hub_gate :: dispatch_gate
  hub_budget_caps :: budget_policy
  step_up_freshness_minutes :: int
  audit_text :: "jnum json_text"
  float_text :: "f64 \<Rightarrow> string"
  to_text :: "jv \<Rightarrow> string"
  parse_text :: "string \<Rightarrow> (string, jv) res"
  forgelink :: forgelink_config
  forgelink_http :: transport

fun jnum_text :: "(f64 \<Rightarrow> string) \<Rightarrow> jnum \<Rightarrow> string" where
  "jnum_text ft (JInt n) = show_int n"
| "jnum_text ft (JFloat x) = ft x"

definition utc_now :: "int \<Rightarrow> string" where
  "utc_now secs = hub_epoch_secs_to_iso secs"

lemma utc_now_store: "0 \<le> t \<Longrightarrow> utc_now t = store_epoch_secs_to_iso t"
  by (simp add: utc_now_def hub_epoch_secs_to_iso_def store_epoch_secs_to_iso_def trunc_nonneg Let_def)

text \<open>A handler of a route: an operation on the store whose failure is an error response.\<close>

type_synonym ('s, 'e, 'a) action = "'s \<Rightarrow> ('e, 'a) res \<times> 's"
type_synonym ('e, 'a) handler = "(world, 'e, 'a) action"

definition hret :: "'a \<Rightarrow> ('s, 'e, 'a) action" where
  "hret x w = (Inr x, w)"

definition hfail :: "'e \<Rightarrow> ('s, 'e, 'a) action" where
  "hfail e w = (Inl e, w)"

definition hbind :: "('s, 'e, 'a) action \<Rightarrow> ('a \<Rightarrow> ('s, 'e, 'b) action) \<Rightarrow> ('s, 'e, 'b) action" where
  "hbind m f w = (case m w of (Inl e, w') \<Rightarrow> (Inl e, w') | (Inr x, w') \<Rightarrow> f x w')"

text \<open>\<^verbatim>\<open>map_err\<close>, and \<^verbatim>\<open>let _ =\<close>.\<close>

definition call :: "('d \<Rightarrow> 'e) \<Rightarrow> ('s, 'd, 'a) action \<Rightarrow> ('s, 'e, 'a) action" where
  "call g m w = (case m w of (r, w') \<Rightarrow> (map_res_err g r, w'))"

definition ignoring :: "'a op \<Rightarrow> ('e, unit) handler" where
  "ignoring m w = (case m w of (_, w') \<Rightarrow> (Inr (), w'))"

definition or_default :: "'a \<Rightarrow> 'a op \<Rightarrow> ('e, 'a) handler" where
  "or_default x m w = (case m w of (Inr y, w') \<Rightarrow> (Inr y, w') | (Inl _, w') \<Rightarrow> (Inr x, w'))"

text \<open>The result of a call as a value: the handler goes on after a failure.\<close>

definition attempt :: "'a op \<Rightarrow> ('e, (store_error, 'a) res) handler" where
  "attempt m w = (case m w of (r, w') \<Rightarrow> (Inr r, w'))"

definition check :: "('e, 'a) res \<Rightarrow> ('s, 'e, 'a) action" where
  "check r w = (r, w)"

definition internal :: "store_error \<Rightarrow> nat \<times> string" where
  "internal e = (500, store_error_text e)"

section \<open>The audit trail\<close>

fun audit_tries :: "nat \<Rightarrow> hub \<Rightarrow> string \<Rightarrow> int option \<Rightarrow> jv \<Rightarrow> string \<Rightarrow> unit op" where
  "audit_tries 0 h kind task payload now = ret ()"
| "audit_tries (Suc n) h kind task payload now =
     bind_op audit_chain_tail (\<lambda>tail.
       bind_op (append_audit_event tail (audit_event_hash (hub_crypto h) (audit_text h) tail kind payload)
                  tail kind task (to_text h payload) now)
         (\<lambda>r. case r of AppendOk _ \<Rightarrow> ret () | TailConflict _ _ \<Rightarrow> audit_tries n h kind task payload now))"

definition audit_append :: "hub \<Rightarrow> string \<Rightarrow> int option \<Rightarrow> jv \<Rightarrow> int \<Rightarrow> unit op" where
  "audit_append h kind task payload now =
     bind_op all_secret_envelopes (\<lambda>envelopes.
       case redact_value (hub_broker h) payload envelopes of
         Inl e \<Rightarrow> fail (Backend (''audit redaction failed closed: '' @ secret_error_text e))
       | Inr redacted \<Rightarrow> audit_tries 3 h kind task redacted (utc_now now))"

definition state_redact_text :: "hub \<Rightarrow> string \<Rightarrow> (secret_error, string) handler" where
  "state_redact_text h t =
     hbind (call (\<lambda>e. ProviderIo (store_error_text e)) all_secret_envelopes)
       (\<lambda>envelopes. check (redact_text (hub_broker h) t envelopes))"

definition state_redact_json :: "hub \<Rightarrow> jv \<Rightarrow> (secret_error, jv) handler" where
  "state_redact_json h v =
     hbind (call (\<lambda>e. ProviderIo (store_error_text e)) all_secret_envelopes)
       (\<lambda>envelopes. check (redact_value (hub_broker h) v envelopes))"

section \<open>Gates\<close>

definition budget_denial :: "budget_policy \<Rightarrow> string \<Rightarrow> string option op" where
  "budget_denial caps now =
     (if \<not> has_cost_caps caps then ret None
      else bind_op (current_budget now) (\<lambda>b.
        let d = check_cost caps (cb_daily_spend_usd b) (cb_weekly_spend_usd b) in
        ret (if denied d
             then Some (case reasons d of [] \<Rightarrow> ''budget exceeded'' | r # _ \<Rightarrow> r)
             else None)))"

definition protocol_error_text :: "protocol_error \<Rightarrow> string" where
  "protocol_error_text e =
     (case e of
        PHex m \<Rightarrow> ''invalid hex: '' @ m
      | PublicKeyLength n \<Rightarrow> ''invalid public key length: expected 32 bytes, got '' @ show_nat n
      | PrivateKeyLength n \<Rightarrow> ''invalid private key length: expected 32 bytes, got '' @ show_nat n
      | SignatureLength n \<Rightarrow> ''invalid signature length: expected 64 bytes, got '' @ show_nat n
      | PublicKeyBytes \<Rightarrow> ''invalid public key bytes'')"

definition verify_sig :: "hub \<Rightarrow> string \<Rightarrow> jv \<Rightarrow> string \<Rightarrow> (string, unit) res" where
  "verify_sig h public_key envelope signature =
     (case verify_envelope_hex (hub_crypto h) (jnum_text (float_text h)) public_key envelope signature of
        Inr True \<Rightarrow> Inr ()
      | Inr False \<Rightarrow> Inl ''invalid signature''
      | Inl e \<Rightarrow> Inl (protocol_error_text e))"

text \<open>The build has no overflow checks.\<close>

definition check_skew :: "i64 \<Rightarrow> int \<Rightarrow> (string, unit) res" where
  "check_skew timestamp now =
     (case check_timestamp_skew False timestamp (of_int now) of
        Some (Inl (OutOfSkew delta limit)) \<Rightarrow>
          Inl (''timestamp out of skew window: delta='' @ show_int (sint delta) @ ''s, max=''
               @ show_int (sint limit) @ ''s'')
      | _ \<Rightarrow> Inr ())"

section \<open>What a handler keeps\<close>

lemma keeps_hret [keeps_intros]: "keeps P (hret x)"
  by (simp add: keeps_def hret_def)

lemma keeps_hfail [keeps_intros]: "keeps P (hfail e)"
  by (simp add: keeps_def hfail_def)

lemma keeps_check [keeps_intros]: "keeps P (check r)"
  by (simp add: keeps_def check_def)

lemma keeps_call [keeps_intros]: "keeps P m \<Longrightarrow> keeps P (call g m)"
  unfolding call_def [abs_def] by (rule keeps_map)

lemma keeps_ignoring [keeps_intros]: "keeps P m \<Longrightarrow> keeps P (ignoring m)"
  unfolding ignoring_def [abs_def] by (rule keeps_map)

lemma keeps_attempt [keeps_intros]: "keeps P m \<Longrightarrow> keeps P (attempt m)"
  unfolding attempt_def [abs_def] by (rule keeps_map)

lemma or_default_case: "or_default x m = (\<lambda>w. case m w of (r, w') \<Rightarrow> (Inr (case r of Inr y \<Rightarrow> y | Inl _ \<Rightarrow> x), w'))"
  by (auto simp: or_default_def fun_eq_iff split: prod.splits sum.splits)

lemma keeps_or_default [keeps_intros]: "keeps P m \<Longrightarrow> keeps P (or_default x m)"
  unfolding or_default_case by (rule keeps_map)

lemma keeps_hbind [keeps_intros]:
  assumes "keeps P m" "\<And>x. keeps P (f x)"
  shows "keeps P (hbind m f)"
proof -
  have "hbind m f = (\<lambda>w. case m w of (r, w') \<Rightarrow> (case r of Inl e \<Rightarrow> hfail e | Inr x \<Rightarrow> f x) w')"
    by (auto simp: hbind_def hfail_def fun_eq_iff split: prod.splits sum.splits)
  then show ?thesis using assms by (auto intro!: keeps_case keeps_intros split: sum.splits)
qed

lemma hbind_InrE:
  assumes "hbind m f w = (Inr y, w')"
  obtains x w1 where "m w = (Inr x, w1)" "f x w1 = (Inr y, w')"
  using assms by (auto simp: hbind_def split: prod.splits sum.splits)

lemma call_InrE:
  assumes "call g m w = (Inr x, w')"
  obtains "m w = (Inr x, w')"
  using assms that by (cases "m w"; cases "fst (m w)") (auto simp: call_def)

lemma handler_ends [simp]:
  "hret x w = (r, w') \<longleftrightarrow> r = Inr x \<and> w' = w"
  "hfail e w = (s, w') \<longleftrightarrow> s = Inl e \<and> w' = w"
  "check c w = (c', w') \<longleftrightarrow> c' = c \<and> w' = w"
  by (auto simp: hret_def hfail_def check_def)

text \<open>A property that does not look at the audit log.\<close>

definition audit_blind :: "(db \<Rightarrow> bool) \<Rightarrow> bool" where
  "audit_blind P \<longleftrightarrow> (\<forall>d es n. P d \<longrightarrow> P (d\<lparr>audit_events := es, last_audit_seq := n\<rparr>))"

lemma audit_blindD: "audit_blind P \<Longrightarrow> P d \<Longrightarrow> P (d\<lparr>audit_events := es, last_audit_seq := n\<rparr>)"
  by (simp add: audit_blind_def)

lemma keeps_append_audit_event:
  assumes "audit_blind P"
  shows "keeps P (append_audit_event expected hash prev kind task payload now)"
proof -
  have "P d \<Longrightarrow> insert_audit e d = (Inr x, d') \<Longrightarrow> P d'" for d e d' and x :: unit
    using audit_blindD [OF assms] by (auto simp: insert_audit_def split: if_splits)
  then show ?thesis unfolding append_audit_event_def
    by (intro keeps_bind keeps_intros keeps_statement) (auto intro!: keeps_intros split: rqlite_error.splits)
qed

lemma keeps_all_secret_envelopes [keeps_intros]: "keeps P all_secret_envelopes"
  unfolding all_secret_envelopes_def by (intro keeps_intros)

lemma keeps_audit_tries:
  assumes "audit_blind P"
  shows "keeps P (audit_tries n h kind task payload now)"
proof (induction n)
  case (Suc n)
  have "keeps P (case r of AppendOk x \<Rightarrow> ret () | TailConflict x y \<Rightarrow> audit_tries n h kind task payload now)" for r
    by (cases r) (auto intro: Suc.IH keeps_ret)
  then show ?case by (auto intro!: keeps_bind keeps_audit_chain_tail keeps_append_audit_event assms)
qed (simp add: keeps_ret)

lemma keeps_audit_append:
  assumes "audit_blind P"
  shows "keeps P (audit_append h kind task payload now)"
  unfolding audit_append_def
  by (intro keeps_bind keeps_all_secret_envelopes)
    (auto intro!: keeps_fail keeps_audit_tries assms split: sum.split)

text \<open>On a calm world.\<close>

lemma calm_keeps:
  assumes "keeps P m" "P d"
  obtains r d' where "m (calm d) = (r, calm d')" "P d'"
proof -
  obtain r w' where m: "m (calm d) = (r, w')" by fastforce
  have "script w' = []" using keeps_script [OF assms(1) m] by simp
  then have "w' = calm (db w')" by (simp add: calm_def)
  moreover have "P (db w')" using keepsD [OF assms(1) _ _ m] assms(2) by simp
  ultimately show thesis using that m by metis
qed

text \<open>Two databases that differ in the audit log at most.\<close>

definition same_but_audit :: "db \<Rightarrow> db \<Rightarrow> bool" where
  "same_but_audit d d' \<longleftrightarrow>
     d'\<lparr>audit_events := [], last_audit_seq := 0\<rparr> = d\<lparr>audit_events := [], last_audit_seq := 0\<rparr>"

lemma same_but_audit_refl [simp]: "same_but_audit d d"
  by (simp add: same_but_audit_def)

lemma same_but_audit_blind: "audit_blind (same_but_audit d)"
  by (simp add: audit_blind_def same_but_audit_def)

lemma same_but_audit_trans: "same_but_audit a b \<Longrightarrow> same_but_audit b c \<Longrightarrow> same_but_audit a c"
  by (simp add: same_but_audit_def)

lemma same_but_auditD:
  assumes "same_but_audit d d'"
  shows "tasks d' = tasks d" "last_task_id d' = last_task_id d" "approvals d' = approvals d"
    "dispatchers d' = dispatchers d" "dispatcher_nonces d' = dispatcher_nonces d" "runners d' = runners d"
    "role_tokens d' = role_tokens d" "secrets d' = secrets d" "settings_doc d' = settings_doc d"
    "session_nonces d' = session_nonces d" "task_streams d' = task_streams d" "results d' = results d"
    "budget_state d' = budget_state d" "cost_ledger d' = cost_ledger d" "people d' = people d"
  using assms [unfolded same_but_audit_def, THEN arg_cong [where f = tasks]]
    assms [unfolded same_but_audit_def, THEN arg_cong [where f = last_task_id]]
    assms [unfolded same_but_audit_def, THEN arg_cong [where f = approvals]]
    assms [unfolded same_but_audit_def, THEN arg_cong [where f = dispatchers]]
    assms [unfolded same_but_audit_def, THEN arg_cong [where f = dispatcher_nonces]]
    assms [unfolded same_but_audit_def, THEN arg_cong [where f = runners]]
    assms [unfolded same_but_audit_def, THEN arg_cong [where f = role_tokens]]
    assms [unfolded same_but_audit_def, THEN arg_cong [where f = secrets]]
    assms [unfolded same_but_audit_def, THEN arg_cong [where f = settings_doc]]
    assms [unfolded same_but_audit_def, THEN arg_cong [where f = session_nonces]]
    assms [unfolded same_but_audit_def, THEN arg_cong [where f = task_streams]]
    assms [unfolded same_but_audit_def, THEN arg_cong [where f = results]]
    assms [unfolded same_but_audit_def, THEN arg_cong [where f = budget_state]]
    assms [unfolded same_but_audit_def, THEN arg_cong [where f = cost_ledger]]
    assms [unfolded same_but_audit_def, THEN arg_cong [where f = people]]
  by simp_all

lemma calm_ignoring_audit:
  obtains d' where "ignoring (audit_append h kind task payload now) (calm d) = (Inr (), calm d')"
    "same_but_audit d d'"
  by (rule calm_keeps [OF keeps_audit_append [OF same_but_audit_blind], of d d h kind task payload now])
    (auto simp: ignoring_def)

section \<open>The audit trail stays a chain\<close>

lemma audit_tries_quiet:
  assumes parse: "parse_text h (to_text h payload) = Inr payload"
  shows "audit_tries n h kind task payload now w = (r, w') \<Longrightarrow> audit_quiet w \<Longrightarrow>
    audit_sound (hub_crypto h) (audit_text h) (parse_text h) (db w) \<Longrightarrow>
    audit_sound (hub_crypto h) (audit_text h) (parse_text h) (db w') \<and> audit_quiet w' \<and>
    (\<exists>es. audit_events (db w') = audit_events (db w) @ es \<and>
       list_all (\<lambda>e. au_kind e = kind \<and> au_task_id e = task \<and> au_payload_json e = to_text h payload) es \<and>
       length es \<le> n)"
proof (induction n arbitrary: w)
  case 0
  then show ?case by simp
next
  case (Suc n)
  let ?sound = "audit_sound (hub_crypto h) (audit_text h) (parse_text h)"
  let ?mine = "\<lambda>e. au_kind e = kind \<and> au_task_id e = task \<and> au_payload_json e = to_text h payload"
  obtain t w1 where t: "audit_chain_tail w = (t, w1)" by (rule prod.exhaust)
  have u: "audit_part (db w1) = audit_part (db w)" "audit_quiet w1"
    using audit_untouched [OF keeps_audit_chain_tail t Suc.prems(2)] by auto
  have s1: "?sound (db w1)" using Suc.prems(3) by (simp add: audit_part_cong(1) [OF u(1)])
  have e1: "audit_events (db w1) = audit_events (db w)" by (rule audit_part_cong(3) [OF u(1)])
  show ?case
  proof (cases t)
    case (Inl e)
    then have "w' = w1" using Suc.prems(1) t by (simp add: bind_op_def)
    then show ?thesis using s1 u(2) e1 by simp
  next
    case (Inr tail)
    let ?hash = "audit_event_hash (hub_crypto h) (audit_text h) tail kind payload"
    obtain a w2 where a: "append_audit_event tail ?hash tail kind task (to_text h payload) now w1 = (a, w2)"
      by (rule prod.exhaust)
    note app = append_audit_event_quiet [OF a s1 u(2) parse refl]
    obtain es where es: "audit_events (db w2) = audit_events (db w) @ es" "list_all ?mine es" "length es \<le> 1"
      using app(3) e1 by (auto simp: grows_by_def)
    show ?thesis
    proof (cases "\<exists>x y. a = Inr (TailConflict x y)")
      case True
      then have "audit_tries n h kind task payload now w2 = (r, w')"
        using Suc.prems(1) t Inr a by (auto simp: bind_op_def)
      from Suc.IH [OF this app(2,1)] obtain fs where
        fs: "?sound (db w')" "audit_quiet w'" "audit_events (db w') = audit_events (db w2) @ fs"
          "list_all ?mine fs" "length fs \<le> n" by blast
      have "audit_events (db w') = audit_events (db w) @ (es @ fs)" "list_all ?mine (es @ fs)"
        "length (es @ fs) \<le> Suc n" using es fs by simp_all
      then show ?thesis using fs(1,2) by blast
    next
      case False
      then have w': "w' = w2"
        using Suc.prems(1) t Inr a by (auto simp: bind_op_def split: sum.splits audit_append_result.splits)
      have "length es \<le> Suc n" using es(3) by simp
      then show ?thesis using es(1,2) app(1,2) unfolding w' by blast
    qed
  qed
qed

text \<open>
  C6. As long as nobody else writes to the audit log while the hub appends an event (\<open>audit_quiet\<close>),
  the stored log remains a verified chain whatever requests fail on the way: the append changes nothing,
  or adds events of the given kind and task (one for each of its three tries at most). With a second
  writer between the check of the tail and the insertion the chain forks (\<open>audit_append_race\<close> in
  \<open>StoreAudit\<close>), although the comment on the append says it cannot.
\<close>

theorem audit_append_keeps_chain:
  assumes "\<forall>envelopes v. redact_value (hub_broker h) payload envelopes = Inr v \<longrightarrow>
      parse_text h (to_text h v) = Inr v"
    and "audit_append h kind task payload now w = (r, w')" and "audit_quiet w"
    and "audit_sound (hub_crypto h) (audit_text h) (parse_text h) (db w)"
  shows "audit_sound (hub_crypto h) (audit_text h) (parse_text h) (db w') \<and>
    (\<exists>es. audit_events (db w') = audit_events (db w) @ es \<and>
       list_all (\<lambda>e. au_kind e = kind \<and> au_task_id e = task) es \<and> length es \<le> 3)"
proof -
  let ?sound = "audit_sound (hub_crypto h) (audit_text h) (parse_text h)"
  obtain v w1 where v: "all_secret_envelopes w = (v, w1)" by (rule prod.exhaust)
  have u: "audit_part (db w1) = audit_part (db w)" "audit_quiet w1"
    using audit_untouched [OF keeps_all_secret_envelopes v assms(3)] by auto
  have s1: "?sound (db w1)" using assms(4) by (simp add: audit_part_cong(1) [OF u(1)])
  have e1: "audit_events (db w1) = audit_events (db w)" by (rule audit_part_cong(3) [OF u(1)])
  consider "w' = w1" | p where "audit_tries 3 h kind task p (utc_now now) w1 = (r, w')"
      "parse_text h (to_text h p) = Inr p"
    using assms(1,2) v by (auto simp: audit_append_def bind_op_def fail_def split: sum.splits)
  then show ?thesis
  proof cases
    case 1
    then show ?thesis using s1 e1 by simp
  next
    case 2
    from audit_tries_quiet [OF 2(2,1) u(2) s1] obtain es where
      es: "?sound (db w')" "audit_events (db w') = audit_events (db w1) @ es"
        "list_all (\<lambda>e. au_kind e = kind \<and> au_task_id e = task \<and> au_payload_json e = to_text h p) es"
        "length es \<le> 3" by blast
    have "list_all (\<lambda>e. au_kind e = kind \<and> au_task_id e = task) es"
      using es(3) by (auto simp: list_all_iff)
    then show ?thesis using es(1,2,4) e1 by auto
  qed
qed

section \<open>A hub for the examples\<close>

definition toy_hub :: hub where
  "toy_hub =
     \<lparr>hub_token = ''cluster'', hub_broker = toy_broker, hub_crypto = toy_crypto,
      hub_gate = dispatch_gate_new default_policy, hub_budget_caps = default_budget,
      step_up_freshness_minutes = 10,
      audit_text = \<lparr>str_text = write_ascii_string, num_text = jnum_text (\<lambda>_. ''0.0'')\<rparr>,
      float_text = (\<lambda>_. ''0.0''), to_text = (\<lambda>_. ''7''), parse_text = (\<lambda>_. Inr (jint 7)),
      forgelink = no_forgelink, forgelink_http = offline\<rparr>"

lemma audit_append_keeps_chain_witness:
  "let w' = snd (audit_append toy_hub ''dispatch'' (Some 3) (jint 7) 0
     \<lparr>db = empty_db, script = [\<lparr>turn_env = id, turn_reply = Answered\<rparr>, \<lparr>turn_env = id, turn_reply = Lost QuorumLoss\<rparr>]\<rparr>)
   in audit_sound toy_crypto (audit_text toy_hub) (parse_text toy_hub) (db w')
    \<and> (\<exists>es. audit_events (db w') = audit_events empty_db @ es
         \<and> list_all (\<lambda>e. au_kind e = ''dispatch'' \<and> au_task_id e = Some 3) es \<and> length es \<le> 3)"
proof -
  let ?w = "\<lparr>db = empty_db, script = [\<lparr>turn_env = id, turn_reply = Answered\<rparr>, \<lparr>turn_env = id, turn_reply = Lost QuorumLoss\<rparr>]\<rparr>"
  have "audit_sound (hub_crypto toy_hub) (audit_text toy_hub) (parse_text toy_hub) (db ?w)"
    by (simp add: audit_sound_def verify_audit_chain_def empty_db_def)
  from audit_append_keeps_chain [of toy_hub "jint 7" "''dispatch''" "Some 3" 0 ?w, OF _ surjective_pairing _ this]
  show ?thesis
    by (auto simp: Let_def toy_hub_def audit_quiet_def redact_value_def jint_def bind_res_Inr_iff)
qed

section \<open>The canonical form of an envelope\<close>

text \<open>
  Envelopes hold integers and finite floats. Of the text of a float (\<^verbatim>\<open>serde_json\<close> writes its shortest
  decimal that reads back as the same float) only this is used: number characters with a digit, and a point
  or an exponent, which an integer does not have; and different floats have different texts.
\<close>

definition finite_f64 :: "f64 \<Rightarrow> bool" where
  "finite_f64 x \<longleftrightarrow> x \<notin> {NaN, NegInf, PosInf}"

definition finite_json :: "jv \<Rightarrow> bool" where
  "finite_json v \<longleftrightarrow> (\<forall>x. JFloat x \<in> set_json v \<longrightarrow> finite_f64 x)"

definition float_writer :: "(f64 \<Rightarrow> string) \<Rightarrow> bool" where
  "float_writer ft \<longleftrightarrow>
     (\<forall>x. finite_f64 x \<longrightarrow> set (ft x) \<subseteq> number_chars \<and> (\<exists>c \<in> set (ft x). is_ascii_digit c)
        \<and> (CHR ''.'' \<in> set (ft x) \<or> CHR ''e'' \<in> set (ft x)))
     \<and> inj_on ft {x. finite_f64 x}"

lemma write_json_cong:
  "(\<And>n. n \<in> set_json v \<Longrightarrow> f n = g n) \<Longrightarrow> write_json ws f v = write_json ws g v"
proof (induction v)
  case (JArr vs)
  then have "map (write_json ws f) vs = map (write_json ws g) vs" by (auto intro!: map_cong)
  then show ?case by (simp only: write_json.simps)
next
  case (JObj es)
  have "write_json ws f (snd e) = write_json ws g (snd e)" if "e \<in> set es" for e
    using JObj(1) [of e "snd e"] JObj(2) that by (cases e) force
  then have "map (\<lambda>e. ws (fst e) @ '':'' @ write_json ws f (snd e)) (sort_key fst es)
      = map (\<lambda>e. ws (fst e) @ '':'' @ write_json ws g (snd e)) (sort_key fst es)"
    by (intro map_cong refl) simp
  then show ?case by (simp only: write_json.simps)
qed auto

text \<open>The values JSON has no number for are never written; for the proof they get texts of their own.\<close>

definition total_float :: "(f64 \<Rightarrow> string) \<Rightarrow> f64 \<Rightarrow> string" where
  "total_float ft x = (case x of NaN \<Rightarrow> ''e'' | NegInf \<Rightarrow> ''ee'' | PosInf \<Rightarrow> ''eee'' | _ \<Rightarrow> ft x)"

lemma total_float_facts:
  assumes "float_writer ft"
  shows "set (total_float ft x) \<subseteq> number_chars \<and> (CHR ''.'' \<in> set (total_float ft x) \<or> CHR ''e'' \<in> set (total_float ft x))"
    "finite_f64 x \<Longrightarrow> total_float ft x = ft x" "inj (total_float ft)"
proof -
  have fin: "total_float ft x = ft x \<and> (\<exists>c \<in> set (ft x). is_ascii_digit c)" if "finite_f64 x" for x
    using that assms by (cases x) (auto simp: total_float_def float_writer_def finite_f64_def)
  have num: "CHR ''e'' \<in> number_chars" by (simp add: number_chars_def)
  show "set (total_float ft x) \<subseteq> number_chars \<and> (CHR ''.'' \<in> set (total_float ft x) \<or> CHR ''e'' \<in> set (total_float ft x))"
  proof (cases "finite_f64 x")
    case True
    then show ?thesis using assms fin by (auto simp: float_writer_def)
  next
    case False
    then show ?thesis using num by (cases x) (auto simp: total_float_def finite_f64_def)
  qed
  show "finite_f64 x \<Longrightarrow> total_float ft x = ft x" using fin by blast
  have digitless: "set (total_float ft x) \<subseteq> {CHR ''e''}" if "\<not> finite_f64 x" for x
    using that by (cases x) (auto simp: total_float_def finite_f64_def)
  have digit_e: "\<not> is_ascii_digit (CHR ''e'')" by code_simp
  show "inj (total_float ft)"
  proof (rule injI)
    fix x y assume e: "total_float ft x = total_float ft y"
    have "finite_f64 x = finite_f64 y"
    proof (rule ccontr)
      assume "finite_f64 x \<noteq> finite_f64 y"
      then obtain a b where "finite_f64 a" "\<not> finite_f64 b" "total_float ft a = total_float ft b" using e by metis
      then show False using fin [of a] digitless [of b] digit_e by auto
    qed
    then show "x = y"
    proof (cases "finite_f64 x")
      case True
      then show ?thesis using e fin \<open>finite_f64 x = finite_f64 y\<close> assms by (auto simp: float_writer_def inj_on_def)
    next
      case False
      then show ?thesis using e \<open>finite_f64 x = finite_f64 y\<close>
        by (cases x; cases y) (simp_all add: total_float_def finite_f64_def)
    qed
  qed
qed

lemma show_int_no_point: "CHR ''.'' \<notin> set (show_int i)" "CHR ''e'' \<notin> set (show_int i)"
proof -
  have "c \<noteq> CHR ''.'' \<and> c \<noteq> CHR ''e''" if "c \<in> set (show_nat n)" for c n
    using that show_nat_digits [of c n] by (auto simp: is_ascii_digit_def)
  then show "CHR ''.'' \<notin> set (show_int i)" "CHR ''e'' \<notin> set (show_int i)"
    by (auto simp: show_int_def)
qed

lemma envelope_format:
  assumes "float_writer ft"
  shows "text_format write_ascii_string (jnum_text (total_float ft))"
proof
  fix s t r r'
  assume "valid_utf8 s" "valid_utf8 t" "write_ascii_string s @ r = write_ascii_string t @ r'"
  then show "s = t \<and> r = r'" by (rule ascii_ints.ws_cancel)
next
  fix s show "write_ascii_string s \<noteq> [] \<and> hd (write_ascii_string s) = CHR 0x22" by (rule ascii_ints.ws_quote)
next
  fix n show "jnum_text (total_float ft) n \<noteq> [] \<and> set (jnum_text (total_float ft) n) \<subseteq> number_chars"
  proof (cases n)
    case (JInt i)
    then show ?thesis using ascii_ints.nt_chars [of i] by simp
  next
    case (JFloat x)
    then show ?thesis using total_float_facts(1) [OF assms, of x] by auto
  qed
next
  fix m n assume e: "jnum_text (total_float ft) m = jnum_text (total_float ft) n"
  show "m = n"
    using e ascii_ints.nt_inj total_float_facts(1) [OF assms] show_int_no_point injD [OF total_float_facts(3) [OF assms]]
    by (cases m; cases n) (auto, metis+)
qed

text \<open>
  C11. The canonical form is unambiguous: two envelopes over integers, finite floats and valid strings have
  the same canonical bytes only if they are the same envelope. So the signature that \<open>verify_sig\<close>
  checks is over exactly one envelope, its floats (a cost limit, metadata) included.
\<close>

theorem canonicalize_injective:
  assumes "float_writer (float_text h)" and "wf_json v" "finite_json v" and "wf_json w" "finite_json w"
    and "canonicalize (jnum_text (float_text h)) v = canonicalize (jnum_text (float_text h)) w"
  shows "v = w"
proof -
  have same: "write_json write_ascii_string (jnum_text (float_text h)) u
      = write_json write_ascii_string (jnum_text (total_float (float_text h))) u" if "finite_json u" for u
  proof (rule write_json_cong)
    fix n assume "n \<in> set_json u"
    then have "finite_f64 x" if "n = JFloat x" for x using that \<open>finite_json u\<close> unfolding finite_json_def by blast
    then show "jnum_text (float_text h) n = jnum_text (total_float (float_text h)) n"
      using total_float_facts(2) [OF assms(1)] by (cases n) simp_all
  qed
  show ?thesis
    using text_format.canonical_inj [OF envelope_format [OF assms(1)] assms(2,4)] assms(6)
    by (simp add: canonicalize_def same assms(3,5))
qed

text \<open>A writer of floats for the examples: the reduced fraction.\<close>

fun fraction_text :: "f64 \<Rightarrow> string" where
  "fraction_text (Fin r) = (case quotient_of r of (p, q) \<Rightarrow> show_int p @ ''e'' @ show_int q)"
| "fraction_text NegZero = ''-0.0''"
| "fraction_text _ = ''e''"

lemma fraction_writer: "float_writer fraction_text"
proof -
  have digit: "\<exists>c \<in> set (show_int i). is_ascii_digit c" for i
  proof -
    have "\<exists>c \<in> set (show_nat n). is_ascii_digit c" for n
    proof -
      have "show_nat n \<noteq> []" using ascii_ints.nt_chars [of "int n"] by (simp add: show_int_def)
      then obtain c where "c \<in> set (show_nat n)" by (meson last_in_set)
      then show ?thesis using show_nat_digits by blast
    qed
    then show ?thesis by (auto simp: show_int_def)
  qed
  have split: "p = p' \<and> q = q'" if "show_int p @ CHR ''e'' # show_int q = show_int p' @ CHR ''e'' # show_int q'" for p q p' q'
  proof -
    have "takeWhile (\<lambda>c. c \<noteq> CHR ''e'') (show_int i @ CHR ''e'' # t) = show_int i" for i t
      using show_int_no_point(2) [of i] by (subst takeWhile_append2) auto
    with that have "show_int p = show_int p'" by metis
    with that show ?thesis using ascii_ints.nt_inj by auto
  qed
  have inj: "x = y" if "fraction_text x = fraction_text y" "finite_f64 x" "finite_f64 y" for x y
  proof -
    have no_point: "CHR ''.'' \<notin> set (fraction_text (Fin r))" for r
      using show_int_no_point(1) by (auto split: prod.splits)
    have zero: "fraction_text (Fin r) \<noteq> ''-0.0''" for r
    proof
      assume e: "fraction_text (Fin r) = ''-0.0''"
      show False using no_point [of r] unfolding e by simp
    qed
    show ?thesis
    proof (cases "\<exists>r s. x = Fin r \<and> y = Fin s")
      case True
      then obtain r s where "x = Fin r" "y = Fin s" by blast
      with that(1) have "quotient_of r = quotient_of s" by (auto split: prod.splits dest!: split)
      then show ?thesis using \<open>x = Fin r\<close> \<open>y = Fin s\<close> quotient_of_inject by simp
    next
      case False
      then show ?thesis using that zero [THEN not_sym] zero by (cases x; cases y) (auto simp: finite_f64_def simp del: fraction_text.simps(1))
    qed
  qed
  have digits: "set (show_int i) \<subseteq> number_chars" for i using ascii_ints.nt_chars by blast
  have "set (fraction_text x) \<subseteq> number_chars \<and> (\<exists>c \<in> set (fraction_text x). is_ascii_digit c)
      \<and> (CHR ''.'' \<in> set (fraction_text x) \<or> CHR ''e'' \<in> set (fraction_text x))" if "finite_f64 x" for x
  proof (cases x)
    case (Fin r)
    obtain p q where "quotient_of r = (p, q)" by fastforce
    then show ?thesis using Fin digit [of p] digits [of p] digits [of q] by (auto simp: number_chars_def)
  next
    case NegZero
    have "is_ascii_digit (CHR ''0'')" by code_simp
    then show ?thesis using NegZero by (simp add: number_chars_def)
  qed (use that in \<open>auto simp: finite_f64_def\<close>)
  then show ?thesis using inj by (auto simp: float_writer_def inj_on_def)
qed

definition costed_envelope :: "f64 \<Rightarrow> jv" where
  "costed_envelope cost = JObj [(''max_cost_usd'', JNum (JFloat cost)), (''task'', JNum (JInt 7))]"

theorem canonicalize_injective_witness:
  "{w. wf_json w \<and> finite_json w
      \<and> canonicalize (jnum_text fraction_text) w = canonicalize (jnum_text fraction_text) (costed_envelope (Fin (1 / 2)))}
     = {costed_envelope (Fin (1 / 2))}"
proof -
  have v: "wf_json (costed_envelope (Fin (1 / 2)))" "finite_json (costed_envelope (Fin (1 / 2)))"
    by (simp_all add: costed_envelope_def ascii_valid_utf8 is_ascii_def finite_json_def finite_f64_def) (code_simp)?
  have w: "float_writer (float_text (toy_hub\<lparr>float_text := fraction_text\<rparr>))" by (simp add: fraction_writer)
  show ?thesis
    using canonicalize_injective [OF w _ _ v] v by auto
qed

end
