(* ===== verification/HubAuth.thy ===== *)
theory HubAuth
  imports HubBase
begin

text \<open>
  Authorization in the hub (\<^verbatim>\<open>crates/fabric-hub/src/auth.rs\<close>): the roles a route requires, the
  legacy exception, the step-up gate and its freshness window, the capability vocabulary of the
  clients, and the parsing of the credentials of a request. A header is given as the text it holds,
  when it is text. Looking a human session up in the store is not part of this theory.
\<close>

section \<open>Roles\<close>

definition valid_roles :: "string list" where
  "valid_roles = [''dispatcher'', ''runner'', ''observer'', ''approver'', ''reviewer'']"

definition legacy_compat_roles :: "string list" where
  "legacy_compat_roles = [''dispatcher'', ''runner'', ''observer'']"

definition from_role_token :: "role_token_row \<Rightarrow> auth_context" where
  "from_role_token row =
     \<lparr>subject = rt_token_id row, roles = rt_roles row, legacy_compat = False, human_principal = None,
      session_id = None, assurance_level = None, step_up_at = None\<rparr>"

definition legacy_context :: auth_context where
  "legacy_context =
     \<lparr>subject = ''legacy-cluster-bearer'', roles = legacy_compat_roles, legacy_compat = True,
      human_principal = None, session_id = None, assurance_level = None, step_up_at = None\<rparr>"

definition from_human_session ::
  "string \<Rightarrow> string list \<Rightarrow> string \<Rightarrow> string \<Rightarrow> string option \<Rightarrow> auth_context" where
  "from_human_session account rs session assurance step_up =
     \<lparr>subject = account, roles = rs, legacy_compat = False, human_principal = Some account,
      session_id = Some session, assurance_level = Some assurance, step_up_at = step_up\<rparr>"

text \<open>\<open>quoted\<close> is the debug format of a string.\<close>

fun normalize_from :: "(string \<Rightarrow> string) \<Rightarrow> string list \<Rightarrow> string list \<Rightarrow> (string, string list) res" where
  "normalize_from quoted out [] = Inr (sort out)"
| "normalize_from quoted out (r # rs) =
     (let role = to_ascii_lowercase (trim r) in
      if role \<notin> set valid_roles
      then Inl (''unknown role '' @ quoted role @ ''; expected one of '' @ join_with '', '' valid_roles)
      else normalize_from quoted (if role \<in> set out then out else out @ [role]) rs)"

definition normalize_roles :: "(string \<Rightarrow> string) \<Rightarrow> string list \<Rightarrow> (string, string list) res" where
  "normalize_roles quoted rs =
     (if rs = [] then Inl ''at least one role is required'' else normalize_from quoted [] rs)"

section \<open>Required roles\<close>

definition ADMIN :: "string list" where "ADMIN = [''admin'']"
definition ADMIN_REVIEW :: "string list" where "ADMIN_REVIEW = [''admin'', ''reviewer'']"
definition APPROVAL_READ :: "string list" where
  "APPROVAL_READ = [''observer'', ''dispatcher'', ''approver'', ''reviewer'']"
definition APPROVE :: "string list" where "APPROVE = [''approver'', ''reviewer'']"
definition DISPATCH :: "string list" where "DISPATCH = [''dispatcher'']"
definition DISPATCH_REVIEW :: "string list" where "DISPATCH_REVIEW = [''dispatcher'', ''reviewer'']"
definition HOST_REPORT :: "string list" where "HOST_REPORT = [''runner'', ''dispatcher'', ''reviewer'']"
definition OBSERVE :: "string list" where "OBSERVE = [''observer'', ''reviewer'']"
definition OBSERVE_DISPATCH :: "string list" where
  "OBSERVE_DISPATCH = [''observer'', ''dispatcher'', ''reviewer'']"
definition REVIEWER :: "string list" where "REVIEWER = [''reviewer'']"
definition RUN :: "string list" where "RUN = [''runner'']"
definition RUN_OR_DISPATCH :: "string list" where "RUN_OR_DISPATCH = [''runner'', ''dispatcher'']"
definition SELF_SERVICE :: "string list" where
  "SELF_SERVICE = [''observer'', ''dispatcher'', ''approver'', ''reviewer'', ''admin'']"
definition SETTINGS_READ :: "string list" where "SETTINGS_READ = [''observer'', ''reviewer'', ''admin'']"
definition TASK_READ :: "string list" where
  "TASK_READ = [''observer'', ''dispatcher'', ''runner'', ''reviewer'']"

definition account_roles :: "string \<Rightarrow> string \<Rightarrow> string list option" where
  "account_roles method path =
     (if path = ''/accounts'' then Some (if method = ''GET'' then ADMIN_REVIEW else ADMIN)
      else if starts_with ''/accounts/'' path then
        Some (if contains_str ''/membership'' path \<or> ends_with ''/disable'' path \<or> ends_with ''/enable'' path
              then ADMIN else if method = ''GET'' then ADMIN_REVIEW else ADMIN)
      else if path = ''/auth-policy'' then Some SELF_SERVICE
      else if path = ''/auth/sessions'' \<or> starts_with ''/auth/sessions/'' path then Some SELF_SERVICE
      else if path = ''/auth/logout'' \<or> path = ''/auth/logout-all'' \<or> path = ''/auth/me''
           \<or> path = ''/auth/step-up/options'' \<or> path = ''/auth/step-up/verify''
           \<or> starts_with ''/auth/passkeys/'' path then Some SELF_SERVICE
      else None)"

definition admin_roles :: "string \<Rightarrow> string \<Rightarrow> string list option" where
  "admin_roles method path =
     (if path = ''/admin/update'' \<or> starts_with ''/admin/binaries/'' path then Some DISPATCH_REVIEW
      else if path = ''/state/snapshot'' then Some ADMIN_REVIEW
      else if path = ''/state/import'' then Some ADMIN
      else if path = ''/admin/role-tokens'' then Some (if method = ''GET'' then ADMIN_REVIEW else ADMIN)
      else if path = ''/admin/role-tokens/split'' \<or> path = ''/admin/role-tokens/migrate'' then Some ADMIN
      else if starts_with ''/admin/role-tokens/'' path then Some ADMIN
      else if starts_with ''/admin/'' path \<or> path = ''/admin'' then Some REVIEWER
      else if path = ''/secrets'' \<or> starts_with ''/secrets/'' path then Some REVIEWER
      else if path = ''/labels'' then Some (if method = ''GET'' then OBSERVE else REVIEWER)
      else if path = ''/policy'' then Some OBSERVE
      else if path = ''/history/status'' then Some OBSERVE
      else if path = ''/settings'' \<or> path = ''/settings/schema'' then Some SETTINGS_READ
      else if starts_with ''/settings/'' path then
        Some (if method = ''GET'' then SETTINGS_READ
              else if path = ''/settings/auth'' \<or> starts_with ''/settings/auth.'' path then ADMIN_REVIEW
              else REVIEWER)
      else if path = ''/hosts/roles'' then Some HOST_REPORT
      else if starts_with ''/labels/'' path then Some REVIEWER
      else None)"

definition work_roles :: "string \<Rightarrow> string \<Rightarrow> string list option" where
  "work_roles method path =
     (if path = ''/tasks'' \<or> path = ''/tasks/v2'' then Some (if method = ''GET'' then TASK_READ else DISPATCH)
      else if path = ''/tasks/claim'' \<or> path = ''/tasks/claim-loom'' \<or> path = ''/tasks/claim-fabric'' then Some RUN
      else if starts_with ''/tasks/'' path then
        Some (if ends_with ''/input'' path then (if method = ''GET'' then RUN else DISPATCH)
              else if method = ''GET'' then TASK_READ
              else if ends_with ''/cancel'' path then DISPATCH
              else if ends_with ''/notes'' path then RUN_OR_DISPATCH
              else RUN)
      else if path = ''/runners'' then Some TASK_READ
      else if starts_with ''/runners/'' path then
        Some (if ends_with ''-by-dispatcher'' path then DISPATCH
              else if method = ''DELETE'' then DISPATCH_REVIEW else RUN)
      else if path = ''/dispatchers/register'' then Some DISPATCH
      else if starts_with ''/dispatchers/'' path \<and> method = ''DELETE'' then Some REVIEWER
      else if path = ''/dispatchers'' then Some OBSERVE_DISPATCH
      else if path = ''/approvals'' \<or> starts_with ''/approvals/'' path then
        Some (if method = ''POST'' then APPROVE else APPROVAL_READ)
      else if path = ''/agents'' \<or> starts_with ''/capabilities/'' path then Some OBSERVE_DISPATCH
      else if path = ''/cluster/health'' \<or> path = ''/hosts'' \<or> starts_with ''/audit/'' path
           \<or> starts_with ''/cost/'' path then Some OBSERVE
      else if path = ''/whoami'' then Some valid_roles
      else None)"

definition required_roles :: "string \<Rightarrow> string \<Rightarrow> string list" where
  "required_roles method path =
     opt_default REVIEWER
       (opt_or (account_roles method path) (opt_or (admin_roles method path) (work_roles method path)))"

definition bootstrap_exception :: "auth_context \<Rightarrow> string \<Rightarrow> string \<Rightarrow> bool" where
  "bootstrap_exception ctx method path \<longleftrightarrow>
     legacy_compat ctx \<and> method = ''POST'' \<and>
     path \<in> set [''/admin/role-tokens'', ''/admin/role-tokens/split'', ''/admin/role-tokens/migrate'']"

definition is_authorized :: "auth_context \<Rightarrow> string \<Rightarrow> string \<Rightarrow> bool" where
  "is_authorized ctx method path \<longleftrightarrow>
     bootstrap_exception ctx method path \<or>
     list_ex (\<lambda>required. required \<in> set (roles ctx)) (required_roles method path)"

section \<open>Capability vocabulary of the clients\<close>

definition authority_roles :: "(string \<times> string list) list" where
  "authority_roles =
     [(''fabric.tasks.write'', [''dispatcher'']),
      (''fabric.approvals.write'', [''approver'', ''reviewer'']),
      (''fabric.hosts.write'', [''dispatcher'', ''reviewer'']),
      (''fabric.hub.write'', [''reviewer'']),
      (''fabric.hosts.service'', [''reviewer'']),
      (''fabric.dr.write'', [''reviewer'']),
      (''fabric.connection.read-secret'', [''reviewer'']),
      (''fabric.connection.write'', [''reviewer''])]"

definition authorities_for :: "string list \<Rightarrow> string list" where
  "authorities_for rs =
     sort (map fst (filter (\<lambda>(a, needed). list_ex (\<lambda>n. n \<in> set rs) needed) authority_roles))"

section \<open>Step-up\<close>

definition requires_step_up :: "string \<Rightarrow> string \<Rightarrow> bool" where
  "requires_step_up method path =
     (if starts_with ''/accounts/'' path then
        contains_str ''/membership'' path \<or> ends_with ''/disable'' path \<or> ends_with ''/delete'' path
        \<or> ends_with ''/tombstone'' path \<or> ends_with ''/recovery-codes'' path
        \<or> ends_with ''/recovery/complete'' path \<or> ends_with ''/export'' path \<or> ends_with ''/import'' path
      else method = ''DELETE'' \<and> starts_with ''/auth/passkeys/'' path)"

text \<open>
  The first three pieces between dashes and colons, each a number; more pieces are ignored. Counts
  here stay within \<open>i64\<close> for the stamps the hub writes, so integers are unbounded.
\<close>

fun three_numbers :: "string list \<Rightarrow> (int \<times> int \<times> int) option" where
  "three_numbers (a # b # c # _) =
     (case (parse_i64 a, parse_i64 b, parse_i64 c) of
        (Some x, Some y, Some z) \<Rightarrow> Some (x, y, z) | _ \<Rightarrow> None)"
| "three_numbers _ = None"

definition parse_utc_to_epoch :: "string \<Rightarrow> int option" where
  "parse_utc_to_epoch s =
     (case split_once '' '' s of
        None \<Rightarrow> None
      | Some (date, time) \<Rightarrow>
          (case (three_numbers (split_on (CHR ''-'') date), three_numbers (split_on (CHR '':'') time)) of
             (Some (year, month, day), Some (hour, minute, sec)) \<Rightarrow>
               if \<not> (1 \<le> month \<and> month \<le> 12) \<or> \<not> (1 \<le> day \<and> day \<le> 31) then None
               else
                 let days = sum_list (map days_in_year [1970..year - 1])
                     + sum_list (take (nat (month - 1)) (month_lengths (is_leap year))) + (day - 1)
                 in Some (days * 86400 + hour * 3600 + minute * 60 + sec)
           | _ \<Rightarrow> None))"

definition saturating_mul :: "int \<Rightarrow> int \<Rightarrow> int" where
  "saturating_mul a b = max (- (2 ^ 63)) (min (2 ^ 63 - 1) (a * b))"

definition step_up_is_fresh :: "string \<Rightarrow> string \<Rightarrow> int \<Rightarrow> bool" where
  "step_up_is_fresh stamp now freshness_minutes =
     (case (parse_utc_to_epoch stamp, parse_utc_to_epoch now) of
        (Some before, Some current) \<Rightarrow>
          0 \<le> current - before \<and> current - before \<le> saturating_mul freshness_minutes 60
      | _ \<Rightarrow> False)"

section \<open>The gates behind authentication\<close>

text \<open>
  What \<^verbatim>\<open>require_bearer\<close> decides once it has an identity: denied by role, denied for lack of a
  step-up, or passed on to the route, with or without the legacy warning.
\<close>

datatype verdict = RoleDenied | StepUpDenied | Admitted bool

definition step_up_satisfied :: "auth_context \<Rightarrow> string \<Rightarrow> int \<Rightarrow> bool" where
  "step_up_satisfied ctx now freshness \<longleftrightarrow>
     assurance_level ctx = Some ''aal2'' \<and>
     (case step_up_at ctx of Some stamp \<Rightarrow> step_up_is_fresh stamp now freshness | None \<Rightarrow> False)"

definition admit :: "auth_context \<Rightarrow> string \<Rightarrow> string \<Rightarrow> string \<Rightarrow> int \<Rightarrow> verdict" where
  "admit ctx method path now freshness =
     (if \<not> is_authorized ctx method path then RoleDenied
      else if requires_step_up method path \<and> human_principal ctx \<noteq> None
              \<and> \<not> step_up_satisfied ctx now freshness then StepUpDenied
      else Admitted (legacy_compat ctx))"

section \<open>Credentials of a request\<close>

definition bearer_value :: "string option \<Rightarrow> string option" where
  "bearer_value header =
     (case header of
        None \<Rightarrow> None
      | Some raw \<Rightarrow>
          (case split_once '' '' (trim raw) of
             None \<Rightarrow> None
           | Some (scheme, v) \<Rightarrow>
               if \<not> eq_ignore_ascii_case scheme ''bearer'' \<or> trim v = [] then None else Some (trim v)))"

record signed_headers =
  sh_session_id :: string
  sh_timestamp :: int
  sh_nonce :: string
  sh_signature :: string

definition parse_signed_request_headers :: "(string \<Rightarrow> string option) \<Rightarrow> signed_headers option" where
  "parse_signed_request_headers get =
     (case (get ''x-forgewire-session'', get ''x-forgewire-timestamp'',
            get ''x-forgewire-nonce'', get ''x-forgewire-signature'') of
        (Some session, Some ts, Some nonce, Some signature) \<Rightarrow>
          (case parse_i64 ts of
             None \<Rightarrow> None
           | Some timestamp \<Rightarrow>
               if session = [] \<or> nonce = [] \<or> signature = [] then None
               else Some \<lparr>sh_session_id = session, sh_timestamp = timestamp, sh_nonce = nonce,
                          sh_signature = signature\<rparr>)
      | _ \<Rightarrow> None)"

unbundle bit_operations_syntax

definition byte :: "char \<Rightarrow> 8 word" where
  "byte c = of_nat (of_char c)"

definition constant_time_eq :: "string \<Rightarrow> string \<Rightarrow> bool" where
  "constant_time_eq a b =
     (if length a \<noteq> length b then False
      else fold (\<lambda>(x, y) diff. diff OR (byte x XOR byte y)) (zip a b) 0 = 0)"

section \<open>Comparing secrets\<close>

lemma byte_inject: "byte a = byte b \<longleftrightarrow> a = b"
proof
  assume "byte a = byte b"
  then have "unat (byte a) = unat (byte b)" by simp
  moreover have "unat (byte c) = of_char c" for c
    using nat_of_char_less_256 [of c] by (simp add: byte_def unat_of_nat)
  ultimately show "a = b" by simp
qed simp

lemma fold_or_xor:
  "fold (\<lambda>(x, y) diff. diff OR (byte x XOR byte y)) ps d = 0 \<longleftrightarrow> d = 0 \<and> list_all (\<lambda>(x, y). x = y) ps"
proof (induction ps arbitrary: d)
  case (Cons p ps)
  obtain x y where p: "p = (x, y)" by (cases p)
  have "d OR (byte x XOR byte y) = 0 \<longleftrightarrow> d = 0 \<and> byte x = byte y"
    by (metis or.right_neutral or_eq_0_iff xor_self_eq bit.xor_self xor.right_neutral xor.assoc)
  then show ?case using Cons byte_inject p by auto
qed simp

lemma constant_time_eq_iff: "constant_time_eq a b \<longleftrightarrow> a = b"
proof (cases "length a = length b")
  case True
  then have "list_all (\<lambda>(x, y). x = y) (zip a b) \<longleftrightarrow> a = b"
    by (induction a b rule: list_induct2) auto
  then show ?thesis using True by (simp add: constant_time_eq_def fold_or_xor)
qed (auto simp: constant_time_eq_def)

section \<open>The role table\<close>

lemmas role_lists = ADMIN_def ADMIN_REVIEW_def APPROVAL_READ_def APPROVE_def DISPATCH_def DISPATCH_REVIEW_def
  HOST_REPORT_def OBSERVE_def OBSERVE_DISPATCH_def REVIEWER_def RUN_def RUN_OR_DISPATCH_def SELF_SERVICE_def
  SETTINGS_READ_def TASK_READ_def

lemmas role_table = required_roles_def account_roles_def admin_roles_def work_roles_def

text \<open>The route changes credentials, accounts or the whole state: what only an administrator does.\<close>

definition administration :: "string \<Rightarrow> string \<Rightarrow> bool" where
  "administration method path \<longleftrightarrow>
     ((path = ''/accounts'' \<or> starts_with ''/accounts/'' path) \<and> method \<noteq> ''GET'')
     \<or> path = ''/state/import''
     \<or> (path = ''/admin/role-tokens'' \<and> method \<noteq> ''GET'') \<or> starts_with ''/admin/role-tokens/'' path"

lemma starts_withE: "starts_with p s \<Longrightarrow> (\<And>r. s = p @ r \<Longrightarrow> thesis) \<Longrightarrow> thesis"
  unfolding starts_with_iff_prefix prefix_def by blast

lemma account_administration:
  "method \<noteq> ''GET'' \<Longrightarrow> path = ''/accounts'' \<or> starts_with ''/accounts/'' path \<Longrightarrow> account_roles method path = Some ADMIN"
  by (cases "path = ''/accounts''") (simp_all add: account_roles_def)

lemma token_administration:
  "account_roles method (''/admin/role-tokens/'' @ r) = None"
  "admin_roles method (''/admin/role-tokens/'' @ r) = Some ADMIN"
  unfolding account_roles_def admin_roles_def by simp_all

lemma fixed_administration:
  "required_roles method ''/state/import'' = ADMIN"
  "method \<noteq> ''GET'' \<Longrightarrow> required_roles method ''/admin/role-tokens'' = ADMIN"
  unfolding required_roles_def account_roles_def admin_roles_def by simp_all

lemma administration_admin:
  assumes "administration method path"
  shows "required_roles method path = ADMIN"
  using assms unfolding administration_def
proof (elim disjE conjE)
  assume "path = ''/accounts''" "method \<noteq> ''GET''"
  then show ?thesis using account_administration by (simp add: required_roles_def)
next
  assume "starts_with ''/accounts/'' path" "method \<noteq> ''GET''"
  then show ?thesis using account_administration by (simp add: required_roles_def)
next
  assume "starts_with ''/admin/role-tokens/'' path"
  then obtain r where "path = ''/admin/role-tokens/'' @ r" by (elim starts_withE)
  then show ?thesis using token_administration [of _ r] by (simp only: required_roles_def opt_or_simps opt_default_simps)
qed (simp_all add: fixed_administration)



section \<open>The step-up gate\<close>

text \<open>
  The export of the accounts is a step-up route, but the gate asks only human sessions for a
  step-up: a reviewer's role token, which no step-up can ever back, is admitted to it. The comment in
  \<^verbatim>\<open>require_bearer\<close> says that every step-up route is admin-only and out of reach of a role token.
\<close>

lemma reviewer_token_exports_accounts:
  assumes "''reviewer'' \<in> set (rt_roles row)"
  shows "requires_step_up ''GET'' ''/accounts/export'' \<and>
    admit (from_role_token row) ''GET'' ''/accounts/export'' now freshness = Admitted False"
proof -
  have "requires_step_up ''GET'' ''/accounts/export''" unfolding requires_step_up_def by code_simp
  moreover have "required_roles ''GET'' ''/accounts/export'' = ADMIN_REVIEW"
    unfolding required_roles_def account_roles_def by code_simp
  ultimately show ?thesis
    using assms by (simp add: admit_def is_authorized_def ADMIN_REVIEW_def from_role_token_def)
qed

lemma reviewer_token_exports_accounts_witness:
  "requires_step_up ''GET'' ''/accounts/export'' \<and>
   admit (from_role_token \<lparr>rt_token_id = ''t1'', rt_token_hash = ''h'', rt_label = ''ci'', rt_roles = [''reviewer''],
       rt_created_at = ''c'', rt_created_by = ''ops'', rt_migrated = False, rt_revoked_at = None\<rparr>)
     ''GET'' ''/accounts/export'' ''now'' 10 = Admitted False"
  by (rule reviewer_token_exports_accounts) simp

section \<open>Stamps and the freshness window\<close>

lemma split_on_two: "d \<notin> set x \<Longrightarrow> d \<notin> set y \<Longrightarrow> d \<notin> set z \<Longrightarrow> split_on d (x @ d # y @ d # z) = [x, y, z]"
  by (simp add: split_on_append_Cons split_on_no_sep)

lemma read_nat_digits_only: "0 \<le> i \<Longrightarrow> parse_digits_only (pad_int w i) = Some (nat i)"
proof -
  assume i: "0 \<le> i"
  have "pad_left w (show_nat (nat i)) \<noteq> []" by (simp add: pad_left_def)
  then show ?thesis using i pad_left_digits read_pad_left by (simp add: pad_int_nonneg parse_digits_only_def)
qed

lemma digits_pad_int: "0 \<le> i \<Longrightarrow> c \<in> set (pad_int w i) \<Longrightarrow> is_ascii_digit c"
  using pad_left_digits [of w "nat i"] by (simp add: pad_int_nonneg list_all_iff)

lemma parse_i64_pad_int: "0 \<le> i \<Longrightarrow> i < 2 ^ 63 \<Longrightarrow> parse_i64 (pad_int w i) = Some i"
proof -
  assume i: "0 \<le> i" "i < 2 ^ 63"
  obtain c r where c: "pad_int w i = c # r"
    using i(1) by (cases "pad_int w i") (auto simp: pad_int_nonneg pad_left_def)
  then have "is_ascii_digit c" using digits_pad_int [OF i(1), of c w] by simp
  then have "c \<noteq> CHR ''-''" "c \<noteq> CHR ''+''" by (auto simp: is_ascii_digit_def)
  then show ?thesis using c i read_nat_digits_only [OF i(1), of w] by (simp add: parse_i64_def)
qed

lemma no_sep_pad_int: "0 \<le> i \<Longrightarrow> d \<in> {CHR ''-'', CHR '':'', CHR '' ''} \<Longrightarrow> d \<notin> set (pad_int w i)"
  using digits_pad_int [of i d w] by (auto simp: is_ascii_digit_def)

lemma find_sub_char: "d \<notin> set s \<Longrightarrow> find_sub [d] (s @ d # t) = Some (length s)"
  by (induction s) (auto simp: starts_with_def)

lemma split_once_char: "d \<notin> set s \<Longrightarrow> split_once [d] (s @ d # t) = Some (s, t)"
  by (simp add: split_once_def find_sub_char)

lemma days_before_year: "1970 \<le> y \<Longrightarrow> sum_list (map days_in_year [1970..y - 1]) = days_from_civil y 1 1"
proof (induction y rule: int_ge_induct)
  case base
  then show ?case by (simp add: days_from_civil_1970)
next
  case (step y)
  have "[1970..y] = [1970..y - 1] @ [y]" using step(1) upto_rec2 [of 1970 y] by simp
  then show ?case using step days_from_civil_next_year [of y] by simp
qed

lemma parse_stamp_numbers:
  assumes "0 \<le> y" "y < 10000" "m < 12" "0 \<le> d" "d < 31" "0 \<le> h" "h < 24" "0 \<le> mi" "mi < 60" "0 \<le> s" "s < 60"
  shows "split_once '' '' (format_stamp y m d h mi s) =
      Some (pad_int 4 y @ ''-'' @ pad_int 2 (int m + 1) @ ''-'' @ pad_int 2 (d + 1),
            pad_int 2 h @ '':'' @ pad_int 2 mi @ '':'' @ pad_int 2 s)"
    and "three_numbers (split_on (CHR ''-'') (pad_int 4 y @ ''-'' @ pad_int 2 (int m + 1) @ ''-'' @ pad_int 2 (d + 1)))
      = Some (y, int m + 1, d + 1)"
    and "three_numbers (split_on (CHR '':'') (pad_int 2 h @ '':'' @ pad_int 2 mi @ '':'' @ pad_int 2 s))
      = Some (h, mi, s)"
proof -
  have sp: "CHR '' '' \<notin> set (pad_int 4 y @ ''-'' @ pad_int 2 (int m + 1) @ ''-'' @ pad_int 2 (d + 1))"
    using assms no_sep_pad_int by simp
  show "split_once '' '' (format_stamp y m d h mi s) =
      Some (pad_int 4 y @ ''-'' @ pad_int 2 (int m + 1) @ ''-'' @ pad_int 2 (d + 1),
            pad_int 2 h @ '':'' @ pad_int 2 mi @ '':'' @ pad_int 2 s)"
    using split_once_char [OF sp] by (simp add: format_stamp_def)
  have "split_on (CHR ''-'') (pad_int 4 y @ ''-'' @ pad_int 2 (int m + 1) @ ''-'' @ pad_int 2 (d + 1))
      = [pad_int 4 y, pad_int 2 (int m + 1), pad_int 2 (d + 1)]"
    using split_on_two [of "CHR ''-''" "pad_int 4 y" "pad_int 2 (int m + 1)" "pad_int 2 (d + 1)"] assms no_sep_pad_int
    by simp
  then show "three_numbers (split_on (CHR ''-'') (pad_int 4 y @ ''-'' @ pad_int 2 (int m + 1) @ ''-'' @ pad_int 2 (d + 1)))
      = Some (y, int m + 1, d + 1)"
    using assms by (simp add: parse_i64_pad_int)
  have "split_on (CHR '':'') (pad_int 2 h @ '':'' @ pad_int 2 mi @ '':'' @ pad_int 2 s)
      = [pad_int 2 h, pad_int 2 mi, pad_int 2 s]"
    using split_on_two [of "CHR '':''" "pad_int 2 h" "pad_int 2 mi" "pad_int 2 s"] assms no_sep_pad_int by simp
  then show "three_numbers (split_on (CHR '':'') (pad_int 2 h @ '':'' @ pad_int 2 mi @ '':'' @ pad_int 2 s))
      = Some (h, mi, s)"
    using assms by (simp add: parse_i64_pad_int)
qed

lemma parse_utc_now:
  assumes "0 \<le> t" "t < 253402300800"
  shows "parse_utc_to_epoch (utc_now t) = Some t"
proof -
  obtain y m d where c: "civil_from_days (t div 86400) = (y, m, d)" by (metis prod_cases3)
  have n: "0 \<le> t div 86400" using assms by simp
  note cs = civil_from_days_spec [OF n c]
  have y: "1970 \<le> y" "y < 10000" using cs(1) year_before_10000 [OF assms c] by auto
  have md: "m < 12" "0 \<le> d" "d < 31"
    using cs(2) month_lengths_le [of m "is_leap y"] by (auto simp: valid_date_def)
  have now: "utc_now t = format_stamp y m d ((t div 3600) mod 24) ((t div 60) mod 60) (t mod 60)"
    using assms c by (simp add: utc_now_def hub_epoch_secs_to_iso_def trunc_nonneg)
  note ps = parse_stamp_numbers [of y m d "(t div 3600) mod 24" "(t div 60) mod 60" "t mod 60"]
  have days: "sum_list (map days_in_year [1970..y - 1]) + sum_list (take m (month_lengths (is_leap y))) + d = t div 86400"
    using days_before_year [OF y(1)] days_from_civil_month [of y m "d + 1"] md cs(1,3) by simp
  have secs: "t div 86400 * 86400 + (t div 3600) mod 24 * 3600 + (t div 60) mod 60 * 60 + t mod 60 = t"
  proof -
    have d: "t div 86400 = t div 3600 div 24" "t div 3600 = t div 60 div 60"
      using zdiv_zmult2_eq [of 24 t 3600] zdiv_zmult2_eq [of 60 t 60] by simp_all
    have e: "t div 3600 = t div 86400 * 24 + t div 3600 mod 24" unfolding d(1) by simp
    have f: "t div 60 = t div 3600 * 60 + t div 60 mod 60" unfolding d(2) by simp
    have g: "t = t div 60 * 60 + t mod 60" by simp
    show ?thesis using e f g by linarith
  qed
  have "parse_utc_to_epoch (utc_now t) =
      Some (t div 86400 * 86400 + (t div 3600) mod 24 * 3600 + (t div 60) mod 60 * 60 + t mod 60)"
    using ps y md days by (simp add: parse_utc_to_epoch_def now Let_def)
  then show ?thesis using secs by simp
qed

text \<open>
  The step-up window is exact: for stamps the hub writes at the instants \<open>a\<close> and \<open>b\<close> (up to the
  year 9999), a step-up at \<open>a\<close> is fresh at \<open>b\<close> exactly when it is not in the future and at most the
  configured number of minutes old.
\<close>

lemma step_up_window:
  assumes "0 \<le> a" "a < 253402300800" "0 \<le> b" "b < 253402300800" and "0 \<le> mins" "mins \<le> 10"
  shows "step_up_is_fresh (utc_now a) (utc_now b) mins \<longleftrightarrow> a \<le> b \<and> b \<le> a + 60 * mins"
  using assms by (auto simp: step_up_is_fresh_def parse_utc_now saturating_mul_def)

lemma step_up_window_witness:
  "step_up_is_fresh (utc_now 1748649600) (utc_now 1748650200) 10 \<and>
   \<not> step_up_is_fresh (utc_now 1748649600) (utc_now 1748650201) 10"
  using step_up_window [of 1748649600 1748650200 10] step_up_window [of 1748649600 1748650201 10] by simp

section \<open>The capability vocabulary\<close>

lemma authority_iff:
  "a \<in> set (authorities_for rs) \<longleftrightarrow>
     (\<exists>needed. (a, needed) \<in> set authority_roles \<and> list_ex (\<lambda>n. n \<in> set rs) needed)"
  unfolding authorities_for_def by force

lemma representative_routes:
  "required_roles ''POST'' ''/tasks/v2'' = DISPATCH"
  "required_roles ''POST'' (''/approvals/'' @ i @ ''/approve'') = APPROVE"
  "required_roles ''PUT'' (''/labels/runners/'' @ i) = REVIEWER"
  "required_roles ''POST'' (''/runners/'' @ i @ ''/drain-by-dispatcher'') = DISPATCH"
  "required_roles ''PUT'' ''/labels/hub'' = REVIEWER"
  "required_roles ''GET'' ''/secrets'' = REVIEWER"
proof -
  have e: "ends_with ''-by-dispatcher'' (''/runners/'' @ i @ ''/drain-by-dispatcher'')"
    by (auto simp: ends_with_iff_suffix suffix_def)
  show "required_roles ''POST'' (''/runners/'' @ i @ ''/drain-by-dispatcher'') = DISPATCH"
    using e unfolding required_roles_def account_roles_def admin_roles_def work_roles_def by simp
qed (unfold required_roles_def account_roles_def admin_roles_def work_roles_def, simp_all)

text \<open>
  The capabilities that \<^verbatim>\<open>GET /whoami\<close> announces agree with what the routes enforce: a caller
  is told it may write tasks, resolve approvals, manage hosts, rename the hub or read secrets exactly
  when the role gate lets it use the corresponding routes, for any runner and approval id.
\<close>

lemma authorities_match_routes:
  "(''fabric.tasks.write'' \<in> set (authorities_for (roles ctx)) \<longleftrightarrow> is_authorized ctx ''POST'' ''/tasks/v2'') \<and>
   (''fabric.approvals.write'' \<in> set (authorities_for (roles ctx)) \<longleftrightarrow>
      is_authorized ctx ''POST'' (''/approvals/'' @ i @ ''/approve'')) \<and>
   (''fabric.hosts.write'' \<in> set (authorities_for (roles ctx)) \<longleftrightarrow>
      is_authorized ctx ''PUT'' (''/labels/runners/'' @ i)
      \<or> is_authorized ctx ''POST'' (''/runners/'' @ i @ ''/drain-by-dispatcher'')) \<and>
   (''fabric.hub.write'' \<in> set (authorities_for (roles ctx)) \<longleftrightarrow> is_authorized ctx ''PUT'' ''/labels/hub'') \<and>
   (''fabric.connection.read-secret'' \<in> set (authorities_for (roles ctx)) \<longleftrightarrow> is_authorized ctx ''GET'' ''/secrets'')"
  unfolding is_authorized_def representative_routes
  by (auto simp: authority_iff authority_roles_def bootstrap_exception_def role_lists)

end
