(* ===== verification/HubDispatch.thy ===== *)
theory HubDispatch
  imports HubBase StoreTasks
begin

text \<open>
  The dispatch routes of the hub (\<^verbatim>\<open>crates/fabric-hub/src/routes/tasks.rs\<close>): the signed envelope,
  the checks of a dispatch in their order, and the queued or held task it becomes. A handler runs on
  a world of the store; its clock is a function from the number of the reading. The identifier a
  fresh approval gets is an argument. A reply carries the stored row; the JSON text of a row is left
  to serde.
\<close>

section \<open>Requests\<close>

record dispatch_payload =
  dq_title :: string
  dq_prompt :: string
  dq_scope_globs :: "string list"
  dq_base_commit :: string
  dq_branch :: string
  dq_todo_id :: "string option"
  dq_timeout_minutes :: int
  dq_priority :: int
  dq_kind :: string
  dq_metadata :: jv
  dq_required_tools :: "string list option"
  dq_required_tags :: "string list option"
  dq_tenant :: "string option"
  dq_workspace_root :: "string option"
  dq_require_base_commit :: bool
  dq_required_capabilities :: "string list option"
  dq_secrets_needed :: "string list option"
  dq_network_egress :: "jv option"
  dq_approval_id :: "string option"
  dq_max_cost_usd :: "f64 option"
  dq_dispatch :: "string option"
  dq_skill :: "string option"
  dq_tool :: "string option"
  dq_command :: "string list option"
  dq_cwd :: "string option"
  dq_env :: "jv option"
  dq_loom_env_digest :: "string option"

record signed_dispatch =
  sd_base :: dispatch_payload
  sd_dispatcher_id :: string
  sd_timestamp :: i64
  sd_nonce :: string
  sd_signature :: string

section \<open>The signed envelope\<close>

definition string_entries :: "jv option \<Rightarrow> (string \<times> jv) list" where
  "string_entries env =
     (case env of Some (JObj es) \<Rightarrow> filter (\<lambda>e. as_str (snd e) \<noteq> None) es | _ \<Rightarrow> [])"

definition loom_env_digest :: "hub \<Rightarrow> jv option \<Rightarrow> string" where
  "loom_env_digest h env =
     hex_encode (hub_crypto h)
       (sha256 (hub_crypto h) (canonicalize (jnum_text (float_text h)) (JObj (string_entries env))))"

definition loom_env_keys :: "jv option \<Rightarrow> string list" where
  "loom_env_keys env = (case env of Some (JObj es) \<Rightarrow> sort (map fst es) | _ \<Rightarrow> [])"

definition dispatch_fields :: "signed_dispatch \<Rightarrow> (string \<times> jv) list" where
  "dispatch_fields p =
     (let b = sd_base p in
      [(''op'', JStr ''dispatch''),
       (''dispatcher_id'', JStr (sd_dispatcher_id p)),
       (''title'', JStr (dq_title b)),
       (''prompt'', JStr (dq_prompt b)),
       (''scope_globs'', jstrs (dq_scope_globs b)),
       (''base_commit'', JStr (dq_base_commit b)),
       (''branch'', JStr (dq_branch b)),
       (''todo_id'', jopt JStr (dq_todo_id b)),
       (''timeout_minutes'', jint (dq_timeout_minutes b)),
       (''priority'', jint (dq_priority b)),
       (''metadata'', dq_metadata b),
       (''required_tools'', jopt jstrs (dq_required_tools b)),
       (''required_tags'', jopt jstrs (dq_required_tags b)),
       (''required_capabilities'', jopt jstrs (dq_required_capabilities b)),
       (''secrets_needed'', jopt jstrs (dq_secrets_needed b)),
       (''network_egress'', jopt id (dq_network_egress b)),
       (''tenant'', jopt JStr (dq_tenant b)),
       (''workspace_root'', jopt JStr (dq_workspace_root b)),
       (''require_base_commit'', JBool (dq_require_base_commit b)),
       (''kind'', JStr (dq_kind b)),
       (''max_cost_usd'', jopt jfloat (dq_max_cost_usd b)),
       (''timestamp'', jint (sint (sd_timestamp p))),
       (''nonce'', JStr (sd_nonce p))])"

definition loom_fields :: "dispatch_payload \<Rightarrow> (string \<times> jv) list" where
  "loom_fields b =
     [(''loom_command'', jstrs (opt_default [] (dq_command b))),
      (''loom_cwd'', JStr (opt_default [] (dq_cwd b))),
      (''loom_env_keys'', jstrs (loom_env_keys (dq_env b))),
      (''loom_env_digest'', jopt JStr (dq_loom_env_digest b))]"

definition has_signed_command :: "dispatch_payload \<Rightarrow> bool" where
  "has_signed_command b \<longleftrightarrow> dq_kind b = ''command'' \<and> dq_command b \<noteq> None \<and> dq_loom_env_digest b \<noteq> None"

definition dispatch_envelope :: "signed_dispatch \<Rightarrow> jv" where
  "dispatch_envelope p =
     jobj (dispatch_fields p @ (if has_signed_command (sd_base p) then loom_fields (sd_base p) else []))"

section \<open>The task a dispatch becomes\<close>

definition actor_value :: "jv \<Rightarrow> jv \<Rightarrow> string list \<Rightarrow> string option" where
  "actor_value request registered keys =
     first_some (\<lambda>source. first_some (\<lambda>key.
       case Option.bind (obj_get key source) as_str of
         None \<Rightarrow> None
       | Some v \<Rightarrow> let t = trim v in if t = [] then None else Some t) keys) [request, registered]"

definition public_key_fingerprint :: "crypto \<Rightarrow> string \<Rightarrow> string" where
  "public_key_fingerprint cr public_key =
     ''sha256:'' @ hex_encode cr (sha256 cr
       (case hex_decode cr public_key of Inr bytes \<Rightarrow> bytes | Inl _ \<Rightarrow> public_key))"

definition policy_evidence :: "string \<Rightarrow> policy_decision \<Rightarrow> string \<Rightarrow> jv \<Rightarrow> jv" where
  "policy_evidence phase d now context =
     jobj [(''stage'', JStr phase), (''at'', JStr now), (''allowed'', JBool (allowed d)),
           (''denied'', JBool (denied d)), (''needs_approval'', JBool (needs_approval d)),
           (''reasons'', jstrs (reasons d)), (''context'', context)]"

definition dispatch_params ::
    "crypto \<Rightarrow> dispatch_payload \<Rightarrow> dispatcher_row \<Rightarrow> policy_decision \<Rightarrow> string \<Rightarrow> string option \<Rightarrow> int \<Rightarrow> int
     \<Rightarrow> create_task_params" where
  "dispatch_params cr p d decision now approval required received =
     \<lparr>cp_title = dq_title p, cp_prompt = dq_prompt p, cp_scope_globs = dq_scope_globs p,
      cp_base_commit = dq_base_commit p, cp_branch = dq_branch p, cp_todo_id = dq_todo_id p,
      cp_timeout_minutes = dq_timeout_minutes p, cp_priority = dq_priority p, cp_kind = dq_kind p,
      cp_metadata = (if dq_metadata p = JNull then jobj [] else dq_metadata p),
      cp_required_tools = dq_required_tools p, cp_required_tags = dq_required_tags p,
      cp_tenant = dq_tenant p, cp_workspace_root = dq_workspace_root p,
      cp_require_base_commit = dq_require_base_commit p,
      cp_required_capabilities = dq_required_capabilities p,
      cp_secrets_needed = dq_secrets_needed p, cp_network_egress = dq_network_egress p,
      cp_dispatcher_id = Some (d_dispatcher_id d),
      cp_dispatch = opt_or (dq_dispatch p) (if dq_kind p = ''agent'' then Some ''prompt'' else None),
      cp_skill = dq_skill p, cp_tool = dq_tool p, cp_command = dq_command p, cp_cwd = dq_cwd p,
      cp_env = dq_env p, cp_initial_status = None,
      cp_dispatched_by_user =
        opt_or (actor_value (dq_metadata p) (d_metadata d) [''user'', ''username'', ''operator''])
          (Some (d_label d)),
      cp_dispatched_by_host =
        opt_or (actor_value (dq_metadata p) (d_metadata d) [''host'', ''hostname'']) (d_hostname d),
      cp_dispatched_by_agent =
        opt_or (actor_value (dq_metadata p) (d_metadata d) [''agent'', ''agent_type'', ''source'', ''client''])
          (Some (d_label d)),
      cp_dispatcher_pubkey_fingerprint = Some (public_key_fingerprint cr (d_public_key d)),
      cp_approval_id = approval,
      cp_policy_decisions =
        [policy_evidence ''dispatch'' decision now
           (jobj [(''dispatcher_id'', JStr (d_dispatcher_id d)), (''kind'', JStr (dq_kind p)),
                  (''branch'', JStr (dq_branch p))])],
      cp_approvals_required = required, cp_approvals_received = received\<rparr>"

section \<open>Dispatch\<close>

datatype dispatch_reply =
    Held int string string "string option"
  | Queued task_row

text \<open>Unsigned dispatch is refused whatever it asks for.\<close>

definition dispatch_task :: "dispatch_payload \<Rightarrow> (nat \<times> string, task_row) handler" where
  "dispatch_task p = hfail (426, ''protocol v3 requires signed dispatch via POST /tasks/v2'')"

definition named_branch :: "dispatch_payload \<Rightarrow> string option" where
  "named_branch b = (if dq_branch b = [] then None else Some (dq_branch b))"

definition gate_request :: "signed_dispatch \<Rightarrow> dispatch_request" where
  "gate_request p =
     \<lparr>dr_task_id = [], dr_scope_globs = dq_scope_globs (sd_base p),
      dr_target_branch = named_branch (sd_base p), dr_dispatcher_id = Some (sd_dispatcher_id p),
      dr_kind = dq_kind (sd_base p), dr_cwd = dq_cwd (sd_base p)\<rparr>"

definition dispatcher_errors :: "store_error \<Rightarrow> nat \<times> string" where
  "dispatcher_errors e = (case e of NotFound _ \<Rightarrow> (404, ''dispatcher not registered'') | _ \<Rightarrow> internal e)"

definition nonce_errors :: "store_error \<Rightarrow> nat \<times> string" where
  "nonce_errors e =
     (case e of NotFound _ \<Rightarrow> (404, ''dispatcher not registered'')
      | PermissionDenied m \<Rightarrow> (403, m) | _ \<Rightarrow> internal e)"

definition check_kind :: "string \<Rightarrow> (nat \<times> string, unit) res" where
  "check_kind kind =
     (if kind = [] then Inl (400, ''kind is required (one of: agent, command)'')
      else if kind \<noteq> ''agent'' \<and> kind \<noteq> ''command''
        then Inl (400, ''kind must be '' @ [CHR 0x27] @ ''agent'' @ [CHR 0x27] @ '' or '' @ [CHR 0x27]
                       @ ''command'' @ [CHR 0x27] @ ''; got '' @ [CHR 0x27] @ kind @ [CHR 0x27])
      else Inr ())"

text \<open>An audit event nobody waits for, followed by the refusal.\<close>

definition audited_refusal ::
    "hub \<Rightarrow> string \<Rightarrow> jv \<Rightarrow> int \<Rightarrow> nat \<times> string \<Rightarrow> (nat \<times> string, 'a) handler" where
  "audited_refusal h kind event now e =
     hbind (ignoring (audit_append h kind None event now)) (\<lambda>_. hfail e)"

text \<open>A command brief must have its command signed, over the environment it carries.\<close>

definition check_loom :: "hub \<Rightarrow> auth_context \<Rightarrow> (nat \<Rightarrow> int) \<Rightarrow> signed_dispatch \<Rightarrow> (nat \<times> string, unit) handler" where
  "check_loom h actor clk p =
     (if dq_kind (sd_base p) = ''command'' \<and> \<not> has_signed_command (sd_base p) then
       audited_refusal h ''legacy_loom_unsigned_command''
         (jobj [(''dispatcher_id'', JStr (sd_dispatcher_id p)), (''title'', JStr (dq_title (sd_base p))),
                (''warning'', JStr ''command/cwd/env not covered by dispatcher signature; rejected''),
                (''attribution'', attribution actor)]) (clk 1)
         (403, ''unsigned Loom command brief rejected: dispatcher must sign command/cwd/env fields (upgrade to M2.9.1+)'')
     else if has_signed_command (sd_base p)
             \<and> Some (loom_env_digest h (dq_env (sd_base p))) \<noteq> dq_loom_env_digest (sd_base p) then
       audited_refusal h ''dispatch_denied''
         (jobj [(''reason'', JStr ''loom_env_digest_mismatch''), (''signed'', JBool True),
                (''dispatcher_id'', JStr (sd_dispatcher_id p)), (''attribution'', attribution actor)]) (clk 1)
         (400, ''loom_env_digest does not match the env map in the brief'')
     else hret ())"

definition verify_dispatch ::
    "hub \<Rightarrow> auth_context \<Rightarrow> (nat \<Rightarrow> int) \<Rightarrow> signed_dispatch \<Rightarrow> (nat \<times> string, dispatcher_row) handler" where
  "verify_dispatch h actor clk p =
     hbind (check (map_res_err (\<lambda>m. (422, m)) (check_skew (sd_timestamp p) (clk 0)))) (\<lambda>_.
     hbind (check (check_kind (dq_kind (sd_base p)))) (\<lambda>_.
     hbind (call dispatcher_errors (get_dispatcher (sd_dispatcher_id p))) (\<lambda>d.
     hbind (check (map_res_err (\<lambda>m. (403, m))
       (verify_sig h (d_public_key d) (dispatch_envelope p) (sd_signature p)))) (\<lambda>_.
     hbind (check_loom h actor clk p) (\<lambda>_. hret d)))))"

definition budget_gate :: "hub \<Rightarrow> auth_context \<Rightarrow> (nat \<Rightarrow> int) \<Rightarrow> signed_dispatch \<Rightarrow> (nat \<times> string, unit) handler" where
  "budget_gate h actor clk p =
     hbind (call internal (budget_denial (hub_budget_caps h) (utc_now (clk 4)))) (\<lambda>r.
       case r of
         None \<Rightarrow> hret ()
       | Some reason \<Rightarrow>
           audited_refusal h ''dispatch_denied''
             (jobj [(''reason'', JStr ''budget_exceeded''), (''detail'', JStr reason), (''signed'', JBool True),
                    (''dispatcher_id'', JStr (sd_dispatcher_id p)), (''attribution'', attribution actor)])
             (clk 5) (402, reason))"

definition join_reasons :: "policy_decision \<Rightarrow> string" where
  "join_reasons d = join_with ''; '' (reasons d)"

definition policy_gate :: "hub \<Rightarrow> auth_context \<Rightarrow> (nat \<Rightarrow> int) \<Rightarrow> signed_dispatch \<Rightarrow>
    (nat \<times> string, policy_decision) handler" where
  "policy_gate h actor clk p =
     (let decision = gate_dispatch (hub_gate h) (gate_request p); reason = join_reasons decision in
      if denied decision then
        audited_refusal h ''dispatch_denied''
          (jobj [(''reason'', JStr ''policy_denied''), (''detail'', JStr reason), (''signed'', JBool True),
                 (''dispatcher_id'', JStr (sd_dispatcher_id p)), (''kind'', JStr (dq_kind (sd_base p))),
                 (''attribution'', attribution actor)]) (clk 5)
          (403, ''dispatch denied by policy: '' @ reason)
      else hret decision)"

definition envelope_hash :: "hub \<Rightarrow> jv \<Rightarrow> string" where
  "envelope_hash h envelope =
     hex_encode (hub_crypto h) (sha256 (hub_crypto h) (canonicalize (jnum_text (float_text h)) envelope))"

definition route_held :: "hub \<Rightarrow> auth_context \<Rightarrow> (nat \<Rightarrow> int) \<Rightarrow> signed_dispatch \<Rightarrow> string \<Rightarrow> string \<Rightarrow> int \<Rightarrow>
    (nat \<times> string, string option) handler" where
  "route_held h actor clk p approval reason task =
     (if \<not> forgelink_enabled (forgelink h) then hret None
      else
        (case route_approval (forgelink h) (forgelink_http h)
            (build_approval_request approval (dq_title (sd_base p)) reason (dq_kind (sd_base p))
               (named_branch (sd_base p)) (dq_scope_globs (sd_base p)) ''forgewire-fabric'') of
           Inr i \<Rightarrow>
             hbind (ignoring (audit_append h ''forgelink_routed'' (Some task)
               (jobj [(''approval_id'', JStr approval), (''forgelink_request_id'', JStr i),
                      (''attribution'', attribution actor)]) (clk 6))) (\<lambda>_. hret (Some i))
         | Inl e \<Rightarrow>
             hbind (ignoring (audit_append h ''forgelink_unavailable'' (Some task)
               (jobj [(''approval_id'', JStr approval), (''error'', JStr e),
                      (''fallback'', JStr ''fabric_builtin_pane''), (''attribution'', attribution actor)])
               (clk 6))) (\<lambda>_. hret None)))"

definition hold_dispatch :: "hub \<Rightarrow> auth_context \<Rightarrow> (nat \<Rightarrow> int) \<Rightarrow> string \<Rightarrow> signed_dispatch \<Rightarrow> dispatcher_row \<Rightarrow>
    policy_decision \<Rightarrow> (nat \<times> string, dispatch_reply) handler" where
  "hold_dispatch h actor clk fresh p d decision =
     (let b = sd_base p; now = utc_now (clk 4); reason = join_reasons decision in
      hbind (call internal (create_or_get_pending_approval fresh (envelope_hash h (dispatch_envelope p))
          (jobj [(''reason'', JStr reason), (''kind'', JStr (dq_kind b))]) (dq_title b) (named_branch b)
          (dq_scope_globs b) (Some (sd_dispatcher_id p)) now)) (\<lambda>a.
      hbind (call internal (create_task
          ((dispatch_params (hub_crypto h) b d decision now (Some (fst a)) 1 0)\<lparr>cp_initial_status := Some ''held''\<rparr>)
          now)) (\<lambda>t.
      hbind (ignoring (audit_append h ''dispatch_held'' (Some (t_id t))
          (jobj [(''reason'', JStr reason), (''approval_id'', JStr (fst a)), (''signed'', JBool True),
                 (''dispatcher_id'', JStr (sd_dispatcher_id p)), (''kind'', JStr (dq_kind b)),
                 (''title'', JStr (dq_title b)), (''attribution'', attribution actor)]) (clk 5))) (\<lambda>_.
      hbind (route_held h actor clk p (fst a) reason (t_id t)) (\<lambda>routed.
      hret (Held (t_id t) (fst a) reason routed))))))"

definition dispatch_audit :: "auth_context \<Rightarrow> signed_dispatch \<Rightarrow> task_row \<Rightarrow> jv" where
  "dispatch_audit actor p t =
     (let b = sd_base p in
      jobj ([(''task_id'', jint (t_id t)), (''title'', JStr (cp_title (t_brief t))),
             (''base_commit'', JStr (cp_base_commit (t_brief t))), (''branch'', JStr (cp_branch (t_brief t))),
             (''scope_globs'', jstrs (cp_scope_globs (t_brief t))), (''signed'', JBool True),
             (''dispatcher_id'', JStr (sd_dispatcher_id p)), (''approval_id'', jopt JStr (dq_approval_id b)),
             (''attribution'', attribution actor)]
        @ (if has_signed_command b
           then [(''loom_command'', jopt jstrs (dq_command b)), (''loom_cwd'', jopt JStr (dq_cwd b)),
                 (''loom_env_keys'', jstrs (loom_env_keys (dq_env b)))]
           else [])))"

definition approvals_of :: "dispatch_payload \<Rightarrow> int" where
  "approvals_of b = (if dq_approval_id b \<noteq> None then 1 else 0)"

definition queue_dispatch :: "hub \<Rightarrow> auth_context \<Rightarrow> (nat \<Rightarrow> int) \<Rightarrow> signed_dispatch \<Rightarrow> dispatcher_row \<Rightarrow>
    policy_decision \<Rightarrow> (nat \<times> string, dispatch_reply) handler" where
  "queue_dispatch h actor clk p d decision =
     (let b = sd_base p; now = utc_now (clk 4) in
      hbind (call internal (create_task
          (dispatch_params (hub_crypto h) b d decision now (dq_approval_id b) (approvals_of b) (approvals_of b))
          now)) (\<lambda>t.
      hbind (ignoring (audit_append h ''dispatch'' (Some (t_id t)) (dispatch_audit actor p t) (clk 5))) (\<lambda>_.
      hret (Queued t))))"

definition dispatch_task_signed :: "hub \<Rightarrow> auth_context \<Rightarrow> (nat \<Rightarrow> int) \<Rightarrow> string \<Rightarrow> signed_dispatch \<Rightarrow>
    (nat \<times> string, dispatch_reply) handler" where
  "dispatch_task_signed h actor clk fresh p =
     hbind (verify_dispatch h actor clk p) (\<lambda>d.
     hbind (call nonce_errors
       (consume_dispatcher_nonce (clk 3) (sd_dispatcher_id p) (sd_nonce p) (utc_now (clk 2)))) (\<lambda>_.
     hbind (budget_gate h actor clk p) (\<lambda>_.
     hbind (policy_gate h actor clk p) (\<lambda>decision.
     if needs_approval decision then hold_dispatch h actor clk fresh p d decision
     else queue_dispatch h actor clk p d decision))))"

section \<open>A signed dispatch is accepted once\<close>

lemma recorded_blind: "audit_blind (recorded DispatcherNonces h n u)"
  by (simp add: audit_blind_def recorded_def)

lemma keeps_recorded_same:
  assumes "\<And>d. dispatcher_nonces (snd (f d)) = dispatcher_nonces d"
  shows "keeps (recorded DispatcherNonces h n u) (update_db f)"
  by (rule keeps_update_db) (simp add: recorded_def assms)

lemma keeps_recorded_audit [keeps_intros]:
  "keeps (recorded DispatcherNonces h n u) (audit_append hb kind task payload now)"
  by (rule keeps_audit_append [OF recorded_blind])

lemma keeps_recorded_create_task [keeps_intros]:
  "keeps (recorded DispatcherNonces h n u) (create_task p now)"
  unfolding create_task_def
  by (intro keeps_intros keeps_get_task) (simp add: insert_task_def recorded_def Let_def)

lemma keeps_recorded_approval [keeps_intros]:
  "keeps (recorded DispatcherNonces h n u)
     (create_or_get_pending_approval fresh e dec label branch scopes disp now)"
  unfolding create_or_get_pending_approval_def
  by (intro keeps_intros) (auto simp: insert_approval_def recorded_def split: if_splits)

lemma keeps_budget_denial [keeps_intros]: "keeps P (budget_denial caps now)"
  unfolding budget_denial_def current_budget_def Let_def get_spend_def by (intro keeps_intros)

lemma keeps_verify_dispatch:
  "audit_blind P \<Longrightarrow> keeps P (verify_dispatch h actor clk p)"
  unfolding verify_dispatch_def check_loom_def audited_refusal_def
  by (intro keeps_intros keeps_audit_append)

lemma keeps_recorded_consume_dispatcher:
  assumes "\<not> u < prune_cutoff clock"
  shows "keeps (recorded DispatcherNonces h n u) (consume_dispatcher_nonce clock i nonce now)"
  unfolding consume_dispatcher_nonce_def
  by (intro keeps_intros keeps_recorded_consume assms) (simp add: edit_dispatchers_def recorded_def)

text \<open>What comes after the nonce leaves the nonces alone.\<close>

definition after_nonce :: "hub \<Rightarrow> auth_context \<Rightarrow> (nat \<Rightarrow> int) \<Rightarrow> string \<Rightarrow> signed_dispatch \<Rightarrow> dispatcher_row \<Rightarrow>
    (nat \<times> string, dispatch_reply) handler" where
  "after_nonce h actor clk fresh p d =
     hbind (budget_gate h actor clk p) (\<lambda>_.
     hbind (policy_gate h actor clk p) (\<lambda>decision.
     if needs_approval decision then hold_dispatch h actor clk fresh p d decision
     else queue_dispatch h actor clk p d decision))"

lemma dispatch_task_signed_stages:
  "dispatch_task_signed h actor clk fresh p =
     hbind (verify_dispatch h actor clk p) (\<lambda>d.
     hbind (call nonce_errors
       (consume_dispatcher_nonce (clk 3) (sd_dispatcher_id p) (sd_nonce p) (utc_now (clk 2))))
       (\<lambda>_. after_nonce h actor clk fresh p d))"
  by (simp add: dispatch_task_signed_def after_nonce_def)

lemma keeps_recorded_after_nonce:
  "keeps (recorded DispatcherNonces h n u) (after_nonce hb actor clk fresh p d)"
  unfolding after_nonce_def budget_gate_def policy_gate_def hold_dispatch_def queue_dispatch_def
    route_held_def audited_refusal_def Let_def
  by (intro keeps_intros)

definition dispatch_attempt :: "hub \<times> auth_context \<times> (nat \<Rightarrow> int) \<times> string \<times> signed_dispatch \<Rightarrow>
    string \<times> string \<Rightarrow> world \<Rightarrow> bool \<times> world" where
  "dispatch_attempt c k w =
     (case c of (h, actor, clk, fresh, p) \<Rightarrow>
        case dispatch_task_signed h actor clk fresh
            (p\<lparr>sd_dispatcher_id := fst k, sd_nonce := snd k\<rparr>) w of
          (r, w') \<Rightarrow> (is_ok r, w'))"

lemma keeps_recorded_dispatch:
  assumes "\<not> u < prune_cutoff (clk 3)"
  shows "keeps (recorded DispatcherNonces h n u) (dispatch_task_signed hb actor clk fresh p)"
  unfolding dispatch_task_signed_stages
  by (intro keeps_hbind keeps_verify_dispatch keeps_call keeps_recorded_consume_dispatcher assms
      recorded_blind keeps_recorded_after_nonce)

lemma consume_dispatcher_denied:
  assumes "recorded DispatcherNonces i n u (db w)" "\<not> u < prune_cutoff clock"
    and "env_keeps (recorded DispatcherNonces i n u) w"
    and "consume_dispatcher_nonce clock i n now w = (r, w')"
  shows "\<not> is_ok r"
proof -
  obtain x w1 where q: "query (find_dispatcher i) w = (x, w1)" by fastforce
  note w1 = keepsD [where P = "recorded DispatcherNonces i n u", OF keeps_query assms(1,3) q]
  show ?thesis
  proof (cases "\<exists>d. x = Inr (Some d)")
    case True
    then obtain d where d: "x = Inr (Some d)" by blast
    obtain s w2 where s: "consume_agent_nonce_strict DispatcherNonces clock i n now w1 = (s, w2)" by fastforce
    from recorded_nonce_denied [OF _ assms(2) _ s] w1 obtain m where "s = Inl (PermissionDenied m)" by blast
    then show ?thesis
      using assms(4) q d s by (auto simp: consume_dispatcher_nonce_def bind_op_def)
  next
    case False
    then show ?thesis
      using assms(4) q by (cases x) (auto simp: consume_dispatcher_nonce_def bind_op_def fail_def)
  qed
qed

lemma consume_dispatcher_recorded:
  assumes "consume_dispatcher_nonce clock i n now w = (Inr x, w')"
    and env: "env_keeps (recorded DispatcherNonces i n now) w"
  shows "recorded DispatcherNonces i n now (db w')"
proof -
  let ?touch = "update_db (edit_dispatchers (\<lambda>x. d_dispatcher_id x = i)
    (\<lambda>x. x\<lparr>d_last_nonce := Some n, d_last_seen := now\<rparr>))"
  from assms(1) obtain w1 w2 y z where
    q: "query (find_dispatcher i) w = (Inr y, w1)"
    and c: "consume_agent_nonce_strict DispatcherNonces clock i n now w1 = (Inr (), w2)"
    and e: "?touch w2 = (Inr z, w')"
    unfolding consume_dispatcher_nonce_def
    by (elim bind_op_InrE) (auto split: if_splits elim!: bind_op_InrE)
  have w1: "set (script w1) \<subseteq> set (script w)"
    using keeps_script [OF keeps_query [of "\<lambda>_. True"] q] .
  have w2: "set (script w2) \<subseteq> set (script w1)" by (rule script_consume [OF c])
  have "env_keeps (recorded DispatcherNonces i n now) w2"
    using env_keeps_subset [OF env] w1 w2 by blast
  then have env2: "env_keeps (recorded DispatcherNonces i n now) w2" .
  have k: "keeps (recorded DispatcherNonces i n now) ?touch"
    by (intro keeps_intros) (simp add: edit_dispatchers_def recorded_def)
  show ?thesis
    using keepsD [where P = "recorded DispatcherNonces i n now", OF k accepted_nonce_recorded [OF c] env2 e]
    by simp
qed

text \<open>A stamp that the clock \<open>T\<close> would prune counts as used: it protects nothing.\<close>

definition nonce_used :: "int \<Rightarrow> world \<Rightarrow> string \<times> string \<Rightarrow> string \<Rightarrow> bool" where
  "nonce_used T w k u \<longleftrightarrow> u < prune_cutoff T \<or> recorded DispatcherNonces (fst k) (snd k) u (db w)"

definition call_clock :: "hub \<times> auth_context \<times> (nat \<Rightarrow> int) \<times> string \<times> signed_dispatch \<Rightarrow> nat \<Rightarrow> int" where
  "call_clock c = (case c of (h, actor, clk, fresh, p) \<Rightarrow> clk)"

lemma dispatch_attempt_run:
  assumes "dispatch_attempt c k w = (b, w')"
  obtains h actor clk fresh p r where "c = (h, actor, clk, fresh, p)" "b = is_ok r"
    "dispatch_task_signed h actor clk fresh (p\<lparr>sd_dispatcher_id := fst k, sd_nonce := snd k\<rparr>) w = (r, w')"
  using assms that by (cases c) (auto simp: dispatch_attempt_def split: prod.splits)

lemma dispatch_refuses_recorded:
  assumes rec: "recorded DispatcherNonces (sd_dispatcher_id p) (sd_nonce p) u (db w)"
    and c: "\<not> u < prune_cutoff (clk 3)"
    and env: "env_keeps (recorded DispatcherNonces (sd_dispatcher_id p) (sd_nonce p) u) w"
    and run: "dispatch_task_signed h actor clk fresh p w = (r, w')"
  shows "\<not> is_ok r"
proof -
  let ?P = "recorded DispatcherNonces (sd_dispatcher_id p) (sd_nonce p) u"
  obtain v w1 where v: "verify_dispatch h actor clk p w = (v, w1)" by fastforce
  note w1 = keepsD [where P = ?P, OF keeps_verify_dispatch [OF recorded_blind] rec env v]
  obtain s w2 where s: "consume_dispatcher_nonce (clk 3) (sd_dispatcher_id p) (sd_nonce p) (utc_now (clk 2)) w1
      = (s, w2)" by fastforce
  have "\<not> is_ok s" using consume_dispatcher_denied [OF _ c _ s] w1 by blast
  then show ?thesis
    using run v s by (cases v; cases s) (auto simp: dispatch_task_signed_stages hbind_def call_def)
qed

lemma dispatch_records:
  assumes run: "dispatch_task_signed h actor clk fresh p w = (Inr r, w')"
    and env: "env_keeps (recorded DispatcherNonces (sd_dispatcher_id p) (sd_nonce p) (utc_now (clk 2))) w"
  shows "recorded DispatcherNonces (sd_dispatcher_id p) (sd_nonce p) (utc_now (clk 2)) (db w')"
proof -
  let ?P = "recorded DispatcherNonces (sd_dispatcher_id p) (sd_nonce p) (utc_now (clk 2))"
  from run obtain d w1 w2 x where
    v: "verify_dispatch h actor clk p w = (Inr d, w1)"
    and c: "consume_dispatcher_nonce (clk 3) (sd_dispatcher_id p) (sd_nonce p) (utc_now (clk 2)) w1 = (Inr x, w2)"
    and a: "after_nonce h actor clk fresh p d w2 = (Inr r, w')"
    unfolding dispatch_task_signed_stages by (elim hbind_InrE call_InrE)
  have "set (script w1) \<subseteq> set (script w)"
    using keeps_script [OF keeps_verify_dispatch [of "\<lambda>_. True"] v] by (simp add: audit_blind_def)
  then have e1: "env_keeps ?P w1" by (rule env_keeps_subset [OF env])
  have "set (script w2) \<subseteq> set (script w1)"
    using keeps_script [OF keeps_recorded_consume_dispatcher [of "prune_cutoff (clk 3)"] c] by simp
  then have e2: "env_keeps ?P w2" by (rule env_keeps_subset [OF e1])
  show ?thesis
    using keepsD [where P = ?P, OF keeps_recorded_after_nonce consume_dispatcher_recorded [OF c e1] e2 a] by simp
qed

lemma script_dispatch:
  assumes "dispatch_task_signed h actor clk fresh p w = (r, w')"
  shows "set (script w') \<subseteq> set (script w)"
  using keeps_script [OF keeps_recorded_dispatch [of "prune_cutoff (clk 3)"] assms] by simp

interpretation dispatched: single_use dispatch_attempt "spared DispatcherNonces T" "nonce_used T"
    "\<lambda>c. utc_now (call_clock c 2)" "\<lambda>c. protects_until T (call_clock c 3)"
  for T
proof unfold_locales
  fix w t k b w'
  assume "spared DispatcherNonces T w" and a: "dispatch_attempt t k w = (b, w')"
  then show "spared DispatcherNonces T w'"
    by (elim dispatch_attempt_run) (rule spared_subset, assumption, erule script_dispatch)
next
  fix w t k b w' u
  assume a: "spared DispatcherNonces T w" "nonce_used T w k u" "protects_until T (call_clock t 3) u"
    and "dispatch_attempt t k w = (b, w')"
  then obtain h actor clk fresh p r where r: "t = (h, actor, clk, fresh, p)" "b = is_ok r"
    "dispatch_task_signed h actor clk fresh (p\<lparr>sd_dispatcher_id := fst k, sd_nonce := snd k\<rparr>) w = (r, w')"
    by (elim dispatch_attempt_run)
  have "recorded DispatcherNonces (fst k) (snd k) u (db w)" "\<not> u < prune_cutoff (clk 3)"
    "env_keeps (recorded DispatcherNonces (fst k) (snd k) u) w"
    using a by (simp_all add: nonce_used_def protects_until_def spared_def call_clock_def r(1))
  then show "\<not> b"
    using dispatch_refuses_recorded [OF _ _ _ r(3), of u] by (simp add: r(2))
next
  fix w t k w'
  assume ok: "spared DispatcherNonces T w" and a: "dispatch_attempt t k w = (True, w')"
  show "nonce_used T w' k (utc_now (call_clock t 2))"
  proof (cases "utc_now (call_clock t 2) < prune_cutoff T")
    case False
    from a obtain h actor clk fresh p r where r: "t = (h, actor, clk, fresh, p)"
      "dispatch_task_signed h actor clk fresh (p\<lparr>sd_dispatcher_id := fst k, sd_nonce := snd k\<rparr>) w = (Inr r, w')"
      by (elim dispatch_attempt_run) (auto elim: is_ok.elims)
    have "env_keeps (recorded DispatcherNonces (fst k) (snd k) (utc_now (clk 2))) w"
      using ok False by (simp add: spared_def r(1) call_clock_def)
    then show ?thesis
      using dispatch_records [OF r(2)] by (simp add: nonce_used_def r(1) call_clock_def)
  qed (simp add: nonce_used_def)
next
  fix w t j k b w' u
  assume ok: "spared DispatcherNonces T w" and used: "nonce_used T w k u"
    and p: "protects_until T (call_clock t 3) u" and a: "dispatch_attempt t j w = (b, w')"
  have rec: "recorded DispatcherNonces (fst k) (snd k) u (db w)"
    and env: "env_keeps (recorded DispatcherNonces (fst k) (snd k) u) w"
    using ok used p by (simp_all add: nonce_used_def protects_until_def spared_def)
  from a obtain h actor clk fresh q r where r: "t = (h, actor, clk, fresh, q)"
    "dispatch_task_signed h actor clk fresh (q\<lparr>sd_dispatcher_id := fst j, sd_nonce := snd j\<rparr>) w = (r, w')"
    by (elim dispatch_attempt_run)
  have c: "\<not> u < prune_cutoff (clk 3)" using p by (simp add: protects_until_def r(1) call_clock_def)
  from keepsD [where P = "recorded DispatcherNonces (fst k) (snd k) u",
      OF keeps_recorded_dispatch [where clk = clk, OF c] rec env r(2)]
  show "nonce_used T w' k u" by (simp add: nonce_used_def)
qed

text \<open>
  C3. A signed dispatch is accepted at most once: after a call with some dispatcher and nonce was
  answered with a queued or a held task, at clock reading \<open>t\<close>, every further call with that dispatcher
  and nonce is refused as long as the pruning clocks are no later than \<open>T\<close>, at most 300 seconds after
  \<open>t\<close>, whatever else the calls carry, whichever requests to the store fail, and whatever other clients
  do that does not drop nonces the clock \<open>T\<close> would keep.
\<close>

theorem dispatch_accepted_once:
  assumes "spared DispatcherNonces T w" "dispatch_attempt c k w = (True, w1)"
    and "attempts dispatch_attempt xs w1 = (bs, w2)"
    and "\<forall>(x, j) \<in> set xs. call_clock x 3 \<le> T"
    and "0 \<le> call_clock c 2" "call_clock c 2 \<le> T" "T \<le> call_clock c 2 + 300" "T < 253402300800"
  shows "\<forall>i < length xs. snd (xs ! i) = k \<longrightarrow> \<not> bs ! i"
proof (rule dispatched.accepted_once [OF assms(1-3)])
  let ?t = "call_clock c 2"
  have "utc_now ?t = store_epoch_secs_to_iso ?t" using assms(5) by (rule utc_now_store)
  then show "\<forall>(x, j) \<in> set xs. protects_until T (call_clock x 3) (utc_now ?t)"
    using assms(4-8) cutoff_spares [of ?t] by (fastforce simp: protects_until_def)
qed

section \<open>The outcome of a dispatch\<close>

text \<open>What a dispatch may change besides the audit log and the nonces.\<close>

definition queue_part :: "db \<Rightarrow> task_row list \<times> int \<times> approval_row list \<times> budget_row list" where
  "queue_part d = (tasks d, last_task_id d, approvals d, budget_state d)"

lemma same_but_audit_queue: "same_but_audit d d' \<Longrightarrow> queue_part d' = queue_part d"
  unfolding same_but_audit_def queue_part_def
  by (drule arg_cong [where f = "\<lambda>x. (tasks x, last_task_id x, approvals x, budget_state x)"]) simp

definition loom_ok :: "hub \<Rightarrow> dispatch_payload \<Rightarrow> bool" where
  "loom_ok h b \<longleftrightarrow>
     (dq_kind b = ''command'' \<longrightarrow>
        has_signed_command b \<and> Some (loom_env_digest h (dq_env b)) = dq_loom_env_digest b)"

definition signed_ok :: "hub \<Rightarrow> int \<Rightarrow> dispatcher_row \<Rightarrow> signed_dispatch \<Rightarrow> bool" where
  "signed_ok h now x p \<longleftrightarrow>
     check_skew (sd_timestamp p) now = Inr ()
     \<and> (dq_kind (sd_base p) = ''agent'' \<or> dq_kind (sd_base p) = ''command'')
     \<and> verify_sig h (d_public_key x) (dispatch_envelope p) (sd_signature p) = Inr ()
     \<and> loom_ok h (sd_base p)"

lemma refusal_calm:
  obtains d' where "audited_refusal h kind event now e (calm d) = (Inl e, calm d')" "same_but_audit d d'"
proof -
  obtain d' where "ignoring (audit_append h kind None event now) (calm d) = (Inr () :: (nat \<times> string, unit) res, calm d')"
    "same_but_audit d d'" by (rule calm_ignoring_audit)
  then show thesis using that by (simp add: audited_refusal_def hbind_def hfail_def)
qed

lemma get_dispatcher_calm:
  "get_dispatcher i (calm d) =
     (case find_dispatcher i d of None \<Rightarrow> (Inl (NotFound (''dispatcher '' @ i)), calm d)
      | Some x \<Rightarrow> (Inr x, calm d))"
  by (simp add: get_dispatcher_def calm_simps split: option.splits)

lemma res_unit_cases: "(r :: ('e, unit) res) = Inr () \<or> (\<exists>e. r = Inl e)"
  by (cases r) auto

lemma check_kind_Inr_iff: "check_kind k = Inr () \<longleftrightarrow> k = ''agent'' \<or> k = ''command''"
  by (auto simp: check_kind_def)

lemma check_loom_calm:
  obtains r d' where "check_loom h actor clk p (calm d) = (r, calm d')" "same_but_audit d d'"
    "is_ok r \<longleftrightarrow> loom_ok h (sd_base p)"
proof -
  let ?b = "sd_base p"
  have hs: "has_signed_command ?b \<Longrightarrow> dq_kind ?b = ''command''" by (simp add: has_signed_command_def)
  consider (unsigned) "dq_kind ?b = ''command''" "\<not> has_signed_command ?b"
    | (digest) "has_signed_command ?b" "Some (loom_env_digest h (dq_env ?b)) \<noteq> dq_loom_env_digest ?b"
    | (fine) "loom_ok h ?b" using hs unfolding loom_ok_def by blast
  then show thesis
  proof cases
    case unsigned
    obtain e d' where "check_loom h actor clk p (calm d) = (Inl e, calm d')" "same_but_audit d d'"
      by (rule refusal_calm) (use unsigned in \<open>simp add: check_loom_def\<close>)
    then show thesis using that unsigned by (simp add: loom_ok_def)
  next
    case digest
    obtain e d' where "check_loom h actor clk p (calm d) = (Inl e, calm d')" "same_but_audit d d'"
      by (rule refusal_calm) (use digest in \<open>simp add: check_loom_def\<close>)
    then show thesis using that digest hs by (simp add: loom_ok_def)
  next
    case fine
    then have "\<not> (dq_kind ?b = ''command'' \<and> \<not> has_signed_command ?b)"
      "\<not> (has_signed_command ?b \<and> Some (loom_env_digest h (dq_env ?b)) \<noteq> dq_loom_env_digest ?b)"
      using hs by (auto simp: loom_ok_def)
    then have "check_loom h actor clk p (calm d) = (Inr (), calm d)"
      unfolding check_loom_def by (simp only: if_False handler_ends)
    then show thesis using that fine by simp
  qed
qed

lemma verify_dispatch_calm:
  obtains r d' where "verify_dispatch h actor clk p (calm d) = (r, calm d')" "same_but_audit d d'"
    "\<And>x. r = Inr x \<Longrightarrow> find_dispatcher (sd_dispatcher_id p) d = Some x \<and> signed_ok h (clk 0) x p"
    "\<And>x. find_dispatcher (sd_dispatcher_id p) d = Some x \<Longrightarrow> signed_ok h (clk 0) x p \<Longrightarrow> r = Inr x"
proof -
  let ?b = "sd_base p"
  let ?run = "verify_dispatch h actor clk p (calm d)"
  note goal_done = that
  note run = verify_dispatch_def hbind_def check_def call_def get_dispatcher_calm
  have early: thesis if "?run = (Inl e, calm d)"
      "\<And>x. find_dispatcher (sd_dispatcher_id p) d = Some x \<Longrightarrow> \<not> signed_ok h (clk 0) x p" for e
    using goal_done [OF that(1)] that(2) by auto
  consider e where "check_skew (sd_timestamp p) (clk 0) = Inl e"
    | e where "check_skew (sd_timestamp p) (clk 0) = Inr ()" "check_kind (dq_kind ?b) = Inl e"
    | "check_skew (sd_timestamp p) (clk 0) = Inr ()" "check_kind (dq_kind ?b) = Inr ()"
      "find_dispatcher (sd_dispatcher_id p) d = None"
    | x e where "check_skew (sd_timestamp p) (clk 0) = Inr ()" "check_kind (dq_kind ?b) = Inr ()"
      "find_dispatcher (sd_dispatcher_id p) d = Some x"
      "verify_sig h (d_public_key x) (dispatch_envelope p) (sd_signature p) = Inl e"
    | x where "check_skew (sd_timestamp p) (clk 0) = Inr ()" "check_kind (dq_kind ?b) = Inr ()"
      "find_dispatcher (sd_dispatcher_id p) d = Some x"
      "verify_sig h (d_public_key x) (dispatch_envelope p) (sd_signature p) = Inr ()"
    using res_unit_cases by (metis option.exhaust)
  then show thesis
  proof cases
    case 1
    then show thesis by (intro early) (auto simp: run signed_ok_def)
  next
    case 2
    then show thesis by (intro early) (auto simp: run signed_ok_def check_kind_def)
  next
    case 3
    then show thesis by (intro early) (auto simp: run)
  next
    case 4
    then show thesis by (intro early) (auto simp: run signed_ok_def)
  next
    case 5
    obtain l d' where l: "check_loom h actor clk p (calm d) = (l, calm d')" "same_but_audit d d'"
        "is_ok l \<longleftrightarrow> loom_ok h ?b" by (rule check_loom_calm [of h actor clk p d])
    have ok: "signed_ok h (clk 0) x p \<longleftrightarrow> is_ok l"
      using 5 l(3) by (simp add: signed_ok_def check_kind_Inr_iff)
    have "?run = (case l of Inl e \<Rightarrow> Inl e | Inr _ \<Rightarrow> Inr x, calm d')"
      using 5 l(1) by (cases l) (simp_all add: run hret_def)
    from goal_done [OF this l(2)] show thesis using 5(3) ok by (cases l) auto
  qed
qed

definition nonce_free :: "int \<Rightarrow> string \<Rightarrow> string \<Rightarrow> db \<Rightarrow> bool" where
  "nonce_free clock i n d \<longleftrightarrow>
     \<not> list_ex (\<lambda>x. n_holder x = i \<and> n_nonce x = n \<and> \<not> n_used_at x < prune_cutoff clock) (dispatcher_nonces d)"

lemma consume_dispatcher_calm:
  obtains r d' where "consume_dispatcher_nonce clock i n now (calm d) = (r, calm d')"
    "queue_part d' = queue_part d"
    "is_ok r \<longleftrightarrow> find_dispatcher i d \<noteq> None \<and> nonce_free clock i n d"
proof -
  let ?d1 = "snd (prune_stmt DispatcherNonces (prune_cutoff clock) d)"
  have free: "nonce_free clock i n d \<longleftrightarrow>
      \<not> list_ex (\<lambda>x. n_holder x = i \<and> n_nonce x = n) (nonces DispatcherNonces ?d1)"
    by (auto simp: nonce_free_def prune_stmt_def delete_where_def list_ex_iff)
  have q1: "queue_part ?d1 = queue_part d" by (simp add: prune_stmt_def queue_part_def)
  show thesis
  proof (cases "find_dispatcher i d")
    case None
    then have "consume_dispatcher_nonce clock i n now (calm d) = (Inl (NotFound (''dispatcher '' @ i)), calm d)"
      by (simp add: consume_dispatcher_nonce_def calm_simps)
    then show thesis using that None by simp
  next
    case (Some x)
    show thesis
    proof (cases "nonce_free clock i n d")
      case True
      let ?row = "\<lparr>n_holder = i, n_nonce = n, n_used_at = now\<rparr>"
      let ?d2 = "with_nonces DispatcherNonces (nonces DispatcherNonces ?d1 @ [?row]) ?d1"
      let ?d3 = "snd (edit_dispatchers (\<lambda>x. d_dispatcher_id x = i)
        (\<lambda>x. x\<lparr>d_last_nonce := Some n, d_last_seen := now\<rparr>) ?d2)"
      have "insert_nonce DispatcherNonces i n now ?d1 = (Inr 1, ?d2)"
        using True unfolding free by (simp add: insert_nonce_def)
      then have "consume_dispatcher_nonce clock i n now (calm d) = (Inr (), calm ?d3)"
        using Some by (simp add: consume_dispatcher_nonce_def calm_simps consume_calm Let_def)
      moreover have "queue_part ?d3 = queue_part d" using q1 by (simp add: edit_dispatchers_def queue_part_def)
      ultimately show thesis using that Some True by auto
    next
      case False
      then obtain m where "insert_nonce DispatcherNonces i n now ?d1 = (Inl m, ?d1)"
        unfolding free by (simp add: insert_nonce_def)
      then obtain e where "consume_dispatcher_nonce clock i n now (calm d) = (Inl e, calm ?d1)"
        using Some by (simp add: consume_dispatcher_nonce_def bind_op_def calm_query consume_calm Let_def)
      then show thesis using that q1 False by auto
    qed
  qed
qed

text \<open>The cost gate reads the accumulators only.\<close>

definition budget_verdict :: "budget_policy \<Rightarrow> string \<Rightarrow> db \<Rightarrow> string option" where
  "budget_verdict caps now d =
     (if \<not> has_cost_caps caps then None
      else let v = check_cost caps (opt_default (Fin 0) (spend_of ''daily'' (day_key now) d))
                     (opt_default (Fin 0) (spend_of ''weekly'' (iso_week_key now) d)) in
        if denied v then Some (case reasons v of [] \<Rightarrow> ''budget exceeded'' | r # _ \<Rightarrow> r) else None)"

lemma budget_denial_calm: "budget_denial caps now (calm d) = (Inr (budget_verdict caps now d), calm d)"
  by (simp add: budget_denial_def budget_verdict_def current_budget_def get_spend_def calm_simps Let_def)

lemma budget_verdict_queue: "queue_part d' = queue_part d \<Longrightarrow> budget_verdict caps now d' = budget_verdict caps now d"
  by (simp add: queue_part_def budget_verdict_def spend_of_def)

lemma budget_gate_calm:
  obtains r d' where "budget_gate h actor clk p (calm d) = (r, calm d')" "same_but_audit d d'"
    "is_ok r \<longleftrightarrow> budget_verdict (hub_budget_caps h) (utc_now (clk 4)) d = None"
proof (cases "budget_verdict (hub_budget_caps h) (utc_now (clk 4)) d")
  case None
  then have "budget_gate h actor clk p (calm d) = (Inr (), calm d)"
    by (simp add: budget_gate_def hbind_def call_def budget_denial_calm hret_def)
  then show thesis using that None by simp
next
  case (Some m)
  obtain e d' where "budget_gate h actor clk p (calm d) = (Inl e, calm d')" "same_but_audit d d'"
    by (rule refusal_calm) (use Some in \<open>simp add: budget_gate_def hbind_def call_def budget_denial_calm\<close>)
  then show thesis using that Some by simp
qed

lemma policy_gate_calm:
  obtains d' where "policy_gate h actor clk p (calm d) =
      (if denied (gate_dispatch (hub_gate h) (gate_request p))
       then Inl (403, ''dispatch denied by policy: '' @ join_reasons (gate_dispatch (hub_gate h) (gate_request p)))
       else Inr (gate_dispatch (hub_gate h) (gate_request p)), calm d')" "same_but_audit d d'"
proof (cases "denied (gate_dispatch (hub_gate h) (gate_request p))")
  case True
  obtain d' where "policy_gate h actor clk p (calm d) =
      (Inl (403, ''dispatch denied by policy: '' @ join_reasons (gate_dispatch (hub_gate h) (gate_request p))), calm d')"
      "same_but_audit d d'"
    by (rule refusal_calm) (use True in \<open>simp add: policy_gate_def Let_def\<close>)
  then show thesis using that True by simp
next
  case False
  then show thesis using that [of d] by (simp add: policy_gate_def Let_def hret_def)
qed

lemma create_task_calm:
  assumes "\<forall>t \<in> set (tasks d). t_id t \<le> last_task_id d"
  shows "create_task p now (calm d) =
    (Inr (new_task p now (last_task_id d + 1)), calm (snd (insert_task p now d)))"
proof -
  let ?i = "last_task_id d + 1"
  have "first_row (\<lambda>t. t_id t = ?i) (tasks d) = None" using assms by (force simp: first_row_None_iff)
  then have "find_task ?i (snd (insert_task p now d)) = Some (new_task p now ?i)"
    by (simp add: find_task_def insert_task_def first_row_snoc Let_def new_task_def)
  then show ?thesis
    by (simp add: create_task_def calm_simps get_task_calm) (simp add: insert_task_def Let_def)
qed

text \<open>
  What a dispatch must satisfy to become a task, over the database it finds.
\<close>

definition admissible :: "hub \<Rightarrow> (nat \<Rightarrow> int) \<Rightarrow> signed_dispatch \<Rightarrow> db \<Rightarrow> dispatcher_row \<Rightarrow> bool" where
  "admissible h clk p d x \<longleftrightarrow>
     find_dispatcher (sd_dispatcher_id p) d = Some x \<and> signed_ok h (clk 0) x p
     \<and> nonce_free (clk 3) (sd_dispatcher_id p) (sd_nonce p) d
     \<and> budget_verdict (hub_budget_caps h) (utc_now (clk 4)) d = None
     \<and> \<not> denied (gate_dispatch (hub_gate h) (gate_request p))"

lemma approval_calm:
  assumes "\<forall>a \<in> set (approvals d). ap_approval_id a \<noteq> fresh"
  obtains i new d' where
    "create_or_get_pending_approval fresh e dec label branch scopes disp now (calm d) = (Inr (i, new), calm d')"
    "tasks d' = tasks d" "last_task_id d' = last_task_id d"
    "\<exists>a \<in> set (approvals d'). ap_approval_id a = i \<and> ap_envelope_hash a = e \<and> ap_status a = ''pending''"
proof (cases "first_row (\<lambda>a. ap_envelope_hash a = e \<and> ap_status a = ''pending'') (approvals d)")
  case None
  have "\<not> list_ex (\<lambda>b. ap_approval_id b = fresh) (approvals d)" using assms by (simp add: list_ex_iff)
  then have "create_or_get_pending_approval fresh e dec label branch scopes disp now (calm d) =
      (Inr (fresh, True), calm (d\<lparr>approvals := approvals d @ [\<lparr>ap_approval_id = fresh, ap_envelope_hash = e,
         ap_status = ''pending'', ap_decision = dec, ap_task_label = Some label, ap_branch = branch,
         ap_scope_globs = scopes, ap_dispatcher_id = disp, ap_approver = None, ap_reason = None,
         ap_created_at = now, ap_resolved_at = None\<rparr>]\<rparr>))"
    using None by (simp add: create_or_get_pending_approval_def calm_simps insert_approval_def)
  then show thesis by (rule that) simp_all
next
  case (Some a)
  then show thesis
    using first_row_SomeD [OF Some]
    by (intro that [of "ap_approval_id a" False d]) (auto simp: create_or_get_pending_approval_def calm_simps)
qed

lemma route_held_calm:
  obtains routed d' where "route_held h actor clk p a reason i (calm d) = (Inr routed, calm d')"
    "same_but_audit d d'"
proof -
  have k: "keeps (same_but_audit d) (route_held h actor clk p a reason i)"
    unfolding route_held_def
    by (intro keeps_intros keeps_audit_append same_but_audit_blind)
  obtain r d' where r: "route_held h actor clk p a reason i (calm d) = (r, calm d')" "same_but_audit d d'"
    by (rule calm_keeps [OF k same_but_audit_refl])
  have "is_ok r"
    using r(1) by (auto simp: route_held_def hbind_def ignoring_def hret_def split: if_splits sum.splits prod.splits)
  then show thesis using that r by (cases r) auto
qed

definition held_task :: "hub \<Rightarrow> (nat \<Rightarrow> int) \<Rightarrow> signed_dispatch \<Rightarrow> dispatcher_row \<Rightarrow> string \<Rightarrow> int \<Rightarrow> task_row" where
  "held_task h clk p x a i =
     new_task ((dispatch_params (hub_crypto h) (sd_base p) x (gate_dispatch (hub_gate h) (gate_request p))
         (utc_now (clk 4)) (Some a) 1 0)\<lparr>cp_initial_status := Some ''held''\<rparr>) (utc_now (clk 4)) i"

definition queued_task :: "hub \<Rightarrow> (nat \<Rightarrow> int) \<Rightarrow> signed_dispatch \<Rightarrow> dispatcher_row \<Rightarrow> int \<Rightarrow> task_row" where
  "queued_task h clk p x i =
     new_task (dispatch_params (hub_crypto h) (sd_base p) x (gate_dispatch (hub_gate h) (gate_request p))
         (utc_now (clk 4)) (dq_approval_id (sd_base p)) (approvals_of (sd_base p)) (approvals_of (sd_base p)))
       (utc_now (clk 4)) i"

lemma queue_dispatch_calm:
  assumes "\<forall>t \<in> set (tasks d). t_id t \<le> last_task_id d"
  obtains d' where "queue_dispatch h actor clk p x (gate_dispatch (hub_gate h) (gate_request p)) (calm d)
      = (Inr (Queued (queued_task h clk p x (last_task_id d + 1))), calm d')"
    "tasks d' = tasks d @ [queued_task h clk p x (last_task_id d + 1)]" "approvals d' = approvals d"
proof -
  let ?t = "queued_task h clk p x (last_task_id d + 1)"
  let ?q = "dispatch_params (hub_crypto h) (sd_base p) x (gate_dispatch (hub_gate h) (gate_request p))
      (utc_now (clk 4)) (dq_approval_id (sd_base p)) (approvals_of (sd_base p)) (approvals_of (sd_base p))"
  let ?d1 = "snd (insert_task ?q (utc_now (clk 4)) d)"
  obtain d' where a: "ignoring (audit_append h ''dispatch'' (Some (t_id ?t)) (dispatch_audit actor p ?t) (clk 5))
      (calm ?d1) = (Inr () :: (nat \<times> string, unit) res, calm d')" "same_but_audit ?d1 d'"
    by (rule calm_ignoring_audit)
  have "queue_dispatch h actor clk p x (gate_dispatch (hub_gate h) (gate_request p)) (calm d) = (Inr (Queued ?t), calm d')"
    using a(1) by (simp add: queue_dispatch_def Let_def hbind_def call_def create_task_calm [OF assms]
        queued_task_def hret_def)
  moreover have "tasks d' = tasks d @ [?t]" "approvals d' = approvals d"
    using same_but_auditD [OF a(2)] by (simp_all add: insert_task_def Let_def queued_task_def)
  ultimately show thesis using that by blast
qed

lemma hold_dispatch_calm:
  assumes ids: "\<forall>t \<in> set (tasks d). t_id t \<le> last_task_id d"
    and fresh: "\<forall>a \<in> set (approvals d). ap_approval_id a \<noteq> fresh"
  obtains a routed d' where "hold_dispatch h actor clk fresh p x (gate_dispatch (hub_gate h) (gate_request p)) (calm d)
      = (Inr (Held (last_task_id d + 1) a (join_reasons (gate_dispatch (hub_gate h) (gate_request p))) routed), calm d')"
    "tasks d' = tasks d @ [held_task h clk p x a (last_task_id d + 1)]"
    "\<exists>row \<in> set (approvals d'). ap_approval_id row = a \<and> ap_status row = ''pending''
       \<and> ap_envelope_hash row = envelope_hash h (dispatch_envelope p)"
proof -
  let ?g = "gate_dispatch (hub_gate h) (gate_request p)"
  let ?now = "utc_now (clk 4)"
  obtain a new d1 where a: "create_or_get_pending_approval fresh (envelope_hash h (dispatch_envelope p))
      (jobj [(''reason'', JStr (join_reasons ?g)), (''kind'', JStr (dq_kind (sd_base p)))]) (dq_title (sd_base p))
      (named_branch (sd_base p)) (dq_scope_globs (sd_base p)) (Some (sd_dispatcher_id p)) ?now (calm d)
      = (Inr (a, new), calm d1)"
    and d1: "tasks d1 = tasks d" "last_task_id d1 = last_task_id d"
    and row: "\<exists>r \<in> set (approvals d1). ap_approval_id r = a \<and> ap_envelope_hash r = envelope_hash h (dispatch_envelope p)
        \<and> ap_status r = ''pending''"
    by (rule approval_calm [OF fresh])
  let ?q = "(dispatch_params (hub_crypto h) (sd_base p) x ?g ?now (Some a) 1 0)\<lparr>cp_initial_status := Some ''held''\<rparr>"
  let ?d2 = "snd (insert_task ?q ?now d1)"
  let ?i = "last_task_id d + 1"
  have ids1: "\<forall>t \<in> set (tasks d1). t_id t \<le> last_task_id d1" using ids d1 by simp
  obtain d3 where e: "ignoring (audit_append h ''dispatch_held'' (Some ?i)
      (jobj [(''reason'', JStr (join_reasons ?g)), (''approval_id'', JStr a), (''signed'', JBool True),
             (''dispatcher_id'', JStr (sd_dispatcher_id p)), (''kind'', JStr (dq_kind (sd_base p))),
             (''title'', JStr (dq_title (sd_base p))), (''attribution'', attribution actor)]) (clk 5)) (calm ?d2)
      = (Inr () :: (nat \<times> string, unit) res, calm d3)" "same_but_audit ?d2 d3"
    by (rule calm_ignoring_audit)
  obtain routed d4 where f: "route_held h actor clk p a (join_reasons ?g) ?i (calm d3) = (Inr routed, calm d4)"
      "same_but_audit d3 d4" by (rule route_held_calm)
  note s = same_but_auditD [OF same_but_audit_trans [OF e(2) f(2)]]
  have i: "t_id (new_task ?q ?now (last_task_id d1 + 1)) = ?i" using d1 by (simp add: new_task_def)
  have "hold_dispatch h actor clk fresh p x ?g (calm d) = (Inr (Held ?i a (join_reasons ?g) routed), calm d4)"
    using a e(1) f(1) by (simp add: hold_dispatch_def Let_def hbind_def call_def create_task_calm [OF ids1] i hret_def)
  moreover have "tasks d4 = tasks d @ [held_task h clk p x a ?i]"
    using s d1 by (simp add: insert_task_def Let_def held_task_def)
  moreover have "approvals d4 = approvals d1" using s by (simp add: insert_task_def Let_def)
  ultimately show thesis using that row by metis
qed

text \<open>The checks leave the queue as it is; what remains after them is to hold or to queue the task.\<close>

lemma dispatch_checks_calm:
  obtains d' where "queue_part d' = queue_part d"
    "\<And>x. admissible h clk p d x \<Longrightarrow> dispatch_task_signed h actor clk fresh p (calm d) =
       (if needs_approval (gate_dispatch (hub_gate h) (gate_request p))
        then hold_dispatch h actor clk fresh p x (gate_dispatch (hub_gate h) (gate_request p))
        else queue_dispatch h actor clk p x (gate_dispatch (hub_gate h) (gate_request p))) (calm d')"
    "\<nexists>x. admissible h clk p d x \<Longrightarrow> \<exists>e. dispatch_task_signed h actor clk fresh p (calm d) = (Inl e, calm d')"
proof -
  let ?g = "gate_dispatch (hub_gate h) (gate_request p)"
  obtain v d1 where v: "verify_dispatch h actor clk p (calm d) = (v, calm d1)" "same_but_audit d d1"
    and v1: "\<And>x. v = Inr x \<Longrightarrow> find_dispatcher (sd_dispatcher_id p) d = Some x \<and> signed_ok h (clk 0) x p"
    and v2: "\<And>x. find_dispatcher (sd_dispatcher_id p) d = Some x \<Longrightarrow> signed_ok h (clk 0) x p \<Longrightarrow> v = Inr x"
    by (rule verify_dispatch_calm [of h actor clk p d]) blast
  obtain c d2 where c: "consume_dispatcher_nonce (clk 3) (sd_dispatcher_id p) (sd_nonce p) (utc_now (clk 2)) (calm d1)
      = (c, calm d2)" "queue_part d2 = queue_part d1"
      "is_ok c \<longleftrightarrow> find_dispatcher (sd_dispatcher_id p) d1 \<noteq> None \<and> nonce_free (clk 3) (sd_dispatcher_id p) (sd_nonce p) d1"
    by (rule consume_dispatcher_calm)
  obtain b d3 where b: "budget_gate h actor clk p (calm d2) = (b, calm d3)" "same_but_audit d2 d3"
      "is_ok b \<longleftrightarrow> budget_verdict (hub_budget_caps h) (utc_now (clk 4)) d2 = None"
    by (rule budget_gate_calm)
  obtain d4 where g: "policy_gate h actor clk p (calm d3) =
      (if denied ?g then Inl (403, ''dispatch denied by policy: '' @ join_reasons ?g) else Inr ?g, calm d4)"
      "same_but_audit d3 d4" by (rule policy_gate_calm)
  have c3: "is_ok c \<longleftrightarrow> find_dispatcher (sd_dispatcher_id p) d \<noteq> None
      \<and> nonce_free (clk 3) (sd_dispatcher_id p) (sd_nonce p) d"
    using c(3) same_but_auditD [OF v(2)] by (simp add: find_dispatcher_def nonce_free_def)
  have q: "queue_part d1 = queue_part d" "queue_part d2 = queue_part d" "queue_part d3 = queue_part d"
      "queue_part d4 = queue_part d"
    using same_but_audit_queue v(2) c(2) b(2) g(2) by metis+
  have b3: "is_ok b \<longleftrightarrow> budget_verdict (hub_budget_caps h) (utc_now (clk 4)) d = None"
    using b(3) budget_verdict_queue [OF q(2)] by simp
  note stages = dispatch_task_signed_def hbind_def call_def
  show thesis
  proof (cases "\<exists>x. admissible h clk p d x")
    case True
    then obtain x where x: "admissible h clk p d x" by blast
    then have "v = Inr x" using v2 by (simp add: admissible_def)
    moreover have "c = Inr ()" "b = Inr ()"
      using x c3 b3 res_unit_cases [of c] res_unit_cases [of b] by (auto simp: admissible_def)
    moreover have "\<not> denied ?g" using x by (simp add: admissible_def)
    ultimately have "dispatch_task_signed h actor clk fresh p (calm d) =
        (if needs_approval ?g then hold_dispatch h actor clk fresh p x ?g else queue_dispatch h actor clk p x ?g) (calm d4)"
      using v(1) c(1) b(1) g(1) by (simp add: stages)
    moreover have "y = x" if "admissible h clk p d y" for y using x that by (simp add: admissible_def)
    ultimately show thesis using x by (intro that [OF q(4)]) blast+
  next
    case False
    consider (bad) e where "v = Inl e" | (used) x e where "v = Inr x" "c = Inl e"
      | (spent) x e where "v = Inr x" "c = Inr ()" "b = Inl e" | (refused) x where "v = Inr x" "c = Inr ()" "b = Inr ()" "denied ?g"
    proof (cases v)
      case (Inr x)
      with False v1 [OF Inr] c3 b3 res_unit_cases [of c] res_unit_cases [of b] that show thesis
        unfolding admissible_def by auto
    qed blast
    then have "\<exists>e d'. queue_part d' = queue_part d \<and>
        dispatch_task_signed h actor clk fresh p (calm d) = (Inl e, calm d')"
    proof cases
      case bad
      then show ?thesis using q(1) v(1) by (auto simp: stages)
    next
      case used
      then show ?thesis using q(2) v(1) c(1) by (auto simp: stages)
    next
      case spent
      then show ?thesis using q(3) v(1) c(1) b(1) by (auto simp: stages)
    next
      case refused
      then show ?thesis using q(4) v(1) c(1) b(1) g(1) by (auto simp: stages)
    qed
    then obtain e d' where "queue_part d' = queue_part d"
      "dispatch_task_signed h actor clk fresh p (calm d) = (Inl e, calm d')" by blast
    then show thesis using False by (intro that [of d']) auto
  qed
qed

text \<open>
  C7. The outcome of a signed dispatch that nobody disturbs. It is accepted exactly when its timestamp is
  within the skew, its kind is known, a registered dispatcher's key verifies the signature over all
  the signed fields (for a command also over the command and the digest of the environment it
  carries), the nonce is not on record, no cost cap is reached, and the policy does not deny it. An
  accepted dispatch adds exactly one task, made of the fields of the request: queued, or, where the
  policy asks for an approval, held together with a pending approval of this envelope. A refused one
  adds no task and no approval.
\<close>

theorem dispatch_outcome:
  assumes ids: "\<forall>t \<in> set (tasks d). t_id t \<le> last_task_id d"
    and fresh: "\<forall>a \<in> set (approvals d). ap_approval_id a \<noteq> fresh"
    and run: "dispatch_task_signed h actor clk fresh p (calm d) = (r, w')"
  shows "(is_ok r \<longleftrightarrow> (\<exists>x. admissible h clk p d x)) \<and>
    (\<not> is_ok r \<longrightarrow> queue_part (db w') = queue_part d) \<and>
    (\<forall>x. admissible h clk p d x \<longrightarrow>
       (let decision = gate_dispatch (hub_gate h) (gate_request p); i = last_task_id d + 1 in
        if needs_approval decision then
          \<exists>a routed. r = Inr (Held i a (join_reasons decision) routed)
            \<and> tasks (db w') = tasks d @ [held_task h clk p x a i]
            \<and> (\<exists>row \<in> set (approvals (db w')). ap_approval_id row = a \<and> ap_status row = ''pending''
                 \<and> ap_envelope_hash row = envelope_hash h (dispatch_envelope p))
        else
          r = Inr (Queued (queued_task h clk p x i)) \<and> tasks (db w') = tasks d @ [queued_task h clk p x i]
          \<and> approvals (db w') = approvals d))" (is "_ \<and> _ \<and> (\<forall>x. _ \<longrightarrow> ?R x)")
proof -
  let ?g = "gate_dispatch (hub_gate h) (gate_request p)"
  obtain d4 where q: "queue_part d4 = queue_part d"
    and yes: "\<And>x. admissible h clk p d x \<Longrightarrow> dispatch_task_signed h actor clk fresh p (calm d) =
       (if needs_approval ?g then hold_dispatch h actor clk fresh p x ?g else queue_dispatch h actor clk p x ?g) (calm d4)"
    and no: "\<nexists>x. admissible h clk p d x \<Longrightarrow> \<exists>e. dispatch_task_signed h actor clk fresh p (calm d) = (Inl e, calm d4)"
    by (rule dispatch_checks_calm [of d h clk p actor fresh]) blast
  show ?thesis
  proof (cases "\<exists>x. admissible h clk p d x")
    case False
    then show ?thesis using no run q by auto
  next
    case True
    then obtain x where x: "admissible h clk p d x" by blast
    have only: "admissible h clk p d y \<Longrightarrow> y = x" for y using x by (simp add: admissible_def)
    note rest = yes [OF x, unfolded run, symmetric]
    have whole: ?thesis if "is_ok r" "?R x"
    proof (intro conjI allI impI)
      show "is_ok r \<longleftrightarrow> (\<exists>x. admissible h clk p d x)" using that(1) x by blast
      show "queue_part (db w') = queue_part d" if "\<not> is_ok r" using that \<open>is_ok r\<close> by blast
      fix y assume "admissible h clk p d y"
      then have "y = x" by (rule only)
      show "?R y" unfolding \<open>y = x\<close> by (rule that(2))
    qed
    have t4: "tasks d4 = tasks d" "last_task_id d4 = last_task_id d" "approvals d4 = approvals d"
      using q by (simp_all add: queue_part_def)
    have ids4: "\<forall>t \<in> set (tasks d4). t_id t \<le> last_task_id d4"
      and fresh4: "\<forall>a \<in> set (approvals d4). ap_approval_id a \<noteq> fresh" using ids fresh t4 by simp_all
    show ?thesis
    proof (cases "needs_approval ?g")
      case True
      obtain a routed d5 where "hold_dispatch h actor clk fresh p x ?g (calm d4)
          = (Inr (Held (last_task_id d4 + 1) a (join_reasons ?g) routed), calm d5)"
        "tasks d5 = tasks d4 @ [held_task h clk p x a (last_task_id d4 + 1)]"
        "\<exists>row \<in> set (approvals d5). ap_approval_id row = a \<and> ap_status row = ''pending''
           \<and> ap_envelope_hash row = envelope_hash h (dispatch_envelope p)"
        by (rule hold_dispatch_calm [OF ids4 fresh4])
      then have r: "r = Inr (Held (last_task_id d + 1) a (join_reasons ?g) routed)" "w' = calm d5"
        "tasks (db w') = tasks d @ [held_task h clk p x a (last_task_id d + 1)]"
        "\<exists>row \<in> set (approvals (db w')). ap_approval_id row = a \<and> ap_status row = ''pending''
           \<and> ap_envelope_hash row = envelope_hash h (dispatch_envelope p)"
        using rest True t4 by auto
      have "?R x" unfolding Let_def using True r(1,3,4) by simp
      then show ?thesis using whole r(1) by simp
    next
      case False
      obtain d5 where "queue_dispatch h actor clk p x ?g (calm d4)
          = (Inr (Queued (queued_task h clk p x (last_task_id d4 + 1))), calm d5)"
        "tasks d5 = tasks d4 @ [queued_task h clk p x (last_task_id d4 + 1)]" "approvals d5 = approvals d4"
        by (rule queue_dispatch_calm [OF ids4])
      then have r: "r = Inr (Queued (queued_task h clk p x (last_task_id d + 1)))" "w' = calm d5"
        "tasks (db w') = tasks d @ [queued_task h clk p x (last_task_id d + 1)]" "approvals (db w') = approvals d"
        using rest False t4 by auto
      have "?R x" unfolding Let_def using False r(1,3,4) by simp
      then show ?thesis using whole r(1) by simp
    qed
  qed
qed

section \<open>A dispatch to look at\<close>

definition demo_hub :: hub where
  "demo_hub = toy_hub\<lparr>hub_crypto := toy_crypto\<lparr>ed_verify := \<lambda>_ _ _. True\<rparr>\<rparr>"

definition demo_actor :: auth_context where
  "demo_actor = \<lparr>subject = ''tok'', roles = [''dispatcher''], legacy_compat = False, human_principal = None,
     session_id = None, assurance_level = None, step_up_at = None\<rparr>"

definition demo_dispatcher :: dispatcher_row where
  "demo_dispatcher =
     \<lparr>d_dispatcher_id = ''d1'', d_public_key = replicate 32 (CHR ''k''), d_label = ''desk'', d_hostname = None,
      d_metadata = JObj [], d_first_seen = [], d_last_seen = [], d_last_nonce = None\<rparr>"

definition demo_payload :: dispatch_payload where
  "demo_payload =
     \<lparr>dq_title = ''t'', dq_prompt = ''p'', dq_scope_globs = [], dq_base_commit = ''c'', dq_branch = [],
      dq_todo_id = None, dq_timeout_minutes = 60, dq_priority = 100, dq_kind = ''agent'', dq_metadata = JNull,
      dq_required_tools = None, dq_required_tags = None, dq_tenant = None, dq_workspace_root = None,
      dq_require_base_commit = False, dq_required_capabilities = None, dq_secrets_needed = None,
      dq_network_egress = None, dq_approval_id = None, dq_max_cost_usd = None, dq_dispatch = None,
      dq_skill = None, dq_tool = None, dq_command = None, dq_cwd = None, dq_env = None,
      dq_loom_env_digest = None\<rparr>"

definition demo_dispatch :: signed_dispatch where
  "demo_dispatch =
     \<lparr>sd_base = demo_payload, sd_dispatcher_id = ''d1'', sd_timestamp = 1000, sd_nonce = ''n1'',
      sd_signature = replicate 64 (CHR ''s'')\<rparr>"

definition demo_fleet :: db where
  "demo_fleet = empty_db\<lparr>dispatchers := [demo_dispatcher]\<rparr>"

lemma demo_signed: "signed_ok demo_hub 1000 demo_dispatcher demo_dispatch"
proof -
  have "check_skew (sd_timestamp demo_dispatch) 1000 = Inr ()"
    by (simp add: check_skew_def demo_dispatch_def) code_simp
  moreover have "verify_sig demo_hub (d_public_key demo_dispatcher) (dispatch_envelope demo_dispatch)
      (sd_signature demo_dispatch) = Inr ()"
    by (simp add: verify_sig_def verify_envelope_hex_def verify_signature_hex_def decode_hex_fixed_def
        demo_hub_def toy_crypto_def demo_dispatcher_def demo_dispatch_def)
  ultimately show ?thesis
    by (simp add: signed_ok_def loom_ok_def demo_dispatch_def demo_payload_def)
qed

lemma demo_admissible: "admissible demo_hub (\<lambda>_. 1000) demo_dispatch demo_fleet demo_dispatcher"
proof -
  have "\<not> denied (gate_dispatch (hub_gate demo_hub) (gate_request demo_dispatch))" by code_simp
  moreover have "budget_verdict (hub_budget_caps demo_hub) now demo_fleet = None" for now
    by (simp add: budget_verdict_def demo_hub_def toy_hub_def has_cost_caps_def default_budget_def)
  ultimately show ?thesis
    using demo_signed
    by (simp add: admissible_def find_dispatcher_def first_row_def demo_fleet_def demo_dispatcher_def
        demo_dispatch_def nonce_free_def empty_db_def)
qed

lemma demo_not_held: "\<not> needs_approval (gate_dispatch (hub_gate demo_hub) (gate_request demo_dispatch))"
  by code_simp

lemma dispatch_outcome_witness:
  "let (r, w') = dispatch_task_signed demo_hub demo_actor (\<lambda>_. 1000) ''a1'' demo_dispatch (calm demo_fleet)
   in r = Inr (Queued (queued_task demo_hub (\<lambda>_. 1000) demo_dispatch demo_dispatcher 1))
    \<and> tasks (db w') = [queued_task demo_hub (\<lambda>_. 1000) demo_dispatch demo_dispatcher 1]"
proof -
  obtain r w' where run: "dispatch_task_signed demo_hub demo_actor (\<lambda>_. 1000) ''a1'' demo_dispatch (calm demo_fleet)
      = (r, w')" by fastforce
  have e: "tasks demo_fleet = []" "approvals demo_fleet = []" "last_task_id demo_fleet = 0"
    by (simp_all add: demo_fleet_def empty_db_def)
  from dispatch_outcome [OF _ _ run] demo_admissible demo_not_held show ?thesis
    by (simp add: e run Let_def)
qed

lemma dispatch_accepted_once_witness:
  "let c = (demo_hub, demo_actor, \<lambda>_. 1000, ''a1'', demo_dispatch);
       late = (demo_hub, demo_actor, \<lambda>_. 1300, ''a2'', demo_dispatch);
       w1 = snd (dispatch_attempt c (''d1'', ''n1'') (calm demo_fleet))
   in fst (dispatch_attempt c (''d1'', ''n1'') (calm demo_fleet))
    \<and> \<not> fst (attempts dispatch_attempt [(late, (''d1'', ''n1''))] w1) ! 0"
proof -
  let ?c = "(demo_hub, demo_actor, \<lambda>_. 1000 :: int, ''a1'', demo_dispatch)"
  let ?late = "(demo_hub, demo_actor, \<lambda>_. 1300 :: int, ''a2'', demo_dispatch)"
  let ?k = "(''d1'', ''n1'')"
  let ?w1 = "snd (dispatch_attempt ?c ?k (calm demo_fleet))"
  have same: "demo_dispatch\<lparr>sd_dispatcher_id := ''d1'', sd_nonce := ''n1''\<rparr> = demo_dispatch"
    by (simp add: demo_dispatch_def)
  obtain d' where d': "queue_part d' = queue_part demo_fleet"
    "dispatch_task_signed demo_hub demo_actor (\<lambda>_. 1000) ''a1'' demo_dispatch (calm demo_fleet) =
       queue_dispatch demo_hub demo_actor (\<lambda>_. 1000) demo_dispatch demo_dispatcher
         (gate_dispatch (hub_gate demo_hub) (gate_request demo_dispatch)) (calm d')"
    by (rule dispatch_checks_calm [of demo_fleet demo_hub "\<lambda>_. 1000" demo_dispatch demo_actor "''a1''"])
      (use demo_admissible demo_not_held in auto)
  have ids: "\<forall>t \<in> set (tasks d'). t_id t \<le> last_task_id d'"
    using d'(1) by (simp add: queue_part_def demo_fleet_def empty_db_def)
  obtain r d5 where d5: "queue_dispatch demo_hub demo_actor (\<lambda>_. 1000) demo_dispatch demo_dispatcher
      (gate_dispatch (hub_gate demo_hub) (gate_request demo_dispatch)) (calm d') = (Inr r, calm d5)"
    by (rule queue_dispatch_calm [OF ids])
  have w1: "dispatch_attempt ?c ?k (calm demo_fleet) = (True, calm d5)"
    by (simp add: dispatch_attempt_def same d'(2) d5)
  from dispatch_accepted_once [OF spared_calm w1 surjective_pairing, of "[(?late, ?k)]" 1300]
  show ?thesis by (simp add: Let_def call_clock_def w1)
qed

end
