(* ===== verification/Capabilities.thy ===== *)
theory Capabilities
  imports StoreTypes
begin

text \<open>
  Capability predicates (\<^verbatim>\<open>crates/fabric-hub/src/capabilities.rs\<close>): the parser of expressions such
  as \<^verbatim>\<open>ram_gb >= 32\<close>, the lookup of a dotted path in a runner's capabilities, the comparison of
  numbers and versions, and the list of the requirements a runner misses. The texts and roundings of
  floating-point numbers and the Unicode lowercase table are fields of a record of parameters. A
  panic of the code is the value None.
\<close>

record cap_env =
  round_f64 :: "rat \<Rightarrow> f64"
  float_literal :: "string \<Rightarrow> f64 option"
  json_display :: "jv \<Rightarrow> string"
  lowercase :: "string \<Rightarrow> string"

record predicate =
  p_raw :: string
  p_path :: string
  p_op :: "string option"
  p_literal :: "jv option"

definition strip_quotes :: "string \<Rightarrow> string option" where
  "strip_quotes trimmed =
     (if (starts_with [CHR 0x22] trimmed \<and> ends_with [CHR 0x22] trimmed)
         \<or> (starts_with [CHR 0x27] trimmed \<and> ends_with [CHR 0x27] trimmed)
      then if length trimmed < 2 then None else Some (take (length trimmed - 2) (drop 1 trimmed))
      else Some trimmed)"

definition parse_literal :: "cap_env \<Rightarrow> string \<Rightarrow> jv option" where
  "parse_literal env token =
     map_option (\<lambda>unquoted.
       case parse_i64 unquoted of
         Some n \<Rightarrow> JNum (JInt n)
       | None \<Rightarrow>
           (case (if length (filter (\<lambda>c. c = CHR ''.'') unquoted) = 1 then float_literal env unquoted else None) of
              Some x \<Rightarrow> (if x = NaN \<or> x = PosInf \<or> x = NegInf then JNull else JNum (JFloat x))
            | None \<Rightarrow> JStr unquoted))
       (strip_quotes (trim token))"

definition operators :: "string list" where
  "operators = [''=='', ''!='', ''>='', ''<='', ''>'', ''<'', ''~='', '' in '']"

text \<open>The first operator of the list that occurs in the text, and what stands around it.\<close>

fun find_operator :: "string list \<Rightarrow> string \<Rightarrow> (string \<times> string \<times> string) option" where
  "find_operator [] t = None"
| "find_operator (op # ops) t =
     (case split_once op t of
        Some (l, r) \<Rightarrow> Some (op, trim l, trim r)
      | None \<Rightarrow> find_operator ops t)"

definition parse_predicate :: "cap_env \<Rightarrow> string \<Rightarrow> (string, predicate) res option" where
  "parse_predicate env expr =
     (let t = trim expr in
      if t = [] then Some (Inl ''empty capability predicate'')
      else case find_operator operators t of
        None \<Rightarrow> Some (Inr \<lparr>p_raw = t, p_path = t, p_op = None, p_literal = None\<rparr>)
      | Some (op, lhs, rhs) \<Rightarrow>
          if op = '' in '' then
            map_option (\<lambda>l. Inr \<lparr>p_raw = t, p_path = rhs, p_op = Some ''in'', p_literal = Some l\<rparr>)
              (parse_literal env lhs)
          else
            map_option (\<lambda>l. Inr \<lparr>p_raw = t, p_path = lhs, p_op = Some op, p_literal = Some l\<rparr>)
              (parse_literal env rhs))"

section \<open>Looking a path up\<close>

text \<open>The first word of \<open>split_whitespace\<close>.\<close>

fun until_space :: "string \<Rightarrow> string" where
  "until_space [] = []"
| "until_space (c # s) =
     (if list_ex (\<lambda>w. starts_with w (c # s)) white_space then [] else c # until_space s)"

definition version_after :: "cap_env \<Rightarrow> string \<Rightarrow> string \<Rightarrow> jv option" where
  "version_after env label part =
     (case split_once (lowercase env part) (lowercase env label) of
        None \<Rightarrow> None
      | Some (_, tail) \<Rightarrow>
          let version = trim_end_chars '',;)'' (until_space (trim_start (trim_start_chars '':-'' tail))) in
          Some (if version = [] then JBool True else JStr version))"

fun resolve_parts :: "cap_env \<Rightarrow> string list \<Rightarrow> jv \<Rightarrow> jv option" where
  "resolve_parts env [] v = Some v"
| "resolve_parts env (part # parts) v =
     (case v of
        JObj es \<Rightarrow> (case map_of es part of Some u \<Rightarrow> resolve_parts env parts u | None \<Rightarrow> None)
      | JArr vs \<Rightarrow> Some (JBool (list_ex (\<lambda>u. as_str u = Some part) vs))
      | JStr label \<Rightarrow> version_after env label part
      | _ \<Rightarrow> None)"

definition resolve :: "cap_env \<Rightarrow> jv \<Rightarrow> string \<Rightarrow> jv option" where
  "resolve env caps path = resolve_parts env (filter (\<lambda>p. p \<noteq> []) (split_on (CHR ''.'') path)) caps"

section \<open>Comparing\<close>

definition display :: "cap_env \<Rightarrow> jv \<Rightarrow> string" where
  "display env v = (case v of JStr s \<Rightarrow> s | _ \<Rightarrow> json_display env v)"

definition version_part :: "string \<Rightarrow> nat option" where
  "version_part part =
     (let digits = filter is_ascii_digit part in if digits = [] then None else parse_u64 digits)"

fun all_some :: "'a option list \<Rightarrow> 'a list option" where
  "all_some [] = Some []"
| "all_some (None # xs) = None"
| "all_some (Some x # xs) = map_option (\<lambda>ys. x # ys) (all_some xs)"

definition version_tuple :: "cap_env \<Rightarrow> jv \<Rightarrow> nat list option" where
  "version_tuple env v =
     (let t = display env v in
      if trim t = [] then None else all_some (map version_part (split_on (CHR ''.'') t)))"

definition as_f64 :: "cap_env \<Rightarrow> jv \<Rightarrow> f64 option" where
  "as_f64 env v =
     (case v of
        JNum (JInt n) \<Rightarrow> Some (round_f64 env (of_int n))
      | JNum (JFloat x) \<Rightarrow> Some x
      | _ \<Rightarrow> None)"

definition resize :: "nat \<Rightarrow> nat list \<Rightarrow> nat list" where
  "resize width xs = xs @ replicate (width - length xs) 0"

text \<open>\<^verbatim>\<open>Vec\<close> is ordered lexicographically, as lists are here.\<close>

definition compare_tuples :: "string \<Rightarrow> nat list \<Rightarrow> nat list \<Rightarrow> bool" where
  "compare_tuples op xs ys =
     (if op = ''>='' then ys \<le> xs
      else if op = ''>'' then ys < xs
      else if op = ''<='' then xs \<le> ys
      else if op = ''<'' then xs < ys
      else False)"

definition compare_floats :: "string \<Rightarrow> f64 \<Rightarrow> f64 \<Rightarrow> bool" where
  "compare_floats op x y =
     (if op = ''>='' then y \<le> x
      else if op = ''>'' then y < x
      else if op = ''<='' then x \<le> y
      else if op = ''<'' then x < y
      else False)"

definition compare_ordered :: "cap_env \<Rightarrow> jv \<Rightarrow> jv \<Rightarrow> string \<Rightarrow> bool option" where
  "compare_ordered env v lit op =
     (case (as_f64 env v, as_f64 env lit) of
        (Some x, Some y) \<Rightarrow> Some (compare_floats op x y)
      | _ \<Rightarrow>
          (case (version_tuple env v, version_tuple env lit) of
             (Some xs, Some ys) \<Rightarrow>
               let width = max (length xs) (length ys) in
               Some (compare_tuples op (resize width xs) (resize width ys))
           | _ \<Rightarrow> None))"

section \<open>Evaluating\<close>

definition value_present :: "jv \<Rightarrow> bool" where
  "value_present v =
     (case v of
        JNull \<Rightarrow> False
      | JBool b \<Rightarrow> b
      | JStr s \<Rightarrow> s \<noteq> []
      | JArr vs \<Rightarrow> vs \<noteq> []
      | JObj es \<Rightarrow> es \<noteq> []
      | JNum _ \<Rightarrow> True)"

text \<open>Equality of an item with a literal, which is a string or a number; an integer and a float differ.\<close>

definition literal_eq :: "jv \<Rightarrow> jv \<Rightarrow> bool" where
  "literal_eq lit v =
     (case (lit, v) of (JNum (JFloat x), JNum (JFloat y)) \<Rightarrow> f64_eq y x | _ \<Rightarrow> v = lit)"

definition comparison :: "cap_env \<Rightarrow> string \<Rightarrow> string \<Rightarrow> jv \<Rightarrow> jv \<Rightarrow> (string, bool) res" where
  "comparison env path op v lit =
     (if op = ''in'' then
        (case v of
           JArr vs \<Rightarrow> Inr (list_ex (literal_eq lit) vs)
         | JStr s \<Rightarrow> Inr (contains_str (display env lit) s)
         | _ \<Rightarrow> Inl (path @ '' not iterable''))
      else if op = ''=='' then Inr (display env v = display env lit)
      else if op = ''!='' then Inr (display env v \<noteq> display env lit)
      else if op = ''~='' then
        Inr (case (version_tuple env v, version_tuple env lit) of
               (Some xs, Some ys) \<Rightarrow>
                 2 \<le> length ys \<and> xs \<noteq> [] \<and> hd xs = hd ys \<and> opt_default False (compare_ordered env v lit ''>='')
             | _ \<Rightarrow> False)
      else Inr (op \<in> set [''>='', ''>'', ''<='', ''<''] \<and> opt_default False (compare_ordered env v lit op)))"

definition evaluate :: "cap_env \<Rightarrow> predicate \<Rightarrow> jv \<Rightarrow> (string, unit) res" where
  "evaluate env p caps =
     (case resolve env caps (p_path p) of
        None \<Rightarrow> Inl (''missing '' @ p_path p)
      | Some v \<Rightarrow>
          (case (p_op p, p_literal p) of
             (Some op, Some lit) \<Rightarrow>
               bind_res (comparison env (p_path p) op v lit) (\<lambda>ok.
                 if ok then Inr ()
                 else Inl (p_path p @ ''='' @ display env v @ '' '' @ op @ '' '' @ display env lit @ '' failed''))
           | _ \<Rightarrow> if value_present v then Inr () else Inl (''empty '' @ p_path p)))"

definition check_predicate :: "cap_env \<Rightarrow> jv \<Rightarrow> string \<Rightarrow> (string, unit) res option" where
  "check_predicate env caps raw =
     map_option (\<lambda>r. bind_res r (\<lambda>p. evaluate env p caps)) (parse_predicate env raw)"

definition match_required :: "cap_env \<Rightarrow> string list \<Rightarrow> jv \<Rightarrow> (bool \<times> string list) option" where
  "match_required env required caps =
     map_option (\<lambda>rs. let missing = List.map_filter (\<lambda>r. case r of Inl m \<Rightarrow> Some m | Inr _ \<Rightarrow> None) rs
                      in (missing = [], missing))
       (all_some (map (check_predicate env caps) required))"

section \<open>A predicate that panics\<close>

lemma all_some_None_iff: "all_some xs = None \<longleftrightarrow> None \<in> set xs"
  by (induction xs rule: all_some.induct) auto

lemma all_some_map: "all_some (map Some xs) = Some xs"
  by (induction xs) auto

definition lone_quote :: string where
  "lone_quote = ''gpu == '' @ [CHR 0x22]"

lemma lone_quote_parse:
  "find_operator operators (trim lone_quote) = Some (''=='', ''gpu'', [CHR 0x22])"
  "trim lone_quote \<noteq> []" "strip_quotes (trim [CHR 0x22]) = None"
proof -
  have q: "trim [CHR 0x22] = [CHR 0x22]"
    by (rule trim_one) (simp_all add: ascii_char_def)
  have g: "trim ''gpu '' = ''gpu''"
    using trim_start_ascii [of "CHR ''g''" "''pu ''"] trim_end_ascii [of "CHR '' ''" "''gpu''"]
      trim_end_ascii [of "CHR ''u''" "''gp''"]
    by (simp add: trim_def ascii_char_def)
  have sq: "trim ('' '' @ [CHR 0x22]) = [CHR 0x22]"
    using trim_start_ascii [of "CHR '' ''" "[CHR 0x22]"] q
    by (simp add: trim_def ascii_char_def)
  have l: "trim lone_quote = lone_quote"
    using trim_id [of "CHR ''g''" "CHR 0x22" "''pu == ''"]
    by (simp add: lone_quote_def ascii_char_def)
  show "trim lone_quote \<noteq> []" using l by (simp add: lone_quote_def)
  show "strip_quotes (trim [CHR 0x22]) = None" unfolding q by (simp add: strip_quotes_def ends_with_def)
  show "find_operator operators (trim lone_quote) = Some (''=='', ''gpu'', [CHR 0x22])"
    unfolding l using g sq by (simp add: lone_quote_def operators_def split_once_def)
qed

text \<open>
  A requirement whose literal is a single quotation mark makes the matcher panic, whatever the
  other requirements and the capabilities of the runner are: the code slices the quotes off without
  checking that there are two.
\<close>

lemma lone_quote_panics:
  "match_required env (before @ lone_quote # after) caps = None"
proof -
  have "check_predicate env caps lone_quote = None"
    using lone_quote_parse
    by (simp add: check_predicate_def parse_predicate_def parse_literal_def Let_def)
  then have "None \<in> set (map (check_predicate env caps) (before @ lone_quote # after))" by simp
  then show ?thesis by (simp add: match_required_def all_some_None_iff)
qed

section \<open>Versions\<close>

text \<open>The text of a version with the given components.\<close>

definition dotted :: "nat list \<Rightarrow> string" where
  "dotted xs = join_with ''.'' (map show_nat xs)"

lemma show_nat_no_dot: "CHR ''.'' \<notin> set (show_nat n)"
  using show_nat_digits [of "CHR ''.''" n] by (auto simp: is_ascii_digit_def)

lemma split_dotted: "xs \<noteq> [] \<Longrightarrow> split_on (CHR ''.'') (dotted xs) = map show_nat xs"
proof (induction xs)
  case (Cons x xs)
  show ?case
  proof (cases xs)
    case Nil
    then show ?thesis by (simp add: dotted_def split_on_no_sep show_nat_no_dot)
  next
    case (Cons y ys)
    then have "dotted (x # xs) = show_nat x @ CHR ''.'' # dotted xs" by (simp add: dotted_def)
    then show ?thesis
      using Cons Cons.IH split_on_append_Cons [of "CHR ''.''" "show_nat x" "dotted xs"]
      by (simp add: split_on_no_sep show_nat_no_dot)
  qed
qed simp

lemma version_part_show: "n < 2 ^ 64 \<Longrightarrow> version_part (show_nat n) = Some n"
proof -
  have f: "filter is_ascii_digit (show_nat n) = show_nat n"
    by (simp add: filter_id_conv show_nat_digits)
  have "hd (show_nat n) \<noteq> CHR ''+''"
    using show_nat_digits [of "hd (show_nat n)" n] by (auto simp: is_ascii_digit_def)
  then show "n < 2 ^ 64 \<Longrightarrow> ?thesis" by (simp add: version_part_def f parse_u64_def)
qed

lemma digit_trim: "is_ascii_digit c \<Longrightarrow> ascii_char c \<and> \<not> ascii_space c"
  by (auto simp: is_ascii_digit_def ascii_char_def)

lemma dotted_not_blank:
  assumes "xs \<noteq> []"
  shows "dotted xs \<noteq> []" "trim (dotted xs) = dotted xs"
proof -
  obtain x ys where x: "xs = x # ys" using assms by (cases xs) auto
  obtain zs z where z: "xs = zs @ [z]" using assms by (cases xs rule: rev_cases) auto
  obtain c r where c: "show_nat x = c # r" by (cases "show_nat x") auto
  obtain q d where d: "show_nat z = q @ [d]" by (cases "show_nat z" rule: rev_cases) auto
  have hd: "dotted xs \<noteq> []" "hd (dotted xs) = c" using x c by (cases ys; simp add: dotted_def)+
  have "last (dotted xs) = d" using z d join_with_snoc [of "''.''" "map show_nat zs" "show_nat z"]
    by (simp add: dotted_def)
  moreover have "is_ascii_digit c" "is_ascii_digit d"
    using show_nat_digits [of c x] show_nat_digits [of d z] c d by simp_all
  ultimately show "trim (dotted xs) = dotted xs"
    using hd digit_trim by (intro trim_ends) auto
  show "dotted xs \<noteq> []" by (rule hd(1))
qed

lemma version_tuple_dotted:
  assumes "xs \<noteq> []" "list_all (\<lambda>n. n < 2 ^ 64) xs"
  shows "version_tuple env (JStr (dotted xs)) = Some xs"
proof -
  have "map (\<lambda>n. version_part (show_nat n)) xs = map Some xs"
    using assms(2) by (auto simp: list_all_iff version_part_show)
  then have "all_some (map (\<lambda>n. version_part (show_nat n)) xs) = Some xs" by (simp only: all_some_map)
  then show ?thesis
    using assms(1) dotted_not_blank [of xs]
    by (simp add: version_tuple_def display_def split_dotted comp_def)
qed

text \<open>
  Two dotted versions are compared component by component, the shorter one filled up with zeros:
  a runner that reports version \<open>xs\<close> meets the requirement \<open>path >= ys\<close> exactly when \<open>xs\<close> is not
  smaller than \<open>ys\<close> in that order, and \<open>path ~= ys\<close> exactly when it is not smaller, has the same first
  component, and \<open>ys\<close> has two components or more.
\<close>

lemma version_requirements:
  assumes "xs \<noteq> []" "ys \<noteq> []" and "list_all (\<lambda>n. n < 2 ^ 64) (xs @ ys)"
    and "resolve env caps path = Some (JStr (dotted xs))"
  shows "(evaluate env \<lparr>p_raw = raw, p_path = path, p_op = Some ''>='', p_literal = Some (JStr (dotted ys))\<rparr> caps = Inr ()
      \<longleftrightarrow> resize (length xs) ys \<le> resize (length ys) xs) \<and>
    (evaluate env \<lparr>p_raw = raw, p_path = path, p_op = Some ''~='', p_literal = Some (JStr (dotted ys))\<rparr> caps = Inr ()
      \<longleftrightarrow> hd xs = hd ys \<and> 2 \<le> length ys \<and> resize (length xs) ys \<le> resize (length ys) xs)"
proof -
  have v: "version_tuple env (JStr (dotted xs)) = Some xs" "version_tuple env (JStr (dotted ys)) = Some ys"
    using assms(1-3) by (simp_all add: version_tuple_dotted)
  have r: "resize (max (length xs) (length ys)) xs = resize (length ys) xs"
    "resize (max (length xs) (length ys)) ys = resize (length xs) ys"
    by (auto simp: resize_def max_def)
  have c: "compare_ordered env (JStr (dotted xs)) (JStr (dotted ys)) ''>='' =
      Some (resize (length xs) ys \<le> resize (length ys) xs)"
    by (simp add: compare_ordered_def as_f64_def v Let_def r compare_tuples_def)
  show ?thesis
    using assms(1) by (auto simp: evaluate_def assms(4) comparison_def c v opt_default_def)
qed

definition toy_caps :: jv where
  "toy_caps = JObj [(''python'', JStr (dotted [3, 13, 1]))]"

definition toy_cap_env :: cap_env where
  "toy_cap_env = \<lparr>round_f64 = Fin, float_literal = (\<lambda>_. None), json_display = (\<lambda>_. []), lowercase = to_ascii_lowercase\<rparr>"

lemma version_requirements_witness:
  "evaluate toy_cap_env \<lparr>p_raw = [], p_path = ''python'', p_op = Some ''~='', p_literal = Some (JStr (dotted [3, 12]))\<rparr>
     toy_caps = Inr () \<and>
   evaluate toy_cap_env \<lparr>p_raw = [], p_path = ''python'', p_op = Some ''>='', p_literal = Some (JStr (dotted [3, 14]))\<rparr>
     toy_caps \<noteq> Inr ()"
proof -
  have r: "resolve toy_cap_env toy_caps ''python'' = Some (JStr (dotted [3, 13, 1]))"
    by (simp add: resolve_def toy_caps_def)
  show ?thesis
    using version_requirements [OF _ _ _ r, of "[3, 12]"] version_requirements [OF _ _ _ r, of "[3, 14]"]
    by (simp add: resize_def)
qed

end
