(* ===== verification/HubClaims.thy ===== *)
theory HubClaims
  imports HubDispatch Capabilities Router
begin

text \<open>
  The claim routes of the hub and the routes that read the queue
  (\<^verbatim>\<open>crates/fabric-hub/src/routes/tasks.rs\<close>): the two signed claims, the degraded unsigned one,
  the resolution of secrets that comes before the claim of the store, the list of tasks nobody can
  run, and the intent gate.
\<close>

section \<open>Requests\<close>

record claim_payload =
  cl_runner_id :: string
  cl_scope_prefixes :: "string list"
  cl_tools :: "string list"
  cl_tags :: "string list"
  cl_tenant :: "string option"
  cl_workspace_root :: "string option"
  cl_last_known_commit :: "string option"
  cl_ram_free_mb :: "int option"
  cl_timestamp :: i64
  cl_nonce :: string
  cl_signature :: string

record legacy_claim_payload =
  lc_worker_id :: string
  lc_hostname :: string
  lc_capabilities :: jv

section \<open>Claims\<close>

record claim_reply =
  cr_task :: "(task_row \<times> (string \<times> string) list) option"
  cr_info :: "(string \<times> jv) list"

definition no_task :: "string \<Rightarrow> (string \<times> jv) list \<Rightarrow> claim_reply" where
  "no_task reason extra = \<lparr>cr_task = None, cr_info = (''reason'', JStr reason) # extra\<rparr>"

definition build_candidate :: "task_row \<Rightarrow> candidate_task" where
  "build_candidate t =
     (let b = t_brief t in
      \<lparr>ct_scope_globs = cp_scope_globs b, ct_required_tools = opt_default [] (cp_required_tools b),
       ct_required_tags = opt_default [] (cp_required_tags b), ct_tenant = cp_tenant b,
       ct_workspace_root = cp_workspace_root b, ct_require_base_commit = cp_require_base_commit b,
       ct_base_commit = cp_base_commit b\<rparr>)"

text \<open>The values of the named secrets, or why one of them cannot be had.\<close>

definition resolve_one :: "broker \<Rightarrow> (string \<times> string) list \<Rightarrow> string \<Rightarrow> (api_error, string \<times> string) res" where
  "resolve_one b envelopes name =
     (case map_of envelopes name of
        None \<Rightarrow> Inl (api_secret_error (MissingSecret name))
      | Some envelope \<Rightarrow>
          (case open_secret b name envelope of
             Inl e \<Rightarrow> Inl (api_secret_error e)
           | Inr value \<Rightarrow> Inr (name, value)))"

text \<open>A map from names to values, as its entries in the order of the names.\<close>

definition as_map :: "(string \<times> string) list \<Rightarrow> (string \<times> string) list" where
  "as_map es = map (\<lambda>n. (n, the (map_of es n))) (sort (remdups (map fst es)))"

definition resolve_secrets :: "hub \<Rightarrow> string list \<Rightarrow> (api_error, (string \<times> string) list) handler" where
  "resolve_secrets h requested =
     (if requested = [] then hret []
      else hbind (call (\<lambda>e. api_secret_error (ProviderIo (store_error_text e))) (secret_envelopes requested))
        (\<lambda>envelopes. hbind (check (collect_res (resolve_one (hub_broker h) envelopes) requested))
           (\<lambda>es. hret (as_map es))))"

definition internal_api :: "store_error \<Rightarrow> api_error" where
  "internal_api e = request_failed (internal e)"

text \<open>The claim of the store, with the secrets resolved before it.\<close>

definition claim_resolved :: "hub \<Rightarrow> auth_context \<Rightarrow> (nat \<Rightarrow> int) \<Rightarrow> task_row \<Rightarrow> string \<Rightarrow> string \<Rightarrow>
    (string \<times> string) list \<Rightarrow> (api_error, claim_reply) handler" where
  "claim_resolved h actor clk t runner host resolved =
     hbind (call internal_api (claim_task (t_id t) runner host (utc_now (clk 1)))) (\<lambda>r.
     case r of
       AlreadyClaimed \<Rightarrow>
         hret (no_task ''no_eligible_runner'' [(''detail'', JStr ''lost_claim_race'')])
     | Claimed u \<Rightarrow>
         hbind (ignoring (audit_append h ''claim'' (Some (t_id u))
           (jobj [(''task_id'', jint (t_id u)), (''worker_id'', JStr runner), (''hostname'', JStr host),
                  (''secrets_dispatched'', jstrs (map fst resolved)), (''attribution'', attribution actor)])
           (clk 2))) (\<lambda>_.
         hret \<lparr>cr_task = Some (u, resolved), cr_info = [(''reason'', JStr ''claimed'')]\<rparr>))"

definition do_claim :: "hub \<Rightarrow> auth_context \<Rightarrow> (nat \<Rightarrow> int) \<Rightarrow> task_row \<Rightarrow> string \<Rightarrow> string \<Rightarrow>
    (api_error, claim_reply) handler" where
  "do_claim h actor clk t runner host =
     hbind (resolve_secrets h (opt_default [] (cp_secrets_needed (t_brief t))))
       (claim_resolved h actor clk t runner host)"

definition claim_envelope :: "claim_payload \<Rightarrow> jv" where
  "claim_envelope p =
     jobj [(''op'', JStr ''claim''), (''runner_id'', JStr (cl_runner_id p)),
           (''timestamp'', jint (sint (cl_timestamp p))), (''nonce'', JStr (cl_nonce p))]"

definition runner_errors :: "store_error \<Rightarrow> api_error" where
  "runner_errors e =
     (case e of NotFound _ \<Rightarrow> request_failed (404, ''runner not registered'') | _ \<Rightarrow> internal_api e)"

text \<open>The part both queues share: who is asking, and is the runner of the kind of the queue.\<close>

definition verify_claim :: "hub \<Rightarrow> (nat \<Rightarrow> int) \<Rightarrow> string \<Rightarrow> string \<Rightarrow> claim_payload \<Rightarrow>
    (api_error, runner_row) handler" where
  "verify_claim h clk kind refusal p =
     hbind (check (map_res_err (\<lambda>m. request_failed (422, m)) (check_skew (cl_timestamp p) (clk 0)))) (\<lambda>_.
     hbind (call internal_api (runner_public_key (cl_runner_id p))) (\<lambda>key.
     hbind (check (case key of None \<Rightarrow> Inl (request_failed (404, ''runner not registered'')) | Some k \<Rightarrow> Inr k)) (\<lambda>k.
     hbind (check (map_res_err (\<lambda>m. request_failed (403, m))
       (verify_sig h k (claim_envelope p) (cl_signature p)))) (\<lambda>_.
     hbind (call runner_errors (get_runner (cl_runner_id p))) (\<lambda>r.
     if kind \<notin> set (rn_kinds r) then hfail (request_failed (403, refusal)) else hret r)))))"

definition runner_load :: "string \<Rightarrow> task_row list \<Rightarrow> int" where
  "runner_load runner ts = int (length (filter (\<lambda>t. t_worker_id t = Some runner) ts))"

text \<open>Why a runner gets nothing before the queue is looked at, if it does.\<close>

definition runner_gate :: "runner_row \<Rightarrow> claim_payload \<Rightarrow> (api_error, claim_reply option) handler" where
  "runner_gate r p =
     (if rn_drain_requested r then hret (Some (no_task ''drain'' []))
      else
        hbind (or_default [] (list_tasks (Some ''claimed'') 200)) (\<lambda>active.
        hbind (or_default [] (list_tasks (Some ''running'') 200)) (\<lambda>running.
        let load = runner_load (cl_runner_id p) (active @ running); cap = rp_max_concurrent (rn_payload r) in
        if cap \<le> load then
          hret (Some (no_task ''concurrency_cap''
            [(''current_load'', jint load), (''max_concurrent'', jint cap)]))
        else
          hret (case cl_ram_free_mb p of
              None \<Rightarrow> None
            | Some ram \<Rightarrow>
                if ram < 512 then
                  Some (no_task ''resource_gate''
                    [(''detail'', JStr (''ram_free_mb '' @ show_int ram @ '' < 512''))])
                else None))))"

definition claim_from :: "hub \<Rightarrow> auth_context \<Rightarrow> (nat \<Rightarrow> int) \<Rightarrow> claim_payload \<Rightarrow> runner_row \<Rightarrow> task_row list \<Rightarrow>
    (api_error, claim_reply) handler" where
  "claim_from h actor clk p r eligible =
     (if eligible = [] then hret (no_task ''queue_empty'' [])
      else
        (case pick_task (map build_candidate eligible)
            (runner_view_from_raw (cl_scope_prefixes p) (cl_tools p) (cl_tags p) (cl_tenant p)
               (cl_workspace_root p) (cl_last_known_commit p)) of
           (None, seen) \<Rightarrow> hret (no_task ''no_eligible_runner'' [(''candidates_seen'', jint (int seen))])
         | (Some i, _) \<Rightarrow> do_claim h actor clk (eligible ! i) (cl_runner_id p) (rp_hostname (rn_payload r))))"

definition from_loom_queue :: "hub \<Rightarrow> auth_context \<Rightarrow> (nat \<Rightarrow> int) \<Rightarrow> claim_payload \<Rightarrow> runner_row \<Rightarrow>
    (api_error, claim_reply) handler" where
  "from_loom_queue h actor clk p r =
     hbind (call internal_api (list_tasks (Some ''queued'') 50)) (\<lambda>queued.
     claim_from h actor clk p r
       (filter (\<lambda>t. \<not> t_cancel_requested t \<and> cp_kind (t_brief t) = ''command'') queued))"

definition claim_task_loom :: "hub \<Rightarrow> auth_context \<Rightarrow> (nat \<Rightarrow> int) \<Rightarrow> claim_payload \<Rightarrow>
    (api_error, claim_reply) handler" where
  "claim_task_loom h actor clk p =
     hbind (verify_claim h clk ''command'' ''runner is not registered as a Loom (command) runner'' p) (\<lambda>r.
     hbind (runner_gate r p) (\<lambda>stop.
     case stop of Some reply \<Rightarrow> hret reply | None \<Rightarrow> from_loom_queue h actor clk p r))"

definition can_run_dispatch :: "capability_row list \<Rightarrow> task_row \<Rightarrow> bool" where
  "can_run_dispatch caps t =
     (if cp_dispatch (t_brief t) = Some ''skill'' then
        list_ex (\<lambda>c. cap_kind c = ''prompt'' \<and> cap_name c = opt_default [] (cp_skill (t_brief t))) caps
      else if cp_dispatch (t_brief t) = Some ''tool'' then
        list_ex (\<lambda>c. cap_kind c = ''tool'' \<and> cap_name c = opt_default [] (cp_tool (t_brief t))) caps
      else True)"

definition from_fabric_queue :: "hub \<Rightarrow> auth_context \<Rightarrow> (nat \<Rightarrow> int) \<Rightarrow> claim_payload \<Rightarrow> runner_row \<Rightarrow>
    (api_error, claim_reply) handler" where
  "from_fabric_queue h actor clk p r =
     hbind (or_default [] (capabilities_of (cl_runner_id p))) (\<lambda>caps.
     hbind (call internal_api (list_tasks (Some ''queued'') 50)) (\<lambda>queued.
     claim_from h actor clk p r
       (filter (can_run_dispatch caps)
         (filter (\<lambda>t. \<not> t_cancel_requested t \<and> cp_kind (t_brief t) = ''agent'') queued))))"

definition claim_task_fabric :: "hub \<Rightarrow> auth_context \<Rightarrow> (nat \<Rightarrow> int) \<Rightarrow> claim_payload \<Rightarrow>
    (api_error, claim_reply) handler" where
  "claim_task_fabric h actor clk p =
     hbind (verify_claim h clk ''agent'' ''runner is not registered as a Fabric (agent) runner'' p) (\<lambda>r.
     hbind (runner_gate r p) (\<lambda>stop.
     case stop of Some reply \<Rightarrow> hret reply | None \<Rightarrow> from_fabric_queue h actor clk p r))"

text \<open>The unsigned claim: agent tasks without required capabilities only.\<close>

definition legacy_claimable :: "task_row \<Rightarrow> bool" where
  "legacy_claimable t \<longleftrightarrow>
     cp_kind (t_brief t) = ''agent'' \<and> \<not> t_cancel_requested t
     \<and> opt_default [] (cp_required_capabilities (t_brief t)) = []"

definition claim_task_legacy :: "hub \<Rightarrow> auth_context \<Rightarrow> (nat \<Rightarrow> int) \<Rightarrow> legacy_claim_payload \<Rightarrow>
    (api_error, claim_reply) handler" where
  "claim_task_legacy h actor clk p =
     hbind (call internal_api (list_tasks (Some ''queued'') 200)) (\<lambda>candidates.
     let candidate = find legacy_claimable candidates in
     hbind (ignoring (audit_append h ''legacy_claim_degraded'' (map_option t_id candidate)
       (jobj [(''worker_id'', JStr (lc_worker_id p)), (''hostname'', JStr (lc_hostname p)),
              (''supplied_capabilities_ignored'', JBool (lc_capabilities p \<noteq> JNull)),
              (''posture'', JStr ''degraded''), (''attribution'', attribution actor)]) (clk 0))) (\<lambda>_.
     hbind (case candidate of
              Some t \<Rightarrow> do_claim h actor clk t (lc_worker_id p) (lc_hostname p)
            | None \<Rightarrow> hret (no_task ''queue_empty'' [])) (\<lambda>reply.
     hret (reply\<lparr>cr_info := cr_info reply @ [(''compatibility'', JStr ''degraded'')]\<rparr>))))"

section \<open>Reading the queue, and the intent gate\<close>

definition list_tasks_route :: "string option \<Rightarrow> int option \<Rightarrow> (api_error, task_row list) handler" where
  "list_tasks_route status limit = call internal_api (list_tasks status (opt_default 100 limit))"

definition get_task_route :: "int \<Rightarrow> (api_error, task_row) handler" where
  "get_task_route i =
     call (\<lambda>e. case e of NotFound _ \<Rightarrow> request_failed (404, ''task not found'') | _ \<Rightarrow> internal_api e) (get_task i)"

text \<open>
  The queued tasks that ask for capabilities no online runner has. \<^const>\<open>None\<close>: evaluating a
  predicate panicked.
\<close>

record waiting_task =
  wt_task :: task_row
  wt_missing :: "(string \<times> string list) list"

definition online_runner :: "runner_row \<Rightarrow> bool" where
  "online_runner r \<longleftrightarrow> rn_state r \<in> set [''online'', ''degraded''] \<and> \<not> rn_drain_requested r"

fun missing_per_runner :: "cap_env \<Rightarrow> string list \<Rightarrow> runner_row list \<Rightarrow> (bool \<times> (string \<times> string list) list) option" where
  "missing_per_runner ce required [] = Some (False, [])"
| "missing_per_runner ce required (r # rs) =
     Option.bind (match_required ce required (rp_capabilities (rn_payload r))) (\<lambda>m.
     Option.bind (missing_per_runner ce required rs) (\<lambda>rest.
     Some (if fst m then (True, snd rest) else (fst rest, (rn_runner_id r, snd m) # snd rest))))"

fun waiting_among :: "cap_env \<Rightarrow> runner_row list \<Rightarrow> task_row list \<Rightarrow> waiting_task list option" where
  "waiting_among ce online [] = Some []"
| "waiting_among ce online (t # ts) =
     (case opt_default [] (cp_required_capabilities (t_brief t)) of
        [] \<Rightarrow> waiting_among ce online ts
      | required \<Rightarrow>
          Option.bind (missing_per_runner ce required online) (\<lambda>m.
          Option.bind (waiting_among ce online ts) (\<lambda>ws.
          Some (if fst m then ws else \<lparr>wt_task = t, wt_missing = snd m\<rparr> # ws))))"

definition list_waiting_tasks :: "cap_env \<Rightarrow> (api_error, (waiting_task list \<times> string list) option) handler" where
  "list_waiting_tasks ce =
     hbind (call internal_api list_runners) (\<lambda>rs.
     let online = filter online_runner rs in
     hbind (call internal_api (list_tasks (Some ''queued'') 200)) (\<lambda>ts.
     hret (map_option (\<lambda>ws. (ws, map rn_runner_id online)) (waiting_among ce online ts))))"

record intent_payload =
  ip_kind :: string
  ip_worker_id :: "string option"
  ip_command :: "string option"

definition evaluate_intent_route :: "hub \<Rightarrow> auth_context \<Rightarrow> (nat \<Rightarrow> int) \<Rightarrow> int \<Rightarrow> intent_payload \<Rightarrow>
    (nat \<times> string, policy_decision) handler" where
  "evaluate_intent_route h actor clk i p =
     (let decision = gate_intent (hub_gate h) (ip_kind p);
          evidence = policy_evidence ''intent'' decision (utc_now (clk 0))
            (jobj [(''kind'', JStr (ip_kind p)), (''worker_id'', jopt JStr (ip_worker_id p)),
                   (''command_present'', JBool (ip_command p \<noteq> None))]) in
      hbind (call internal (append_task_policy_decision i evidence)) (\<lambda>_.
      hbind (ignoring (audit_append h (if allowed decision then ''intent_allowed'' else ''intent_denied'')
        (Some i)
        (jobj [(''kind'', JStr (ip_kind p)), (''worker_id'', jopt JStr (ip_worker_id p)),
               (''command'', jopt JStr (ip_command p)), (''allowed'', JBool (allowed decision)),
               (''reasons'', jstrs (reasons decision)), (''actor'', attribution actor)]) (clk 1))) (\<lambda>_.
      hret decision)))"

section \<open>A task is handed out once\<close>

lemma task_safe_blind: "task_safe P \<Longrightarrow> audit_blind P"
  unfolding audit_blind_def by (auto elim!: task_safeD intro: task_stmt.Other)

lemma keeps_other:
  assumes "task_safe P" "\<And>d. tasks (snd (f d)) = tasks d" "\<And>d. last_task_id (snd (f d)) = last_task_id d"
  shows "keeps P (update_db f)"
  by (rule keeps_task_stmt [OF assms(1)]) (intro task_stmt.Other assms(2,3))

lemma keeps_secret_envelopes [keeps_intros]: "keeps P (secret_envelopes names)"
  by (induction names) (auto intro!: keeps_intros)

lemma keeps_list_tasks [keeps_intros]: "keeps P (list_tasks s n)"
  unfolding list_tasks_def by (intro keeps_intros)

lemma keeps_resolve_secrets [keeps_intros]: "keeps P (resolve_secrets h names)"
  unfolding resolve_secrets_def by (intro keeps_intros)

lemma keeps_verify_claim [keeps_intros]: "keeps P (verify_claim h clk kind refusal p)"
  unfolding verify_claim_def runner_public_key_def by (intro keeps_intros)

lemma keeps_runner_gate [keeps_intros]: "keeps P (runner_gate r p)"
  unfolding runner_gate_def Let_def by (intro keeps_intros)

lemma keeps_case_claim [keeps_intros]:
  "(\<And>t. keeps P (f t)) \<Longrightarrow> keeps P m \<Longrightarrow> keeps P (case r of Claimed t \<Rightarrow> f t | AlreadyClaimed \<Rightarrow> m)"
  by (cases r) auto

lemma keeps_do_claim:
  assumes "task_safe P"
  shows "keeps P (do_claim h actor clk t runner host)"
  unfolding do_claim_def claim_resolved_def [abs_def]
  by (intro keeps_intros keeps_claim_task keeps_audit_append task_safe_blind assms)

lemma keeps_claim_from:
  "task_safe P \<Longrightarrow> keeps P (claim_from h actor clk p r eligible)"
  unfolding claim_from_def by (auto intro!: keeps_intros keeps_do_claim split: prod.split option.split)

lemma keeps_capabilities_of [keeps_intros]: "keeps P (capabilities_of i)"
  unfolding capabilities_of_def by (intro keeps_intros)

lemma keeps_queues:
  assumes "task_safe P"
  shows "keeps P (from_loom_queue h actor clk p r)" "keeps P (from_fabric_queue h actor clk p r)"
  unfolding from_loom_queue_def from_fabric_queue_def by (intro keeps_intros keeps_claim_from assms)+

lemma keeps_claim_loom: "task_safe P \<Longrightarrow> keeps P (claim_task_loom h actor clk p)"
  unfolding claim_task_loom_def by (intro keeps_intros keeps_queues)

lemma keeps_claim_fabric: "task_safe P \<Longrightarrow> keeps P (claim_task_fabric h actor clk p)"
  unfolding claim_task_fabric_def by (intro keeps_intros keeps_queues)

lemma keeps_claim_legacy: "task_safe P \<Longrightarrow> keeps P (claim_task_legacy h actor clk p)"
  unfolding claim_task_legacy_def Let_def
  by (intro keeps_intros keeps_do_claim keeps_audit_append task_safe_blind)

lemma keeps_consume_strict_tasks:
  assumes "task_safe P"
  shows "keeps P (consume_agent_nonce_strict DispatcherNonces clock i n now)"
proof -
  have "P d \<Longrightarrow> insert_nonce DispatcherNonces i n now d = (Inr x, d') \<Longrightarrow> P d'" for d d' x
    by (rule task_safeD [OF assms], assumption) (auto simp: insert_nonce_def intro: task_stmt.Other split: if_splits)
  moreover have "P d \<Longrightarrow> P (snd (prune_stmt DispatcherNonces c d))" for d c
    by (rule task_safeD [OF assms], assumption) (auto simp: prune_stmt_def intro: task_stmt.Other)
  ultimately show ?thesis unfolding consume_agent_nonce_strict_def
    by (intro keeps_intros keeps_statement)
qed

lemma keeps_dispatch_signed:
  assumes "task_safe P"
  shows "keeps P (dispatch_task_signed h actor clk fresh p)"
proof -
  have "P d \<Longrightarrow> insert_approval a d = (Inr x, d') \<Longrightarrow> P d'" for a d d' x
    by (rule task_safeD [OF assms], assumption) (auto simp: insert_approval_def intro: task_stmt.Other split: if_splits)
  then have appr: "keeps P (create_or_get_pending_approval fresh e dec label branch scopes disp now)"
    for e dec label branch scopes disp now
    unfolding create_or_get_pending_approval_def by (intro keeps_intros)
  have nonce: "keeps P (consume_dispatcher_nonce clock i n now)" for clock i n now
    unfolding consume_dispatcher_nonce_def
    by (intro keeps_intros keeps_consume_strict_tasks keeps_other assms) (simp_all add: edit_dispatchers_def)
  note audit = keeps_audit_append [OF task_safe_blind [OF assms]]
  show ?thesis
    unfolding dispatch_task_signed_def budget_gate_def policy_gate_def hold_dispatch_def queue_dispatch_def
      route_held_def audited_refusal_def Let_def
    by (intro keeps_intros keeps_verify_dispatch task_safe_blind assms appr nonce audit keeps_create_task)
      (simp_all add: fresh_status_def dispatch_params_def)
qed

lemma keeps_intent_route:
  "task_safe P \<Longrightarrow> keeps P (evaluate_intent_route h actor clk i p)"
  unfolding evaluate_intent_route_def Let_def
  by (intro keeps_intros keeps_append_decision keeps_audit_append task_safe_blind)

text \<open>Requests to the task routes, in any order; a call's result is the task it hands out.\<close>

datatype task_request =
    Dispatching string signed_dispatch
  | ClaimingLoom claim_payload
  | ClaimingFabric claim_payload
  | ClaimingLegacy legacy_claim_payload
  | Intending int intent_payload

definition handed_out :: "(api_error, claim_reply) res \<Rightarrow> int option" where
  "handed_out r = (case r of Inl _ \<Rightarrow> None | Inr reply \<Rightarrow> map_option (\<lambda>t. t_id (fst t)) (cr_task reply))"

fun serve :: "hub \<Rightarrow> auth_context \<Rightarrow> (nat \<Rightarrow> int) \<Rightarrow> task_request \<Rightarrow> world \<Rightarrow> int option \<times> world" where
  "serve h actor clk (Dispatching fresh p) w = (None, snd (dispatch_task_signed h actor clk fresh p w))"
| "serve h actor clk (ClaimingLoom p) w =
     (case claim_task_loom h actor clk p w of (r, w') \<Rightarrow> (handed_out r, w'))"
| "serve h actor clk (ClaimingFabric p) w =
     (case claim_task_fabric h actor clk p w of (r, w') \<Rightarrow> (handed_out r, w'))"
| "serve h actor clk (ClaimingLegacy p) w =
     (case claim_task_legacy h actor clk p w of (r, w') \<Rightarrow> (handed_out r, w'))"
| "serve h actor clk (Intending i p) w = (None, snd (evaluate_intent_route h actor clk i p w))"

text \<open>The tasks a hub hands out, each request with its caller and its clock.\<close>

fun hands_out :: "hub \<Rightarrow> (auth_context \<times> (nat \<Rightarrow> int) \<times> task_request) list \<Rightarrow> world \<Rightarrow> int list \<times> world" where
  "hands_out h [] w = ([], w)"
| "hands_out h ((actor, clk, q) # qs) w =
     (case serve h actor clk q w of (i, w1) \<Rightarrow>
        case hands_out h qs w1 of (js, w2) \<Rightarrow> ((case i of Some j \<Rightarrow> [j] | None \<Rightarrow> []) @ js, w2))"

lemma claim_task_id:
  assumes "claim_task i worker host now w = (Inr (Claimed t), w')"
  shows "t_id t = i"
proof -
  from assms obtain w1 where "get_task i w1 = (Inr t, w')"
    unfolding claim_task_def by (elim bind_op_InrE) (auto split: if_splits elim!: bind_op_InrE)
  then show ?thesis
    unfolding get_task_def by (elim bind_op_InrE query_InrE) (auto split: option.splits dest: find_task_SomeD)
qed

definition settles :: "(world \<Rightarrow> (api_error, claim_reply) res \<times> world) \<Rightarrow> bool" where
  "settles m \<longleftrightarrow> (\<forall>S w r w'. settled S (db w) \<longrightarrow> peers w \<longrightarrow> m w = (r, w') \<longrightarrow>
     settled S (db w') \<and> peers w'
     \<and> (\<forall>i. handed_out r = Some i \<longrightarrow> i \<notin> S \<and> settled (insert i S) (db w')))"

lemma settlesI:
  assumes "\<And>P. task_safe P \<Longrightarrow> keeps P m"
    and "\<And>S w r w' i. settled S (db w) \<Longrightarrow> peers w \<Longrightarrow> m w = (r, w') \<Longrightarrow> handed_out r = Some i \<Longrightarrow>
      i \<notin> S \<and> settled (insert i S) (db w')"
  shows "settles m"
  unfolding settles_def using assms(2) settled_keeps [OF assms(1) [OF settled_safe]] by blast

lemma settlesD:
  assumes "settles m" "settled S (db w)" "peers w" "m w = (r, w')"
  shows "settled S (db w')" "peers w'"
    "handed_out r = Some i \<Longrightarrow> i \<notin> S \<and> settled (insert i S) (db w')"
  using assms unfolding settles_def by blast+

lemma settles_hret: "cr_task reply = None \<Longrightarrow> settles (hret reply)"
  by (simp add: settles_def handed_out_def)

lemma settles_hbind:
  assumes m: "\<And>P. task_safe P \<Longrightarrow> keeps P m" and f: "\<And>x. settles (f x)"
  shows "settles (hbind m f)"
  unfolding settles_def
proof (intro allI impI)
  fix S w r w'
  assume S: "settled S (db w)" "peers w" and run: "hbind m f w = (r, w')"
  obtain x w1 where x: "m w = (x, w1)" by fastforce
  from settled_keeps [OF m [OF settled_safe] S x] have S1: "settled S (db w1)" "peers w1" by auto
  show "settled S (db w') \<and> peers w' \<and> (\<forall>i. handed_out r = Some i \<longrightarrow> i \<notin> S \<and> settled (insert i S) (db w'))"
  proof (cases x)
    case (Inl e)
    then show ?thesis using run x S1 by (auto simp: hbind_def handed_out_def)
  next
    case (Inr y)
    then have "f y w1 = (r, w')" using run x by (simp add: hbind_def)
    from settlesD [OF f S1 this] show ?thesis by blast
  qed
qed

lemma settles_claim_resolved: "settles (claim_resolved h actor clk t runner host resolved)"
proof (rule settlesI)
  show "keeps P (claim_resolved h actor clk t runner host resolved)" if "task_safe P" for P
    unfolding claim_resolved_def
    by (intro keeps_intros keeps_claim_task keeps_audit_append task_safe_blind that)
next
  fix S w r w' i
  assume S: "settled S (db w)" "peers w" and out: "handed_out r = Some i"
    and run: "claim_resolved h actor clk t runner host resolved w = (r, w')"
  from out obtain reply where r: "r = Inr reply" by (auto simp: handed_out_def split: sum.splits)
  from run obtain x w1 where x: "claim_task (t_id t) runner host (utc_now (clk 1)) w = (Inr x, w1)"
    unfolding r claim_resolved_def by (elim hbind_InrE call_InrE)
  show "i \<notin> S \<and> settled (insert i S) (db w')"
  proof (cases x)
    case AlreadyClaimed
    then show ?thesis using run x out
      by (auto simp: claim_resolved_def hbind_def call_def hret_def no_task_def handed_out_def)
  next
    case (Claimed u)
    from claim_task_settles [OF S x [unfolded Claimed]]
    have won: "t_id t \<notin> S" "settled (insert (t_id t) S) (db w1)" by auto
    have p1: "peers w1" using settled_keeps [OF keeps_claim_task [OF settled_safe] S x] by simp
    obtain e w2 where e: "ignoring (audit_append h ''claim'' (Some (t_id u))
           (jobj [(''task_id'', jint (t_id u)), (''worker_id'', JStr runner), (''hostname'', JStr host),
                  (''secrets_dispatched'', jstrs (map fst resolved)), (''attribution'', attribution actor)])
           (clk 2)) w1 = (e :: (api_error, unit) res, w2)" by fastforce
    have "settled (insert (t_id t) S) (db w2)"
      using settled_keeps [OF keeps_ignoring [OF keeps_audit_append [OF task_safe_blind [OF settled_safe]]] won(2) p1 e]
      by simp
    moreover have "w' = w2" "i = t_id u"
      using run x Claimed e out by (auto simp: claim_resolved_def hbind_def call_def hret_def ignoring_def
          handed_out_def split: prod.splits sum.splits)
    ultimately show ?thesis using won(1) claim_task_id [OF x [unfolded Claimed]] by simp
  qed
qed

lemma settles_do_claim: "settles (do_claim h actor clk t runner host)"
  unfolding do_claim_def
  by (intro settles_hbind keeps_resolve_secrets settles_claim_resolved)

lemma settles_claim_from: "settles (claim_from h actor clk p r eligible)"
  unfolding claim_from_def
  by (auto intro!: settles_hret settles_do_claim split: prod.split option.split simp: no_task_def)

lemma runner_gate_stops:
  assumes "runner_gate r p w = (Inr (Some reply), w')"
  shows "cr_task reply = None"
  using assms unfolding runner_gate_def Let_def
  by (auto simp: no_task_def elim!: hbind_InrE split: if_splits option.splits)

lemma settles_after_gate:
  assumes "\<And>P. task_safe P \<Longrightarrow> keeps P m" "settles m"
  shows "settles (hbind (runner_gate r p) (\<lambda>stop. case stop of Some reply \<Rightarrow> hret reply | None \<Rightarrow> m))"
proof (rule settlesI)
  show "keeps P (hbind (runner_gate r p) (\<lambda>stop. case stop of Some reply \<Rightarrow> hret reply | None \<Rightarrow> m))"
    if "task_safe P" for P
    by (intro keeps_intros assms(1) that)
next
  fix S w x w' i
  assume S: "settled S (db w)" "peers w" and out: "handed_out x = Some i"
    and run: "hbind (runner_gate r p) (\<lambda>stop. case stop of Some reply \<Rightarrow> hret reply | None \<Rightarrow> m) w = (x, w')"
  obtain s w1 where s: "runner_gate r p w = (s, w1)" by fastforce
  from settled_keeps [OF keeps_runner_gate S s] have S1: "settled S (db w1)" "peers w1" by auto
  consider "s = Inr None" | e where "s = Inl e" | reply where "s = Inr (Some reply)"
    by (metis option.exhaust sum.exhaust)
  then show "i \<notin> S \<and> settled (insert i S) (db w')"
  proof cases
    case 1
    then have "m w1 = (x, w')" using run s by (simp add: hbind_def)
    from settlesD(3) [OF assms(2) S1 this out] show ?thesis .
  next
    case 2
    then show ?thesis using run s out by (auto simp: hbind_def handed_out_def)
  next
    case 3
    then show ?thesis using run s out runner_gate_stops by (fastforce simp: hbind_def hret_def handed_out_def)
  qed
qed

lemma settles_queues:
  "settles (from_loom_queue h actor clk p r)" "settles (from_fabric_queue h actor clk p r)"
  unfolding from_loom_queue_def from_fabric_queue_def
  by (intro settles_hbind settles_claim_from keeps_intros)+

lemma settles_claim_loom: "settles (claim_task_loom h actor clk p)"
  unfolding claim_task_loom_def
  by (intro settles_hbind settles_after_gate settles_queues keeps_intros keeps_queues)

lemma settles_claim_fabric: "settles (claim_task_fabric h actor clk p)"
  unfolding claim_task_fabric_def
  by (intro settles_hbind settles_after_gate settles_queues keeps_intros keeps_queues)

lemma settles_decorate:
  assumes m: "settles m" "\<And>P. task_safe P \<Longrightarrow> keeps P m" and g: "\<And>reply. cr_task (g reply) = cr_task reply"
  shows "settles (hbind m (\<lambda>reply. hret (g reply)))"
proof (rule settlesI)
  show "keeps P (hbind m (\<lambda>reply. hret (g reply)))" if "task_safe P" for P
    by (intro keeps_intros m(2) that)
next
  fix S w x w' i
  assume S: "settled S (db w)" "peers w" and out: "handed_out x = Some i"
    and run: "hbind m (\<lambda>reply. hret (g reply)) w = (x, w')"
  obtain r w1 where r: "m w = (r, w1)" by fastforce
  have "handed_out r = Some i" "w' = w1"
    using run r out g by (auto simp: hbind_def hret_def handed_out_def split: sum.splits)
  then show "i \<notin> S \<and> settled (insert i S) (db w')" using settlesD(3) [OF m(1) S r] by simp
qed

lemma settles_claim_legacy: "settles (claim_task_legacy h actor clk p)"
proof -
  have pick: "settles (case c of Some t \<Rightarrow> do_claim h actor clk t runner host | None \<Rightarrow> hret (no_task a b))"
    for c runner host a b
    by (cases c) (auto intro: settles_do_claim settles_hret simp: no_task_def)
  show ?thesis unfolding claim_task_legacy_def Let_def
    by (intro settles_hbind settles_decorate pick keeps_intros keeps_do_claim keeps_audit_append task_safe_blind)
      simp_all
qed

lemma serve_settles:
  assumes S: "settled S (db w)" "peers w" and run: "serve h actor clk q w = (x, w')"
  shows "settled S (db w') \<and> peers w' \<and> (\<forall>i. x = Some i \<longrightarrow> i \<notin> S \<and> settled (insert i S) (db w'))"
proof (cases q)
  case (Dispatching fresh p)
  obtain r where "dispatch_task_signed h actor clk fresh p w = (r, w')" using run Dispatching by (auto simp: prod_eq_iff)
  from settled_keeps [OF keeps_dispatch_signed [OF settled_safe] S this]
  show ?thesis using run Dispatching by auto
next
  case (ClaimingLoom p)
  obtain r where r: "claim_task_loom h actor clk p w = (r, w')" "x = handed_out r"
    using run ClaimingLoom by (auto split: prod.splits)
  from settlesD [OF settles_claim_loom S r(1)] show ?thesis by (simp add: r(2))
next
  case (ClaimingFabric p)
  obtain r where r: "claim_task_fabric h actor clk p w = (r, w')" "x = handed_out r"
    using run ClaimingFabric by (auto split: prod.splits)
  from settlesD [OF settles_claim_fabric S r(1)] show ?thesis by (simp add: r(2))
next
  case (ClaimingLegacy p)
  obtain r where r: "claim_task_legacy h actor clk p w = (r, w')" "x = handed_out r"
    using run ClaimingLegacy by (auto split: prod.splits)
  from settlesD [OF settles_claim_legacy S r(1)] show ?thesis by (simp add: r(2))
next
  case (Intending i p)
  obtain r where "evaluate_intent_route h actor clk i p w = (r, w')" using run Intending by (auto simp: prod_eq_iff)
  from settled_keeps [OF keeps_intent_route [OF settled_safe] S this]
  show ?thesis using run Intending by auto
qed

lemma hands_out_settles:
  "settled S (db w) \<Longrightarrow> peers w \<Longrightarrow> hands_out h qs w = (js, w') \<Longrightarrow> distinct js \<and> set js \<inter> S = {}"
proof (induction qs arbitrary: S w js)
  case Nil
  then show ?case by simp
next
  case (Cons q qs)
  obtain actor clk c where q: "q = (actor, clk, c)" by (cases q)
  obtain x w1 where x: "serve h actor clk c w = (x, w1)" by fastforce
  obtain ks where ks: "hands_out h qs w1 = (ks, w')" "js = (case x of Some j \<Rightarrow> [j] | None \<Rightarrow> []) @ ks"
    using Cons.prems(3) x by (auto simp: q split: prod.splits)
  note s = serve_settles [OF Cons.prems(1,2) x]
  show ?case
  proof (cases x)
    case None
    then show ?thesis using Cons.IH [OF _ _ ks(1)] s ks(2) by auto
  next
    case (Some i)
    then have "i \<notin> S" "settled (insert i S) (db w1)" "peers w1" using s by auto
    then show ?thesis using Cons.IH [OF _ _ ks(1), of "insert i S"] ks(2) Some by auto
  qed
qed

text \<open>
  C4. Whatever requests reach the task routes of a hub, signed and unsigned claims of both queues and
  dispatches in any order, whatever other hubs and runners do to the queue in between, and whichever
  requests to the store fail: no task is handed to two claims.
\<close>

theorem hub_hands_out_once:
  assumes "settled {} (db w)" "peers w"
  shows "distinct (fst (hands_out h qs w))"
  using hands_out_settles [OF assms, of h qs "fst (hands_out h qs w)" "snd (hands_out h qs w)"] by simp

section \<open>What a claim hands out\<close>

text \<open>The vs go with the names the task asks for, each opened from its stored envelope.\<close>

definition carries_secrets :: "hub \<Rightarrow> db \<Rightarrow> task_row \<Rightarrow> (string \<times> string) list \<Rightarrow> bool" where
  "carries_secrets h d t vs \<longleftrightarrow>
     map fst vs = sort (remdups (opt_default [] (cp_secrets_needed (t_brief t))))
     \<and> (\<forall>(n, v) \<in> set vs. \<exists>s. find_secret n d = Some s \<and> open_secret (hub_broker h) n (s_encrypted_value s) = Inr v)"

definition secret_at_hand :: "hub \<Rightarrow> db \<Rightarrow> string \<Rightarrow> bool" where
  "secret_at_hand h d n \<longleftrightarrow>
     (\<exists>s v. find_secret n d = Some s \<and> open_secret (hub_broker h) n (s_encrypted_value s) = Inr v)"

lemma secret_envelopes_calm:
  "\<exists>es. secret_envelopes names (calm d) = (Inr es, calm d)
     \<and> (\<forall>n. map_of es n = (if n \<in> set names then map_option s_encrypted_value (find_secret n d) else None))"
proof (induction names)
  case Nil
  then show ?case by (simp add: ret_def)
next
  case (Cons m ns)
  then obtain es where es: "secret_envelopes ns (calm d) = (Inr es, calm d)"
    "\<And>n. map_of es n = (if n \<in> set ns then map_option s_encrypted_value (find_secret n d) else None)" by blast
  show ?case
    by (rule exI [of _ "case find_secret m d of Some s \<Rightarrow> (m, s_encrypted_value s) # es | None \<Rightarrow> es"])
      (simp add: es bind_op_def calm_query ret_def split: option.split)
qed

lemma collect_pairs:
  assumes "collect_res f ns = Inr es" "\<And>n e. f n = Inr e \<Longrightarrow> fst e = n"
  shows "map fst es = ns" "e \<in> set es \<Longrightarrow> f (fst e) = Inr e"
proof -
  have l: "list_all2 (\<lambda>n e. f n = Inr e) ns es"
    using assms(1) by (induction ns arbitrary: es) (auto simp: bind_res_Inr_iff)
  then show "map fst es = ns" by (induction rule: list_all2_induct) (auto dest: assms(2))
  show "e \<in> set es \<Longrightarrow> f (fst e) = Inr e"
    using l by (induction rule: list_all2_induct) (auto dest: assms(2))
qed

lemma collect_res_Inl: "collect_res f ns = Inl e \<Longrightarrow> \<exists>n \<in> set ns. f n = Inl e"
proof (induction ns)
  case (Cons n ns)
  then show ?case by (cases "f n"; cases "collect_res f ns") auto
qed simp

lemma map_fst_as_map: "map fst (as_map es) = sort (remdups (map fst es))"
  by (simp add: as_map_def comp_def)

lemma as_map_subset:
  assumes "e \<in> set (as_map es)"
  shows "e \<in> set es"
proof -
  from assms obtain n where n: "n \<in> fst ` set es" "e = (n, the (map_of es n))" by (auto simp: as_map_def)
  then have "map_of es n \<noteq> None" by (simp add: map_of_eq_None_iff)
  then show ?thesis using n(2) by (auto dest: map_of_SomeD)
qed

lemma resolve_secrets_calm:
  obtains r where "resolve_secrets h names (calm d) = (r, calm d)"
    "\<And>vs. r = Inr vs \<Longrightarrow> map fst vs = sort (remdups names) \<and>
       (\<forall>(n, v) \<in> set vs. \<exists>s. find_secret n d = Some s \<and> open_secret (hub_broker h) n (s_encrypted_value s) = Inr v)"
    "\<And>e. r = Inl e \<Longrightarrow> \<exists>n \<in> set names. \<not> secret_at_hand h d n"
proof (cases "names = []")
  case True
  then show thesis using that [of "Inr []"] by (simp add: resolve_secrets_def hret_def)
next
  case False
  obtain es where es: "secret_envelopes names (calm d) = (Inr es, calm d)"
    "\<And>n. map_of es n = (if n \<in> set names then map_option s_encrypted_value (find_secret n d) else None)"
    using secret_envelopes_calm by blast
  have fst_one: "resolve_one (hub_broker h) es n = Inr e \<Longrightarrow> fst e = n" for n e
    by (auto simp: resolve_one_def split: option.splits sum.splits)
  have none: "resolve_one (hub_broker h) es n = Inl e \<Longrightarrow> n \<in> set names \<Longrightarrow> \<not> secret_at_hand h d n" for n e
    by (auto simp: resolve_one_def es(2) secret_at_hand_def split: option.splits sum.splits if_splits)
  have one: "resolve_one (hub_broker h) es n = Inr (n, v) \<Longrightarrow>
      \<exists>s. find_secret n d = Some s \<and> open_secret (hub_broker h) n (s_encrypted_value s) = Inr v" for n v
    by (auto simp: resolve_one_def es(2) split: option.splits sum.splits if_splits)
  let ?c = "collect_res (resolve_one (hub_broker h) es) names"
  have run: "resolve_secrets h names (calm d) = (case ?c of Inl e \<Rightarrow> Inl e | Inr vs \<Rightarrow> Inr (as_map vs), calm d)"
    using False by (simp add: resolve_secrets_def hbind_def call_def es(1) check_def hret_def split: sum.split)
  show thesis
  proof (rule that [OF run])
    show "(case ?c of Inl e \<Rightarrow> Inl e | Inr vs \<Rightarrow> Inr (as_map vs)) = Inl e \<Longrightarrow>
        \<exists>n \<in> set names. \<not> secret_at_hand h d n" for e
      using collect_res_Inl none by (fastforce split: sum.splits)
  next
    fix vs assume "(case ?c of Inl e \<Rightarrow> Inl e | Inr vs \<Rightarrow> Inr (as_map vs)) = Inr vs"
    then obtain es' where es': "?c = Inr es'" "vs = as_map es'" by (auto split: sum.splits)
    have "resolve_one (hub_broker h) es n = Inr (n, v)" if "(n, v) \<in> set vs" for n v
      using collect_pairs(2) [OF es'(1) fst_one, of "(n, v)"] as_map_subset [of "(n, v)"] that es'(2) by simp
    then show "map fst vs = sort (remdups names) \<and>
       (\<forall>(n, v) \<in> set vs. \<exists>s. find_secret n d = Some s \<and> open_secret (hub_broker h) n (s_encrypted_value s) = Inr v)"
      using collect_pairs(1) [OF es'(1) fst_one] one by (auto simp: es'(2) map_fst_as_map)
  qed
qed

definition only_changes :: "task_row \<Rightarrow> task_row \<Rightarrow> db \<Rightarrow> db \<Rightarrow> bool" where
  "only_changes t u d d' \<longleftrightarrow> tasks d' = map (\<lambda>v. if v = t then u else v) (tasks d)"

text \<open>Either the chosen task is claimed for the runner, with its secrets, or the queue is as before.\<close>

definition claim_effect :: "hub \<Rightarrow> db \<Rightarrow> (task_row \<Rightarrow> bool) \<Rightarrow> string \<Rightarrow> string \<Rightarrow> string \<Rightarrow>
    (api_error, claim_reply) res \<Rightarrow> db \<Rightarrow> bool" where
  "claim_effect h d ok runner host now r d' \<longleftrightarrow>
     (case r of
        Inl e \<Rightarrow> tasks d' = tasks d
          \<and> (\<exists>t n. ok t \<and> n \<in> set (opt_default [] (cp_secrets_needed (t_brief t))) \<and> \<not> secret_at_hand h d n)
      | Inr reply \<Rightarrow>
          (case cr_task reply of
             None \<Rightarrow> tasks d' = tasks d
           | Some (u, vs) \<Rightarrow>
               \<exists>t \<in> set (tasks d). t_status t = ''queued'' \<and> \<not> t_cancel_requested t \<and> ok t
                 \<and> u = claimed_row runner host now t \<and> carries_secrets h d t vs \<and> only_changes t u d d'))"

lemma claim_effect_none [simp]:
  "cr_task reply = None \<Longrightarrow> claim_effect h d ok runner host now (Inr reply) d' \<longleftrightarrow> tasks d' = tasks d"
  by (simp_all add: claim_effect_def)

definition empty_handed :: "(api_error, claim_reply) res \<Rightarrow> bool" where
  "empty_handed r \<longleftrightarrow> (case r of Inl e \<Rightarrow> False | Inr reply \<Rightarrow> cr_task reply = None)"

lemma do_claim_calm:
  assumes S: "settled {} d" and t: "t \<in> set (tasks d)" "ok t"
  obtains r d' where "do_claim h actor clk t runner host (calm d) = (r, calm d')"
    "claim_effect h d ok runner host (utc_now (clk 1)) r d'"
    "t_status t = ''queued'' \<Longrightarrow> \<not> t_cancel_requested t \<Longrightarrow> \<not> empty_handed r"
proof -
  let ?now = "utc_now (clk 1)"
  obtain r where r: "resolve_secrets h (opt_default [] (cp_secrets_needed (t_brief t))) (calm d) = (r, calm d)"
    and vals: "\<And>vs. r = Inr vs \<Longrightarrow> carries_secrets h d t vs"
    and none: "\<And>e. r = Inl e \<Longrightarrow>
      \<exists>n \<in> set (opt_default [] (cp_secrets_needed (t_brief t))). \<not> secret_at_hand h d n"
    by (rule resolve_secrets_calm [of h "opt_default [] (cp_secrets_needed (t_brief t))" d])
      (unfold carries_secrets_def, blast)
  have found: "find_task (t_id t) d = Some t"
  proof (cases "find_task (t_id t) d")
    case None
    then show ?thesis using t(1) by (auto simp: find_task_def first_row_None_iff)
  next
    case (Some u)
    then show ?thesis using find_task_the [OF S Some t(1)] by simp
  qed
  show thesis
  proof (cases r)
    case (Inl e)
    then have "do_claim h actor clk t runner host (calm d) = (Inl e, calm d)"
      using r by (simp add: do_claim_def hbind_def)
    then show thesis by (rule that) (use none [OF Inl] t(2) in \<open>auto simp: empty_handed_def claim_effect_def\<close>)
  next
    case (Inr vs)
    show thesis
    proof (cases "t_status t = ''queued'' \<and> \<not> t_cancel_requested t")
      case False
      then have "claim_task (t_id t) runner host ?now (calm d) = (Inr AlreadyClaimed, calm d)"
        using claim_task_calm [OF S] found by simp
      then have "do_claim h actor clk t runner host (calm d) =
          (Inr (no_task ''no_eligible_runner'' [(''detail'', JStr ''lost_claim_race'')]), calm d)"
        using r Inr by (simp add: do_claim_def claim_resolved_def hbind_def call_def hret_def)
      then show thesis by (rule that) (use False in \<open>auto simp: no_task_def\<close>)
    next
      case True
      let ?u = "claimed_row runner host ?now t"
      let ?d1 = "d\<lparr>tasks := map (\<lambda>v. if v = t then ?u else v) (tasks d)\<rparr>"
      have c: "claim_task (t_id t) runner host ?now (calm d) = (Inr (Claimed ?u), calm ?d1)"
        using claim_task_calm [OF S] found True by simp
      obtain d' where a: "ignoring (audit_append h ''claim'' (Some (t_id ?u))
           (jobj [(''task_id'', jint (t_id ?u)), (''worker_id'', JStr runner), (''hostname'', JStr host),
                  (''secrets_dispatched'', jstrs (map fst vs)), (''attribution'', attribution actor)])
           (clk 2)) (calm ?d1) = (Inr () :: (api_error, unit) res, calm d')" "same_but_audit ?d1 d'"
        by (rule calm_ignoring_audit)
      have "do_claim h actor clk t runner host (calm d) =
          (Inr \<lparr>cr_task = Some (?u, vs), cr_info = [(''reason'', JStr ''claimed'')]\<rparr>, calm d')"
        using r Inr c a(1) by (simp add: do_claim_def claim_resolved_def hbind_def call_def hret_def)
      moreover have "only_changes t ?u d d'"
        using same_but_auditD(1) [OF a(2)] by (simp add: only_changes_def)
      ultimately show thesis
        using that t True vals [OF Inr] by (fastforce simp: claim_effect_def empty_handed_def)
    qed
  qed
qed

definition claim_view :: "claim_payload \<Rightarrow> runner_view" where
  "claim_view p = runner_view_from_raw (cl_scope_prefixes p) (cl_tools p) (cl_tags p) (cl_tenant p)
     (cl_workspace_root p) (cl_last_known_commit p)"

lemma claim_from_none:
  assumes "eligible = [] \<or> fst (pick_task (map build_candidate eligible) (claim_view p)) = None"
  obtains reply where "claim_from h actor clk p r eligible w = (Inr reply, w)" "cr_task reply = None"
proof (cases "eligible = []")
  case True
  then show thesis using that by (simp add: claim_from_def no_task_def hret_def)
next
  case False
  then obtain seen where "pick_task (map build_candidate eligible) (claim_view p) = (None, seen)"
    using assms by (metis prod.collapse)
  then show thesis using that False by (simp add: claim_from_def claim_view_def no_task_def hret_def)
qed

lemma claim_from_calm:
  assumes S: "settled {} d" and e: "\<And>t. t \<in> set eligible \<Longrightarrow>
      t \<in> set (tasks d) \<and> t_status t = ''queued'' \<and> \<not> t_cancel_requested t \<and> ok t"
  obtains x d' where "claim_from h actor clk p r eligible (calm d) = (x, calm d')"
    "claim_effect h d (\<lambda>t. ok t \<and> matches (build_candidate t) (claim_view p)) (cl_runner_id p)
       (rp_hostname (rn_payload r)) (utc_now (clk 1)) x d'"
    "empty_handed x \<longrightarrow> \<not> (\<exists>t \<in> set eligible. matches (build_candidate t) (claim_view p))"
proof (cases "eligible = [] \<or> fst (pick_task (map build_candidate eligible) (claim_view p)) = None")
  case True
  then obtain reply where "claim_from h actor clk p r eligible (calm d) = (Inr reply, calm d)" "cr_task reply = None"
    by (rule claim_from_none)
  moreover have "\<not> (\<exists>t \<in> set eligible. matches (build_candidate t) (claim_view p))"
    using True by (auto simp: pick_task_eq find_index_None_iff split: option.splits)
  ultimately show thesis using that by simp
next
  case False
  then obtain i seen where i: "pick_task (map build_candidate eligible) (claim_view p) = (Some i, seen)"
    by (metis prod.collapse option.exhaust)
  then have "find_index (\<lambda>t. matches t (claim_view p)) (map build_candidate eligible) = Some i"
    by (auto simp: pick_task_eq split: option.splits)
  from find_index_SomeD [OF this] have n: "i < length eligible" "matches (build_candidate (eligible ! i)) (claim_view p)"
    by auto
  then have t: "eligible ! i \<in> set (tasks d)" "ok (eligible ! i)" "t_status (eligible ! i) = ''queued''"
    "\<not> t_cancel_requested (eligible ! i)" using e by auto
  obtain x d' where "do_claim h actor clk (eligible ! i) (cl_runner_id p) (rp_hostname (rn_payload r)) (calm d)
      = (x, calm d')" "claim_effect h d (\<lambda>t. ok t \<and> matches (build_candidate t) (claim_view p)) (cl_runner_id p)
       (rp_hostname (rn_payload r)) (utc_now (clk 1)) x d'" "\<not> empty_handed x"
    by (rule do_claim_calm [OF S t(1), where ok = "\<lambda>t. ok t \<and> matches (build_candidate t) (claim_view p)"])
      (use t n in auto)
  moreover have "claim_from h actor clk p r eligible = do_claim h actor clk (eligible ! i) (cl_runner_id p)
      (rp_hostname (rn_payload r))"
    using False i by (simp add: claim_from_def claim_view_def)
  ultimately show thesis using that by simp
qed

definition page :: "string \<Rightarrow> int \<Rightarrow> db \<Rightarrow> task_row list" where
  "page s n d = sql_limit n (filter (\<lambda>t. t_status t = s) (tasks_newest_first d))"

lemma list_tasks_calm: "list_tasks (Some s) n (calm d) = (Inr (page s n d), calm d)"
  by (simp add: list_tasks_def page_def calm_simps)

lemma in_page: "t \<in> set (page s n d) \<Longrightarrow> t \<in> set (tasks d) \<and> t_status t = s"
  unfolding page_def sql_limit_def by (auto simp: tasks_newest_first_def dest: in_set_takeD split: if_splits)

text \<open>Who may claim from a queue: the registered runner whose key made the signature.\<close>

definition claimant :: "hub \<Rightarrow> int \<Rightarrow> string \<Rightarrow> claim_payload \<Rightarrow> db \<Rightarrow> runner_row \<Rightarrow> bool" where
  "claimant h clock kind p d x \<longleftrightarrow>
     check_skew (cl_timestamp p) clock = Inr () \<and> find_runner (cl_runner_id p) d = Some x
     \<and> verify_sig h (rn_public_key x) (claim_envelope p) (cl_signature p) = Inr () \<and> kind \<in> set (rn_kinds x)"

text \<open>And when the hub looks at the queue for it at all.\<close>

definition has_room :: "claim_payload \<Rightarrow> db \<Rightarrow> runner_row \<Rightarrow> bool" where
  "has_room p d x \<longleftrightarrow>
     \<not> rn_drain_requested x
     \<and> runner_load (cl_runner_id p) (page ''claimed'' 200 d @ page ''running'' 200 d) < rp_max_concurrent (rn_payload x)
     \<and> \<not> (\<exists>ram. cl_ram_free_mb p = Some ram \<and> ram < 512)"

lemma get_runner_calm:
  "get_runner i (calm d) =
     (case find_runner i d of None \<Rightarrow> (Inl (NotFound (''runner '' @ i)), calm d) | Some x \<Rightarrow> (Inr x, calm d))"
  by (simp add: get_runner_def calm_simps bind_op_def ret_def fail_def split: option.split)

lemma verify_claim_calm:
  obtains r where "verify_claim h clk kind refusal p (calm d) = (r, calm d)"
    "\<And>x. r = Inr x \<longleftrightarrow> claimant h (clk 0) kind p d x"
proof -
  note run = verify_claim_def hbind_def check_def call_def get_runner_calm runner_public_key_def calm_query
    hret_def hfail_def claimant_def
  have one: "\<exists>r. verify_claim h clk kind refusal p (calm d) = (r, calm d)
      \<and> (\<forall>x. r = Inr x \<longleftrightarrow> claimant h (clk 0) kind p d x)"
  proof (cases "check_skew (cl_timestamp p) (clk 0)")
    case (Inl e)
    then show ?thesis by (simp add: run)
  next
    case skew: (Inr u)
    show ?thesis
    proof (cases "find_runner (cl_runner_id p) d")
      case None
      then show ?thesis using skew by (simp add: run)
    next
      case (Some x)
      then show ?thesis
        using skew by (cases "verify_sig h (rn_public_key x) (claim_envelope p) (cl_signature p)") (auto simp: run)
    qed
  qed
  then show thesis using that by blast
qed

lemma runner_gate_calm:
  obtains stop where "runner_gate x p (calm d) = (Inr stop, calm d)" "stop = None \<longleftrightarrow> has_room p d x"
    "\<And>reply. stop = Some reply \<Longrightarrow> cr_task reply = None"
proof -
  have "\<exists>stop. runner_gate x p (calm d) = (Inr stop, calm d) \<and> (stop = None \<longleftrightarrow> has_room p d x)"
    by (auto simp: runner_gate_def has_room_def Let_def hbind_def or_default_def list_tasks_calm hret_def not_less
        split: option.split)
  then show thesis using that runner_gate_stops by blast
qed

datatype task_queue = LoomQueue | FabricQueue

fun signed_claim :: "task_queue \<Rightarrow> hub \<Rightarrow> auth_context \<Rightarrow> (nat \<Rightarrow> int) \<Rightarrow> claim_payload \<Rightarrow>
    (api_error, claim_reply) handler" where
  "signed_claim LoomQueue = claim_task_loom"
| "signed_claim FabricQueue = claim_task_fabric"

fun queue_kind :: "task_queue \<Rightarrow> string" where
  "queue_kind LoomQueue = ''command''"
| "queue_kind FabricQueue = ''agent''"

fun runnable :: "task_queue \<Rightarrow> db \<Rightarrow> string \<Rightarrow> task_row \<Rightarrow> bool" where
  "runnable LoomQueue d i t = True"
| "runnable FabricQueue d i t = can_run_dispatch (filter (\<lambda>c. cap_runner_id c = i) (runner_capabilities d)) t"


lemma can_run_dispatch_set: "set cs = set cs' \<Longrightarrow> can_run_dispatch cs = can_run_dispatch cs'"
  by (simp add: can_run_dispatch_def fun_eq_iff list_ex_iff)

text \<open>The tasks of the queue such a runner may be given.\<close>

definition offered :: "task_queue \<Rightarrow> claim_payload \<Rightarrow> db \<Rightarrow> task_row \<Rightarrow> bool" where
  "offered q p d t \<longleftrightarrow>
     t \<in> set (page ''queued'' 50 d) \<and> \<not> t_cancel_requested t \<and> cp_kind (t_brief t) = queue_kind q
     \<and> runnable q d (cl_runner_id p) t"

lemma from_loom_calm:
  obtains eligible where "\<And>t. t \<in> set eligible \<longleftrightarrow> offered LoomQueue p d t"
    "from_loom_queue h actor clk p x (calm d) = claim_from h actor clk p x eligible (calm d)"
  by (rule that [of "filter (\<lambda>t. \<not> t_cancel_requested t \<and> cp_kind (t_brief t) = ''command'') (page ''queued'' 50 d)"])
    (auto simp: from_loom_queue_def hbind_def call_def list_tasks_calm offered_def)

lemma from_fabric_calm:
  obtains eligible where "\<And>t. t \<in> set eligible \<longleftrightarrow> offered FabricQueue p d t"
    "from_fabric_queue h actor clk p x (calm d) = claim_from h actor clk p x eligible (calm d)"
proof -
  let ?cs = "sort_key (\<lambda>c. (cap_kind c, cap_name c)) (filter (\<lambda>c. cap_runner_id c = cl_runner_id p) (runner_capabilities d))"
  have "can_run_dispatch ?cs = can_run_dispatch (filter (\<lambda>c. cap_runner_id c = cl_runner_id p) (runner_capabilities d))"
    by (rule can_run_dispatch_set) simp
  then show thesis
    by (intro that [of "filter (can_run_dispatch ?cs)
        (filter (\<lambda>t. \<not> t_cancel_requested t \<and> cp_kind (t_brief t) = ''agent'') (page ''queued'' 50 d))"])
      (auto simp: from_fabric_queue_def hbind_def call_def or_default_def list_tasks_calm capabilities_of_def
        calm_query offered_def)
qed

text \<open>What a claim may do: the answer and the tasks after it.\<close>

definition claim_answer :: "task_queue \<Rightarrow> hub \<Rightarrow> (nat \<Rightarrow> int) \<Rightarrow> claim_payload \<Rightarrow> db \<Rightarrow>
    (api_error, claim_reply) res \<Rightarrow> db \<Rightarrow> bool" where
  "claim_answer q h clk p d r d' \<longleftrightarrow>
     (case r of
        Inl e \<Rightarrow> tasks d' = tasks d \<and> (\<forall>x. claimant h (clk 0) (queue_kind q) p d x \<longrightarrow> has_room p d x \<and>
          (\<exists>t n. offered q p d t \<and> matches (build_candidate t) (claim_view p)
             \<and> n \<in> set (opt_default [] (cp_secrets_needed (t_brief t))) \<and> \<not> secret_at_hand h d n))
      | Inr reply \<Rightarrow>
          (\<exists>x. claimant h (clk 0) (queue_kind q) p d x
             \<and> (case cr_task reply of
                  None \<Rightarrow> tasks d' = tasks d
                    \<and> (has_room p d x \<longrightarrow> \<not> (\<exists>t. offered q p d t \<and> matches (build_candidate t) (claim_view p)))
                | Some (u, vs) \<Rightarrow> has_room p d x
                    \<and> (\<exists>t \<in> set (tasks d). offered q p d t \<and> matches (build_candidate t) (claim_view p)
                         \<and> u = claimed_row (cl_runner_id p) (rp_hostname (rn_payload x)) (utc_now (clk 1)) t
                         \<and> carries_secrets h d t vs
                         \<and> tasks d' = map (\<lambda>v. if v = t then u else v) (tasks d)))))"

lemma guarded_claim_calm:
  assumes S: "settled {} d"
    and from_queue: "\<And>x. \<exists>eligible. (\<forall>t. t \<in> set eligible \<longleftrightarrow> offered q p d t)
      \<and> m x (calm d) = claim_from h actor clk p x eligible (calm d)"
  obtains r d' where "hbind (verify_claim h clk (queue_kind q) refusal p) (\<lambda>x. hbind (runner_gate x p) (\<lambda>stop.
       case stop of Some reply \<Rightarrow> hret reply | None \<Rightarrow> m x)) (calm d) = (r, calm d')"
    "claim_answer q h clk p d r d'"
proof -
  obtain v where v: "verify_claim h clk (queue_kind q) refusal p (calm d) = (v, calm d)"
    "\<And>x. v = Inr x \<longleftrightarrow> claimant h (clk 0) (queue_kind q) p d x"
    by (rule verify_claim_calm [of h clk "queue_kind q" refusal p d]) blast
  show thesis
  proof (cases v)
    case (Inl e)
    then have "\<not> claimant h (clk 0) (queue_kind q) p d x" for x using v(2) by auto
    then show thesis using Inl by (intro that) (auto simp: hbind_def v(1) claim_answer_def)
  next
    case (Inr x)
    then have x: "claimant h (clk 0) (queue_kind q) p d x" using v(2) by blast
    obtain stop where stop: "runner_gate x p (calm d) = (Inr stop, calm d)" "stop = None \<longleftrightarrow> has_room p d x"
      "\<And>reply. stop = Some reply \<Longrightarrow> cr_task reply = None" by (rule runner_gate_calm [of x p d]) blast
    show thesis
    proof (cases stop)
      case (Some reply)
      then have "cr_task reply = None" "\<not> has_room p d x" using stop by auto
      then show thesis
        using x Some Inr by (intro that) (auto simp: hbind_def hret_def v(1) stop(1) claim_answer_def)
    next
      case None
      then have room: "has_room p d x" using stop(2) by simp
      obtain eligible where e: "\<And>t. t \<in> set eligible \<longleftrightarrow> offered q p d t"
        "m x (calm d) = claim_from h actor clk p x eligible (calm d)" using from_queue by blast
      have in_queue: "t \<in> set eligible \<Longrightarrow>
          t \<in> set (tasks d) \<and> t_status t = ''queued'' \<and> \<not> t_cancel_requested t \<and> offered q p d t" for t
        using e(1) [of t] in_page [of t "''queued''" 50 d] by (simp add: offered_def)
      obtain r d' where r: "claim_from h actor clk p x eligible (calm d) = (r, calm d')"
        "claim_effect h d (\<lambda>t. offered q p d t \<and> matches (build_candidate t) (claim_view p)) (cl_runner_id p)
           (rp_hostname (rn_payload x)) (utc_now (clk 1)) r d'"
        "empty_handed r \<longrightarrow> \<not> (\<exists>t \<in> set eligible. matches (build_candidate t) (claim_view p))"
        by (rule claim_from_calm [where h = h and actor = actor and clk = clk and p = p and r = x, OF S in_queue])
      have "claim_answer q h clk p d r d'"
      proof (cases r)
        case (Inl e)
        have only: "claimant h (clk 0) (queue_kind q) p d y \<Longrightarrow> y = x" for y using x by (simp add: claimant_def)
        show ?thesis using Inl r(2) room only by (fastforce simp: claim_answer_def claim_effect_def)
      next
        case r': (Inr reply)
        show ?thesis
        proof (cases "cr_task reply")
          case None
          then have "tasks d' = tasks d" "\<not> (\<exists>t. offered q p d t \<and> matches (build_candidate t) (claim_view p))"
            using r(2,3) r' e(1) by (auto simp: empty_handed_def)
          then show ?thesis using x None r' by (auto simp: claim_answer_def)
        next
          case (Some y)
          obtain u vs where y: "y = (u, vs)" by (cases y)
          show ?thesis
            using r(2) x room r' Some by (fastforce simp: y claim_answer_def claim_effect_def only_changes_def)
        qed
      qed
      moreover have "hbind (verify_claim h clk (queue_kind q) refusal p) (\<lambda>x. hbind (runner_gate x p) (\<lambda>stop.
          case stop of Some reply \<Rightarrow> hret reply | None \<Rightarrow> m x)) (calm d) = (r, calm d')"
        using r(1) e(2) Inr None by (simp add: hbind_def v(1) stop(1))
      ultimately show thesis using that by blast
    qed
  qed
qed

lemma signed_claim_calm:
  assumes S: "settled {} d"
  obtains r d' where "signed_claim q h actor clk p (calm d) = (r, calm d')" "claim_answer q h clk p d r d'"
proof (cases q)
  case LoomQueue
  have e: "\<exists>eligible. (\<forall>t. t \<in> set eligible \<longleftrightarrow> offered LoomQueue p d t)
      \<and> from_loom_queue h actor clk p x (calm d) = claim_from h actor clk p x eligible (calm d)" for x
    by (rule from_loom_calm [of p d h actor clk x]) blast
  show thesis
    using guarded_claim_calm [where q = LoomQueue and m = "from_loom_queue h actor clk p" and p = p and d = d
        and h = h and actor = actor and clk = clk and thesis = thesis
        and refusal = "''runner is not registered as a Loom (command) runner''", OF S e] that
    by (simp add: LoomQueue claim_task_loom_def)
next
  case FabricQueue
  have e: "\<exists>eligible. (\<forall>t. t \<in> set eligible \<longleftrightarrow> offered FabricQueue p d t)
      \<and> from_fabric_queue h actor clk p x (calm d) = claim_from h actor clk p x eligible (calm d)" for x
    by (rule from_fabric_calm [of p d h actor clk x]) blast
  show thesis
    using guarded_claim_calm [where q = FabricQueue and m = "from_fabric_queue h actor clk p" and p = p and d = d
        and h = h and actor = actor and clk = clk and thesis = thesis
        and refusal = "''runner is not registered as a Fabric (agent) runner''", OF S e] that
    by (simp add: FabricQueue claim_task_fabric_def)
qed

text \<open>
  C8. The outcome of a signed claim that nobody disturbs, of either queue. A task is handed out only to
  the registered runner whose key signed the claim, of the kind of the queue, not draining and below
  its concurrency; it is one of the newest fifty queued tasks, of that kind, not cancelled, runnable by the
  capabilities on record, and it matches the view the runner gives of itself. The answer carries the
  task as the store now has it, claimed for this runner and its host, with the values of exactly the
  secrets it names, and no other task changes. In every other case no task changes at all; a
  claimant is refused with an error only over a secret that cannot be had, and one with room goes
  away without a task only when none of the offered tasks matches. All this holds whatever nonce the
  claim carries and however often it was served before: the route signs the nonce but neither looks it up
  nor records it (\<open>claim_replayed\<close>), unlike what the documentation says of runner claims.
\<close>

theorem signed_claim_outcome:
  assumes S: "settled {} d" and run: "signed_claim q h actor clk p (calm d) = (r, w')"
  shows "(case r of
      Inl e \<Rightarrow> tasks (db w') = tasks d \<and> (\<forall>x. claimant h (clk 0) (queue_kind q) p d x \<longrightarrow> has_room p d x \<and>
        (\<exists>t n. offered q p d t \<and> matches (build_candidate t) (claim_view p)
           \<and> n \<in> set (opt_default [] (cp_secrets_needed (t_brief t))) \<and> \<not> secret_at_hand h d n))
    | Inr reply \<Rightarrow>
        (\<exists>x. claimant h (clk 0) (queue_kind q) p d x
           \<and> (case cr_task reply of
                None \<Rightarrow> tasks (db w') = tasks d
                  \<and> (has_room p d x \<longrightarrow> \<not> (\<exists>t. offered q p d t \<and> matches (build_candidate t) (claim_view p)))
              | Some (u, vs) \<Rightarrow> has_room p d x
                  \<and> (\<exists>t \<in> set (tasks d). offered q p d t \<and> matches (build_candidate t) (claim_view p)
                       \<and> u = claimed_row (cl_runner_id p) (rp_hostname (rn_payload x)) (utc_now (clk 1)) t
                       \<and> carries_secrets h d t vs
                       \<and> tasks (db w') = map (\<lambda>v. if v = t then u else v) (tasks d)))))"
proof -
  obtain r0 d' where "signed_claim q h actor clk p (calm d) = (r0, calm d')" "claim_answer q h clk p d r0 d'"
    by (rule signed_claim_calm [OF S])
  moreover from this run have "r = r0" "d' = db w'" by auto
  ultimately show ?thesis by (simp add: claim_answer_def)
qed

text \<open>
  A signed claim can be served again. Whether it is served depends on the runner, its key, the time and the
  queue; no list of used nonces is asked or kept, so the same bytes within the window of the clock take
  another task as soon as one is offered.
\<close>

lemma claim_replayed:
  assumes "settled {} d" "claimant h (clk 0) (queue_kind q) p d x" "has_room p d x"
    and "offered q p d t" "matches (build_candidate t) (claim_view p)"
    and "\<forall>u. offered q p d u \<longrightarrow> opt_default [] (cp_secrets_needed (t_brief u)) = []"
  shows "\<exists>reply u w. signed_claim q h actor clk p (calm (d\<lparr>runner_nonces := ns\<rparr>)) = (Inr reply, w)
    \<and> map_option fst (cr_task reply) = Some u"
proof -
  let ?d = "d\<lparr>runner_nonces := ns\<rparr>"
  have S: "settled {} ?d" using assms(1) by (simp add: settled_def)
  have "runnable q ?d i u \<longleftrightarrow> runnable q d i u" for i u by (cases q) simp_all
  then have same: "claimant h c k p ?d y \<longleftrightarrow> claimant h c k p d y" "has_room p ?d y \<longleftrightarrow> has_room p d y"
    "offered q p ?d u \<longleftrightarrow> offered q p d u" for c k y u
    by (simp_all add: claimant_def find_runner_def has_room_def offered_def page_def tasks_newest_first_def)
  obtain r d' where r: "signed_claim q h actor clk p (calm ?d) = (r, calm d')" "claim_answer q h clk p ?d r d'"
    by (rule signed_claim_calm [OF S])
  have one: "claimant h (clk 0) (queue_kind q) p d y \<Longrightarrow> y = x" for y using assms(2) by (simp add: claimant_def)
  note answer = r(2) [unfolded claim_answer_def same]
  show ?thesis
  proof (cases r)
    case (Inl e)
    then have "\<exists>u n. offered q p d u \<and> n \<in> set (opt_default [] (cp_secrets_needed (t_brief u)))"
      using answer assms(2) by (simp add: Inl) blast
    then show ?thesis using assms(6) by auto
  next
    case (Inr reply)
    have "cr_task reply \<noteq> None"
    proof
      assume "cr_task reply = None"
      then obtain y where "claimant h (clk 0) (queue_kind q) p d y"
        "has_room p d y \<longrightarrow> \<not> (\<exists>t. offered q p d t \<and> matches (build_candidate t) (claim_view p))"
        using answer Inr by auto
      then show False using one assms(3-5) by blast
    qed
    then show ?thesis using r(1) Inr by (cases "cr_task reply") auto
  qed
qed

section \<open>A claim to look at\<close>

definition demo_runner :: runner_row where
  "demo_runner =
     \<lparr>rn_runner_id = ''r'', rn_public_key = replicate 32 (CHR ''k''),
      rn_payload = StoreFleet.demo_payload ''r'' ''k'', rn_kinds = [''command''], rn_mcp_manifest_version = 0,
      rn_state = ''online'', rn_drain_requested = False, rn_last_known_commit = None, rn_first_seen = [],
      rn_last_heartbeat = [], rn_last_nonce = None, rn_claim_failures_total = 0,
      rn_claim_failures_consecutive = 0, rn_last_claim_error = None, rn_heartbeat_failures_total = 0\<rparr>"

definition demo_claim :: claim_payload where
  "demo_claim =
     \<lparr>cl_runner_id = ''r'', cl_scope_prefixes = [], cl_tools = [], cl_tags = [], cl_tenant = None,
      cl_workspace_root = None, cl_last_known_commit = None, cl_ram_free_mb = None, cl_timestamp = 1000,
      cl_nonce = ''n'', cl_signature = replicate 64 (CHR ''s'')\<rparr>"

definition demo_queue :: db where
  "demo_queue = (demo_db ''queued'')\<lparr>runners := [demo_runner]\<rparr>"

definition demo_task :: task_row where
  "demo_task = new_task (demo_params\<lparr>cp_initial_status := Some ''queued''\<rparr>) ''now'' 1"

lemma demo_queue_tasks: "tasks demo_queue = [demo_task]"
  by (simp add: demo_queue_def demo_db_def insert_task_def empty_db_def demo_task_def)

lemma settled_demo_queue: "settled {} demo_queue"
  using settled_demo [of "''queued''"] by (simp add: demo_queue_def settled_def)

lemma demo_claimant: "claimant demo_hub 1000 ''command'' demo_claim demo_queue demo_runner"
proof -
  have "check_skew (cl_timestamp demo_claim) 1000 = Inr ()"
    by (simp add: check_skew_def demo_claim_def) code_simp
  moreover have "verify_sig demo_hub (rn_public_key demo_runner) (claim_envelope demo_claim)
      (cl_signature demo_claim) = Inr ()"
    by (simp add: verify_sig_def verify_envelope_hex_def verify_signature_hex_def decode_hex_fixed_def
        demo_hub_def toy_crypto_def demo_runner_def demo_claim_def)
  ultimately show ?thesis
    by (simp add: claimant_def find_runner_def first_row_def demo_queue_def demo_claim_def)
      (simp add: demo_runner_def)
qed

lemma demo_task_fields:
  "t_status demo_task = ''queued''" "\<not> t_cancel_requested demo_task" "cp_kind (t_brief demo_task) = ''command''"
  "cp_secrets_needed (t_brief demo_task) = None" "t_id demo_task = 1"
  by (simp_all add: demo_task_def new_task_def demo_params_def)

lemma demo_offered: "offered LoomQueue demo_claim demo_queue t \<longleftrightarrow> t = demo_task"
  by (auto simp: offered_def page_def tasks_newest_first_def demo_queue_tasks demo_task_fields sql_limit_def)

lemma demo_matches: "matches (build_candidate demo_task) (claim_view demo_claim)"
  by (simp add: matches_def build_candidate_def claim_view_def runner_view_from_raw_def demo_claim_def
      demo_task_def new_task_def demo_params_def scopes_within_def has_all_ignoring_case_def)

lemma demo_room: "has_room demo_claim demo_queue demo_runner"
  by (simp add: has_room_def page_def tasks_newest_first_def demo_queue_tasks demo_task_fields runner_load_def
      demo_runner_def demo_claim_def StoreFleet.demo_payload_def sql_limit_def)

lemma signed_claim_outcome_witness:
  "tasks (db (snd (signed_claim LoomQueue demo_hub demo_actor (\<lambda>_. 1000) demo_claim (calm demo_queue))))
     = [claimed_row ''r'' ''h'' (utc_now 1000) demo_task]"
proof -
  obtain r w' where run: "signed_claim LoomQueue demo_hub demo_actor (\<lambda>_. 1000) demo_claim (calm demo_queue) = (r, w')"
    by fastforce
  have one: "claimant demo_hub 1000 ''command'' demo_claim demo_queue x \<longleftrightarrow> x = demo_runner" for x
    using demo_claimant by (auto simp: claimant_def)
  have f: "cl_runner_id demo_claim = ''r''" "rp_hostname (rn_payload demo_runner) = ''h''"
    by (simp_all add: demo_claim_def demo_runner_def StoreFleet.demo_payload_def)
  from signed_claim_outcome [OF settled_demo_queue run]
  have "tasks (db w') = [claimed_row ''r'' ''h'' (utc_now 1000) demo_task]"
    by (auto simp: one f demo_offered demo_matches demo_room demo_queue_tasks demo_task_fields
        split: sum.splits option.splits)
  then show ?thesis by (simp only: run snd_conv)
qed

lemma hub_hands_out_once_witness:
  "distinct (fst (hands_out demo_hub
     [(demo_actor, \<lambda>_. 1000, ClaimingLoom demo_claim), (demo_actor, \<lambda>_. 1001, ClaimingLoom demo_claim)]
     \<lparr>db = demo_queue,
      script = [\<lparr>turn_env = \<lambda>d. snd (claim_stmt 1 ''other'' ''h'' ''n'' d), turn_reply = Answered\<rparr>]\<rparr>))"
  by (rule hub_hands_out_once)
    (auto simp: peers_by_def settled_demo_queue intro: r_into_rtranclp Claim)

section \<open>The list of waiting tasks\<close>

text \<open>
  The list of waiting tasks is lost to everyone as long as one queued task asks for a capability with a
  lone quotation mark and one runner is online: evaluating the predicate panics.
\<close>

lemma waiting_among_panics:
  assumes "t \<in> set ts" "opt_default [] (cp_required_capabilities (t_brief t)) = before @ lone_quote # after" "rs \<noteq> []"
  shows "waiting_among ce rs ts = None"
  using assms(1)
proof (induction ts)
  case (Cons u us)
  obtain x xs where rs: "rs = x # xs" using assms(3) by (cases rs) auto
  show ?case
  proof (cases "t = u")
    case True
    then show ?thesis
      using assms(2) lone_quote_panics [of ce before after] by (cases before) (simp_all add: rs)
  next
    case False
    then have "waiting_among ce rs us = None" using Cons by simp
    then show ?thesis
      by (auto split: list.split option.split simp: bind_eq_None_conv)
  qed
qed simp

end
