(* ===== verification/HubApprovals.thy ===== *)
theory HubApprovals
  imports HubDispatch
begin

text \<open>
  The approval routes of the hub (\<^verbatim>\<open>crates/fabric-hub/src/routes/approvals.rs\<close>): the inbox, the
  decisions of the built-in pane, and the read that brings in a decision taken in ForgeLink.
\<close>

section \<open>Routes\<close>

record decision_payload =
  dc_approver :: "string option"
  dc_reason :: "string option"

definition approval_statuses :: "string list" where
  "approval_statuses = [''pending'', ''approved'', ''denied'', ''consumed'']"

definition list_approvals_route :: "string option \<Rightarrow> int option \<Rightarrow> (nat \<times> string, approval_row list) handler" where
  "list_approvals_route status limit =
     (if status \<noteq> None \<and> the status \<notin> set approval_statuses then
        hfail (400, ''status must be one of pending|approved|denied|consumed'')
      else call internal (list_approvals status (opt_default 200 limit)))"

definition approval_errors :: "store_error \<Rightarrow> nat \<times> string" where
  "approval_errors e =
     (case e of
        NotFound _ \<Rightarrow> (404, ''approval not found'') | Conflict m \<Rightarrow> (409, m) | _ \<Rightarrow> internal e)"

text \<open>What a decision adds to the record of its task.\<close>

definition approval_evidence :: "string \<Rightarrow> string \<Rightarrow> jv \<Rightarrow> string option \<Rightarrow> string \<Rightarrow> jv" where
  "approval_evidence status now why approver i =
     jobj [(''stage'', JStr ''approval''), (''at'', JStr now), (''allowed'', JBool (status = ''approved'')),
           (''denied'', JBool (status = ''denied'')), (''needs_approval'', JBool False), (''reasons'', why),
           (''context'', jobj [(''approval_id'', JStr i), (''approver'', jopt JStr approver),
                               (''status'', JStr status)])]"

definition note_decision :: "hub \<Rightarrow> auth_context \<Rightarrow> (nat \<Rightarrow> int) \<Rightarrow> string \<Rightarrow> string \<Rightarrow> string \<Rightarrow>
    decision_payload \<Rightarrow> approval_row \<Rightarrow> (nat \<times> string, approval_row) handler" where
  "note_decision h actor clk status event i p row =
     hbind (call internal (record_task_approval_decision i
       (approval_evidence status (utc_now (clk 0)) (jopt JStr (dc_reason p)) (dc_approver p) i)
       (status = ''approved''))) (\<lambda>t.
     hbind (ignoring (audit_append h event (map_option t_id t)
       (jobj [(''approval_id'', JStr i), (''approver'', jopt JStr (dc_approver p)),
              (''attribution'', attribution actor)]) (clk 1))) (\<lambda>_.
     hret row))"

definition decide_approval :: "hub \<Rightarrow> auth_context \<Rightarrow> (nat \<Rightarrow> int) \<Rightarrow> string \<Rightarrow> string \<Rightarrow> string \<Rightarrow>
    decision_payload \<Rightarrow> (nat \<times> string, approval_row) handler" where
  "decide_approval h actor clk status event i p =
     hbind (call approval_errors
       (resolve_approval i status (dc_approver p) (dc_reason p) (utc_now (clk 0))))
       (note_decision h actor clk status event i p)"

definition approve_approval :: "hub \<Rightarrow> auth_context \<Rightarrow> (nat \<Rightarrow> int) \<Rightarrow> string \<Rightarrow> decision_payload \<Rightarrow>
    (nat \<times> string, approval_row) handler" where
  "approve_approval h actor clk = decide_approval h actor clk ''approved'' ''approval_approved''"

definition deny_approval :: "hub \<Rightarrow> auth_context \<Rightarrow> (nat \<Rightarrow> int) \<Rightarrow> string \<Rightarrow> decision_payload \<Rightarrow>
    (nat \<times> string, approval_row) handler" where
  "deny_approval h actor clk = decide_approval h actor clk ''denied'' ''approval_denied''"

section \<open>Reading an approval\<close>

fun decision_words :: "forgelink_decision \<Rightarrow> string \<times> string" where
  "decision_words Approved = (''approved'', ''approved in ForgeLink'')"
| "decision_words Denied = (''denied'', ''denied in ForgeLink'')"

text \<open>A decision taken in ForgeLink is written back as if it had been taken here.\<close>

definition sync_decision :: "hub \<Rightarrow> auth_context \<Rightarrow> (nat \<Rightarrow> int) \<Rightarrow> string \<Rightarrow> approval_row \<Rightarrow> forgelink_decision \<Rightarrow>
    (nat \<times> string, approval_row) handler" where
  "sync_decision h actor clk i a decision =
     (let (status, reason) = decision_words decision; now = utc_now (clk 0) in
      hbind (attempt (resolve_approval i status (Some ''forgelink'') (Some reason) now)) (\<lambda>r.
      if \<not> is_ok r then hret a
      else
        hbind (ignoring (record_task_approval_decision i
          (approval_evidence status now (jstrs [reason]) (Some ''forgelink'') i) (status = ''approved''))) (\<lambda>_.
        hbind (ignoring (audit_append h ''forgelink_decision_synced'' None
          (jobj [(''approval_id'', JStr i), (''decision'', JStr status), (''actor'', attribution actor)])
          (clk 1))) (\<lambda>_.
        hbind (attempt (get_approval i)) (\<lambda>u.
        hret (case u of Inr (Some b) \<Rightarrow> b | _ \<Rightarrow> a))))))"

definition get_approval_route :: "hub \<Rightarrow> auth_context \<Rightarrow> (nat \<Rightarrow> int) \<Rightarrow> string \<Rightarrow>
    (nat \<times> string, approval_row) handler" where
  "get_approval_route h actor clk i =
     hbind (call internal (get_approval i)) (\<lambda>r.
     case r of
       None \<Rightarrow> hfail (404, ''approval not found'')
     | Some a \<Rightarrow>
         if ap_status a = ''pending'' \<and> reconcile_enabled (forgelink h) then
           (case fetch_decision (forgelink h) (forgelink_http h) i of
              Inr (Some decision) \<Rightarrow> sync_decision h actor clk i a decision
            | _ \<Rightarrow> hret a)
         else hret a)"

section \<open>An approval is decided once\<close>

definition approval_safe :: "(db \<Rightarrow> bool) \<Rightarrow> bool" where
  "approval_safe P \<longleftrightarrow> (\<forall>d d'. P d \<longrightarrow> approval_stmt d d' \<longrightarrow> P d')"

lemma approval_safeD: "approval_safe P \<Longrightarrow> P d \<Longrightarrow> approval_stmt d d' \<Longrightarrow> P d'"
  by (auto simp: approval_safe_def)

lemma approval_safe_blind: "approval_safe P \<Longrightarrow> audit_blind P"
  unfolding audit_blind_def by (auto elim!: approval_safeD intro: approval_stmt.Elsewhere)

lemma keeps_elsewhere:
  assumes "approval_safe P" "\<And>d. approvals (snd (f d)) = approvals d"
  shows "keeps P (update_db f)"
  by (rule keeps_update_db) (rule approval_safeD [OF assms(1)], assumption, rule approval_stmt.Elsewhere, rule assms(2))

lemma keeps_get_task_p [keeps_intros]: "keeps P (get_task i)"
  unfolding get_task_def by (intro keeps_intros)

lemma keeps_resolve_approval:
  assumes "approval_safe P" "status \<in> {''approved'', ''denied''}"
  shows "keeps P (resolve_approval i status approver reason now)"
proof -
  have "keeps P (update_db (resolve_stmt i status approver reason now))"
    by (rule keeps_update_db) (rule approval_safeD [OF assms(1)], assumption, rule Resolve [OF assms(2)])
  then show ?thesis unfolding resolve_approval_def by (rule keeps_bind) (intro keeps_intros)
qed

lemma keeps_record_decision:
  assumes "approval_safe P"
  shows "keeps P (record_task_approval_decision i v b)"
  unfolding record_task_approval_decision_def append_task_policy_decision_def
  by (intro keeps_intros keeps_elsewhere assms)
    (simp_all add: evidence_stmt_def received_stmt_def edit_tasks_def)

lemma keeps_note_decision:
  assumes "approval_safe P"
  shows "keeps P (note_decision h actor clk status event i p row)"
  unfolding note_decision_def
  by (intro keeps_intros keeps_record_decision keeps_audit_append approval_safe_blind assms)

lemma keeps_decide_approval:
  assumes "approval_safe P" "status \<in> {''approved'', ''denied''}"
  shows "keeps P (decide_approval h actor clk status event i p)"
  unfolding decide_approval_def
  by (intro keeps_intros keeps_resolve_approval keeps_note_decision assms)

text \<open>The approval is known and no longer pending.\<close>

definition decided :: "string \<Rightarrow> db \<Rightarrow> bool" where
  "decided i d \<longleftrightarrow> (\<exists>a \<in> set (approvals d). ap_approval_id a = i)
     \<and> (\<forall>a \<in> set (approvals d). ap_approval_id a = i \<longrightarrow> ap_status a \<noteq> ''pending'')"

lemma decided_edit:
  assumes "decided i d" "\<And>a. P a \<Longrightarrow> ap_approval_id (f a) = ap_approval_id a"
    and "\<And>a. P a \<Longrightarrow> ap_status (f a) \<noteq> ''pending''"
  shows "decided i (snd (edit_approvals P f d))"
proof -
  let ?rows = "update_where P f (approvals d)"
  from assms(1) obtain a where a: "a \<in> set (approvals d)" "ap_approval_id a = i" by (auto simp: decided_def)
  have "\<exists>b \<in> set ?rows. ap_approval_id b = i"
    using a assms(2) by (cases "P a") (force simp: update_where_def)+
  moreover have "ap_status b \<noteq> ''pending''" if b: "b \<in> set ?rows" "ap_approval_id b = i" for b
    using set_update_where [OF b(1)] b(2) assms by (auto simp: decided_def)
  ultimately show ?thesis by (simp add: decided_def edit_approvals_def)
qed

lemma decided_step:
  assumes "decided i d" "approval_stmt d d'"
  shows "decided i d'"
  using assms(2)
proof cases
  case (Open a n)
  then have "approvals d' = approvals d @ [a]" "\<forall>b \<in> set (approvals d). ap_approval_id b \<noteq> ap_approval_id a"
    by (auto simp: insert_approval_def list_ex_iff split: if_splits)
  then show ?thesis using assms(1) by (force simp: decided_def)
next
  case (Resolve status i' approver reason now)
  then show ?thesis unfolding Resolve(1) resolve_stmt_def by (intro decided_edit assms(1)) auto
next
  case (Consume i' envelope)
  then show ?thesis unfolding Consume consume_stmt_def by (intro decided_edit assms(1)) auto
next
  case Elsewhere
  then show ?thesis using assms(1) by (simp add: decided_def)
qed

lemma decided_safe: "approval_safe (decided i)"
  using decided_step by (auto simp: approval_safe_def)

lemma unique_safe: "approval_safe approvals_unique"
  using approvals_unique_step by (auto simp: approval_safe_def)

lemma approvals_keeps:
  assumes k: "\<And>P. approval_safe P \<Longrightarrow> keeps P m" and w: "approvals_ok w" "m w = (r, w')"
  shows "approvals_ok w'" "approval_safe P \<Longrightarrow> P (db w) \<Longrightarrow> P (db w')"
proof -
  have env: "env_keeps P w" if "approval_safe P" for P
    using w(1) peers_by_env_keeps [of P approval_stmt w] approval_safeD [OF that] by (auto simp: approvals_ok_def)
  show "P (db w')" if "approval_safe P" "P (db w)" for P
    using keepsD [where P = P, OF k [OF that(1)] that(2) env [OF that(1)] w(2)] by simp
  from this [OF unique_safe] show "approvals_ok w'"
    using w keeps_script [OF k [OF unique_safe] w(2)] peers_by_subset [of approval_stmt w w']
    by (auto simp: approvals_ok_def)
qed

lemma resolve_decides:
  assumes w: "approvals_ok w" and run: "resolve_approval i status approver reason now w = (Inr row, w')"
    and s: "status \<in> {''approved'', ''denied''}"
  shows "decided i (db w')" "\<not> decided i (db w)"
proof -
  from run obtain n w1 where u: "update_db (resolve_stmt i status approver reason now) w = (Inr n, w1)"
    and n: "n \<noteq> 0"
    unfolding resolve_approval_def
    by (elim bind_op_InrE) (auto elim!: query_InrE split: if_splits option.splits)
  define rest where "rest = bind_op (query (find_approval i)) (\<lambda>r. if n = 0
               then (case r of None \<Rightarrow> fail (NotFound (''approval '' @ i))
                     | Some a \<Rightarrow> fail (Conflict (''approval already resolved: status='' @ ap_status a)))
               else (case r of Some a \<Rightarrow> ret a | None \<Rightarrow> fail (NotFound (''approval '' @ i))))"
  have q: "rest w1 = (Inr row, w')"
    using run u by (simp add: rest_def resolve_approval_def bind_op_def)
  from u obtain w0 where t: "next_turn w = (Answered, w0)"
    and w1: "n = fst (resolve_stmt i status approver reason now (db w0))"
      "w1 = w0\<lparr>db := snd (resolve_stmt i status approver reason now (db w0))\<rparr>"
    by (elim update_db_InrE)
  from n w1(1) have "\<not> decided i (db w0)"
    by (auto simp: resolve_stmt_def edit_approvals_def affected_0_iff decided_def)
  moreover have "env_keeps (decided i) w"
    using w peers_by_env_keeps [OF decided_step] by (simp add: approvals_ok_def)
  ultimately show "\<not> decided i (db w)" using next_turn_keeps [OF _ _ t] by auto
  have "decided i (db w1)"
  proof -
    let ?P = "\<lambda>a. ap_approval_id a = i \<and> ap_status a = ''pending''"
    let ?f = "\<lambda>a. a\<lparr>ap_status := status, ap_approver := approver, ap_reason := reason, ap_resolved_at := Some now\<rparr>"
    from n w1(1) obtain a where a: "a \<in> set (approvals (db w0))" "?P a"
      by (auto simp: resolve_stmt_def edit_approvals_def affected_0_iff)
    then have "?f a \<in> set (update_where ?P ?f (approvals (db w0)))" by (force simp: update_where_def)
    moreover have "ap_approval_id (?f a) = i" using a(2) by simp
    ultimately have "\<exists>b \<in> set (update_where ?P ?f (approvals (db w0))). ap_approval_id b = i" by blast
    moreover have "ap_status b \<noteq> ''pending''"
      if b: "b \<in> set (update_where ?P ?f (approvals (db w0)))" "ap_approval_id b = i" for b
    proof -
      from set_update_where [OF b(1)] consider "\<not> ?P b" | c where "b = ?f c" by blast
      then show ?thesis
      proof cases
        case 1
        then show ?thesis using b(2) by simp
      next
        case 2
        then have "ap_status b = status" by simp
        then show ?thesis using s by auto
      qed
    qed
    ultimately show ?thesis by (simp add: w1(2) resolve_stmt_def edit_approvals_def decided_def)
  qed
  moreover have "env_keeps (decided i) w1"
  proof -
    have "peers_by approval_stmt w" using w by (simp add: approvals_ok_def)
    then have "peers_by approval_stmt w0" by (rule peers_by_subset [OF _ next_turn_script [OF t]])
    then have "peers_by approval_stmt w1" by (simp add: w1(2) peers_by_def)
    then show ?thesis by (rule peers_by_env_keeps [rotated]) (rule decided_step)
  qed
  moreover have "keeps (decided i) rest" unfolding rest_def by (intro keeps_intros)
  ultimately show "decided i (db w')" using keepsD [where P = "decided i" and m = rest and w = w1, OF _ _ _ q] by blast
qed

text \<open>One decision of the pane: whether it was answered with the decided approval.\<close>

definition decide_attempt :: "hub \<times> auth_context \<times> (nat \<Rightarrow> int) \<times> bool \<times> decision_payload \<Rightarrow> string \<Rightarrow>
    world \<Rightarrow> bool \<times> world" where
  "decide_attempt c i w =
     (case c of (h, actor, clk, yes, p) \<Rightarrow>
        case (if yes then approve_approval h actor clk i p else deny_approval h actor clk i p) w of
          (r, w') \<Rightarrow> (is_ok r, w'))"

lemma keeps_pane:
  assumes "approval_safe P"
  shows "keeps P (if yes then approve_approval h actor clk i p else deny_approval h actor clk i p)"
  unfolding approve_approval_def deny_approval_def
  by (cases yes) (simp_all add: keeps_decide_approval [OF assms])

lemma decide_attemptE:
  assumes "decide_attempt c i w = (b, w')"
  obtains h actor clk yes p r where "c = (h, actor, clk, yes, p)" "b = is_ok r"
    "(if yes then approve_approval h actor clk i p else deny_approval h actor clk i p) w = (r, w')"
  using assms by (cases c) (auto simp: decide_attempt_def split: prod.splits)

lemma decide_approval_Inr:
  assumes "decide_approval h actor clk status event i p w = (Inr row, w')"
  obtains row' w1 where "resolve_approval i status (dc_approver p) (dc_reason p) (utc_now (clk 0)) w = (Inr row', w1)"
    "note_decision h actor clk status event i p row' w1 = (Inr row, w')"
  using assms that unfolding decide_approval_def by (elim hbind_InrE call_InrE) blast

lemma decide_attempt_True:
  assumes w: "approvals_ok w" and run: "decide_attempt c i w = (True, w')"
  shows "\<not> decided i (db w)" "decided i (db w')"
proof -
  obtain h actor clk yes p r where c: "c = (h, actor, clk, yes, p)" "is_ok r"
    "(if yes then approve_approval h actor clk i p else deny_approval h actor clk i p) w = (r, w')"
    by (rule decide_attemptE [OF run]) auto
  then obtain row where r: "r = Inr row" by (cases r) auto
  obtain status event where s: "status \<in> {''approved'', ''denied''}"
    and d: "decide_approval h actor clk status event i p w = (Inr row, w')"
    using c(3) r by (cases yes) (auto simp: approve_approval_def deny_approval_def)
  from d obtain row' w1 where res:
    "resolve_approval i status (dc_approver p) (dc_reason p) (utc_now (clk 0)) w = (Inr row', w1)"
    and nd: "note_decision h actor clk status event i p row' w1 = (Inr row, w')"
    by (rule decide_approval_Inr)
  show "\<not> decided i (db w)" by (rule resolve_decides(2) [OF w res s])
  have w1: "approvals_ok w1" by (rule approvals_keeps(1) [OF keeps_resolve_approval [OF _ s] w res])
  have "decided i (db w1)" by (rule resolve_decides(1) [OF w res s])
  then show "decided i (db w')"
    using approvals_keeps(2) [where P = "decided i", OF keeps_note_decision w1 nd decided_safe] by blast
qed

interpretation pane: single_use decide_attempt approvals_ok "\<lambda>w i u. decided i (db w)" "\<lambda>_. ()" "\<lambda>_ _. True"
proof unfold_locales
  fix w c i b w'
  assume "approvals_ok w" "decide_attempt c i w = (b, w')"
  then show "approvals_ok w'" using approvals_keeps(1) [OF keeps_pane] by (blast elim: decide_attemptE)
next
  fix w i and u :: unit and c b w'
  assume "approvals_ok w" "decided i (db w)" "decide_attempt c i w = (b, w')"
  then show "\<not> b" using decide_attempt_True(1) by (cases b) auto
next
  fix w c i w'
  assume "approvals_ok w" "decide_attempt c i w = (True, w')"
  then show "decided i (db w')" by (rule decide_attempt_True(2))
next
  fix w i and u :: unit and c j b w'
  assume "approvals_ok w" "decided i (db w)" "decide_attempt c j w = (b, w')"
  then show "decided i (db w')"
    using approvals_keeps(2) [OF keeps_pane _ _ decided_safe] by (blast elim: decide_attemptE)
qed

text \<open>
  C15. An approval is decided once: after a call to approve or to deny it was answered with success,
  every later call to approve or to deny it is refused, whoever makes them, whatever other hubs decide,
  open or consume in between and whichever requests to the store fail.
\<close>

theorem approval_decided_once:
  assumes "approvals_ok w" "decide_attempt c i w = (True, w1)" "attempts decide_attempt xs w1 = (bs, w2)"
  shows "\<forall>j < length xs. snd (xs ! j) = i \<longrightarrow> \<not> bs ! j"
  by (rule pane.accepted_once [OF assms]) auto

section \<open>What a decision changes\<close>

text \<open>The task a decision is recorded at: the newest one held for the approval.\<close>

definition held_for :: "string \<Rightarrow> db \<Rightarrow> task_row option" where
  "held_for i d = first_row (\<lambda>t. t_approval_id t = Some i) (tasks_newest_first d)"

definition decision_row :: "jv \<Rightarrow> bool \<Rightarrow> task_row \<Rightarrow> task_row" where
  "decision_row v yes t =
     t\<lparr>t_policy_decisions := push_decision v (t_policy_decisions t),
       t_approvals_received := t_approvals_received t + (if yes then 1 else 0)\<rparr>"

definition decide_held :: "string \<Rightarrow> jv \<Rightarrow> bool \<Rightarrow> db \<Rightarrow> task_row list" where
  "decide_held i v yes d = map (\<lambda>u. if held_for i d = Some u then decision_row v yes u else u) (tasks d)"

lemma append_decision_calm:
  assumes "find_task i d = Some t"
  shows "append_task_policy_decision i v (calm d) =
    (Inr (t\<lparr>t_policy_decisions := push_decision v (t_policy_decisions t)\<rparr>),
     calm (snd (evidence_stmt i (push_decision v (t_policy_decisions t)) d)))"
proof -
  have "find_task i (snd (evidence_stmt i ds d)) = Some (t\<lparr>t_policy_decisions := ds\<rparr>)" for ds
    unfolding evidence_stmt_def using find_task_SomeD [OF assms] by (subst find_edit_tasks) (simp_all add: assms)
  then show ?thesis
    using assms by (simp add: append_task_policy_decision_def calm_simps get_task_calm)
qed

lemma held_for_SomeD: "held_for i d = Some t \<Longrightarrow> t \<in> set (tasks d) \<and> t_approval_id t = Some i"
  unfolding held_for_def by (drule first_row_SomeD) (simp add: tasks_newest_first_def)

lemma record_decision_calm:
  assumes S: "settled {} d"
  obtains r d' where "record_task_approval_decision i v yes (calm d) = (Inr r, calm d')"
    "tasks d' = decide_held i v yes d" "approvals d' = approvals d" "secrets d' = secrets d"
proof (cases "held_for i d")
  case None
  then have "record_task_approval_decision i v yes (calm d) = (Inr None, calm d)"
    by (simp add: record_task_approval_decision_def calm_simps held_for_def)
  then show thesis using that None by (simp add: decide_held_def)
next
  case (Some t)
  then have t: "t \<in> set (tasks d)" using held_for_SomeD by blast
  have found: "find_task (t_id t) d = Some t"
  proof (cases "find_task (t_id t) d")
    case None
    then show ?thesis using t by (auto simp: find_task_def first_row_None_iff)
  next
    case (Some u)
    then show ?thesis using find_task_the [OF S Some t] by simp
  qed
  have only: "t_id u = t_id t \<longleftrightarrow> u = t" if "u \<in> set (tasks d)" for u
    using find_task_the [OF S found that] by auto
  let ?ds = "push_decision v (t_policy_decisions t)"
  let ?d1 = "snd (evidence_stmt (t_id t) ?ds d)"
  let ?d2 = "if yes then snd (received_stmt (t_id t) ?d1) else ?d1"
  have "find_task (t_id t) ?d2 \<noteq> None"
    using found by (auto simp: evidence_stmt_def received_stmt_def find_edit_tasks)
  then obtain u where u: "find_task (t_id t) ?d2 = Some u" by blast
  have run: "record_task_approval_decision i v yes (calm d) = (Inr (Some u), calm ?d2)"
    using Some u found
    by (cases yes) (simp_all add: record_task_approval_decision_def calm_simps append_decision_calm get_task_calm
        held_for_def)
  have "tasks ?d2 = map (\<lambda>u. if t_id u = t_id t then
      u\<lparr>t_policy_decisions := ?ds, t_approvals_received := t_approvals_received u + (if yes then 1 else 0)\<rparr> else u) (tasks d)"
    by (simp add: evidence_stmt_def received_stmt_def edit_tasks_def update_where_def comp_def)
  also have "\<dots> = decide_held i v yes d"
    unfolding decide_held_def using only Some by (intro map_cong refl) (auto simp: decision_row_def)
  finally have "tasks ?d2 = decide_held i v yes d" .
  moreover have "approvals ?d2 = approvals d" "secrets ?d2 = secrets d"
    by (simp_all add: evidence_stmt_def received_stmt_def edit_tasks_def)
  ultimately show thesis using run that by blast
qed

definition decided_row :: "string \<Rightarrow> string option \<Rightarrow> string option \<Rightarrow> string \<Rightarrow> approval_row \<Rightarrow> approval_row" where
  "decided_row status approver reason now a =
     a\<lparr>ap_status := status, ap_approver := approver, ap_reason := reason, ap_resolved_at := Some now\<rparr>"

lemma resolve_calm:
  assumes "approvals_unique d"
  shows "resolve_approval i status approver reason now (calm d) =
    (case find_approval i d of
       None \<Rightarrow> (Inl (NotFound (''approval '' @ i)), calm d)
     | Some a \<Rightarrow>
         if ap_status a = ''pending''
         then (Inr (decided_row status approver reason now a), calm (d\<lparr>approvals :=
            map (\<lambda>x. if x = a then decided_row status approver reason now a else x) (approvals d)\<rparr>))
         else (Inl (Conflict (''approval already resolved: status='' @ ap_status a)), calm d))"
  by (subst resolve_approval_outcome [OF assms]) (simp add: decided_row_def [abs_def] Let_def split: option.split)

lemma settled_approvals: "settled S (d\<lparr>approvals := as\<rparr>) = settled S d" "held_for i (d\<lparr>approvals := as\<rparr>) = held_for i d"
  by (simp_all add: settled_def held_for_def tasks_newest_first_def)

lemma note_decision_calm:
  assumes S: "settled {} d"
  obtains d' where "note_decision h actor clk status event i p row (calm d) = (Inr row, calm d')"
    "tasks d' = decide_held i (approval_evidence status (utc_now (clk 0)) (jopt JStr (dc_reason p)) (dc_approver p) i)
       (status = ''approved'') d" "approvals d' = approvals d"
proof -
  let ?v = "approval_evidence status (utc_now (clk 0)) (jopt JStr (dc_reason p)) (dc_approver p) i"
  obtain t d1 where t: "record_task_approval_decision i ?v (status = ''approved'') (calm d) = (Inr t, calm d1)"
    "tasks d1 = decide_held i ?v (status = ''approved'') d" "approvals d1 = approvals d"
    by (rule record_decision_calm [OF S])
  obtain d' where a: "ignoring (audit_append h event (map_option t_id t)
       (jobj [(''approval_id'', JStr i), (''approver'', jopt JStr (dc_approver p)),
              (''attribution'', attribution actor)]) (clk 1)) (calm d1) = (Inr () :: (nat \<times> string, unit) res, calm d')"
    "same_but_audit d1 d'" by (rule calm_ignoring_audit)
  have "note_decision h actor clk status event i p row (calm d) = (Inr row, calm d')"
    using t(1) a(1) by (simp add: note_decision_def hbind_def call_def hret_def)
  then show thesis using that t same_but_auditD [OF a(2)] by simp
qed

text \<open>
  C16. What a decision in the pane does when nobody disturbs it. An unknown approval is not found and
  one already decided is a conflict, and then nothing changes. A pending one gets the status, the
  approver and the reason of the call, and no other approval changes; the newest task held for it
  gets the evidence and, on approval, one more approval received, and nothing else about any task
  changes: in particular an approved task is still held.
\<close>

theorem approval_decision_outcome:
  assumes "approvals_unique d" "settled {} d"
    and run: "(if yes then approve_approval h actor clk i p else deny_approval h actor clk i p) (calm d) = (r, w')"
  shows "let status = (if yes then ''approved'' else ''denied''); now = utc_now (clk 0) in
    case find_approval i d of
      None \<Rightarrow> r = Inl (404, ''approval not found'') \<and> db w' = d
    | Some a \<Rightarrow>
        if ap_status a \<noteq> ''pending''
        then r = Inl (409, ''approval already resolved: status='' @ ap_status a) \<and> db w' = d
        else
          let b = decided_row status (dc_approver p) (dc_reason p) now a;
              v = approval_evidence status now (jopt JStr (dc_reason p)) (dc_approver p) i in
          r = Inr b \<and> approvals (db w') = map (\<lambda>x. if x = a then b else x) (approvals d)
          \<and> tasks (db w') = decide_held i v yes d
          \<and> map t_status (tasks (db w')) = map t_status (tasks d)"
proof -
  define status where "status = (if yes then ''approved'' else ''denied'')"
  define event where "event = (if yes then ''approval_approved'' else ''approval_denied'')"
  have run': "decide_approval h actor clk status event i p (calm d) = (r, w')" and yes: "yes \<longleftrightarrow> status = ''approved''"
    using run by (cases yes; simp add: approve_approval_def deny_approval_def status_def event_def)+
  note call = decide_approval_def hbind_def call_def resolve_calm [OF assms(1)] approval_errors_def
  consider "find_approval i d = None" | a where "find_approval i d = Some a" "ap_status a \<noteq> ''pending''"
    | a where "find_approval i d = Some a" "ap_status a = ''pending''" by (cases "find_approval i d") auto
  then show ?thesis
  proof cases
    case 1
    then show ?thesis using run' by (auto simp: call)
  next
    case 2
    then show ?thesis using run' by (auto simp: call Let_def)
  next
    case 3
    let ?b = "decided_row status (dc_approver p) (dc_reason p) (utc_now (clk 0)) a"
    let ?d1 = "d\<lparr>approvals := map (\<lambda>x. if x = a then ?b else x) (approvals d)\<rparr>"
    let ?v = "approval_evidence status (utc_now (clk 0)) (jopt JStr (dc_reason p)) (dc_approver p) i"
    have S1: "settled {} ?d1" using assms(2) by (simp add: settled_approvals)
    obtain d' where n: "note_decision h actor clk status event i p ?b (calm ?d1) = (Inr ?b, calm d')"
      "tasks d' = decide_held i ?v (status = ''approved'') ?d1" "approvals d' = approvals ?d1"
      by (rule note_decision_calm [OF S1])
    have r: "r = Inr ?b" "w' = calm d'" using run' 3 n(1) by (auto simp: call)
    have held: "decide_held i ?v (status = ''approved'') ?d1 = decide_held i ?v (status = ''approved'') d"
      by (simp add: decide_held_def settled_approvals)
    have same: "map t_status (decide_held i ?v y d) = map t_status (tasks d)" for y
      by (simp add: decide_held_def decision_row_def)
    show ?thesis
      using 3 r n(2,3) held same yes unfolding status_def [symmetric] by (simp add: Let_def)
  qed
qed

lemma find_decided:
  assumes "approvals_unique d" "find_approval i d = Some a" "ap_approval_id b = ap_approval_id a"
  shows "find_approval i (d\<lparr>approvals := map (\<lambda>x. if x = a then b else x) (approvals d)\<rparr>) = Some b"
proof -
  from assms(2) have a: "a \<in> set (approvals d)" "ap_approval_id a = i"
    using first_row_SomeD [of "\<lambda>a. ap_approval_id a = i"] by (auto simp: find_approval_def)
  have "ap_approval_id x = i \<longleftrightarrow> x = a" if "x \<in> set (approvals d)" for x
    using distinct_keyD [of ap_approval_id "approvals d" x a] assms(1) that a by (auto simp: approvals_unique_def)
  then have "update_where (\<lambda>x. ap_approval_id x = i) (\<lambda>_. b) (approvals d) =
      map (\<lambda>x. if x = a then b else x) (approvals d)"
    unfolding update_where_def by (intro map_cong refl) simp
  moreover have "first_row (\<lambda>a. ap_approval_id a = i) (update_where (\<lambda>x. ap_approval_id x = i) (\<lambda>_. b) (approvals d)) = Some b"
    using assms(2,3) a(2) by (subst first_row_update_where) (simp_all add: find_approval_def)
  ultimately show ?thesis by (simp add: find_approval_def)
qed

lemma sync_calm:
  assumes "approvals_unique d" "settled {} d" "find_approval i d = Some a" "ap_status a = ''pending''"
    and words: "decision_words decision = (status, reason)"
    and b: "b = decided_row status (Some ''forgelink'') (Some reason) (utc_now (clk 0)) a"
  obtains d' where "sync_decision h actor clk i a decision (calm d) = (Inr b, calm d')"
    "approvals d' = map (\<lambda>x. if x = a then b else x) (approvals d)"
    "tasks d' = decide_held i (approval_evidence status (utc_now (clk 0)) (jstrs [reason]) (Some ''forgelink'') i)
       (status = ''approved'') d"
proof -
  let ?v = "approval_evidence status (utc_now (clk 0)) (jstrs [reason]) (Some ''forgelink'') i"
  let ?d1 = "d\<lparr>approvals := map (\<lambda>x. if x = a then b else x) (approvals d)\<rparr>"
  have S1: "settled {} ?d1" using assms(2) by (simp add: settled_approvals)
  obtain t d2 where t: "record_task_approval_decision i ?v (status = ''approved'') (calm ?d1) = (Inr t, calm d2)"
    "tasks d2 = decide_held i ?v (status = ''approved'') ?d1" "approvals d2 = approvals ?d1"
    by (rule record_decision_calm [OF S1])
  have i1: "ignoring (record_task_approval_decision i ?v (status = ''approved'')) (calm ?d1) =
      (Inr () :: (nat \<times> string, unit) res, calm d2)"
    by (simp add: ignoring_def t(1))
  obtain d3 where e: "ignoring (audit_append h ''forgelink_decision_synced'' None
      (jobj [(''approval_id'', JStr i), (''decision'', JStr status), (''actor'', attribution actor)]) (clk 1)) (calm d2)
      = (Inr () :: (nat \<times> string, unit) res, calm d3)" "same_but_audit d2 d3" by (rule calm_ignoring_audit)
  have a3: "approvals d3 = map (\<lambda>x. if x = a then b else x) (approvals d)"
    using same_but_auditD(3) [OF e(2)] t(3) by simp
  have "find_approval i ?d1 = Some b"
    by (rule find_decided [OF assms(1,3)]) (simp add: b decided_row_def)
  then have f: "find_approval i d3 = Some b" using a3 by (simp add: find_approval_def)
  have "sync_decision h actor clk i a decision (calm d) = (Inr b, calm d3)"
    using i1 e(1) f unfolding b
    by (simp add: sync_decision_def words Let_def hbind_def attempt_def resolve_calm [OF assms(1)] assms(3,4)
        get_approval_def calm_query hret_def)
  moreover have "tasks d3 = decide_held i ?v (status = ''approved'') d"
    using same_but_auditD(1) [OF e(2)] t(2) by (simp add: decide_held_def settled_approvals)
  ultimately show thesis using that a3 by blast
qed

lemma approval_decided_ok:
  assumes "approvals_unique d" "settled {} d" "find_approval i d = Some a" "ap_status a = ''pending''"
  shows "is_ok (fst (approve_approval h actor clk i p (calm d)))"
proof -
  let ?d1 = "d\<lparr>approvals := map (\<lambda>x. if x = a then decided_row ''approved'' (dc_approver p) (dc_reason p) (utc_now (clk 0)) a
    else x) (approvals d)\<rparr>"
  have S1: "settled {} ?d1" using assms(2) by (simp add: settled_approvals)
  obtain d' where "note_decision h actor clk ''approved'' ''approval_approved'' i p
      (decided_row ''approved'' (dc_approver p) (dc_reason p) (utc_now (clk 0)) a) (calm ?d1) =
      (Inr (decided_row ''approved'' (dc_approver p) (dc_reason p) (utc_now (clk 0)) a), calm d')"
    by (rule note_decision_calm [OF S1])
  then show ?thesis
    using assms(3,4) by (simp add: approve_approval_def decide_approval_def hbind_def call_def resolve_calm [OF assms(1)])
qed

text \<open>
  What reading an approval does when nobody disturbs it: a pending approval that was decided in
  ForgeLink is decided here with that decision, under the name forgelink, exactly as the pane would do
  it, and the answer is the decided approval; in every other case, a failed poll included, the read
  changes nothing.
\<close>

lemma get_approval_outcome:
  assumes "approvals_unique d" "settled {} d" and run: "get_approval_route h actor clk i (calm d) = (r, w')"
  shows "case find_approval i d of
      None \<Rightarrow> r = Inl (404, ''approval not found'') \<and> db w' = d
    | Some a \<Rightarrow>
        (case (if ap_status a = ''pending'' \<and> reconcile_enabled (forgelink h)
               then fetch_decision (forgelink h) (forgelink_http h) i else Inr None) of
           Inr (Some decision) \<Rightarrow>
             let (status, reason) = decision_words decision; now = utc_now (clk 0);
                 b = decided_row status (Some ''forgelink'') (Some reason) now a in
             r = Inr b \<and> approvals (db w') = map (\<lambda>x. if x = a then b else x) (approvals d)
             \<and> tasks (db w') = decide_held i (approval_evidence status now (jstrs [reason]) (Some ''forgelink'') i)
                 (status = ''approved'') d
         | _ \<Rightarrow> r = Inr a \<and> db w' = d)"
proof (cases "find_approval i d")
  case None
  then show ?thesis using run by (auto simp: get_approval_route_def hbind_def call_def get_approval_def calm_query)
next
  case (Some a)
  show ?thesis
  proof (cases "ap_status a = ''pending'' \<and> reconcile_enabled (forgelink h)")
    case False
    then show ?thesis
      using run Some by (auto simp: get_approval_route_def hbind_def call_def get_approval_def calm_query)
  next
    case True
    show ?thesis
    proof (cases "\<exists>x. fetch_decision (forgelink h) (forgelink_http h) i = Inr (Some x)")
      case False
      then show ?thesis
        using run Some True
        by (auto simp: get_approval_route_def hbind_def call_def get_approval_def calm_query
            split: sum.splits option.splits)
    next
      case True
      then obtain decision where f: "fetch_decision (forgelink h) (forgelink_http h) i = Inr (Some decision)" by blast
      obtain status reason where words: "decision_words decision = (status, reason)" by fastforce
      let ?b = "decided_row status (Some ''forgelink'') (Some reason) (utc_now (clk 0)) a"
      let ?v = "approval_evidence status (utc_now (clk 0)) (jstrs [reason]) (Some ''forgelink'') i"
      obtain d' where s: "sync_decision h actor clk i a decision (calm d) = (Inr ?b, calm d')"
        "approvals d' = map (\<lambda>x. if x = a then ?b else x) (approvals d)"
        "tasks d' = decide_held i ?v (status = ''approved'') d"
        by (rule sync_calm [OF assms(1,2) Some _ words refl])
          (use \<open>ap_status a = ''pending'' \<and> reconcile_enabled (forgelink h)\<close> in auto)
      have "r = Inr ?b" "w' = calm d'"
        using run Some f s(1) \<open>ap_status a = ''pending'' \<and> reconcile_enabled (forgelink h)\<close>
        by (auto simp: get_approval_route_def hbind_def call_def get_approval_def calm_query)
      then show ?thesis
        using Some f s(2,3) words \<open>ap_status a = ''pending'' \<and> reconcile_enabled (forgelink h)\<close> by (simp add: Let_def)
    qed
  qed
qed

section \<open>An approval to look at\<close>

definition pending_approval :: approval_row where
  "pending_approval = demo_approval\<lparr>ap_status := ''pending''\<rparr>"

definition held_brief :: create_task_params where
  "held_brief = demo_params\<lparr>cp_initial_status := Some ''held'', cp_approval_id := Some ''a''\<rparr>"

definition held_queue :: db where
  "held_queue = (snd (insert_task held_brief ''now'' empty_db))\<lparr>approvals := [pending_approval]\<rparr>"

definition ok_payload :: decision_payload where
  "ok_payload = \<lparr>dc_approver = Some ''ann'', dc_reason = None\<rparr>"

lemma held_queue_sound: "approvals_unique held_queue" "settled {} held_queue"
proof -
  show "settled {} held_queue"
    unfolding held_queue_def settled_approvals by (intro settled_insert_task settled_empty)
qed (simp add: approvals_unique_def held_queue_def)

lemma find_pending: "find_approval ''a'' held_queue = Some pending_approval" "ap_status pending_approval = ''pending''"
  by (simp_all add: find_approval_def first_row_def held_queue_def pending_approval_def demo_approval_def)

lemma approval_decision_outcome_witness:
  "let (r, w') = approve_approval toy_hub demo_actor (\<lambda>_. 1000) ''a'' ok_payload (calm held_queue)
   in r = Inr (decided_row ''approved'' (Some ''ann'') None (utc_now 1000) pending_approval)
    \<and> map t_status (tasks (db w')) = [''held''] \<and> map t_approvals_received (tasks (db w')) = [1]"
proof -
  obtain r w' where run: "approve_approval toy_hub demo_actor (\<lambda>_. 1000) ''a'' ok_payload (calm held_queue) = (r, w')"
    by fastforce
  have run': "(if True then approve_approval toy_hub demo_actor (\<lambda>_. 1000) ''a'' ok_payload
      else deny_approval toy_hub demo_actor (\<lambda>_. 1000) ''a'' ok_payload) (calm held_queue) = (r, w')"
    using run by simp
  let ?t = "new_task held_brief ''now'' 1"
  have q: "tasks held_queue = [?t]" by (simp add: held_queue_def insert_task_def empty_db_def)
  have t: "t_status ?t = ''held''" "t_approvals_received ?t = 0" "t_approval_id ?t = Some ''a''"
    by (simp_all add: new_task_def held_brief_def demo_params_def)
  have f: "held_for ''a'' held_queue = Some ?t"
    by (simp add: held_for_def tasks_newest_first_def q first_row_def t)
  from approval_decision_outcome [OF held_queue_sound run'] have
    "r = Inr (decided_row ''approved'' (Some ''ann'') None (utc_now 1000) pending_approval)"
    "\<exists>v. tasks (db w') = decide_held ''a'' v True held_queue"
    by (auto simp: find_pending Let_def ok_payload_def)
  then show ?thesis by (auto simp: run decide_held_def q f decision_row_def t)
qed

lemma get_approval_outcome_witness:
  "get_approval_route toy_hub demo_actor (\<lambda>_. 1000) ''b'' (calm held_queue)
     = (Inl (404, ''approval not found''), snd (get_approval_route toy_hub demo_actor (\<lambda>_. 1000) ''b'' (calm held_queue)))"
proof -
  have "find_approval ''b'' held_queue = None"
    by (simp add: find_approval_def first_row_def held_queue_def pending_approval_def demo_approval_def)
  with get_approval_outcome [OF held_queue_sound surjective_pairing, of toy_hub demo_actor "\<lambda>_. 1000" "''b''"]
  show ?thesis by (simp add: prod_eq_iff)
qed

lemma approval_decided_once_witness:
  "let c = (toy_hub, demo_actor, \<lambda>_. 1000, True, ok_payload);
       late = (toy_hub, demo_actor, \<lambda>_. 1001, False, ok_payload)
   in fst (decide_attempt c ''a'' (calm held_queue))
    \<and> \<not> fst (attempts decide_attempt [(late, ''a'')] (snd (decide_attempt c ''a'' (calm held_queue)))) ! 0"
proof -
  let ?c = "(toy_hub, demo_actor, \<lambda>_. 1000 :: int, True, ok_payload)"
  let ?late = "(toy_hub, demo_actor, \<lambda>_. 1001 :: int, False, ok_payload)"
  have "is_ok (fst (approve_approval toy_hub demo_actor (\<lambda>_. 1000) ''a'' ok_payload (calm held_queue)))"
    by (rule approval_decided_ok [OF held_queue_sound find_pending])
  then have yes: "decide_attempt ?c ''a'' (calm held_queue) =
      (True, snd (decide_attempt ?c ''a'' (calm held_queue)))"
    by (auto simp: decide_attempt_def split: prod.splits)
  have "approvals_ok (calm held_queue)"
    by (simp add: approvals_ok_def held_queue_sound peers_by_def calm_def)
  from approval_decided_once [OF this yes surjective_pairing, of "[(?late, ''a'')]"] yes
  show ?thesis by (simp add: Let_def prod_eq_iff)
qed

end
