(* ===== verification/HubStreams.thy ===== *)
theory HubStreams
  imports HubApprovals StoreLogs StoreLedger Streams
begin

text \<open>
  The routes a runner drives a task with (\<^verbatim>\<open>crates/fabric-hub/src/routes/streams.rs\<close>): start, cancel,
  progress, the log stream with its write buffer, the result, notes, the signed standard input and
  the server-sent events. Beside the store the hub keeps two things in memory: the buffer of stream
  lines and the queues of input batches.
\<close>

section \<open>The memory of a hub\<close>

record live =
  mem_buffer :: stream_buffer
  mem_input :: "int \<Rightarrow> (int \<times> string list) list option"
  mem_world :: world

type_synonym 'a live_handler = "(live, nat \<times> string, 'a) action"

definition on_store :: "(nat \<times> string, 'a) handler \<Rightarrow> 'a live_handler" where
  "on_store m s = (case m (mem_world s) of (r, w') \<Rightarrow> (r, s\<lparr>mem_world := w'\<rparr>))"

definition on_buffer :: "(stream_buffer \<Rightarrow> 'a \<times> stream_buffer) \<Rightarrow> 'a live_handler" where
  "on_buffer f s = (case f (mem_buffer s) of (x, b) \<Rightarrow> (Inr x, s\<lparr>mem_buffer := b\<rparr>))"

definition buffer_profile :: "durability_profile live_handler" where
  "buffer_profile = on_buffer (\<lambda>b. (sb_profile b, b))"

section \<open>Requests\<close>

record progress_payload =
  pq_worker_id :: string
  pq_message :: string
  pq_files_touched :: "string list option"
  pq_event :: "string option"
  pq_details :: "jv option"

record stream_payload =
  sp_worker_id :: string
  sp_channel :: string
  sp_line :: string

record stream_bulk_payload =
  sb_worker_id :: string
  sb_entries :: "(string \<times> string) list"

record result_payload =
  rq_worker_id :: string
  rq_status :: string
  rq_head_commit :: "string option"
  rq_commits :: "string list"
  rq_files_touched :: "string list"
  rq_test_summary :: "string option"
  rq_log_tail :: "string option"
  rq_error :: "string option"
  rq_model_id :: "string option"
  rq_prompt_tokens :: "int option"
  rq_completion_tokens :: "int option"
  rq_cost_usd :: "f64 option"
  rq_wall_seconds :: "f64 option"
  rq_runner_cpu_seconds :: "f64 option"
  rq_exit_code :: "int option"

record task_input_payload =
  ti_dispatcher_id :: string
  ti_lines :: "string list"
  ti_seq :: int
  ti_timestamp :: i64
  ti_nonce :: string
  ti_signature :: string

section \<open>Errors and redaction\<close>

definition task_errors :: "store_error \<Rightarrow> nat \<times> string" where
  "task_errors e = (case e of NotFound _ \<Rightarrow> (404, ''task not found'') | _ \<Rightarrow> internal e)"

definition owner_errors :: "store_error \<Rightarrow> nat \<times> string" where
  "owner_errors e =
     (case e of NotFound _ \<Rightarrow> (404, ''task not found'') | PermissionDenied m \<Rightarrow> (403, m) | _ \<Rightarrow> internal e)"

definition redaction_error :: "secret_error \<Rightarrow> nat \<times> string" where
  "redaction_error e = (503, ''secret redaction failed closed: '' @ secret_error_text e)"

definition redacted :: "hub \<Rightarrow> string \<Rightarrow> (nat \<times> string, string) handler" where
  "redacted h t = call redaction_error (state_redact_text h t)"

definition redact_optional :: "hub \<Rightarrow> string option \<Rightarrow> (nat \<times> string, string option) handler" where
  "redact_optional h v =
     (case v of None \<Rightarrow> hret None | Some t \<Rightarrow> hbind (redacted h t) (\<lambda>r. hret (Some r)))"

section \<open>Writing a batch of lines\<close>

text \<open>The lines of a batch by worker, in the order in which the workers appear.\<close>

type_synonym worker_lines = "(string \<times> (string \<times> string) list) list"

fun add_line :: "string \<Rightarrow> string \<times> string \<Rightarrow> worker_lines \<Rightarrow> worker_lines" where
  "add_line w e [] = [(w, [e])]"
| "add_line w e ((v, es) # gs) = (if v = w then (v, es @ [e]) # gs else (v, es) # add_line w e gs)"

fun group_batch :: "hub \<Rightarrow> pending_entry list \<Rightarrow> worker_lines \<Rightarrow> (nat \<times> string, worker_lines) handler" where
  "group_batch h [] gs = hret gs"
| "group_batch h (e # es) gs =
     hbind (redacted h (pe_line e))
       (\<lambda>line. group_batch h es (add_line (pe_worker_id e) (pe_channel e, line) gs))"

fun write_groups :: "int \<Rightarrow> string \<Rightarrow> worker_lines \<Rightarrow> (nat \<times> string, nat) handler" where
  "write_groups i now [] = hret 0"
| "write_groups i now ((w, es) # gs) =
     hbind (call owner_errors (append_stream_bulk i w es now)) (\<lambda>written.
     hbind (write_groups i now gs) (\<lambda>n. hret (length written + n)))"

definition flush_batch :: "hub \<Rightarrow> int \<Rightarrow> int \<Rightarrow> pending_entry list \<Rightarrow> (nat \<times> string, nat) handler" where
  "flush_batch h clock i batch =
     (if batch = [] then hret 0 else hbind (group_batch h batch []) (write_groups i (utc_now clock)))"

section \<open>State transitions, progress, notes\<close>

definition mark_running_route :: "(nat \<Rightarrow> int) \<Rightarrow> int \<Rightarrow> (nat \<times> string, task_row) handler" where
  "mark_running_route clk i = call task_errors (mark_running i (utc_now (clk 0)))"

definition cancel_task_route :: "(nat \<Rightarrow> int) \<Rightarrow> int \<Rightarrow> (nat \<times> string, task_row) handler" where
  "cancel_task_route clk i = call task_errors (cancel_task i (utc_now (clk 0)))"

definition append_progress_route :: "hub \<Rightarrow> auth_context \<Rightarrow> (nat \<Rightarrow> int) \<Rightarrow> int \<Rightarrow> progress_payload \<Rightarrow>
    (nat \<times> string, progress_entry) handler" where
  "append_progress_route h actor clk i p =
     (if pq_event p \<noteq> None \<and> pq_event p \<noteq> Some ''egress_denied'' then
        hfail (400, ''unsupported progress event kind'')
      else
        hbind (redacted h (pq_message p)) (\<lambda>message.
        hbind (call owner_errors
          (append_progress i (pq_worker_id p) message (pq_files_touched p) (utc_now (clk 0)))) (\<lambda>entry.
        hbind (if pq_event p = Some ''egress_denied'' then
            ignoring (audit_append h ''egress_denied'' (Some i)
              (jobj [(''worker_id'', JStr (pq_worker_id p)), (''details'', opt_default JNull (pq_details p)),
                     (''actor'', attribution actor)]) (clk 1))
          else hret ()) (\<lambda>_.
        hret entry))))"

definition post_note_route :: "hub \<Rightarrow> (nat \<Rightarrow> int) \<Rightarrow> int \<Rightarrow> string \<Rightarrow> string \<Rightarrow> (nat \<times> string, note_row) handler" where
  "post_note_route h clk i author body =
     hbind (redacted h body) (\<lambda>text'. call task_errors (post_note i author text' (utc_now (clk 0))))"

definition read_notes_route :: "int \<Rightarrow> int option \<Rightarrow> (nat \<times> string, note_row list) handler" where
  "read_notes_route i after = call internal (read_notes i (opt_default 0 after))"

section \<open>The log stream\<close>

datatype stream_reply =
    NothingToWrite
  | StoredLine stream_line
  | StoredLines nat "int option" "int option"
  | FlushedLines nat
  | KeptLines "nat option"

definition valid_channels :: "string list" where
  "valid_channels = [''stdout'', ''stderr'', ''info'']"

definition flush_or_keep :: "hub \<Rightarrow> int \<Rightarrow> int \<Rightarrow> nat option \<Rightarrow> pending_entry list option \<Rightarrow> stream_reply live_handler" where
  "flush_or_keep h clock i kept batch =
     (case batch of
        Some b \<Rightarrow> hbind (on_store (flush_batch h clock i b)) (\<lambda>n. hret (FlushedLines n))
      | None \<Rightarrow> hret (KeptLines kept))"

definition append_stream_route :: "hub \<Rightarrow> (nat \<Rightarrow> int) \<Rightarrow> int \<Rightarrow> stream_payload \<Rightarrow> stream_reply live_handler" where
  "append_stream_route h clk i p =
     (if sp_channel p \<notin> set valid_channels then hfail (400, ''invalid stream channel: '' @ sp_channel p)
      else
        hbind buffer_profile (\<lambda>profile.
        hbind (on_store (redacted h (sp_line p))) (\<lambda>line.
        if profile = Strict then
          hbind (on_store (call owner_errors
            (append_stream i (sp_worker_id p) (sp_channel p) line (utc_now (clk 0))))) (\<lambda>l. hret (StoredLine l))
        else
          hbind (on_buffer (buffer_push i (sp_worker_id p) (sp_channel p) line (utc_now (clk 0))))
            (flush_or_keep h (clk 1) i None))))"

fun redact_entries :: "hub \<Rightarrow> (string \<times> string) list \<Rightarrow> (nat \<times> string, (string \<times> string) list) handler" where
  "redact_entries h [] = hret []"
| "redact_entries h ((channel, line) # es) =
     hbind (redacted h line) (\<lambda>l. hbind (redact_entries h es) (\<lambda>rest. hret ((channel, l) # rest)))"

definition append_stream_bulk_route :: "hub \<Rightarrow> (nat \<Rightarrow> int) \<Rightarrow> int \<Rightarrow> stream_bulk_payload \<Rightarrow>
    stream_reply live_handler" where
  "append_stream_bulk_route h clk i p =
     (if sb_entries p = [] then hret NothingToWrite
      else
        hbind buffer_profile (\<lambda>profile.
        hbind (on_store (redact_entries h (sb_entries p))) (\<lambda>entries.
        if profile = Strict then
          hbind (on_store (call owner_errors
            (append_stream_bulk i (sb_worker_id p) entries (utc_now (clk 0))))) (\<lambda>ls.
          hret (StoredLines (length ls) (if ls = [] then None else Some (sl_seq (hd ls)))
                  (if ls = [] then None else Some (sl_seq (last ls)))))
        else
          hbind (on_buffer (buffer_push_bulk i (map (\<lambda>(channel, line).
              \<lparr>pe_task_id = i, pe_worker_id = sb_worker_id p, pe_channel = channel, pe_line = line,
               pe_ts = utc_now (clk 0)\<rparr>) entries)))
            (flush_or_keep h (clk 1) i (Some (length entries))))))"

definition read_stream_route :: "int \<Rightarrow> int option \<Rightarrow> int option \<Rightarrow> (nat \<times> string, stream_line list) handler" where
  "read_stream_route i after limit =
     call internal (streams_since i (opt_default 0 after) (opt_default 500 limit))"

section \<open>The result\<close>

definition terminal_statuses :: "string list" where
  "terminal_statuses = [''done'', ''failed'', ''cancelled'', ''timed_out'']"

definition terminal_exit_reason :: "string \<Rightarrow> int option \<Rightarrow> string option \<Rightarrow> string" where
  "terminal_exit_reason status exit_code err =
     (if status = ''done'' \<and> opt_default 0 exit_code = 0 then ''completed''
      else if status = ''done'' then ''completed_with_exit_code:'' @ show_int (opt_default 0 exit_code)
      else if status = ''failed'' \<and> exit_code \<noteq> None then ''process_exit:'' @ show_int (opt_default 0 exit_code)
      else if status = ''failed'' \<and> err \<noteq> None then ''runner_error''
      else if status = ''failed'' then ''failed''
      else if status = ''cancelled'' then ''cancelled''
      else if status = ''timed_out'' then ''timeout''
      else ''terminal_status:'' @ status)"

definition completion_gate :: "hub \<Rightarrow> auth_context \<Rightarrow> (nat \<Rightarrow> int) \<Rightarrow> int \<Rightarrow> result_payload \<Rightarrow>
    (nat \<times> string, unit) handler" where
  "completion_gate h actor clk i p =
     (let decision = gate_completion (hub_gate h)
            \<lparr>cr_task_id = show_int i, cr_changed_paths = rq_files_touched p, cr_diff_lines = 0\<rparr>;
          evidence = policy_evidence ''completion'' decision (utc_now (clk 1))
            (jobj [(''worker_id'', JStr (rq_worker_id p)), (''terminal_status'', JStr (rq_status p)),
                   (''files_touched'', jstrs (rq_files_touched p))]) in
      hbind (call internal (append_task_policy_decision i evidence)) (\<lambda>_.
      if denied decision then
        hbind (ignoring (audit_append h ''completion_denied'' (Some i)
          (jobj [(''reason'', JStr (join_reasons decision)), (''worker_id'', JStr (rq_worker_id p)),
                 (''attribution'', attribution actor)]) (clk 2)))
          (\<lambda>_. hfail (403, ''completion denied by policy: '' @ join_reasons decision))
      else hret ()))"

definition result_params :: "int \<Rightarrow> result_payload \<Rightarrow> string option \<Rightarrow> string option \<Rightarrow> string option \<Rightarrow>
    submit_result_params" where
  "result_params i p summary tail err =
     \<lparr>sr_task_id = i, sr_worker_id = rq_worker_id p, sr_status = rq_status p,
      sr_head_commit = rq_head_commit p, sr_commits = rq_commits p, sr_files_touched = rq_files_touched p,
      sr_test_summary = summary, sr_log_tail = tail, sr_error = err, sr_wall_seconds = rq_wall_seconds p,
      sr_runner_cpu_seconds = rq_runner_cpu_seconds p,
      sr_exit_reason = terminal_exit_reason (rq_status p) (rq_exit_code p) err, sr_exit_code = rq_exit_code p\<rparr>"

definition report_result :: "hub \<Rightarrow> gap \<Rightarrow> (nat \<Rightarrow> int) \<Rightarrow> int \<Rightarrow> result_payload \<Rightarrow>
    (nat \<times> string, task_row) handler" where
  "report_result h gap clk i p =
     hbind (redact_optional h (rq_test_summary p)) (\<lambda>summary.
     hbind (redact_optional h (rq_log_tail p)) (\<lambda>tail.
     hbind (redact_optional h (rq_error p)) (\<lambda>err.
     call owner_errors (submit_result gap (result_params i p summary tail err) (utc_now (clk 3))))))"

definition result_audit :: "auth_context \<Rightarrow> int \<Rightarrow> result_payload \<Rightarrow> task_row \<Rightarrow> jv" where
  "result_audit actor i p t =
     jobj [(''task_id'', jint i), (''worker_id'', JStr (rq_worker_id p)), (''status'', JStr (rq_status p)),
           (''head_commit'', jopt JStr (rq_head_commit p)), (''commits'', jstrs (rq_commits p)),
           (''files_touched'', jstrs (rq_files_touched p)), (''exit_reason'', jopt JStr (t_exit_reason t)),
           (''exit_code'', jopt jint (t_exit_code t)), (''wall_seconds'', jopt jfloat (t_wall_seconds t)),
           (''runner_cpu_seconds'', jopt jfloat (t_runner_cpu_seconds t)),
           (''attribution'', attribution actor)]"

definition cost_of_result :: "int \<Rightarrow> result_payload \<Rightarrow> task_row \<Rightarrow> f64 \<Rightarrow> string \<Rightarrow> cost_row" where
  "cost_of_result i p t cost now =
     \<lparr>c_id = 0, c_task_id = show_int i, c_dispatcher_id = cp_dispatcher_id (t_brief t),
      c_runner_id = Some (rq_worker_id p), c_model_id = opt_default [] (rq_model_id p),
      c_prompt_tokens = opt_default 0 (rq_prompt_tokens p),
      c_completion_tokens = opt_default 0 (rq_completion_tokens p), c_cost_usd = cost,
      c_wall_seconds = opt_default (Fin 0) (rq_wall_seconds p),
      c_runner_cpu_seconds = opt_default (Fin 0) (rq_runner_cpu_seconds p), c_created_at = now\<rparr>"

definition after_result :: "hub \<Rightarrow> fadd \<Rightarrow> auth_context \<Rightarrow> (nat \<Rightarrow> int) \<Rightarrow> int \<Rightarrow> result_payload \<Rightarrow> task_row \<Rightarrow>
    (nat \<times> string, task_row) handler" where
  "after_result h fadd actor clk i p t =
     hbind (ignoring (audit_append h ''result'' (Some i) (result_audit actor i p t) (clk 4))) (\<lambda>_.
     hbind (case rq_cost_usd p of
         None \<Rightarrow> hret ()
       | Some cost \<Rightarrow> ignoring (record_cost fadd (cost_of_result i p t cost (utc_now (clk 5))))) (\<lambda>_.
     hret t))"

definition drop_input :: "int \<Rightarrow> unit live_handler" where
  "drop_input i s = (Inr (), s\<lparr>mem_input := (mem_input s)(i := None)\<rparr>)"

definition submit_result_route :: "hub \<Rightarrow> gap \<Rightarrow> fadd \<Rightarrow> auth_context \<Rightarrow> (nat \<Rightarrow> int) \<Rightarrow> int \<Rightarrow> result_payload \<Rightarrow>
    task_row live_handler" where
  "submit_result_route h gap fadd actor clk i p =
     (if rq_status p \<notin> set terminal_statuses then hfail (400, ''invalid terminal status: '' @ rq_status p)
      else
        hbind (on_buffer (buffer_flush_task i)) (\<lambda>pending.
        hbind (on_store (flush_batch h (clk 0) i pending)) (\<lambda>_.
        hbind (on_buffer (\<lambda>b. ((), buffer_forget i b))) (\<lambda>_.
        hbind (on_store (completion_gate h actor clk i p)) (\<lambda>_.
        hbind (on_store (report_result h gap clk i p)) (\<lambda>t.
        hbind (drop_input i) (\<lambda>_.
        on_store (after_result h fadd actor clk i p t))))))))"

section \<open>Standard input\<close>

definition input_envelope :: "int \<Rightarrow> task_input_payload \<Rightarrow> jv" where
  "input_envelope i p =
     jobj [(''op'', JStr ''task-input''), (''task_id'', jint i), (''dispatcher_id'', JStr (ti_dispatcher_id p)),
           (''lines'', jstrs (ti_lines p)), (''seq'', jint (ti_seq p)),
           (''timestamp'', jint (sint (ti_timestamp p))), (''nonce'', JStr (ti_nonce p))]"

definition admit_input :: "hub \<Rightarrow> (nat \<Rightarrow> int) \<Rightarrow> int \<Rightarrow> task_input_payload \<Rightarrow> (nat \<times> string, unit) handler" where
  "admit_input h clk i p =
     hbind (check (map_res_err (\<lambda>m. (422, m)) (check_skew (ti_timestamp p) (clk 0)))) (\<lambda>_.
     hbind (call internal (dispatcher_public_key (ti_dispatcher_id p))) (\<lambda>key.
     hbind (check (case key of None \<Rightarrow> Inl (403, ''dispatcher not registered '' @ em_dash @ '' stdin post rejected'') | Some k \<Rightarrow> Inr k)) (\<lambda>k.
     hbind (check (map_res_err (\<lambda>m. (403, ''stdin signature invalid: '' @ m))
       (verify_sig h k (input_envelope i p) (ti_signature p)))) (\<lambda>_.
     hbind (call nonce_errors
       (consume_dispatcher_nonce (clk 2) (ti_dispatcher_id p) (ti_nonce p) (utc_now (clk 1)))) (\<lambda>_.
     hbind (call task_errors (get_task i)) (\<lambda>t.
     if cp_dispatcher_id (t_brief t) \<noteq> Some (ti_dispatcher_id p) then
       hfail (403, ''stdin rejected: task was dispatched by a different dispatcher'')
     else if t_status t \<in> set terminal_statuses then
       hfail (409, ''stdin rejected: task is terminal (status='' @ t_status t @ '')'')
     else hret ()))))))"

definition push_input :: "int \<Rightarrow> string list \<Rightarrow> int live_handler" where
  "push_input i ls s =
     (let bucket = opt_default [] (mem_input s i);
          seq = (if bucket = [] then 1 else fst (last bucket) + 1) in
      (Inr seq, s\<lparr>mem_input := (mem_input s)(i \<mapsto> bucket @ [(seq, ls)])\<rparr>))"

definition post_task_input :: "hub \<Rightarrow> (nat \<Rightarrow> int) \<Rightarrow> int \<Rightarrow> task_input_payload \<Rightarrow> (int \<times> nat) live_handler" where
  "post_task_input h clk i p =
     hbind (on_store (admit_input h clk i p)) (\<lambda>_.
     hbind (push_input i (ti_lines p)) (\<lambda>seq.
     hbind (on_store (ignoring (audit_append h ''stdin_input'' (Some i)
       (jobj [(''dispatcher_id'', JStr (ti_dispatcher_id p)), (''line_count'', jint (int (length (ti_lines p)))),
              (''seq'', jint seq)]) (clk 3)))) (\<lambda>_.
     hret (seq, length (ti_lines p)))))"

definition get_task_input :: "int \<Rightarrow> int option \<Rightarrow> (int \<times> string list) list live_handler" where
  "get_task_input i after s =
     (Inr (filter (\<lambda>(seq, ls). opt_default 0 after < seq) (opt_default [] (mem_input s i))), s)"

section \<open>Server-sent events\<close>

text \<open>
  The stream of events of a task: one round a second until the task is terminal or the store fails.
  The result is the events of at most \<open>n\<close> rounds and whether the stream has ended.
\<close>

datatype sse_event =
    NotFoundEvent
  | StoreErrorEvent string
  | ProgressEvent progress_entry
  | TaskEvent task_row

definition last_sent :: "int \<Rightarrow> progress_entry list \<Rightarrow> int" where
  "last_sent after entries = (if entries = [] then after else pg_seq (last entries))"

fun task_events :: "nat \<Rightarrow> int \<Rightarrow> int \<Rightarrow> world \<Rightarrow> (sse_event list \<times> bool) \<times> world" where
  "task_events 0 i after w = (([], False), w)"
| "task_events (Suc n) i after w =
     (case get_task i w of
        (Inl (NotFound _), w1) \<Rightarrow> (([NotFoundEvent], True), w1)
      | (Inl e, w1) \<Rightarrow> (([StoreErrorEvent (store_error_text e)], True), w1)
      | (Inr t, w1) \<Rightarrow>
          (case progress_since i after w1 of
             (Inl e, w2) \<Rightarrow> (([StoreErrorEvent (store_error_text e)], True), w2)
           | (Inr entries, w2) \<Rightarrow>
               (let es = map ProgressEvent entries @ [TaskEvent t] in
                if t_status t \<in> set terminal_statuses then ((es, True), w2)
                else
                  (case task_events n i (last_sent after entries) w2 of
                     ((es', ended), w3) \<Rightarrow> ((es @ es', ended), w3)))))"

section \<open>Writing lines\<close>

definition revealed :: "hub \<Rightarrow> db \<Rightarrow> (secret_error, (string \<times> string) list) res" where
  "revealed h d =
     open_all (hub_broker h) (map (\<lambda>s. (s_name s, s_encrypted_value s)) (sort_key s_name (secrets d)))"

lemmas handler_simps = hbind_def hret_def hfail_def call_def check_def

lemma redacted_calm:
  assumes "revealed h d = Inr vs"
  shows "redacted h l (calm d) = (Inr (redact_with vs l), calm d)"
  using assms by (simp add: redacted_def state_redact_text_def all_secret_envelopes_def redact_text_def
      revealed_def handler_simps calm_simps)

lemma redact_optional_calm:
  assumes "revealed h d = Inr vs"
  shows "redact_optional h v (calm d) = (Inr (map_option (redact_with vs) v), calm d)"
  by (simp add: redact_optional_def redacted_calm [OF assms] handler_simps split: option.split)

lemma group_batch_calm:
  assumes "revealed h d = Inr vs"
  shows "group_batch h es gs (calm d) =
    (Inr (fold (\<lambda>e. add_line (pe_worker_id e) (pe_channel e, redact_with vs (pe_line e))) es gs), calm d)"
  by (induction es arbitrary: gs) (simp_all add: redacted_calm [OF assms] handler_simps)

text \<open>The lines of a batch as they are stored.\<close>

definition shown :: "(string \<times> string) list \<Rightarrow> pending_entry list \<Rightarrow> (string \<times> string) list" where
  "shown vs es = map (\<lambda>e. (pe_channel e, redact_with vs (pe_line e))) es"

lemma group_one_worker:
  assumes "list_all (\<lambda>e. pe_worker_id e = w) es"
  shows "fold (\<lambda>e. add_line (pe_worker_id e) (pe_channel e, redact_with vs (pe_line e))) es [(w, acc)] =
    [(w, acc @ shown vs es)]"
  using assms by (induction es arbitrary: acc) (simp_all add: shown_def)

lemma group_keeps_first:
  "\<exists>es' gs'. fold (\<lambda>e. add_line (pe_worker_id e) (pe_channel e, redact_with vs (pe_line e))) es ((w, l # ls) # gs) =
    (w, l # es') # gs'"
proof (induction es arbitrary: ls gs)
  case (Cons e es)
  then show ?case by (cases "pe_worker_id e = w") (simp_all)
qed simp

definition same_but_log :: "db \<Rightarrow> db \<Rightarrow> bool" where
  "same_but_log d d' \<longleftrightarrow> d'\<lparr>task_streams := [], last_stream_id := 0\<rparr> = d\<lparr>task_streams := [], last_stream_id := 0\<rparr>"

lemma same_but_log_refl [simp]: "same_but_log d d"
  by (simp add: same_but_log_def)

lemma same_but_logD:
  assumes "same_but_log d d'"
  shows "tasks d' = tasks d" "secrets d' = secrets d" "last_task_id d' = last_task_id d" "results d' = results d"
  using assms [unfolded same_but_log_def, THEN arg_cong [where f = tasks]]
    assms [unfolded same_but_log_def, THEN arg_cong [where f = secrets]]
    assms [unfolded same_but_log_def, THEN arg_cong [where f = last_task_id]]
    assms [unfolded same_but_log_def, THEN arg_cong [where f = results]]
  by simp_all

lemma append_lines_log:
  "append_lines j s entries now (calm d) = (r, calm d') \<Longrightarrow> same_but_log d d'"
proof (induction entries arbitrary: s d r)
  case Nil
  then show ?case by (simp add: ret_def)
next
  case (Cons e entries)
  obtain ch l where e: "e = (ch, l)" by fastforce
  let ?d1 = "snd (insert_line j (s + 1) ch l now d)"
  have run: "append_lines j (s + 1) entries now (calm ?d1) = (fst (append_lines j (s + 1) entries now (calm ?d1)), calm d')"
    using Cons.prems by (auto simp: e calm_simps split: prod.splits sum.splits)
  from Cons.IH [OF this] have "same_but_log ?d1 d'" .
  then show ?case by (simp add: same_but_log_def insert_line_def Let_def)
qed

lemma flush_batch_own:
  assumes env: "revealed h d = Inr vs" and num: "numbered i d" and t: "find_task i d = Some t"
    and own: "\<forall>e \<in> set es. t_worker_id t = Some (pe_worker_id e)"
  obtains rs d' where "flush_batch h clock i es (calm d) = (Inr (length es), calm d')" "same_but_log d d'"
    "lines_of i d' = lines_of i d @ rs" "map (\<lambda>r. (sl_channel r, sl_line r)) rs = shown vs es" "numbered i d'"
proof (cases es)
  case Nil
  then show thesis using that [of d "[]"] num by (simp add: flush_batch_def handler_simps shown_def)
next
  case (Cons e es')
  let ?w = "pe_worker_id e"
  have same: "list_all (\<lambda>e. pe_worker_id e = ?w) es'"
    using own Cons by (auto simp: list_all_iff)
  have tw: "t_worker_id t = Some ?w" using own Cons by simp
  have groups: "fold (\<lambda>e. add_line (pe_worker_id e) (pe_channel e, redact_with vs (pe_line e))) es [] =
      [(?w, shown vs es)]"
    using group_one_worker [OF same, of vs "shown vs [e]"] by (simp add: Cons shown_def)
  have ne: "shown vs es \<noteq> []" by (simp add: Cons shown_def)
  obtain rs d' where app: "append_lines i (int (length (lines_of i d))) (shown vs es) (utc_now clock) (calm d) = (Inr rs, calm d')"
    "map (\<lambda>r. (sl_channel r, sl_line r)) rs = shown vs es" "lines_of i d' = lines_of i d @ rs"
    "\<forall>j. numbered j d \<longrightarrow> numbered j d'"
    using append_lines_calm [OF refl, of i d "shown vs es" "utc_now clock"] by blast
  have "append_stream_bulk i ?w (shown vs es) (utc_now clock) (calm d) = (Inr rs, calm d')"
    using ne t tw app(1) by (simp add: append_stream_bulk_def calm_simps numbered_max [OF num])
  moreover have "length rs = length es" using app(2) by (metis length_map shown_def)
  ultimately have "flush_batch h clock i es (calm d) = (Inr (length es), calm d')"
    using Cons by (simp add: flush_batch_def hbind_def group_batch_calm [OF env] redacted_calm [OF env]
        groups [unfolded Cons, simplified] call_def hret_def)
  then show thesis using that app num append_lines_log [OF app(1)] by blast
qed

lemma flush_batch_foreign:
  assumes env: "revealed h d = Inr vs" and t: "find_task i d = Some t" and other: "t_worker_id t \<noteq> Some (pe_worker_id e)"
  shows "flush_batch h clock i (e # es) (calm d) = (Inl (403, ''worker mismatch on stream bulk append''), calm d)"
proof -
  obtain ls gs where groups: "fold (\<lambda>e. add_line (pe_worker_id e) (pe_channel e, redact_with vs (pe_line e))) es
      [(pe_worker_id e, [(pe_channel e, redact_with vs (pe_line e))])] =
      (pe_worker_id e, (pe_channel e, redact_with vs (pe_line e)) # ls) # gs"
    using group_keeps_first [of vs es "pe_worker_id e" "(pe_channel e, redact_with vs (pe_line e))" "[]" "[]"] by blast
  show ?thesis
    using t other by (simp add: flush_batch_def hbind_def group_batch_calm [OF env] redacted_calm [OF env] groups
        append_stream_bulk_def calm_simps call_def owner_errors_def)
qed

text \<open>
  One buffered line sent under another worker's name is enough to lose the output of a task: when the
  owner of a running task reports its result, the buffer of the task is emptied, the flush is refused
  because of the foreign line at its head, and the report is answered 403. Nothing of the buffer is
  stored, the task keeps its status, and the lines the owner had sent are no longer in the buffer.
\<close>

lemma foreign_line_loses_log:
  assumes "revealed h d = Inr vs" and "find_task i d = Some t" and "buffered b i = e # es"
    and "t_worker_id t \<noteq> Some (pe_worker_id e)" and "rq_status p \<in> set terminal_statuses"
  shows "\<exists>b'. submit_result_route h gap fadd actor clk i p \<lparr>mem_buffer = b, mem_input = q, mem_world = calm d\<rparr> =
      (Inl (403, ''worker mismatch on stream bulk append''), \<lparr>mem_buffer = b', mem_input = q, mem_world = calm d\<rparr>)
    \<and> buffered b' i = []"
proof -
  have b: "sb_pending b i = Some (e # es)"
    using assms(3) by (cases "sb_pending b i") (simp_all add: buffered_def)
  show ?thesis
    using assms(5) by (simp add: submit_result_route_def hbind_def on_buffer_def buffer_flush_task_def b on_store_def
        flush_batch_foreign [OF assms(1,2,4)] buffered_def)
qed

section \<open>The outcome of a result\<close>

lemma settled_same_rows:
  assumes "settled S d" "tasks d' = tasks d" "last_task_id d' = last_task_id d"
  shows "settled S d'"
  using assms by (simp add: settled_def)

lemma find_task_rows: "tasks d' = tasks d \<Longrightarrow> find_task i d' = find_task i d"
  by (simp add: find_task_def)

lemma lines_of_rows: "task_streams d' = task_streams d \<Longrightarrow> lines_of i d' = lines_of i d \<and> (numbered i d' \<longleftrightarrow> numbered i d)"
  by (simp add: lines_of_def numbered_def)

definition completion_verdict :: "hub \<Rightarrow> int \<Rightarrow> result_payload \<Rightarrow> policy_decision" where
  "completion_verdict h i p =
     gate_completion (hub_gate h) \<lparr>cr_task_id = show_int i, cr_changed_paths = rq_files_touched p, cr_diff_lines = 0\<rparr>"

lemma completion_gate_calm:
  assumes S: "settled {} d" and t: "find_task i d = Some t"
  obtains ds d' where
    "completion_gate h actor clk i p (calm d) =
      (if denied (completion_verdict h i p)
       then Inl (403, ''completion denied by policy: '' @ join_reasons (completion_verdict h i p)) else Inr (), calm d')"
    "find_task i d' = Some (t\<lparr>t_policy_decisions := ds\<rparr>)" "settled {} d'" "task_streams d' = task_streams d"
    "secrets d' = secrets d"
proof -
  define ds where "ds = push_decision (policy_evidence ''completion'' (completion_verdict h i p) (utc_now (clk 1))
    (jobj [(''worker_id'', JStr (rq_worker_id p)), (''terminal_status'', JStr (rq_status p)),
           (''files_touched'', jstrs (rq_files_touched p))])) (t_policy_decisions t)"
  let ?d1 = "snd (evidence_stmt i ds d)"
  have d1: "find_task i ?d1 = Some (t\<lparr>t_policy_decisions := ds\<rparr>)"
    unfolding evidence_stmt_def using find_task_SomeD [OF t] by (subst find_edit_tasks) (simp_all add: t)
  have s1: "settled {} ?d1" "task_streams ?d1 = task_streams d" "secrets ?d1 = secrets d"
    using S by (auto simp: settled_def evidence_stmt_def edit_tasks_def update_where_def comp_def if_distrib [of t_id] cong: if_cong)
  obtain d2 where audit: "ignoring (audit_append h ''completion_denied'' (Some i)
          (jobj [(''reason'', JStr (join_reasons (completion_verdict h i p))), (''worker_id'', JStr (rq_worker_id p)),
                 (''attribution'', attribution actor)]) (clk 2)) (calm ?d1) = (Inr () :: (nat \<times> string, unit) res, calm d2)"
    "same_but_audit ?d1 d2" by (rule calm_ignoring_audit)
  note run = completion_gate_def Let_def completion_verdict_def [symmetric] hbind_def call_def hret_def hfail_def
    append_decision_calm [OF t] ds_def
  show thesis
  proof (cases "denied (completion_verdict h i p)")
    case True
    note rows = same_but_auditD [OF audit(2)]
    have "completion_gate h actor clk i p (calm d) =
        (Inl (403, ''completion denied by policy: '' @ join_reasons (completion_verdict h i p)), calm d2)"
      using audit(1) True by (simp add: run)
    moreover have "find_task i d2 = find_task i ?d1" by (rule find_task_rows [OF rows(1)])
    moreover have "settled {} d2" by (rule settled_same_rows [OF s1(1) rows(1,2)])
    ultimately show thesis using that [of d2 ds] True d1 s1(2,3) rows(11) rows(8) by simp
  next
    case False
    then show thesis using that [of ?d1 ds] d1 s1 by (simp add: run)
  qed
qed

lemma report_result_calm:
  assumes S: "settled {} d" and t: "find_task i d = Some t" "t_worker_id t = Some (rq_worker_id p)"
    and env: "revealed h d = Inr vs"
  obtains t' d' where "report_result h gap clk i p (calm d) = (Inr t', calm d')" "find_task i d' = Some t'"
    "t_status t' = rq_status p" "t_completed_at t' = Some (utc_now (clk 3))" "task_streams d' = task_streams d"
    "list_all (\<lambda>r. r_task_id r \<noteq> i) (butlast (results d'))" "results d' \<noteq> []" "r_status (last (results d')) = rq_status p"
proof -
  define q where "q = result_params i p (map_option (redact_with vs) (rq_test_summary p))
    (map_option (redact_with vs) (rq_log_tail p)) (map_option (redact_with vs) (rq_error p))"
  have q: "sr_task_id q = i" "sr_worker_id q = rq_worker_id p" "sr_status q = rq_status p"
    by (simp_all add: q_def result_params_def)
  let ?t = "finished_row gap q (utc_now (clk 3)) t"
  let ?d = "d\<lparr>tasks := map (\<lambda>u. if u = t then ?t else u) (tasks d),
              results := delete_where (\<lambda>r. r_task_id r = i) (results d) @ [result_of q (utc_now (clk 3)) t]\<rparr>"
  have "report_result h gap clk i p (calm d) = (Inr ?t, calm ?d)"
    using t by (simp add: report_result_def hbind_def redact_optional_calm [OF env] call_def q_def [symmetric]
        submit_result_calm [OF S] q)
  moreover have "find_task i ?d = Some ?t"
  proof -
    have "snd (finish_stmt gap q (utc_now (clk 3)) d) = d\<lparr>tasks := map (\<lambda>u. if u = t then ?t else u) (tasks d)\<rparr>"
      using edit_tasks_one [OF S t(1), where Q = "\<lambda>t. t_worker_id t = Some (rq_worker_id p)"] t(2)
      by (simp add: finish_stmt_def q finished_row_def [abs_def])
    moreover have "find_task i (snd (finish_stmt gap q (utc_now (clk 3)) d)) = Some ?t"
      unfolding finish_stmt_def using find_task_SomeD [OF t(1)] t
      by (subst find_edit_tasks) (auto simp: finished_row_def q)
    ultimately show ?thesis by (simp add: find_task_def)
  qed
  moreover have "t_status ?t = rq_status p" "t_completed_at ?t = Some (utc_now (clk 3))"
    by (simp_all add: finished_row_def q)
  moreover have "list_all (\<lambda>r. r_task_id r \<noteq> i) (butlast (results ?d))" "r_status (last (results ?d)) = rq_status p"
    by (simp_all add: delete_where_def list_all_iff result_of_def q)
  ultimately show thesis using that by simp
qed

definition result_part :: "db \<Rightarrow> task_row list \<times> stream_line list \<times> result_row list" where
  "result_part d = (tasks d, task_streams d, results d)"

lemma record_cost_result_part:
  obtains d' where "ignoring (record_cost fadd c) (calm d) = (Inr () :: (nat \<times> string, unit) res, calm d')"
    "result_part d' = result_part d"
proof -
  have "\<exists>d'. ignoring (record_cost fadd c) (calm d) = (Inr () :: (nat \<times> string, unit) res, calm d')
      \<and> result_part d' = result_part d"
    by (cases "fst (cost_tx fadd c d)")
      (auto simp: ignoring_def record_cost_def calm_simps cost_tx_def Let_def result_part_def)
  then show thesis using that by blast
qed

lemma after_result_calm:
  obtains d' where "after_result h fadd actor clk i p t (calm d) = (Inr t, calm d')" "result_part d' = result_part d"
proof -
  obtain d1 where a: "ignoring (audit_append h ''result'' (Some i) (result_audit actor i p t) (clk 4)) (calm d) =
      (Inr () :: (nat \<times> string, unit) res, calm d1)" "same_but_audit d d1" by (rule calm_ignoring_audit)
  have d1: "result_part d1 = result_part d" using same_but_auditD [OF a(2)] by (simp add: result_part_def)
  show thesis
  proof (cases "rq_cost_usd p")
    case None
    then show thesis using that [OF _ d1] a(1) by (simp add: after_result_def handler_simps)
  next
    case (Some cost)
    obtain d2 where c: "ignoring (record_cost fadd (cost_of_result i p t cost (utc_now (clk 5)))) (calm d1) =
        (Inr () :: (nat \<times> string, unit) res, calm d2)" "result_part d2 = result_part d1"
      by (rule record_cost_result_part)
    show thesis using that [of d2] a(1) c d1 Some by (simp add: after_result_def handler_simps)
  qed
qed

text \<open>The lines a task holds after the flush of a batch: the old ones, then the batch.\<close>

definition log_grew :: "int \<Rightarrow> db \<Rightarrow> db \<Rightarrow> (string \<times> string) list \<Rightarrow> bool" where
  "log_grew i d d' new \<longleftrightarrow>
     (\<exists>rs. lines_of i d' = lines_of i d @ rs \<and> map (\<lambda>r. (sl_channel r, sl_line r)) rs = new) \<and> numbered i d'"

lemma log_grew_rows: "task_streams d'' = task_streams d' \<Longrightarrow> log_grew i d d'' new = log_grew i d d' new"
  by (simp add: log_grew_def lines_of_def numbered_def)

text \<open>
  C17. What the owner of a task gets for its result when nobody interferes and the buffered lines are its
  own. The buffered lines reach the log first, redacted, in the order in which they were sent and under
  the next free numbers, and leave the buffer, whatever the policy says of the result. If the completion
  gate denies the result, the report is answered 403, the task keeps its status, and the queue of input
  stays; otherwise the task takes the reported status, its result row replaces any earlier one, and the
  queue of input is dropped.
\<close>

theorem result_flushes_log:
  assumes "settled {} d" and "numbered i d" and "find_task i d = Some t"
    and "t_worker_id t = Some (rq_worker_id p)" and "rq_status p \<in> set terminal_statuses"
    and "\<forall>e \<in> set (buffered b i). pe_worker_id e = rq_worker_id p" and "revealed h d = Inr vs"
  shows "\<exists>r d'.
    (let v = completion_verdict h i p; b' = buffer_forget i (snd (buffer_flush_task i b)) in
       submit_result_route h gap fadd actor clk i p \<lparr>mem_buffer = b, mem_input = q, mem_world = calm d\<rparr> =
         (r, \<lparr>mem_buffer = b', mem_input = (if denied v then q else q(i := None)), mem_world = calm d'\<rparr>)
       \<and> buffered b' i = []
       \<and> log_grew i d d' (shown vs (buffered b i))
       \<and> (if denied v
          then r = Inl (403, ''completion denied by policy: '' @ join_reasons v)
            \<and> map_option t_status (find_task i d') = Some (t_status t)
          else \<exists>t'. r = Inr t' \<and> find_task i d' = Some t' \<and> t_status t' = rq_status p
            \<and> list_all (\<lambda>x. r_task_id x \<noteq> i) (butlast (results d')) \<and> results d' \<noteq> []
            \<and> r_status (last (results d')) = rq_status p))"
proof -
  define b1 where "b1 = snd (buffer_flush_task i b)"
  let ?b2 = "buffer_forget i b1"
  have flush: "fst (buffer_flush_task i b) = buffered b i"
    by (simp add: buffer_flush_task_def buffered_def split: option.split)
  have "\<forall>e \<in> set (buffered b i). t_worker_id t = Some (pe_worker_id e)" using assms(4,6) by simp
  then obtain rs d1 where f: "flush_batch h (clk 0) i (buffered b i) (calm d) = (Inr (length (buffered b i)), calm d1)"
    "same_but_log d d1" "lines_of i d1 = lines_of i d @ rs"
    "map (\<lambda>r. (sl_channel r, sl_line r)) rs = shown vs (buffered b i)" "numbered i d1"
    using flush_batch_own [OF assms(7,2,3)] by blast
  note d1 = same_but_logD [OF f(2)]
  have S1: "settled {} d1" "find_task i d1 = Some t"
    using settled_same_rows [OF assms(1) d1(1,3)] find_task_rows [OF d1(1), of i] assms(3) by simp_all
  obtain ds d2 where g: "completion_gate h actor clk i p (calm d1) =
      (if denied (completion_verdict h i p)
       then Inl (403, ''completion denied by policy: '' @ join_reasons (completion_verdict h i p)) else Inr (), calm d2)"
    "find_task i d2 = Some (t\<lparr>t_policy_decisions := ds\<rparr>)" "settled {} d2" "task_streams d2 = task_streams d1"
    "secrets d2 = secrets d1" by (rule completion_gate_calm [OF S1])
  have grew: "log_grew i d d1 (shown vs (buffered b i))" using f by (auto simp: log_grew_def)
  have empty: "buffered ?b2 i = []" by (simp add: buffer_forget_def buffered_def)
  have taken: "buffer_flush_task i b = (buffered b i, b1)" using flush by (metis b1_def prod.collapse)
  have run: "submit_result_route h gap fadd actor clk i p \<lparr>mem_buffer = b, mem_input = q, mem_world = calm d\<rparr> =
     hbind (on_store (completion_gate h actor clk i p)) (\<lambda>_.
        hbind (on_store (report_result h gap clk i p)) (\<lambda>t.
        hbind (drop_input i) (\<lambda>_.
        on_store (after_result h fadd actor clk i p t)))) \<lparr>mem_buffer = ?b2, mem_input = q, mem_world = calm d1\<rparr>"
    using assms(5) f(1) taken by (simp add: submit_result_route_def hbind_def on_buffer_def on_store_def)
  show ?thesis
  proof (cases "denied (completion_verdict h i p)")
    case True
    then have "submit_result_route h gap fadd actor clk i p \<lparr>mem_buffer = b, mem_input = q, mem_world = calm d\<rparr> =
        (Inl (403, ''completion denied by policy: '' @ join_reasons (completion_verdict h i p)),
         \<lparr>mem_buffer = ?b2, mem_input = q, mem_world = calm d2\<rparr>)"
      unfolding run using g(1) by (simp add: hbind_def on_store_def)
    moreover have "log_grew i d d2 (shown vs (buffered b i))" using grew log_grew_rows [OF g(4)] by simp
    ultimately show ?thesis using True g(2) empty unfolding b1_def [symmetric]
      by (intro exI [of _ "Inl (403, ''completion denied by policy: '' @ join_reasons (completion_verdict h i p))"]
          exI [of _ d2]) (simp add: Let_def)
  next
    case False
    have env2: "revealed h d2 = Inr vs" using assms(7) g(5) d1 by (simp add: revealed_def)
    have own: "t_worker_id (t\<lparr>t_policy_decisions := ds\<rparr>) = Some (rq_worker_id p)" using assms(4) by simp
    obtain t' d3 where r: "report_result h gap clk i p (calm d2) = (Inr t', calm d3)" "find_task i d3 = Some t'"
      "t_status t' = rq_status p" "t_completed_at t' = Some (utc_now (clk 3))" "task_streams d3 = task_streams d2"
      "list_all (\<lambda>r. r_task_id r \<noteq> i) (butlast (results d3))" "results d3 \<noteq> []" "r_status (last (results d3)) = rq_status p"
      by (rule report_result_calm [OF g(3) g(2) own env2])
    obtain d4 where a: "after_result h fadd actor clk i p t' (calm d3) = (Inr t', calm d4)" "result_part d4 = result_part d3"
      by (rule after_result_calm)
    have d4: "tasks d4 = tasks d3" "task_streams d4 = task_streams d3" "results d4 = results d3"
      using a(2) by (simp_all add: result_part_def)
    have "submit_result_route h gap fadd actor clk i p \<lparr>mem_buffer = b, mem_input = q, mem_world = calm d\<rparr> =
        (Inr t', \<lparr>mem_buffer = ?b2, mem_input = q(i := None), mem_world = calm d4\<rparr>)"
      unfolding run using g(1) False r(1) a(1) by (simp add: hbind_def on_store_def drop_input_def)
    moreover have "log_grew i d d4 (shown vs (buffered b i))"
      using grew log_grew_rows [of d4 d1] g(4) r(5) d4(2) by simp
    ultimately show ?thesis using False r(2,3,6-8) empty d4(3) find_task_rows [OF d4(1), of i] unfolding b1_def [symmetric]
      by (intro exI [of _ "Inr t'"] exI [of _ d4]) (simp add: Let_def)
  qed
qed

section \<open>The outcome of standard input\<close>

definition input_queue :: "(int \<Rightarrow> (int \<times> string list) list option) \<Rightarrow> int \<Rightarrow> (int \<times> string list) list" where
  "input_queue q i = opt_default [] (q i)"

definition queue_numbered :: "(int \<Rightarrow> (int \<times> string list) list option) \<Rightarrow> int \<Rightarrow> bool" where
  "queue_numbered q i \<longleftrightarrow> map fst (input_queue q i) = [1..int (length (input_queue q i))]"

definition input_ok :: "hub \<Rightarrow> (nat \<Rightarrow> int) \<Rightarrow> int \<Rightarrow> task_input_payload \<Rightarrow> db \<Rightarrow> bool" where
  "input_ok h clk i p d \<longleftrightarrow>
     check_skew (ti_timestamp p) (clk 0) = Inr ()
     \<and> (case find_dispatcher (ti_dispatcher_id p) d of
          None \<Rightarrow> False
        | Some x \<Rightarrow> verify_sig h (d_public_key x) (input_envelope i p) (ti_signature p) = Inr ())
     \<and> nonce_free (clk 2) (ti_dispatcher_id p) (ti_nonce p) d
     \<and> (case find_task i d of
          None \<Rightarrow> False
        | Some t \<Rightarrow> cp_dispatcher_id (t_brief t) = Some (ti_dispatcher_id p) \<and> t_status t \<notin> set terminal_statuses)"

lemma get_task_found:
  "get_task i (calm d) = (case find_task i d of None \<Rightarrow> (Inl (NotFound (''task '' @ show_int i)), calm d)
      | Some t \<Rightarrow> (Inr t, calm d))"
  by (simp add: get_task_def calm_simps split: option.splits)

lemma admit_input_calm:
  obtains r d' where "admit_input h clk i p (calm d) = (r, calm d')" "tasks d' = tasks d"
    "is_ok r \<longleftrightarrow> input_ok h clk i p d"
proof -
  let ?run = "admit_input h clk i p (calm d)"
  note goal_done = that
  note run = admit_input_def hbind_def check_def call_def hret_def hfail_def dispatcher_public_key_def calm_query
  have early: thesis if "?run = (Inl e, calm d)" "\<not> input_ok h clk i p d" for e
    using goal_done [OF that(1) refl] that(2) by simp
  consider e where "check_skew (ti_timestamp p) (clk 0) = Inl e"
    | "check_skew (ti_timestamp p) (clk 0) = Inr ()" "find_dispatcher (ti_dispatcher_id p) d = None"
    | x e where "check_skew (ti_timestamp p) (clk 0) = Inr ()" "find_dispatcher (ti_dispatcher_id p) d = Some x"
      "verify_sig h (d_public_key x) (input_envelope i p) (ti_signature p) = Inl e"
    | x where "check_skew (ti_timestamp p) (clk 0) = Inr ()" "find_dispatcher (ti_dispatcher_id p) d = Some x"
      "verify_sig h (d_public_key x) (input_envelope i p) (ti_signature p) = Inr ()"
    using res_unit_cases by (metis option.exhaust)
  then show thesis
  proof cases
    case 1
    then show thesis by (intro early) (auto simp: run input_ok_def)
  next
    case 2
    then show thesis by (intro early) (auto simp: run input_ok_def)
  next
    case 3
    then show thesis by (intro early) (auto simp: run input_ok_def)
  next
    case 4
    obtain s d1 where c: "consume_dispatcher_nonce (clk 2) (ti_dispatcher_id p) (ti_nonce p) (utc_now (clk 1)) (calm d) =
        (s, calm d1)" "queue_part d1 = queue_part d"
      "is_ok s \<longleftrightarrow> find_dispatcher (ti_dispatcher_id p) d \<noteq> None \<and> nonce_free (clk 2) (ti_dispatcher_id p) (ti_nonce p) d"
      by (rule consume_dispatcher_calm)
    have d1: "tasks d1 = tasks d" using c(2) by (simp add: queue_part_def)
    have same: "find_task i d1 = find_task i d" by (rule find_task_rows [OF d1])
    show thesis
    proof (cases s)
      case (Inl e)
      then have "\<not> input_ok h clk i p d" using c(3) 4 by (simp add: input_ok_def)
      then show thesis using goal_done [OF _ d1] 4 c(1) Inl by (simp add: run)
    next
      case (Inr u)
      then have free: "nonce_free (clk 2) (ti_dispatcher_id p) (ti_nonce p) d" using c(3) by simp
      show thesis
      proof (cases "find_task i d")
        case None
        then have "\<not> input_ok h clk i p d" by (simp add: input_ok_def)
        then show thesis using goal_done [OF _ d1] 4 c(1) Inr None same
          by (simp add: run get_task_found task_errors_def)
      next
        case (Some t)
        then have ok: "input_ok h clk i p d \<longleftrightarrow>
            cp_dispatcher_id (t_brief t) = Some (ti_dispatcher_id p) \<and> t_status t \<notin> set terminal_statuses"
          using 4 free by (simp add: input_ok_def)
        define r :: "(nat \<times> string, unit) res" where "r = (if cp_dispatcher_id (t_brief t) \<noteq> Some (ti_dispatcher_id p) then
            Inl (403, ''stdin rejected: task was dispatched by a different dispatcher'')
          else if t_status t \<in> set terminal_statuses then
            Inl (409, ''stdin rejected: task is terminal (status='' @ t_status t @ '')'') else Inr ())"
        have "?run = (r, calm d1)"
          using 4 c(1) Inr Some same unfolding r_def by (simp add: run get_task_found)
        moreover have "is_ok r \<longleftrightarrow> input_ok h clk i p d" unfolding ok r_def by simp
        ultimately show thesis using goal_done [OF _ d1] by blast
      qed
    qed
  qed
qed

lemma next_input_number:
  assumes "queue_numbered q i"
  shows "(if input_queue q i = [] then 1 else fst (last (input_queue q i)) + 1) = int (length (input_queue q i)) + 1"
proof (cases "input_queue q i = []")
  case False
  have "fst (last (input_queue q i)) = last (map fst (input_queue q i))" using False by (simp add: last_map)
  also have "\<dots> = int (length (input_queue q i))"
  proof -
    have ne: "[1..int (length (input_queue q i))] \<noteq> []" using False by simp
    then show ?thesis
      using assms upto_rec2 [of 1 "int (length (input_queue q i))"] False by (simp add: queue_numbered_def Suc_leI)
  qed
  finally show ?thesis using False by simp
qed simp

lemma queue_numbered_snoc:
  assumes "queue_numbered q i"
  shows "queue_numbered (q(i \<mapsto> input_queue q i @ [(int (length (input_queue q i)) + 1, ls)])) i"
proof -
  let ?n = "int (length (input_queue q i))"
  have "[1..?n + 1] = [1..?n] @ [?n + 1]" using upto_rec2 [of 1 "?n + 1"] by simp
  then show ?thesis
    using assms by (simp add: queue_numbered_def input_queue_def add.commute)
qed

text \<open>
  Standard input that nobody disturbs, for a task whose queue is numbered 1, 2, 3, and so on. A batch
  is admitted exactly when its timestamp is fresh, its dispatcher is registered and signed it, the nonce
  is free, and the task exists, was sent by that dispatcher and is not terminal; then it gets the next
  number, so the queue stays numbered, and a runner that has read the \<open>n\<close> batches before it is handed
  that batch alone. Otherwise the queues stay as they were.
\<close>

lemma stdin_outcome:
  assumes "queue_numbered q i"
  shows "\<exists>r q' d'.
      post_task_input h clk i p \<lparr>mem_buffer = b, mem_input = q, mem_world = calm d\<rparr> =
        (r, \<lparr>mem_buffer = b, mem_input = q', mem_world = calm d'\<rparr>)
    \<and> tasks d' = tasks d
    \<and> (let n = length (input_queue q i) in
       if input_ok h clk i p d
       then r = Inr (int n + 1, length (ti_lines p))
         \<and> q' = q(i \<mapsto> input_queue q i @ [(int n + 1, ti_lines p)]) \<and> queue_numbered q' i
         \<and> fst (get_task_input i (Some (int n)) \<lparr>mem_buffer = b, mem_input = q', mem_world = calm d'\<rparr>) =
             Inr [(int n + 1, ti_lines p)]
       else \<not> is_ok r \<and> q' = q)"
proof -
  let ?n = "length (input_queue q i)"
  obtain r1 d1 where a: "admit_input h clk i p (calm d) = (r1, calm d1)" "tasks d1 = tasks d"
    "is_ok r1 \<longleftrightarrow> input_ok h clk i p d" by (rule admit_input_calm)
  show ?thesis
  proof (cases r1)
    case (Inl e)
    then have "post_task_input h clk i p \<lparr>mem_buffer = b, mem_input = q, mem_world = calm d\<rparr> =
        (Inl e, \<lparr>mem_buffer = b, mem_input = q, mem_world = calm d1\<rparr>)"
      using a(1) by (simp add: post_task_input_def hbind_def on_store_def)
    then show ?thesis using a(2,3) Inl by auto
  next
    case (Inr u)
    let ?q = "q(i \<mapsto> input_queue q i @ [(int ?n + 1, ti_lines p)])"
    obtain d2 where audit: "ignoring (audit_append h ''stdin_input'' (Some i)
       (jobj [(''dispatcher_id'', JStr (ti_dispatcher_id p)), (''line_count'', jint (int (length (ti_lines p)))),
              (''seq'', jint (int ?n + 1))]) (clk 3)) (calm d1) = (Inr () :: (nat \<times> string, unit) res, calm d2)"
      "same_but_audit d1 d2" by (rule calm_ignoring_audit)
    have push: "push_input i (ti_lines p) \<lparr>mem_buffer = b, mem_input = q, mem_world = calm d1\<rparr> =
        (Inr (int ?n + 1), \<lparr>mem_buffer = b, mem_input = ?q, mem_world = calm d1\<rparr>)"
      unfolding push_input_def Let_def live.simps input_queue_def [symmetric] next_input_number [OF assms] by simp
    have run: "post_task_input h clk i p \<lparr>mem_buffer = b, mem_input = q, mem_world = calm d\<rparr> =
        (Inr (int ?n + 1, length (ti_lines p)), \<lparr>mem_buffer = b, mem_input = ?q, mem_world = calm d2\<rparr>)"
      using a(1) Inr push audit(1) by (simp add: post_task_input_def hbind_def on_store_def hret_def)
    have "filter (\<lambda>(seq, ls). int ?n < seq) (input_queue q i) = []"
    proof -
      have "\<forall>x \<in> set (input_queue q i). fst x \<in> set [1..int ?n]"
        using assms unfolding queue_numbered_def by (metis image_eqI set_map)
      then show ?thesis by (auto simp: filter_empty_conv)
    qed
    then have "fst (get_task_input i (Some (int ?n)) \<lparr>mem_buffer = b, mem_input = ?q, mem_world = calm d2\<rparr>) =
        Inr [(int ?n + 1, ti_lines p)]"
      by (simp add: get_task_input_def)
    moreover have "tasks d2 = tasks d" using same_but_auditD(1) [OF audit(2)] a(2) by simp
    moreover have "input_ok h clk i p d" using a(3) Inr by simp
    ultimately show ?thesis using run queue_numbered_snoc [OF assms, of "ti_lines p"]
      by (intro exI [of _ "Inr (int ?n + 1, length (ti_lines p))"] exI [of _ ?q] exI [of _ d2]) (simp add: Let_def)
  qed
qed

section \<open>The event stream ends\<close>

text \<open>The database once every turn the script still holds has happened.\<close>

definition settled_view :: "world \<Rightarrow> db" where
  "settled_view w = fold turn_env (script w) (db w)"

text \<open>A statement that only reads: what the others do goes on, one turn of the script later.\<close>

lemma query_turn:
  obtains (failed) e w' where "query f w = (Inl e, w')"
  | (now) w' where "query f w = (Inr (f (db w')), w')" "settled_view w' = settled_view w"
      "length (script w') = length (script w) - 1" "script w' = [] \<longrightarrow> db w' = settled_view w"
proof (cases "script w")
  case Nil
  then have "query f w = (Inr (f (db w)), w)"
    by (simp add: query_def lift_rq_def query_rq_def statement_def next_turn_def)
  then show thesis using now Nil by (simp add: settled_view_def)
next
  case (Cons t ts)
  let ?w = "w\<lparr>db := turn_env t (db w), script := ts\<rparr>"
  show thesis
  proof (cases "turn_reply t")
    case Answered
    then have "query f w = (Inr (f (db ?w)), ?w)"
      using Cons by (simp add: query_def lift_rq_def query_rq_def statement_def next_turn_def)
    then show thesis using now Cons by (simp add: settled_view_def)
  next
    case (Refused e)
    then show thesis using failed Cons
      by (simp add: query_def lift_rq_def query_rq_def statement_def next_turn_def)
  next
    case (Lost e)
    then show thesis using failed Cons
      by (simp add: query_def lift_rq_def query_rq_def statement_def next_turn_def)
  qed
qed

text \<open>
  C34. The event stream of a task ends: if the task is terminal, or gone, once the \<open>k\<close> things that are
  still to happen to the store have happened, then the stream has ended after \<open>k div 2 + 1\<close> rounds at
  the latest, whatever happens in between and whichever of its requests fail.
\<close>

theorem task_events_end:
  assumes "length (script w) < 2 * n"
    and "list_all (\<lambda>t. t_id t = i \<longrightarrow> t_status t \<in> set terminal_statuses) (tasks (fold turn_env (script w) (db w)))"
  shows "snd (fst (task_events n i after w))"
  using assms
proof (induction n i after w rule: task_events.induct)
  case (2 n i after w)
  let ?last = "settled_view w"
  have final: "t_status t \<in> set terminal_statuses" if "find_task i ?last = Some t" for t
    using find_task_SomeD [OF that] "2.prems"(2) by (auto simp: settled_view_def list_all_iff)
  show ?case
  proof (cases "find_task i" w rule: query_turn)
    case (failed e w')
    then show ?thesis by (auto simp: get_task_def bind_op_def split: store_error.splits)
  next
    case (now w1)
    show ?thesis
    proof (cases "find_task i (db w1)")
      case None
      then show ?thesis using now by (simp add: get_task_def bind_op_def fail_def)
    next
      case (Some t)
      let ?f = "\<lambda>d :: db. sort_key pg_seq (filter (\<lambda>r. pg_task_id r = i \<and> after < pg_seq r) (progress d))"
      have get: "get_task i w = (Inr t, w1)" using now Some by (simp add: get_task_def bind_op_def ret_def)
      show ?thesis
      proof (cases ?f w1 rule: query_turn)
        case (failed e w')
        then show ?thesis using get by (simp add: progress_since_def)
      next
        case (now w2)
        then have prog: "progress_since i after w1 = (Inr (?f (db w2)), w2)" by (simp add: progress_since_def)
        show ?thesis
        proof (cases "t_status t \<in> set terminal_statuses")
          case True
          then show ?thesis using get prog by (simp add: Let_def)
        next
          case False
          have "script w1 \<noteq> []" using False final Some \<open>script w1 = [] \<longrightarrow> db w1 = ?last\<close> by metis
          then have len: "length (script w2) < 2 * n"
            using "2.prems"(1) now(3) \<open>length (script w1) = length (script w) - 1\<close>
            by (cases "script w1") auto
          have view: "settled_view w2 = ?last" using now(2) \<open>settled_view w1 = ?last\<close> by simp
          have "snd (fst (task_events n i (last_sent after (?f (db w2))) w2))"
            using "2.IH" [OF get [symmetric] refl prog [symmetric] refl refl False len] "2.prems"(2) view
            by (simp add: settled_view_def)
          then show ?thesis using get prog False
            by (cases "task_events n i (last_sent after (?f (db w2))) w2"; cases "fst (task_events n i (last_sent after (?f (db w2))) w2)")
              (simp add: Let_def)
        qed
      qed
    qed
  qed
qed simp

section \<open>A running task to look at\<close>

definition stdin_task :: task_row where
  "stdin_task = claimed_row ''w'' ''h'' ''n'' (new_task (demo_params\<lparr>cp_dispatcher_id := Some ''d1''\<rparr>) ''n'' 1)"

definition running_db :: db where
  "running_db = empty_db\<lparr>tasks := [stdin_task], last_task_id := 1, dispatchers := [demo_dispatcher]\<rparr>"

definition demo_report :: result_payload where
  "demo_report =
     \<lparr>rq_worker_id = ''w'', rq_status = ''done'', rq_head_commit = None, rq_commits = [], rq_files_touched = [],
      rq_test_summary = None, rq_log_tail = None, rq_error = None, rq_model_id = None, rq_prompt_tokens = None,
      rq_completion_tokens = None, rq_cost_usd = None, rq_wall_seconds = None, rq_runner_cpu_seconds = None,
      rq_exit_code = Some 0\<rparr>"

definition line_from :: "string \<Rightarrow> pending_entry" where
  "line_from worker = \<lparr>pe_task_id = 1, pe_worker_id = worker, pe_channel = ''stdout'', pe_line = ''hello'', pe_ts = []\<rparr>"

definition holding :: "pending_entry list \<Rightarrow> stream_buffer" where
  "holding es = \<lparr>sb_profile = Balanced, sb_pending = (\<lambda>i. if i = 1 then Some es else None)\<rparr>"

lemma running:
  "find_task 1 running_db = Some stdin_task" "t_worker_id stdin_task = Some ''w''" "settled {} running_db"
  "numbered 1 running_db" "revealed h running_db = Inr []" "t_status stdin_task = ''claimed''"
  by (simp_all add: running_db_def stdin_task_def claimed_row_def new_task_def find_task_def first_row_def settled_def
      numbered_def lines_of_def empty_db_def revealed_def open_all_def)

lemma held_lines: "buffered (holding es) 1 = es" "\<lbrakk>es \<noteq> []\<rbrakk> \<Longrightarrow> buffered (holding es) 1 \<noteq> []"
  by (simp_all add: holding_def buffered_def)

lemma foreign_line_loses_log_witness:
  "fst (submit_result_route toy_hub (\<lambda>_ _. None) (\<lambda>x y. x) demo_actor (\<lambda>_. 0) 1 demo_report
     \<lparr>mem_buffer = holding [line_from ''x'', line_from ''w''], mem_input = (\<lambda>_. None), mem_world = calm running_db\<rparr>) =
   Inl (403, ''worker mismatch on stream bulk append'')"
proof -
  have "t_worker_id stdin_task \<noteq> Some (pe_worker_id (line_from ''x''))" by (simp add: running(2) line_from_def)
  moreover have "rq_status demo_report \<in> set terminal_statuses" by (simp add: demo_report_def terminal_statuses_def)
  ultimately obtain b' where "submit_result_route toy_hub (\<lambda>_ _. None) (\<lambda>x y. x) demo_actor (\<lambda>_. 0) 1 demo_report
     \<lparr>mem_buffer = holding [line_from ''x'', line_from ''w''], mem_input = (\<lambda>_. None), mem_world = calm running_db\<rparr> =
   (Inl (403, ''worker mismatch on stream bulk append''),
    \<lparr>mem_buffer = b', mem_input = (\<lambda>_. None), mem_world = calm running_db\<rparr>)"
    using foreign_line_loses_log [OF running(5,1) held_lines(1)] by blast
  then show ?thesis by simp
qed

lemma demo_report_allowed: "\<not> denied (completion_verdict toy_hub 1 demo_report)"
  by code_simp

lemma result_flushes_log_witness:
  "\<exists>t' d'. submit_result_route toy_hub (\<lambda>_ _. None) (\<lambda>x y. x) demo_actor (\<lambda>_. 0) 1 demo_report
       \<lparr>mem_buffer = holding [line_from ''w''], mem_input = (\<lambda>_. None), mem_world = calm running_db\<rparr> =
     (Inr t', \<lparr>mem_buffer = buffer_forget 1 (snd (buffer_flush_task 1 (holding [line_from ''w'']))),
               mem_input = (\<lambda>_. None), mem_world = calm d'\<rparr>)
   \<and> t_status t' = ''done'' \<and> log_grew 1 running_db d' [(''stdout'', ''hello'')]"
proof -
  have s: "rq_status demo_report = ''done''" "rq_worker_id demo_report = ''w''" "rq_status demo_report \<in> set terminal_statuses"
    by (simp_all add: demo_report_def terminal_statuses_def)
  have own: "\<forall>e \<in> set (buffered (holding [line_from ''w'']) 1). pe_worker_id e = rq_worker_id demo_report"
    by (simp add: held_lines(1) line_from_def s)
  have w: "t_worker_id stdin_task = Some (rq_worker_id demo_report)" by (simp add: running(2) s)
  have lines: "shown [] [line_from ''w''] = [(''stdout'', ''hello'')]" by (simp add: shown_def line_from_def)
  from result_flushes_log [OF running(3,4,1) w s(3) own running(5), where gap = "\<lambda>_ _. None" and fadd = "\<lambda>x y. x" and actor = demo_actor
      and h = toy_hub and clk = "\<lambda>_. 0" and q = "\<lambda>_. None"] demo_report_allowed
  show ?thesis by (auto simp: Let_def s lines held_lines(1) fun_upd_idem)
qed

definition demo_input :: task_input_payload where
  "demo_input = \<lparr>ti_dispatcher_id = ''d1'', ti_lines = [''yes''], ti_seq = 0, ti_timestamp = 1000, ti_nonce = ''n1'',
     ti_signature = replicate 64 (CHR ''s'')\<rparr>"

lemma demo_input_ok: "input_ok demo_hub (\<lambda>_. 1000) 1 demo_input running_db"
proof -
  have "check_skew (ti_timestamp demo_input) 1000 = Inr ()"
    by (simp add: check_skew_def demo_input_def) code_simp
  moreover have "verify_sig demo_hub (d_public_key demo_dispatcher) (input_envelope 1 demo_input) (ti_signature demo_input) = Inr ()"
    by (simp add: verify_sig_def verify_envelope_hex_def verify_signature_hex_def decode_hex_fixed_def
        demo_hub_def toy_crypto_def demo_dispatcher_def demo_input_def)
  moreover have "find_dispatcher ''d1'' running_db = Some demo_dispatcher"
    by (simp add: find_dispatcher_def first_row_def running_db_def demo_dispatcher_def)
  ultimately show ?thesis
    by (simp add: input_ok_def running(1,6) nonce_free_def)
      (simp add: demo_input_def running_db_def empty_db_def stdin_task_def claimed_row_def new_task_def terminal_statuses_def)
qed

lemma stdin_outcome_witness:
  "fst (post_task_input demo_hub (\<lambda>_. 1000) 1 demo_input
     \<lparr>mem_buffer = holding [], mem_input = (\<lambda>_. None), mem_world = calm running_db\<rparr>) = Inr (1, 1)"
proof -
  have q: "queue_numbered (\<lambda>_. None) 1" by (simp add: queue_numbered_def input_queue_def)
  from stdin_outcome [OF q, of demo_hub "\<lambda>_. 1000" demo_input "holding []" running_db] show ?thesis
    by (auto simp: demo_input_ok Let_def input_queue_def) (simp add: demo_input_def)
qed

lemma task_events_end_witness:
  "snd (fst (task_events 2 1 0 \<lparr>db = running_db,
     script = [\<lparr>turn_env = id, turn_reply = Answered\<rparr>,
       \<lparr>turn_env = (\<lambda>d. d\<lparr>tasks := map (\<lambda>t. t\<lparr>t_status := ''done''\<rparr>) (tasks d)\<rparr>), turn_reply = Answered\<rparr>]\<rparr>))"
  by (rule task_events_end) (simp_all add: running_db_def terminal_statuses_def)

end
