(* ===== verification/StorePeople.thy ===== *)
theory StorePeople
  imports HubBase Dates
begin

text \<open>
  The repositories of human accounts over rqlite (\<^verbatim>\<open>crates/fabric-store-rqlite/src/human_accounts.rs\<close> and
  \<^verbatim>\<open>human_webauthn_challenges.rs\<close>) with the validators of \<^verbatim>\<open>crates/fabric-accounts\<close>. An operation runs
  statements on the people tables of the store; its failure is a typed account error. Identifiers, salts
  and secrets the code draws at random are arguments. The password hash and the Unicode tables are
  parameters.
\<close>

type_synonym humans = "jv people_of"
type_synonym credential = "jv credential_of"
type_synonym credential_row = "jv credential_row_of"
type_synonym 'a accounts_op = "(accounts_error, 'a) handler"

section \<open>Usernames and passwords\<close>

text \<open>Characters of a text in UTF-8: every byte but the continuation bytes.\<close>

definition char_count :: "string \<Rightarrow> nat" where
  "char_count s = length (filter (\<lambda>c. \<not> (128 \<le> (of_char c :: nat) \<and> (of_char c :: nat) < 192)) s)"

definition username_char :: "char \<Rightarrow> bool" where
  "username_char c \<longleftrightarrow> is_ascii_alphanumeric c \<or> c \<in> set ''_.-''"

definition normalize_username :: "string \<Rightarrow> (accounts_error, string) res" where
  "normalize_username raw =
     (let trimmed = trim raw in
      if length trimmed < 3 \<or> 64 < char_count trimmed then
        Inl (AccountPolicyViolation ''username_length_out_of_range'')
      else if \<not> list_all username_char trimmed then
        Inl (AccountPolicyViolation ''username_contains_disallowed_characters'')
      else if hd trimmed \<in> set ''_.-'' \<or> last trimmed \<in> set ''_.-'' then
        Inl (AccountPolicyViolation ''username_edge_character_disallowed'')
      else Inr (to_ascii_lowercase trimmed))"

record vault =
  nfc :: "string \<Rightarrow> string"
  to_lowercase :: "string \<Rightarrow> string"
  hash_opaque :: "string \<Rightarrow> string"
  argon2_hash :: "string \<Rightarrow> string \<Rightarrow> string option"
  argon2_verify :: "string \<Rightarrow> string \<Rightarrow> bool option"
  argon2_costs :: "string \<Rightarrow> (nat option \<times> nat option) option"

definition password_blocklist :: "string list" where
  "password_blocklist =
     [''password'', ''password1'', ''password123'', ''123456'', ''123456789'', ''12345678'', ''12345'',
      ''1234567890'', ''qwerty'', ''qwerty123'', ''111111'', ''123123'', ''abc123'', ''letmein'', ''welcome'',
      ''welcome1'', ''monkey'', ''dragon'', ''master'', ''iloveyou'', ''admin'', ''administrator'', ''root'',
      ''toor'', ''changeme'', ''passw0rd'', ''trustno1'', ''sunshine'', ''princess'', ''football'', ''baseball'',
      ''superman'', ''starwars'', ''shadow'', ''michael'', ''jennifer'', ''michelle'', ''jordan23'', ''hunter2'',
      ''letmein123'', ''qwertyuiop'', ''1q2w3e4r'', ''1qaz2wsx'', ''zaq12wsx'', ''asdfghjkl'', ''000000'',
      ''121212'', ''1111111111'', ''abcdefgh'', ''abcd1234'', ''password!'', ''P@ssw0rd'', ''P@ssword1'',
      ''Passw0rd!'', ''correcthorsebatterystaple'']"

definition validate_password :: "vault \<Rightarrow> string \<Rightarrow> bool \<Rightarrow> (accounts_error, unit) res" where
  "validate_password v password second_factor =
     (let normalized = nfc v password; count = char_count normalized in
      if count < (if second_factor then 8 else 15) then Inl (AccountPolicyViolation ''password_too_short'')
      else if 512 < count then Inl (AccountPolicyViolation ''password_too_long'')
      else if to_lowercase v normalized \<in> set (map (to_lowercase v) password_blocklist) then
        Inl (AccountPolicyViolation ''password_is_commonly_known'')
      else Inr ())"

definition hash_password :: "vault \<Rightarrow> string \<Rightarrow> string \<Rightarrow> (accounts_error, string) res" where
  "hash_password v salt password =
     (case argon2_hash v salt (nfc v password) of
        None \<Rightarrow> Inl (AccountPolicyViolation ''password_hashing_failed'')
      | Some phc \<Rightarrow> Inr phc)"

definition verify_password :: "vault \<Rightarrow> string \<Rightarrow> string \<Rightarrow> (accounts_error, bool) res" where
  "verify_password v password phc =
     (case argon2_verify v (nfc v password) phc of
        None \<Rightarrow> Inl (AccountPolicyViolation ''stored_hash_unparseable'')
      | Some b \<Rightarrow> Inr b)"

definition needs_rehash :: "vault \<Rightarrow> string \<Rightarrow> bool" where
  "needs_rehash v phc =
     (case argon2_costs v phc of
        None \<Rightarrow> False
      | Some (None, _) \<Rightarrow> True
      | Some (_, None) \<Rightarrow> True
      | Some (Some m, Some t) \<Rightarrow> m < 19 * 1024 \<or> t < 2)"

section \<open>Statements on the people tables\<close>

definition unavailable :: "rqlite_error \<Rightarrow> accounts_error" where
  "unavailable e = AuthServiceUnavailable"

definition is_unique_violation :: "rqlite_error \<Rightarrow> bool" where
  "is_unique_violation e =
     (case e of StatusError _ body \<Rightarrow> contains_str ''UNIQUE constraint failed'' body | _ \<Rightarrow> False)"

definition or_conflict :: "accounts_error \<Rightarrow> rqlite_error \<Rightarrow> accounts_error" where
  "or_conflict conflict e = (if is_unique_violation e then conflict else unavailable e)"

definition realm_or_bootstrap_conflict :: "rqlite_error \<Rightarrow> accounts_error" where
  "realm_or_bootstrap_conflict e =
     (case e of
        StatusError _ body \<Rightarrow>
          if \<not> contains_str ''UNIQUE constraint failed'' body then unavailable e
          else if contains_str ''realm_identity'' body then RealmAlreadyEstablished
          else if contains_str ''human_bootstrap_state'' body then BootstrapClosed
          else unavailable e
      | _ \<Rightarrow> unavailable e)"

definition on_people :: "(humans \<Rightarrow> (string, 'a) res \<times> humans) \<Rightarrow> db \<Rightarrow> (string, 'a) res \<times> db" where
  "on_people f d = (case f (people d) of (r, p) \<Rightarrow> (r, d\<lparr>people := p\<rparr>))"

definition people_try :: "(rqlite_error \<Rightarrow> accounts_error) \<Rightarrow> (humans \<Rightarrow> (string, 'a) res \<times> humans) \<Rightarrow> 'a accounts_op" where
  "people_try g f = call g (statement (on_people f))"

definition people_edit :: "(humans \<Rightarrow> nat \<times> humans) \<Rightarrow> nat accounts_op" where
  "people_edit f = people_try unavailable (\<lambda>p. case f p of (n, p') \<Rightarrow> (Inr n, p'))"

definition people_read :: "(humans \<Rightarrow> 'a) \<Rightarrow> 'a accounts_op" where
  "people_read f = call unavailable (query_rq (\<lambda>d. f (people d)))"

definition one_row :: "accounts_error \<Rightarrow> (humans \<Rightarrow> 'a option) \<Rightarrow> 'a accounts_op" where
  "one_row e f = hbind (people_read f) (\<lambda>r. case r of None \<Rightarrow> hfail e | Some x \<Rightarrow> hret x)"

text \<open>A transaction: the statements one after the other, or none of them.\<close>

fun run_tx :: "('p \<Rightarrow> (string, unit) res \<times> 'p) list \<Rightarrow> 'p \<Rightarrow> (string, unit) res \<times> 'p" where
  "run_tx [] p = (Inr (), p)"
| "run_tx (f # fs) p =
     (case f p of
        (Inl m, _) \<Rightarrow> (Inl m, p)
      | (Inr _, p1) \<Rightarrow> (case run_tx fs p1 of (Inl m, _) \<Rightarrow> (Inl m, p) | (Inr u, p2) \<Rightarrow> (Inr u, p2)))"

text \<open>\<^verbatim>\<open>INSERT\<close> into a table with uniqueness constraints, each with the text of its violation.\<close>

definition first_violation :: "(('r \<Rightarrow> bool) \<times> string) list \<Rightarrow> 'r list \<Rightarrow> string option" where
  "first_violation cs rows =
     first_some (\<lambda>(clash, columns). if list_ex clash rows then Some (''UNIQUE constraint failed: '' @ columns) else None) cs"

definition insert_account :: "account \<Rightarrow> humans \<Rightarrow> (string, unit) res \<times> humans" where
  "insert_account a p =
     (case first_violation
        [((\<lambda>x. ac_account_id x = ac_account_id a), ''human_accounts.account_id''),
         ((\<lambda>x. ac_realm_id x = ac_realm_id a \<and> ac_username_normalized x = ac_username_normalized a),
          ''human_accounts.realm_id, human_accounts.username_normalized'')] (accounts p) of
        Some m \<Rightarrow> (Inl m, p)
      | None \<Rightarrow> (Inr (), p\<lparr>accounts := accounts p @ [a]\<rparr>))"

definition insert_credential :: "credential \<Rightarrow> humans \<Rightarrow> (string, unit) res \<times> humans" where
  "insert_credential c p =
     (case first_violation [((\<lambda>x. cd_credential_id x = cd_credential_id c), ''human_credentials.credential_id'')]
        (credentials p) of
        Some m \<Rightarrow> (Inl m, p)
      | None \<Rightarrow> (Inr (), p\<lparr>credentials := credentials p @ [credential_of.extend c (credential_row_of.fields None)]\<rparr>))"

definition insert_membership :: "membership \<Rightarrow> humans \<Rightarrow> (string, unit) res \<times> humans" where
  "insert_membership m p =
     (case first_violation
        [((\<lambda>x. mb_membership_id x = mb_membership_id m), ''human_memberships.membership_id''),
         ((\<lambda>x. mb_account_id x = mb_account_id m \<and> mb_role x = mb_role m
             \<and> mb_revoked_at x = None \<and> mb_revoked_at m = None),
          ''human_memberships.account_id, human_memberships.role'')] (memberships p) of
        Some e \<Rightarrow> (Inl e, p)
      | None \<Rightarrow> (Inr (), p\<lparr>memberships := memberships p @ [m]\<rparr>))"

definition insert_session :: "session \<Rightarrow> humans \<Rightarrow> (string, unit) res \<times> humans" where
  "insert_session s p =
     (case first_violation
        [((\<lambda>x. hs_session_id x = hs_session_id s), ''human_sessions.session_id''),
         ((\<lambda>x. hs_access_secret_hash x = hs_access_secret_hash s), ''human_sessions.access_secret_hash'')]
        (sessions p) of
        Some m \<Rightarrow> (Inl m, p)
      | None \<Rightarrow> (Inr (), p\<lparr>sessions := sessions p @ [s]\<rparr>))"

definition insert_code :: "recovery_code_row \<Rightarrow> humans \<Rightarrow> (string, unit) res \<times> humans" where
  "insert_code c p =
     (case first_violation [((\<lambda>x. rc_code_id x = rc_code_id c), ''human_recovery_codes.code_id'')]
        (recovery_codes p) of
        Some m \<Rightarrow> (Inl m, p)
      | None \<Rightarrow> (Inr (), p\<lparr>recovery_codes := recovery_codes p @ [c]\<rparr>))"

definition insert_challenge :: "auth_challenge \<Rightarrow> humans \<Rightarrow> (string, unit) res \<times> humans" where
  "insert_challenge c p =
     (case first_violation [((\<lambda>x. ch_challenge_id x = ch_challenge_id c), ''human_auth_challenges.challenge_id'')]
        (challenges p) of
        Some m \<Rightarrow> (Inl m, p)
      | None \<Rightarrow> (Inr (), p\<lparr>challenges := challenges p @ [c]\<rparr>))"

definition insert_realm :: "realm_identity \<Rightarrow> humans \<Rightarrow> (string, unit) res \<times> humans" where
  "insert_realm r p =
     (if realm_singleton p \<noteq> None then (Inl ''UNIQUE constraint failed: realm_identity.id'', p)
      else (Inr (), p\<lparr>realm_singleton := Some r\<rparr>))"

definition insert_bootstrap :: "string \<Rightarrow> string \<Rightarrow> humans \<Rightarrow> (string, unit) res \<times> humans" where
  "insert_bootstrap i now p =
     (if bootstrap_state p \<noteq> None then (Inl ''UNIQUE constraint failed: human_bootstrap_state.id'', p)
      else (Inr (), p\<lparr>bootstrap_state := Some (i, now)\<rparr>))"

definition edit_accounts :: "(account \<Rightarrow> bool) \<Rightarrow> (account \<Rightarrow> account) \<Rightarrow> humans \<Rightarrow> nat \<times> humans" where
  "edit_accounts P f p = (affected P (accounts p), p\<lparr>accounts := update_where P f (accounts p)\<rparr>)"

definition edit_credentials :: "(credential_row \<Rightarrow> bool) \<Rightarrow> (credential_row \<Rightarrow> credential_row) \<Rightarrow> humans \<Rightarrow> nat \<times> humans" where
  "edit_credentials P f p = (affected P (credentials p), p\<lparr>credentials := update_where P f (credentials p)\<rparr>)"

definition edit_memberships :: "(membership \<Rightarrow> bool) \<Rightarrow> (membership \<Rightarrow> membership) \<Rightarrow> humans \<Rightarrow> nat \<times> humans" where
  "edit_memberships P f p = (affected P (memberships p), p\<lparr>memberships := update_where P f (memberships p)\<rparr>)"

definition edit_sessions :: "(session \<Rightarrow> bool) \<Rightarrow> (session \<Rightarrow> session) \<Rightarrow> humans \<Rightarrow> nat \<times> humans" where
  "edit_sessions P f p = (affected P (sessions p), p\<lparr>sessions := update_where P f (sessions p)\<rparr>)"

definition edit_codes :: "(recovery_code_row \<Rightarrow> bool) \<Rightarrow> (recovery_code_row \<Rightarrow> recovery_code_row) \<Rightarrow> humans \<Rightarrow> nat \<times> humans" where
  "edit_codes P f p = (affected P (recovery_codes p), p\<lparr>recovery_codes := update_where P f (recovery_codes p)\<rparr>)"

definition edit_challenges :: "(auth_challenge \<Rightarrow> bool) \<Rightarrow> (auth_challenge \<Rightarrow> auth_challenge) \<Rightarrow> humans \<Rightarrow> nat \<times> humans" where
  "edit_challenges P f p = (affected P (challenges p), p\<lparr>challenges := update_where P f (challenges p)\<rparr>)"

section \<open>The realm\<close>

definition get_realm_identity :: "realm_identity option accounts_op" where
  "get_realm_identity = people_read realm_singleton"

definition establish_realm_identity :: "realm_identity \<Rightarrow> realm_identity accounts_op" where
  "establish_realm_identity r =
     hbind (people_try (or_conflict RealmAlreadyEstablished) (insert_realm r)) (\<lambda>_.
     one_row AuthServiceUnavailable realm_singleton)"

section \<open>Accounts\<close>

definition find_account :: "string \<Rightarrow> humans \<Rightarrow> account option" where
  "find_account i p = find (\<lambda>a. ac_account_id a = i) (accounts p)"

definition create_account :: "account \<Rightarrow> account accounts_op" where
  "create_account a = hbind (people_try (or_conflict UsernameConflict) (insert_account a)) (\<lambda>_. hret a)"

definition get_account :: "string \<Rightarrow> account accounts_op" where
  "get_account i = one_row (AccountPolicyViolation ''account_not_found'') (find_account i)"

definition find_by_username :: "string \<Rightarrow> string \<Rightarrow> account option accounts_op" where
  "find_by_username realm username =
     people_read (\<lambda>p. find (\<lambda>a. ac_realm_id a = realm \<and> ac_username_normalized a = username) (accounts p))"

definition status_stmt :: "string \<Rightarrow> int \<Rightarrow> account_status \<Rightarrow> string \<Rightarrow> humans \<Rightarrow> nat \<times> humans" where
  "status_stmt i revision status now =
     edit_accounts (\<lambda>a. ac_account_id a = i \<and> ac_revision a = revision)
       (\<lambda>a. a\<lparr>ac_status := status, ac_updated_at := now, ac_revision := ac_revision a + 1\<rparr>)"

definition update_status :: "string \<Rightarrow> int \<Rightarrow> account_status \<Rightarrow> string \<Rightarrow> account accounts_op" where
  "update_status i revision status now =
     hbind (people_edit (status_stmt i revision status now)) (\<lambda>n.
     if n \<noteq> 1 then hfail (AccountPolicyViolation ''revision_conflict'') else get_account i)"

definition list_accounts :: "string \<Rightarrow> int \<Rightarrow> int \<Rightarrow> account list accounts_op" where
  "list_accounts realm limit offset =
     people_read (\<lambda>p. take (nat (max 1 (min 500 limit))) (drop (nat (max 0 offset))
       (sort_key ac_created_at (sort_key ac_account_id (filter (\<lambda>a. ac_realm_id a = realm) (accounts p))))))"

section \<open>Credentials\<close>

definition find_credential :: "string \<Rightarrow> humans \<Rightarrow> credential option" where
  "find_credential i p = map_option credential_of.truncate (find (\<lambda>c. cd_credential_id c = i) (credentials p))"

definition credential_row_for :: "string \<Rightarrow> credential accounts_op" where
  "credential_row_for i = one_row (AccountPolicyViolation ''credential_not_found'') (find_credential i)"

definition add_credential :: "credential \<Rightarrow> credential accounts_op" where
  "add_credential c = hbind (people_try (or_conflict CredentialConflict) (insert_credential c)) (\<lambda>_. hret c)"

definition active_credentials :: "string \<Rightarrow> humans \<Rightarrow> credential list" where
  "active_credentials i p =
     map credential_of.truncate (filter (\<lambda>c. cd_account_id c = i \<and> cd_revoked_at c = None) (credentials p))"

definition get_active_for_account :: "string \<Rightarrow> credential list accounts_op" where
  "get_active_for_account i = people_read (active_credentials i)"

definition mark_compromised :: "string \<Rightarrow> string \<Rightarrow> credential accounts_op" where
  "mark_compromised i now =
     hbind (people_edit (edit_credentials (\<lambda>c. cd_credential_id c = i \<and> cd_compromised_at c = None)
       (\<lambda>c. c\<lparr>cd_compromised_at := Some now, cd_revision := cd_revision c + 1\<rparr>))) (\<lambda>_.
     credential_row_for i)"

definition revoke_credential :: "string \<Rightarrow> string \<Rightarrow> credential accounts_op" where
  "revoke_credential i now =
     hbind (people_edit (edit_credentials (\<lambda>c. cd_credential_id c = i \<and> cd_revoked_at c = None)
       (\<lambda>c. c\<lparr>cd_revoked_at := Some now, cd_revision := cd_revision c + 1\<rparr>))) (\<lambda>_.
     credential_row_for i)"

definition rehash_stmt :: "string \<Rightarrow> string \<Rightarrow> string \<Rightarrow> jv option \<Rightarrow> int \<Rightarrow> humans \<Rightarrow> nat \<times> humans" where
  "rehash_stmt i verifier algorithm params version =
     edit_credentials (\<lambda>c. cd_credential_id c = i)
       (\<lambda>c. c\<lparr>cd_secret_verifier := Some verifier, cd_algorithm := Some algorithm,
              cd_algorithm_params := params, cd_version := version, cd_revision := cd_revision c + 1\<rparr>)"

definition rehash_secret :: "string \<Rightarrow> string \<Rightarrow> string \<Rightarrow> jv option \<Rightarrow> int \<Rightarrow> credential accounts_op" where
  "rehash_secret i verifier algorithm params version =
     hbind (people_edit (rehash_stmt i verifier algorithm params version)) (\<lambda>_. credential_row_for i)"

section \<open>Memberships\<close>

definition find_membership :: "string \<Rightarrow> humans \<Rightarrow> membership option" where
  "find_membership i p = find (\<lambda>m. mb_membership_id m = i) (memberships p)"

definition membership_row :: "string \<Rightarrow> membership accounts_op" where
  "membership_row i = one_row (AccountPolicyViolation ''membership_not_found'') (find_membership i)"

definition grant :: "membership \<Rightarrow> membership accounts_op" where
  "grant m =
     hbind (if mb_role m = Runner then
         hbind (people_read (find_account (mb_account_id m))) (\<lambda>a.
         if a \<noteq> None then hfail (AccountPolicyViolation ''human_runner_membership_forbidden'') else hret ())
       else hret ()) (\<lambda>_.
     hbind (people_try (or_conflict (AccountPolicyViolation ''role_already_granted'')) (insert_membership m)) (\<lambda>_.
     hret m))"

definition revoke_membership_stmt :: "string \<Rightarrow> string \<Rightarrow> humans \<Rightarrow> nat \<times> humans" where
  "revoke_membership_stmt i now =
     edit_memberships (\<lambda>m. mb_membership_id m = i \<and> mb_revoked_at m = None)
       (\<lambda>m. m\<lparr>mb_revoked_at := Some now, mb_revision := mb_revision m + 1\<rparr>)"

definition revoke_membership :: "string \<Rightarrow> string \<Rightarrow> membership accounts_op" where
  "revoke_membership i now =
     hbind (people_edit (revoke_membership_stmt i now)) (\<lambda>_. membership_row i)"

definition memberships_of :: "string \<Rightarrow> humans \<Rightarrow> membership list" where
  "memberships_of i p = filter (\<lambda>m. mb_account_id m = i) (memberships p)"

definition list_memberships :: "string \<Rightarrow> membership list accounts_op" where
  "list_memberships i = people_read (memberships_of i)"

text \<open>The rows of the join that counts enabled administrators: one per admin membership and active account.\<close>

definition admin_rows :: "string \<Rightarrow> humans \<Rightarrow> membership list" where
  "admin_rows realm p =
     concat (map (\<lambda>m. map (\<lambda>_. m) (filter (\<lambda>a. ac_account_id a = mb_account_id m \<and> ac_status a = ActiveAccount) (accounts p)))
       (filter (\<lambda>m. mb_realm_id m = realm \<and> mb_role m = Admin \<and> mb_revoked_at m = None) (memberships p)))"

definition count_enabled_admins :: "string \<Rightarrow> int accounts_op" where
  "count_enabled_admins realm = people_read (\<lambda>p. int (length (admin_rows realm p)))"

section \<open>Sessions\<close>

definition find_session :: "string \<Rightarrow> humans \<Rightarrow> session option" where
  "find_session i p = find (\<lambda>s. hs_session_id s = i) (sessions p)"

definition session_row :: "string \<Rightarrow> session accounts_op" where
  "session_row i = one_row (AccountPolicyViolation ''session_not_found'') (find_session i)"

definition issue_session :: "session \<Rightarrow> session accounts_op" where
  "issue_session s = hbind (people_try unavailable (insert_session s)) (\<lambda>_. hret s)"

definition get_session :: "string \<Rightarrow> session accounts_op" where
  "get_session = session_row"

definition bind_stmt :: "string \<Rightarrow> string \<Rightarrow> string \<Rightarrow> humans \<Rightarrow> nat \<times> humans" where
  "bind_stmt i key now =
     edit_sessions (\<lambda>s. hs_session_id s = i \<and> hs_bound_public_key s = None \<and> hs_revoked_at s = None)
       (\<lambda>s. s\<lparr>hs_bound_public_key := Some key, hs_last_seen_at := now, hs_revision := hs_revision s + 1\<rparr>)"

definition bind_public_key :: "string \<Rightarrow> string \<Rightarrow> string \<Rightarrow> unit accounts_op" where
  "bind_public_key i key now =
     hbind (people_edit (bind_stmt i key now)) (\<lambda>n.
     if n \<noteq> 1 then hfail (AccountPolicyViolation ''session_key_bind_conflict'') else hret ())"

definition live_by_access :: "string \<Rightarrow> humans \<Rightarrow> session option" where
  "live_by_access hash p = find (\<lambda>s. hs_access_secret_hash s = hash \<and> hs_revoked_at s = None) (sessions p)"

definition validate_by_access_hash :: "string \<Rightarrow> session accounts_op" where
  "validate_by_access_hash hash = one_row SessionExpired (live_by_access hash)"

definition revoke_family_stmt :: "string \<Rightarrow> string \<Rightarrow> humans \<Rightarrow> nat \<times> humans" where
  "revoke_family_stmt family now =
     edit_sessions (\<lambda>s. hs_refresh_family_id s = family \<and> hs_revoked_at s = None)
       (\<lambda>s. s\<lparr>hs_revoked_at := Some now, hs_revoke_reason := Some ''refresh_replay_detected'',
              hs_revision := hs_revision s + 1\<rparr>)"

definition rotate_session_stmt :: "string \<Rightarrow> string \<Rightarrow> string \<Rightarrow> string \<Rightarrow> humans \<Rightarrow> nat \<times> humans" where
  "rotate_session_stmt i expected fresh now =
     edit_sessions (\<lambda>s. hs_session_id s = i \<and> hs_refresh_secret_hash s = expected \<and> hs_revoked_at s = None)
       (\<lambda>s. s\<lparr>hs_refresh_secret_hash := fresh, hs_last_seen_at := now, hs_revision := hs_revision s + 1\<rparr>)"

definition best_effort :: "('s, 'e, 'a) action \<Rightarrow> ('s, 'e, unit) action" where
  "best_effort m s = (case m s of (_, s') \<Rightarrow> (Inr (), s'))"

definition rotate_refresh :: "string \<Rightarrow> string \<Rightarrow> string \<Rightarrow> string \<Rightarrow> session accounts_op" where
  "rotate_refresh i expected fresh now =
     hbind (session_row i) (\<lambda>s.
     if hs_revoked_at s \<noteq> None then hfail SessionRevoked
     else if hs_refresh_secret_hash s \<noteq> expected then
       hbind (best_effort (people_edit (revoke_family_stmt (hs_refresh_family_id s) now)))
         (\<lambda>_. hfail RefreshReplayDetected)
     else
       hbind (people_edit (rotate_session_stmt i expected fresh now)) (\<lambda>n.
       if n \<noteq> 1 then hfail RefreshReplayDetected else session_row i))"

definition revoke_session :: "string \<Rightarrow> string \<Rightarrow> string \<Rightarrow> session accounts_op" where
  "revoke_session i reason now =
     hbind (people_edit (edit_sessions (\<lambda>s. hs_session_id s = i \<and> hs_revoked_at s = None)
       (\<lambda>s. s\<lparr>hs_revoked_at := Some now, hs_revoke_reason := Some reason, hs_revision := hs_revision s + 1\<rparr>))) (\<lambda>_.
     session_row i)"

definition revoke_all_stmt :: "string \<Rightarrow> string \<Rightarrow> string \<Rightarrow> humans \<Rightarrow> nat \<times> humans" where
  "revoke_all_stmt account reason now =
     edit_sessions (\<lambda>s. hs_account_id s = account \<and> hs_revoked_at s = None)
       (\<lambda>s. s\<lparr>hs_revoked_at := Some now, hs_revoke_reason := Some reason, hs_revision := hs_revision s + 1\<rparr>)"

definition revoke_all_for_account :: "string \<Rightarrow> string \<Rightarrow> string \<Rightarrow> nat accounts_op" where
  "revoke_all_for_account account reason now = people_edit (revoke_all_stmt account reason now)"

definition list_sessions :: "string \<Rightarrow> session list accounts_op" where
  "list_sessions account = people_read (\<lambda>p. filter (\<lambda>s. hs_account_id s = account) (sessions p))"

definition elevate_stmt :: "string \<Rightarrow> string \<Rightarrow> string \<Rightarrow> humans \<Rightarrow> (string, nat) res \<times> humans" where
  "elevate_stmt i hash now p =
     (let P = (\<lambda>s. hs_session_id s = i \<and> hs_revoked_at s = None) in
      if list_ex P (sessions p) \<and> list_ex (\<lambda>s. \<not> P s \<and> hs_access_secret_hash s = hash) (sessions p) then
        (Inl ''UNIQUE constraint failed: human_sessions.access_secret_hash'', p)
      else case edit_sessions P
          (\<lambda>s. s\<lparr>hs_access_secret_hash := hash, hs_assurance_level := Aal2, hs_step_up_at := Some now,
                 hs_last_seen_at := now, hs_revision := hs_revision s + 1\<rparr>) p of (n, p') \<Rightarrow> (Inr n, p'))"

definition rotate_access_secret_and_elevate :: "vault \<Rightarrow> string \<Rightarrow> string \<Rightarrow> string \<Rightarrow> string accounts_op" where
  "rotate_access_secret_and_elevate v fresh i now =
     hbind (people_try unavailable (elevate_stmt i (hash_opaque v fresh) now)) (\<lambda>n.
     if n \<noteq> 1 then hfail SessionRevoked else hret fresh)"

section \<open>Bootstrap and genesis\<close>

definition new_account :: "string \<Rightarrow> string \<Rightarrow> string \<Rightarrow> string \<Rightarrow> string \<Rightarrow> string option \<Rightarrow> account_status \<Rightarrow> string \<Rightarrow> account" where
  "new_account i realm normalized username display email status now =
     \<lparr>ac_account_id = i, ac_realm_id = realm, ac_username_normalized = normalized, ac_username_display = username,
      ac_display_name = display, ac_email_normalized = email, ac_status = status, ac_created_at = now,
      ac_updated_at = now, ac_disabled_at = None, ac_deleted_at = None, ac_revision = 0, ac_security_version = 0\<rparr>"

definition new_password :: "string \<Rightarrow> string \<Rightarrow> string \<Rightarrow> string \<Rightarrow> credential" where
  "new_password i account verifier now =
     \<lparr>cd_credential_id = i, cd_account_id = account, cd_kind = Password, cd_secret_verifier = Some verifier,
      cd_algorithm = Some ''argon2id'', cd_algorithm_params = None, cd_version = 1, cd_public_key_material = None,
      cd_label = None, cd_created_at = now, cd_last_used_at = None, cd_compromised_at = None, cd_revoked_at = None,
      cd_revision = 0, cd_backup_eligible = False, cd_backup_state = False\<rparr>"

definition new_membership :: "string \<Rightarrow> string \<Rightarrow> string \<Rightarrow> human_role \<Rightarrow> string option \<Rightarrow> string \<Rightarrow> membership" where
  "new_membership i account realm role granted_by now =
     \<lparr>mb_membership_id = i, mb_account_id = account, mb_realm_id = realm, mb_role = role,
      mb_granted_by = granted_by, mb_granted_at = now, mb_revoked_at = None, mb_revision = 0\<rparr>"

text \<open>The identifiers an operation draws: of the account, the credential and the membership.\<close>

record fresh_ids =
  fresh_account :: string
  fresh_credential :: string
  fresh_membership :: string

definition bootstrap_status :: "bool accounts_op" where
  "bootstrap_status = people_read (\<lambda>p. bootstrap_state p = None)"

text \<open>The checks every path that sets a first password starts with: the name, the password, its hash.\<close>

definition checked_identity :: "vault \<Rightarrow> string \<Rightarrow> string \<Rightarrow> string \<Rightarrow> (accounts_error, string \<times> string) res" where
  "checked_identity v salt username password =
     bind_res (normalize_username username) (\<lambda>normalized.
     bind_res (validate_password v password False) (\<lambda>_.
     bind_res (hash_password v salt password) (\<lambda>phc. Inr (normalized, phc))))"

definition bootstrap_tx :: "fresh_ids \<Rightarrow> string \<Rightarrow> string \<Rightarrow> string \<Rightarrow> string \<Rightarrow> string \<Rightarrow> string \<Rightarrow>
    (humans \<Rightarrow> (string, unit) res \<times> humans) list" where
  "bootstrap_tx ids realm normalized username display phc now =
     [insert_bootstrap (fresh_account ids) now,
      insert_account (new_account (fresh_account ids) realm normalized username display None ActiveAccount now),
      insert_credential (new_password (fresh_credential ids) (fresh_account ids) phc now),
      insert_membership (new_membership (fresh_membership ids) (fresh_account ids) realm Admin None now)]"

definition bootstrap_first_administrator :: "vault \<Rightarrow> fresh_ids \<Rightarrow> string \<Rightarrow> string \<Rightarrow> string \<Rightarrow> string \<Rightarrow> string \<Rightarrow>
    string \<Rightarrow> account accounts_op" where
  "bootstrap_first_administrator v ids salt realm username display password now =
     hbind (check (checked_identity v salt username password)) (\<lambda>(normalized, phc).
     hbind (people_try (or_conflict BootstrapClosed)
       (run_tx (bootstrap_tx ids realm normalized username display phc now))) (\<lambda>_.
     get_account (fresh_account ids)))"

definition recovery_code :: "vault \<Rightarrow> string \<Rightarrow> string \<Rightarrow> string \<Rightarrow> string option \<Rightarrow> string \<times> string \<Rightarrow> recovery_code_row" where
  "recovery_code v account batch now expires c =
     (case c of (i, plain) \<Rightarrow>
        \<lparr>rc_code_id = i, rc_account_id = account, rc_code_verifier = hash_opaque v plain, rc_batch_id = batch,
         rc_created_at = now, rc_consumed_at = None, rc_revoked_at = None, rc_expires_at = expires\<rparr>)"

text \<open>How many codes of the ones that could be drawn a batch has.\<close>

definition batch_size :: "int \<Rightarrow> nat" where
  "batch_size count = nat (max 1 (min 10 count))"

record genesis_request =
  gn_realm_name :: string
  gn_rp_id :: string
  gn_origins :: "string list"
  gn_key_alg :: string
  gn_node :: "string option"
  gn_account_realm :: string
  gn_username :: string
  gn_display_name :: string
  gn_password :: string
  gn_code_count :: int

record genesis_draw =
  dr_realm_id :: string
  dr_ids :: fresh_ids
  dr_batch :: string
  dr_codes :: "nat \<Rightarrow> string \<times> string"

definition drawn_codes :: "genesis_draw \<Rightarrow> int \<Rightarrow> (string \<times> string) list" where
  "drawn_codes g count = map (dr_codes g) [0..<batch_size count]"

definition genesis_tx :: "vault \<Rightarrow> genesis_draw \<Rightarrow> genesis_request \<Rightarrow> string \<Rightarrow> string \<Rightarrow> string \<Rightarrow>
    (humans \<Rightarrow> (string, unit) res \<times> humans) list" where
  "genesis_tx v g q normalized phc now =
     insert_realm \<lparr>ri_realm_id = dr_realm_id g, ri_name = gn_realm_name q, ri_rp_id = gn_rp_id q,
                   ri_origins = gn_origins q, ri_created_at = now, ri_genesis_node = gn_node q,
                   ri_key_alg = gn_key_alg q\<rparr>
     # bootstrap_tx (dr_ids g) (gn_account_realm q) normalized (gn_username q) (gn_display_name q) phc now
     @ map (\<lambda>c. insert_code (recovery_code v (fresh_account (dr_ids g)) (dr_batch g) now None c))
         (drawn_codes g (gn_code_count q))"

definition complete_genesis :: "vault \<Rightarrow> genesis_draw \<Rightarrow> string \<Rightarrow> genesis_request \<Rightarrow> string \<Rightarrow>
    (realm_identity \<times> account \<times> string list) accounts_op" where
  "complete_genesis v g salt q now =
     hbind (check (checked_identity v salt (gn_username q) (gn_password q))) (\<lambda>(normalized, phc).
     hbind (people_try realm_or_bootstrap_conflict (run_tx (genesis_tx v g q normalized phc now))) (\<lambda>_.
     hbind (get_account (fresh_account (dr_ids g))) (\<lambda>a.
     hbind (one_row AuthServiceUnavailable realm_singleton) (\<lambda>r.
     hret (r, a, map snd (drawn_codes g (gn_code_count q)))))))"

section \<open>Login\<close>

definition window_start :: "int \<Rightarrow> string" where
  "window_start clock = store_epoch_secs_to_iso (clock - 300)"

definition recent_failures :: "string \<Rightarrow> string \<Rightarrow> string \<Rightarrow> humans \<Rightarrow> nat" where
  "recent_failures kind key since p =
     affected (\<lambda>r. la_dimension_kind r = kind \<and> la_dimension_key r = key \<and> \<not> la_successful r \<and> since \<le> la_attempted_at r)
       (login_attempts p)"

definition enforce_login_throttle :: "string \<Rightarrow> string \<Rightarrow> int \<Rightarrow> unit accounts_op" where
  "enforce_login_throttle kind key clock =
     hbind (people_read (recent_failures kind key (window_start clock))) (\<lambda>n.
     if 5 \<le> n then hfail (AccountLocked (Some 300)) else hret ())"

definition attempt_stmt :: "string \<Rightarrow> string \<Rightarrow> bool \<Rightarrow> string \<Rightarrow> humans \<Rightarrow> nat \<times> humans" where
  "attempt_stmt kind key ok now p =
     (let i = last_attempt_id p + 1 in
      (1, p\<lparr>login_attempts := login_attempts p @ [\<lparr>la_id = i, la_dimension_kind = kind, la_dimension_key = key,
             la_attempted_at = now, la_successful = ok\<rparr>], last_attempt_id := i\<rparr>))"

definition record_login_attempt :: "string \<Rightarrow> string \<Rightarrow> bool \<Rightarrow> string \<Rightarrow> unit accounts_op" where
  "record_login_attempt kind key ok now = hbind (people_edit (attempt_stmt kind key ok now)) (\<lambda>_. hret ())"

definition prune_login_attempts :: "string \<Rightarrow> nat accounts_op" where
  "prune_login_attempts older_than =
     people_edit (\<lambda>p. (affected (\<lambda>r. la_attempted_at r < older_than) (login_attempts p),
       p\<lparr>login_attempts := delete_where (\<lambda>r. la_attempted_at r < older_than) (login_attempts p)\<rparr>))"

definition status_admits :: "account_status \<Rightarrow> (accounts_error, unit) res" where
  "status_admits s =
     (case s of
        ActiveAccount \<Rightarrow> Inr ()
      | Disabled \<Rightarrow> Inl AccountDisabled
      | Locked \<Rightarrow> Inl (AccountLocked None)
      | RecoveryRequiredStatus \<Rightarrow> Inl RecoveryRequired
      | _ \<Rightarrow> Inl InvalidCredentials)"

text \<open>What a login draws and what it is given for the session it issues.\<close>

record session_draw =
  sw_session_id :: string
  sw_family_id :: string
  sw_access :: string
  sw_refresh :: string

record session_request =
  sq_client_kind :: client_kind
  sq_client_label :: "string option"
  sq_idle_minutes :: int
  sq_absolute_hours :: int

definition new_session :: "vault \<Rightarrow> session_draw \<Rightarrow> session_request \<Rightarrow> (nat \<Rightarrow> int) \<Rightarrow> string \<Rightarrow> assurance_level \<Rightarrow> string option \<Rightarrow>
    account \<Rightarrow> string \<Rightarrow> session" where
  "new_session v s q clk realm level step_up a now =
     \<lparr>hs_session_id = sw_session_id s, hs_account_id = ac_account_id a, hs_realm_id = realm,
      hs_access_secret_hash = hash_opaque v (sw_access s), hs_refresh_family_id = sw_family_id s,
      hs_refresh_secret_hash = hash_opaque v (sw_refresh s), hs_client_identity_id = None,
      hs_client_kind = sq_client_kind q, hs_client_label = sq_client_label q, hs_assurance_level = level,
      hs_authenticated_at = now, hs_step_up_at = step_up, hs_created_at = now, hs_last_seen_at = now,
      hs_idle_expires_at = store_epoch_secs_to_iso (clk 0 + sq_idle_minutes q * 60),
      hs_absolute_expires_at = store_epoch_secs_to_iso (clk 1 + sq_absolute_hours q * 3600),
      hs_security_version_at_issue = ac_security_version a, hs_revoked_at = None, hs_revoke_reason = None,
      hs_revision = 0, hs_bound_public_key = None\<rparr>"

definition password_of :: "credential list \<Rightarrow> (credential \<times> string) option" where
  "password_of cs =
     (case find (\<lambda>c. cd_kind c = Password) cs of
        None \<Rightarrow> None
      | Some c \<Rightarrow> map_option (\<lambda>phc. (c, phc)) (cd_secret_verifier c))"

definition upgrade_hash :: "vault \<Rightarrow> string \<Rightarrow> string \<Rightarrow> credential \<Rightarrow> string \<Rightarrow> unit accounts_op" where
  "upgrade_hash v salt password c phc =
     (if needs_rehash v phc then
        (case hash_password v salt password of
           Inr fresh \<Rightarrow> best_effort (rehash_secret (cd_credential_id c) fresh ''argon2id'' None (cd_version c + 1))
         | Inl _ \<Rightarrow> hret ())
      else hret ())"

definition try_authenticate :: "vault \<Rightarrow> session_draw \<Rightarrow> string \<Rightarrow> session_request \<Rightarrow> (nat \<Rightarrow> int) \<Rightarrow> string \<Rightarrow> string \<Rightarrow> string \<Rightarrow>
    string \<Rightarrow> (session \<times> string \<times> string) accounts_op" where
  "try_authenticate v s salt q clk realm username password now =
     hbind (find_by_username realm username) (\<lambda>found.
     hbind (check (case found of None \<Rightarrow> Inl InvalidCredentials | Some a \<Rightarrow> Inr a)) (\<lambda>a.
     hbind (check (status_admits (ac_status a))) (\<lambda>_.
     hbind (get_active_for_account (ac_account_id a)) (\<lambda>cs.
     hbind (check (case password_of cs of None \<Rightarrow> Inl InvalidCredentials | Some c \<Rightarrow> Inr c)) (\<lambda>(c, phc).
     if verify_password v password phc \<noteq> Inr True then hfail InvalidCredentials
     else
       hbind (upgrade_hash v salt password c phc) (\<lambda>_.
       hbind (issue_session (new_session v s q clk realm Aal1 None a now)) (\<lambda>issued.
       hret (issued, sw_access s, sw_refresh s))))))))"

definition optional_throttle :: "string option \<Rightarrow> int \<Rightarrow> unit accounts_op" where
  "optional_throttle fingerprint clock =
     (case fingerprint of None \<Rightarrow> hret () | Some f \<Rightarrow> enforce_login_throttle ''client'' f clock)"

definition record_outcome :: "string \<Rightarrow> string option \<Rightarrow> bool \<Rightarrow> string \<Rightarrow> unit accounts_op" where
  "record_outcome username fingerprint ok now =
     hbind (best_effort (record_login_attempt ''username'' username ok now)) (\<lambda>_.
     (case fingerprint of None \<Rightarrow> hret () | Some f \<Rightarrow> best_effort (record_login_attempt ''client'' f ok now)))"

definition authenticate_and_issue_session :: "vault \<Rightarrow> session_draw \<Rightarrow> string \<Rightarrow> session_request \<Rightarrow> (nat \<Rightarrow> int) \<Rightarrow> string \<Rightarrow>
    string \<Rightarrow> string \<Rightarrow> string option \<Rightarrow> string \<Rightarrow> (session \<times> string \<times> string) accounts_op" where
  "authenticate_and_issue_session v s salt q clk realm username password fingerprint now =
     (case normalize_username username of
        Inl _ \<Rightarrow> hfail InvalidCredentials
      | Inr name \<Rightarrow>
          hbind (enforce_login_throttle ''username'' name (clk 0)) (\<lambda>_.
          hbind (optional_throttle fingerprint (clk 1)) (\<lambda>_ w.
          case try_authenticate v s salt q (\<lambda>n. clk (n + 2)) realm name password now w of
            (r, w1) \<Rightarrow> hbind (record_outcome name fingerprint (is_ok r) now) (\<lambda>_. check r) w1)))"

section \<open>Passkeys\<close>

record assertion =
  as_sign_count :: int
  as_public_key_blob :: string
  as_backup_eligible :: bool
  as_backup_state :: bool

definition passkey_stmt :: "string \<Rightarrow> string \<Rightarrow> assertion \<Rightarrow> string \<Rightarrow> humans \<Rightarrow> nat \<times> humans" where
  "passkey_stmt account i x now =
     edit_credentials
       (\<lambda>c. cd_credential_id c = i \<and> cd_account_id c = account \<and> cd_kind c = Webauthn \<and> cd_revoked_at c = None
          \<and> (as_sign_count x = 0 \<or> cd_sign_count c = None \<or> the (cd_sign_count c) < as_sign_count x))
       (\<lambda>c. c\<lparr>cd_sign_count := Some (as_sign_count x), cd_public_key_material := Some (as_public_key_blob x),
              cd_backup_eligible := as_backup_eligible x, cd_backup_state := as_backup_state x,
              cd_last_used_at := Some now, cd_revision := cd_revision c + 1\<rparr>)"

definition verify_and_advance_passkey_sign_count :: "string \<Rightarrow> string \<Rightarrow> assertion \<Rightarrow> string \<Rightarrow> unit accounts_op" where
  "verify_and_advance_passkey_sign_count account i x now =
     hbind (people_edit (passkey_stmt account i x now)) (\<lambda>n.
     if n \<noteq> 1 then hfail CredentialReplaySuspected else hret ())"

definition authenticate_with_passkey :: "vault \<Rightarrow> session_draw \<Rightarrow> session_request \<Rightarrow> (nat \<Rightarrow> int) \<Rightarrow> string \<Rightarrow> string \<Rightarrow> string \<Rightarrow>
    assertion \<Rightarrow> string \<Rightarrow> (session \<times> string \<times> string) accounts_op" where
  "authenticate_with_passkey v s q clk realm account i x now =
     hbind (get_account account) (\<lambda>a.
     hbind (check (status_admits (ac_status a))) (\<lambda>_.
     hbind (verify_and_advance_passkey_sign_count account i x now) (\<lambda>_.
     hbind (issue_session (new_session v s q clk realm Aal2 (Some now) a now)) (\<lambda>issued.
     hret (issued, sw_access s, sw_refresh s)))))"

section \<open>Administration\<close>

definition disable_account_and_revoke_sessions :: "string \<Rightarrow> int \<Rightarrow> string \<Rightarrow> string \<Rightarrow> account accounts_op" where
  "disable_account_and_revoke_sessions i revision stamp now =
     hbind (update_status i revision Disabled stamp) (\<lambda>a.
     hbind (revoke_all_for_account i ''account_disabled'' now) (\<lambda>_. hret a))"

definition change_password_and_revoke_sessions :: "vault \<Rightarrow> string \<Rightarrow> string \<Rightarrow> string \<Rightarrow> string \<Rightarrow> bool \<Rightarrow> string \<Rightarrow>
    credential accounts_op" where
  "change_password_and_revoke_sessions v salt account i password second_factor now =
     hbind (check (validate_password v password second_factor)) (\<lambda>_.
     hbind (get_active_for_account account) (\<lambda>cs.
     hbind (check (case find (\<lambda>c. cd_credential_id c = i) cs of
         None \<Rightarrow> Inl (AccountPolicyViolation ''credential_not_found'') | Some c \<Rightarrow> Inr c)) (\<lambda>current.
     hbind (check (hash_password v salt password)) (\<lambda>phc.
     hbind (rehash_secret i phc ''argon2id'' None (cd_version current + 1)) (\<lambda>c.
     hbind (revoke_all_for_account account ''password_changed'' now) (\<lambda>_. hret c))))))"

definition create_account_with_password :: "vault \<Rightarrow> fresh_ids \<Rightarrow> string \<Rightarrow> string \<Rightarrow> string \<Rightarrow> string \<Rightarrow> string \<Rightarrow>
    human_role \<Rightarrow> string \<Rightarrow> string \<Rightarrow> account accounts_op" where
  "create_account_with_password v ids salt realm username display password role granted_by now =
     (if \<not> human_assignable role then hfail (AccountPolicyViolation ''human_runner_membership_forbidden'')
      else
        hbind (check (checked_identity v salt username password)) (\<lambda>(normalized, phc).
        hbind (people_try (or_conflict UsernameConflict) (run_tx
          [insert_account (new_account (fresh_account ids) realm normalized username display None ActiveAccount now),
           insert_credential (new_password (fresh_credential ids) (fresh_account ids) phc now),
           insert_membership (new_membership (fresh_membership ids) (fresh_account ids) realm role (Some granted_by) now)]))
          (\<lambda>_. get_account (fresh_account ids))))"

definition create_invited_account :: "fresh_ids \<Rightarrow> string \<Rightarrow> string \<Rightarrow> string \<Rightarrow> string option \<Rightarrow> human_role \<Rightarrow> string \<Rightarrow> string \<Rightarrow>
    account accounts_op" where
  "create_invited_account ids realm username display email role granted_by now =
     (if role = Admin \<or> \<not> human_assignable role then
        hfail (AccountPolicyViolation ''import_may_not_grant_admin_or_runner'')
      else
        hbind (check (normalize_username username)) (\<lambda>normalized.
        hbind (people_try (or_conflict UsernameConflict) (run_tx
          [insert_account (new_account (fresh_account ids) realm normalized username display email Invited now),
           insert_membership (new_membership (fresh_membership ids) (fresh_account ids) realm role (Some granted_by) now)]))
          (\<lambda>_. get_account (fresh_account ids))))"

text \<open>The guard of the last administrator: the account holds no admin role, or somebody else's counts.\<close>

definition holds_admin :: "string \<Rightarrow> humans \<Rightarrow> bool" where
  "holds_admin i p = list_ex (\<lambda>m. mb_account_id m = i \<and> mb_role m = Admin \<and> mb_revoked_at m = None) (memberships p)"

definition other_admin :: "account \<Rightarrow> humans \<Rightarrow> bool" where
  "other_admin a p = (1 \<le> length (filter (\<lambda>m. mb_account_id m \<noteq> ac_account_id a) (admin_rows (ac_realm_id a) p)))"

definition admin_guard :: "humans \<Rightarrow> account \<Rightarrow> bool" where
  "admin_guard p a \<longleftrightarrow> \<not> holds_admin (ac_account_id a) p \<or> other_admin a p"

definition disable_stmt :: "string \<Rightarrow> int \<Rightarrow> string \<Rightarrow> humans \<Rightarrow> nat \<times> humans" where
  "disable_stmt i revision now p =
     edit_accounts (\<lambda>a. ac_account_id a = i \<and> ac_revision a = revision \<and> admin_guard p a)
       (\<lambda>a. a\<lparr>ac_status := Disabled, ac_updated_at := now, ac_revision := ac_revision a + 1\<rparr>) p"

definition diagnose_blocked_write :: "string \<Rightarrow> int \<Rightarrow> 'a accounts_op" where
  "diagnose_blocked_write i revision =
     hbind (get_account i) (\<lambda>a.
     hfail (if ac_revision a = revision then LastAdministratorViolation
            else AccountPolicyViolation ''revision_conflict''))"

definition disable_account_protecting_last_admin :: "string \<Rightarrow> int \<Rightarrow> string \<Rightarrow> account accounts_op" where
  "disable_account_protecting_last_admin i revision now =
     hbind (people_edit (disable_stmt i revision now)) (\<lambda>n.
     if n \<noteq> 1 then diagnose_blocked_write i revision
     else hbind (revoke_all_for_account i ''account_disabled'' now) (\<lambda>_. get_account i))"

definition revoke_admin_stmt :: "string \<Rightarrow> string \<Rightarrow> humans \<Rightarrow> nat \<times> humans" where
  "revoke_admin_stmt i now p =
     edit_memberships (\<lambda>m. mb_membership_id m = i \<and> mb_revoked_at m = None
         \<and> 1 \<le> length (filter (\<lambda>x. mb_membership_id x \<noteq> mb_membership_id m) (admin_rows (mb_realm_id m) p)))
       (\<lambda>m. m\<lparr>mb_revoked_at := Some now, mb_revision := mb_revision m + 1\<rparr>) p"

definition revoke_membership_protecting_last_admin :: "string \<Rightarrow> string \<Rightarrow> membership accounts_op" where
  "revoke_membership_protecting_last_admin i now =
     hbind (membership_row i) (\<lambda>m.
     if mb_role m \<noteq> Admin then revoke_membership i now
     else
       hbind (people_edit (revoke_admin_stmt i now)) (\<lambda>n.
       if n \<noteq> 1 then
         hbind (people_read (\<lambda>p. case find_membership i p of None \<Rightarrow> None | Some m \<Rightarrow> mb_revoked_at m)) (\<lambda>r.
         hfail (if r \<noteq> None then AccountPolicyViolation ''membership_already_revoked''
                else LastAdministratorViolation))
       else membership_row i))"

definition grant_membership :: "string \<Rightarrow> string \<Rightarrow> string \<Rightarrow> human_role \<Rightarrow> string \<Rightarrow> string \<Rightarrow> membership accounts_op" where
  "grant_membership fresh account realm role granted_by now =
     hbind (check (membership_for_human fresh account realm role (Some granted_by) now)) grant"

definition recovery_ttl_secs :: int where
  "recovery_ttl_secs = 72 * 60 * 60"

fun insert_codes :: "vault \<Rightarrow> string \<Rightarrow> string \<Rightarrow> string \<Rightarrow> string \<Rightarrow> (string \<times> string) list \<Rightarrow> string list accounts_op" where
  "insert_codes v account batch now expires [] = hret []"
| "insert_codes v account batch now expires (c # cs) =
     hbind (people_try unavailable (insert_code (recovery_code v account batch now (Some expires) c))) (\<lambda>_.
     hbind (insert_codes v account batch now expires cs) (\<lambda>plain. hret (snd c # plain)))"

definition generate_recovery_codes :: "vault \<Rightarrow> string \<Rightarrow> (nat \<Rightarrow> string \<times> string) \<Rightarrow> int \<Rightarrow> string \<Rightarrow> int \<Rightarrow> string \<Rightarrow>
    string list accounts_op" where
  "generate_recovery_codes v batch draw clock account count now =
     insert_codes v account batch now (store_epoch_secs_to_iso (clock + recovery_ttl_secs))
       (map draw [0..<batch_size count])"

definition consume_code_stmt :: "string \<Rightarrow> string \<Rightarrow> string \<Rightarrow> humans \<Rightarrow> nat \<times> humans" where
  "consume_code_stmt account hash now =
     edit_codes (\<lambda>c. rc_account_id c = account \<and> rc_code_verifier c = hash \<and> rc_consumed_at c = None
         \<and> rc_revoked_at c = None \<and> (rc_expires_at c = None \<or> now < the (rc_expires_at c)))
       (\<lambda>c. c\<lparr>rc_consumed_at := Some now\<rparr>)"

definition reset_password :: "vault \<Rightarrow> string \<Rightarrow> string \<Rightarrow> string \<Rightarrow> credential accounts_op" where
  "reset_password v salt account password =
     hbind (get_active_for_account account) (\<lambda>cs.
     hbind (check (case find (\<lambda>c. cd_kind c = Password) cs of
         None \<Rightarrow> Inl (AccountPolicyViolation ''no_password_credential_to_reset'') | Some c \<Rightarrow> Inr c)) (\<lambda>c.
     hbind (check (hash_password v salt password)) (\<lambda>phc.
     rehash_secret (cd_credential_id c) phc ''argon2id'' None (cd_version c + 1))))"

definition complete_recovery_with_code :: "vault \<Rightarrow> string \<Rightarrow> string \<Rightarrow> string \<Rightarrow> string \<Rightarrow> string \<Rightarrow> string \<Rightarrow> account accounts_op" where
  "complete_recovery_with_code v salt account code password now stamp =
     hbind (get_account account) (\<lambda>a.
     if ac_status a \<noteq> RecoveryRequiredStatus then hfail (AccountPolicyViolation ''account_not_in_recovery'')
     else
       hbind (people_edit (consume_code_stmt account (hash_opaque v code) now)) (\<lambda>n.
       if n \<noteq> 1 then hfail InvalidCredentials
       else
         hbind (check (validate_password v password False)) (\<lambda>_.
         hbind (reset_password v salt account password) (\<lambda>_.
         hbind (revoke_all_for_account account ''recovery_completed'' now) (\<lambda>_.
         update_status account (ac_revision a) ActiveAccount stamp)))))"

definition deletion_stmt :: "string \<Rightarrow> int \<Rightarrow> string \<Rightarrow> humans \<Rightarrow> nat \<times> humans" where
  "deletion_stmt i revision now p =
     edit_accounts (\<lambda>a. ac_account_id a = i \<and> ac_revision a = revision
         \<and> ac_status a \<notin> {DeletionPending, DeletedTombstone} \<and> admin_guard p a)
       (\<lambda>a. a\<lparr>ac_status := DeletionPending, ac_updated_at := now, ac_revision := ac_revision a + 1\<rparr>) p"

definition diagnose_blocked_deletion :: "string \<Rightarrow> int \<Rightarrow> 'a accounts_op" where
  "diagnose_blocked_deletion i revision =
     hbind (get_account i) (\<lambda>a.
     hfail (if ac_revision a \<noteq> revision then AccountPolicyViolation ''revision_conflict''
            else if ac_status a \<in> {DeletionPending, DeletedTombstone} then
              AccountPolicyViolation ''already_pending_or_deleted''
            else LastAdministratorViolation))"

definition initiate_account_deletion :: "string \<Rightarrow> int \<Rightarrow> string \<Rightarrow> account accounts_op" where
  "initiate_account_deletion i revision now =
     hbind (people_edit (deletion_stmt i revision now)) (\<lambda>n.
     if n \<noteq> 1 then diagnose_blocked_deletion i revision
     else hbind (revoke_all_for_account i ''account_deletion_initiated'' now) (\<lambda>_. get_account i))"

definition tombstone_due :: "string \<Rightarrow> int \<Rightarrow> account \<Rightarrow> bool" where
  "tombstone_due i revision a \<longleftrightarrow>
     ac_account_id a = i \<and> ac_revision a = revision \<and> ac_status a = DeletionPending"

definition tombstone_row :: "string \<Rightarrow> account \<Rightarrow> account" where
  "tombstone_row now a =
     (let name = ''deleted-'' @ ac_account_id a in
      a\<lparr>ac_status := DeletedTombstone, ac_username_normalized := name, ac_username_display := name,
        ac_display_name := ''Deleted account'', ac_email_normalized := None, ac_deleted_at := Some now,
        ac_updated_at := now, ac_revision := ac_revision a + 1\<rparr>)"

definition tombstone_stmt :: "string \<Rightarrow> int \<Rightarrow> string \<Rightarrow> humans \<Rightarrow> (string, nat) res \<times> humans" where
  "tombstone_stmt i revision now p =
     (if list_ex (\<lambda>a. tombstone_due i revision a \<and> list_ex (\<lambda>b. ac_account_id b \<noteq> i \<and> ac_realm_id b = ac_realm_id a
          \<and> ac_username_normalized b = ''deleted-'' @ i) (accounts p)) (accounts p) then
        (Inl ''UNIQUE constraint failed: human_accounts.realm_id, human_accounts.username_normalized'', p)
      else case edit_accounts (tombstone_due i revision) (tombstone_row now) p of (n, p') \<Rightarrow> (Inr n, p'))"

definition diagnose_blocked_tombstone :: "string \<Rightarrow> int \<Rightarrow> 'a accounts_op" where
  "diagnose_blocked_tombstone i revision =
     hbind (get_account i) (\<lambda>a.
     hfail (AccountPolicyViolation
       (if ac_revision a \<noteq> revision then ''revision_conflict'' else ''account_not_deletion_pending'')))"

fun each_step :: "('a \<Rightarrow> ('s, 'e, 'b) action) \<Rightarrow> 'a list \<Rightarrow> ('s, 'e, unit) action" where
  "each_step f [] = hret ()"
| "each_step f (x # xs) = hbind (f x) (\<lambda>_. each_step f xs)"

definition complete_account_deletion :: "string \<Rightarrow> int \<Rightarrow> string \<Rightarrow> account accounts_op" where
  "complete_account_deletion i revision now =
     hbind (people_try (or_conflict (AccountPolicyViolation ''tombstone_username_conflict''))
       (tombstone_stmt i revision now)) (\<lambda>n.
     if n \<noteq> 1 then diagnose_blocked_tombstone i revision
     else
       hbind (revoke_all_for_account i ''account_deleted'' now) (\<lambda>_.
       hbind (get_active_for_account i) (\<lambda>cs.
       hbind (each_step (\<lambda>c. revoke_credential (cd_credential_id c) now) cs) (\<lambda>_.
       hbind (list_memberships i) (\<lambda>ms.
       hbind (each_step (\<lambda>m. revoke_membership (mb_membership_id m) now)
         (filter (\<lambda>m. mb_revoked_at m = None) ms)) (\<lambda>_.
       get_account i))))))"

definition account_security_history :: "string \<Rightarrow> int \<Rightarrow> ((string \<times> bool) list \<times> session list) accounts_op" where
  "account_security_history i limit =
     hbind (get_account i) (\<lambda>a.
     let bounded = nat (max 1 (min 200 limit)) in
     hbind (people_read (\<lambda>p. map (\<lambda>r. (la_attempted_at r, la_successful r)) (take bounded
       (rev (sort_key la_attempted_at (sort_key la_id
         (filter (\<lambda>r. la_dimension_kind r = ''username'' \<and> la_dimension_key r = ac_username_normalized a)
           (login_attempts p)))))))) (\<lambda>attempts.
     hbind (people_read (\<lambda>p. take bounded (rev (sort_key hs_created_at
       (rev (filter (\<lambda>s. hs_account_id s = i) (sessions p))))))) (\<lambda>ss.
     hret (attempts, ss))))"

section \<open>Ceremony challenges\<close>

definition find_challenge :: "string \<Rightarrow> humans \<Rightarrow> auth_challenge option" where
  "find_challenge i p = find (\<lambda>c. ch_challenge_id c = i) (challenges p)"

definition issue_challenge :: "auth_challenge \<Rightarrow> auth_challenge accounts_op" where
  "issue_challenge c =
     (let row = c\<lparr>ch_consumed_at := None, ch_attempt_count := 0, ch_status := PendingChallenge\<rparr> in
      hbind (people_try unavailable (insert_challenge row)) (\<lambda>_. hret row))"

definition get_challenge :: "string \<Rightarrow> auth_challenge accounts_op" where
  "get_challenge i = one_row ChallengeInvalid (find_challenge i)"

definition consume_challenge_stmt :: "string \<Rightarrow> string \<Rightarrow> humans \<Rightarrow> nat \<times> humans" where
  "consume_challenge_stmt i now =
     edit_challenges (\<lambda>c. ch_challenge_id c = i \<and> ch_status c = PendingChallenge \<and> now < ch_expires_at c)
       (\<lambda>c. c\<lparr>ch_consumed_at := Some now, ch_status := ConsumedChallenge\<rparr>)"

definition consume_challenge_if_pending :: "string \<Rightarrow> string \<Rightarrow> auth_challenge accounts_op" where
  "consume_challenge_if_pending i now =
     hbind (people_edit (consume_challenge_stmt i now)) (\<lambda>n.
     if n \<noteq> 1 then hfail ChallengeInvalid else get_challenge i)"

definition increment_challenge_attempt :: "string \<Rightarrow> int \<Rightarrow> int accounts_op" where
  "increment_challenge_attempt i max_attempts =
     hbind (people_edit (edit_challenges (\<lambda>c. ch_challenge_id c = i \<and> ch_status c = PendingChallenge)
       (\<lambda>c. c\<lparr>ch_attempt_count := ch_attempt_count c + 1\<rparr>))) (\<lambda>_.
     hbind (get_challenge i) (\<lambda>c.
     hbind (if ch_status c = PendingChallenge \<and> max_attempts \<le> ch_attempt_count c then
         best_effort (people_edit (edit_challenges (\<lambda>c. ch_challenge_id c = i \<and> ch_status c = PendingChallenge)
           (\<lambda>c. c\<lparr>ch_status := FailedChallenge\<rparr>)))
       else hret ()) (\<lambda>_.
     hret (ch_attempt_count c))))"

definition prune_expired_challenges :: "string \<Rightarrow> nat accounts_op" where
  "prune_expired_challenges older_than =
     people_edit (\<lambda>p. (affected (\<lambda>c. ch_expires_at c < older_than) (challenges p),
       p\<lparr>challenges := delete_where (\<lambda>c. ch_expires_at c < older_than) (challenges p)\<rparr>))"

end
