(* ===== verification/PeopleSafety.thy ===== *)
theory PeopleSafety
  imports StorePeople
begin

text \<open>
  The last administrator of a realm: which statements on the people tables can end its office, and that
  the guarded operations of \<open>StorePeople\<close> never do. The first section has the rules for running those
  statements, which the theories on accounts share.
\<close>

section \<open>Running statements on the people tables\<close>

lemma keeps_people_read [keeps_intros]: "keeps P (people_read f)"
  unfolding people_read_def by (intro keeps_intros)

lemma keeps_people_try:
  assumes "\<And>d x p. P d \<Longrightarrow> f (people d) = (Inr x, p) \<Longrightarrow> P (d\<lparr>people := p\<rparr>)"
  shows "keeps P (people_try g f)"
  unfolding people_try_def
  by (intro keeps_call keeps_statement) (auto simp: on_people_def split: prod.splits intro: assms)

lemma keeps_people_edit:
  assumes "\<And>d. P d \<Longrightarrow> P (d\<lparr>people := snd (f (people d))\<rparr>)"
  shows "keeps P (people_edit f)"
  unfolding people_edit_def by (rule keeps_people_try) (auto split: prod.splits dest: assms)

lemma keeps_one_row [keeps_intros]: "keeps P (one_row e f)"
  unfolding one_row_def by (intro keeps_intros)

lemma keeps_best_effort [keeps_intros]: "keeps P m \<Longrightarrow> keeps P (best_effort m)"
  by (simp add: keeps_def best_effort_def case_prod_beta)

lemma keeps_readers [keeps_intros]:
  "keeps P (get_account i)" "keeps P (membership_row i)" "keeps P (session_row i)" "keeps P (credential_row_for i)"
  "keeps P (get_challenge i)" "keeps P (find_by_username realm name)" "keeps P (get_active_for_account i)"
  "keeps P (list_memberships i)"
  unfolding get_account_def membership_row_def session_row_def credential_row_for_def get_challenge_def
    find_by_username_def get_active_for_account_def list_memberships_def
  by (intro keeps_intros)+

lemma people_read_calm [calm_simps]: "people_read f (calm d) = (Inr (f (people d)), calm d)"
  by (simp add: people_read_def call_def calm_simps)

lemma people_try_calm [calm_simps]:
  "people_try g f (calm d) =
     (case f (people d) of (Inl m, p) \<Rightarrow> (Inl (g (StatusError 200 m)), calm d) | (Inr x, p) \<Rightarrow> (Inr x, calm (d\<lparr>people := p\<rparr>)))"
  by (simp add: people_try_def call_def calm_statement on_people_def split: prod.splits sum.splits)

lemma people_edit_calm [calm_simps]:
  "people_edit f (calm d) = (Inr (fst (f (people d))), calm (d\<lparr>people := snd (f (people d))\<rparr>))"
  by (simp add: people_edit_def calm_simps split: prod.splits)

lemma one_row_calm [calm_simps]:
  "one_row e f (calm d) = (case f (people d) of None \<Rightarrow> (Inl e, calm d) | Some x \<Rightarrow> (Inr x, calm d))"
  by (simp add: one_row_def hbind_def hfail_def hret_def calm_simps split: option.splits)

lemma people_id [simp]: "d\<lparr>people := people d\<rparr> = d"
  by simp

lemma people_try_InrE:
  assumes "people_try g f w = (Inr x, w')"
  obtains w1 p where "next_turn w = (Answered, w1)" "f (people (db w1)) = (Inr x, p)"
    "w' = w1\<lparr>db := (db w1)\<lparr>people := p\<rparr>\<rparr>"
proof -
  obtain r w1 where n: "next_turn w = (r, w1)" by fastforce
  obtain y p where y: "f (people (db w1)) = (y, p)" by fastforce
  show thesis
    using assms n y that
    by (cases r; cases y) (auto simp: people_try_def call_def statement_def on_people_def)
qed

lemma people_edit_InrE:
  assumes "people_edit f w = (Inr n, w')"
  obtains w1 where "next_turn w = (Answered, w1)" "n = fst (f (people (db w1)))"
    "w' = w1\<lparr>db := (db w1)\<lparr>people := snd (f (people (db w1)))\<rparr>\<rparr>"
  using assms unfolding people_edit_def by (elim people_try_InrE) (auto split: prod.splits)

section \<open>The last administrator\<close>

text \<open>A realm has an administrator: an unrevoked admin membership of an active account.\<close>

definition has_admin :: "string \<Rightarrow> humans \<Rightarrow> bool" where
  "has_admin realm p \<longleftrightarrow> admin_rows realm p \<noteq> []"

lemma admin_rows_iff:
  "m \<in> set (admin_rows realm p) \<longleftrightarrow>
     m \<in> set (memberships p) \<and> mb_realm_id m = realm \<and> mb_role m = Admin \<and> mb_revoked_at m = None
     \<and> (\<exists>a \<in> set (accounts p). ac_account_id a = mb_account_id m \<and> ac_status a = ActiveAccount)"
  by (auto simp: admin_rows_def)

lemma has_admin_iff: "has_admin realm p \<longleftrightarrow> (\<exists>m. m \<in> set (admin_rows realm p))"
  by (simp add: has_admin_def neq_Nil_conv) (metis list.set_intros(1) neq_Nil_conv empty_iff list.set(1))

text \<open>Ids are unique, and a membership belongs to an account of its realm.\<close>

definition placed :: "humans \<Rightarrow> bool" where
  "placed p \<longleftrightarrow> distinct (map ac_account_id (accounts p)) \<and> distinct (map mb_membership_id (memberships p))
     \<and> (\<forall>m \<in> set (memberships p). \<exists>a \<in> set (accounts p). ac_account_id a = mb_account_id m \<and> ac_realm_id a = mb_realm_id m)"

definition lives :: "string \<Rightarrow> string \<Rightarrow> humans \<Rightarrow> bool" where
  "lives i realm p \<longleftrightarrow> (\<exists>a \<in> set (accounts p). ac_account_id a = i \<and> ac_realm_id a = realm)"

text \<open>
  The statements the administration runs: the guarded writes, new rows, an activation, the removal of a
  role other than admin, the tombstone, and anything that leaves accounts and memberships alone.
\<close>

inductive people_step :: "humans \<Rightarrow> humans \<Rightarrow> bool" where
  Disable: "people_step p (snd (disable_stmt i revision now p))"
| Delete: "people_step p (snd (deletion_stmt i revision now p))"
| RevokeAdmin: "people_step p (snd (revoke_admin_stmt i now p))"
| RevokeOther: "\<forall>m \<in> set (memberships p). mb_membership_id m = i \<longrightarrow> mb_role m \<noteq> Admin \<Longrightarrow>
    people_step p (snd (revoke_membership_stmt i now p))"
| Activate: "people_step p (snd (status_stmt i revision ActiveAccount now p))"
| Tombstone: "tombstone_stmt i revision now p = (Inr n, p') \<Longrightarrow> people_step p p'"
| AddAccount: "insert_account a p = (Inr (), p') \<Longrightarrow> people_step p p'"
| AddMembership: "lives (mb_account_id m) (mb_realm_id m) p \<Longrightarrow> insert_membership m p = (Inr (), p') \<Longrightarrow> people_step p p'"
| Elsewhere: "accounts p' = accounts p \<Longrightarrow> memberships p' = memberships p \<Longrightarrow> people_step p p'"

lemma update_where_in: "r \<in> set rows \<Longrightarrow> (if P r then f r else r) \<in> set (update_where P f rows)"
  by (auto simp: update_where_def)

text \<open>What an edit of accounts may not touch.\<close>

lemma placed_edit_accounts:
  assumes "placed p" "\<And>a. ac_account_id (f a) = ac_account_id a \<and> ac_realm_id (f a) = ac_realm_id a"
  shows "placed (snd (edit_accounts P f p))" "lives i realm p \<Longrightarrow> lives i realm (snd (edit_accounts P f p))"
proof -
  have ids: "map ac_account_id (update_where P f (accounts p)) = map ac_account_id (accounts p)"
    using assms(2) by (induction "accounts p") (auto simp: update_where_def)
  have stay: "\<exists>b \<in> set (update_where P f (accounts p)). ac_account_id b = ac_account_id a \<and> ac_realm_id b = ac_realm_id a"
    if "a \<in> set (accounts p)" for a
    using update_where_in [OF that, of P f] assms(2) by (metis (full_types))
  show "placed (snd (edit_accounts P f p))"
    using assms(1) ids stay by (fastforce simp: placed_def edit_accounts_def)
  show "lives i realm p \<Longrightarrow> lives i realm (snd (edit_accounts P f p))"
    using stay by (fastforce simp: lives_def edit_accounts_def)
qed

lemma placed_edit_memberships:
  assumes "placed p"
    and same: "\<And>m. mb_membership_id (f m) = mb_membership_id m \<and> mb_account_id (f m) = mb_account_id m \<and> mb_realm_id (f m) = mb_realm_id m"
  shows "placed (snd (edit_memberships P f p))"
proof -
  have "map mb_membership_id (update_where P f (memberships p)) = map mb_membership_id (memberships p)"
    using same by (induction "memberships p") (auto simp: update_where_def)
  then show ?thesis using assms by (fastforce simp: placed_def edit_memberships_def dest!: set_update_where)
qed

lemma edit_accounts_memberships [simp]: "memberships (snd (edit_accounts P f p)) = memberships p"
  by (simp add: edit_accounts_def)

lemma edit_memberships_accounts [simp]: "accounts (snd (edit_memberships P f p)) = accounts p"
  by (simp add: edit_memberships_def)

lemma tombstone_stmt_InrD:
  assumes "tombstone_stmt i revision now p = (Inr n, p')"
  shows "p' = snd (edit_accounts (tombstone_due i revision) (tombstone_row now) p)"
    "n = affected (tombstone_due i revision) (accounts p)"
  using assms unfolding tombstone_stmt_def by (auto simp: edit_accounts_def split: if_splits)

lemma tombstone_row_same [simp]:
  "ac_account_id (tombstone_row now a) = ac_account_id a" "ac_realm_id (tombstone_row now a) = ac_realm_id a"
  "ac_status (tombstone_row now a) = DeletedTombstone"
  by (simp_all add: tombstone_row_def Let_def)

lemma insert_account_InrD:
  assumes "insert_account a p = (Inr (), p')"
  shows "p' = p\<lparr>accounts := accounts p @ [a]\<rparr>" "\<forall>x \<in> set (accounts p). ac_account_id x \<noteq> ac_account_id a"
    "\<forall>x \<in> set (accounts p). \<not> (ac_realm_id x = ac_realm_id a \<and> ac_username_normalized x = ac_username_normalized a)"
  using assms by (auto simp: insert_account_def first_violation_def list_ex_iff split: option.splits if_splits)

lemma insert_membership_InrD:
  assumes "insert_membership m p = (Inr (), p')"
  shows "p' = p\<lparr>memberships := memberships p @ [m]\<rparr>"
    "\<forall>x \<in> set (memberships p). mb_membership_id x \<noteq> mb_membership_id m"
  using assms by (auto simp: insert_membership_def first_violation_def list_ex_iff split: option.splits if_splits)

lemma placed_step:
  assumes "placed p" "people_step p p'"
  shows "placed p'" "lives i realm p \<Longrightarrow> lives i realm p'"
proof -
  have "placed p' \<and> (lives i realm p \<longrightarrow> lives i realm p')"
    using assms(2)
  proof cases
    case Disable
    then show ?thesis unfolding disable_stmt_def using placed_edit_accounts [OF assms(1)] by simp
  next
    case Delete
    then show ?thesis unfolding deletion_stmt_def using placed_edit_accounts [OF assms(1)] by simp
  next
    case RevokeAdmin
    then show ?thesis unfolding revoke_admin_stmt_def
      using placed_edit_memberships [OF assms(1)] by (simp add: lives_def)
  next
    case RevokeOther
    then show ?thesis unfolding revoke_membership_stmt_def
      using placed_edit_memberships [OF assms(1)] by (simp add: lives_def)
  next
    case Activate
    then show ?thesis unfolding status_stmt_def using placed_edit_accounts [OF assms(1)] by simp
  next
    case (Tombstone j revision now n)
    show ?thesis unfolding tombstone_stmt_InrD(1) [OF Tombstone] using placed_edit_accounts [OF assms(1)] by simp
  next
    case (AddAccount a)
    then show ?thesis using insert_account_InrD [OF AddAccount] assms(1) by (fastforce simp: placed_def lives_def)
  next
    case (AddMembership m)
    then show ?thesis using insert_membership_InrD [OF AddMembership(2)] assms(1) unfolding placed_def lives_def by auto
  next
    case Elsewhere
    then show ?thesis using assms(1) by (simp add: placed_def lives_def)
  qed
  then show "placed p'" "lives i realm p \<Longrightarrow> lives i realm p'" by auto
qed

text \<open>The guard keeps an administrator when it takes an account out of office.\<close>

lemma admin_survives_accounts:
  assumes "has_admin realm p"
    and "\<And>m a. m \<in> set (admin_rows realm p) \<Longrightarrow> a \<in> set (accounts p) \<Longrightarrow> ac_account_id a = mb_account_id m \<Longrightarrow>
        ac_status a = ActiveAccount \<Longrightarrow> P a \<Longrightarrow>
        \<exists>m' a'. m' \<in> set (admin_rows realm p) \<and> a' \<in> set (accounts p) \<and> ac_account_id a' = mb_account_id m'
          \<and> ac_status a' = ActiveAccount \<and> \<not> P a'"
  shows "has_admin realm (snd (edit_accounts P f p))"
proof -
  from assms(1) obtain m a where m: "m \<in> set (admin_rows realm p)" "a \<in> set (accounts p)"
    "ac_account_id a = mb_account_id m" "ac_status a = ActiveAccount"
    by (auto simp: has_admin_iff admin_rows_iff)
  then obtain m' a' where "m' \<in> set (admin_rows realm p)" "a' \<in> set (accounts p)" "ac_account_id a' = mb_account_id m'"
    "ac_status a' = ActiveAccount" "\<not> P a'"
    using assms(2) by blast
  moreover from this have "a' \<in> set (update_where P f (accounts p))" by (force simp: update_where_def)
  ultimately have "m' \<in> set (admin_rows realm (snd (edit_accounts P f p)))"
    by (auto simp: admin_rows_iff edit_accounts_def)
  then show ?thesis by (auto simp: has_admin_iff)
qed

lemma guarded_edit_keeps_admin:
  assumes "placed p" "has_admin realm p" "\<And>a. P a \<Longrightarrow> ac_account_id a = i \<and> admin_guard p a"
  shows "has_admin realm (snd (edit_accounts P f p))"
proof (rule admin_survives_accounts [OF assms(2)])
  fix m a assume m: "m \<in> set (admin_rows realm p)" "a \<in> set (accounts p)" "ac_account_id a = mb_account_id m" "P a"
  from m(1) have "mb_realm_id m = realm" "m \<in> set (memberships p)" by (auto simp: admin_rows_iff)
  moreover obtain b where "b \<in> set (accounts p)" "ac_account_id b = mb_account_id m" "ac_realm_id b = mb_realm_id m"
    using assms(1) \<open>m \<in> set (memberships p)\<close> by (auto simp: placed_def)
  ultimately have realm: "ac_realm_id a = realm"
    using assms(1) m(2,3) distinct_keyD [of ac_account_id "accounts p" a b] by (auto simp: placed_def)
  have "holds_admin i p" using m assms(3) by (auto simp: holds_admin_def list_ex_iff admin_rows_iff)
  then have "other_admin a p" using assms(3) [OF m(4)] by (auto simp: admin_guard_def)
  then obtain m' where m': "m' \<in> set (admin_rows realm p)" "mb_account_id m' \<noteq> i"
    using assms(3) [OF m(4)] realm unfolding other_admin_def by (auto simp: Suc_le_eq filter_empty_conv)
  then obtain a' where "a' \<in> set (accounts p)" "ac_account_id a' = mb_account_id m'" "ac_status a' = ActiveAccount"
    by (auto simp: admin_rows_iff)
  moreover from this m' have "\<not> P a'" using assms(3) by fastforce
  ultimately show "\<exists>m' a'. m' \<in> set (admin_rows realm p) \<and> a' \<in> set (accounts p) \<and> ac_account_id a' = mb_account_id m'
      \<and> ac_status a' = ActiveAccount \<and> \<not> P a'"
    using m'(1) by blast
qed

lemma admin_survives_memberships:
  assumes "has_admin realm p"
    and "\<And>m. m \<in> set (admin_rows realm p) \<Longrightarrow> P m \<Longrightarrow> \<exists>m'. m' \<in> set (admin_rows realm p) \<and> \<not> P m'"
  shows "has_admin realm (snd (edit_memberships P f p))"
proof -
  obtain m where m: "m \<in> set (admin_rows realm p)" "\<not> P m" using assms by (auto simp: has_admin_iff)
  then have "m \<in> set (update_where P f (memberships p))" by (force simp: admin_rows_iff update_where_def)
  then have "m \<in> set (admin_rows realm (snd (edit_memberships P f p)))"
    using m(1) by (simp add: admin_rows_iff edit_memberships_def)
  then show ?thesis by (auto simp: has_admin_iff)
qed

lemma admin_step:
  assumes "placed p" "has_admin realm p" "people_step p p'"
  shows "has_admin realm p'"
  using assms(3)
proof cases
  case (Disable i revision now)
  show ?thesis unfolding Disable disable_stmt_def
    by (rule guarded_edit_keeps_admin [OF assms(1,2), where i = i]) auto
next
  case (Delete i revision now)
  show ?thesis unfolding Delete deletion_stmt_def
    by (rule guarded_edit_keeps_admin [OF assms(1,2), where i = i]) auto
next
  case (RevokeAdmin i now)
  show ?thesis unfolding RevokeAdmin revoke_admin_stmt_def
  proof (rule admin_survives_memberships [OF assms(2)])
    fix m assume m: "m \<in> set (admin_rows realm p)" and g: "mb_membership_id m = i \<and> mb_revoked_at m = None
         \<and> 1 \<le> length (filter (\<lambda>x. mb_membership_id x \<noteq> mb_membership_id m) (admin_rows (mb_realm_id m) p))"
    have "mb_realm_id m = realm" using m by (simp add: admin_rows_iff)
    then obtain m' where "m' \<in> set (admin_rows realm p)" "mb_membership_id m' \<noteq> i"
      using g by (auto simp: Suc_le_eq filter_empty_conv)
    then show "\<exists>m'. m' \<in> set (admin_rows realm p) \<and> \<not> (mb_membership_id m' = i \<and> mb_revoked_at m' = None
         \<and> 1 \<le> length (filter (\<lambda>x. mb_membership_id x \<noteq> mb_membership_id m') (admin_rows (mb_realm_id m') p)))"
      by blast
  qed
next
  case (RevokeOther i now)
  show ?thesis unfolding RevokeOther revoke_membership_stmt_def
    by (rule admin_survives_memberships [OF assms(2)]) (use RevokeOther(2) in \<open>auto simp: admin_rows_iff\<close>)
next
  case (Activate i revision now)
  let ?P = "\<lambda>a. ac_account_id a = i \<and> ac_revision a = revision"
  let ?f = "\<lambda>a. a\<lparr>ac_status := ActiveAccount, ac_updated_at := now, ac_revision := ac_revision a + 1\<rparr>"
  from assms(2) obtain m a where m: "m \<in> set (admin_rows realm p)" "a \<in> set (accounts p)"
    "ac_account_id a = mb_account_id m" "ac_status a = ActiveAccount"
    by (auto simp: has_admin_iff admin_rows_iff)
  have "\<exists>b \<in> set (update_where ?P ?f (accounts p)). ac_account_id b = mb_account_id m \<and> ac_status b = ActiveAccount"
    using update_where_in [OF m(2), of ?P ?f] m(3,4) by (auto split: if_splits intro: rev_bexI)
  then have "m \<in> set (admin_rows realm p')"
    using m(1) unfolding Activate status_stmt_def by (simp add: admin_rows_iff edit_accounts_def)
  then show ?thesis by (auto simp: has_admin_iff)
next
  case (Tombstone i revision now n)
  show ?thesis unfolding tombstone_stmt_InrD(1) [OF Tombstone]
    by (rule admin_survives_accounts [OF assms(2)]) (auto simp: tombstone_due_def)
next
  case (AddAccount a)
  then show ?thesis using insert_account_InrD(1) [OF AddAccount] assms(2) by (auto simp: has_admin_iff admin_rows_iff)
next
  case (AddMembership m)
  then show ?thesis using insert_membership_InrD(1) [OF AddMembership(2)] assms(2) by (auto simp: has_admin_iff admin_rows_iff)
next
  case Elsewhere
  then show ?thesis using assms(2) by (simp add: has_admin_iff admin_rows_iff)
qed

section \<open>What the account operations keep\<close>

text \<open>A fact of the people tables that no step of the administration ends.\<close>

definition lasting :: "(humans \<Rightarrow> bool) \<Rightarrow> bool" where
  "lasting P \<longleftrightarrow> (\<forall>p p'. P p \<longrightarrow> people_step p p' \<longrightarrow> P p')"

abbreviation holds :: "(humans \<Rightarrow> bool) \<Rightarrow> db \<Rightarrow> bool" where
  "holds P \<equiv> \<lambda>d. P (people d)"

lemma lastingD: "lasting P \<Longrightarrow> P p \<Longrightarrow> people_step p p' \<Longrightarrow> P p'"
  by (auto simp: lasting_def)

lemma lasting_conj: "lasting P \<Longrightarrow> lasting Q \<Longrightarrow> lasting (\<lambda>p. P p \<and> Q p)"
  by (auto simp: lasting_def)

lemma lasting_placed: "lasting placed"
  using placed_step(1) by (auto simp: lasting_def)

lemma lasting_home: "lasting (\<lambda>p. placed p \<and> lives i realm p)"
  using placed_step by (auto simp: lasting_def)

lemma lasting_admin: "lasting (\<lambda>p. placed p \<and> has_admin realm p)"
  using placed_step(1) admin_step by (auto simp: lasting_def)

lemma keeps_step_edit:
  assumes "lasting P" "\<And>p. P p \<Longrightarrow> people_step p (snd (f p))"
  shows "keeps (holds P) (people_edit f)"
  by (rule keeps_people_edit) (use assms lastingD in auto)

lemma keeps_step_try:
  assumes "lasting P" "\<And>p x p'. P p \<Longrightarrow> f p = (Inr x, p') \<Longrightarrow> people_step p p'"
  shows "keeps (holds P) (people_try g f)"
  by (rule keeps_people_try, simp) (rule lastingD [OF assms(1) _ assms(2)])

named_theorems account_keeps "what the account operations keep"


lemma keeps_other_tables [account_keeps]:
  assumes "lasting P"
  shows "keeps (holds P) (revoke_all_for_account i why now)" "keeps (holds P) (rehash_secret i phc alg params ver)"
    "keeps (holds P) (issue_session s)" "keeps (holds P) (record_login_attempt kind key ok now)"
    "keeps (holds P) (verify_and_advance_passkey_sign_count i c x now)"
    "keeps (holds P) (people_edit (consume_code_stmt i hash now))"
proof -
  show "keeps (holds P) (revoke_all_for_account i why now)" "keeps (holds P) (people_edit (consume_code_stmt i hash now))"
    unfolding revoke_all_for_account_def
    by (rule keeps_step_edit [OF assms Elsewhere];
        simp add: revoke_all_stmt_def edit_sessions_def consume_code_stmt_def edit_codes_def)+
  show "keeps (holds P) (rehash_secret i phc alg params ver)" "keeps (holds P) (record_login_attempt kind key ok now)"
    "keeps (holds P) (verify_and_advance_passkey_sign_count i c x now)"
    unfolding rehash_secret_def record_login_attempt_def verify_and_advance_passkey_sign_count_def
    by (intro keeps_intros keeps_step_edit [OF assms Elsewhere];
        simp add: rehash_stmt_def edit_credentials_def attempt_stmt_def passkey_stmt_def Let_def)+
  show "keeps (holds P) (issue_session s)" unfolding issue_session_def
    by (intro keeps_intros keeps_step_try [OF assms Elsewhere])
      (auto simp: insert_session_def split: option.splits)
qed

lemma keeps_update_status_active [account_keeps]:
  "lasting P \<Longrightarrow> keeps (holds P) (update_status i revision ActiveAccount now)"
  unfolding update_status_def by (intro keeps_intros keeps_step_edit Activate)

lemma keeps_disable [account_keeps]:
  "lasting P \<Longrightarrow> keeps (holds P) (disable_account_protecting_last_admin i revision now)"
  unfolding disable_account_protecting_last_admin_def diagnose_blocked_write_def
  by (intro keeps_intros account_keeps keeps_step_edit Disable)

lemma keeps_deletion [account_keeps]:
  "lasting P \<Longrightarrow> keeps (holds P) (initiate_account_deletion i revision now)"
  unfolding initiate_account_deletion_def diagnose_blocked_deletion_def
  by (intro keeps_intros account_keeps keeps_step_edit Delete)

lemma keeps_change_password [account_keeps]:
  "lasting P \<Longrightarrow> keeps (holds P) (change_password_and_revoke_sessions v salt account i password sf now)"
  unfolding change_password_and_revoke_sessions_def
  by (intro keeps_intros account_keeps)

lemma keeps_recovery [account_keeps]:
  "lasting P \<Longrightarrow> keeps (holds P) (complete_recovery_with_code v salt account code password now stamp)"
  unfolding complete_recovery_with_code_def reset_password_def
  by (intro keeps_intros account_keeps)

lemma keeps_login [account_keeps]:
  assumes "lasting P"
  shows "keeps (holds P) (authenticate_and_issue_session v s salt q clk realm username password fp now)"
    "keeps (holds P) (authenticate_with_passkey v s q clk realm account i x now)"
proof -
  have "keeps (holds P) (upgrade_hash v salt password c phc)" for c phc
    unfolding upgrade_hash_def by (intro keeps_intros account_keeps assms)
  then have "keeps (holds P) (try_authenticate v s salt q ck realm name password now)" for ck name
    unfolding try_authenticate_def by (intro keeps_intros account_keeps assms)
  moreover have "keeps (holds P) (record_outcome name fp ok now)" for name ok
    unfolding record_outcome_def by (intro keeps_intros account_keeps assms)
  moreover have "keeps (holds P) (optional_throttle fp t)" "keeps (holds P) (enforce_login_throttle k n t)" for t k n
    unfolding optional_throttle_def enforce_login_throttle_def by (intro keeps_intros)+
  ultimately show "keeps (holds P) (authenticate_and_issue_session v s salt q clk realm username password fp now)"
    unfolding authenticate_and_issue_session_def by (intro keeps_intros keeps_case) auto
  show "keeps (holds P) (authenticate_with_passkey v s q clk realm account i x now)"
    unfolding authenticate_with_passkey_def by (intro keeps_intros account_keeps assms)
qed

lemma keeps_grant [account_keeps]:
  assumes "lasting P" "\<And>p. P p \<Longrightarrow> lives account realm p"
  shows "keeps (holds P) (grant_membership i account realm role by now)"
proof -
  have m: "mb_account_id m = account \<and> mb_realm_id m = realm"
    if "membership_for_human i account realm role (Some by) now = Inr m" for m
    using that by (auto simp: membership_for_human_def split: if_splits)
  have "keeps (holds P) (grant m)" if "mb_account_id m = account" "mb_realm_id m = realm" for m
    unfolding grant_def
    by (intro keeps_intros keeps_step_try [OF assms(1)] AddMembership) (use that assms(2) in auto)
  then have "keeps (holds P) (case membership_for_human i account realm role (Some by) now of
      Inl e \<Rightarrow> hfail e | Inr m \<Rightarrow> grant m)"
    using m by (auto intro: keeps_intros split: sum.splits)
  moreover have "hbind (check r) g = (case r of Inl e \<Rightarrow> hfail e | Inr m \<Rightarrow> g m)" for r :: "(accounts_error, membership) res" and g :: "membership \<Rightarrow> membership accounts_op"
    by (auto simp: hbind_def check_def hfail_def fun_eq_iff split: sum.splits)
  ultimately show ?thesis by (simp add: grant_membership_def)
qed

text \<open>A new account with its first role, in one transaction.\<close>

lemma lives_after_insert: "insert_account a p = (Inr (), p') \<Longrightarrow> lives (ac_account_id a) (ac_realm_id a) p'"
  using insert_account_InrD(1) by (fastforce simp: lives_def)

lemma run_tx_Cons_Inr:
  "run_tx (f # fs) p = (Inr u, p') \<longleftrightarrow> (\<exists>p1. f p = (Inr (), p1) \<and> run_tx fs p1 = (Inr u, p'))"
  "run_tx [] p = (Inr u, p') \<longleftrightarrow> p' = p"
  by (auto split: prod.splits sum.splits)

lemma registration_tx:
  assumes "lasting P" "P p" "run_tx (insert_account a # fs @ [insert_membership m]) p = (Inr u, p')"
    and "fs = [] \<or> (\<exists>c. fs = [insert_credential c])"
    and "mb_account_id m = ac_account_id a" "mb_realm_id m = ac_realm_id a"
  shows "P p'"
proof -
  have cred: "people_step x y" "lives i r x \<Longrightarrow> lives i r y" if "insert_credential c x = (Inr (), y)" for c x y i r
    using that by (auto simp: insert_credential_def lives_def intro!: Elsewhere split: option.splits)
  obtain p1 where p1: "insert_account a p = (Inr (), p1)" "run_tx (fs @ [insert_membership m]) p1 = (Inr u, p')"
    using assms(3) by (auto simp: run_tx_Cons_Inr simp del: run_tx.simps)
  have P1: "P p1" "lives (ac_account_id a) (ac_realm_id a) p1"
    using lastingD [OF assms(1,2) AddAccount [OF p1(1)]] lives_after_insert [OF p1(1)] by auto
  obtain p2 where p2: "P p2" "lives (ac_account_id a) (ac_realm_id a) p2" "insert_membership m p2 = (Inr (), p')"
  proof (cases fs)
    case Nil
    then show thesis using p1(2) P1 that [of p1] by (auto simp: run_tx_Cons_Inr simp del: run_tx.simps)
  next
    case Cons
    with assms(4) obtain c where "fs = [insert_credential c]" by auto
    then obtain p2 where "insert_credential c p1 = (Inr (), p2)" "insert_membership m p2 = (Inr (), p')"
      using p1(2) by (auto simp: run_tx_Cons_Inr simp del: run_tx.simps)
    then show thesis using that [of p2] cred(1) [THEN lastingD [OF assms(1) P1(1)]] cred(2) [OF _ P1(2)] by blast
  qed
  show ?thesis using lastingD [OF assms(1) p2(1) AddMembership [OF _ p2(3)]] assms(5,6) p2(2) by simp
qed

lemma create_tx:
  assumes "lasting P" "P p"
    and "run_tx [insert_account (new_account a realm name username display e st now),
       insert_credential (new_password i a phc now), insert_membership (new_membership j a realm role b now)] p = (Inr u, p')"
  shows "P p'"
  by (rule registration_tx [OF assms(1,2), where fs = "[insert_credential (new_password i a phc now)]"])
    (use assms(3) in \<open>auto simp: new_account_def new_membership_def simp del: run_tx.simps\<close>)

lemma invite_tx:
  assumes "lasting P" "P p"
    and "run_tx [insert_account (new_account a realm name username display email st now),
       insert_membership (new_membership j a realm role b now)] p = (Inr u, p')"
  shows "P p'"
  by (rule registration_tx [OF assms(1,2), where fs = "[]"])
    (use assms(3) in \<open>auto simp: new_account_def new_membership_def simp del: run_tx.simps\<close>)

lemma boot_tx:
  assumes "lasting P" "P p" and tx: "run_tx (bootstrap_tx ids realm name username display phc now) p = (Inr u, p')"
  shows "P p'"
proof -
  obtain p1 where p1: "insert_bootstrap (fresh_account ids) now p = (Inr (), p1)"
    "run_tx (tl (bootstrap_tx ids realm name username display phc now)) p1 = (Inr u, p')"
    using tx by (auto simp: bootstrap_tx_def run_tx_Cons_Inr simp del: run_tx.simps)
  have "people_step p p1" using p1(1) by (auto simp: insert_bootstrap_def intro!: Elsewhere split: if_splits)
  then have "P p1" using lastingD [OF assms(1,2)] by blast
  then show ?thesis by (rule create_tx [OF assms(1) _ p1(2) [unfolded bootstrap_tx_def list.sel]])
qed

lemma run_tx_append_Inr:
  "run_tx (fs @ gs) p = (Inr u, p') \<longleftrightarrow> (\<exists>p1. run_tx fs p = (Inr (), p1) \<and> run_tx gs p1 = (Inr u, p'))"
proof (induction fs arbitrary: p)
  case Nil
  then show ?case by simp
next
  case (Cons f fs)
  show ?case
    unfolding append_Cons run_tx_Cons_Inr(1) Cons.IH by blast
qed

lemma codes_tx:
  assumes "lasting P"
  shows "P p \<Longrightarrow> run_tx (map (\<lambda>c. insert_code (g c)) cs) p = (Inr u, p') \<Longrightarrow> P p'"
proof (induction cs arbitrary: p)
  case Nil
  then show ?case by simp
next
  case (Cons c cs)
  from Cons.prems(2) obtain p1 where p1: "insert_code (g c) p = (Inr (), p1)"
    "run_tx (map (\<lambda>c. insert_code (g c)) cs) p1 = (Inr u, p')"
    by (auto simp: run_tx_Cons_Inr simp del: run_tx.simps)
  have "people_step p p1" using p1(1) by (auto simp: insert_code_def intro!: Elsewhere split: option.splits)
  then show ?case using Cons.IH [OF _ p1(2)] lastingD [OF assms Cons.prems(1)] by blast
qed

lemma genesis_tx_keeps:
  assumes "lasting P" "P p" "run_tx (genesis_tx v g q normalized phc now) p = (Inr u, p')"
  shows "P p'"
proof -
  obtain r p1 p2 cs where r: "insert_realm r p = (Inr (), p1)"
    and b: "run_tx (bootstrap_tx (dr_ids g) (gn_account_realm q) normalized (gn_username q) (gn_display_name q) phc now) p1 = (Inr (), p2)"
    and c: "run_tx (map (\<lambda>c. insert_code (recovery_code v (fresh_account (dr_ids g)) (dr_batch g) now None c)) cs) p2 = (Inr u, p')"
    using assms(3) unfolding genesis_tx_def run_tx_Cons_Inr(1) run_tx_append_Inr by blast
  have "people_step p p1" using r by (auto simp: insert_realm_def intro!: Elsewhere split: if_splits)
  from lastingD [OF assms(1,2) this] have "P p1" .
  then have "P p2" by (rule boot_tx [OF assms(1) _ b])
  then show ?thesis by (rule codes_tx [OF assms(1) _ c])
qed

lemma keeps_registration [account_keeps]:
  assumes "lasting P"
  shows "keeps (holds P) (create_account_with_password v ids salt realm username display password role by now)"
    "keeps (holds P) (create_invited_account ids realm username display email role by now)"
    "keeps (holds P) (bootstrap_first_administrator v ids salt realm username display password now)"
    "keeps (holds P) (complete_genesis v g salt q now)"
    "keeps (holds P) (create_account a)"
proof -
  note tx = keeps_people_try [where P = "holds P"]
  note db = db.select_convs db.update_convs
  show "keeps (holds P) (create_account_with_password v ids salt realm username display password role by now)"
    unfolding create_account_with_password_def
    by (intro keeps_intros tx) (simp del: run_tx.simps, erule (1) create_tx [OF assms])
  show "keeps (holds P) (create_invited_account ids realm username display email role by now)"
    unfolding create_invited_account_def
    by (intro keeps_intros tx) (simp del: run_tx.simps, erule (1) invite_tx [OF assms])
  show "keeps (holds P) (bootstrap_first_administrator v ids salt realm username display password now)"
    unfolding bootstrap_first_administrator_def
    by (intro keeps_intros tx) (simp del: run_tx.simps, erule (1) boot_tx [OF assms])
  show "keeps (holds P) (complete_genesis v g salt q now)"
    unfolding complete_genesis_def
    by (intro keeps_intros tx) (simp del: run_tx.simps, erule (1) genesis_tx_keeps [OF assms])
  show "keeps (holds P) (create_account a)"
    unfolding create_account_def by (intro keeps_intros keeps_step_try [OF assms] AddAccount) simp
qed

text \<open>
  Taking a role away reads the membership first. A role other than admin stays one: ids are unique and no
  step changes the role of a row.
\<close>

definition lesser_role :: "string \<Rightarrow> humans \<Rightarrow> bool" where
  "lesser_role i p \<longleftrightarrow> placed p \<and> (\<exists>m \<in> set (memberships p). mb_membership_id m = i \<and> mb_role m \<noteq> Admin)"

lemma lesser_role_only:
  assumes "lesser_role i p"
  shows "\<forall>m \<in> set (memberships p). mb_membership_id m = i \<longrightarrow> mb_role m \<noteq> Admin"
  using assms distinct_keyD [of mb_membership_id "memberships p"] by (auto simp: lesser_role_def placed_def)

lemma edit_memberships_same:
  assumes "m \<in> set (memberships p)" "mb_membership_id m = i" "mb_role m \<noteq> Admin"
    "\<And>x. mb_membership_id (f x) = mb_membership_id x \<and> mb_role (f x) = mb_role x"
  shows "\<exists>m' \<in> set (memberships (snd (edit_memberships P f p))). mb_membership_id m' = i \<and> mb_role m' \<noteq> Admin"
proof
  show "(if P m then f m else m) \<in> set (memberships (snd (edit_memberships P f p)))"
    using update_where_in [OF assms(1), of P f] by (simp add: edit_memberships_def)
qed (use assms in simp)

lemma lasting_lesser_role: "lasting (lesser_role i)"
  unfolding lasting_def
proof (intro allI impI)
  fix p p' assume l: "lesser_role i p" and s: "people_step p p'"
  then obtain m where m: "m \<in> set (memberships p)" "mb_membership_id m = i" "mb_role m \<noteq> Admin"
    by (auto simp: lesser_role_def)
  have "\<exists>m' \<in> set (memberships p'). mb_membership_id m' = i \<and> mb_role m' \<noteq> Admin"
    using s
  proof cases
    case RevokeAdmin
    then show ?thesis unfolding revoke_admin_stmt_def using edit_memberships_same [OF m] by simp
  next
    case RevokeOther
    then show ?thesis unfolding revoke_membership_stmt_def using edit_memberships_same [OF m] by simp
  next
    case (Tombstone j revision now n)
    show ?thesis unfolding tombstone_stmt_InrD(1) [OF Tombstone] using m by auto
  next
    case (AddAccount a)
    then show ?thesis using insert_account_InrD(1) [OF AddAccount] m by auto
  next
    case (AddMembership x)
    then show ?thesis using insert_membership_InrD(1) [OF AddMembership(2)] m by auto
  qed (use m in \<open>auto simp: disable_stmt_def deletion_stmt_def status_stmt_def\<close>)
  then show "lesser_role i p'" using l placed_step(1) [OF _ s] by (auto simp: lesser_role_def)
qed

lemma hbind_Inr: "m w = (Inr x, w1) \<Longrightarrow> hbind m f w = f x w1"
  by (simp add: hbind_def)

lemma one_row_InrE:
  assumes "one_row e f w = (Inr x, w')"
  obtains "f (people (db w')) = Some x"
proof -
  obtain r w1 where n: "next_turn w = (r, w1)" by fastforce
  show thesis
    using assms that n
    by (cases r) (auto simp: one_row_def hbind_def people_read_def call_def query_rq_def statement_def split: option.splits)
qed

lemma find_membership_lesser:
  assumes "placed p" "find_membership i p = Some m" "mb_role m \<noteq> Admin"
  shows "lesser_role i p"
  using assms by (auto simp: lesser_role_def find_membership_def find_Some_iff intro!: nth_mem rev_bexI)

lemma find_account_lives: "find_account i p = Some a \<Longrightarrow> lives i (ac_realm_id a) p"
  by (auto simp: lives_def find_account_def find_Some_iff intro!: nth_mem rev_bexI)

lemma revoke_other_keeps:
  assumes "lasting P" "\<And>p. P p \<Longrightarrow> lesser_role i p"
  shows "keeps (holds P) (revoke_membership i now)"
  unfolding revoke_membership_def
  by (intro keeps_intros keeps_step_edit [OF assms(1)] RevokeOther lesser_role_only assms(2))

section \<open>The calls of the administration\<close>

text \<open>A role is granted for the realm of the account, which the route looks up first.\<close>

definition grant_to :: "string \<Rightarrow> string \<Rightarrow> human_role \<Rightarrow> string \<Rightarrow> string \<Rightarrow> membership accounts_op" where
  "grant_to fresh account role granted_by now =
     hbind (get_account account) (\<lambda>a. grant_membership fresh account (ac_realm_id a) role granted_by now)"

datatype admin_call =
    DisableCall string int string
  | ActivateCall string int string
  | DeleteCall string int string
  | RevokeCall string string
  | GrantCall string string human_role string string
  | AddAccountCall account
  | CreateCall vault fresh_ids string string string string string human_role string string
  | InviteCall fresh_ids string string string "string option" human_role string string
  | BootstrapCall vault fresh_ids string string string string string string
  | GenesisCall vault genesis_draw string genesis_request string
  | PasswordCall vault string string string string bool string
  | RecoverCall vault string string string string string string
  | LoginCall vault session_draw string session_request "nat \<Rightarrow> int" string string string "string option" string
  | PasskeyCall vault session_draw session_request "nat \<Rightarrow> int" string string string assertion string

definition forget :: "('s, 'e, 'a) action \<Rightarrow> ('s, 'e, unit) action" where
  "forget m = hbind m (\<lambda>_. hret ())"

fun serve_admin :: "admin_call \<Rightarrow> unit accounts_op" where
  "serve_admin (DisableCall i revision now) = forget (disable_account_protecting_last_admin i revision now)"
| "serve_admin (ActivateCall i revision now) = forget (update_status i revision ActiveAccount now)"
| "serve_admin (DeleteCall i revision now) = forget (initiate_account_deletion i revision now)"
| "serve_admin (RevokeCall i now) = forget (revoke_membership_protecting_last_admin i now)"
| "serve_admin (GrantCall i account role by now) = forget (grant_to i account role by now)"
| "serve_admin (AddAccountCall a) = forget (create_account a)"
| "serve_admin (CreateCall v ids salt realm username display password role by now) =
     forget (create_account_with_password v ids salt realm username display password role by now)"
| "serve_admin (InviteCall ids realm username display email role by now) =
     forget (create_invited_account ids realm username display email role by now)"
| "serve_admin (BootstrapCall v ids salt realm username display password now) =
     forget (bootstrap_first_administrator v ids salt realm username display password now)"
| "serve_admin (GenesisCall v g salt q now) = forget (complete_genesis v g salt q now)"
| "serve_admin (PasswordCall v salt account i password second_factor now) =
     forget (change_password_and_revoke_sessions v salt account i password second_factor now)"
| "serve_admin (RecoverCall v salt account code password now stamp) =
     forget (complete_recovery_with_code v salt account code password now stamp)"
| "serve_admin (LoginCall v s salt q clk realm username password fingerprint now) =
     forget (authenticate_and_issue_session v s salt q clk realm username password fingerprint now)"
| "serve_admin (PasskeyCall v s q clk realm account i x now) =
     forget (authenticate_with_passkey v s q clk realm account i x now)"

lemma keeps_forget: "keeps P m \<Longrightarrow> keeps P (forget m)"
  unfolding forget_def by (intro keeps_intros)

lemma forget_run: "forget m w = (r, w') \<Longrightarrow> \<exists>x. m w = (x, w')"
  by (auto simp: forget_def hbind_def hret_def split: prod.splits sum.splits)

text \<open>All but two calls keep what every step keeps: those two act on what they read first.\<close>

lemma keeps_serve_admin:
  assumes "lasting P" "\<forall>i now. c \<noteq> RevokeCall i now" "\<forall>i account role by now. c \<noteq> GrantCall i account role by now"
  shows "keeps (holds P) (serve_admin c)"
  by (cases c) (use assms in \<open>auto intro!: keeps_forget account_keeps\<close>)

section \<open>The peers of a call\<close>

text \<open>
  What other nodes may run between the statements of a call is a step relation. The calls keep every fact
  its steps keep, as long as the steps include the guarded ones and respect identity and place.
\<close>

definition stays :: "(humans \<Rightarrow> humans \<Rightarrow> bool) \<Rightarrow> (humans \<Rightarrow> bool) \<Rightarrow> bool" where
  "stays step P \<longleftrightarrow> (\<forall>p p'. P p \<longrightarrow> step p p' \<longrightarrow> P p')"

definition peopled :: "(humans \<Rightarrow> humans \<Rightarrow> bool) \<Rightarrow> world \<Rightarrow> bool" where
  "peopled step w \<longleftrightarrow> peers_by (\<lambda>d d'. step (people d) (people d')) w"

lemma stays_conj: "stays step P \<Longrightarrow> stays step Q \<Longrightarrow> stays step (\<lambda>p. P p \<and> Q p)"
  by (auto simp: stays_def)

locale peer_rules =
  fixes step :: "humans \<Rightarrow> humans \<Rightarrow> bool"
  assumes guarded: "people_step p p' \<Longrightarrow> step p p'"
    and placed_stays: "stays step placed"
    and home_stays: "stays step (\<lambda>p. placed p \<and> lives i realm p)"
    and lesser_stays: "stays step (lesser_role i)"
begin

lemma stays_lasting: "stays step P \<Longrightarrow> lasting P"
  using guarded by (auto simp: stays_def lasting_def)

lemma run:
  assumes "stays step P" "keeps (holds P) m" "peopled step w" "P (people (db w))" "m w = (r, w')"
  shows "P (people (db w'))" "peopled step w'"
proof -
  have "env_keeps (holds P) w"
    by (rule peers_by_env_keeps [OF _ assms(3) [unfolded peopled_def]]) (use assms(1) in \<open>auto simp: stays_def\<close>)
  from keepsD [OF assms(2) _ this assms(5)] assms(4) show "P (people (db w'))" by blast
  show "peopled step w'"
    using peers_by_subset [OF assms(3) [unfolded peopled_def] keeps_script [OF assms(2,5)]] by (simp add: peopled_def)
qed

lemma revoke:
  assumes "stays step P" "peopled step w" "placed (people (db w))" "P (people (db w))"
    and run_eq: "revoke_membership_protecting_last_admin i now w = (r, w')"
  shows "P (people (db w'))"
proof -
  let ?Q = "\<lambda>p. P p \<and> placed p"
  have lasts: "stays step ?Q" by (rule stays_conj [OF assms(1) placed_stays])
  obtain x w1 where x: "membership_row i w = (x, w1)" by fastforce
  have w1: "?Q (people (db w1))" "peopled step w1"
    using run [OF lasts keeps_readers(2) assms(2) _ x] assms(3,4) by simp_all
  show ?thesis
  proof (cases x)
    case (Inl e)
    then show ?thesis using run_eq x w1 by (auto simp: revoke_membership_protecting_last_admin_def hbind_def)
  next
    case (Inr m)
    then have found: "find_membership i (people (db w1)) = Some m"
      using x by (auto simp: membership_row_def elim: one_row_InrE)
    note rest = run_eq [unfolded revoke_membership_protecting_last_admin_def hbind_Inr [where m = "membership_row i" and w = w, OF x [unfolded Inr]]]
    show ?thesis
    proof (cases "mb_role m = Admin")
      case True
      have "keeps (holds P) (if mb_role m \<noteq> Admin then revoke_membership i now else
          hbind (people_edit (revoke_admin_stmt i now)) (\<lambda>n.
          if n \<noteq> 1 then
            hbind (people_read (\<lambda>p. case find_membership i p of None \<Rightarrow> None | Some m \<Rightarrow> mb_revoked_at m)) (\<lambda>r.
            hfail (if r \<noteq> None then AccountPolicyViolation ''membership_already_revoked'' else LastAdministratorViolation))
          else membership_row i))"
        unfolding True by (simp only: not_True_eq_False if_False simp_thms)
          (intro keeps_intros keeps_step_edit [OF stays_lasting [OF assms(1)]] RevokeAdmin)
      from run(1) [OF assms(1) this w1(2) _ rest] show ?thesis using w1(1) by blast
    next
      case False
      define R where "R = (\<lambda>p. ?Q p \<and> lesser_role i p)"
      have "lesser_role i (people (db w1))" by (rule find_membership_lesser [OF _ found False]) (simp add: w1)
      then have R: "R (people (db w1))" using w1(1) unfolding R_def by blast
      have last: "stays step R" unfolding R_def by (rule stays_conj [OF lasts lesser_stays])
      have "keeps (holds R) (revoke_membership i now)"
        by (rule revoke_other_keeps [OF stays_lasting [OF last]]) (unfold R_def, erule conjunct2)
      moreover have "revoke_membership i now w1 = (r, w')" using rest False by (simp only: not_False_eq_True if_True)
      ultimately have "R (people (db w'))" by (rule run(1) [OF last _ w1(2) R])
      then show ?thesis unfolding R_def by blast
    qed
  qed
qed

lemma granting:
  assumes "stays step P" "peopled step w" "placed (people (db w))" "P (people (db w))"
    and run_eq: "grant_to i account role by now w = (r, w')"
  shows "P (people (db w'))"
proof -
  let ?Q = "\<lambda>p. P p \<and> placed p"
  have lasts: "stays step ?Q" by (rule stays_conj [OF assms(1) placed_stays])
  obtain x w1 where x: "get_account account w = (x, w1)" by fastforce
  have w1: "?Q (people (db w1))" "peopled step w1"
    using run [OF lasts keeps_readers(1) assms(2) _ x] assms(3,4) by simp_all
  show ?thesis
  proof (cases x)
    case (Inl e)
    then show ?thesis using run_eq x w1 by (auto simp: grant_to_def hbind_def)
  next
    case (Inr a)
    then have "find_account account (people (db w1)) = Some a"
      using x by (auto simp: get_account_def elim: one_row_InrE)
    then have home: "lives account (ac_realm_id a) (people (db w1))" by (rule find_account_lives)
    define R where "R = (\<lambda>p. P p \<and> (placed p \<and> lives account (ac_realm_id a) p))"
    have R: "R (people (db w1))" using w1(1) home unfolding R_def by blast
    have last: "stays step R" unfolding R_def by (rule stays_conj [OF assms(1) home_stays])
    have "keeps (holds R) (grant_membership i account (ac_realm_id a) role by now)"
      by (rule keeps_grant [OF stays_lasting [OF last]]) (simp add: R_def)
    moreover have "grant_membership i account (ac_realm_id a) role by now w1 = (r, w')"
      using run_eq x Inr by (simp add: grant_to_def hbind_Inr)
    ultimately have "R (people (db w'))" by (rule run(1) [OF last _ w1(2) R])
    then show ?thesis unfolding R_def by blast
  qed
qed

lemma served:
  assumes "stays step P" "peopled step w" "placed (people (db w))" "P (people (db w))" "serve_admin c w = (r, w')"
  shows "P (people (db w'))"
proof -
  consider i now where "c = RevokeCall i now" | i account role giver now where "c = GrantCall i account role giver now"
    | "\<forall>i now. c \<noteq> RevokeCall i now" "\<forall>i account role by now. c \<noteq> GrantCall i account role by now"
    by blast
  then show ?thesis
  proof cases
    case 1
    then obtain x where "revoke_membership_protecting_last_admin i now w = (x, w')" using forget_run assms(5) by fastforce
    then show ?thesis by (rule revoke [OF assms(1-4)])
  next
    case 2
    then obtain x where "grant_to i account role giver now w = (x, w')" using forget_run assms(5) by fastforce
    then show ?thesis by (rule granting [OF assms(1-4)])
  next
    case 3
    show ?thesis by (rule run(1) [OF assms(1) keeps_serve_admin [OF stays_lasting [OF assms(1)] 3] assms(2,4,5)])
  qed
qed

end

lemma lasting_stays: "stays people_step P \<longleftrightarrow> lasting P"
  by (simp add: stays_def lasting_def)

text \<open>Peers that run only guarded steps.\<close>

interpretation guarded_peers: peer_rules people_step
  by unfold_locales (simp_all add: lasting_stays lasting_placed lasting_home lasting_lesser_role)

text \<open>
  Peers that run any statement on accounts and memberships: also a status set without the guard and a
  role taken away without it.
\<close>

inductive account_step :: "humans \<Rightarrow> humans \<Rightarrow> bool" where
  Guarded: "people_step p p' \<Longrightarrow> account_step p p'"
| SetStatus: "account_step p (snd (status_stmt i revision status now p))"
| TakeRole: "account_step p (snd (revoke_membership_stmt i now p))"

lemma placed_account_step:
  assumes "placed p" "account_step p p'"
  shows "placed p'" "lives i realm p \<Longrightarrow> lives i realm p'"
proof -
  have "placed p' \<and> (lives i realm p \<longrightarrow> lives i realm p')"
    using assms(2)
  proof cases
    case Guarded
    then show ?thesis using placed_step [OF assms(1)] by blast
  next
    case SetStatus
    then show ?thesis unfolding status_stmt_def using placed_edit_accounts [OF assms(1)] by simp
  next
    case TakeRole
    then show ?thesis unfolding revoke_membership_stmt_def
      using placed_edit_memberships [OF assms(1)] by (simp add: lives_def)
  qed
  then show "placed p'" "lives i realm p \<Longrightarrow> lives i realm p'" by auto
qed

lemma lesser_account_step:
  assumes "lesser_role i p" "account_step p p'"
  shows "lesser_role i p'"
proof -
  obtain m where m: "m \<in> set (memberships p)" "mb_membership_id m = i" "mb_role m \<noteq> Admin" and "placed p"
    using assms(1) by (auto simp: lesser_role_def)
  have "\<exists>m' \<in> set (memberships p'). mb_membership_id m' = i \<and> mb_role m' \<noteq> Admin"
    using assms(2)
  proof cases
    case Guarded
    then show ?thesis using lasting_lesser_role lastingD [OF lasting_lesser_role assms(1)] by (auto simp: lesser_role_def)
  next
    case SetStatus
    then show ?thesis using m by (auto simp: status_stmt_def)
  next
    case TakeRole
    then show ?thesis unfolding revoke_membership_stmt_def using edit_memberships_same [OF m] by simp
  qed
  then show ?thesis using placed_account_step(1) [OF \<open>placed p\<close> assms(2)] by (auto simp: lesser_role_def)
qed

interpretation any_peers: peer_rules account_step
  by unfold_locales
    (auto simp: stays_def Guarded placed_account_step lesser_account_step)

section \<open>The completion of a deletion\<close>

text \<open>
  The role removals of a completed deletion are not guarded. They are harmless as long as nobody else
  writes: the account was made a tombstone before, and its roles make no administrator any more.
\<close>

definition dead :: "string \<Rightarrow> humans \<Rightarrow> bool" where
  "dead i p \<longleftrightarrow> (\<forall>a \<in> set (accounts p). ac_account_id a = i \<longrightarrow> ac_status a = DeletedTombstone)"

definition lonely :: "world \<Rightarrow> bool" where
  "lonely w \<longleftrightarrow> (\<forall>t \<in> set (script w). \<forall>d. turn_env t d = d)"

text \<open>The office after the tombstone: the memberships \<open>J\<close> about to be revoked are the dead account's.\<close>

definition office :: "string \<Rightarrow> string \<Rightarrow> string set \<Rightarrow> humans \<Rightarrow> bool" where
  "office realm i J p \<longleftrightarrow> placed p \<and> has_admin realm p \<and> dead i p
     \<and> (\<forall>m \<in> set (memberships p). mb_membership_id m \<in> J \<longrightarrow> mb_account_id m = i)"

lemma lonely_run:
  assumes "keeps (holds P) m" "lonely w" "P (people (db w))" "m w = (r, w')"
  shows "P (people (db w'))" "lonely w'"
proof -
  have "env_keeps (holds P) w" using assms(2) by (auto simp: lonely_def env_keeps_def)
  from keepsD [OF assms(1) _ this assms(4)] assms(3) show "P (people (db w'))" by blast
  show "lonely w'" using keeps_script [OF assms(1,4)] assms(2) by (auto simp: lonely_def)
qed

lemma hbind_split:
  assumes "hbind m f w = (r, w')"
  obtains x w1 where "m w = (x, w1)" "case x of Inl e \<Rightarrow> r = Inl e \<and> w' = w1 | Inr y \<Rightarrow> f y w1 = (r, w')"
  using assms by (auto simp: hbind_def split: prod.splits sum.splits)

text \<open>A handler keeps the office when each of its parts does; what it read may choose the next part.\<close>

lemma lonely_bind:
  assumes "hbind m f w = (r, w')" "keeps (holds P) m" "lonely w" "P (people (db w))"
    and "P (people (db w')) \<Longrightarrow> G"
    and "\<And>x w1. m w = (Inr x, w1) \<Longrightarrow> lonely w1 \<Longrightarrow> P (people (db w1)) \<Longrightarrow> f x w1 = (r, w') \<Longrightarrow> G"
  shows G
  using hbind_split [OF assms(1)]
proof cases
  case (1 x w1)
  note run = lonely_run [OF assms(2-4) 1(1)]
  show ?thesis using 1 run assms(5,6) by (cases x) auto
qed

lemma keeps_office_elsewhere:
  assumes "\<And>p. accounts (snd (f p)) = accounts p \<and> memberships (snd (f p)) = memberships p"
  shows "keeps (holds (office realm i J)) (people_edit f)"
  by (rule keeps_people_edit)
    (use assms in \<open>auto simp: office_def placed_def has_admin_iff admin_rows_iff dead_def\<close>)

lemma keeps_office_revoke:
  assumes "j \<in> J"
  shows "keeps (holds (office realm i J)) (revoke_membership j now)"
proof -
  have "office realm i J (snd (revoke_membership_stmt j now p))" if o: "office realm i J p" for p
  proof -
    let ?p = "snd (revoke_membership_stmt j now p)"
    have p: "placed p" "has_admin realm p" "dead i p" "\<And>m. m \<in> set (memberships p) \<Longrightarrow> mb_membership_id m \<in> J \<Longrightarrow> mb_account_id m = i"
      using o by (auto simp: office_def)
    have "placed ?p" unfolding revoke_membership_stmt_def using placed_edit_memberships [OF p(1)] by simp
    moreover have "has_admin realm ?p" unfolding revoke_membership_stmt_def
    proof (rule admin_survives_memberships [OF p(2)])
      fix m assume "m \<in> set (admin_rows realm p)" "mb_membership_id m = j \<and> mb_revoked_at m = None"
      then show "\<exists>m'. m' \<in> set (admin_rows realm p) \<and> \<not> (mb_membership_id m' = j \<and> mb_revoked_at m' = None)"
        using p(3,4) assms by (fastforce simp: admin_rows_iff dead_def)
    qed
    moreover have "dead i ?p" using p(3) by (simp add: dead_def revoke_membership_stmt_def)
    moreover have "\<forall>m \<in> set (memberships ?p). mb_membership_id m \<in> J \<longrightarrow> mb_account_id m = i"
      unfolding revoke_membership_stmt_def edit_memberships_def
      using p(4) by (auto dest!: set_update_where)
    ultimately show ?thesis by (simp add: office_def)
  qed
  then show ?thesis unfolding revoke_membership_def
    by (intro keeps_intros keeps_people_edit) auto
qed

lemma keeps_each_step_in: "(\<And>x. x \<in> set xs \<Longrightarrow> keeps P (f x)) \<Longrightarrow> keeps P (each_step f xs)"
  by (induction xs) (auto intro: keeps_intros)

lemma keeps_each_step: "(\<And>x. keeps P (f x)) \<Longrightarrow> keeps P (each_step f xs)"
  by (rule keeps_each_step_in)

lemma tombstone_office:
  assumes "placed p" "has_admin realm p" "tombstone_stmt i revision now p = (Inr (Suc 0), p')"
  shows "office realm i {} p'"
proof -
  note t = tombstone_stmt_InrD [OF assms(3)]
  have "people_step p p'" by (rule Tombstone [OF assms(3)])
  then have "placed p'" "has_admin realm p'" using placed_step(1) admin_step assms(1,2) by blast+
  moreover have "dead i p'" unfolding dead_def
  proof (intro ballI impI)
    fix b assume b: "b \<in> set (accounts p')" "ac_account_id b = i"
    then obtain a where a: "a \<in> set (accounts p)" "b = (if tombstone_due i revision a then tombstone_row now a else a)"
      by (auto simp: t(1) edit_accounts_def dest!: set_update_where)
    have "\<exists>c \<in> set (accounts p). tombstone_due i revision c"
      using t(2) affected_0_iff [of "tombstone_due i revision" "accounts p"] by auto
    then have "tombstone_due i revision a"
      using assms(1) a b distinct_keyD [of ac_account_id "accounts p"]
      by (auto simp: placed_def tombstone_due_def split: if_splits)
    then show "ac_status b = DeletedTombstone" using a(2) by simp
  qed
  ultimately show ?thesis by (simp add: office_def)
qed

lemma completed_deletion_keeps_admin:
  assumes "lonely w" "placed (people (db w))" "has_admin realm (people (db w))"
    and "complete_account_deletion i revision now w = (r, w')"
  shows "has_admin realm (people (db w'))"
proof -
  let ?P = "\<lambda>p. placed p \<and> has_admin realm p"
  let ?O = "office realm i {}"
  have sessions: "keeps (holds ?O) (revoke_all_for_account i ''account_deleted'' now)"
    unfolding revoke_all_for_account_def
    by (rule keeps_office_elsewhere) (simp add: revoke_all_stmt_def edit_sessions_def)
  have credentials: "keeps (holds ?O) (each_step (\<lambda>c. revoke_credential (cd_credential_id c) now) cs)" for cs
    unfolding revoke_credential_def
    by (intro keeps_each_step keeps_intros keeps_office_elsewhere) (simp add: edit_credentials_def)
  have readers: "keeps (holds ?O) (get_active_for_account i)" "keeps (holds ?O) (list_memberships i)"
    by (intro keeps_intros)+
  have roles: "has_admin realm (people (db w'))"
    if "list_memberships i w0 = (Inr ms, w1)" "lonely w1" "?O (people (db w1))"
      "hbind (each_step (\<lambda>m. revoke_membership (mb_membership_id m) now) (filter (\<lambda>m. mb_revoked_at m = None) ms))
         (\<lambda>_. get_account i) w1 = (r, w')" for w0 ms w1
  proof -
    let ?J = "mb_membership_id ` set ms"
    have ms: "ms = memberships_of i (people (db w1))"
      using that(1) by (auto simp: list_memberships_def people_read_def call_def query_rq_def statement_def
          split: prod.splits reply.splits)
    have "m = m'" if "m \<in> set (memberships (people (db w1)))" "m' \<in> set ms" "mb_membership_id m = mb_membership_id m'" for m m'
      using that \<open>?O (people (db w1))\<close> distinct_keyD [of mb_membership_id]
      by (auto simp: ms memberships_of_def office_def placed_def)
    then have o: "office realm i ?J (people (db w1))"
      using that(3) by (fastforce simp: office_def ms memberships_of_def)
    let ?M = "hbind (each_step (\<lambda>m. revoke_membership (mb_membership_id m) now) (filter (\<lambda>m. mb_revoked_at m = None) ms))
           (\<lambda>_. get_account i)"
    have k: "keeps (holds (office realm i ?J)) ?M"
      by (intro keeps_intros keeps_each_step_in keeps_office_revoke) auto
    show ?thesis
      using lonely_run(1) [where P = "office realm i ?J" and m = ?M and w = w1 and r = r and w' = w', OF k that(2) o that(4)]
      by (simp add: office_def)
  qed
  have first: "keeps (holds ?P) (people_try e (tombstone_stmt i revision now))" for e
    by (rule keeps_step_try [OF lasting_admin]) (rule Tombstone)
  show ?thesis
    using assms(4) unfolding complete_account_deletion_def
  proof (rule lonely_bind [OF _ first assms(1)])
    fix n w1
    assume n: "people_try (or_conflict (AccountPolicyViolation ''tombstone_username_conflict'')) (tombstone_stmt i revision now) w = (Inr n, w1)"
      and w1: "lonely w1" "?P (people (db w1))"
      and rest: "(if n \<noteq> 1 then diagnose_blocked_tombstone i revision
         else hbind (revoke_all_for_account i ''account_deleted'' now) (\<lambda>_.
              hbind (get_active_for_account i) (\<lambda>cs.
              hbind (each_step (\<lambda>c. revoke_credential (cd_credential_id c) now) cs) (\<lambda>_.
              hbind (list_memberships i) (\<lambda>ms.
              hbind (each_step (\<lambda>m. revoke_membership (mb_membership_id m) now) (filter (\<lambda>m. mb_revoked_at m = None) ms)) (\<lambda>_.
              get_account i)))))) w1 = (r, w')"
    show ?thesis
    proof (cases "n = 1")
      case False
      let ?M = "diagnose_blocked_tombstone i revision :: account accounts_op"
      have k: "keeps (holds ?P) ?M"
        unfolding diagnose_blocked_tombstone_def by (intro keeps_intros)
      have "?M w1 = (r, w')" using rest False by simp
      from lonely_run(1) [where P = ?P and m = ?M and w = w1 and r = r and w' = w', OF k w1 this] show ?thesis by simp
    next
      case True
      have "?O (people (db w1))"
      proof -
        obtain v p where v: "tombstone_stmt i revision now (people (db v)) = (Inr n, p)" "w1 = v\<lparr>db := (db v)\<lparr>people := p\<rparr>\<rparr>"
          "next_turn w = (Answered, v)"
          using people_try_InrE [OF n] by metis
        have "people (db v) = people (db w)" using v(3) assms(1)
          by (auto simp: next_turn_def lonely_def split: list.splits)
        then show ?thesis using tombstone_office [of "people (db v)" realm i revision now p] v(1,2) True assms(2,3) by simp
      qed
      from rest True have go: "hbind (revoke_all_for_account i ''account_deleted'' now) (\<lambda>_.
              hbind (get_active_for_account i) (\<lambda>cs.
              hbind (each_step (\<lambda>c. revoke_credential (cd_credential_id c) now) cs) (\<lambda>_.
              hbind (list_memberships i) (\<lambda>ms.
              hbind (each_step (\<lambda>m. revoke_membership (mb_membership_id m) now) (filter (\<lambda>m. mb_revoked_at m = None) ms)) (\<lambda>_.
              get_account i))))) w1 = (r, w')" by simp
      show ?thesis
      proof (rule lonely_bind [OF go sessions w1(1) \<open>?O (people (db w1))\<close>])
        fix x2 w2 assume "lonely w2" "?O (people (db w2))"
          and go: "hbind (get_active_for_account i) (\<lambda>cs.
              hbind (each_step (\<lambda>c. revoke_credential (cd_credential_id c) now) cs) (\<lambda>_.
              hbind (list_memberships i) (\<lambda>ms.
              hbind (each_step (\<lambda>m. revoke_membership (mb_membership_id m) now) (filter (\<lambda>m. mb_revoked_at m = None) ms)) (\<lambda>_.
              get_account i)))) w2 = (r, w')"
        then show ?thesis
          by (rule_tac lonely_bind [OF go readers(1)], blast, blast, simp add: office_def)
            (erule lonely_bind [OF _ credentials], blast, blast, simp add: office_def,
             erule lonely_bind [OF _ readers(2)], blast, blast, simp add: office_def, rule roles)
      qed (simp add: office_def)
    qed
  qed (use assms(2,3) in auto)
qed

section \<open>A realm keeps an administrator\<close>

text \<open>
  C2. A realm that has an administrator (an active account with an unrevoked admin role) still has one
  after any call of \<open>admin_call\<close>: the guarded disabling, deletion request and role removal, an activation,
  a grant, a new, invited, bootstrap or genesis account, a password change, a recovery, a sign-in; whatever
  such calls other nodes run between its statements, and whatever replies are lost. Two operations are not
  among them. The route that sets an active account to \<^verbatim>\<open>recovery_required\<close> is not guarded, and takes the
  last administrator away (\<open>unguarded_status_loses_admin\<close>). The completion of a deletion removes roles without
  the guard: it keeps an administrator when nobody else writes (\<open>completed_deletion_keeps_admin\<close>), and relies
  on nobody making the deleted account active again in between.
\<close>

theorem last_admin_kept:
  assumes "peopled people_step w" "placed (people (db w))"
    and "has_admin realm (people (db w))" "serve_admin c w = (r, w')"
  shows "has_admin realm (people (db w'))"
proof -
  have "stays people_step (\<lambda>p. placed p \<and> has_admin realm p)" by (simp add: lasting_stays lasting_admin)
  from guarded_peers.served [OF this assms(1,2) _ assms(4)] show ?thesis using assms(2,3) by blast
qed

definition demo_admin :: "string \<Rightarrow> account" where
  "demo_admin i = new_account i ''r'' i i i None ActiveAccount ''t''"

definition demo_staff :: humans where
  "demo_staff = no_people\<lparr>accounts := [demo_admin ''ada'', demo_admin ''bob''],
     memberships := [new_membership ''m1'' ''ada'' ''r'' Admin None ''t'', new_membership ''m2'' ''bob'' ''r'' Admin None ''t'']\<rparr>"

definition staff_world :: world where
  "staff_world = \<lparr>db = empty_db\<lparr>people := demo_staff\<rparr>,
     script = [\<lparr>turn_env = (\<lambda>d. d\<lparr>people := snd (disable_stmt ''bob'' 0 ''u'' (people d))\<rparr>), turn_reply = Answered\<rparr>]\<rparr>"

lemma staff_world_ok: "peopled people_step staff_world" "placed demo_staff" "has_admin ''r'' demo_staff"
proof -
  show "peopled people_step staff_world"
    by (auto simp: peopled_def staff_world_def peers_by_def intro!: r_into_rtranclp Disable)
qed (simp_all add: demo_staff_def no_people_def demo_admin_def new_account_def new_membership_def placed_def
    has_admin_def admin_rows_def)

lemma staff_answer: "fst (serve_admin (DisableCall ''ada'' 0 ''v'') staff_world) = Inl LastAdministratorViolation"
  by code_simp

lemma last_admin_kept_witness:
  "fst (serve_admin (DisableCall ''ada'' 0 ''v'') staff_world) = Inl LastAdministratorViolation
    \<and> has_admin ''r'' (people (db (snd (serve_admin (DisableCall ''ada'' 0 ''v'') staff_world))))"
  using last_admin_kept [OF staff_world_ok(1), of "''r''" "DisableCall ''ada'' 0 ''v''", OF _ _ surjective_pairing]
    staff_answer
  by (simp add: staff_world_def staff_world_ok del: serve_admin.simps)

text \<open>
  The guard is only on the paths above. Setting the status of the last administrator to
  \<^verbatim>\<open>recovery_required\<close> succeeds, and leaves its realm without one.
\<close>

definition sole_admin :: humans where
  "sole_admin = no_people\<lparr>accounts := [demo_admin ''ada''], memberships := [new_membership ''m1'' ''ada'' ''r'' Admin None ''t'']\<rparr>"

lemma unguarded_status_loses_admin:
  "has_admin ''r'' sole_admin
   \<and> (case update_status ''ada'' 0 RecoveryRequiredStatus ''t2'' (calm (empty_db\<lparr>people := sole_admin\<rparr>)) of
        (answer, w) \<Rightarrow> answer = Inr ((demo_admin ''ada'')\<lparr>ac_status := RecoveryRequiredStatus, ac_updated_at := ''t2'', ac_revision := 1\<rparr>)
          \<and> \<not> has_admin ''r'' (people (db w)))"
  by code_simp

section \<open>The tables of people stay well formed\<close>

text \<open>The operations on accounts and memberships that are not guarded.\<close>

datatype people_call =
    AdminCall admin_call
  | StatusCall string int account_status string
  | PlainDisableCall string int string string
  | PlainRevokeCall string string
  | TombstoneCall string int string

fun serve_people :: "people_call \<Rightarrow> unit accounts_op" where
  "serve_people (AdminCall c) = serve_admin c"
| "serve_people (StatusCall i revision status now) = forget (update_status i revision status now)"
| "serve_people (PlainDisableCall i revision stamp now) = forget (disable_account_and_revoke_sessions i revision stamp now)"
| "serve_people (PlainRevokeCall i now) = forget (revoke_membership i now)"
| "serve_people (TombstoneCall i revision now) = forget (complete_account_deletion i revision now)"

lemma keeps_account_edit:
  assumes "stays account_step P" "\<And>p. account_step p (snd (f p))"
  shows "keeps (holds P) (people_edit f)"
  by (rule keeps_people_edit) (use assms in \<open>auto simp: stays_def\<close>)

lemma keeps_unguarded:
  assumes "stays account_step P"
  shows "keeps (holds P) (update_status i revision status now)" "keeps (holds P) (revoke_membership i now)"
    "keeps (holds P) (disable_account_and_revoke_sessions i revision stamp now)"
    "keeps (holds P) (complete_account_deletion i revision now)"
proof -
  note edit = keeps_account_edit [OF assms]
  note lasts = any_peers.stays_lasting [OF assms]
  show status: "keeps (holds P) (update_status i revision status now)" for i revision status now
    unfolding update_status_def by (intro keeps_intros edit SetStatus)
  show revoke: "keeps (holds P) (revoke_membership i now)" for i now
    unfolding revoke_membership_def by (intro keeps_intros edit TakeRole)
  show "keeps (holds P) (disable_account_and_revoke_sessions i revision stamp now)"
    unfolding disable_account_and_revoke_sessions_def by (intro keeps_intros status account_keeps lasts)
  have "keeps (holds P) (revoke_credential j now)" for j
    unfolding revoke_credential_def
    by (intro keeps_intros edit Guarded Elsewhere) (simp_all add: edit_credentials_def)
  moreover have "keeps (holds P) (people_try e (tombstone_stmt i revision now))" for e
    by (rule keeps_step_try [OF lasts]) (rule Tombstone)
  moreover have "keeps (holds P) (diagnose_blocked_tombstone i revision :: account accounts_op)"
    unfolding diagnose_blocked_tombstone_def by (intro keeps_intros)
  ultimately show "keeps (holds P) (complete_account_deletion i revision now)"
    unfolding complete_account_deletion_def
    by (intro keeps_intros keeps_each_step revoke account_keeps lasts) auto
qed

text \<open>
  C36. Every operation of the store that changes accounts or memberships, guarded or not, keeps the tables
  well formed: account and membership identifiers are unique, and every membership, revoked or not, names
  an account of its own realm. A grant is the route's, which takes the realm from the account. Other nodes
  may run any of these operations between the statements, and any reply may be lost.
\<close>

theorem people_tables_wellformed:
  assumes "peopled account_step w" "placed (people (db w))" "serve_people c w = (r, w')"
  shows "placed (people (db w'))"
proof -
  have stay: "stays account_step placed" by (rule any_peers.placed_stays)
  show ?thesis
  proof (cases "\<exists>k. c = AdminCall k")
    case True
    then show ?thesis using any_peers.served [OF stay assms(1,2,2)] assms(3) by auto
  next
    case False
    then have "keeps (holds placed) (serve_people c)"
      by (cases c) (auto intro!: keeps_forget keeps_unguarded [OF stay])
    from any_peers.run(1) [OF stay this assms(1,2,3)] show ?thesis .
  qed
qed

definition pending_world :: world where
  "pending_world = \<lparr>db = empty_db\<lparr>people := snd (status_stmt ''ada'' 0 DeletionPending ''u'' demo_staff)\<rparr>,
     script = [\<lparr>turn_env = (\<lambda>d. d), turn_reply = Answered\<rparr>,
               \<lparr>turn_env = (\<lambda>d. d\<lparr>people := snd (revoke_membership_stmt ''m2'' ''u'' (people d))\<rparr>), turn_reply = Answered\<rparr>]\<rparr>"

lemma pending_world_ok: "peopled account_step pending_world" "placed (people (db pending_world))"
proof -
  show "peopled account_step pending_world"
    by (auto simp: peopled_def pending_world_def peers_by_def intro!: r_into_rtranclp TakeRole)
  show "placed (people (db pending_world))"
    using placed_account_step(1) [OF staff_world_ok(2) SetStatus] by (simp add: pending_world_def)
qed

lemma pending_answer:
  "map_sum id ac_status (fst (complete_account_deletion ''ada'' 1 ''v'' pending_world)) = Inr DeletedTombstone"
  by code_simp

lemma people_tables_wellformed_witness:
  "map_sum id ac_status (fst (complete_account_deletion ''ada'' 1 ''v'' pending_world)) = Inr DeletedTombstone
    \<and> placed (people (db (snd (serve_people (TombstoneCall ''ada'' 1 ''v'') pending_world))))"
  by (intro conjI pending_answer people_tables_wellformed [OF pending_world_ok surjective_pairing])

end
