(* ===== verification/PeopleSessions.thy ===== *)
theory PeopleSessions
  imports PeopleSafety
begin

text \<open>
  Signing in to human accounts: what may happen once only (the opening of a realm, the use of a refresh
  secret, of a challenge, of a recovery code), how guesses are bounded, that a new account can sign in
  with its password, and how the counter of a passkey is read.
\<close>

section \<open>Refresh secrets\<close>

lemma find_unique:
  assumes "distinct (map f xs)" "x \<in> set xs" "f x = k"
  shows "find (\<lambda>y. f y = k) xs = Some x"
  using assms by (induction xs) auto

lemma find_update_where:
  assumes "\<And>x. f (g x) = f x"
  shows "find (\<lambda>x. f x = k) (update_where P g xs) = map_option (\<lambda>x. if P x then g x else x) (find (\<lambda>x. f x = k) xs)"
  using assms by (induction xs) (auto simp: update_where_def)

lemma affected_key:
  assumes "distinct (map f xs)" "find (\<lambda>x. f x = k) xs = Some x"
  shows "affected (\<lambda>y. f y = k \<and> P y) xs = (if P x then 1 else 0)"
proof -
  have "filter (\<lambda>y. f y = k \<and> P y) xs = filter P (filter (\<lambda>y. f y = k) xs)" by (simp add: conj_commute)
  also have "filter (\<lambda>y. f y = k) xs = [x]" using assms by (induction xs) (auto simp: filter_empty_conv split: if_splits intro: rev_image_eqI)
  finally show ?thesis by (simp add: affected_def)
qed

definition family_revoked :: "string \<Rightarrow> humans \<Rightarrow> bool" where
  "family_revoked fam p \<longleftrightarrow> (\<forall>s \<in> set (sessions p). hs_refresh_family_id s = fam \<longrightarrow> hs_revoked_at s \<noteq> None)"

lemma family_revoked_after: "family_revoked fam (snd (revoke_family_stmt fam now p))"
proof -
  define f where "f = (\<lambda>s :: session. s\<lparr>hs_revoked_at := Some now, hs_revoke_reason := Some ''refresh_replay_detected'',
              hs_revision := hs_revision s + 1\<rparr>)"
  have f: "hs_refresh_family_id (f s) = hs_refresh_family_id s" "hs_revoked_at (f s) = Some now" for s
    by (simp_all add: f_def)
  have "sessions (snd (revoke_family_stmt fam now p)) =
      update_where (\<lambda>s. hs_refresh_family_id s = fam \<and> hs_revoked_at s = None) f (sessions p)"
    by (simp add: revoke_family_stmt_def edit_sessions_def f_def)
  then show ?thesis using f by (auto simp: family_revoked_def update_where_def)
qed

definition rotated :: "string \<Rightarrow> string \<Rightarrow> session \<Rightarrow> session" where
  "rotated fresh now s = s\<lparr>hs_refresh_secret_hash := fresh, hs_last_seen_at := now, hs_revision := hs_revision s + 1\<rparr>"

lemma rotated_same [simp]:
  "hs_session_id (rotated fresh now s) = hs_session_id s" "hs_refresh_family_id (rotated fresh now s) = hs_refresh_family_id s"
  "hs_refresh_secret_hash (rotated fresh now s) = fresh" "hs_revoked_at (rotated fresh now s) = hs_revoked_at s"
  by (simp_all add: rotated_def)

lemma rotate_stmt_effect:
  assumes "distinct (map hs_session_id (sessions p))" "find_session i p = Some s" "hs_revoked_at s = None"
    and "hs_refresh_secret_hash s = expected" "rotate_session_stmt i expected fresh now p = (n, q)"
  shows "n = 1" "find_session i q = Some (rotated fresh now s)" "distinct (map hs_session_id (sessions q))"
proof -
  let ?P = "\<lambda>s. hs_session_id s = i \<and> hs_refresh_secret_hash s = expected \<and> hs_revoked_at s = None"
  have q: "q = p\<lparr>sessions := update_where ?P (rotated fresh now) (sessions p)\<rparr>" and n: "n = affected ?P (sessions p)"
    using assms(5) by (auto simp: rotate_session_stmt_def edit_sessions_def rotated_def [abs_def])
  show "n = 1" using affected_key [OF assms(1) assms(2) [unfolded find_session_def]] assms(3,4) n by simp
  have "hs_session_id s = i" using assms(2) by (auto simp: find_session_def find_Some_iff)
  then show "find_session i q = Some (rotated fresh now s)"
    using assms(2-4) by (simp add: q find_session_def find_update_where)
  have "map hs_session_id (update_where ?P (rotated fresh now) (sessions p)) = map hs_session_id (sessions p)"
    by (simp add: update_where_def)
  then show "distinct (map hs_session_id (sessions q))" using assms(1) by (simp add: q)
qed

lemma rotate_refresh_calm:
  assumes "distinct (map hs_session_id (sessions (people d)))"
  shows "rotate_refresh i expected fresh now (calm d) =
     (case find_session i (people d) of
        None \<Rightarrow> (Inl (AccountPolicyViolation ''session_not_found''), calm d)
      | Some s \<Rightarrow>
          if hs_revoked_at s \<noteq> None then (Inl SessionRevoked, calm d)
          else if hs_refresh_secret_hash s \<noteq> expected then
            (Inl RefreshReplayDetected, calm (d\<lparr>people := snd (revoke_family_stmt (hs_refresh_family_id s) now (people d))\<rparr>))
          else (Inr (rotated fresh now s), calm (d\<lparr>people := snd (rotate_session_stmt i expected fresh now (people d))\<rparr>)))"
proof -
  have r: "rotate_session_stmt i expected fresh now (people d) = (1, snd (rotate_session_stmt i expected fresh now (people d)))"
    "find_session i (snd (rotate_session_stmt i expected fresh now (people d))) = Some (rotated fresh now s)"
    if "find_session i (people d) = Some s" "hs_revoked_at s = None" "hs_refresh_secret_hash s = expected" for s
    using rotate_stmt_effect [OF assms that(1-3), of fresh now] by (metis prod.collapse)+
  have one: "fst (rotate_session_stmt i expected fresh now (people d)) = 1"
    if "find_session i (people d) = Some s" "hs_revoked_at s = None" "hs_refresh_secret_hash s = expected" for s
    using r(1) [OF that] by (metis fst_conv)
  show ?thesis
    using one r(2)
    by (auto simp: rotate_refresh_def hbind_def hfail_def best_effort_def session_row_def calm_simps split: option.split)
qed

text \<open>
  C9. A refresh secret is good for one rotation: once a session has rotated to another secret, presenting
  the old one is answered as a replay, and it ends every session of the family, so that no access secret
  of the family is accepted afterwards.
\<close>

theorem refresh_replay_revokes_family:
  assumes "distinct (map hs_session_id (sessions (people d)))" "fresh \<noteq> old"
    and "rotate_refresh i old fresh now (calm d) = (Inr s, calm d1)"
    and "rotate_refresh i old another later (calm d1) = (r, calm d2)"
  shows "r = Inl RefreshReplayDetected
    \<and> (\<forall>hash x. live_by_access hash (people d2) = Some x \<longrightarrow> hs_refresh_family_id x \<noteq> hs_refresh_family_id s)"
proof -
  from assms(3) obtain s0 where s0: "find_session i (people d) = Some s0" "hs_revoked_at s0 = None"
    "hs_refresh_secret_hash s0 = old" "s = rotated fresh now s0"
    "d1 = d\<lparr>people := snd (rotate_session_stmt i old fresh now (people d))\<rparr>"
    by (auto simp: rotate_refresh_calm [OF assms(1)] split: option.splits if_splits)
  note after = rotate_stmt_effect [OF assms(1) s0(1-3) surjective_pairing, where fresh = fresh and now = now]
  have d1: "find_session i (people d1) = Some s" "distinct (map hs_session_id (sessions (people d1)))"
    using after by (simp_all add: s0(4,5))
  have "r = Inl RefreshReplayDetected \<and>
      people d2 = snd (revoke_family_stmt (hs_refresh_family_id s) later (people d1))"
    using assms(2,4) s0(2,4) by (auto simp: rotate_refresh_calm [OF d1(2)] d1(1))
  moreover from this have "family_revoked (hs_refresh_family_id s) (people d2)" using family_revoked_after by simp
  ultimately show ?thesis
    by (auto simp: live_by_access_def find_Some_iff family_revoked_def)
qed

definition demo_session :: "string \<Rightarrow> string \<Rightarrow> string \<Rightarrow> session" where
  "demo_session i access refresh =
     \<lparr>hs_session_id = i, hs_account_id = ''ada'', hs_realm_id = ''r'', hs_access_secret_hash = access,
      hs_refresh_family_id = ''f'', hs_refresh_secret_hash = refresh, hs_client_identity_id = None,
      hs_client_kind = Cli, hs_client_label = None, hs_assurance_level = Aal1, hs_authenticated_at = ''t'',
      hs_step_up_at = None, hs_created_at = ''t'', hs_last_seen_at = ''t'', hs_idle_expires_at = ''u'',
      hs_absolute_expires_at = ''u'', hs_security_version_at_issue = 0, hs_revoked_at = None,
      hs_revoke_reason = None, hs_revision = 0, hs_bound_public_key = None\<rparr>"

definition session_db :: db where
  "session_db = empty_db\<lparr>people := no_people\<lparr>sessions := [demo_session ''s'' ''x'' ''a'', demo_session ''t'' ''y'' ''z'']\<rparr>\<rparr>"

lemma refresh_replay_revokes_family_witness:
  "let d1 = session_db\<lparr>people := snd (rotate_session_stmt ''s'' ''a'' ''b'' ''t1'' (people session_db))\<rparr>;
       d2 = d1\<lparr>people := snd (revoke_family_stmt ''f'' ''t2'' (people d1))\<rparr>
   in rotate_refresh ''s'' ''a'' ''b'' ''t1'' (calm session_db) = (Inr (rotated ''b'' ''t1'' (demo_session ''s'' ''x'' ''a'')), calm d1)
    \<and> rotate_refresh ''s'' ''a'' ''c'' ''t2'' (calm d1) = (Inl RefreshReplayDetected, calm d2)
    \<and> \<not> (\<exists>hash x. live_by_access hash (people d2) = Some x \<and> hs_refresh_family_id x = ''f'')"
proof -
  define d1 where "d1 = session_db\<lparr>people := snd (rotate_session_stmt ''s'' ''a'' ''b'' ''t1'' (people session_db))\<rparr>"
  have u: "distinct (map hs_session_id (sessions (people session_db)))"
    and f: "find_session ''s'' (people session_db) = Some (demo_session ''s'' ''x'' ''a'')"
    by (simp_all add: session_db_def find_session_def no_people_def demo_session_def)
  have a: "hs_revoked_at (demo_session ''s'' ''x'' ''a'') = None" "hs_refresh_secret_hash (demo_session ''s'' ''x'' ''a'') = ''a''"
    "hs_refresh_family_id (demo_session ''s'' ''x'' ''a'') = ''f''"
    by (simp_all add: demo_session_def)
  note after = rotate_stmt_effect [OF u f a(1,2) surjective_pairing, where fresh = "''b''" and now = "''t1''"]
  have one: "rotate_refresh ''s'' ''a'' ''b'' ''t1'' (calm session_db) = (Inr (rotated ''b'' ''t1'' (demo_session ''s'' ''x'' ''a'')), calm d1)"
    by (simp add: rotate_refresh_calm [OF u] f a d1_def)
  have two: "rotate_refresh ''s'' ''a'' ''c'' ''t2'' (calm d1) =
      (Inl RefreshReplayDetected, calm (d1\<lparr>people := snd (revoke_family_stmt ''f'' ''t2'' (people d1))\<rparr>))"
    using after(2,3) by (simp add: rotate_refresh_calm d1_def a)
  have "\<not> (\<exists>hash x. live_by_access hash (people (d1\<lparr>people := snd (revoke_family_stmt ''f'' ''t2'' (people d1))\<rparr>)) = Some x
      \<and> hs_refresh_family_id x = ''f'')"
    using refresh_replay_revokes_family [OF u _ one two] a by simp
  with one two show ?thesis unfolding Let_def d1_def by blast
qed

section \<open>The first administrator\<close>

text \<open>An attempt to open the realm: a plain bootstrap, or a genesis ceremony.\<close>

datatype ceremony =
    Bootstrap vault fresh_ids string string string string string string
  | Genesis vault genesis_draw string genesis_request string

definition open_realm :: "ceremony \<Rightarrow> unit \<Rightarrow> world \<Rightarrow> bool \<times> world" where
  "open_realm c k w =
     (case c of
        Bootstrap v ids salt realm username display password now \<Rightarrow>
          (case bootstrap_first_administrator v ids salt realm username display password now w of (r, w') \<Rightarrow> (is_ok r, w'))
      | Genesis v g salt q now \<Rightarrow> (case complete_genesis v g salt q now w of (r, w') \<Rightarrow> (is_ok r, w')))"

text \<open>The record of the bootstrap is never taken back.\<close>

definition opened :: "humans \<Rightarrow> bool" where
  "opened p \<longleftrightarrow> bootstrap_state p \<noteq> None"

definition opening_ok :: "world \<Rightarrow> bool" where
  "opening_ok w \<longleftrightarrow> env_keeps (holds opened) w"

lemma run_tx_keeps:
  assumes "\<And>f p x p'. f \<in> set fs \<Longrightarrow> P p \<Longrightarrow> f p = (Inr x, p') \<Longrightarrow> P p'"
  shows "P p \<Longrightarrow> run_tx fs p = (Inr u, p') \<Longrightarrow> P p'"
  using assms
proof (induction fs arbitrary: p)
  case (Cons f fs)
  then obtain p1 where "f p = (Inr (), p1)" "run_tx fs p1 = (Inr u, p')"
    by (auto simp: run_tx_Cons_Inr simp del: run_tx.simps)
  with Cons show ?case by (metis list.set_intros)
qed simp

lemma insert_opened:
  "insert_account a p = (Inr x, p') \<Longrightarrow> bootstrap_state p' = bootstrap_state p"
  "insert_credential c p = (Inr x, p') \<Longrightarrow> bootstrap_state p' = bootstrap_state p"
  "insert_membership m p = (Inr x, p') \<Longrightarrow> bootstrap_state p' = bootstrap_state p"
  "insert_code k p = (Inr x, p') \<Longrightarrow> bootstrap_state p' = bootstrap_state p"
  "insert_realm r p = (Inr x, p') \<Longrightarrow> bootstrap_state p' = bootstrap_state p"
  by (auto simp: insert_account_def insert_credential_def insert_membership_def insert_code_def insert_realm_def
      split: option.splits if_splits)

lemma opening_tx:
  assumes "fs = bootstrap_tx ids realm name username display phc now @ gs" "run_tx (es @ fs) p = (Inr u, p')"
    and "set es \<subseteq> range insert_realm" "set gs \<subseteq> range insert_code"
  shows "bootstrap_state p = None" "opened p'"
proof -
  obtain p1 p2 where p1: "run_tx es p = (Inr (), p1)" "insert_bootstrap (fresh_account ids) now p1 = (Inr (), p2)"
    "run_tx (tl fs) p2 = (Inr u, p')"
    using assms(1-3)
  proof (induction es arbitrary: p)
    case Nil
    then show thesis by (auto simp: bootstrap_tx_def run_tx_Cons_Inr simp del: run_tx.simps)
  next
    case (Cons e es)
    then show thesis by (auto simp: run_tx_Cons_Inr simp del: run_tx.simps)
  qed
  have "bootstrap_state p1 = bootstrap_state p"
    by (rule run_tx_keeps [OF _ _ p1(1)]) (use assms(3) insert_opened(5) in force)+
  then show "bootstrap_state p = None" using p1(2) by (cases "bootstrap_state p") (auto simp: insert_bootstrap_def split: if_splits)
  show "opened p'"
  proof (rule run_tx_keeps [OF _ _ p1(3)])
    show "opened p2" using p1(2) by (auto simp: insert_bootstrap_def opened_def split: if_splits)
  next
    fix f q x q' assume "f \<in> set (tl fs)" "opened q" "f q = (Inr x, q')"
    then show "opened q'" using assms(1,4) by (auto simp: bootstrap_tx_def opened_def dest!: insert_opened)
  qed
qed

lemma people_tx_opens:
  assumes "people_try g (run_tx (es @ bootstrap_tx ids realm name username display phc now @ gs)) w = (Inr u, w')"
    and "set es \<subseteq> range insert_realm" "set gs \<subseteq> range insert_code" "opening_ok w"
  shows "\<not> opened (people (db w))" "opened (people (db w'))" "opening_ok w'"
proof -
  obtain w1 p where w1: "next_turn w = (Answered, w1)"
    "run_tx (es @ bootstrap_tx ids realm name username display phc now @ gs) (people (db w1)) = (Inr u, p)"
    "w' = w1\<lparr>db := (db w1)\<lparr>people := p\<rparr>\<rparr>"
    using assms(1) by (rule people_try_InrE)
  note tx = opening_tx [OF refl w1(2) assms(2,3)]
  show "opened (people (db w'))" using tx(2) by (simp add: w1(3))
  show "opening_ok w'" using env_keeps_subset [OF _ next_turn_script [OF w1(1)]] assms(4)
    by (simp add: w1(3) opening_ok_def env_keeps_def)
  have "opened (people (db w)) \<Longrightarrow> opened (people (db w1))"
    using next_turn_keeps [where P = "holds opened", OF _ _ w1(1)] assms(4) by (simp add: opening_ok_def)
  then show "\<not> opened (people (db w))" using tx(1) by (auto simp: opened_def)
qed

text \<open>A ceremony is one transaction around the bootstrap, between checks and reads.\<close>

lemma genesis_tx_split:
  obtains r gs where "genesis_tx v g q name phc now =
      [insert_realm r] @ bootstrap_tx (dr_ids g) (gn_account_realm q) name (gn_username q) (gn_display_name q) phc now @ gs"
    "set gs \<subseteq> range insert_code"
  by (rule that [where gs = "map (\<lambda>c. insert_code (recovery_code v (fresh_account (dr_ids g)) (dr_batch g) now None c))
      (drawn_codes g (gn_code_count q))"])
    (unfold genesis_tx_def append_Cons append_Nil, rule refl, auto)

lemma keeps_opened_tx:
  assumes "set es \<subseteq> range insert_realm" "set gs \<subseteq> range insert_code"
  shows "keeps (holds opened) (people_try e (run_tx (es @ bootstrap_tx ids realm name username display phc now @ gs)))"
  by (rule keeps_people_try [where P = "holds opened"]) (use opening_tx(2) [OF refl _ assms] in simp)

lemma keeps_opening:
  "keeps (holds opened) (bootstrap_first_administrator v ids salt realm username display password now)"
  "keeps (holds opened) (complete_genesis v g salt q now)"
proof -
  note tx = keeps_opened_tx
  have gen: "keeps (holds opened) (people_try e (run_tx (genesis_tx v g q name phc now)))" for e name phc
    by (rule genesis_tx_split [of v g q name phc now]) (use tx [of "[insert_realm r]" for r] in simp)
  show "keeps (holds opened) (bootstrap_first_administrator v ids salt realm username display password now)"
    unfolding bootstrap_first_administrator_def by (intro keeps_intros) (use tx [of "[]" "[]"] in simp)
  show "keeps (holds opened) (complete_genesis v g salt q now)"
    unfolding complete_genesis_def by (intro keeps_intros gen)
qed

lemma opening_then:
  assumes "keeps (holds opened) m" "m w = (y, w')" "opening_ok w" "opened (people (db w))"
  shows "opened (people (db w'))"
  using keepsD [where P = "holds opened" and m = m, OF assms(1) _ _ assms(2)] assms(3,4) by (simp add: opening_ok_def)

lemma opening_first:
  assumes ok: "opening_ok w"
  shows "bootstrap_first_administrator v ids salt realm username display password now w = (Inr a, w') \<Longrightarrow>
      \<not> opened (people (db w)) \<and> opened (people (db w'))"
    "complete_genesis v g salt q now w = (Inr x, w') \<Longrightarrow> \<not> opened (people (db w)) \<and> opened (people (db w'))"
proof -
  show "\<not> opened (people (db w)) \<and> opened (people (db w'))"
    if run: "bootstrap_first_administrator v ids salt realm username display password now w = (Inr a, w')"
  proof -
    obtain name phc w1 u where tx: "people_try (or_conflict BootstrapClosed)
        (run_tx ([] @ bootstrap_tx ids realm name username display phc now @ [])) w = (Inr u, w1)"
      and rest: "get_account (fresh_account ids) w1 = (Inr a, w')"
      using run unfolding bootstrap_first_administrator_def by (auto elim!: hbind_InrE)
    note o = people_tx_opens [OF tx _ _ ok]
    show ?thesis using o(1) opening_then [where m = "get_account (fresh_account ids)", OF keeps_readers(1) rest o(3,2)] by simp
  qed
  show "\<not> opened (people (db w)) \<and> opened (people (db w'))" if run: "complete_genesis v g salt q now w = (Inr x, w')"
  proof -
    let ?rest = "hbind (get_account (fresh_account (dr_ids g))) (\<lambda>a.
       hbind (one_row AuthServiceUnavailable realm_singleton) (\<lambda>r. hret (r, a, map snd (drawn_codes g (gn_code_count q)))))"
    obtain name phc w1 u where tx: "people_try realm_or_bootstrap_conflict (run_tx (genesis_tx v g q name phc now)) w = (Inr u, w1)"
      and rest: "?rest w1 = (Inr x, w')"
      using run unfolding complete_genesis_def
      by (elim hbind_InrE [where m = "check z" for z] hbind_InrE [where m = "people_try h f" for h f])
        (auto elim: hbind_InrE [where m = "people_try h f" for h f])
    obtain r gs where split: "genesis_tx v g q name phc now =
      [insert_realm r] @ bootstrap_tx (dr_ids g) (gn_account_realm q) name (gn_username q) (gn_display_name q) phc now @ gs"
      "set gs \<subseteq> range insert_code" by (rule genesis_tx_split)
    note o = people_tx_opens [OF tx [unfolded split(1)] _ split(2) ok]
    have "keeps (holds opened) ?rest" by (intro keeps_intros)
    then show ?thesis using o(1) opening_then [where m = ?rest, OF _ rest o(3,2)] by simp
  qed
qed

lemma open_realmE:
  assumes "open_realm c k w = (b, w')"
  obtains v ids salt realm username display password now r
    where "bootstrap_first_administrator v ids salt realm username display password now w = (r, w')" "b = is_ok r"
  | v g salt q now x where "complete_genesis v g salt q now w = (x, w')" "b = is_ok x"
  using assms by (cases c) (auto simp: open_realm_def split: prod.splits)

lemma is_ok_Inr: "is_ok r \<Longrightarrow> \<exists>x. r = Inr x"
  by (cases r) auto

lemma open_realm_run:
  assumes "opening_ok w" "open_realm c k w = (b, w')"
  shows "opening_ok w'" "opened (people (db w)) \<Longrightarrow> opened (people (db w'))"
    "b \<Longrightarrow> \<not> opened (people (db w)) \<and> opened (people (db w'))"
proof -
  have keep: "opening_ok w' \<and> (opened (people (db w)) \<longrightarrow> opened (people (db w')))"
    if "keeps (holds opened) m" "m w = (r, w')" for m :: "world \<Rightarrow> 'a \<times> world" and r
    using keepsD [OF that(1) _ _ that(2)] keeps_script [OF that] env_keeps_subset assms(1) by (auto simp: opening_ok_def)
  show "opening_ok w'" "opened (people (db w)) \<Longrightarrow> opened (people (db w'))"
    using assms(2) by (cases rule: open_realmE; use keep [OF keeps_opening(1)] keep [OF keeps_opening(2)] in blast)+
  show "b \<Longrightarrow> \<not> opened (people (db w)) \<and> opened (people (db w'))"
    using assms(2) by (cases rule: open_realmE) (use opening_first [OF assms(1)] in \<open>auto dest!: is_ok_Inr\<close>)
qed

interpretation realm: single_use open_realm opening_ok "\<lambda>w k u. opened (people (db w))" "\<lambda>_. ()" "\<lambda>_ _. True"
proof unfold_locales
qed (use open_realm_run in blast)+

text \<open>
  C13. A realm is opened once: after a bootstrap or a genesis ceremony has succeeded, no later one
  succeeds, in any order and number, whatever replies are lost and whatever other nodes write, as long as
  nobody deletes the record of the bootstrap.
\<close>

theorem realm_opened_once:
  assumes "env_keeps (holds opened) w" "open_realm c k w = (True, w1)" "attempts open_realm cs w1 = (bs, w2)"
  shows "bs = replicate (length cs) False"
proof -
  have "\<forall>i < length cs. \<not> bs ! i"
    using realm.accepted_once [OF _ assms(2,3), unfolded opening_ok_def, OF assms(1)] by (auto simp: split_beta)
  then show ?thesis using length_attempts [OF assms(3)] by (auto intro!: nth_equalityI)
qed

definition toy_vault :: vault where
  "toy_vault =
     \<lparr>nfc = id, to_lowercase = id, hash_opaque = (\<lambda>s. ''h'' @ s),
      argon2_hash = (\<lambda>salt p. Some (salt @ p)), argon2_verify = (\<lambda>p phc. Some (ends_with p phc)),
      argon2_costs = (\<lambda>_. None)\<rparr>"

definition demo_opening :: ceremony where
  "demo_opening = Bootstrap toy_vault \<lparr>fresh_account = ''a1'', fresh_credential = ''c1'', fresh_membership = ''m1''\<rparr>
     ''salt'' ''r'' ''Ada'' ''Ada L'' ''correct horse battery'' ''t''"

lemma demo_name: "normalize_username ''Ada'' = Inr ''ada''"
proof -
  have "trim ''Ada'' = ''Ada''" by (rule trim_ends) (simp_all add: ascii_char_def)
  moreover have "to_ascii_lowercase ''Ada'' = ''ada''" by code_simp
  ultimately show ?thesis
    by (simp add: normalize_username_def char_count_def username_char_def is_ascii_alphanumeric_def is_ascii_digit_def
        is_ascii_alphabetic_def Let_def)
qed

lemma demo_identity: "checked_identity toy_vault ''salt'' ''Ada'' ''correct horse battery'' = Inr (''ada'', ''saltcorrect horse battery'')"
  by (simp add: checked_identity_def demo_name validate_password_def toy_vault_def password_blocklist_def char_count_def
      hash_password_def Let_def)

lemma demo_opening_works: "fst (open_realm demo_opening () (calm empty_db))"
  by (simp add: open_realm_def demo_opening_def bootstrap_first_administrator_def demo_identity hbind_def check_def
      bootstrap_tx_def calm_simps insert_bootstrap_def insert_account_def insert_credential_def insert_membership_def
      first_violation_def empty_db_def no_people_def get_account_def find_account_def new_account_def)

lemma realm_opened_once_witness:
  "fst (attempts open_realm [(demo_opening, ()), (demo_opening, ())] (snd (open_realm demo_opening () (calm empty_db))))
     = [False, False]"
proof -
  have "open_realm demo_opening () (calm empty_db) = (True, snd (open_realm demo_opening () (calm empty_db)))"
    using demo_opening_works by (metis prod.collapse)
  from realm_opened_once [OF _ this surjective_pairing] show ?thesis by (simp del: attempts.simps)
qed

section \<open>Challenges are consumed once\<close>

definition spent_challenge :: "string \<Rightarrow> humans \<Rightarrow> bool" where
  "spent_challenge i p \<longleftrightarrow> (\<forall>c \<in> set (challenges p). ch_challenge_id c = i \<longrightarrow> ch_status c \<noteq> PendingChallenge)"

definition consume_attempt :: "string \<Rightarrow> string \<Rightarrow> world \<Rightarrow> bool \<times> world" where
  "consume_attempt now i w = (case consume_challenge_if_pending i now w of (r, w') \<Rightarrow> (is_ok r, w'))"

lemma affected_pos: "0 < affected P rows \<longleftrightarrow> (\<exists>r \<in> set rows. P r)"
  by (auto simp: affected_def filter_empty_conv)

abbreviation consumable :: "string \<Rightarrow> string \<Rightarrow> auth_challenge \<Rightarrow> bool" where
  "consumable i now \<equiv> \<lambda>c. ch_challenge_id c = i \<and> ch_status c = PendingChallenge \<and> now < ch_expires_at c"

definition consumed :: "string \<Rightarrow> auth_challenge \<Rightarrow> auth_challenge" where
  "consumed now c = c\<lparr>ch_consumed_at := Some now, ch_status := ConsumedChallenge\<rparr>"

lemma consumed_same [simp]: "ch_challenge_id (consumed now c) = ch_challenge_id c" "ch_status (consumed now c) = ConsumedChallenge"
  by (simp_all add: consumed_def)

lemma consume_stmt:
  "fst (consume_challenge_stmt i now p) = affected (consumable i now) (challenges p)"
  "challenges (snd (consume_challenge_stmt i now p)) = update_where (consumable i now) (consumed now) (challenges p)"
  by (simp_all add: consume_challenge_stmt_def edit_challenges_def consumed_def [abs_def])

lemma consume_stmt_spends:
  "spent_challenge j p \<Longrightarrow> spent_challenge j (snd (consume_challenge_stmt i now p))"
  "fst (consume_challenge_stmt i now p) = 1 \<Longrightarrow> \<not> spent_challenge i p"
  using affected_pos [of "consumable i now" "challenges p"] unfolding spent_challenge_def consume_stmt
  by (auto simp: update_where_def)

text \<open>When ids are unique, a consumed challenge has no pending twin.\<close>

lemma consume_stmt_consumes:
  assumes "distinct (map ch_challenge_id (challenges p))" "fst (consume_challenge_stmt i now p) = 1"
  shows "spent_challenge i (snd (consume_challenge_stmt i now p))"
proof -
  obtain c where c: "c \<in> set (challenges p)" "consumable i now c"
    using assms(2) affected_pos [of "consumable i now" "challenges p"] by (auto simp: consume_stmt)
  have "consumable i now x" if "x \<in> set (challenges p)" "ch_challenge_id x = i" for x
    using distinct_keyD [OF assms(1) that(1) c(1)] that(2) c(2) by auto
  note all = this
  show ?thesis unfolding spent_challenge_def consume_stmt update_where_def set_map
  proof (intro ballI impI)
    fix y assume "y \<in> (\<lambda>r. if consumable i now r then consumed now r else r) ` set (challenges p)" and y: "ch_challenge_id y = i"
    then obtain x where x: "x \<in> set (challenges p)" "y = (if consumable i now x then consumed now x else x)" by blast
    then have "ch_challenge_id x = i" using y by (cases "consumable i now x") simp_all
    then show "ch_status y \<noteq> PendingChallenge" using all [OF x(1)] x(2) by simp
  qed
qed

lemma consume_stmt_ids: "map ch_challenge_id (challenges (snd (consume_challenge_stmt i now p))) = map ch_challenge_id (challenges p)"
  by (simp add: consume_stmt update_where_def)

definition challenge_ids :: "humans \<Rightarrow> bool" where
  "challenge_ids p \<longleftrightarrow> distinct (map ch_challenge_id (challenges p))"

definition challenges_ok :: "world \<Rightarrow> bool" where
  "challenges_ok w \<longleftrightarrow> challenge_ids (people (db w)) \<and> env_keeps (holds challenge_ids) w
     \<and> (\<forall>i. env_keeps (holds (spent_challenge i)) w)"

lemma keeps_consume_challenge:
  "keeps (holds challenge_ids) (consume_challenge_if_pending i now)"
  "keeps (holds (spent_challenge j)) (consume_challenge_if_pending i now)"
  unfolding consume_challenge_if_pending_def
  by (intro keeps_intros keeps_people_edit; simp add: challenge_ids_def consume_stmt_ids consume_stmt_spends(1))+

lemma consume_attempt_keeps:
  assumes "challenges_ok w" "consume_attempt now i w = (b, w')"
  shows "challenges_ok w'" "spent_challenge j (people (db w)) \<Longrightarrow> spent_challenge j (people (db w'))"
proof -
  obtain r where r: "consume_challenge_if_pending i now w = (r, w')"
    using assms(2) by (auto simp: consume_attempt_def split: prod.splits)
  show "challenges_ok w'" 
    using keepsD [where P = "holds challenge_ids", OF keeps_consume_challenge(1) _ _ r] assms(1)
      env_keeps_subset [OF _ keeps_script [OF keeps_consume_challenge(1) r]] unfolding challenges_ok_def by blast
  show "spent_challenge j (people (db w)) \<Longrightarrow> spent_challenge j (people (db w'))"
    using keepsD [where P = "holds (spent_challenge j)", OF keeps_consume_challenge(2) _ _ r] assms(1)
    unfolding challenges_ok_def by blast
qed

lemma consume_attempt_True:
  assumes "challenges_ok w" "consume_attempt now i w = (True, w')"
  shows "\<not> spent_challenge i (people (db w))" "spent_challenge i (people (db w'))"
proof -
  obtain c where c: "consume_challenge_if_pending i now w = (Inr c, w')"
    using assms(2) by (auto simp: consume_attempt_def dest!: is_ok_Inr split: prod.splits)
  obtain w1 where w1: "people_edit (consume_challenge_stmt i now) w = (Inr 1, w1)" "get_challenge i w1 = (Inr c, w')"
    using c unfolding consume_challenge_if_pending_def by (auto elim!: hbind_InrE split: if_splits)
  obtain w0 where w0: "next_turn w = (Answered, w0)" "1 = fst (consume_challenge_stmt i now (people (db w0)))"
    "w1 = w0\<lparr>db := (db w0)\<lparr>people := snd (consume_challenge_stmt i now (people (db w0)))\<rparr>\<rparr>"
    using w1(1) by (rule people_edit_InrE)
  have keep0: "P (people (db w)) \<Longrightarrow> env_keeps (holds P) w \<Longrightarrow> P (people (db w0))" for P
    using next_turn_keeps [where P = "holds P", OF _ _ w0(1)] by blast
  have ids: "challenge_ids (people (db w0))" using keep0 [of challenge_ids] assms(1) by (simp add: challenges_ok_def)
  show "\<not> spent_challenge i (people (db w))"
    using keep0 [of "spent_challenge i"] consume_stmt_spends(2) [OF w0(2) [symmetric]] assms(1)
    by (auto simp: challenges_ok_def)
  have "spent_challenge i (people (db w1))"
    using consume_stmt_consumes [OF ids [unfolded challenge_ids_def] w0(2) [symmetric]] by (simp add: w0(3))
  moreover have "env_keeps (holds (spent_challenge i)) w1"
    by (rule env_keeps_subset [where w = w]) (use assms(1) next_turn_script [OF w0(1)] in \<open>auto simp: w0(3) challenges_ok_def\<close>)
  ultimately show "spent_challenge i (people (db w'))"
    using keepsD [where P = "holds (spent_challenge i)", OF keeps_readers(5) _ _ w1(2)] by blast
qed

interpretation challenge: single_use consume_attempt challenges_ok "\<lambda>w i u. spent_challenge i (people (db w))" "\<lambda>_. ()" "\<lambda>_ _. True"
proof unfold_locales
  show "challenges_ok w \<Longrightarrow> consume_attempt now i w = (b, w') \<Longrightarrow> challenges_ok w'" for w now i b w'
    by (rule consume_attempt_keeps(1))
  show "challenges_ok w \<Longrightarrow> spent_challenge i (people (db w)) \<Longrightarrow> True \<Longrightarrow> consume_attempt now i w = (b, w') \<Longrightarrow> \<not> b"
    for w i now b w' using consume_attempt_True(1) by (cases b) auto
  show "challenges_ok w \<Longrightarrow> consume_attempt now i w = (True, w') \<Longrightarrow> spent_challenge i (people (db w'))" for w i now w'
    by (rule consume_attempt_True(2))
  show "challenges_ok w \<Longrightarrow> spent_challenge i (people (db w)) \<Longrightarrow> True \<Longrightarrow> consume_attempt now j w = (b, w') \<Longrightarrow>
      spent_challenge i (people (db w'))" for w i j now b w' by (rule consume_attempt_keeps(2))
qed

text \<open>
  A ceremony challenge is consumed once: after one request consumed it, no later request does, from
  any node and at any time, as long as no node writes a pending challenge under its id again.
\<close>

lemma challenge_consumed_once:
  assumes "challenges_ok w" "consume_attempt now i w = (True, w1)" "attempts consume_attempt cs w1 = (bs, w2)"
    and "n < length cs" "snd (cs ! n) = i"
  shows "\<not> bs ! n"
  using challenge.accepted_once [OF assms(1-3)] assms(4,5) by (auto simp: split_beta)

definition demo_challenge :: "string \<Rightarrow> auth_challenge" where
  "demo_challenge i = \<lparr>ch_challenge_id = i, ch_purpose = StepUp, ch_account_id = None, ch_session_id = None,
     ch_client_identity_id = None, ch_challenge_hash = ''h'', ch_ceremony_state = ''z'', ch_created_at = ''1'',
     ch_expires_at = ''5'', ch_consumed_at = None, ch_attempt_count = 0, ch_status = PendingChallenge\<rparr>"

definition challenge_db :: db where
  "challenge_db = empty_db\<lparr>people := no_people\<lparr>challenges := [demo_challenge ''a'', demo_challenge ''b'']\<rparr>\<rparr>"

lemma challenge_db_consumes: "fst (consume_attempt ''2'' ''a'' (calm challenge_db))"
  by code_simp

lemma challenge_consumed_once_witness:
  "\<not> fst (attempts consume_attempt [(''3'', ''b''), (''3'', ''a'')] (snd (consume_attempt ''2'' ''a'' (calm challenge_db)))) ! 1"
proof -
  have "consume_attempt ''2'' ''a'' (calm challenge_db) = (True, snd (consume_attempt ''2'' ''a'' (calm challenge_db)))"
    using challenge_db_consumes by (metis prod.collapse)
  from challenge_consumed_once [OF _ this surjective_pairing, of 1 "[(''3'', ''b''), (''3'', ''a'')]"] show ?thesis
    by (simp add: challenges_ok_def challenge_ids_def challenge_db_def no_people_def demo_challenge_def del: attempts.simps)
qed

section \<open>Sign-in is throttled\<close>

text \<open>An attempt to sign in under a name: what it draws, the password, the clock.\<close>

record login_try =
  lt_draw :: session_draw
  lt_salt :: string
  lt_session :: session_request
  lt_clock :: "nat \<Rightarrow> int"
  lt_password :: string
  lt_fingerprint :: "string option"
  lt_now :: string

definition login_once :: "vault \<Rightarrow> string \<Rightarrow> string \<Rightarrow> login_try \<Rightarrow> (session \<times> string \<times> string) accounts_op" where
  "login_once v realm username x =
     authenticate_and_issue_session v (lt_draw x) (lt_salt x) (lt_session x) (lt_clock x) realm username
       (lt_password x) (lt_fingerprint x) (lt_now x)"

fun logins :: "vault \<Rightarrow> string \<Rightarrow> string \<Rightarrow> login_try list \<Rightarrow> world \<Rightarrow>
    (accounts_error, session \<times> string \<times> string) res list \<times> world" where
  "logins v realm username [] w = ([], w)"
| "logins v realm username (x # xs) w =
     (case login_once v realm username x w of (r, w1) \<Rightarrow>
        case logins v realm username xs w1 of (rs, w2) \<Rightarrow> (r # rs, w2))"

text \<open>An attempt that got as far as the credentials, and failed.\<close>

definition refused :: "(accounts_error, 'a) res \<Rightarrow> bool" where
  "refused r \<longleftrightarrow> (\<exists>e. r = Inl e \<and> e \<noteq> AccountLocked (Some 300))"

definition many_failures :: "string \<Rightarrow> string \<Rightarrow> nat \<Rightarrow> humans \<Rightarrow> bool" where
  "many_failures name since n p \<longleftrightarrow> n \<le> recent_failures ''username'' name since p"

lemma recent_failures_cong: "login_attempts p' = login_attempts p \<Longrightarrow> recent_failures k n t p' = recent_failures k n t p"
  by (simp add: recent_failures_def)

lemma recent_failures_attempt:
  "recent_failures k n t (snd (attempt_stmt kind key ok now p)) =
     recent_failures k n t p + (if kind = k \<and> key = n \<and> \<not> ok \<and> t \<le> now then 1 else 0)"
  by (simp add: recent_failures_def attempt_stmt_def affected_def Let_def)

lemma affected_mono: "(\<And>r. P r \<Longrightarrow> Q r) \<Longrightarrow> affected P rows \<le> affected Q rows"
  unfolding affected_def by (induction rows) auto

lemma recent_failures_window: "t \<le> t' \<Longrightarrow> recent_failures k n t' p \<le> recent_failures k n t p"
  unfolding recent_failures_def by (rule affected_mono) auto

lemma keeps_attempts:
  assumes "\<And>p p'. P p \<Longrightarrow> login_attempts p' = login_attempts p \<Longrightarrow> P p'"
  shows "keeps (holds P) (upgrade_hash v salt password c phc)" "keeps (holds P) (issue_session s)"
proof -
  show "keeps (holds P) (upgrade_hash v salt password c phc)"
    unfolding upgrade_hash_def rehash_secret_def
    by (intro keeps_intros keeps_people_edit) (erule assms, simp add: rehash_stmt_def edit_credentials_def)
  show "keeps (holds P) (issue_session s)"
    unfolding issue_session_def
    by (intro keeps_intros keeps_people_try) (erule assms, auto simp: insert_session_def split: option.splits)
qed

lemma keeps_try_authenticate:
  assumes "\<And>p p'. P p \<Longrightarrow> login_attempts p' = login_attempts p \<Longrightarrow> P p'"
  shows "keeps (holds P) (try_authenticate v s salt q clk realm name password now)"
  unfolding try_authenticate_def by (intro keeps_intros keeps_attempts [where P = P]; rule assms)

lemma try_authenticate_failures:
  assumes "try_authenticate v s salt q clk realm name password now (calm d) = (r, w)"
  obtains d' where "w = calm d'" "login_attempts (people d') = login_attempts (people d)"
proof -
  define P where "P p \<longleftrightarrow> login_attempts p = login_attempts (people d)" for p :: humans
  have "keeps (holds P) (try_authenticate v s salt q clk realm name password now)"
    by (rule keeps_try_authenticate) (simp add: P_def)
  then obtain x d' where "try_authenticate v s salt q clk realm name password now (calm d) = (x, calm d')" "P (people d')"
    by (rule calm_keeps [where d = d]) (simp_all add: P_def)
  then show thesis using assms that by (simp add: P_def)
qed

lemma record_outcome_calm:
  "record_outcome name fp ok now (calm d) = (Inr (), calm (d\<lparr>people :=
     (let p = snd (attempt_stmt ''username'' name ok now (people d)) in
      case fp of None \<Rightarrow> p | Some f \<Rightarrow> snd (attempt_stmt ''client'' f ok now p))\<rparr>))"
  by (simp add: record_outcome_def best_effort_def record_login_attempt_def hbind_def hret_def calm_simps split: option.split)

lemma enforce_login_throttle_calm:
  "enforce_login_throttle kind key t (calm d) =
     (if 5 \<le> recent_failures kind key (window_start t) (people d) then Inl (AccountLocked (Some 300)) else Inr (), calm d)"
  by (simp add: enforce_login_throttle_def hbind_def hret_def hfail_def calm_simps)

lemma optional_throttle_calm:
  "optional_throttle fp t (calm d) = (Inl (AccountLocked (Some 300)), calm d) \<or> optional_throttle fp t (calm d) = (Inr (), calm d)"
  by (cases fp) (simp_all add: optional_throttle_def enforce_login_throttle_calm hret_def)

lemma login_once_calm:
  assumes name: "normalize_username username = Inr name" and run: "login_once v realm username x (calm d) = (r, w)"
    and t: "window_start (lt_clock x 0) \<le> since" "since \<le> lt_now x"
  obtains d' where "w = calm d'"
    "recent_failures ''username'' name since (people d) + (if refused r then 1 else 0) \<le>
       recent_failures ''username'' name since (people d')"
    "refused r \<Longrightarrow> recent_failures ''username'' name since (people d) < 5"
proof (cases "5 \<le> recent_failures ''username'' name (window_start (lt_clock x 0)) (people d)")
  case True
  then have "r = Inl (AccountLocked (Some 300)) \<and> w = calm d"
    using run by (auto simp: login_once_def authenticate_and_issue_session_def name enforce_login_throttle_calm hbind_def)
  then show thesis using that [of d] by (simp add: refused_def)
next
  case False
  then have few: "recent_failures ''username'' name since (people d) < 5"
    using recent_failures_window [OF t(1), of "''username''" name "people d"] by simp
  have gate: "enforce_login_throttle ''username'' name (lt_clock x 0) (calm d) = (Inr (), calm d)"
    using False by (simp add: enforce_login_throttle_calm)
  consider (locked) "optional_throttle (lt_fingerprint x) (lt_clock x 1) (calm d) = (Inl (AccountLocked (Some 300)), calm d)"
    | (free) "optional_throttle (lt_fingerprint x) (lt_clock x 1) (calm d) = (Inr (), calm d)"
    using optional_throttle_calm by blast
  then show thesis
  proof cases
    case locked
    then have "r = Inl (AccountLocked (Some 300)) \<and> w = calm d"
      using run gate by (simp add: login_once_def authenticate_and_issue_session_def name hbind_def)
    then show thesis using that [of d] by (simp add: refused_def)
  next
    case free
    obtain y w1 where y: "try_authenticate v (lt_draw x) (lt_salt x) (lt_session x) (\<lambda>n. lt_clock x (n + 2)) realm name
        (lt_password x) (lt_now x) (calm d) = (y, w1)" by fastforce
    then obtain d1 where d1: "w1 = calm d1" "login_attempts (people d1) = login_attempts (people d)"
      by (rule try_authenticate_failures)
    have out: "r = y \<and> w = snd (record_outcome name (lt_fingerprint x) (is_ok y) (lt_now x) (calm d1))"
      using run gate free y by (auto simp: login_once_def authenticate_and_issue_session_def name hbind_def d1(1) record_outcome_calm check_def)
    let ?p = "snd (attempt_stmt ''username'' name (is_ok y) (lt_now x) (people d1))"
    let ?q = "case lt_fingerprint x of None \<Rightarrow> ?p | Some f \<Rightarrow> snd (attempt_stmt ''client'' f (is_ok y) (lt_now x) ?p)"
    have "recent_failures ''username'' name since ?q = recent_failures ''username'' name since (people d) + (if is_ok y then 0 else 1)"
      using t(2) by (simp add: recent_failures_attempt recent_failures_cong [OF d1(2)] split: option.split)
    moreover have "refused r \<Longrightarrow> \<not> is_ok y" using out by (auto simp: refused_def)
    ultimately show thesis
      using out few by (intro that [of "d1\<lparr>people := ?q\<rparr>"]) (simp_all add: record_outcome_calm Let_def)
  qed
qed

text \<open>
  C14. However many attempts to sign in under a name arrive within the window of the throttle, at most five
  of them fail on the credentials: the others are refused as locked before the password is looked at. The
  attempts arrive one after the other; each one's window starts at or before the same instant, and each is
  stamped at or after it.
\<close>

theorem login_guesses_bounded:
  assumes "normalize_username username = Inr name"
    and "\<forall>x \<in> set xs. window_start (lt_clock x 0) \<le> since \<and> since \<le> lt_now x"
    and "logins v realm username xs (calm d) = (rs, w)"
  shows "length (filter refused rs) \<le> 5 - recent_failures ''username'' name since (people d)"
  using assms(2,3)
proof (induction xs arbitrary: d rs)
  case (Cons x xs)
  obtain r w1 where r: "login_once v realm username x (calm d) = (r, w1)" by fastforce
  obtain ss where ss: "logins v realm username xs w1 = (ss, w)" "rs = r # ss"
    using Cons.prems(2) r by (auto split: prod.splits)
  obtain d1 where d1: "w1 = calm d1"
    "recent_failures ''username'' name since (people d) + (if refused r then 1 else 0) \<le>
       recent_failures ''username'' name since (people d1)"
    "refused r \<Longrightarrow> recent_failures ''username'' name since (people d) < 5"
    using Cons.prems(1) by (auto intro: login_once_calm [OF assms(1) r])
  have "length (filter refused ss) \<le> 5 - recent_failures ''username'' name since (people d1)"
    using Cons.IH [OF _ ss(1) [unfolded d1(1)]] Cons.prems(1) by simp
  then show ?case using d1(2,3) by (auto simp: ss(2))
qed simp

definition demo_try :: "string \<Rightarrow> login_try" where
  "demo_try password =
     \<lparr>lt_draw = \<lparr>sw_session_id = ''s'', sw_family_id = ''f'', sw_access = ''x'', sw_refresh = ''y''\<rparr>, lt_salt = ''salt'',
      lt_session = \<lparr>sq_client_kind = Cli, sq_client_label = None, sq_idle_minutes = 15, sq_absolute_hours = 8\<rparr>,
      lt_clock = (\<lambda>_. 1700000000), lt_password = password, lt_fingerprint = Some ''ip'',
      lt_now = store_epoch_secs_to_iso 1700000000\<rparr>"

lemma demo_window: "window_start 1700000000 \<le> store_epoch_secs_to_iso 1700000000"
  unfolding window_start_def by (rule less_imp_le) (simp add: stamp_less_iff)

lemma login_guesses_bounded_witness:
  "length (filter refused (fst (logins toy_vault ''r'' ''Ada'' (replicate 9 (demo_try ''guess'')) (calm empty_db)))) \<le> 5"
proof -
  have "normalize_username ''Ada'' = Inr ''ada''" by (rule demo_name)
  from login_guesses_bounded [OF this _ surjective_pairing, of "replicate 9 (demo_try ''guess'')" "store_epoch_secs_to_iso 1700000000"
      toy_vault "''r''" empty_db] demo_window
  show ?thesis by (simp add: demo_try_def del: logins.simps)
qed

section \<open>A new account can sign in\<close>

lemma insert_credential_InrD:
  assumes "insert_credential c p = (Inr (), p')"
  shows "p' = p\<lparr>credentials := credentials p @ [credential_of.extend c (credential_row_of.fields None)]\<rparr>"
  using assms by (auto simp: insert_credential_def split: option.splits)

lemma create_account_calm_InrE:
  assumes "create_account_with_password v ids salt realm username display password role by now (calm d) = (Inr a, w)"
  obtains name phc p where "checked_identity v salt username password = Inr (name, phc)"
    "w = calm (d\<lparr>people := p\<rparr>)"
    "accounts p = accounts (people d) @ [new_account (fresh_account ids) realm name username display None ActiveAccount now]"
    "credentials p = credentials (people d)
       @ [credential_of.extend (new_password (fresh_credential ids) (fresh_account ids) phc now) (credential_row_of.fields None)]"
    "sessions p = sessions (people d)" "login_attempts p = login_attempts (people d)"
    "\<forall>x \<in> set (accounts (people d)). \<not> (ac_realm_id x = realm \<and> ac_username_normalized x = name)"
proof -
  let ?acc = "\<lambda>name. new_account (fresh_account ids) realm name username display None ActiveAccount now"
  let ?tx = "\<lambda>name phc. [insert_account (?acc name),
     insert_credential (new_password (fresh_credential ids) (fresh_account ids) phc now),
     insert_membership (new_membership (fresh_membership ids) (fresh_account ids) realm role (Some by) now)]"
  obtain name phc where id: "checked_identity v salt username password = Inr (name, phc)"
    and run: "hbind (people_try (or_conflict UsernameConflict) (run_tx (?tx name phc))) (\<lambda>_. get_account (fresh_account ids)) (calm d) = (Inr a, w)"
    using assms by (cases "checked_identity v salt username password")
      (auto simp: create_account_with_password_def hbind_def check_def hfail_def split: if_splits)
  obtain p where p: "run_tx (?tx name phc) (people d) = (Inr (), p)" "w = calm (d\<lparr>people := p\<rparr>)"
    using run by (cases "run_tx (?tx name phc) (people d)")
      (auto simp: hbind_def get_account_def calm_simps split: sum.splits option.splits simp del: run_tx.simps)
  obtain p1 p2 where s: "insert_account (?acc name) (people d) = (Inr (), p1)"
    "insert_credential (new_password (fresh_credential ids) (fresh_account ids) phc now) p1 = (Inr (), p2)"
    "insert_membership (new_membership (fresh_membership ids) (fresh_account ids) realm role (Some by) now) p2 = (Inr (), p)"
    using p(1) by (auto simp: run_tx_Cons_Inr simp del: run_tx.simps)
  note f = insert_account_InrD [OF s(1)] insert_credential_InrD [OF s(2)] insert_membership_InrD(1) [OF s(3)]
  show thesis
    by (rule that [OF id p(2)]) (use f in \<open>simp_all add: new_account_def\<close>)
qed

text \<open>Reading a password back: the verifier accepts what was hashed.\<close>

definition verifies :: "vault \<Rightarrow> string \<Rightarrow> bool" where
  "verifies v password \<longleftrightarrow> (\<forall>salt phc. argon2_hash v salt (nfc v password) = Some phc \<longrightarrow> argon2_verify v (nfc v password) phc = Some True)"

lemma upgrade_hash_calm:
  obtains p where "upgrade_hash v salt password c phc (calm d) = (Inr (), calm (d\<lparr>people := p\<rparr>))"
    "sessions p = sessions (people d)" "accounts p = accounts (people d)" "login_attempts p = login_attempts (people d)"
proof -
  have "\<exists>p. upgrade_hash v salt password c phc (calm d) = (Inr (), calm (d\<lparr>people := p\<rparr>))
    \<and> sessions p = sessions (people d) \<and> accounts p = accounts (people d) \<and> login_attempts p = login_attempts (people d)"
  proof (cases "needs_rehash v phc \<and> is_ok (hash_password v salt password)")
    case True
    then obtain fresh where "hash_password v salt password = Inr fresh" by (auto dest: is_ok_Inr)
    then show ?thesis using True
      by (auto simp: upgrade_hash_def best_effort_def rehash_secret_def rehash_stmt_def edit_credentials_def credential_row_for_def
          hbind_def calm_simps split: option.split)
  next
    case False
    then have "upgrade_hash v salt password c phc (calm d) = (Inr (), calm (d\<lparr>people := people d\<rparr>))"
      by (auto simp: upgrade_hash_def hret_def split: sum.splits)
    then show ?thesis by blast
  qed
  then show thesis using that by blast
qed

lemma checked_identity_InrD:
  assumes "checked_identity v salt username password = Inr (name, phc)"
  shows "normalize_username username = Inr name" "argon2_hash v salt (nfc v password) = Some phc"
  using assms by (auto simp: checked_identity_def bind_res_Inr_iff hash_password_def split: option.splits)

lemma find_append_new: "(\<forall>x \<in> set xs. \<not> P x) \<Longrightarrow> P y \<Longrightarrow> find P (xs @ [y]) = Some y"
  by (induction xs) auto

lemma password_of_new [simp]:
  "password_of [credential_of.truncate (credential_of.extend (new_password i account phc now) (credential_row_of.fields None))]
     = Some (new_password i account phc now, phc)"
  by (simp add: password_of_def new_password_def credential_of.defs credential_row_of.defs)

lemma new_password_fields [simp]:
  "cd_account_id (credential_of.extend (new_password i account phc now) x) = account"
  "cd_revoked_at (credential_of.extend (new_password i account phc now) x) = None"
  by (simp_all add: new_password_def credential_of.defs)

text \<open>
  C23. Who gets an account with a password can sign in with it: the session that is issued is the one its
  access secret opens, and it is the new account's.
\<close>

theorem registered_account_signs_in:
  assumes "create_account_with_password v ids salt realm username display password role by now (calm d) = (Inr a, calm d1)"
    and "verifies v password" "normalize_username username = Inr name"
    and "recent_failures ''username'' name (window_start (clk 0)) (people d) < 5"
    and "\<forall>c \<in> set (credentials (people d)). cd_account_id c \<noteq> fresh_account ids"
    and "\<forall>x \<in> set (sessions (people d)). hs_session_id x \<noteq> sw_session_id s \<and> hs_access_secret_hash x \<noteq> hash_opaque v (sw_access s)"
  shows "\<exists>t d2. authenticate_and_issue_session v s salt2 q clk realm username password None now2 (calm d1)
      = (Inr (t, sw_access s, sw_refresh s), calm d2)
    \<and> hs_account_id t = fresh_account ids \<and> live_by_access (hash_opaque v (sw_access s)) (people d2) = Some t"
proof -
  obtain n phc p where id: "checked_identity v salt username password = Inr (n, phc)" and d1: "calm d1 = calm (d\<lparr>people := p\<rparr>)"
    and c0: "accounts p = accounts (people d) @ [new_account (fresh_account ids) realm n username display None ActiveAccount now]"
    "credentials p = credentials (people d)
       @ [credential_of.extend (new_password (fresh_credential ids) (fresh_account ids) phc now) (credential_row_of.fields None)]"
    "sessions p = sessions (people d)" "login_attempts p = login_attempts (people d)"
    "\<forall>x \<in> set (accounts (people d)). \<not> (ac_realm_id x = realm \<and> ac_username_normalized x = n)"
    by (rule create_account_calm_InrE [OF assms(1)])
  have n: "n = name" using checked_identity_InrD(1) [OF id] assms(3) by simp
  note c = id [unfolded n] d1 [unfolded calm_inject] c0 [unfolded n]
  define acc where "acc = new_account (fresh_account ids) realm name username display None ActiveAccount now"
  have acc: "ac_status acc = ActiveAccount" "ac_account_id acc = fresh_account ids" "ac_realm_id acc = realm"
    "ac_username_normalized acc = name" by (simp_all add: acc_def new_account_def)
  let ?cred = "new_password (fresh_credential ids) (fresh_account ids) phc now"
  have who: "find_by_username realm name (calm d1) = (Inr (Some acc), calm d1)"
    using c(7) by (simp add: find_by_username_def calm_simps c(2,3) acc_def [symmetric] find_append_new acc)
  have creds: "get_active_for_account (fresh_account ids) (calm d1)
      = (Inr [credential_of.truncate (credential_of.extend ?cred (credential_row_of.fields None))], calm d1)"
    using assms(5) by (simp add: get_active_for_account_def active_credentials_def calm_simps c(2,4) filter_empty_conv)
  have pw: "verify_password v password phc = Inr True"
    using assms(2) checked_identity_InrD(2) [OF c(1)] by (simp add: verifies_def verify_password_def)
  obtain p2 where up: "upgrade_hash v salt2 password ?cred phc (calm d1) = (Inr (), calm (d1\<lparr>people := p2\<rparr>))"
    "sessions p2 = sessions (people d)" by (rule upgrade_hash_calm [of v salt2 password ?cred phc d1]) (simp add: c(2,5))
  define t where "t = new_session v s q (\<lambda>n. clk (n + 2)) realm Aal1 None acc now2"
  have t: "hs_session_id t = sw_session_id s" "hs_access_secret_hash t = hash_opaque v (sw_access s)" "hs_revoked_at t = None"
    "hs_account_id t = fresh_account ids" by (simp_all add: t_def new_session_def acc)
  have issue: "issue_session t (calm (d1\<lparr>people := p2\<rparr>)) = (Inr t, calm (d1\<lparr>people := p2\<lparr>sessions := sessions p2 @ [t]\<rparr>\<rparr>))"
    using assms(6) t by (auto simp: issue_session_def insert_session_def first_violation_def list_ex_iff up(2) hbind_def hret_def calm_simps)
  have fresh: "new_session v s q (\<lambda>n. clk (Suc (Suc n))) realm Aal1 None acc now2 = t" by (simp add: t_def)
  let ?d3 = "d1\<lparr>people := p2\<lparr>sessions := sessions p2 @ [t]\<rparr>\<rparr>"
  have auth: "try_authenticate v s salt2 q (\<lambda>n. clk (Suc (Suc n))) realm name password now2 (calm d1)
      = (Inr (t, sw_access s, sw_refresh s), calm ?d3)"
    by (simp add: try_authenticate_def hbind_def who check_def status_admits_def acc creds pw up(1) fresh issue hret_def)
  have live: "live_by_access (hash_opaque v (sw_access s)) (people ?d3) = Some t"
    using assms(6) t by (simp add: live_by_access_def up(2) find_append_new)
  have gate: "enforce_login_throttle ''username'' name (clk 0) (calm d1) = (Inr (), calm d1)"
    using assms(4) by (simp add: enforce_login_throttle_calm c(2) recent_failures_cong [OF c(6)])
  obtain d4 where "record_outcome name None True now2 (calm ?d3) = (Inr (), calm d4)" "sessions (people d4) = sessions (people ?d3)"
    by (simp add: record_outcome_calm attempt_stmt_def Let_def)
  with live have "authenticate_and_issue_session v s salt2 q clk realm username password None now2 (calm d1)
      = (Inr (t, sw_access s, sw_refresh s), calm d4) \<and> live_by_access (hash_opaque v (sw_access s)) (people d4) = Some t"
    by (simp add: authenticate_and_issue_session_def assms(3) hbind_def gate optional_throttle_def hret_def auth check_def live_by_access_def)
  with t(4) show ?thesis by blast
qed

definition demo_ids :: fresh_ids where
  "demo_ids = \<lparr>fresh_account = ''a1'', fresh_credential = ''c1'', fresh_membership = ''m1''\<rparr>"

definition demo_create :: "account accounts_op" where
  "demo_create = create_account_with_password toy_vault demo_ids ''salt'' ''r'' ''Ada'' ''Ada L'' ''correct horse battery'' Observer ''root'' ''t''"

lemma demo_create_works:
  obtains a d1 where "demo_create (calm empty_db) = (Inr a, calm d1)"
proof -
  have "is_ok (fst (demo_create (calm empty_db))) \<and> script (snd (demo_create (calm empty_db))) = []"
    by (simp add: demo_create_def create_account_with_password_def human_assignable_def demo_identity hbind_def check_def
        calm_simps insert_account_def insert_credential_def insert_membership_def first_violation_def empty_db_def no_people_def
        get_account_def find_account_def new_account_def)
  moreover have "w = calm (db w)" if "script w = []" for w using that by (simp add: calm_def)
  ultimately show thesis using that by (metis is_ok_Inr prod.collapse)
qed

lemma registered_account_signs_in_witness:
  "\<exists>a d1 t d2. demo_create (calm empty_db) = (Inr a, calm d1)
    \<and> login_once toy_vault ''r'' ''Ada'' (demo_try ''correct horse battery''\<lparr>lt_fingerprint := None\<rparr>) (calm d1)
      = (Inr (t, ''x'', ''y''), calm d2)
    \<and> hs_account_id t = ''a1'' \<and> live_by_access ''hx'' (people d2) = Some t"
proof -
  obtain a d1 where run: "demo_create (calm empty_db) = (Inr a, calm d1)" by (rule demo_create_works)
  have v: "verifies toy_vault ''correct horse battery''"
    by (auto simp: verifies_def toy_vault_def ends_with_iff_suffix suffix_def)
  from registered_account_signs_in [OF run [unfolded demo_create_def] v demo_name, of "\<lambda>_. 1700000000"
      "lt_draw (demo_try [])" "''salt''" "lt_session (demo_try [])" "store_epoch_secs_to_iso 1700000000"]
  show ?thesis using run
    by (simp add: empty_db_def no_people_def recent_failures_def affected_def login_once_def demo_try_def toy_vault_def demo_ids_def)
qed

section \<open>Passkeys\<close>

definition passkey_row :: "string \<Rightarrow> string \<Rightarrow> humans \<Rightarrow> credential_row option" where
  "passkey_row account i p =
     find (\<lambda>c. cd_credential_id c = i \<and> cd_account_id c = account \<and> cd_kind c = Webauthn \<and> cd_revoked_at c = None) (credentials p)"

definition count_accepted :: "int option \<Rightarrow> int \<Rightarrow> bool" where
  "count_accepted stored n \<longleftrightarrow> n = 0 \<or> (case stored of None \<Rightarrow> True | Some m \<Rightarrow> m < n)"

definition asserted :: "assertion \<Rightarrow> string \<Rightarrow> credential_row \<Rightarrow> credential_row" where
  "asserted x now c = c\<lparr>cd_sign_count := Some (as_sign_count x), cd_public_key_material := Some (as_public_key_blob x),
     cd_backup_eligible := as_backup_eligible x, cd_backup_state := as_backup_state x,
     cd_last_used_at := Some now, cd_revision := cd_revision c + 1\<rparr>"

lemma asserted_same [simp]:
  "cd_credential_id (asserted x now c) = cd_credential_id c" "cd_account_id (asserted x now c) = cd_account_id c"
  "cd_kind (asserted x now c) = cd_kind c" "cd_revoked_at (asserted x now c) = cd_revoked_at c"
  "cd_sign_count (asserted x now c) = Some (as_sign_count x)"
  by (simp_all add: asserted_def)

lemma passkey_stmt:
  "passkey_stmt account i x now = edit_credentials
     (\<lambda>c. cd_credential_id c = i \<and> (cd_account_id c = account \<and> cd_kind c = Webauthn \<and> cd_revoked_at c = None
        \<and> count_accepted (cd_sign_count c) (as_sign_count x))) (asserted x now)"
  unfolding passkey_stmt_def asserted_def [abs_def]
  by (intro arg_cong2 [where f = edit_credentials] ext) (auto simp: count_accepted_def split: option.splits)

definition credential_ids :: "humans \<Rightarrow> bool" where
  "credential_ids p \<longleftrightarrow> distinct (map cd_credential_id (credentials p))"

lemma find_the: "x \<in> set xs \<Longrightarrow> P x \<Longrightarrow> (\<And>y. y \<in> set xs \<Longrightarrow> P y \<Longrightarrow> y = x) \<Longrightarrow> find P xs = Some x"
proof (induction xs)
  case (Cons a xs)
  show ?case
  proof (cases "P a")
    case True
    then show ?thesis using Cons.prems(3) [of a] by simp
  next
    case False
    then have "x \<in> set xs" using Cons.prems(1,2) by (cases "x = a") simp_all
    then show ?thesis using Cons.IH [OF _ Cons.prems(2)] Cons.prems(3) False by simp
  qed
qed simp

lemma update_where_none: "affected P rows = 0 \<Longrightarrow> update_where P f rows = rows"
  by (auto simp: affected_def filter_empty_conv update_where_def intro: map_idI)

lemma passkey_row_iff:
  assumes "credential_ids p"
  shows "passkey_row account i p = Some c \<longleftrightarrow> c \<in> set (credentials p) \<and> cd_credential_id c = i \<and>
    cd_account_id c = account \<and> cd_kind c = Webauthn \<and> cd_revoked_at c = None"
  (is "?l = ?r")
proof
  assume r: ?r
  then show ?l unfolding passkey_row_def
  proof (intro find_the)
    fix y assume y: "y \<in> set (credentials p)" "cd_credential_id y = i \<and> cd_account_id y = account \<and> cd_kind y = Webauthn \<and> cd_revoked_at y = None"
    from distinct_keyD [OF assms [unfolded credential_ids_def] y(1), of c] r y(2) show "y = c" by simp
  qed simp_all
qed (auto simp: passkey_row_def find_Some_iff)

lemma passkey_stmt_effect:
  assumes "credential_ids p" "passkey_row account i p = Some c" "passkey_stmt account i x now p = (n, q)"
  shows "n = (if count_accepted (cd_sign_count c) (as_sign_count x) then 1 else 0)"
    "count_accepted (cd_sign_count c) (as_sign_count x) \<Longrightarrow> passkey_row account i q = Some (asserted x now c)"
    "credential_ids q"
proof -
  let ?P = "\<lambda>c. cd_credential_id c = i \<and> (cd_account_id c = account \<and> cd_kind c = Webauthn \<and> cd_revoked_at c = None
        \<and> count_accepted (cd_sign_count c) (as_sign_count x))"
  have row: "c \<in> set (credentials p)" "cd_credential_id c = i"
    "cd_account_id c = account \<and> cd_kind c = Webauthn \<and> cd_revoked_at c = None"
    using assms(2) by (auto simp: passkey_row_iff [OF assms(1)])
  have n: "n = affected ?P (credentials p)" and q: "q = p\<lparr>credentials := update_where ?P (asserted x now) (credentials p)\<rparr>"
    using assms(3) by (auto simp: passkey_stmt edit_credentials_def)
  show "n = (if count_accepted (cd_sign_count c) (as_sign_count x) then 1 else 0)"
    using affected_key [OF assms(1) [unfolded credential_ids_def] find_unique [OF assms(1) [unfolded credential_ids_def] row(1,2)]]
      row(3) by (simp add: n)
  have "map cd_credential_id (update_where ?P (asserted x now) (credentials p)) = map cd_credential_id (credentials p)"
    by (simp add: update_where_def)
  then show ids: "credential_ids q" using assms(1) by (simp add: q credential_ids_def)
  assume "count_accepted (cd_sign_count c) (as_sign_count x)"
  then have "asserted x now c \<in> set (credentials q)" using row by (force simp: q update_where_def)
  then show "passkey_row account i q = Some (asserted x now c)" using row by (simp add: passkey_row_iff [OF ids])
qed

lemma verify_passkey_calm:
  assumes "credential_ids (people d)" "passkey_row account i (people d) = Some c"
  shows "fst (verify_and_advance_passkey_sign_count account i x now (calm d)) =
      (if count_accepted (cd_sign_count c) (as_sign_count x) then Inr () else Inl CredentialReplaySuspected)"
    "snd (verify_and_advance_passkey_sign_count account i x now (calm d)) =
      calm (d\<lparr>people := snd (passkey_stmt account i x now (people d))\<rparr>)"
  using passkey_stmt_effect(1) [OF assms surjective_pairing, of x now]
  by (simp_all add: verify_and_advance_passkey_sign_count_def hbind_def hfail_def hret_def calm_simps)

text \<open>The assertions one passkey makes, one after the other; which of them are accepted.\<close>

fun assertions :: "string \<Rightarrow> string \<Rightarrow> (assertion \<times> string) list \<Rightarrow> world \<Rightarrow> bool list" where
  "assertions account i [] w = []"
| "assertions account i ((x, now) # xs) w =
     (case verify_and_advance_passkey_sign_count account i x now w of (r, w1) \<Rightarrow> is_ok r # assertions account i xs w1)"

lemma assertions_Cons:
  assumes "credential_ids (people d)" "passkey_row account i (people d) = Some c"
  obtains d1 c1 where "assertions account i ((x, now) # xs) (calm d) =
      count_accepted (cd_sign_count c) (as_sign_count x) # assertions account i xs (calm d1)"
    "credential_ids (people d1)" "passkey_row account i (people d1) = Some c1"
    "cd_sign_count c1 = (if count_accepted (cd_sign_count c) (as_sign_count x) then Some (as_sign_count x) else cd_sign_count c)"
proof -
  let ?p = "snd (passkey_stmt account i x now (people d))"
  note e = passkey_stmt_effect [OF assms surjective_pairing, of x now]
  have run: "assertions account i ((x, now) # xs) (calm d) =
      count_accepted (cd_sign_count c) (as_sign_count x) # assertions account i xs (calm (d\<lparr>people := ?p\<rparr>))"
    using verify_passkey_calm [OF assms, of x now] by (auto split: prod.splits if_splits)
  show thesis
  proof (cases "count_accepted (cd_sign_count c) (as_sign_count x)")
    case True
    then show ?thesis using that [OF run] e(2,3) by simp
  next
    case False
    then have "?p = people d\<lparr>credentials := credentials (people d)\<rparr>"
      using e(1) by (simp add: passkey_stmt edit_credentials_def update_where_none)
    then have "?p = people d" by simp
    then show ?thesis using that [OF run] assms False by simp
  qed
qed

text \<open>
  C24. A cloned or replayed passkey is caught: among the assertions of one passkey that report a counter
  (a number above zero), the accepted ones have strictly increasing counters, all above the stored one.
\<close>

theorem passkey_counters_increase:
  assumes "credential_ids (people d)" "passkey_row account i (people d) = Some c"
    and "\<forall>x \<in> set xs. 0 < as_sign_count (fst x)"
  shows "let accepted = map fst (filter snd (zip (map (as_sign_count \<circ> fst) xs) (assertions account i xs (calm d)))) in
    sorted_wrt (<) accepted \<and> (\<forall>n \<in> set accepted. \<forall>m. cd_sign_count c = Some m \<longrightarrow> m < n)"
  using assms
proof (induction xs arbitrary: d c)
  case (Cons y xs)
  obtain x now where y: "y = (x, now)" by fastforce
  obtain d1 c1 where s: "assertions account i ((x, now) # xs) (calm d) =
      count_accepted (cd_sign_count c) (as_sign_count x) # assertions account i xs (calm d1)"
    "credential_ids (people d1)" "passkey_row account i (people d1) = Some c1"
    "cd_sign_count c1 = (if count_accepted (cd_sign_count c) (as_sign_count x) then Some (as_sign_count x) else cd_sign_count c)"
    by (rule assertions_Cons [OF Cons.prems(1,2)])
  note ih = Cons.IH [OF s(2,3)] Cons.prems(3)
  show ?case
  proof (cases "count_accepted (cd_sign_count c) (as_sign_count x)")
    case True
    moreover from True have "m < as_sign_count x" if "cd_sign_count c = Some m" for m
      using that Cons.prems(3) by (auto simp: count_accepted_def y)
    ultimately show ?thesis using ih by (auto simp: y s(1,4) Let_def simp del: assertions.simps)
  next
    case False
    then show ?thesis using ih by (simp add: y s(1,4) Let_def del: assertions.simps)
  qed
qed simp

text \<open>A report of zero is accepted whatever is stored, and it makes an old counter acceptable again.\<close>

lemma passkey_zero_resets_counter:
  assumes "credential_ids (people d)" "passkey_row account i (people d) = Some c" "cd_sign_count c = Some n" "0 < n"
    and "as_sign_count x = n" "as_sign_count z = 0"
  shows "assertions account i [(x, now), (z, now), (x, now)] (calm d) = [False, True, True]"
proof -
  obtain d1 c1 where 1: "assertions account i [(x, now), (z, now), (x, now)] (calm d) =
      False # assertions account i [(z, now), (x, now)] (calm d1)"
    "credential_ids (people d1)" "passkey_row account i (people d1) = Some c1"
    by (rule assertions_Cons [OF assms(1,2), of x now "[(z, now), (x, now)]"])
      (use assms(3-5) in \<open>simp_all add: count_accepted_def del: assertions.simps\<close>)
  obtain d2 c2 where 2: "assertions account i [(z, now), (x, now)] (calm d1) = True # assertions account i [(x, now)] (calm d2)"
    "credential_ids (people d2)" "passkey_row account i (people d2) = Some c2" "cd_sign_count c2 = Some 0"
    by (rule assertions_Cons [OF 1(2,3), of z now "[(x, now)]"])
      (use assms(6) in \<open>simp_all add: count_accepted_def del: assertions.simps\<close>)
  have "assertions account i [(x, now)] (calm d2) = [True]"
    by (rule assertions_Cons [OF 2(2,3), of x now "[]"]) (use 2(4) assms(4,5) in \<open>simp_all add: count_accepted_def\<close>)
  then show ?thesis by (simp only: 1(1) 2(1))
qed

definition demo_passkey :: credential_row where
  "demo_passkey = credential_of.extend (new_password ''k'' ''ada'' ''v'' ''t''\<lparr>cd_kind := Webauthn\<rparr>) (credential_row_of.fields (Some 7))"

definition passkey_db :: db where
  "passkey_db = empty_db\<lparr>people := no_people\<lparr>credentials := [demo_passkey]\<rparr>\<rparr>"

definition demo_assertion :: "int \<Rightarrow> assertion" where
  "demo_assertion n = \<lparr>as_sign_count = n, as_public_key_blob = ''k'', as_backup_eligible = False, as_backup_state = False\<rparr>"

lemma passkey_counters_increase_witness:
  "let accepted = map fst (filter snd (zip [7 :: int, 9, 8, 10]
       (assertions ''ada'' ''k'' (map (\<lambda>n. (demo_assertion n, ''t'')) [7, 9, 8, 10]) (calm passkey_db))))
   in sorted_wrt (<) accepted \<and> list_all (\<lambda>n. 7 < n) accepted"
proof -
  have d: "credential_ids (people passkey_db)" "passkey_row ''ada'' ''k'' (people passkey_db) = Some demo_passkey"
    "cd_sign_count demo_passkey = Some 7"
    by (simp_all add: credential_ids_def passkey_db_def passkey_row_def demo_passkey_def new_password_def no_people_def
        credential_of.defs credential_row_of.defs)
  from passkey_counters_increase [OF d(1,2), of "map (\<lambda>n. (demo_assertion n, ''t'')) [7, 9, 8, 10]"] d(3) show ?thesis
    by (simp add: demo_assertion_def Let_def list_all_iff comp_def del: assertions.simps)
qed

section \<open>Recovery codes\<close>

definition usable :: "string \<Rightarrow> string \<Rightarrow> string \<Rightarrow> recovery_code_row \<Rightarrow> bool" where
  "usable account hash now c \<longleftrightarrow> rc_account_id c = account \<and> rc_code_verifier c = hash \<and> rc_consumed_at c = None
     \<and> rc_revoked_at c = None \<and> (rc_expires_at c = None \<or> now < the (rc_expires_at c))"

lemma consume_code_stmt:
  "consume_code_stmt account hash now = edit_codes (usable account hash now) (\<lambda>c. c\<lparr>rc_consumed_at := Some now\<rparr>)"
  by (simp add: consume_code_stmt_def usable_def [abs_def])

lemma consumed_not_usable:
  assumes "now \<le> later"
  shows "affected (usable account hash later) (recovery_codes (snd (consume_code_stmt account hash now p))) = 0"
  using assms by (auto simp: affected_def filter_empty_conv consume_code_stmt edit_codes_def update_where_def usable_def)

text \<open>
  C37. A recovery code is spent before the new password is looked at: with a valid code and a password the
  policy refuses, the account gets the policy error, stays in recovery, and the code is gone, so that a
  second try with an acceptable password is refused. The interface documents the opposite: that the code is
  consumed on success, in one step with the new password.
\<close>

theorem weak_password_spends_code:
  assumes "find_account i (people d) = Some a" "ac_status a = RecoveryRequiredStatus" "now \<le> later"
    and "affected (usable i (hash_opaque v code) now) (recovery_codes (people d)) = 1"
    and "validate_password v weak False = Inl e"
  shows "\<exists>d1. complete_recovery_with_code v salt i code weak now stamp (calm d) = (Inl e, calm d1)
    \<and> find_account i (people d1) = Some a
    \<and> complete_recovery_with_code v salt i code good later stamp2 (calm d1) = (Inl InvalidCredentials, calm d1)"
proof -
  let ?q = "\<lambda>t p. snd (consume_code_stmt i (hash_opaque v code) t p)"
  have keep: "find_account i (?q t p) = find_account i p" for t p
    by (simp add: consume_code_stmt edit_codes_def find_account_def)
  have n: "fst (consume_code_stmt i (hash_opaque v code) t p) = affected (usable i (hash_opaque v code) t) (recovery_codes p)" for t p
    by (simp add: consume_code_stmt edit_codes_def)
  define d1 where "d1 = d\<lparr>people := ?q now (people d)\<rparr>"
  have 1: "complete_recovery_with_code v salt i code weak now stamp (calm d) = (Inl e, calm d1)"
    by (simp add: complete_recovery_with_code_def get_account_def hbind_def check_def calm_simps assms n d1_def)
  have f1: "find_account i (people d1) = Some a" by (simp add: d1_def keep assms(1))
  have none: "affected (usable i (hash_opaque v code) later) (recovery_codes (people d1)) = 0"
    using consumed_not_usable [OF assms(3)] by (simp add: d1_def)
  have "?q later (people d1) = people d1\<lparr>recovery_codes := recovery_codes (people d1)\<rparr>"
    using update_where_none [OF none] by (simp add: consume_code_stmt edit_codes_def)
  then have "?q later (people d1) = people d1" by simp
  then have "complete_recovery_with_code v salt i code good later stamp2 (calm d1) = (Inl InvalidCredentials, calm d1)"
    by (simp add: complete_recovery_with_code_def get_account_def hbind_def hfail_def calm_simps f1 assms(2) n none)
  with 1 f1 show ?thesis by blast
qed

definition recovery_db :: db where
  "recovery_db = empty_db\<lparr>people := no_people\<lparr>accounts := [(demo_admin ''ada'')\<lparr>ac_status := RecoveryRequiredStatus\<rparr>],
     recovery_codes := [\<lparr>rc_code_id = ''c'', rc_account_id = ''ada'', rc_code_verifier = ''hcode'', rc_batch_id = ''b'',
       rc_created_at = ''1'', rc_consumed_at = None, rc_revoked_at = None, rc_expires_at = Some ''9''\<rparr>]\<rparr>\<rparr>"

lemma weak_password_spends_code_witness:
  "\<exists>d1. complete_recovery_with_code toy_vault ''s'' ''ada'' ''code'' ''abc'' ''2'' ''2'' (calm recovery_db)
      = (Inl (AccountPolicyViolation ''password_too_short''), calm d1)
    \<and> complete_recovery_with_code toy_vault ''s'' ''ada'' ''code'' ''correct horse battery'' ''3'' ''3'' (calm d1)
      = (Inl InvalidCredentials, calm d1)"
proof -
  have a: "find_account ''ada'' (people recovery_db) = Some ((demo_admin ''ada'')\<lparr>ac_status := RecoveryRequiredStatus\<rparr>)"
    "affected (usable ''ada'' (hash_opaque toy_vault ''code'') ''2'') (recovery_codes (people recovery_db)) = 1"
    "validate_password toy_vault ''abc'' False = Inl (AccountPolicyViolation ''password_too_short'')"
    by (simp_all add: recovery_db_def no_people_def find_account_def demo_admin_def new_account_def usable_def affected_def
        toy_vault_def validate_password_def char_count_def Let_def less_char_def)
  have "''2'' \<le> ''3''" by (simp add: less_char_def less_eq_char_def)
  moreover have "ac_status ((demo_admin ''ada'')\<lparr>ac_status := RecoveryRequiredStatus\<rparr>) = RecoveryRequiredStatus" by simp
  ultimately show ?thesis
    using weak_password_spends_code [OF a(1) _ _ a(2,3), where salt = "''s''" and stamp = "''2''"
      and good = "''correct horse battery''" and later = "''3''" and ?stamp2.0 = "''3''"] by auto
qed

end
