(* ===== verification/HubSessions.thy ===== *)
theory HubSessions
  imports HubAuth PeopleSessions
begin

text \<open>
  The authentication layer in front of the routes (\<^verbatim>\<open>require_bearer\<close> of
  \<^verbatim>\<open>crates/fabric-hub/src/auth.rs\<close>): a request is identified by the signature of a session key or by a
  bearer (human session, cluster bearer or role token), then admitted by role and step-up. A request is
  its method, path, headers that are text, and body; the routes get the identity.
\<close>

section \<open>Human sessions\<close>

datatype session_outcome = NotASession | Authenticated auth_context | Rejected nat string string

text \<open>The result of a call as a value.\<close>

definition outcome_of :: "('s, 'e, 'a) action \<Rightarrow> ('s, 'f, ('e, 'a) res) action" where
  "outcome_of m w = (case m w of (r, w') \<Rightarrow> (Inr r, w'))"

definition hash_secret :: "hub \<Rightarrow> string \<Rightarrow> string" where
  "hash_secret h presented = hex_encode (hub_crypto h) (sha256 (hub_crypto h) presented)"

definition session_store_down :: session_outcome where
  "session_store_down =
     Rejected 503 ''AuthServiceUnavailable'' ''human-session authorization is temporarily unavailable''"

definition session_over :: session_outcome where
  "session_over = Rejected 401 ''SessionExpired'' ''the session has expired''"

definition blocked_code :: "account_status \<Rightarrow> string" where
  "blocked_code s =
     (case s of Disabled \<Rightarrow> ''AccountDisabled'' | Locked \<Rightarrow> ''AccountLocked''
      | RecoveryRequiredStatus \<Rightarrow> ''RecoveryRequired'' | _ \<Rightarrow> ''AccountDisabled'')"

definition live_roles :: "membership list \<Rightarrow> string list" where
  "live_roles ms = map (\<lambda>m. human_role_str (mb_role m)) (filter (\<lambda>m. mb_revoked_at m = None) ms)"

definition authenticate_validated_session :: "session \<Rightarrow> int \<Rightarrow> ('e, session_outcome) handler" where
  "authenticate_validated_session s clock =
     (let now = utc_now clock in
      if hs_idle_expires_at s < now \<or> hs_absolute_expires_at s < now then hret session_over
      else
        hbind (outcome_of (get_account (hs_account_id s))) (\<lambda>found.
        case found of
          Inl _ \<Rightarrow> hret session_store_down
        | Inr a \<Rightarrow>
            if \<not> may_authenticate_normally (ac_status a) then
              hret (Rejected 403 (blocked_code (ac_status a)) ''the account cannot authenticate in its current state'')
            else
              hbind (outcome_of (list_memberships (ac_account_id a))) (\<lambda>listed.
              case listed of
                Inl _ \<Rightarrow> hret session_store_down
              | Inr ms \<Rightarrow>
                  hret (Authenticated (from_human_session (ac_account_id a) (live_roles ms) (hs_session_id s)
                    (assurance_str (hs_assurance_level s)) (hs_step_up_at s))))))"

definition resolve_human_session :: "hub \<Rightarrow> string \<Rightarrow> int \<Rightarrow> ('e, session_outcome) handler" where
  "resolve_human_session h presented clock =
     hbind (outcome_of (validate_by_access_hash (hash_secret h presented))) (\<lambda>found.
     case found of
       Inr s \<Rightarrow> authenticate_validated_session s clock
     | Inl SessionExpired \<Rightarrow> hret NotASession
     | Inl _ \<Rightarrow> hret session_store_down)"

definition request_envelope :: "hub \<Rightarrow> signed_headers \<Rightarrow> string \<Rightarrow> string \<Rightarrow> string \<Rightarrow> jv" where
  "request_envelope h sh meth path body =
     jobj [(''op'', JStr ''session-request''), (''session_id'', JStr (sh_session_id sh)), (''method'', JStr meth),
           (''path'', JStr path), (''body_sha256'', JStr (hash_secret h body)),
           (''timestamp'', jint (sh_timestamp sh)), (''nonce'', JStr (sh_nonce sh))]"

text \<open>Why a session may not sign the request, if it may not.\<close>

definition signed_refusal :: "hub \<Rightarrow> signed_headers \<Rightarrow> string \<Rightarrow> string \<Rightarrow> string \<Rightarrow> session \<Rightarrow> session_outcome option" where
  "signed_refusal h sh meth path body s =
     (if hs_revoked_at s \<noteq> None then Some (Rejected 401 ''SessionRevoked'' ''the session has been revoked'')
      else
        (case hs_bound_public_key s of
           None \<Rightarrow> Some (Rejected 401 ''SessionNotKeyBound'' ''this session does not support signed requests'')
         | Some key \<Rightarrow>
             if verify_sig h key (request_envelope h sh meth path body) (sh_signature sh) \<noteq> Inr () then
               Some (Rejected 401 ''InvalidSignature'' ''the request signature did not verify'')
             else None))"

text \<open>The clock is read for the skew, the pruning of the nonces, the stamp of the nonce, and the expiry.\<close>

definition accept_signed :: "(nat \<Rightarrow> int) \<Rightarrow> signed_headers \<Rightarrow> session \<Rightarrow> ('e, session_outcome) handler" where
  "accept_signed clk sh s =
     hbind (attempt (consume_session_nonce (clk 1) (sh_session_id sh) (sh_nonce sh) (utc_now (clk 2)))) (\<lambda>consumed.
     case consumed of
       Inl _ \<Rightarrow> hret (Rejected 401 ''NonceReplayed'' ''this request nonce has already been used'')
     | Inr _ \<Rightarrow> authenticate_validated_session s (clk 3))"

definition resolve_signed_session :: "hub \<Rightarrow> (nat \<Rightarrow> int) \<Rightarrow> signed_headers \<Rightarrow> string \<Rightarrow> string \<Rightarrow> string \<Rightarrow>
    ('e, session_outcome) handler" where
  "resolve_signed_session h clk sh meth path body =
     (if check_skew (of_int (sh_timestamp sh)) (clk 0) \<noteq> Inr () then
        hret (Rejected 422 ''SignatureTimestampSkew'' ''the request timestamp is outside the allowed skew window'')
      else
        hbind (outcome_of (get_session (sh_session_id sh))) (\<lambda>found.
        case found of
          Inl _ \<Rightarrow> hret session_over
        | Inr s \<Rightarrow> (case signed_refusal h sh meth path body s of Some r \<Rightarrow> hret r | None \<Rightarrow> accept_signed clk sh s)))"

section \<open>Requests\<close>

record request =
  rq_method :: string
  rq_path :: string
  rq_signature_present :: bool
  rq_header :: "string \<Rightarrow> string option"
  rq_body :: "string option"

text \<open>The body as the hub buffers it: \<open>None\<close> when it cannot be read or is over the limit of 1 MiB.\<close>

definition buffered_body :: "request \<Rightarrow> string option" where
  "buffered_body q =
     (case rq_body q of None \<Rightarrow> None | Some b \<Rightarrow> if 1024 * 1024 < length b then None else Some b)"

type_synonym denial = "nat \<times> jv"

definition auth_error :: "nat \<Rightarrow> string \<Rightarrow> string \<Rightarrow> denial" where
  "auth_error status code message =
     (status, jobj [(''error'', jobj [(''code'', JStr code), (''message'', JStr message)])])"

definition role_policy_violation :: "string \<Rightarrow> string \<Rightarrow> string list \<Rightarrow> string list \<Rightarrow> denial" where
  "role_policy_violation meth path required granted =
     (403, jobj [(''error'', jobj [(''code'', JStr ''RolePolicyViolation''),
        (''message'', JStr ''the bearer token role does not authorize this operation''),
        (''method'', JStr meth), (''path'', JStr path),
        (''required_roles'', jstrs required), (''granted_roles'', jstrs granted)])])"

definition audit_denial :: "hub \<Rightarrow> string \<Rightarrow> string \<Rightarrow> string \<Rightarrow> auth_context option \<Rightarrow> int \<Rightarrow> ('e, unit) handler" where
  "audit_denial h kind meth path actor clock =
     ignoring (audit_append h kind None
       (jobj [(''method'', JStr meth), (''path'', JStr path),
              (''subject'', jopt (\<lambda>a. JStr (subject a)) actor), (''actor'', jopt attribution actor)]) clock)"

definition denied_with :: "hub \<Rightarrow> string \<Rightarrow> request \<Rightarrow> auth_context option \<Rightarrow> int \<Rightarrow> denial \<Rightarrow> (denial, 'a) handler" where
  "denied_with h kind q actor clock e =
     hbind (audit_denial h kind (rq_method q) (rq_path q) actor clock) (\<lambda>_. hfail e)"

definition identify_signed :: "hub \<Rightarrow> (nat \<Rightarrow> int) \<Rightarrow> request \<Rightarrow> (denial, auth_context) handler" where
  "identify_signed h clk q =
     (case parse_signed_request_headers (rq_header q) of
        None \<Rightarrow> denied_with h ''auth.signed_session_denied'' q None (clk 4)
          (auth_error 401 ''AuthenticationRequired'' ''the signed-session headers are missing or malformed'')
      | Some sh \<Rightarrow>
          (case buffered_body q of
             None \<Rightarrow> hfail (auth_error 413 ''RequestBodyTooLarge''
               ''the request body exceeded the signed-request size limit'')
           | Some body \<Rightarrow>
               hbind (resolve_signed_session h clk sh (rq_method q) (rq_path q) body) (\<lambda>r.
               case r of
                 Authenticated ctx \<Rightarrow> hret ctx
               | Rejected status code message \<Rightarrow>
                   denied_with h ''auth.signed_session_denied'' q None (clk 4) (auth_error status code message)
               | NotASession \<Rightarrow> hfail (auth_error 401 ''SessionExpired'' ''the session has expired''))))"

definition identify_token :: "hub \<Rightarrow> (nat \<Rightarrow> int) \<Rightarrow> request \<Rightarrow> string \<Rightarrow> (denial, auth_context) handler" where
  "identify_token h clk q presented =
     (if constant_time_eq presented (hub_token h) then hret legacy_context
      else
        hbind (attempt (role_token_by_hash (hash_secret h presented))) (\<lambda>found.
        case found of
          Inr (Some row) \<Rightarrow> hret (from_role_token row)
        | Inr None \<Rightarrow> denied_with h ''auth.invalid_bearer_denied'' q None (clk 4)
            (auth_error 403 ''InvalidBearer'' ''the bearer token is invalid or revoked'')
        | Inl _ \<Rightarrow> hfail (auth_error 503 ''AuthStoreUnavailable''
            ''role-token authorization is temporarily unavailable'')))"

definition identify_bearer :: "hub \<Rightarrow> (nat \<Rightarrow> int) \<Rightarrow> request \<Rightarrow> (denial, auth_context) handler" where
  "identify_bearer h clk q =
     (case bearer_value (rq_header q ''authorization'') of
        None \<Rightarrow> denied_with h ''auth.missing_bearer_denied'' q None (clk 4)
          (auth_error 401 ''AuthenticationRequired'' ''a bearer token is required'')
      | Some presented \<Rightarrow>
          hbind (resolve_human_session h presented (clk 3)) (\<lambda>r.
          case r of
            Authenticated ctx \<Rightarrow> hret ctx
          | Rejected status code message \<Rightarrow>
              denied_with h ''auth.human_session_denied'' q None (clk 4) (auth_error status code message)
          | NotASession \<Rightarrow> identify_token h clk q presented))"

definition identify :: "hub \<Rightarrow> (nat \<Rightarrow> int) \<Rightarrow> request \<Rightarrow> (denial, auth_context) handler" where
  "identify h clk q = (if rq_signature_present q then identify_signed h clk q else identify_bearer h clk q)"

definition role_denial_event :: "auth_context \<Rightarrow> request \<Rightarrow> jv" where
  "role_denial_event ctx q =
     jobj [(''subject'', JStr (subject ctx)), (''roles'', jstrs (roles ctx)),
           (''method'', JStr (rq_method q)), (''path'', JStr (rq_path q)),
           (''required_roles'', jstrs (required_roles (rq_method q) (rq_path q))),
           (''actor'', attribution ctx)]"

text \<open>
  The whole layer: an identity that passes is handed to the route, with the flag of the legacy warning.
\<close>

definition require_bearer :: "hub \<Rightarrow> (nat \<Rightarrow> int) \<Rightarrow> request \<Rightarrow> (denial, auth_context \<times> bool) handler" where
  "require_bearer h clk q =
     hbind (identify h clk q) (\<lambda>ctx.
     case admit ctx (rq_method q) (rq_path q) (utc_now (clk 5)) (step_up_freshness_minutes h) of
       RoleDenied \<Rightarrow>
         hbind (ignoring (audit_append h ''auth.role_denied'' None (role_denial_event ctx q) (clk 6))) (\<lambda>_.
         hfail (role_policy_violation (rq_method q) (rq_path q)
           (required_roles (rq_method q) (rq_path q)) (roles ctx)))
     | StepUpDenied \<Rightarrow>
         denied_with h ''auth.step_up_denied'' q (Some ctx) (clk 6)
           (auth_error 403 ''StepUpRequired''
             ''a fresh high-assurance authentication (step-up) is required for this operation'')
     | Admitted legacy \<Rightarrow> hret (ctx, legacy))"

section \<open>What the layer keeps\<close>

lemma keeps_outcome_of [keeps_intros]: "keeps P m \<Longrightarrow> keeps P (outcome_of m)"
  unfolding outcome_of_def [abs_def] by (rule keeps_map)

text \<open>
  \<open>m\<close> keeps \<open>P\<close> wherever the other clients do, and what it returns satisfies \<open>Q\<close>.
\<close>

definition ensures :: "(db \<Rightarrow> bool) \<Rightarrow> ('a \<Rightarrow> bool) \<Rightarrow> (world \<Rightarrow> ('e, 'a) res \<times> world) \<Rightarrow> bool" where
  "ensures P Q m \<longleftrightarrow>
     (\<forall>w r w'. P (db w) \<longrightarrow> env_keeps P w \<longrightarrow> m w = (r, w') \<longrightarrow>
        P (db w') \<and> env_keeps P w' \<and> (\<forall>x. r = Inr x \<longrightarrow> Q x))"

named_theorems ensures_intros "rules for what a handler returns while an invariant is kept"

lemma ensuresD:
  "ensures P Q m \<Longrightarrow> P (db w) \<Longrightarrow> env_keeps P w \<Longrightarrow> m w = (r, w') \<Longrightarrow>
     P (db w') \<and> env_keeps P w' \<and> (\<forall>x. r = Inr x \<longrightarrow> Q x)"
  unfolding ensures_def by blast

lemma ensures_keeps: "keeps P m \<Longrightarrow> ensures P (\<lambda>_. True) m"
  unfolding ensures_def by (blast dest: keepsD)

lemma ensures_weaken: "ensures P R m \<Longrightarrow> (\<And>x. R x \<Longrightarrow> Q x) \<Longrightarrow> ensures P Q m"
  unfolding ensures_def by blast

lemma ensures_hret [ensures_intros]: "Q x \<Longrightarrow> ensures P Q (hret x)"
  by (simp add: ensures_def)

lemma ensures_hfail [ensures_intros]: "ensures P Q (hfail e)"
  by (simp add: ensures_def)

lemma ensures_hbind:
  assumes "ensures P R m" "\<And>x. R x \<Longrightarrow> ensures P Q (f x)"
  shows "ensures P Q (hbind m f)"
  unfolding ensures_def
proof (intro allI impI)
  fix w r w'
  assume a: "P (db w)" "env_keeps P w" "hbind m f w = (r, w')"
  obtain y w1 where m: "m w = (y, w1)" by fastforce
  note w1 = ensuresD [OF assms(1) a(1,2) m]
  show "P (db w') \<and> env_keeps P w' \<and> (\<forall>x. r = Inr x \<longrightarrow> Q x)"
  proof (cases y)
    case (Inl e)
    then show ?thesis using a(3) m w1 by (auto simp: hbind_def)
  next
    case (Inr x)
    have "f x w1 = (r, w')" using a(3) m Inr by (simp add: hbind_def)
    then show ?thesis using ensuresD [OF assms(2) [of x]] w1 Inr by blast
  qed
qed

lemma ensures_after: "keeps P m \<Longrightarrow> (\<And>x. ensures P Q (f x)) \<Longrightarrow> ensures P Q (hbind m f)"
  by (rule ensures_hbind [OF ensures_keeps])

lemma ensures_outcome_of:
  assumes "ensures P Q m"
  shows "ensures P (\<lambda>r. \<forall>x. r = Inr x \<longrightarrow> Q x) (outcome_of m)"
  unfolding ensures_def
proof (intro allI impI)
  fix w r w'
  assume a: "P (db w)" "env_keeps P w" "outcome_of m w = (r, w')"
  obtain y where y: "m w = (y, w')" "r = Inr y" using a(3) by (cases "m w") (simp add: outcome_of_def)
  show "P (db w') \<and> env_keeps P w' \<and> (\<forall>x. r = Inr x \<longrightarrow> (\<forall>z. x = Inr z \<longrightarrow> Q z))"
    using ensuresD [OF assms a(1,2) y(1)] y(2) by simp
qed

text \<open>A property of the people tables alone.\<close>

lemma holds_blind: "audit_blind (holds P)"
  by (simp add: audit_blind_def)

lemma keeps_denied_with:
  "audit_blind P \<Longrightarrow> keeps P (denied_with h kind q actor clock e)"
  unfolding denied_with_def audit_denial_def by (intro keeps_intros keeps_audit_append)

lemma ensures_denied_with: "audit_blind P \<Longrightarrow> ensures P Q (denied_with h kind q actor clock e)"
  unfolding denied_with_def audit_denial_def
  by (intro ensures_after ensures_intros keeps_intros keeps_audit_append)

lemma keeps_authenticate_validated [keeps_intros]:
  "keeps P (authenticate_validated_session s clock)"
  unfolding authenticate_validated_session_def Let_def list_memberships_def get_account_def one_row_def people_read_def
  by (intro keeps_intros keeps_query_rq)

lemma keeps_resolve_human [keeps_intros]: "keeps P (resolve_human_session h presented clock)"
  unfolding resolve_human_session_def validate_by_access_hash_def one_row_def people_read_def
  by (intro keeps_intros keeps_query_rq) (simp split: accounts_error.split add: keeps_hret)

section \<open>A locked account is admitted nowhere\<close>

definition locked_out :: "string \<Rightarrow> humans \<Rightarrow> bool" where
  "locked_out i p \<longleftrightarrow> (\<forall>a \<in> set (accounts p). ac_account_id a = i \<longrightarrow> ac_status a \<noteq> ActiveAccount)"

definition foreign :: "string \<Rightarrow> auth_context \<Rightarrow> bool" where
  "foreign i ctx \<longleftrightarrow> human_principal ctx \<noteq> Some i"

lemma ensures_people_read:
  assumes "\<And>p. P p \<Longrightarrow> Q (f p)"
  shows "ensures (holds P) Q (people_read f)"
  unfolding ensures_def
proof (intro allI impI)
  fix w r w'
  assume a: "P (people (db w))" "env_keeps (holds P) w" "people_read f w = (r, w')"
  obtain x w1 where n: "next_turn w = (x, w1)" by fastforce
  note w1 = next_turn_keeps [of "holds P", OF a(1,2) n]
  show "P (people (db w')) \<and> env_keeps (holds P) w' \<and> (\<forall>y. r = Inr y \<longrightarrow> Q y)"
    using a(3) n w1 assms
    by (cases x) (auto simp: people_read_def call_def query_rq_def statement_def)
qed

lemma ensures_get_account:
  "ensures (holds (locked_out i)) (\<lambda>a. ac_account_id a = i \<longrightarrow> ac_status a \<noteq> ActiveAccount) (get_account j)"
  unfolding get_account_def one_row_def
proof (rule ensures_hbind)
  show "ensures (holds (locked_out i))
      (\<lambda>r. \<forall>a. r = Some a \<longrightarrow> ac_account_id a = i \<longrightarrow> ac_status a \<noteq> ActiveAccount) (people_read (find_account j))"
    by (rule ensures_people_read) (auto simp: locked_out_def find_account_def find_Some_iff)
qed (auto split: option.split intro: ensures_intros)

definition no_entry :: "string \<Rightarrow> session_outcome \<Rightarrow> bool" where
  "no_entry i r \<longleftrightarrow> (\<forall>ctx. r = Authenticated ctx \<longrightarrow> foreign i ctx)"

lemma no_entry_simps [simp]:
  "no_entry i NotASession" "no_entry i (Rejected status code message)" "no_entry i session_over"
  "no_entry i session_store_down"
  by (simp_all add: no_entry_def session_over_def session_store_down_def)

lemma ensures_validated: "ensures (holds (locked_out i)) (no_entry i) (authenticate_validated_session s clock)"
proof -
  let ?P = "holds (locked_out i)"
  have entry: "ensures ?P (no_entry i) (hbind (outcome_of (list_memberships (ac_account_id a))) (\<lambda>listed.
      case listed of Inl _ \<Rightarrow> hret session_store_down
      | Inr ms \<Rightarrow> hret (Authenticated (from_human_session (ac_account_id a) (live_roles ms) (hs_session_id s)
          (assurance_str (hs_assurance_level s)) (hs_step_up_at s)))))"
    if "ac_account_id a \<noteq> i" for a
    unfolding list_memberships_def people_read_def
    by (rule ensures_after, intro keeps_intros keeps_query_rq)
      (auto split: sum.split intro!: ensures_hret simp: no_entry_def foreign_def from_human_session_def session_store_down_def that)
  show ?thesis
    unfolding authenticate_validated_session_def Let_def
    by (auto split: sum.split intro!: ensures_hret ensures_hbind [OF ensures_outcome_of [OF ensures_get_account]] entry
        simp: may_authenticate_normally_def)
qed

lemma ensures_resolve_human: "ensures (holds (locked_out i)) (no_entry i) (resolve_human_session h presented clock)"
  unfolding resolve_human_session_def
proof (rule ensures_after)
  show "keeps (holds (locked_out i)) (outcome_of (validate_by_access_hash (hash_secret h presented)))"
    unfolding validate_by_access_hash_def one_row_def people_read_def by (intro keeps_intros keeps_query_rq)
  show "ensures (holds (locked_out i)) (no_entry i) (case found of
      Inr s \<Rightarrow> authenticate_validated_session s clock | Inl SessionExpired \<Rightarrow> hret NotASession
    | Inl _ \<Rightarrow> hret session_store_down)" for found
    by (auto split: sum.split accounts_error.split intro: ensures_validated ensures_hret)
qed

lemma keeps_session_nonce: "keeps (holds P) (consume_session_nonce clock holder nonce now)"
  unfolding consume_session_nonce_def
  by (intro keeps_catch_rq keeps_update_rq keeps_statement keeps_case_sum keeps_ret keeps_fail)
    (auto simp: prune_stmt_def insert_nonce_def split: if_splits)

lemma keeps_get_session: "keeps P (get_session i)"
  unfolding get_session_def session_row_def one_row_def people_read_def by (intro keeps_intros keeps_query_rq)

lemma signed_refusal_rejects: "signed_refusal h sh meth path body s = Some r \<Longrightarrow> \<exists>status code message. r = Rejected status code message"
  by (auto simp: signed_refusal_def split: option.splits if_splits)

lemma ensures_resolve_signed:
  "ensures (holds (locked_out i)) (no_entry i) (resolve_signed_session h clk sh meth path body)"
  unfolding resolve_signed_session_def accept_signed_def
  by (auto split: sum.split option.split dest!: signed_refusal_rejects
      intro!: ensures_hret ensures_validated ensures_after keeps_intros keeps_get_session keeps_session_nonce)

lemma ensures_case_outcome:
  assumes "no_entry i r" "\<And>status code message. ensures P (foreign i) (f status code message)" "ensures P (foreign i) g"
  shows "ensures P (foreign i) (case r of Authenticated ctx \<Rightarrow> hret ctx | Rejected s c m \<Rightarrow> f s c m | NotASession \<Rightarrow> g)"
  using assms by (cases r) (auto simp: no_entry_def intro: ensures_hret)

lemma keeps_role_token: "keeps P (role_token_by_hash hash)"
  unfolding role_token_by_hash_def by (intro keeps_intros)

lemma ensures_identify: "ensures (holds (locked_out i)) (foreign i) (identify h clk q)"
proof -
  let ?P = "holds (locked_out i)"
  have token: "ensures ?P (foreign i) (identify_token h clk q presented)" for presented
    unfolding identify_token_def
    by (auto split: sum.split option.split simp: foreign_def legacy_context_def from_role_token_def
        intro!: ensures_hret ensures_hfail ensures_after keeps_intros keeps_role_token ensures_denied_with holds_blind)
  have "ensures ?P (foreign i) (identify_bearer h clk q)"
    unfolding identify_bearer_def
    by (auto split: option.split intro!: ensures_denied_with holds_blind token
        ensures_hbind [OF ensures_resolve_human] ensures_case_outcome)
  moreover have "ensures ?P (foreign i) (identify_signed h clk q)"
    unfolding identify_signed_def
    by (auto split: option.split intro!: ensures_denied_with holds_blind ensures_hfail
        ensures_hbind [OF ensures_resolve_signed] ensures_case_outcome)
  ultimately show ?thesis by (simp add: identify_def)
qed

lemma ensures_require_bearer:
  "ensures (holds (locked_out i)) (\<lambda>(ctx, legacy). foreign i ctx) (require_bearer h clk q)"
  unfolding require_bearer_def
  by (auto split: verdict.split intro!: ensures_hret ensures_hfail ensures_denied_with holds_blind
      ensures_hbind [OF ensures_identify] ensures_after keeps_intros keeps_audit_append)

lemma disable_stmt_locks:
  assumes "placed p" "fst (disable_stmt i revision now p) = 1"
  shows "locked_out i (snd (disable_stmt i revision now p))"
proof -
  let ?P = "\<lambda>a. ac_account_id a = i \<and> ac_revision a = revision \<and> admin_guard p a"
  let ?f = "\<lambda>a. a\<lparr>ac_status := Disabled, ac_updated_at := now, ac_revision := ac_revision a + 1\<rparr>"
  have "affected ?P (accounts p) \<noteq> 0" using assms(2) by (simp add: disable_stmt_def edit_accounts_def)
  then obtain a where a: "a \<in> set (accounts p)" "?P a" unfolding affected_0_iff by blast
  have only: "b = a" if "b \<in> set (accounts p)" "ac_account_id b = i" for b
    using distinct_keyD [of ac_account_id "accounts p" b a] assms(1) a that by (simp add: placed_def)
  have "ac_status b \<noteq> ActiveAccount" if "b \<in> set (update_where ?P ?f (accounts p))" "ac_account_id b = i" for b
  proof -
    from that(1) obtain c where c: "c \<in> set (accounts p)" "b = (if ?P c then ?f c else c)"
      by (auto simp: update_where_def)
    show ?thesis
    proof (cases "?P c")
      case False
      then have b: "b = c" using c(2) by (simp only: if_False)
      then show ?thesis using only [OF c(1)] False a(2) that(2) by blast
    qed (simp add: c(2))
  qed
  then show ?thesis by (simp add: locked_out_def disable_stmt_def edit_accounts_def)
qed

lemma disable_locks_out:
  assumes "env_keeps (holds placed) w" "env_keeps (holds (locked_out i)) w" "placed (people (db w))"
    and run: "disable_account_protecting_last_admin i revision now w = (Inr a, w1)"
  shows "locked_out i (people (db w1))" "env_keeps (holds (locked_out i)) w1"
proof -
  obtain n w2 where e: "people_edit (disable_stmt i revision now) w = (Inr n, w2)"
    and rest: "(if n \<noteq> 1 then diagnose_blocked_write i revision
      else hbind (revoke_all_for_account i ''account_disabled'' now) (\<lambda>_. get_account i)) w2 = (Inr a, w1)"
    using run unfolding disable_account_protecting_last_admin_def by (elim hbind_InrE)
  have n: "n = 1"
    using rest by (auto simp: diagnose_blocked_write_def split: if_splits elim!: hbind_InrE)
  obtain wt where t: "next_turn w = (Answered, wt)" "n = fst (disable_stmt i revision now (people (db wt)))"
    "w2 = wt\<lparr>db := (db wt)\<lparr>people := snd (disable_stmt i revision now (people (db wt)))\<rparr>\<rparr>"
    using e by (elim people_edit_InrE)
  have "placed (people (db wt))" using next_turn_keeps [of "holds placed", OF assms(3,1) t(1)] by blast
  then have l: "locked_out i (people (db w2))" using disable_stmt_locks n t(2,3) by simp
  have "set (script w2) \<subseteq> set (script w)"
    using keeps_script [OF keeps_people_edit [of "\<lambda>_. True"] e] by simp
  then have e2: "env_keeps (holds (locked_out i)) w2" by (rule env_keeps_subset [OF assms(2)])
  have k: "keeps (holds (locked_out i)) (hbind (revoke_all_for_account i ''account_disabled'' now) (\<lambda>_. get_account i))"
    unfolding revoke_all_for_account_def get_account_def one_row_def people_read_def
    by (intro keeps_intros keeps_people_edit keeps_query_rq)
      (simp_all add: revoke_all_stmt_def edit_sessions_def locked_out_def)
  from rest n have r: "hbind (revoke_all_for_account i ''account_disabled'' now) (\<lambda>_. get_account i) w2 = (Inr a, w1)"
    by simp
  show "locked_out i (people (db w1))" "env_keeps (holds (locked_out i)) w1"
    using keepsD [where P = "holds (locked_out i)", OF k l e2 r] by simp_all
qed

text \<open>
  C38. Once an account was disabled, no request is admitted in its name, whatever credential the request
  carries (an access secret or a session key issued before, a role token, the cluster bearer), whatever
  fails, and whatever other clients do that does not make the account active again.
\<close>

theorem disabled_account_admitted_nowhere:
  assumes "env_keeps (holds placed) w" "env_keeps (holds (locked_out i)) w" "placed (people (db w))"
    and "disable_account_protecting_last_admin i revision now w = (Inr a, w1)"
    and "require_bearer h clk q w1 = (Inr (ctx, legacy), w2)"
  shows "human_principal ctx \<noteq> Some i"
proof -
  note l = disable_locks_out [OF assms(1-4)]
  from ensuresD [OF ensures_require_bearer l assms(5)] show ?thesis by (simp add: foreign_def)
qed

text \<open>A hub whose hash is the identity, for the examples: secrets are their own hashes.\<close>

definition clear_hub :: hub where
  "clear_hub = toy_hub\<lparr>hub_crypto := toy_crypto\<lparr>sha256 := id\<rparr>\<rparr>"

definition demo_request :: "string \<Rightarrow> request" where
  "demo_request presented =
     \<lparr>rq_method = ''GET'', rq_path = ''/settings'', rq_signature_present = False,
      rq_header = (\<lambda>n. if n = ''authorization'' then Some (''Bearer '' @ presented) else None), rq_body = Some []\<rparr>"

definition demo_seat :: "string \<Rightarrow> string \<Rightarrow> session" where
  "demo_seat i owner = (demo_session i (''key-'' @ i) ''z'')\<lparr>hs_account_id := owner\<rparr>"

definition seated :: humans where
  "seated = demo_staff\<lparr>sessions := [demo_seat ''s1'' ''ada'', demo_seat ''s2'' ''bob'']\<rparr>"

definition seated_world :: world where
  "seated_world = calm (empty_db\<lparr>people := seated\<rparr>)"

definition disabled_world :: world where
  "disabled_world = snd (disable_account_protecting_last_admin ''ada'' 0 ''v'' seated_world)"

lemma seated_placed: "placed (people (db seated_world))"
  using staff_world_ok(2) by (simp add: seated_world_def seated_def placed_def)

lemma bearer_text:
  assumes "p \<noteq> []" "ascii_char (hd p)" "\<not> ascii_space (hd p)" "ascii_char (last p)" "\<not> ascii_space (last p)"
  shows "bearer_value (Some (''Bearer '' @ p)) = Some p"
proof -
  have "trim (''Bearer '' @ p) = ''Bearer '' @ p" using assms by (intro trim_ends) (simp_all add: ascii_char_def)
  moreover have "trim p = p" by (rule trim_ends [OF assms])
  moreover have "split_once '' '' (''Bearer '' @ p) = Some (''Bearer'', p)" by (simp add: split_once_def)
  moreover have "eq_ignore_ascii_case ''Bearer'' ''bearer''" by code_simp
  ultimately show ?thesis using assms(1) by (simp only: bearer_value_def option.case prod.case) simp
qed

lemma now_text: "utc_now 2000 = ''1970-01-01 00:33:20''"
  by code_simp

lemma session_admitted:
  assumes "live_by_access (hash_secret h presented) (people d) = Some s"
    and "\<not> hs_idle_expires_at s < utc_now clock" "\<not> hs_absolute_expires_at s < utc_now clock"
    and "find_account (hs_account_id s) (people d) = Some a" "ac_status a = ActiveAccount"
  shows "resolve_human_session h presented clock (calm d) =
    (Inr (Authenticated (from_human_session (ac_account_id a) (live_roles (memberships_of (ac_account_id a) (people d)))
       (hs_session_id s) (assurance_str (hs_assurance_level s)) (hs_step_up_at s))), calm d)"
  using assms
  by (simp add: resolve_human_session_def authenticate_validated_session_def validate_by_access_hash_def get_account_def
      list_memberships_def outcome_of_def one_row_def hbind_def hret_def calm_simps may_authenticate_normally_def Let_def)

definition disabled_people :: humans where
  "disabled_people = snd (revoke_all_stmt ''ada'' ''account_disabled'' ''v'' (snd (disable_stmt ''ada'' 0 ''v'' seated)))"

lemma disabled_run:
  "disable_account_protecting_last_admin ''ada'' 0 ''v'' seated_world =
     (Inr (the (find_account ''ada'' disabled_people)), disabled_world)"
  "disabled_world = calm (empty_db\<lparr>people := disabled_people\<rparr>)"
proof -
  have n: "fst (disable_stmt ''ada'' 0 ''v'' seated) = 1" by code_simp
  have f: "find_account ''ada'' disabled_people \<noteq> None" by code_simp
  have "disable_account_protecting_last_admin ''ada'' 0 ''v'' seated_world =
      (Inr (the (find_account ''ada'' disabled_people)), calm (empty_db\<lparr>people := disabled_people\<rparr>))"
    using f n by (auto simp: disable_account_protecting_last_admin_def revoke_all_for_account_def get_account_def one_row_def
        hbind_def hret_def calm_simps seated_world_def disabled_people_def empty_db_def split: prod.splits)
  then show "disable_account_protecting_last_admin ''ada'' 0 ''v'' seated_world =
      (Inr (the (find_account ''ada'' disabled_people)), disabled_world)"
    "disabled_world = calm (empty_db\<lparr>people := disabled_people\<rparr>)"
    by (simp_all add: disabled_world_def)
qed

lemma bob_resolved:
  "resolve_human_session clear_hub ''key-s2'' 2000 disabled_world =
     (Inr (Authenticated (from_human_session ''bob'' [''admin''] ''s2'' ''aal1'' None)), disabled_world)"
proof -
  let ?d = "empty_db\<lparr>people := disabled_people\<rparr>"
  have key: "hash_secret clear_hub ''key-s2'' = ''key-s2''"
    by (simp add: hash_secret_def clear_hub_def toy_crypto_def)
  have "live_by_access ''key-s2'' disabled_people = Some (demo_seat ''s2'' ''bob'')"
    "find_account ''bob'' disabled_people = Some (demo_admin ''bob'')"
    "live_roles (memberships_of ''bob'' disabled_people) = [''admin'']"
    by code_simp+
  moreover have "\<not> hs_idle_expires_at (demo_seat ''s2'' ''bob'') < utc_now 2000"
    "\<not> hs_absolute_expires_at (demo_seat ''s2'' ''bob'') < utc_now 2000"
    unfolding now_text by code_simp+
  ultimately show ?thesis
    using session_admitted [of clear_hub "''key-s2''" ?d "demo_seat ''s2'' ''bob''" 2000 "demo_admin ''bob''"]
    by (simp add: key disabled_run(2) demo_seat_def demo_session_def demo_admin_def new_account_def)
qed

lemma bob_admitted:
  "fst (require_bearer clear_hub (\<lambda>_. 2000) (demo_request ''key-s2'') disabled_world)
     = Inr (from_human_session ''bob'' [''admin''] ''s2'' ''aal1'' None, False)"
proof -
  let ?ctx = "from_human_session ''bob'' [''admin''] ''s2'' ''aal1'' None"
  have b: "bearer_value (rq_header (demo_request ''key-s2'') ''authorization'') = Some ''key-s2''"
    using bearer_text [of "''key-s2''"] by (simp add: demo_request_def ascii_char_def)
  have "identify clear_hub (\<lambda>_. 2000) (demo_request ''key-s2'') disabled_world = (Inr ?ctx, disabled_world)"
    by (simp add: identify_def identify_bearer_def b hbind_def bob_resolved hret_def) (simp add: demo_request_def)
  moreover have "admit ?ctx ''GET'' ''/settings'' now fresh = Admitted False" for now fresh
    by (simp add: admit_def from_human_session_def requires_step_up_def is_authorized_def) code_simp
  ultimately show ?thesis
    by (simp add: require_bearer_def hbind_def demo_request_def hret_def)
qed

lemma disabled_account_admitted_nowhere_witness:
  "fst (require_bearer clear_hub (\<lambda>_. 2000) (demo_request ''key-s2'') disabled_world)
     = Inr (from_human_session ''bob'' [''admin''] ''s2'' ''aal1'' None, False)
   \<and> human_principal (from_human_session ''bob'' [''admin''] ''s2'' ''aal1'' None) \<noteq> Some ''ada''"
proof -
  let ?ctx = "from_human_session ''bob'' [''admin''] ''s2'' ''aal1'' None"
  have "require_bearer clear_hub (\<lambda>_. 2000) (demo_request ''key-s2'') disabled_world
      = (Inr (?ctx, False), snd (require_bearer clear_hub (\<lambda>_. 2000) (demo_request ''key-s2'') disabled_world))"
    using bob_admitted by (simp add: prod_eq_iff)
  from disabled_account_admitted_nowhere [OF _ _ seated_placed disabled_run(1) this] bob_admitted show ?thesis
    by (simp add: seated_world_def)
qed

section \<open>A session is never taken for automation\<close>

definition held_by_session :: "hub \<Rightarrow> string \<Rightarrow> humans \<Rightarrow> bool" where
  "held_by_session h presented p \<longleftrightarrow> live_by_access (hash_secret h presented) p \<noteq> None"

lemma validate_finds:
  assumes "held_by_session h presented (people (db w))" "env_keeps (holds (held_by_session h presented)) w"
    and "validate_by_access_hash (hash_secret h presented) w = (r, w')"
  shows "r \<noteq> Inl SessionExpired"
proof -
  obtain x w1 where n: "next_turn w = (x, w1)" by fastforce
  note w1 = next_turn_keeps [of "holds (held_by_session h presented)", OF assms(1,2) n]
  show ?thesis
    using assms(3) n w1
    by (cases x) (auto simp: validate_by_access_hash_def one_row_def people_read_def hbind_def call_def query_rq_def
        statement_def unavailable_def held_by_session_def)
qed

definition human_outcome :: "session_outcome \<Rightarrow> bool" where
  "human_outcome r \<longleftrightarrow> r \<noteq> NotASession \<and> (\<forall>ctx. r = Authenticated ctx \<longrightarrow> human_principal ctx \<noteq> None \<and> \<not> legacy_compat ctx)"

lemma ensures_resolve_held:
  "ensures (holds (held_by_session h presented)) human_outcome (resolve_human_session h presented clock)"
proof -
  let ?P = "holds (held_by_session h presented)"
  have entry: "ensures ?P human_outcome (authenticate_validated_session s clock)" for s
    unfolding authenticate_validated_session_def Let_def get_account_def one_row_def list_memberships_def people_read_def
    by (auto split: sum.split simp: human_outcome_def session_over_def session_store_down_def from_human_session_def
        intro!: ensures_hret ensures_after keeps_intros keeps_query_rq)
  have "ensures ?P (\<lambda>r. r \<noteq> Inl SessionExpired) (outcome_of (validate_by_access_hash (hash_secret h presented)))"
    unfolding ensures_def
  proof (intro allI impI)
    fix w r w'
    assume a: "?P (db w)" "env_keeps ?P w" "outcome_of (validate_by_access_hash (hash_secret h presented)) w = (r, w')"
    obtain y where y: "validate_by_access_hash (hash_secret h presented) w = (y, w')" "r = Inr y"
      using a(3) by (cases "validate_by_access_hash (hash_secret h presented) w") (simp add: outcome_of_def)
    have "keeps ?P (validate_by_access_hash (hash_secret h presented))"
      unfolding validate_by_access_hash_def one_row_def people_read_def by (intro keeps_intros keeps_query_rq)
    from keepsD [where P = ?P, OF this a(1,2) y(1)] validate_finds [OF a(1,2) y(1)] y(2)
    show "?P (db w') \<and> env_keeps ?P w' \<and> (\<forall>x. r = Inr x \<longrightarrow> x \<noteq> Inl SessionExpired)" by simp
  qed
  then show ?thesis
    unfolding resolve_human_session_def
    by (rule ensures_hbind) (auto split: sum.split accounts_error.split simp: human_outcome_def session_store_down_def
        intro!: entry ensures_hret)
qed

text \<open>
  C39. A bearer that is the access secret of a live session is never taken for an automation credential,
  even when the same text is also the cluster bearer or a role token: the request is admitted as the
  person of a session or denied, whatever fails, as long as other clients keep the session live.
\<close>

theorem session_bearer_never_automation:
  assumes "\<not> rq_signature_present q" "bearer_value (rq_header q ''authorization'') = Some presented"
    and "held_by_session h presented (people (db w))" "env_keeps (holds (held_by_session h presented)) w"
    and "require_bearer h clk q w = (Inr (ctx, legacy), w')"
  shows "human_principal ctx \<noteq> None \<and> \<not> legacy"
proof -
  let ?P = "holds (held_by_session h presented)"
  have identity: "ensures ?P (\<lambda>ctx. human_principal ctx \<noteq> None \<and> \<not> legacy_compat ctx) (identify h clk q)"
    using assms(1,2) unfolding identify_def identify_bearer_def
    by (auto intro!: ensures_hbind [OF ensures_resolve_held] ensures_hret ensures_denied_with holds_blind
        split: session_outcome.split simp: human_outcome_def)
  have "ensures ?P (\<lambda>(ctx, legacy). human_principal ctx \<noteq> None \<and> \<not> legacy) (require_bearer h clk q)"
    unfolding require_bearer_def
    by (auto split: verdict.split intro!: ensures_hret ensures_hfail ensures_denied_with holds_blind
        ensures_hbind [OF identity] ensures_after keeps_intros keeps_audit_append simp: admit_def split: if_splits)
  from ensuresD [OF this assms(3-5)] show ?thesis by simp
qed

definition shared_secret_db :: db where
  "shared_secret_db = empty_db\<lparr>people := demo_staff\<lparr>sessions := [(demo_session ''s3'' ''cluster'' ''z'')\<lparr>hs_account_id := ''bob''\<rparr>]\<rparr>\<rparr>"

lemma shared_secret_resolved:
  "live_by_access ''cluster'' (people shared_secret_db) = Some ((demo_session ''s3'' ''cluster'' ''z'')\<lparr>hs_account_id := ''bob''\<rparr>)"
  "resolve_human_session clear_hub ''cluster'' 2000 (calm shared_secret_db) =
     (Inr (Authenticated (from_human_session ''bob'' [''admin''] ''s3'' ''aal1'' None)), calm shared_secret_db)"
proof -
  let ?s = "(demo_session ''s3'' ''cluster'' ''z'')\<lparr>hs_account_id := ''bob''\<rparr>"
  have key: "hash_secret clear_hub ''cluster'' = ''cluster''"
    by (simp add: hash_secret_def clear_hub_def toy_crypto_def)
  show live: "live_by_access ''cluster'' (people shared_secret_db) = Some ?s" by code_simp
  have "find_account ''bob'' (people shared_secret_db) = Some (demo_admin ''bob'')"
    "live_roles (memberships_of ''bob'' (people shared_secret_db)) = [''admin'']"
    by code_simp+
  moreover have "\<not> ''u'' < utc_now 2000" unfolding now_text by code_simp
  ultimately show "resolve_human_session clear_hub ''cluster'' 2000 (calm shared_secret_db) =
     (Inr (Authenticated (from_human_session ''bob'' [''admin''] ''s3'' ''aal1'' None)), calm shared_secret_db)"
    using session_admitted [of clear_hub "''cluster''" shared_secret_db ?s 2000 "demo_admin ''bob''"] live
    by (simp add: key demo_session_def demo_admin_def new_account_def)
qed

lemma session_bearer_never_automation_witness:
  "\<exists>ctx legacy w'. require_bearer clear_hub (\<lambda>_. 2000) (demo_request (hub_token clear_hub)) (calm shared_secret_db) = (Inr (ctx, legacy), w')
     \<and> human_principal ctx \<noteq> None \<and> \<not> legacy"
proof -
  let ?ctx = "from_human_session ''bob'' [''admin''] ''s3'' ''aal1'' None"
  have t: "hub_token clear_hub = ''cluster''" by (simp add: clear_hub_def toy_hub_def)
  have b: "bearer_value (rq_header (demo_request ''cluster'') ''authorization'') = Some ''cluster''"
    using bearer_text [of "''cluster''"] by (simp add: demo_request_def ascii_char_def)
  have s: "\<not> rq_signature_present (demo_request ''cluster'')" by (simp add: demo_request_def)
  have held: "held_by_session clear_hub ''cluster'' (people (db (calm shared_secret_db)))"
    by (simp add: held_by_session_def hash_secret_def clear_hub_def toy_crypto_def shared_secret_resolved(1))
  have "identify clear_hub (\<lambda>_. 2000) (demo_request ''cluster'') (calm shared_secret_db) = (Inr ?ctx, calm shared_secret_db)"
    by (simp add: identify_def identify_bearer_def b s hbind_def shared_secret_resolved(2) hret_def)
  moreover have "admit ?ctx ''GET'' ''/settings'' now fresh = Admitted False" for now fresh
    by (simp add: admit_def from_human_session_def requires_step_up_def is_authorized_def) code_simp
  ultimately have r: "require_bearer clear_hub (\<lambda>_. 2000) (demo_request ''cluster'') (calm shared_secret_db)
      = (Inr (?ctx, False), calm shared_secret_db)"
    by (simp add: require_bearer_def hbind_def demo_request_def hret_def)
  from session_bearer_never_automation [OF s b held _ r] show ?thesis using r t by auto
qed

section \<open>A signed request is admitted once\<close>

lemma ensures_attempt_refused:
  assumes "\<not> u < prune_cutoff clock"
  shows "ensures (recorded SessionNonces holder nonce u) (\<lambda>r. \<exists>e. r = Inl e)
    (attempt (consume_session_nonce clock holder nonce now))"
  unfolding ensures_def
proof (intro allI impI)
  fix w r w'
  assume a: "recorded SessionNonces holder nonce u (db w)" "env_keeps (recorded SessionNonces holder nonce u) w"
    "attempt (consume_session_nonce clock holder nonce now) w = (r, w')"
  obtain y where y: "consume_session_nonce clock holder nonce now w = (y, w')" "r = Inr y"
    using a(3) by (cases "consume_session_nonce clock holder nonce now w") (simp add: attempt_def)
  note y' = y(1) [unfolded consume_session_nonce_eq]
  from keepsD [where P = "recorded SessionNonces holder nonce u", OF keeps_recorded_consume [OF assms] a(1,2) y']
    recorded_nonce_denied [OF a(1) assms a(2) y'] y(2)
  show "recorded SessionNonces holder nonce u (db w') \<and> env_keeps (recorded SessionNonces holder nonce u) w'
      \<and> (\<forall>x. r = Inr x \<longrightarrow> (\<exists>e. x = Inl e))" by auto
qed

lemma keeps_recorded_session_nonce:
  assumes "\<not> u < prune_cutoff clock"
  shows "keeps (recorded SessionNonces h n u) (consume_session_nonce clock h' n' now)"
  unfolding consume_session_nonce_eq by (rule keeps_recorded_consume [OF assms])

lemma recorded_sessions_blind: "audit_blind (recorded SessionNonces h n u)"
  by (simp add: audit_blind_def recorded_def)

lemma recorded_people: "recorded SessionNonces h n u (d\<lparr>people := p\<rparr>) \<longleftrightarrow> recorded SessionNonces h n u d"
  by (simp add: recorded_def)

text \<open>A signed request whose nonce is on record is denied.\<close>

lemma ensures_accept_replay:
  assumes "\<not> u < prune_cutoff (clk 1)"
  shows "ensures (recorded SessionNonces (sh_session_id sh) (sh_nonce sh) u) (\<lambda>r. \<forall>ctx. r \<noteq> Authenticated ctx)
    (accept_signed clk sh s)"
  unfolding accept_signed_def
  by (rule ensures_hbind [OF ensures_attempt_refused [OF assms]]) (auto intro: ensures_hret)

lemma ensures_replay_denied:
  assumes "\<not> u < prune_cutoff (clk 1)"
  shows "ensures (recorded SessionNonces (sh_session_id sh) (sh_nonce sh) u) (\<lambda>r. \<forall>ctx. r \<noteq> Authenticated ctx)
    (resolve_signed_session h clk sh meth path body)"
  unfolding resolve_signed_session_def
  by (auto split: sum.split option.split simp: session_over_def dest!: signed_refusal_rejects
      intro!: ensures_hret ensures_after [OF keeps_outcome_of [OF keeps_get_session]] ensures_accept_replay [of u clk, OF assms])

lemma keeps_recorded_accept:
  assumes "\<not> u < prune_cutoff (clk 1)"
  shows "keeps (recorded SessionNonces k n u) (accept_signed clk sh s)"
  unfolding accept_signed_def by (intro keeps_intros keeps_recorded_session_nonce assms)

lemma keeps_recorded_signed:
  assumes "\<not> u < prune_cutoff (clk 1)"
  shows "keeps (recorded SessionNonces k n u) (resolve_signed_session h clk sh meth path body)"
  unfolding resolve_signed_session_def
  by (auto split: sum.split option.split intro!: keeps_intros keeps_get_session keeps_recorded_accept [of u clk, OF assms])

definition signed_as :: "string \<times> string \<Rightarrow> request \<Rightarrow> request" where
  "signed_as k q = q\<lparr>rq_signature_present := True,
     rq_header := (rq_header q)(''x-forgewire-session'' := Some (fst k), ''x-forgewire-nonce'' := Some (snd k))\<rparr>"

lemma signed_as_headers:
  "parse_signed_request_headers (rq_header (signed_as k q)) = Some sh \<Longrightarrow> sh_session_id sh = fst k \<and> sh_nonce sh = snd k"
  by (auto simp: parse_signed_request_headers_def signed_as_def split: option.splits if_splits)

lemma keeps_recorded_request:
  assumes "\<not> u < prune_cutoff (clk 1)"
  shows "keeps (recorded SessionNonces k n u) (require_bearer h clk q)"
proof -
  let ?P = "recorded SessionNonces k n u"
  have "keeps ?P (identify_token h clk q presented)" for presented
    unfolding identify_token_def
    by (auto split: sum.split option.split intro!: keeps_intros keeps_role_token keeps_denied_with recorded_sessions_blind)
  then have "keeps ?P (identify h clk q)"
    unfolding identify_def identify_signed_def identify_bearer_def
    by (auto split: option.split session_outcome.split
        intro!: keeps_intros keeps_denied_with recorded_sessions_blind keeps_recorded_signed assms)
  then show ?thesis
    unfolding require_bearer_def
    by (auto split: verdict.split
        intro!: keeps_intros keeps_denied_with keeps_audit_append recorded_sessions_blind)
qed

lemma ensures_request_replay:
  assumes "\<not> u < prune_cutoff (clk 1)"
  shows "ensures (recorded SessionNonces (fst k) (snd k) u) (\<lambda>_. False) (require_bearer h clk (signed_as k q))"
proof -
  let ?P = "recorded SessionNonces (fst k) (snd k) u"
  have resolve: "ensures ?P (\<lambda>r. \<forall>ctx. r \<noteq> Authenticated ctx) (resolve_signed_session h clk sh meth path body)"
    if "parse_signed_request_headers (rq_header (signed_as k q)) = Some sh" for sh meth path body
    using ensures_replay_denied [of u clk sh h meth path body, OF assms] signed_as_headers [OF that] by simp
  have "ensures ?P (\<lambda>_. False) (identify_signed h clk (signed_as k q))"
    unfolding identify_signed_def
    by (auto split: option.split session_outcome.split
        intro!: ensures_denied_with ensures_hfail recorded_sessions_blind ensures_hbind [OF resolve])
  moreover have "identify h clk (signed_as k q) = identify_signed h clk (signed_as k q)"
    by (simp add: identify_def signed_as_def)
  ultimately show ?thesis unfolding require_bearer_def by (auto intro: ensures_hbind)
qed

lemma resolve_signed_consumes:
  assumes "resolve_signed_session h clk sh meth path body w = (Inr (Authenticated ctx) :: ('e, session_outcome) res, w')"
  obtains s w1 w2 where "consume_session_nonce (clk 1) (sh_session_id sh) (sh_nonce sh) (utc_now (clk 2)) w1 = (Inr (), w2)"
    and "authenticate_validated_session s (clk 3) w2 = (Inr (Authenticated ctx) :: ('e, session_outcome) res, w')" "set (script w1) \<subseteq> set (script w)"
proof -
  from assms obtain found w1 where f: "outcome_of (get_session (sh_session_id sh)) w = (Inr found :: ('e, (accounts_error, session) res) res, w1)"
    and rest: "(case found of Inl _ \<Rightarrow> hret session_over
        | Inr s \<Rightarrow> (case signed_refusal h sh meth path body s of Some r \<Rightarrow> hret r | None \<Rightarrow> accept_signed clk sh s)) w1
        = (Inr (Authenticated ctx) :: ('e, session_outcome) res, w')"
    unfolding resolve_signed_session_def by (auto split: if_splits elim: hbind_InrE)
  have script: "set (script w1) \<subseteq> set (script w)"
    using keeps_script [OF keeps_outcome_of [OF keeps_get_session [where P = "\<lambda>_. True"]] f] .
  from rest obtain s where "accept_signed clk sh s w1 = (Inr (Authenticated ctx) :: ('e, session_outcome) res, w')"
    by (auto simp: session_over_def dest!: signed_refusal_rejects split: sum.splits option.splits)
  then obtain c w2 where c: "attempt (consume_session_nonce (clk 1) (sh_session_id sh) (sh_nonce sh) (utc_now (clk 2))) w1
        = (Inr c :: ('e, (store_error, unit) res) res, w2)"
    and a: "(case c of Inl _ \<Rightarrow> hret (Rejected 401 ''NonceReplayed'' ''this request nonce has already been used'')
       | Inr _ \<Rightarrow> authenticate_validated_session s (clk 3)) w2 = (Inr (Authenticated ctx) :: ('e, session_outcome) res, w')"
    unfolding accept_signed_def by (elim hbind_InrE)
  from a obtain u where u: "c = Inr u" by (cases c) auto
  show thesis
  proof (rule that [OF _ _ script])
    show "consume_session_nonce (clk 1) (sh_session_id sh) (sh_nonce sh) (utc_now (clk 2)) w1 = (Inr (), w2)"
      using c u by (simp add: attempt_def split: prod.splits)
    show "authenticate_validated_session s (clk 3) w2 = (Inr (Authenticated ctx) :: ('e, session_outcome) res, w')" using a u by simp
  qed
qed

type_synonym seat_call = "hub \<times> (nat \<Rightarrow> int) \<times> request"

definition seat_clock :: "seat_call \<Rightarrow> nat \<Rightarrow> int" where
  "seat_clock c = (case c of (h, clk, q) \<Rightarrow> clk)"

definition request_attempt :: "seat_call \<Rightarrow> string \<times> string \<Rightarrow> world \<Rightarrow> bool \<times> world" where
  "request_attempt c k w =
     (case c of (h, clk, q) \<Rightarrow> (case require_bearer h clk (signed_as k q) w of (r, w') \<Rightarrow> (is_ok r, w')))"

definition seat_nonce_used :: "int \<Rightarrow> world \<Rightarrow> string \<times> string \<Rightarrow> string \<Rightarrow> bool" where
  "seat_nonce_used T w k u \<longleftrightarrow> u < prune_cutoff T \<or> recorded SessionNonces (fst k) (snd k) u (db w)"

lemma request_attempt_run:
  assumes "request_attempt c k w = (b, w')"
  obtains h clk q r where "c = (h, clk, q)" "b = is_ok r" "require_bearer h clk (signed_as k q) w = (r, w')"
  using assms that by (cases c) (auto simp: request_attempt_def split: prod.splits)

lemma script_request:
  assumes "require_bearer h clk q w = (r, w')"
  shows "set (script w') \<subseteq> set (script w)"
  using keeps_script [OF keeps_recorded_request [of "prune_cutoff (clk 1)" clk] assms] by simp

lemma denied_never [simp]: "denied_with h kind q actor clock e w \<noteq> (Inr x, w')"
  by (auto simp: denied_with_def elim!: hbind_InrE)

lemma request_records:
  assumes run: "require_bearer h clk (signed_as k q) w = (Inr x, w')"
    and env: "env_keeps (recorded SessionNonces (fst k) (snd k) (utc_now (clk 2))) w"
  shows "recorded SessionNonces (fst k) (snd k) (utc_now (clk 2)) (db w')"
proof -
  let ?P = "recorded SessionNonces (fst k) (snd k) (utc_now (clk 2))"
  let ?q = "signed_as k q"
  from run obtain ctx v where i: "identify h clk ?q w = (Inr ctx, v)"
    and rest: "(case admit ctx (rq_method ?q) (rq_path ?q) (utc_now (clk 5)) (step_up_freshness_minutes h) of
       RoleDenied \<Rightarrow>
         hbind (ignoring (audit_append h ''auth.role_denied'' None (role_denial_event ctx ?q) (clk 6))) (\<lambda>_.
         hfail (role_policy_violation (rq_method ?q) (rq_path ?q)
           (required_roles (rq_method ?q) (rq_path ?q)) (roles ctx)))
     | StepUpDenied \<Rightarrow>
         denied_with h ''auth.step_up_denied'' ?q (Some ctx) (clk 6)
           (auth_error 403 ''StepUpRequired''
             ''a fresh high-assurance authentication (step-up) is required for this operation'')
     | Admitted legacy \<Rightarrow> hret (ctx, legacy)) v = (Inr x, w')"
    unfolding require_bearer_def by (elim hbind_InrE)
  have "w' = v" using rest by (auto split: verdict.splits elim!: hbind_InrE)
  from i have "identify_signed h clk ?q w = (Inr ctx, v)" by (simp add: identify_def signed_as_def)
  then obtain sh body where sh: "parse_signed_request_headers (rq_header ?q) = Some sh"
    and "hbind (resolve_signed_session h clk sh (rq_method ?q) (rq_path ?q) body) (\<lambda>r.
               case r of
                 Authenticated ctx \<Rightarrow> hret ctx
               | Rejected status code message \<Rightarrow>
                   denied_with h ''auth.signed_session_denied'' ?q None (clk 4) (auth_error status code message)
               | NotASession \<Rightarrow> hfail (auth_error 401 ''SessionExpired'' ''the session has expired'')) w = (Inr ctx, v)"
    unfolding identify_signed_def by (auto split: option.splits)
  then obtain y v1 where y: "resolve_signed_session h clk sh (rq_method ?q) (rq_path ?q) body w = (Inr y :: (denial, session_outcome) res, v1)"
    and c: "(case y of
                 Authenticated ctx \<Rightarrow> hret ctx
               | Rejected status code message \<Rightarrow>
                   denied_with h ''auth.signed_session_denied'' ?q None (clk 4) (auth_error status code message)
               | NotASession \<Rightarrow> hfail (auth_error 401 ''SessionExpired'' ''the session has expired'')) v1 = (Inr ctx, v)"
    by (elim hbind_InrE)
  have v: "y = Authenticated ctx" "v1 = v"
    using c by (auto split: session_outcome.splits)
  obtain s w1 w2 where s: "consume_session_nonce (clk 1) (sh_session_id sh) (sh_nonce sh) (utc_now (clk 2)) w1 = (Inr (), w2)"
    "authenticate_validated_session s (clk 3) w2 = (Inr (Authenticated ctx) :: (denial, session_outcome) res, v)"
    "set (script w1) \<subseteq> set (script w)"
    using resolve_signed_consumes [OF y [unfolded v]] .
  note k = signed_as_headers [OF sh]
  have r2: "?P (db w2)" using accepted_nonce_recorded [OF s(1) [unfolded consume_session_nonce_eq]] k by simp
  have "set (script w2) \<subseteq> set (script w1)"
    using keeps_script [OF keeps_recorded_session_nonce [of "prune_cutoff (clk 1)" "clk 1"] s(1)] by simp
  then have e2: "env_keeps ?P w2" using env_keeps_subset [OF env] s(3) by blast
  from keepsD [where P = ?P, OF keeps_authenticate_validated r2 e2 s(2)] show ?thesis using \<open>w' = v\<close> by simp
qed

interpretation seated_requests: single_use request_attempt "spared SessionNonces T" "seat_nonce_used T"
    "\<lambda>c. utc_now (seat_clock c 2)" "\<lambda>c. protects_until T (seat_clock c 1)"
  for T
proof unfold_locales
  fix w t k b w'
  assume "spared SessionNonces T w" and a: "request_attempt t k w = (b, w')"
  then show "spared SessionNonces T w'"
    by (elim request_attempt_run) (rule spared_subset, assumption, erule script_request)
next
  fix w t k b w' u
  assume a: "spared SessionNonces T w" "seat_nonce_used T w k u" "protects_until T (seat_clock t 1) u"
    and "request_attempt t k w = (b, w')"
  then obtain h clk q r where r: "t = (h, clk, q)" "b = is_ok r" "require_bearer h clk (signed_as k q) w = (r, w')"
    by (elim request_attempt_run)
  have rec: "recorded SessionNonces (fst k) (snd k) u (db w)" "\<not> u < prune_cutoff (clk 1)"
    "env_keeps (recorded SessionNonces (fst k) (snd k) u) w"
    using a by (simp_all add: seat_nonce_used_def protects_until_def spared_def seat_clock_def r(1))
  from ensuresD [OF ensures_request_replay [of u clk, OF rec(2)] rec(1,3) r(3)] show "\<not> b"
    by (cases r) (simp_all add: r(2))
next
  fix w t k w'
  assume ok: "spared SessionNonces T w" and a: "request_attempt t k w = (True, w')"
  show "seat_nonce_used T w' k (utc_now (seat_clock t 2))"
  proof (cases "utc_now (seat_clock t 2) < prune_cutoff T")
    case False
    from a obtain h clk q x where r: "t = (h, clk, q)" "require_bearer h clk (signed_as k q) w = (Inr x, w')"
      by (elim request_attempt_run) (auto elim: is_ok.elims)
    have "env_keeps (recorded SessionNonces (fst k) (snd k) (utc_now (clk 2))) w"
      using ok False by (simp add: spared_def r(1) seat_clock_def)
    then show ?thesis using request_records [OF r(2)] by (simp add: seat_nonce_used_def r(1) seat_clock_def)
  qed (simp add: seat_nonce_used_def)
next
  fix w t j k b w' u
  assume ok: "spared SessionNonces T w" and used: "seat_nonce_used T w k u"
    and p: "protects_until T (seat_clock t 1) u" and a: "request_attempt t j w = (b, w')"
  from a obtain h clk q r where r: "t = (h, clk, q)" "require_bearer h clk (signed_as j q) w = (r, w')"
    by (elim request_attempt_run)
  have rec: "recorded SessionNonces (fst k) (snd k) u (db w)" "env_keeps (recorded SessionNonces (fst k) (snd k) u) w"
    "\<not> u < prune_cutoff (clk 1)"
    using ok used p by (simp_all add: seat_nonce_used_def protects_until_def spared_def seat_clock_def r(1))
  from keepsD [where P = "recorded SessionNonces (fst k) (snd k) u",
      OF keeps_recorded_request [of u clk, OF rec(3)] rec(1,2) r(2)]
  show "seat_nonce_used T w' k u" by (simp add: seat_nonce_used_def)
qed

text \<open>
  C40. A signed request is admitted at most once: after the layer admitted a request of some session with
  some nonce, the nonce stamped at \<open>t\<close>, every further request with that session and nonce is denied as
  long as the pruning clocks are no later than \<open>T\<close>, at most 300 seconds after \<open>t\<close>, whatever else the
  requests are (another method, path or body), whatever fails, and whatever other clients do that does
  not drop nonces the clock \<open>T\<close> would keep.
\<close>

theorem signed_request_admitted_once:
  assumes "spared SessionNonces T w" "request_attempt c k w = (True, w1)"
    and "attempts request_attempt xs w1 = (bs, w2)"
    and "\<forall>(x, j) \<in> set xs. seat_clock x 1 \<le> T"
    and "0 \<le> seat_clock c 2" "seat_clock c 2 \<le> T" "T \<le> seat_clock c 2 + 300" "T < 253402300800"
  shows "\<forall>i < length xs. snd (xs ! i) = k \<longrightarrow> \<not> bs ! i"
proof (rule seated_requests.accepted_once [OF assms(1-3)])
  let ?t = "seat_clock c 2"
  have "utc_now ?t = store_epoch_secs_to_iso ?t" using assms(5) by (rule utc_now_store)
  then show "\<forall>(x, j) \<in> set xs. protects_until T (seat_clock x 1) (utc_now ?t)"
    using assms(4-8) cutoff_spares [of ?t] by (fastforce simp: protects_until_def)
qed

text \<open>A signed request in a calm world.\<close>

lemma signed_admitted:
  assumes "check_skew (of_int (sh_timestamp sh)) (clk 0) = Inr ()" "find_session (sh_session_id sh) (people d) = Some s"
    and "signed_refusal h sh meth path body s = None" "session_nonces d = []"
    and "\<not> hs_idle_expires_at s < utc_now (clk 3)" "\<not> hs_absolute_expires_at s < utc_now (clk 3)"
    and "find_account (hs_account_id s) (people d) = Some a" "ac_status a = ActiveAccount"
  obtains d' where "resolve_signed_session h clk sh meth path body (calm d) =
    (Inr (Authenticated (from_human_session (ac_account_id a) (live_roles (memberships_of (ac_account_id a) (people d)))
       (hs_session_id s) (assurance_str (hs_assurance_level s)) (hs_step_up_at s))), calm d')"
proof -
  define d2 where "d2 = with_nonces SessionNonces
    [\<lparr>n_holder = sh_session_id sh, n_nonce = sh_nonce sh, n_used_at = utc_now (clk 2)\<rparr>] d"
  have c: "consume_session_nonce (clk 1) (sh_session_id sh) (sh_nonce sh) (utc_now (clk 2)) (calm d) = (Inr (), calm d2)"
    using assms(4) by (simp add: consume_session_nonce_eq consume_calm Let_def prune_stmt_def insert_nonce_def delete_where_def d2_def)
  have p: "people d2 = people d" by (simp add: d2_def)
  have "authenticate_validated_session s (clk 3) (calm d2) =
      (Inr (Authenticated (from_human_session (ac_account_id a) (live_roles (memberships_of (ac_account_id a) (people d)))
       (hs_session_id s) (assurance_str (hs_assurance_level s)) (hs_step_up_at s))), calm d2)"
    using assms(5-8) by (simp add: authenticate_validated_session_def get_account_def list_memberships_def outcome_of_def
        one_row_def hbind_def hret_def calm_simps may_authenticate_normally_def Let_def p)
  then have "accept_signed clk sh s (calm d) =
      (Inr (Authenticated (from_human_session (ac_account_id a) (live_roles (memberships_of (ac_account_id a) (people d)))
       (hs_session_id s) (assurance_str (hs_assurance_level s)) (hs_step_up_at s))), calm d2)"
    unfolding accept_signed_def attempt_def hbind_def c by simp
  then show thesis
    using assms(1-3) that by (simp add: resolve_signed_session_def get_session_def session_row_def outcome_of_def one_row_def
        hbind_def hret_def calm_simps)
qed

definition signing_hub :: hub where
  "signing_hub = toy_hub\<lparr>hub_crypto := toy_crypto\<lparr>ed_verify := \<lambda>_ _ _. True\<rparr>\<rparr>"

definition key_seat :: session where
  "key_seat = (demo_seat ''s2'' ''bob'')\<lparr>hs_bound_public_key := Some (replicate 32 (CHR ''k''))\<rparr>"

definition key_db :: db where
  "key_db = empty_db\<lparr>people := demo_staff\<lparr>sessions := [key_seat]\<rparr>\<rparr>"

definition signed_demo :: request where
  "signed_demo =
     \<lparr>rq_method = ''GET'', rq_path = ''/settings'', rq_signature_present = True,
      rq_header = (\<lambda>n. if n = ''x-forgewire-timestamp'' then Some ''2000''
                       else if n = ''x-forgewire-signature'' then Some (replicate 64 (CHR ''s'')) else None),
      rq_body = Some []\<rparr>"

definition demo_headers :: signed_headers where
  "demo_headers = \<lparr>sh_session_id = ''s2'', sh_timestamp = 2000, sh_nonce = ''n1'', sh_signature = replicate 64 (CHR ''s'')\<rparr>"

lemma demo_headers_read: "parse_signed_request_headers (rq_header (signed_as (''s2'', ''n1'') signed_demo)) = Some demo_headers"
proof -
  have "parse_i64 ''2000'' = Some 2000" by code_simp
  then show ?thesis
    by (simp add: parse_signed_request_headers_def signed_as_def signed_demo_def demo_headers_def)
qed

lemma demo_signed_admitted:
  obtains d' where "request_attempt (signing_hub, \<lambda>_. 2000, signed_demo) (''s2'', ''n1'') (calm key_db) = (True, calm d')"
proof -
  let ?q = "signed_as (''s2'', ''n1'') signed_demo" and ?ctx = "from_human_session ''bob'' [''admin''] ''s2'' ''aal1'' None"
  have people: "find_session ''s2'' (people key_db) = Some key_seat" "find_account ''bob'' (people key_db) = Some (demo_admin ''bob'')"
    "live_roles (memberships_of ''bob'' (people key_db)) = [''admin'']"
    by code_simp+
  have skew: "check_skew (of_int (sh_timestamp demo_headers)) 2000 = Inr ()"
    by (simp add: check_skew_def demo_headers_def) code_simp
  have "verify_sig signing_hub (replicate 32 (CHR ''k'')) (request_envelope signing_hub demo_headers ''GET'' ''/settings'' [])
      (sh_signature demo_headers) = Inr ()"
    by (simp add: verify_sig_def verify_envelope_hex_def verify_signature_hex_def decode_hex_fixed_def
        signing_hub_def toy_crypto_def demo_headers_def)
  then have ok: "signed_refusal signing_hub demo_headers ''GET'' ''/settings'' [] key_seat = None"
    by (simp add: signed_refusal_def key_seat_def demo_seat_def demo_session_def)
  have late: "\<not> ''u'' < utc_now 2000" unfolding now_text by code_simp
  obtain d' where d': "resolve_signed_session signing_hub (\<lambda>_. 2000) demo_headers ''GET'' ''/settings'' [] (calm key_db)
      = (Inr (Authenticated ?ctx) :: (denial, session_outcome) res, calm d')"
    by (rule signed_admitted [of demo_headers "\<lambda>_. 2000" key_db key_seat signing_hub "''GET''" "''/settings''" "[]" "demo_admin ''bob''"])
      (use people skew ok late in \<open>simp_all add: demo_headers_def key_seat_def demo_seat_def demo_session_def demo_admin_def
        new_account_def key_db_def empty_db_def\<close>)
  have q: "rq_method ?q = ''GET''" "rq_path ?q = ''/settings''" "rq_signature_present ?q" "buffered_body ?q = Some []"
    by (simp_all add: signed_as_def signed_demo_def buffered_body_def)
  have "identify signing_hub (\<lambda>_. 2000) ?q (calm key_db) = (Inr ?ctx, calm d')"
    by (simp add: identify_def identify_signed_def q demo_headers_read hbind_def d' hret_def)
  moreover have "admit ?ctx ''GET'' ''/settings'' now fresh = Admitted False" for now fresh
    by (simp add: admit_def from_human_session_def requires_step_up_def is_authorized_def) code_simp
  ultimately have "require_bearer signing_hub (\<lambda>_. 2000) ?q (calm key_db) = (Inr (?ctx, False), calm d')"
    by (simp add: require_bearer_def hbind_def q hret_def)
  then show thesis using that by (simp add: request_attempt_def)
qed

lemma signed_request_admitted_once_witness:
  "let c = (signing_hub, \<lambda>_. 2000, signed_demo);
       late = (signing_hub, \<lambda>_. 2300, signed_demo\<lparr>rq_path := ''/tasks''\<rparr>);
       (b, w1) = request_attempt c (''s2'', ''n1'') (calm key_db)
   in b \<and> \<not> fst (attempts request_attempt [(late, (''s2'', ''n1''))] w1) ! 0"
proof -
  let ?c = "(signing_hub, \<lambda>_. 2000 :: int, signed_demo)"
  let ?late = "(signing_hub, \<lambda>_. 2300 :: int, signed_demo\<lparr>rq_path := ''/tasks''\<rparr>)"
  let ?k = "(''s2'', ''n1'')"
  obtain d' where d': "request_attempt ?c ?k (calm key_db) = (True, calm d')" by (rule demo_signed_admitted)
  from signed_request_admitted_once [OF spared_calm d' surjective_pairing, of "[(?late, ?k)]" 2300]
  show ?thesis by (simp add: Let_def seat_clock_def d')
qed

end
