(* ===== verification/Settings.thy ===== *)
theory Settings
  imports StoreTypes
begin

text \<open>
  Settings in three tiers (\<^verbatim>\<open>crates/fabric-settings/src/lib.rs\<close>): the compiled defaults, the overlay
  of the hub, the overlay of a repository; validation against the schema, the deterministic merge, edits
  by path and redaction. An object is its entries in the order of its map. The default document and the
  schema are the compiled-in files \<^verbatim>\<open>config/settings.defaults.json\<close> and
  \<^verbatim>\<open>schemas/settings.schema.json\<close> (without the keywords the code never reads: titles,
  descriptions, \<^verbatim>\<open>required\<close>, \<^verbatim>\<open>additionalProperties\<close>).
\<close>

section \<open>Documents\<close>

datatype settings_error =
    InvalidJson string
  | UnknownKey string
  | ReadOnly string
  | TypeMismatch string string string
  | RootNotObject
  | IndexPanic

text \<open>\<open>IndexPanic\<close> stands for the panic of indexing into a value that is not an object.\<close>

definition settings_error_text :: "settings_error \<Rightarrow> string" where
  "settings_error_text e =
     (case e of
        InvalidJson m \<Rightarrow> ''settings document is invalid JSON: '' @ m
      | UnknownKey k \<Rightarrow> ''unknown settings key: '' @ k
      | ReadOnly k \<Rightarrow> ''settings key is read-only: '' @ k
      | TypeMismatch k expected actual \<Rightarrow> ''settings value for '' @ k @ '' has type '' @ actual @ ''; expected '' @ expected
      | RootNotObject \<Rightarrow> ''settings root must be an object''
      | IndexPanic \<Rightarrow> [])"

definition redaction :: jv where
  "redaction = JStr ''[REDACTED]''"

definition settings_defaults :: jv where
  "settings_defaults = JObj
     [(''$schema'', JStr ''../schemas/settings.schema.json''),
      (''auth'', JObj
         [(''bootstrap'', JObj [(''local_only'', JBool True)]),
          (''passkeys'', JObj [(''allowed_origins'', JArr []), (''enabled'', JBool False), (''rp_id'', JNull),
                             (''rp_name'', JStr ''ForgeWire Fabric'')]),
          (''sessions'', JObj [(''absolute_timeout_hours'', jint 24), (''idle_timeout_minutes'', jint 60),
                             (''step_up_freshness_minutes'', jint 10)])]),
      (''budget'', JObj [(''daily_usd'', JNull), (''warning_fraction'', JNum (JFloat (Fin (3602879701896397 / 4503599627370496)))), (''weekly_usd'', JNull)]),
      (''desktop'', JObj [(''update_channel'', JStr ''stable''), (''updater_endpoint'', JNull)]),
      (''ha'', JObj [(''mode'', JStr ''active-passive''), (''require_voter_loss_tolerance'', JBool False)]),
      (''history'', JObj
         [(''external_db'', JObj [(''autodetect'', JBool False), (''connect_timeout_seconds'', jint 5), (''dsn'', JNull),
                                (''provision'', JBool False), (''retry_seconds'', jint 30)]),
          (''mode'', JStr ''thin'')]),
      (''runner'', JObj [(''default_capability_tags'', JArr []), (''heartbeat_seconds'', jint 10)]),
      (''schema_version'', jint 1),
      (''secrets'', JObj [(''key_file'', JNull), (''key_provider'', JStr ''file'')])]"

definition of_type :: "string \<Rightarrow> (string \<times> jv) list \<Rightarrow> jv" where
  "of_type t more_keys = JObj (more_keys @ [(''type'', JStr t)])"

definition nullable :: "string \<Rightarrow> (string \<times> jv) list \<Rightarrow> jv" where
  "nullable t more_keys = JObj (more_keys @ [(''type'', JArr [JStr t, JStr ''null''])])"

definition node_of :: "(string \<times> jv) list \<Rightarrow> jv" where
  "node_of ps = JObj [(''properties'', JObj ps), (''type'', JStr ''object'')]"

definition settings_schema :: jv where
  "settings_schema = node_of
    [(''$schema'', of_type ''string'' []),
     (''auth'', node_of
        [(''bootstrap'', node_of
            [(''local_only'', of_type ''boolean'' [])]),
         (''passkeys'', node_of
            [(''allowed_origins'', JObj [(''items'', JObj [(''type'', JStr ''string'')]), (''type'', JStr ''array''), (''uniqueItems'', JBool True)]),
             (''enabled'', of_type ''boolean'' []),
             (''rp_id'', nullable ''string'' []),
             (''rp_name'', of_type ''string'' [])]),
         (''sessions'', node_of
            [(''absolute_timeout_hours'', of_type ''integer'' [(''maximum'', jint 720), (''minimum'', jint 1)]),
             (''idle_timeout_minutes'', of_type ''integer'' [(''maximum'', jint 1440), (''minimum'', jint 5)]),
             (''step_up_freshness_minutes'', of_type ''integer'' [(''maximum'', jint 10), (''minimum'', jint 1)])])]),
     (''budget'', node_of
        [(''daily_usd'', nullable ''number'' [(''minimum'', jint 0)]),
         (''warning_fraction'', of_type ''number'' [(''exclusiveMinimum'', jint 0), (''maximum'', jint 1)]),
         (''weekly_usd'', nullable ''number'' [(''minimum'', jint 0)])]),
     (''desktop'', node_of
        [(''update_channel'', of_type ''string'' [(''enum'', JArr [JStr ''stable'', JStr ''preview''])]),
         (''updater_endpoint'', nullable ''string'' [(''format'', JStr ''uri'')])]),
     (''ha'', node_of
        [(''mode'', of_type ''string'' [(''enum'', JArr [JStr ''single'', JStr ''active-passive'', JStr ''active-active''])]),
         (''require_voter_loss_tolerance'', of_type ''boolean'' [])]),
     (''history'', node_of
        [(''external_db'', node_of
            [(''autodetect'', of_type ''boolean'' []),
             (''connect_timeout_seconds'', of_type ''integer'' [(''maximum'', jint 60), (''minimum'', jint 1)]),
             (''dsn'', JObj [(''type'', JArr [JStr ''string'', JStr ''null'']), (''x-sensitive'', JBool True)]),
             (''provision'', of_type ''boolean'' []),
             (''retry_seconds'', of_type ''integer'' [(''maximum'', jint 3600), (''minimum'', jint 1)])]),
         (''mode'', of_type ''string'' [(''enum'', JArr [JStr ''thin'', JStr ''external'', JStr ''fabric-managed'']), (''readOnly'', JBool True)])]),
     (''runner'', node_of
        [(''default_capability_tags'', JObj [(''items'', JObj [(''minLength'', jint 1), (''type'', JStr ''string'')]), (''type'', JStr ''array''), (''uniqueItems'', JBool True)]),
         (''heartbeat_seconds'', of_type ''integer'' [(''maximum'', jint 300), (''minimum'', jint 2)])]),
     (''schema_version'', JObj [(''const'', jint 1)]),
     (''secrets'', node_of
        [(''key_file'', JObj [(''type'', JArr [JStr ''string'', JStr ''null'']), (''x-sensitive'', JBool True)]),
         (''key_provider'', of_type ''string'' [(''enum'', JArr [JStr ''file'', JStr ''os-keychain''])])])]"

section \<open>Values\<close>

fun value_type :: "jv \<Rightarrow> string" where
  "value_type JNull = ''null''"
| "value_type (JBool _) = ''boolean''"
| "value_type (JNum _) = ''number''"
| "value_type (JStr _) = ''string''"
| "value_type (JArr _) = ''array''"
| "value_type (JObj _) = ''object''"

definition is_object :: "jv \<Rightarrow> bool" where
  "is_object v = (case v of JObj _ \<Rightarrow> True | _ \<Rightarrow> False)"

text \<open>Equality of values: floats compare as floats, an integer is never equal to a float.\<close>

fun jnum_eq :: "jnum \<Rightarrow> jnum \<Rightarrow> bool" where
  "jnum_eq (JInt a) (JInt b) = (a = b)"
| "jnum_eq (JFloat a) (JFloat b) = f64_eq a b"
| "jnum_eq _ _ = False"

fun value_eq :: "jv \<Rightarrow> jv \<Rightarrow> bool" and values_eq :: "jv list \<Rightarrow> jv list \<Rightarrow> bool"
  and entries_eq :: "(string \<times> jv) list \<Rightarrow> (string \<times> jv) list \<Rightarrow> bool" where
  "value_eq (JNum a) (JNum b) = jnum_eq a b"
| "value_eq (JArr a) (JArr b) = values_eq a b"
| "value_eq (JObj a) (JObj b) = entries_eq a b"
| "value_eq a b = (a = b)"
| "values_eq [] [] = True"
| "values_eq (a # as) (b # bs) = (value_eq a b \<and> values_eq as bs)"
| "values_eq _ _ = False"
| "entries_eq [] [] = True"
| "entries_eq ((k, a) # as) ((l, b) # bs) = (k = l \<and> value_eq a b \<and> entries_eq as bs)"
| "entries_eq _ _ = False"

text \<open>The numbers the schema compares with are far below the integers a float rounds.\<close>

definition number_of :: "jv \<Rightarrow> f64 option" where
  "number_of v = (case v of JNum (JInt n) \<Rightarrow> Some (Fin (of_int n)) | JNum (JFloat x) \<Rightarrow> Some x | _ \<Rightarrow> None)"

definition is_integer :: "jv \<Rightarrow> bool" where
  "is_integer v = (case v of JNum (JInt _) \<Rightarrow> True | _ \<Rightarrow> False)"

fun put_entry :: "string \<Rightarrow> jv \<Rightarrow> (string \<times> jv) list \<Rightarrow> (string \<times> jv) list" where
  "put_entry k v [] = [(k, v)]"
| "put_entry k v ((l, u) # es) =
     (if k = l then (k, v) # es else if k < l then (k, v) # (l, u) # es else (l, u) # put_entry k v es)"

definition remove_entry :: "string \<Rightarrow> (string \<times> jv) list \<Rightarrow> (string \<times> jv) list" where
  "remove_entry k es = filter (\<lambda>e. fst e \<noteq> k) es"

definition path_segments :: "string \<Rightarrow> string list" where
  "path_segments key = split_on (CHR ''.'') key"

definition child_path :: "string \<Rightarrow> string \<Rightarrow> string" where
  "child_path pre key = (if pre = [] then key else pre @ ''.'' @ key)"

fun value_at :: "jv \<Rightarrow> string list \<Rightarrow> jv option" where
  "value_at v [] = Some v"
| "value_at v (s # ss) = (case obj_get s v of None \<Rightarrow> None | Some u \<Rightarrow> value_at u ss)"

definition pointer :: "jv \<Rightarrow> string \<Rightarrow> jv option" where
  "pointer doc key = value_at doc (path_segments key)"

text \<open>Writing through a mutable reference to the value at a path, when there is one.\<close>

fun edit_at :: "(jv \<Rightarrow> jv) \<Rightarrow> jv \<Rightarrow> string list \<Rightarrow> jv" where
  "edit_at f v [] = f v"
| "edit_at f v (s # ss) =
     (case v of
        JObj es \<Rightarrow> (case map_of es s of None \<Rightarrow> v | Some u \<Rightarrow> JObj (put_entry s (edit_at f u ss) es))
      | _ \<Rightarrow> v)"

fun set_at :: "string \<Rightarrow> string list \<Rightarrow> jv \<Rightarrow> (string \<times> jv) list \<Rightarrow> (settings_error, (string \<times> jv) list) res" where
  "set_at key [] v es = Inl (UnknownKey key)"
| "set_at key [s] v es = Inr (put_entry s v es)"
| "set_at key (s # ss) v es =
     (let entry = (case map_of es s of None \<Rightarrow> JObj [] | Some u \<Rightarrow> u) in
      case entry of
        JObj us \<Rightarrow> bind_res (set_at key ss v us) (\<lambda>ws. Inr (put_entry s (JObj ws) es))
      | _ \<Rightarrow> Inl (TypeMismatch key ''object'' (value_type entry)))"

definition set_pointer :: "jv \<Rightarrow> string \<Rightarrow> jv \<Rightarrow> (settings_error, jv) res" where
  "set_pointer doc key v =
     (case doc of
        JObj es \<Rightarrow> bind_res (set_at key (path_segments key) v es) (\<lambda>us. Inr (JObj us))
      | _ \<Rightarrow> Inl RootNotObject)"

fun remove_at :: "string list \<Rightarrow> jv \<Rightarrow> jv" where
  "remove_at [] v = v"
| "remove_at [s] v = (case v of JObj es \<Rightarrow> JObj (remove_entry s es) | _ \<Rightarrow> v)"
| "remove_at (s # ss) v =
     (case v of
        JObj es \<Rightarrow> (case map_of es s of None \<Rightarrow> v | Some u \<Rightarrow> JObj (put_entry s (remove_at ss u) es))
      | _ \<Rightarrow> v)"

definition remove_pointer :: "jv \<Rightarrow> string \<Rightarrow> jv" where
  "remove_pointer doc key = remove_at (path_segments key) doc"

text \<open>Assignment by index: a missing key is added, null becomes an object, anything else panics.\<close>

definition index_put :: "string \<Rightarrow> jv \<Rightarrow> jv \<Rightarrow> (settings_error, jv) res" where
  "index_put k u v =
     (case v of JObj es \<Rightarrow> Inr (JObj (put_entry k u es)) | JNull \<Rightarrow> Inr (JObj [(k, u)]) | _ \<Rightarrow> Inl IndexPanic)"

section \<open>The schema\<close>

fun schema_node :: "jv \<Rightarrow> string list \<Rightarrow> jv option" where
  "schema_node node [] = Some node"
| "schema_node node (s # ss) =
     (case obj_get ''properties'' node of
        None \<Rightarrow> None
      | Some ps \<Rightarrow> (case obj_get s ps of None \<Rightarrow> None | Some child \<Rightarrow> schema_node child ss))"

definition schema_for_path :: "string \<Rightarrow> (settings_error, jv) res" where
  "schema_for_path key =
     (case schema_node settings_schema (path_segments key) of None \<Rightarrow> Inl (UnknownKey key) | Some n \<Rightarrow> Inr n)"

lemma entry_size: "(k, v) \<in> set es \<Longrightarrow> size (v :: 'n json) < Suc (size_list (size_prod (\<lambda>x. 0) size) es)"
  by (induction es) auto

lemma obj_get_size: "obj_get k node = Some v \<Longrightarrow> size v < size node"
  using map_of_SomeD [of _ k v] by (cases node) (auto intro: entry_size)

function flagged :: "string \<Rightarrow> string \<Rightarrow> jv \<Rightarrow> string list" where
  "flagged flag pre node =
     (if pre \<noteq> [] \<and> (case obj_get flag node of Some (JBool b) \<Rightarrow> b | _ \<Rightarrow> False) then [pre] else [])
     @ (case obj_get ''properties'' node of
          Some (JObj ps) \<Rightarrow> concat (map (\<lambda>p. flagged flag (child_path pre (fst p)) (snd p)) ps)
        | _ \<Rightarrow> [])"
  by pat_completeness auto

termination
proof (relation "measure (\<lambda>(_, _, node). size node)")
  fix flag :: string and pre :: string and node u :: jv and ps p
  assume "obj_get ''properties'' node = Some u" "u = JObj ps" "p \<in> set ps"
  then show "((flag, child_path pre (fst p), snd p), flag, pre, node) \<in> measure (\<lambda>(_, _, node). size node)"
    using obj_get_size [of "''properties''" node u] entry_size [of "fst p" "snd p" ps] by simp
qed simp

declare flagged.simps [simp del]

definition schema_paths :: "string \<Rightarrow> string list" where
  "schema_paths flag = flagged flag [] settings_schema"

definition sensitive_paths :: "string list" where
  "sensitive_paths = schema_paths ''x-sensitive''"

definition read_only_paths :: "string list" where
  "read_only_paths = schema_paths ''readOnly''"

section \<open>Merging and validation\<close>

fun merge :: "jv \<Rightarrow> jv \<Rightarrow> jv" and merge_entries :: "(string \<times> jv) list \<Rightarrow> (string \<times> jv) list \<Rightarrow> (string \<times> jv) list" where
  "merge base (JObj es) = (case base of JObj bs \<Rightarrow> JObj (merge_entries bs es) | _ \<Rightarrow> JObj es)"
| "merge base v = v"
| "merge_entries bs [] = bs"
| "merge_entries bs ((k, v) # es) =
     merge_entries (put_entry k (case map_of bs k of None \<Rightarrow> v | Some b \<Rightarrow> merge b v) bs) es"

definition mismatch :: "string \<Rightarrow> string \<Rightarrow> string \<Rightarrow> (settings_error, unit) res" where
  "mismatch key expected actual = Inl (TypeMismatch key expected actual)"

definition kind_admits :: "jv \<Rightarrow> jv \<Rightarrow> bool" where
  "kind_admits kind v \<longleftrightarrow> kind = JStr (value_type v) \<or> (kind = JStr ''integer'' \<and> is_integer v)"

definition type_admits :: "jv \<Rightarrow> jv \<Rightarrow> bool" where
  "type_admits node v =
     (case obj_get ''type'' node of
        None \<Rightarrow> False
      | Some kinds \<Rightarrow> kind_admits kinds v \<or> (case kinds of JArr ks \<Rightarrow> list_ex (\<lambda>k. kind_admits k v) ks | _ \<Rightarrow> False))"

definition beyond :: "(f64 \<Rightarrow> f64 \<Rightarrow> bool) \<Rightarrow> string \<Rightarrow> jv \<Rightarrow> f64 \<Rightarrow> bool" where
  "beyond cmp bound node x =
     (case Option.bind (obj_get bound node) number_of of None \<Rightarrow> False | Some m \<Rightarrow> cmp x m)"

fun repeats :: "jv list \<Rightarrow> jv list \<Rightarrow> bool" where
  "repeats seen [] = False"
| "repeats seen (v # vs) = (list_ex (\<lambda>u. value_eq u v) seen \<or> repeats (seen @ [v]) vs)"

definition validate_number :: "string \<Rightarrow> jv \<Rightarrow> f64 \<Rightarrow> (settings_error, unit) res" where
  "validate_number key node x =
     (if beyond (<) ''minimum'' node x \<or> beyond (>) ''maximum'' node x then
        mismatch key ''number within schema bounds'' ''number''
      else if beyond (\<le>) ''exclusiveMinimum'' node x then mismatch key ''number above schema minimum'' ''number''
      else Inr ())"

definition validate_items :: "string \<Rightarrow> jv \<Rightarrow> jv list \<Rightarrow> (settings_error, unit) res" where
  "validate_items key node items =
     (if obj_get ''uniqueItems'' node = Some (JBool True) \<and> repeats [] items then
        mismatch key ''unique array values'' ''array''
      else if value_at node [''items'', ''type''] = Some (JStr ''string'')
          \<and> list_ex (\<lambda>v. case v of JStr s \<Rightarrow> s = [] | _ \<Rightarrow> True) items then
        mismatch key ''non-empty string array'' ''array''
      else Inr ())"

definition validate_value :: "string \<Rightarrow> jv \<Rightarrow> (settings_error, unit) res" where
  "validate_value key v =
     bind_res (schema_for_path key) (\<lambda>node.
     if \<not> type_admits node v then mismatch key ''schema-declared type'' (value_type v)
     else if (case obj_get ''const'' node of None \<Rightarrow> False | Some c \<Rightarrow> \<not> value_eq c v) then
       mismatch key ''schema constant'' (value_type v)
     else if (case obj_get ''enum'' node of Some (JArr vs) \<Rightarrow> \<not> list_ex (\<lambda>u. value_eq u v) vs | _ \<Rightarrow> False) then
       mismatch key ''allowed enum value'' (value_type v)
     else
       bind_res (case number_of v of None \<Rightarrow> Inr () | Some x \<Rightarrow> validate_number key node x) (\<lambda>_.
       bind_res (case v of JArr items \<Rightarrow> validate_items key node items | _ \<Rightarrow> Inr ()) (\<lambda>_.
       if obj_get ''format'' node = Some (JStr ''uri'') \<and> (case v of JStr s \<Rightarrow> \<not> contains_str ''://'' s | _ \<Rightarrow> False) then
         mismatch key ''URI'' ''string''
       else Inr ())))"

fun validate_overlay :: "jv \<Rightarrow> jv \<Rightarrow> string \<Rightarrow> (settings_error, unit) res"
  and validate_entries :: "(string \<times> jv) list \<Rightarrow> (string \<times> jv) list \<Rightarrow> string \<Rightarrow> (settings_error, unit) res" where
  "validate_overlay defaults (JObj es) pre =
     (case defaults of JObj ds \<Rightarrow> validate_entries ds es pre | _ \<Rightarrow> Inl RootNotObject)"
| "validate_overlay defaults _ pre = Inl RootNotObject"
| "validate_entries ds [] pre = Inr ()"
| "validate_entries ds ((k, v) # es) pre =
     bind_res (case map_of ds k of
         None \<Rightarrow> Inl (UnknownKey (child_path pre k))
       | Some expected \<Rightarrow>
           if is_object expected \<and> is_object v then validate_overlay expected v (child_path pre k)
           else validate_value (child_path pre k) v) (\<lambda>_.
     validate_entries ds es pre)"

section \<open>Snapshots\<close>

definition derived_mode :: "jv \<Rightarrow> string" where
  "derived_mode settings =
     (if value_at settings [''history'', ''external_db'', ''provision''] = Some (JBool True) then ''fabric-managed''
      else case value_at settings [''history'', ''external_db'', ''dsn''] of
        Some (JStr dsn) \<Rightarrow> if trim dsn \<noteq> [] then ''external'' else ''thin''
      | _ \<Rightarrow> ''thin'')"

definition derive_read_only :: "jv \<Rightarrow> (settings_error, jv) res" where
  "derive_read_only settings =
     (let history = (case obj_get ''history'' settings of None \<Rightarrow> JNull | Some h \<Rightarrow> h) in
      bind_res (index_put ''mode'' (JStr (derived_mode settings)) history) (\<lambda>h. index_put ''history'' h settings))"

record snapshot =
  sn_revision :: int
  sn_defaults :: jv
  sn_hub :: jv
  sn_repo :: jv
  sn_effective :: jv

definition snapshot_new :: "int \<Rightarrow> jv \<Rightarrow> jv \<Rightarrow> (settings_error, snapshot) res" where
  "snapshot_new revision hub repo =
     bind_res (validate_overlay settings_defaults hub []) (\<lambda>_.
     bind_res (validate_overlay settings_defaults repo []) (\<lambda>_.
     bind_res (derive_read_only (merge (merge settings_defaults hub) repo)) (\<lambda>effective.
     Inr \<lparr>sn_revision = revision, sn_defaults = settings_defaults, sn_hub = hub, sn_repo = repo,
          sn_effective = effective\<rparr>)))"

definition get_setting :: "snapshot \<Rightarrow> string \<Rightarrow> bool \<Rightarrow> (settings_error, jv) res" where
  "get_setting s key show_sensitive =
     (case pointer (sn_effective s) key of
        None \<Rightarrow> Inl (UnknownKey key)
      | Some v \<Rightarrow> Inr (if \<not> show_sensitive \<and> key \<in> set sensitive_paths then redaction else v))"

text \<open>The slot at a path, when there is one that is not null.\<close>

definition hide :: "jv \<Rightarrow> jv" where
  "hide v = (if v = JNull then JNull else redaction)"

definition redact_settings :: "jv \<Rightarrow> jv" where
  "redact_settings v = fold (\<lambda>path u. edit_at hide u (path_segments path)) sensitive_paths v"

definition redacted_effective :: "snapshot \<Rightarrow> jv" where
  "redacted_effective s = redact_settings (sn_effective s)"

definition set_hub :: "snapshot \<Rightarrow> string \<Rightarrow> jv \<Rightarrow> (settings_error, snapshot) res" where
  "set_hub s key v =
     (if key \<in> set read_only_paths then Inl (ReadOnly key)
      else if pointer (sn_defaults s) key = None then Inl (UnknownKey key)
      else
        bind_res (validate_value key v) (\<lambda>_.
        bind_res (set_pointer (sn_hub s) key v) (\<lambda>hub.
        snapshot_new (sn_revision s + 1) hub (sn_repo s))))"

definition reset_hub :: "snapshot \<Rightarrow> string \<Rightarrow> (settings_error, snapshot) res" where
  "reset_hub s key =
     (if key \<in> set read_only_paths then Inl (ReadOnly key)
      else if pointer (sn_defaults s) key = None then Inl (UnknownKey key)
      else snapshot_new (sn_revision s + 1) (remove_pointer (sn_hub s) key) (sn_repo s))"

record settings_change =
  sc_key :: string
  sc_before :: jv
  sc_after :: jv

definition change_of :: "string \<Rightarrow> jv \<Rightarrow> jv \<Rightarrow> settings_change" where
  "change_of key before after =
     (let shown = (\<lambda>v. if key \<in> set sensitive_paths then hide v else v) in
      \<lparr>sc_key = key, sc_before = shown before, sc_after = shown after\<rparr>)"

definition entry_or_null :: "(string \<times> jv) list \<Rightarrow> string \<Rightarrow> jv" where
  "entry_or_null es k = (case map_of es k of None \<Rightarrow> JNull | Some v \<Rightarrow> v)"

text \<open>The keys of two objects in order, each once: the code sorts and drops repetitions.\<close>

definition keys_of_both :: "(string \<times> jv) list \<Rightarrow> (string \<times> jv) list \<Rightarrow> string list" where
  "keys_of_both as bs = remdups_adj (sort (map fst as @ map fst bs))"

lemma entry_or_null_size: "size (entry_or_null es k) \<le> size (JObj es)"
  using map_of_SomeD [of es k] by (auto simp: entry_or_null_def split: option.splits dest!: entry_size)

lemma entry_or_null_less: "k \<in> fst ` set es \<Longrightarrow> size (entry_or_null es k) < size (JObj es)"
  using map_of_SomeD [of es k] by (auto simp: entry_or_null_def map_of_eq_None_iff split: option.splits dest!: entry_size)

lemma keys_of_both_in: "k \<in> set (keys_of_both as bs) \<Longrightarrow> k \<in> fst ` set as \<or> k \<in> fst ` set bs"
  by (auto simp: keys_of_both_def)

function diff_values :: "string \<Rightarrow> jv \<Rightarrow> jv \<Rightarrow> settings_change list" where
  "diff_values pre before after =
     (if value_eq before after then []
      else case before of
        JObj as \<Rightarrow>
          (case after of
             JObj bs \<Rightarrow> concat (map (\<lambda>k. diff_values (child_path pre k) (entry_or_null as k) (entry_or_null bs k))
                (keys_of_both as bs))
           | _ \<Rightarrow> [change_of pre before after])
      | _ \<Rightarrow> [change_of pre before after])"
  by pat_completeness auto

termination
proof (relation "measure (\<lambda>(_, before, after). size before + size after)")
  fix pre :: string and before after :: jv and as bs k
  assume a: "before = JObj as" "after = JObj bs" "k \<in> set (keys_of_both as bs)"
  have "size (entry_or_null as k) + size (entry_or_null bs k) < size (JObj as) + size (JObj bs)"
    using keys_of_both_in [OF a(3)] entry_or_null_size [of as k] entry_or_null_size [of bs k]
      entry_or_null_less [of k as] entry_or_null_less [of k bs] by linarith
  then show "((child_path pre k, entry_or_null as k, entry_or_null bs k), pre, before, after)
      \<in> measure (\<lambda>(_, before, after). size before + size after)"
    by (simp add: a)
qed simp

declare diff_values.simps [simp del]

definition import_hub :: "snapshot \<Rightarrow> jv \<Rightarrow> (settings_error, snapshot \<times> settings_change list) res" where
  "import_hub s hub =
     bind_res (snapshot_new (sn_revision s + 1) hub (sn_repo s)) (\<lambda>next_s.
     Inr (next_s, diff_values [] (sn_effective s) (sn_effective next_s)))"

definition snapshot_value :: "snapshot \<Rightarrow> jv" where
  "snapshot_value s =
     jobj [(''revision'', jint (sn_revision s)), (''defaults'', redact_settings (sn_defaults s)),
           (''hub'', redact_settings (sn_hub s)), (''repo'', redact_settings (sn_repo s)),
           (''effective'', redact_settings (sn_effective s))]"

definition change_value :: "settings_change \<Rightarrow> jv" where
  "change_value c = jobj [(''key'', JStr (sc_key c)), (''before'', sc_before c), (''after'', sc_after c)]"

section \<open>Objects\<close>

lemma map_of_put_entry [simp]: "map_of (put_entry k v es) = (map_of es)(k \<mapsto> v)"
  by (induction es rule: put_entry.induct [of _ k v]) auto

lemma put_entry_in: "e \<in> set (put_entry k v es) \<Longrightarrow> e = (k, v) \<or> e \<in> set es"
  by (induction k v es rule: put_entry.induct) (auto split: if_splits)

lemma sorted_put_entry: "sorted_wrt (<) (map fst es) \<Longrightarrow> sorted_wrt (<) (map fst (put_entry k v es))"
proof (induction k v es rule: put_entry.induct)
  case (2 k v l u es)
  have later: "k = l \<or> k < l \<or> l < k" using less_linear [of k l] by blast
  then show ?case using 2
    by (elim disjE) (auto dest!: put_entry_in intro: less_trans)
qed simp

text \<open>A value whose objects are maps: keys in order, none twice.\<close>

fun ordered :: "jv \<Rightarrow> bool" where
  "ordered (JObj es) = (sorted_wrt (<) (map fst es) \<and> list_all (\<lambda>e. ordered (snd e)) es)"
| "ordered _ = True"

lemma wf_json_ordered: "wf_json v \<Longrightarrow> ordered v"
proof (induction v rule: ordered.induct)
  case (1 es)
  then show ?case by (auto simp: list_all_iff)
qed simp_all

lemma ordered_get: "ordered v \<Longrightarrow> obj_get k v = Some u \<Longrightarrow> ordered u"
  by (cases v) (auto simp: list_all_iff dest!: map_of_SomeD)

lemma ordered_put: "ordered (JObj es) \<Longrightarrow> ordered v \<Longrightarrow> ordered (JObj (put_entry k v es))"
proof -
  assume a: "ordered (JObj es)" "ordered v"
  show ?thesis using a sorted_put_entry [of es k v] by (auto simp: list_all_iff dest!: put_entry_in)
qed

lemma ordered_distinct: "ordered (JObj es) \<Longrightarrow> distinct (map fst es)"
  by (simp add: strict_sorted_iff)

lemma value_at_append: "value_at v (xs @ ys) = Option.bind (value_at v xs) (\<lambda>u. value_at u ys)"
  by (induction xs arbitrary: v) (auto split: option.splits)

lemma value_at_scalar: "\<not> is_object v \<Longrightarrow> value_at v ss = (if ss = [] then Some v else None)"
  by (cases v; cases ss) (auto simp: is_object_def obj_get_def)

lemma value_at_prefix:
  assumes "value_at v ss = Some x" "\<not> is_object x" "value_at v tt = Some y" "\<not> is_object y" "prefix ss tt"
  shows "ss = tt"
proof -
  obtain rest where r: "tt = ss @ rest" using assms(5) by (auto simp: prefix_def)
  then have "value_at x rest = Some y" using assms(1,3) by (simp add: value_at_append)
  then show ?thesis using assms(2) r by (simp add: value_at_scalar split: if_splits)
qed

section \<open>Looking a merge up\<close>

lemma map_of_merge_entries:
  "distinct (map fst es) \<Longrightarrow>
   map_of (merge_entries bs es) k =
     (case map_of es k of None \<Rightarrow> map_of bs k
      | Some v \<Rightarrow> Some (case map_of bs k of None \<Rightarrow> v | Some b \<Rightarrow> merge b v))"
proof (induction es arbitrary: bs)
  case (Cons e es)
  obtain l u where e: "e = (l, u)" by (cases e)
  have fresh: "k = l \<Longrightarrow> map_of es k = None" using Cons.prems by (auto simp: e map_of_eq_None_iff)
  show ?case
    using Cons.IH [of "put_entry l (case map_of bs l of None \<Rightarrow> u | Some b \<Rightarrow> merge b u) bs"] Cons.prems fresh
    by (auto simp: e split: option.splits)
qed simp

lemma value_at_merge:
  "ordered u \<Longrightarrow> value_at u ss = Some v \<Longrightarrow>
   value_at (merge b u) ss = Some (case value_at b ss of None \<Rightarrow> v | Some x \<Rightarrow> merge x v)"
proof (induction ss arbitrary: b u)
  case (Cons s ss)
  then obtain es w where es: "u = JObj es" "map_of es s = Some w" "value_at w ss = Some v"
    by (cases u) (auto split: option.splits)
  have w: "ordered w" using ordered_get [OF Cons.prems(1), of s w] es by simp
  note d = map_of_merge_entries [OF ordered_distinct [OF Cons.prems(1) [unfolded es(1)]]]
  show ?case
  proof (cases "is_object b")
    case False
    then have "merge b u = u" by (cases b) (simp_all add: es(1) is_object_def)
    moreover have "value_at b (s # ss) = None" using False value_at_scalar [of b "s # ss"] by simp
    ultimately show ?thesis using Cons.prems(2) by (simp only: option.case)
  next
    case True
    then obtain bs where b: "b = JObj bs" by (cases b) (simp_all add: is_object_def)
    show ?thesis
      using Cons.IH [OF w es(3)] es(3) by (auto simp: es(1,2) b d split: option.splits)
  qed
qed simp

text \<open>An overlay of the shape of the defaults: an object exactly where they have one, over their keys.\<close>

inductive fits :: "jv \<Rightarrow> jv \<Rightarrow> bool" where
  Leaf: "\<not> is_object d \<Longrightarrow> \<not> is_object u \<Longrightarrow> fits d u"
| Node: "(\<And>k v. map_of es k = Some v \<Longrightarrow> \<exists>e. map_of ds k = Some e \<and> fits e v) \<Longrightarrow> fits (JObj ds) (JObj es)"

inductive_cases fits_objE: "fits (JObj ds) u"

lemma fits_obj: "fits (JObj ds) u \<Longrightarrow> \<exists>es. u = JObj es \<and> (\<forall>k v. map_of es k = Some v \<longrightarrow> (\<exists>e. map_of ds k = Some e \<and> fits e v))"
  by (erule fits_objE) (auto simp: is_object_def)

lemma fits_object_iff: "fits d u \<Longrightarrow> is_object u = is_object d"
  by (erule fits.cases) (auto simp: is_object_def)

lemma fits_at: "fits d u \<Longrightarrow> value_at u ss = Some v \<Longrightarrow> \<exists>e. value_at d ss = Some e \<and> fits e v"
proof (induction ss arbitrary: d u)
  case (Cons s ss)
  then obtain es w where es: "u = JObj es" "map_of es s = Some w" "value_at w ss = Some v"
    by (cases u) (auto split: option.splits)
  obtain ds where d: "d = JObj ds" using fits_object_iff [OF Cons.prems(1)] by (cases d) (auto simp: es is_object_def)
  obtain e where e: "map_of ds s = Some e" "fits e w" using fits_obj Cons.prems(1) es(1,2) d by blast
  show ?case using Cons.IH [OF e(2) es(3)] by (simp add: d e(1))
qed simp

lemma value_at_merge_absent:
  "fits d u \<Longrightarrow> ordered u \<Longrightarrow> value_at d ss = Some x \<Longrightarrow> value_at u ss = None \<Longrightarrow> value_at (merge d u) ss = Some x"
proof (induction ss arbitrary: d u)
  case (Cons s ss)
  then obtain ds e where ds: "d = JObj ds" "map_of ds s = Some e" "value_at e ss = Some x"
    by (cases d) (auto split: option.splits)
  obtain es where es: "u = JObj es" using fits_obj Cons.prems(1) ds(1) by blast
  note m = map_of_merge_entries [OF ordered_distinct [OF Cons.prems(2) [unfolded es]]]
  show ?case
  proof (cases "map_of es s")
    case None
    then show ?thesis using ds by (simp add: es m)
  next
    case (Some w)
    then have "fits e w" using fits_obj Cons.prems(1) ds(1,2) es by fastforce
    moreover have "ordered w" using ordered_get [OF Cons.prems(2), of s w] Some es by simp
    moreover have "value_at w ss = None" using Cons.prems(4) Some by (simp add: es)
    ultimately show ?thesis using Cons.IH [OF _ _ ds(3)] by (simp add: ds(1,2) es m Some)
  qed
qed simp

lemma fits_merge: "fits d u \<Longrightarrow> ordered u \<Longrightarrow> fits d v \<Longrightarrow> fits (merge d u) v"
proof (induction arbitrary: v rule: fits.induct)
  case (Leaf d u)
  then have "merge d u = u" by (cases u) (simp_all add: is_object_def)
  then show ?case using Leaf fits_object_iff [OF Leaf(4)] by (auto intro: fits.Leaf)
next
  case (Node es ds)
  obtain vs where vs: "v = JObj vs" "\<And>k w. map_of vs k = Some w \<Longrightarrow> \<exists>e. map_of ds k = Some e \<and> fits e w"
    using fits_obj Node.prems(2) by blast
  note m = map_of_merge_entries [OF ordered_distinct [OF Node.prems(1)]]
  have "\<exists>e. map_of (merge_entries ds es) k = Some e \<and> fits e w" if k: "map_of vs k = Some w" for k w
  proof -
    obtain e where e: "map_of ds k = Some e" "fits e w" using vs(2) [OF k] by blast
    show ?thesis
    proof (cases "map_of es k")
      case None
      then show ?thesis using e by (simp add: m)
    next
      case (Some x)
      have "ordered x" using ordered_get [OF Node.prems(1), of k x] Some by simp
      then have "fits (merge e x) w" using Node.IH [OF Some] e by auto
      then show ?thesis using e Some by (simp add: m)
    qed
  qed
  then show ?case by (auto simp: vs(1) intro: fits.Node)
qed

section \<open>What validation guarantees\<close>

text \<open>The path of a segment list, and the schema node it leads to.\<close>

definition spells :: "string \<Rightarrow> string list \<Rightarrow> bool" where
  "spells pre ss \<longleftrightarrow> (if pre = [] then ss = [] else path_segments pre = ss)"

lemma spells_child:
  assumes "spells pre ss" "CHR ''.'' \<notin> set k" "k \<noteq> []"
  shows "spells (child_path pre k) (ss @ [k])" and "path_segments (child_path pre k) = ss @ [k]"
  using assms split_on_append_Cons [of "CHR ''.''" pre k]
  by (auto simp: spells_def child_path_def path_segments_def split_on_no_sep)

fun agrees :: "jv \<Rightarrow> jv \<Rightarrow> bool" and agrees_entries :: "(string \<times> jv) list \<Rightarrow> jv \<Rightarrow> bool" where
  "agrees (JObj ds) node = agrees_entries ds node"
| "agrees _ node = (\<not> type_admits node (JObj []))"
| "agrees_entries [] node = True"
| "agrees_entries ((k, d) # ds) node =
     (k \<noteq> [] \<and> CHR ''.'' \<notin> set k \<and>
      (case schema_node node [k] of
         None \<Rightarrow> False
       | Some child \<Rightarrow>
           agrees d child \<and> (is_object d \<longrightarrow> obj_get ''type'' child = Some (JStr ''object'')))
      \<and> agrees_entries ds node)"

lemma defaults_agree: "agrees settings_defaults settings_schema"
  by code_simp

lemma agrees_entriesD:
  "agrees_entries ds node \<Longrightarrow> map_of ds k = Some d \<Longrightarrow>
   k \<noteq> [] \<and> CHR ''.'' \<notin> set k \<and>
   (\<exists>child. schema_node node [k] = Some child \<and> agrees d child
      \<and> (is_object d \<longrightarrow> obj_get ''type'' child = Some (JStr ''object'')))"
  by (induction ds) (auto split: if_splits option.splits)

lemma schema_node_append: "schema_node node (ss @ ts) = Option.bind (schema_node node ss) (\<lambda>n. schema_node n ts)"
  by (induction ss arbitrary: node) (auto split: option.splits)

lemma validate_entriesD:
  "validate_entries ds es pre = Inr () \<Longrightarrow> (k, v) \<in> set es \<Longrightarrow>
   \<exists>d. map_of ds k = Some d \<and>
     (if is_object d \<and> is_object v then validate_overlay d v (child_path pre k) = Inr ()
      else validate_value (child_path pre k) v = Inr ())"
  by (induction es) (auto simp: bind_res_Inr_iff split: option.splits if_splits)

lemma kind_admits_object: "kind_admits k (JObj es) = (k = JStr ''object'')"
  by (simp add: kind_admits_def is_integer_def)

lemma type_admits_object: "is_object v \<Longrightarrow> type_admits node v = type_admits node (JObj [])"
  by (cases v) (simp_all add: is_object_def type_admits_def kind_admits_object split: option.split json.split)

lemma object_type_only: "obj_get ''type'' node = Some (JStr ''object'') \<Longrightarrow> type_admits node v \<Longrightarrow> is_object v"
  by (cases v) (simp_all add: is_object_def type_admits_def kind_admits_def is_integer_def)

lemma validate_value_type:
  "validate_value key v = Inr () \<Longrightarrow> schema_node settings_schema (path_segments key) = Some node \<Longrightarrow> type_admits node v"
  by (simp add: validate_value_def schema_for_path_def mismatch_def split: if_splits)

lemma validated_fits_entries:
  "validate_overlay d u pre = Inr () \<Longrightarrow> spells pre ss \<Longrightarrow> schema_node settings_schema ss = Some node \<Longrightarrow>
   agrees d node \<Longrightarrow> ordered u \<Longrightarrow> fits d u"
proof (induction "size u" arbitrary: d u pre ss node rule: less_induct)
  case less
  obtain ds es where du: "d = JObj ds" "u = JObj es" and valid: "validate_entries ds es pre = Inr ()"
    using less.prems(1) by (cases u; cases d) simp_all
  have "\<exists>e. map_of ds k = Some e \<and> fits e v" if k: "map_of es k = Some v" for k v
  proof -
    obtain e where e: "map_of ds k = Some e"
      "if is_object e \<and> is_object v then validate_overlay e v (child_path pre k) = Inr ()
       else validate_value (child_path pre k) v = Inr ()"
      using validate_entriesD [OF valid map_of_SomeD [OF k]] by blast
    obtain child where c: "k \<noteq> []" "CHR ''.'' \<notin> set k" "schema_node node [k] = Some child" "agrees e child"
      "is_object e \<Longrightarrow> obj_get ''type'' child = Some (JStr ''object'')"
      using agrees_entriesD [OF _ e(1), of node] less.prems(4) du(1) by auto
    note path = spells_child [OF less.prems(2) c(2,1)]
    have at: "schema_node settings_schema (ss @ [k]) = Some child"
      using less.prems(3) c(3) by (simp add: schema_node_append del: schema_node.simps)
    have smaller: "size v < size u" using entry_size [OF map_of_SomeD [OF k]] by (simp add: du(2))
    have ov: "ordered v" using ordered_get [OF less.prems(5), of k v] k by (simp add: du(2))
    have "fits e v"
    proof (cases "is_object e \<and> is_object v")
      case True
      then show ?thesis using less.hyps [OF smaller _ path(1) at c(4) ov] e(2) by simp
    next
      case False
      have adm: "type_admits child v" using validate_value_type [of "child_path pre k" v child] e(2) False at path(2) by simp
      have "\<not> is_object e" using object_type_only [OF c(5) adm] False by blast
      moreover have "\<not> is_object v"
        using calculation c(4) adm type_admits_object [of v child] by (cases e) (simp add: is_object_def | fastforce)+
      ultimately show ?thesis by (rule fits.Leaf)
    qed
    then show ?thesis using e(1) by blast
  qed
  then show ?case by (auto simp: du intro: fits.Node)
qed

lemma validated_fits: "validate_overlay settings_defaults u [] = Inr () \<Longrightarrow> ordered u \<Longrightarrow> fits settings_defaults u"
  by (rule validated_fits_entries [where pre = "[]" and ss = "[]" and node = settings_schema])
     (simp add: spells_def defaults_agree)+

section \<open>Resolution\<close>

definition leaf_path :: "string list \<Rightarrow> bool" where
  "leaf_path ss \<longleftrightarrow> (case value_at settings_defaults ss of None \<Rightarrow> False | Some d \<Rightarrow> \<not> is_object d)
     \<and> ss \<noteq> [''history'', ''mode'']"

text \<open>The value the nearest tier gives a leaf.\<close>

definition nearest :: "jv \<Rightarrow> jv \<Rightarrow> string list \<Rightarrow> jv option" where
  "nearest hub repo ss =
     (case value_at repo ss of Some v \<Rightarrow> Some v
      | None \<Rightarrow> (case value_at hub ss of Some v \<Rightarrow> Some v | None \<Rightarrow> value_at settings_defaults ss))"

lemma leaf_pathE:
  assumes "leaf_path ss" obtains d where "value_at settings_defaults ss = Some d" "\<not> is_object d" "ss \<noteq> [''history'', ''mode'']"
  using assms by (auto simp: leaf_path_def split: option.splits)

lemma merge_leaf: "\<not> is_object d \<Longrightarrow> merge d v = v"
  by (cases v; cases d) (simp_all add: is_object_def)

lemma merge_at_leaf:
  assumes "fits d u" "ordered u" "value_at d ss = Some x" "\<not> is_object x"
  shows "value_at (merge d u) ss = (case value_at u ss of Some v \<Rightarrow> Some v | None \<Rightarrow> Some x)"
  using assms value_at_merge [OF assms(2), of ss _ d] value_at_merge_absent [OF assms(1,2,3)] merge_leaf [OF assms(4)]
  by (auto split: option.splits)

lemma merged_twice:
  assumes "fits d hub" "ordered hub" "fits d repo" "ordered repo" "value_at d ss = Some x" "\<not> is_object x"
  shows "value_at (merge (merge d hub) repo) ss =
    (case value_at repo ss of Some v \<Rightarrow> Some v
     | None \<Rightarrow> (case value_at hub ss of Some v \<Rightarrow> Some v | None \<Rightarrow> Some x))"
proof -
  note once = merge_at_leaf [OF assms(1,2,5,6)]
  obtain y where y: "value_at (merge d hub) ss = Some y" "\<not> is_object y"
  proof (cases "value_at hub ss")
    case None
    then show thesis using once assms(6) that by simp
  next
    case (Some v)
    then have "fits x v" using fits_at [OF assms(1) Some] assms(5) by auto
    then show thesis using once Some assms(6) fits_object_iff that by auto
  qed
  show ?thesis using merge_at_leaf [OF fits_merge [OF assms(1,2,3)] assms(4) y] once y(1) by (auto split: option.splits)
qed

lemma value_at_put: "value_at (JObj (put_entry k u es)) (s # ss) = (if s = k then value_at u ss else value_at (JObj es) (s # ss))"
  by simp

lemma derive_at:
  assumes "derive_read_only v = Inr w" "value_at v [''history'', ''mode''] \<noteq> None"
  shows "value_at w [''history'', ''mode''] = Some (JStr (derived_mode v))"
    and "ss \<noteq> [] \<Longrightarrow> ss \<noteq> [''history''] \<Longrightarrow> take 2 ss \<noteq> [''history'', ''mode''] \<Longrightarrow> value_at w ss = value_at v ss"
proof -
  obtain es hs where v: "v = JObj es" "map_of es ''history'' = Some (JObj hs)"
    using assms(2) by (cases v; cases "the (obj_get ''history'' v)") (auto split: option.splits)
  have w: "w = JObj (put_entry ''history'' (JObj (put_entry ''mode'' (JStr (derived_mode v)) hs)) es)"
    using assms(1) by (simp add: derive_read_only_def index_put_def v)
  show "value_at w [''history'', ''mode''] = Some (JStr (derived_mode v))" by (simp add: w)
  assume s: "ss \<noteq> []" "ss \<noteq> [''history'']" "take 2 ss \<noteq> [''history'', ''mode'']"
  show "value_at w ss = value_at v ss"
  proof (cases ss rule: remdups_adj.cases)
    case (3 a b cs)
    then show ?thesis using s by (auto simp: w v)
  qed (use s in \<open>auto simp: w v\<close>)
qed

lemma derive_works:
  assumes "value_at v [''history'', ''mode''] \<noteq> None" shows "\<exists>w. derive_read_only v = Inr w"
proof -
  obtain es hs where "v = JObj es" "map_of es ''history'' = Some (JObj hs)"
    using assms by (cases v; cases "the (obj_get ''history'' v)") (auto split: option.splits)
  then show ?thesis by (simp add: derive_read_only_def index_put_def)
qed

lemma default_mode: "value_at settings_defaults [''history'', ''mode''] = Some (JStr ''thin'')"
  by code_simp

lemma leaf_apart_from_mode: "leaf_path ss \<Longrightarrow> ss \<noteq> [] \<and> ss \<noteq> [''history''] \<and> take 2 ss \<noteq> [''history'', ''mode'']"
proof (intro conjI notI)
  assume l: "leaf_path ss" and t: "take 2 ss = [''history'', ''mode'']"
  obtain d where d: "value_at settings_defaults ss = Some d" "ss \<noteq> [''history'', ''mode'']" using l by (rule leaf_pathE)
  have "ss = [''history'', ''mode''] @ drop 2 ss" using append_take_drop_id [of 2 ss] t by simp
  then have "value_at settings_defaults ([''history'', ''mode''] @ drop 2 ss) = Some d" using d(1) by simp
  then have "value_at (JStr ''thin'') (drop 2 ss) = Some d"
    unfolding value_at_append default_mode by simp
  then have "drop 2 ss = []" by (cases "drop 2 ss") simp_all
  then show False using d(2) \<open>ss = _\<close> by simp
next
  assume "leaf_path ss" "ss = []" then show False by (simp add: leaf_path_def settings_defaults_def is_object_def)
next
  assume "leaf_path ss" "ss = [''history'']" then show False
    by (simp add: leaf_path_def settings_defaults_def is_object_def)
qed

lemma snapshot_newD:
  assumes "snapshot_new revision hub repo = Inr s"
  shows "validate_overlay settings_defaults hub [] = Inr ()" "validate_overlay settings_defaults repo [] = Inr ()"
    "derive_read_only (merge (merge settings_defaults hub) repo) = Inr (sn_effective s)"
    "sn_revision s = revision" "sn_defaults s = settings_defaults" "sn_hub s = hub" "sn_repo s = repo"
  using assms by (auto simp: snapshot_new_def bind_res_Inr_iff)

lemma settings_tiers:
  assumes "ordered hub" "ordered repo"
    "validate_overlay settings_defaults hub [] = Inr ()" "validate_overlay settings_defaults repo [] = Inr ()"
  shows "\<exists>s. snapshot_new revision hub repo = Inr s \<and> sn_revision s = revision
    \<and> (\<forall>ss. leaf_path ss \<longrightarrow> value_at (sn_effective s) ss = nearest hub repo ss)
    \<and> value_at (sn_effective s) [''history'', ''mode''] = Some (JStr (derived_mode (sn_effective s)))"
proof -
  let ?v = "merge (merge settings_defaults hub) repo"
  note f = validated_fits [OF assms(3,1)] validated_fits [OF assms(4,2)]
  have tiers: "value_at ?v ss = nearest hub repo ss" if "value_at settings_defaults ss = Some d" "\<not> is_object d" for ss d
    using merged_twice [OF f(1) assms(1) f(2) assms(2) that] that(1) by (simp add: nearest_def split: option.splits)
  have m: "value_at ?v [''history'', ''mode''] \<noteq> None"
    using tiers [OF default_mode] by (simp add: default_mode nearest_def is_object_def del: value_at.simps split: option.splits)
  obtain w where w: "derive_read_only ?v = Inr w" using derive_works [OF m] by blast
  have apart: "value_at w ss = value_at ?v ss" if "leaf_path ss" for ss
    using derive_at(2) [OF w m, of ss] leaf_apart_from_mode [OF that] by blast
  have db: "value_at w [''history'', ''external_db'', k] = value_at ?v [''history'', ''external_db'', k]" for k
    by (rule derive_at(2) [OF w m]) simp_all
  have "derived_mode w = derived_mode ?v" unfolding derived_mode_def db ..
  moreover have "value_at w ss = nearest hub repo ss" if "leaf_path ss" for ss
    using apart tiers that by (auto elim: leaf_pathE)
  ultimately show ?thesis using assms(3,4) w derive_at(1) [OF w m] by (simp add: snapshot_new_def)
qed

text \<open>C33. Settings resolve in three tiers: once both overlays pass validation a snapshot exists, and
  at every leaf of the defaults the effective value is that of the repository overlay, else of the hub
  overlay, else the default; the read-only mode of the history is computed from the effective database
  settings. Keys of JSON objects are unique, as the store keeps them.\<close>

theorem settings_three_tiers:
  assumes "ordered hub" "ordered repo"
    "validate_overlay settings_defaults hub [] = Inr ()" "validate_overlay settings_defaults repo [] = Inr ()"
  shows "\<exists>s. snapshot_new revision hub repo = Inr s \<and> sn_revision s = revision
    \<and> (\<forall>ss. leaf_path ss \<longrightarrow> value_at (sn_effective s) ss = nearest hub repo ss)
    \<and> value_at (sn_effective s) [''history'', ''mode''] = Some (JStr (derived_mode (sn_effective s)))"
  using settings_tiers [OF assms] .

section \<open>Edits\<close>

definition apart :: "string list \<Rightarrow> string list \<Rightarrow> bool" where
  "apart ss tt \<longleftrightarrow> \<not> prefix ss tt \<and> \<not> prefix tt ss"

lemma leaf_paths_apart: "leaf_path ss \<Longrightarrow> leaf_path tt \<Longrightarrow> ss \<noteq> tt \<Longrightarrow> apart ss tt"
  unfolding apart_def by (metis leaf_pathE value_at_prefix)

lemma apart_Cons: "apart (s # ss) (t # tt) \<longleftrightarrow> s = t \<longrightarrow> apart ss tt"
  by (auto simp: apart_def)

lemma apart_single: "apart [s] tt \<longleftrightarrow> (\<exists>t rest. tt = t # rest \<and> t \<noteq> s)"
  by (cases tt) (auto simp: apart_def)

lemma set_at_looks:
  "set_at key ss v es = Inr ws \<Longrightarrow>
   value_at (JObj ws) ss = Some v \<and> (\<forall>tt. apart ss tt \<longrightarrow> value_at (JObj ws) tt = value_at (JObj es) tt)"
proof (induction key ss v es arbitrary: ws rule: set_at.induct)
  case (2 key s v es)
  then show ?case by (auto simp: apart_single)
next
  case (3 key s s2 ss v es)
  obtain us xs where us: "(case map_of es s of None \<Rightarrow> JObj [] | Some u \<Rightarrow> u) = JObj us"
      "set_at key (s2 # ss) v us = Inr xs" "ws = put_entry s (JObj xs) es"
    using 3(2) by (auto simp: Let_def bind_res_Inr_iff split: json.splits)
  note ih = 3(1) [OF refl us(1) us(2)]
  have "value_at (JObj ws) tt = value_at (JObj es) tt" if a: "apart (s # s2 # ss) tt" for tt
  proof (cases tt)
    case (Cons t rest)
    show ?thesis
    proof (cases "t = s")
      case True
      then have r: "apart (s2 # ss) rest" using a Cons by (simp add: apart_Cons)
      then have "rest \<noteq> []" by (auto simp: apart_def)
      then show ?thesis using ih us(1) r Cons True us(3)
        by (cases "map_of es s"; cases rest) auto
    qed (simp add: Cons us(3))
  qed (use a in \<open>simp add: apart_def\<close>)
  then show ?case using ih us(3) by simp
qed simp

lemma ordered_set_at: "set_at key ss v es = Inr ws \<Longrightarrow> ordered (JObj es) \<Longrightarrow> ordered v \<Longrightarrow> ordered (JObj ws)"
proof (induction key ss v es arbitrary: ws rule: set_at.induct)
  case (2 key s v es)
  then show ?case using ordered_put by auto
next
  case (3 key s s2 ss v es)
  obtain us xs where us: "(case map_of es s of None \<Rightarrow> JObj [] | Some u \<Rightarrow> u) = JObj us"
      "set_at key (s2 # ss) v us = Inr xs" "ws = put_entry s (JObj xs) es"
    using 3(2) by (auto simp: Let_def bind_res_Inr_iff split: json.splits)
  have "ordered (JObj us)" using us(1) ordered_get [OF 3(3), of s] by (cases "map_of es s") auto
  then have "ordered (JObj xs)" using 3(1) [OF refl us(1) us(2)] 3(4) by simp
  then show ?case using ordered_put [OF 3(3)] us(3) by simp
qed simp

lemma map_of_remove_entry: "map_of (remove_entry k es) l = (if l = k then None else map_of es l)"
  by (induction es) (auto simp: remove_entry_def)

lemma remove_at_looks:
  "ss \<noteq> [] \<Longrightarrow> value_at (remove_at ss v) ss = None
    \<and> (\<forall>tt. apart ss tt \<longrightarrow> value_at (remove_at ss v) tt = value_at v tt)"
proof (induction ss v rule: remove_at.induct)
  case (2 s v)
  then show ?case
    by (cases v) (auto simp: apart_single map_of_remove_entry)
next
  case (3 s s2 ss v)
  show ?case
  proof (cases v)
    case (JObj es)
    show ?thesis
    proof (cases "map_of es s")
      case (Some u)
      note ih = 3(1) [OF JObj Some]
      have "value_at (remove_at (s # s2 # ss) v) tt = value_at v tt" if a: "apart (s # s2 # ss) tt" for tt
      proof (cases tt)
        case (Cons t rest)
        then show ?thesis using ih a by (cases "t = s") (simp_all add: JObj Some apart_Cons)
      qed (use a in \<open>simp add: apart_def\<close>)
      then show ?thesis using ih by (simp add: JObj Some)
    qed (simp add: JObj)
  qed simp_all
qed simp

lemma ordered_remove_at: "ordered v \<Longrightarrow> ordered (remove_at ss v)"
proof (induction ss v rule: remove_at.induct)
  case (2 s v)
  then show ?case
    by (cases v) (auto simp: remove_entry_def list_all_iff sorted_wrt_map intro: sorted_wrt_filter)
next
  case (3 s s2 ss v)
  show ?case
  proof (cases v)
    case (JObj es)
    show ?thesis
    proof (cases "map_of es s")
      case (Some u)
      have "ordered u" using ordered_get [OF 3(2), of s u] Some by (simp add: JObj)
      then show ?thesis using 3(1) [OF JObj Some] ordered_put [of es _ s] 3(2) by (simp add: JObj Some)
    qed (use 3(2) in \<open>simp add: JObj\<close>)
  qed simp_all
qed simp

lemma agrees_at: "agrees d node \<Longrightarrow> value_at d ss = Some x \<Longrightarrow> \<exists>child. schema_node node ss = Some child \<and> agrees x child"
proof (induction ss arbitrary: d node)
  case (Cons s ss)
  then obtain ds e where d: "d = JObj ds" "map_of ds s = Some e" "value_at e ss = Some x"
    by (cases d) (auto split: option.splits)
  obtain child where c: "schema_node node [s] = Some child" "agrees e child"
    using agrees_entriesD [OF _ d(2), of node] Cons.prems(1) d(1) by auto
  show ?case using Cons.IH [OF c(2) d(3)] schema_node_append [of node "[s]" ss] c(1) by (simp del: schema_node.simps)
qed simp

lemma leaf_takes_no_object: "leaf_path (path_segments key) \<Longrightarrow> validate_value key v = Inr () \<Longrightarrow> \<not> is_object v"
proof
  assume l: "leaf_path (path_segments key)" and v: "validate_value key v = Inr ()" "is_object v"
  obtain d where d: "value_at settings_defaults (path_segments key) = Some d" "\<not> is_object d" using l by (rule leaf_pathE)
  obtain child where c: "schema_node settings_schema (path_segments key) = Some child" "agrees d child"
    using agrees_at [OF defaults_agree d(1)] by blast
  have "type_admits child (JObj [])" using validate_value_type [OF v(1) c(1)] type_admits_object [OF v(2)] by simp
  then show False using c(2) d(2) by (cases d) (simp_all add: is_object_def)
qed

text \<open>C29. A change of one setting changes that setting only: after setting or resetting a leaf key, the
  hub overlay holds the new value (or none) at that leaf and is the same at every other leaf, the revision
  is the next one, and every leaf of the new snapshot resolves over the changed overlay.\<close>

theorem settings_edit_one_leaf:
  assumes "ordered hub" "ordered repo" "snapshot_new revision hub repo = Inr s" "leaf_path (path_segments key)"
    "(\<exists>v. change = Some v \<and> set_hub s key v = Inr t) \<or> (change = None \<and> reset_hub s key = Inr t)"
  shows "sn_revision t = revision + 1
    \<and> value_at (sn_hub t) (path_segments key) = change
    \<and> (\<forall>tt. leaf_path tt \<and> tt \<noteq> path_segments key \<longrightarrow> value_at (sn_hub t) tt = value_at hub tt)
    \<and> (\<forall>tt. leaf_path tt \<longrightarrow> value_at (sn_effective t) tt = nearest (sn_hub t) repo tt)"
proof -
  let ?ss = "path_segments key"
  note s = snapshot_newD [OF assms(3)]
  have ne: "?ss \<noteq> []" by (simp add: path_segments_def)
  obtain hub' where h: "snapshot_new (revision + 1) hub' repo = Inr t" "value_at hub' ?ss = change"
    "\<And>tt. apart ?ss tt \<Longrightarrow> value_at hub' tt = value_at hub tt" "ordered hub'"
    using assms(5)
  proof (elim disjE exE conjE)
    fix v assume c: "change = Some v" "set_hub s key v = Inr t"
    then obtain hub' where p: "set_pointer hub key v = Inr hub'" "snapshot_new (revision + 1) hub' repo = Inr t"
      "validate_value key v = Inr ()"
      using s by (auto simp: set_hub_def bind_res_Inr_iff split: if_splits)
    obtain es ws where e: "hub = JObj es" "set_at key ?ss v es = Inr ws" "hub' = JObj ws"
      using p(1) by (auto simp: set_pointer_def bind_res_Inr_iff split: json.splits)
    have "\<not> is_object v" using leaf_takes_no_object [OF assms(4) p(3)] .
    then have "ordered v" by (cases v) (simp_all add: is_object_def)
    then show thesis
      using that [OF p(2)] set_at_looks [OF e(2)] ordered_set_at [OF e(2)] assms(1) c(1) by (simp add: e(1,3))
  next
    assume c: "change = None" "reset_hub s key = Inr t"
    then have "snapshot_new (revision + 1) (remove_pointer hub key) repo = Inr t"
      using s by (auto simp: reset_hub_def split: if_splits)
    then show thesis
      using that remove_at_looks [OF ne, of hub] ordered_remove_at [OF assms(1)] c(1) by (simp add: remove_pointer_def)
  qed
  note t = snapshot_newD [OF h(1)]
  obtain t' where "snapshot_new (revision + 1) hub' repo = Inr t'"
      "\<forall>ss. leaf_path ss \<longrightarrow> value_at (sn_effective t') ss = nearest hub' repo ss"
    using settings_tiers [OF h(4) assms(2) t(1,2)] by blast
  then show ?thesis using h t leaf_paths_apart [OF assms(4)] by auto
qed

definition demo_overlay :: jv where
  "demo_overlay = JObj
     [(''history'', JObj [(''external_db'', JObj [(''dsn'', JStr ''db://u:p'')])]),
      (''runner'', JObj [(''heartbeat_seconds'', jint 20)])]"

definition demo_policy :: jv where
  "demo_policy = JObj [(''runner'', JObj [(''heartbeat_seconds'', jint 5)])]"

lemma demo_documents:
  "ordered demo_overlay" "ordered demo_policy"
  "validate_overlay settings_defaults demo_overlay [] = Inr ()"
  "validate_overlay settings_defaults demo_policy [] = Inr ()"
  by code_simp+

lemma demo_leaves:
  "leaf_path [''runner'', ''heartbeat_seconds'']" "leaf_path [''history'', ''external_db'', ''dsn'']"
  "nearest demo_overlay demo_policy [''runner'', ''heartbeat_seconds''] = Some (jint 5)"
  "nearest demo_overlay demo_policy [''history'', ''external_db'', ''dsn''] = Some (JStr ''db://u:p'')"
  by code_simp+

theorem settings_three_tiers_witness:
  "\<exists>s. snapshot_new 4 demo_overlay demo_policy = Inr s
    \<and> value_at (sn_effective s) [''runner'', ''heartbeat_seconds''] = Some (jint 5)
    \<and> value_at (sn_effective s) [''history'', ''external_db'', ''dsn''] = Some (JStr ''db://u:p'')"
proof -
  obtain s where "snapshot_new 4 demo_overlay demo_policy = Inr s"
    "\<And>ss. leaf_path ss \<Longrightarrow> value_at (sn_effective s) ss = nearest demo_overlay demo_policy ss"
    using settings_three_tiers [OF demo_documents, of 4] by blast
  then show ?thesis using demo_leaves by (simp del: value_at.simps)
qed

definition demo_edited :: jv where
  "demo_edited = JObj
     [(''history'', JObj [(''external_db'', JObj [(''dsn'', JStr ''db://u:p'')])]),
      (''runner'', JObj [(''heartbeat_seconds'', jint 30)])]"

lemma demo_edit:
  "validate_overlay settings_defaults demo_edited [] = Inr ()"
  "path_segments ''runner.heartbeat_seconds'' = [''runner'', ''heartbeat_seconds'']"
  "read_only_paths = [''history.mode'']"
  "validate_value ''runner.heartbeat_seconds'' (jint 30) = Inr ()"
  "set_pointer demo_overlay ''runner.heartbeat_seconds'' (jint 30) = Inr demo_edited"
  "ordered demo_edited"
  "pointer settings_defaults ''runner.heartbeat_seconds'' = Some (jint 10)"
  by code_simp+

theorem settings_edit_one_leaf_witness:
  "\<exists>s t. snapshot_new 4 demo_overlay demo_policy = Inr s
    \<and> set_hub s ''runner.heartbeat_seconds'' (jint 30) = Inr t
    \<and> value_at (sn_hub t) [''runner'', ''heartbeat_seconds''] = Some (jint 30)
    \<and> value_at (sn_hub t) [''history'', ''external_db'', ''dsn''] = Some (JStr ''db://u:p'')"
proof -
  obtain s where s: "snapshot_new 4 demo_overlay demo_policy = Inr s"
    using settings_tiers [OF demo_documents, of 4] by blast
  obtain t where t: "snapshot_new 5 demo_edited demo_policy = Inr t"
    using settings_tiers [OF demo_edit(6) demo_documents(2) demo_edit(1) demo_documents(4), of 5] by blast
  note f = snapshot_newD [OF s]
  have set: "set_hub s ''runner.heartbeat_seconds'' (jint 30) = Inr t"
    unfolding set_hub_def f(4,5,6,7) demo_edit(3,4,5,7) using t by simp
  have leaf: "leaf_path (path_segments ''runner.heartbeat_seconds'')"
    unfolding demo_edit(2) by (rule demo_leaves(1))
  note e = settings_edit_one_leaf [OF demo_documents(1,2) s leaf, of "Some (jint 30)" t]
  have "value_at demo_overlay [''history'', ''external_db'', ''dsn''] = Some (JStr ''db://u:p'')" by code_simp
  then show ?thesis using e s set demo_leaves(2) unfolding demo_edit(2) by (simp del: value_at.simps)
qed

section \<open>Redaction\<close>

lemma sensitive_paths_eq: "map path_segments sensitive_paths = [[''history'', ''external_db'', ''dsn''], [''secrets'', ''key_file'']]"
  by code_simp

lemma edit_at_looks:
  "value_at (edit_at f v ss) ss = map_option f (value_at v ss)
   \<and> (\<forall>tt. apart ss tt \<longrightarrow> value_at (edit_at f v ss) tt = value_at v tt)"
proof (induction ss arbitrary: v)
  case (Cons s ss)
  show ?case
  proof (cases v)
    case (JObj es)
    show ?thesis
    proof (cases "map_of es s")
      case (Some u)
      have "value_at (edit_at f v (s # ss)) tt = value_at v tt" if a: "apart (s # ss) tt" for tt
      proof (cases tt)
        case (Cons t rest)
        then show ?thesis using Cons.IH [of u] a by (cases "t = s") (simp_all add: JObj Some apart_Cons)
      qed (use a in \<open>simp add: apart_def\<close>)
      then show ?thesis using Cons.IH [of u] by (simp add: JObj Some)
    qed (simp add: JObj)
  qed simp_all
qed (simp add: apart_def)

lemma redact_settings_eq:
  "redact_settings v = edit_at hide (edit_at hide v [''history'', ''external_db'', ''dsn'']) [''secrets'', ''key_file'']"
proof -
  have "redact_settings v = fold (\<lambda>ss u. edit_at hide u ss) (map path_segments sensitive_paths) v"
    by (simp add: redact_settings_def fold_map comp_def)
  then show ?thesis unfolding sensitive_paths_eq by simp
qed

text \<open>Redaction hides every sensitive setting and nothing else: the values at the sensitive paths of
  the schema (the database address and the key file) become the placeholder, unless they are null or
  absent, and every value at a path that neither leads to nor comes after one of them is unchanged.\<close>

lemma settings_redaction:
  "list_all (\<lambda>p. value_at (redact_settings v) p \<in> {None, Some JNull, Some redaction})
     (map path_segments sensitive_paths)
   \<and> (list_all (\<lambda>p. apart p ss) (map path_segments sensitive_paths) \<longrightarrow>
        value_at (redact_settings v) ss = value_at v ss)"
proof -
  let ?a = "[''history'', ''external_db'', ''dsn'']" and ?b = "[''secrets'', ''key_file'']"
  note first = edit_at_looks [of hide v ?a] and second = edit_at_looks [of hide "edit_at hide v ?a" ?b]
  have hidden: "map_option hide x \<in> {None, Some JNull, Some redaction}" for x
    by (cases x) (simp_all add: hide_def)
  have "apart ?b ?a" by (simp add: apart_def)
  then have a: "value_at (redact_settings v) ?a = map_option hide (value_at v ?a)"
    using first second unfolding redact_settings_eq by (simp del: value_at.simps)
  have b: "value_at (redact_settings v) ?b = map_option hide (value_at (edit_at hide v ?a) ?b)"
    using second unfolding redact_settings_eq by blast
  have "value_at (redact_settings v) ss = value_at v ss" if "apart ?a ss" "apart ?b ss"
    using first second that unfolding redact_settings_eq by (simp del: value_at.simps)
  then show ?thesis unfolding sensitive_paths_eq using a b hidden by (simp del: value_at.simps)
qed

theorem settings_redaction_witness:
  "value_at (redact_settings demo_overlay) [''runner'', ''heartbeat_seconds''] = Some (jint 20)
   \<and> value_at (redact_settings demo_overlay) [''history'', ''external_db'', ''dsn''] \<noteq> Some (JStr ''db://u:p'')"
proof -
  have away: "list_all (\<lambda>p. apart p [''runner'', ''heartbeat_seconds'']) (map path_segments sensitive_paths)"
    unfolding sensitive_paths_eq by (simp add: apart_def)
  note r = settings_redaction [of demo_overlay "[''runner'', ''heartbeat_seconds'']"]
  have "value_at demo_overlay [''runner'', ''heartbeat_seconds''] = Some (jint 20)" by code_simp
  moreover have "value_at (redact_settings demo_overlay) [''history'', ''external_db'', ''dsn'']
      \<in> {None, Some JNull, Some redaction}"
    using r unfolding sensitive_paths_eq by (simp del: value_at.simps)
  ultimately show ?thesis using r away by (auto simp: redaction_def simp del: value_at.simps)
qed

text \<open>The sensitive value is shown when the setting above it is asked for.\<close>

lemma parent_setting_shows_secret:
  "bind_res (snapshot_new 1 (JObj [(''history'', JObj [(''external_db'', JObj [(''dsn'', JStr ''db://u:p'')])])]) (JObj []))
     (\<lambda>s. get_setting s ''history.external_db'' False)
   = Inr (JObj [(''autodetect'', JBool False), (''connect_timeout_seconds'', jint 5), (''dsn'', JStr ''db://u:p''),
       (''provision'', JBool False), (''retry_seconds'', jint 30)])"
  by code_simp

text \<open>The schema gives the version of the document no type, so no overlay may contain it.\<close>

lemma schema_version_never_valid:
  "validate_value ''schema_version'' v \<noteq> Inr ()"
proof -
  have "schema_for_path ''schema_version'' = (Inr (JObj [(''const'', jint 1)]) :: (settings_error, jv) res)"
    by (simp add: schema_for_path_def settings_schema_def node_of_def path_segments_def)
  then show ?thesis by (simp add: validate_value_def type_admits_def mismatch_def)
qed

end
