(* ===== verification/HubSettings.thy ===== *)
theory HubSettings
  imports HubAuth Settings
begin

text \<open>
  The settings routes of the hub (\<^verbatim>\<open>crates/fabric-hub/src/routes/settings.rs\<close>): reading the snapshot
  and the schema, setting and resetting a key at an expected revision, the audit record of a change and
  the rollback when it cannot be written. Revisions are integers here; the code counts them in 64 bits.
\<close>

section \<open>The routes\<close>

type_synonym refusal = "nat \<times> string"

definition settings_refusal :: "settings_error \<Rightarrow> refusal" where
  "settings_refusal e = (400, settings_error_text e)"

definition settings_store_refusal :: "store_error \<Rightarrow> refusal" where
  "settings_store_refusal e = (case e of Conflict message \<Rightarrow> (409, message) | _ \<Rightarrow> (500, store_error_text e))"

definition stored_snapshot :: "settings_document \<Rightarrow> (refusal, snapshot) res" where
  "stored_snapshot doc = map_res_err settings_refusal (snapshot_new (sd_revision doc) (sd_value doc) (JObj []))"

definition get_settings :: "(refusal, jv) handler" where
  "get_settings =
     hbind (call settings_store_refusal get_settings_document) (\<lambda>doc.
     hbind (check (stored_snapshot doc)) (\<lambda>s. hret (snapshot_value s)))"

definition get_settings_schema :: "(refusal, jv) handler" where
  "get_settings_schema = hret settings_schema"

definition change_event :: "auth_context \<Rightarrow> snapshot \<Rightarrow> settings_change list \<Rightarrow> jv" where
  "change_event actor s changes =
     jobj [(''actor'', JStr (subject actor)), (''revision'', jint (sn_revision s)),
           (''changes'', JArr (map change_value changes)), (''attribution'', attribution actor)]"

definition recorded_body :: "snapshot \<Rightarrow> jv" where
  "recorded_body s =
     (case snapshot_value s of JObj es \<Rightarrow> JObj (put_entry ''audit_recorded'' (JBool True) es) | v \<Rightarrow> v)"

definition edited :: "snapshot \<Rightarrow> string \<Rightarrow> jv option \<Rightarrow> (settings_error, snapshot) res" where
  "edited current key value = (case value of Some v \<Rightarrow> set_hub current key v | None \<Rightarrow> reset_hub current key)"

definition roll_back :: "snapshot \<Rightarrow> snapshot \<Rightarrow> int \<Rightarrow> (refusal, jv) handler" where
  "roll_back next_s current clock =
     hbind (call (\<lambda>_. (503, ''settings audit and compensation failed''))
       (put_settings_document (sn_revision next_s) (sn_hub current) ''system:audit-rollback'' (utc_now clock))) (\<lambda>_.
     hfail (503, ''settings change was rolled back because audit recording failed''))"

definition record_change :: "hub \<Rightarrow> (nat \<Rightarrow> int) \<Rightarrow> auth_context \<Rightarrow> snapshot \<Rightarrow> snapshot \<Rightarrow> settings_change list \<Rightarrow>
    (refusal, jv) handler" where
  "record_change h clk actor current next_s changes =
     hbind (attempt (audit_append h ''settings.changed'' None (change_event actor next_s changes) (clk 1))) (\<lambda>audited.
     case audited of
       Inl _ \<Rightarrow> roll_back next_s current (clk 2)
     | Inr _ \<Rightarrow> hret (recorded_body next_s))"

definition mutate :: "hub \<Rightarrow> (nat \<Rightarrow> int) \<Rightarrow> auth_context \<Rightarrow> string \<Rightarrow> int \<Rightarrow> jv option \<Rightarrow> (refusal, jv) handler" where
  "mutate h clk actor key expected value =
     hbind (call settings_store_refusal get_settings_document) (\<lambda>doc.
     if sd_revision doc \<noteq> expected then hfail (409, ''settings revision changed; refresh and retry'')
     else
       hbind (check (stored_snapshot doc)) (\<lambda>current.
       hbind (check (map_res_err settings_refusal (edited current key value))) (\<lambda>next_s.
       hbind (check (map_res_err settings_refusal (import_hub current (sn_hub next_s)))) (\<lambda>imported.
       hbind (call settings_store_refusal
         (put_settings_document expected (sn_hub next_s) (subject actor) (utc_now (clk 0)))) (\<lambda>_.
       record_change h clk actor current next_s (snd imported))))))"

definition set_setting :: "hub \<Rightarrow> (nat \<Rightarrow> int) \<Rightarrow> auth_context \<Rightarrow> string \<Rightarrow> int \<Rightarrow> jv \<Rightarrow> (refusal, jv) handler" where
  "set_setting h clk actor key expected value = mutate h clk actor key expected (Some value)"

definition reset_setting :: "hub \<Rightarrow> (nat \<Rightarrow> int) \<Rightarrow> auth_context \<Rightarrow> string \<Rightarrow> int \<Rightarrow> (refusal, jv) handler" where
  "reset_setting h clk actor key expected = mutate h clk actor key expected None"

section \<open>What a change does\<close>

text \<open>The stored document as a revision with an overlay.\<close>

definition stored_overlay :: "db \<Rightarrow> int \<times> jv" where
  "stored_overlay d = (case settings_doc d of None \<Rightarrow> (0, JObj []) | Some doc \<Rightarrow> (sd_revision doc, sd_value doc))"

definition current_settings :: "db \<Rightarrow> (settings_error, snapshot) res" where
  "current_settings d = snapshot_new (fst (stored_overlay d)) (snd (stored_overlay d)) (JObj [])"

text \<open>A revision is positive once a document is stored, as every write makes it.\<close>

definition revision_counted :: "db \<Rightarrow> bool" where
  "revision_counted d \<longleftrightarrow> (case settings_doc d of None \<Rightarrow> True | Some doc \<Rightarrow> 0 < sd_revision doc)"

lemma get_settings_calm:
  "\<exists>doc. get_settings_document (calm d) = (Inr doc, calm d)
     \<and> (sd_revision doc, sd_value doc) = stored_overlay d"
  by (simp add: get_settings_document_def calm_simps stored_overlay_def opt_default_def split: option.split)

definition written :: "int \<Rightarrow> jv \<Rightarrow> string \<Rightarrow> string \<Rightarrow> db \<Rightarrow> db" where
  "written expected value by now d =
     d\<lparr>settings_doc := Some \<lparr>sd_revision = expected + 1, sd_value = value, sd_updated_at = Some now,
                            sd_updated_by = Some by\<rparr>\<rparr>"

lemma put_settings_calm:
  assumes "put_fits e d"
  shows "\<exists>doc. put_settings_document e v by now (calm d) = (Inr doc, calm (written e v by now d))"
  using put_settings_cases(1) [OF assms]
  by (simp add: put_settings_document_def Let_def calm_simps written_def)

lemma counted_fits: "revision_counted d \<Longrightarrow> fst (stored_overlay d) = e \<Longrightarrow> put_fits e d"
  by (auto simp: revision_counted_def stored_overlay_def put_fits_def settings_revision_def split: option.splits)

lemma edited_next:
  "edited current key value = Inr t \<Longrightarrow>
   snapshot_new (sn_revision current + 1) (sn_hub t) (sn_repo current) = Inr t"
  using snapshot_newD(6)
  by (cases "value") (fastforce simp: edited_def set_hub_def reset_hub_def bind_res_Inr_iff split: if_splits)+

text \<open>What the route decides before it writes: the snapshot it found and the one it makes.\<close>

definition change_verdict :: "db \<Rightarrow> string \<Rightarrow> int \<Rightarrow> jv option \<Rightarrow> (refusal, snapshot \<times> snapshot) res" where
  "change_verdict d key expected value =
     (if fst (stored_overlay d) \<noteq> expected then Inl (409, ''settings revision changed; refresh and retry'')
      else map_res_err settings_refusal
        (bind_res (current_settings d) (\<lambda>current.
         bind_res (edited current key value) (\<lambda>t. Inr (current, t)))))"

lemma map_res_err_Inr: "map_res_err g r = Inr x \<longleftrightarrow> r = Inr x"
  by (cases r) simp_all

lemma change_verdict_InrD:
  "change_verdict d key e v = Inr (s, t) \<Longrightarrow>
   fst (stored_overlay d) = e \<and> current_settings d = Inr s \<and> edited s key v = Inr t"
  by (simp add: change_verdict_def map_res_err_Inr bind_res_Inr_iff split: if_splits)

lemma mutate_calm:
  assumes "revision_counted d"
  shows "mutate h clk actor key e value (calm d) =
    (case change_verdict d key e value of
       Inl x \<Rightarrow> (Inl x, calm d)
     | Inr (current, t) \<Rightarrow>
         record_change h clk actor current t (diff_values [] (sn_effective current) (sn_effective t))
           (calm (written e (sn_hub t) (subject actor) (utc_now (clk 0)) d)))"
proof -
  obtain doc where doc: "get_settings_document (calm d) = (Inr doc, calm d)"
    "sd_revision doc = fst (stored_overlay d)" "sd_value doc = snd (stored_overlay d)"
    using get_settings_calm [of d] by (metis fst_conv snd_conv)
  have found: "stored_snapshot doc = map_res_err settings_refusal (current_settings d)"
    by (simp add: stored_snapshot_def current_settings_def doc)
  show ?thesis
  proof (cases "fst (stored_overlay d) = e")
    case False
    then show ?thesis by (simp add: mutate_def hbind_def call_def doc hfail_def change_verdict_def)
  next
    case True
    have put: "\<exists>doc2. put_settings_document e u who at_time (calm d) = (Inr doc2, calm (written e u who at_time d))"
      for u who at_time using put_settings_calm [OF counted_fits [OF assms True]] .
    show ?thesis
    proof (cases "current_settings d")
      case (Inl x)
      then show ?thesis
        by (simp add: mutate_def hbind_def call_def doc True check_def found change_verdict_def)
    next
      case current: (Inr s)
      show ?thesis
      proof (cases "edited s key value")
        case (Inl x)
        then show ?thesis
          by (simp add: mutate_def hbind_def call_def doc True check_def found current change_verdict_def)
      next
        case (Inr t)
        obtain doc2 where doc2: "put_settings_document e (sn_hub t) (subject actor) (utc_now (clk 0)) (calm d)
            = (Inr doc2, calm (written e (sn_hub t) (subject actor) (utc_now (clk 0)) d))"
          using put by blast
        have "import_hub s (sn_hub t) = Inr (t, diff_values [] (sn_effective s) (sn_effective t))"
          by (simp add: import_hub_def edited_next [OF Inr])
        then show ?thesis
          by (simp add: mutate_def hbind_def call_def doc True check_def found current Inr change_verdict_def doc2)
      qed
    qed
  qed
qed

text \<open>
  The audit append on a store that answers. Its row follows the last one; only a digest that is already in
  the log keeps it out, and the append then reports success after its three tries all the same.
\<close>

definition next_event :: "hub \<Rightarrow> string \<Rightarrow> int option \<Rightarrow> jv \<Rightarrow> string \<Rightarrow> db \<Rightarrow> audit_row" where
  "next_event h kind task payload now d =
     (let tail = opt_default audit_genesis_hash (audit_tail d)
      in \<lparr>au_seq = last_audit_seq d + 1,
          au_event_id_hash = audit_event_hash (hub_crypto h) (audit_text h) tail kind payload,
          au_prev_event_id_hash = tail, au_kind = kind, au_task_id = task, au_payload_json = to_text h payload,
          au_created_at = now\<rparr>)"

definition logged :: "audit_row \<Rightarrow> db \<Rightarrow> bool" where
  "logged row d = list_ex (\<lambda>e. au_event_id_hash e = au_event_id_hash row) (audit_events d)"

definition with_event :: "audit_row \<Rightarrow> db \<Rightarrow> db" where
  "with_event row d = (if logged row d then d else d\<lparr>audit_events := audit_events d @ [row], last_audit_seq := au_seq row\<rparr>)"

lemma chain_tail_calm: "audit_chain_tail (calm d) = (Inr (opt_default audit_genesis_hash (audit_tail d)), calm d)"
  by (simp add: audit_chain_tail_def calm_simps)

lemma unique_text: "contains_str ''UNIQUE constraint'' ''UNIQUE constraint failed: audit_event.event_id_hash''"
  by code_simp

lemma audit_tries_calm:
  "audit_tries (Suc n) h kind task payload now (calm d)
     = (Inr (), calm (with_event (next_event h kind task payload now d) d))"
proof (induction n)
  let ?row = "next_event h kind task payload now d"
  let ?tail = "opt_default audit_genesis_hash (audit_tail d)"
  let ?hash = "audit_event_hash (hub_crypto h) (audit_text h) ?tail kind payload"
  have fresh: "\<exists>x. append_audit_event ?tail ?hash ?tail kind task (to_text h payload) now (calm d)
      = (Inr (AppendOk x), calm (with_event ?row d))" if "\<not> logged ?row d"
    using that by (simp add: append_audit_event_def bind_op_def chain_tail_calm catch_rq_def calm_statement
        insert_audit_def logged_def with_event_def next_event_def Let_def calm_query ret_def)
  have clash: "\<exists>x y. append_audit_event ?tail ?hash ?tail kind task (to_text h payload) now (calm d)
      = (Inr (TailConflict x y), calm d)" if "logged ?row d"
    using that by (simp add: append_audit_event_def bind_op_def chain_tail_calm catch_rq_def calm_statement
        insert_audit_def logged_def next_event_def Let_def ret_def unique_text)
  {
    case 0
    then show ?case using fresh clash
      by (cases "logged ?row d") (auto simp: bind_op_def chain_tail_calm ret_def with_event_def)
  next
    case (Suc n)
    show ?case
    proof (cases "logged ?row d")
      case True
      from clash [OF this] obtain x y where "append_audit_event ?tail ?hash ?tail kind task (to_text h payload) now (calm d)
          = (Inr (TailConflict x y), calm d)" by blast
      then show ?thesis using Suc by (simp only: audit_tries.simps(2) [of "Suc n"] bind_op_def chain_tail_calm prod.case sum.case audit_append_result.case)
    next
      case False
      from fresh [OF this] show ?thesis by (auto simp: bind_op_def chain_tail_calm ret_def)
    qed
  }
qed

definition opened_secrets :: "db \<Rightarrow> (string \<times> string) list" where
  "opened_secrets d = map (\<lambda>s. (s_name s, s_encrypted_value s)) (sort_key s_name (secrets d))"

lemma audit_append_calm:
  "audit_append h kind task payload clock (calm d) =
     (case redact_value (hub_broker h) payload (opened_secrets d) of
        Inl e \<Rightarrow> (Inl (Backend (''audit redaction failed closed: '' @ secret_error_text e)), calm d)
      | Inr v \<Rightarrow> (Inr (), calm (with_event (next_event h kind task v (utc_now clock) d) d)))"
  unfolding audit_append_def all_secret_envelopes_def opened_secrets_def [symmetric] numeral_3_eq_3
  by (simp add: bind_op_def calm_query fail_def audit_tries_calm opened_secrets_def [symmetric] del: audit_tries.simps split: sum.split)

lemma with_event_keeps [simp]:
  "settings_doc (with_event row d) = settings_doc d" "secrets (with_event row d) = secrets d"
  "same_but_audit d (with_event row d)"
  by (simp_all add: with_event_def same_but_audit_def)

lemma with_event_settings:
  "with_event row (d\<lparr>settings_doc := x\<rparr>) = (with_event row d)\<lparr>settings_doc := x\<rparr>"
  by (simp add: with_event_def logged_def)

lemma next_event_written [simp]: "next_event h kind task payload now (written e v who t d) = next_event h kind task payload now d"
  by (simp add: next_event_def written_def audit_tail_def by_seq_def)

lemma opened_secrets_written [simp]: "opened_secrets (written e v who t d) = opened_secrets d"
  by (simp add: opened_secrets_def written_def)

lemma with_event_written: "with_event row (written e v who t d) = written e v who t (with_event row d)"
  by (simp add: written_def with_event_settings)

lemma written_overlay [simp]: "stored_overlay (written e v who t d) = (e + 1, v)"
  by (simp add: stored_overlay_def written_def)

text \<open>The event of a change, with the secrets of the hub redacted from its payload.\<close>

definition change_payload :: "hub \<Rightarrow> auth_context \<Rightarrow> snapshot \<Rightarrow> snapshot \<Rightarrow> db \<Rightarrow> (secret_error, jv) res" where
  "change_payload h actor s t d =
     redact_value (hub_broker h) (change_event actor t (diff_values [] (sn_effective s) (sn_effective t))) (opened_secrets d)"

lemma record_change_calm:
  assumes "put_fits (sn_revision t) d"
  shows "record_change h clk actor s t (diff_values [] (sn_effective s) (sn_effective t)) (calm d) =
    (case change_payload h actor s t d of
       Inl _ \<Rightarrow> (Inl (503, ''settings change was rolled back because audit recording failed''),
                 calm (written (sn_revision t) (sn_hub s) ''system:audit-rollback'' (utc_now (clk 2)) d))
     | Inr v \<Rightarrow> (Inr (recorded_body t), calm (with_event (next_event h ''settings.changed'' None v (utc_now (clk 1)) d) d)))"
proof -
  obtain doc where "put_settings_document (sn_revision t) (sn_hub s) ''system:audit-rollback'' (utc_now (clk 2)) (calm d)
      = (Inr doc, calm (written (sn_revision t) (sn_hub s) ''system:audit-rollback'' (utc_now (clk 2)) d))"
    using put_settings_calm [OF assms] by blast
  then show ?thesis
    by (simp add: record_change_def hbind_def attempt_def audit_append_calm change_payload_def roll_back_def call_def hfail_def
        hret_def split: sum.split)
qed

text \<open>
  C31. A change of a setting is recorded or undone. On a store that answers, a request at another revision,
  for a key that may not be changed, or with a value the schema refuses changes nothing. Otherwise the
  new overlay is written at the next revision, and the redacted event \<^verbatim>\<open>settings.changed\<close> is appended to
  the audit log, linked to its last row; then the change is reported, and nothing else has changed. When
  the event cannot be redacted the former overlay is written back, one revision further, no event is
  appended, and the request fails with 503. The one exception is a digest the log already holds: the
  append gives up and the change is reported without its event (\<open>with_event\<close>).
\<close>

theorem settings_change_outcome:
  assumes "revision_counted d" and run: "mutate h clk actor key e value (calm d) = (r, w)"
  shows "case change_verdict d key e value of
      Inl x \<Rightarrow> r = Inl x \<and> w = calm d
    | Inr (current, t) \<Rightarrow>
        (case change_payload h actor current t d of
           Inr v \<Rightarrow> r = Inr (recorded_body t)
             \<and> w = calm (with_event (next_event h ''settings.changed'' None v (utc_now (clk 1)) d)
                 (written e (sn_hub t) (subject actor) (utc_now (clk 0)) d))
         | Inl _ \<Rightarrow> r = Inl (503, ''settings change was rolled back because audit recording failed'')
             \<and> w = calm (written (e + 1) (snd (stored_overlay d)) ''system:audit-rollback'' (utc_now (clk 2)) d))"
proof (cases "change_verdict d key e value")
  case (Inl x)
  then show ?thesis using run mutate_calm [OF assms(1), of h clk actor key e "value"] by auto
next
  case (Inr p)
  obtain s t where p: "p = (s, t)" by (cases p)
  note v = Inr [unfolded p]
  have found: "fst (stored_overlay d) = e" "current_settings d = Inr s" "edited s key value = Inr t"
    using change_verdict_InrD [OF v] by blast+
  have s: "sn_revision s = e" "sn_hub s = snd (stored_overlay d)"
    using snapshot_newD(4,6) [OF found(2) [unfolded current_settings_def]] found(1) by simp_all
  have t: "sn_revision t = e + 1" using snapshot_newD(4) [OF edited_next [OF found(3)]] s(1) by simp
  have pos: "0 \<le> e" using assms(1) found(1) by (auto simp: revision_counted_def stored_overlay_def split: option.splits)
  let ?d1 = "written e (sn_hub t) (subject actor) (utc_now (clk 0)) d"
  have "revision_counted ?d1" using pos by (simp add: revision_counted_def written_def)
  then have fits: "put_fits (sn_revision t) ?d1" by (rule counted_fits) (simp add: t)
  have payload: "change_payload h actor s t ?d1 = change_payload h actor s t d" by (simp add: change_payload_def)
  have again: "written (e + 1) x who at_time ?d1 = written (e + 1) x who at_time d" for x who at_time
    by (simp add: written_def)
  show ?thesis
    using run mutate_calm [OF assms(1), of h clk actor key e "value"]
    by (auto simp: v record_change_calm [OF fits] payload t s(2) again split: sum.splits)
qed

definition first_edit :: jv where
  "first_edit = JObj [(''runner'', JObj [(''heartbeat_seconds'', jint 30)])]"

lemma first_edit_ok:
  "ordered first_edit" "validate_overlay settings_defaults first_edit [] = Inr ()"
  "set_pointer (JObj []) ''runner.heartbeat_seconds'' (jint 30) = Inr first_edit"
  by code_simp+

lemma first_change:
  "\<exists>s t. change_verdict empty_db ''runner.heartbeat_seconds'' 0 (Some (jint 30)) = Inr (s, t) \<and> sn_hub t = first_edit"
proof -
  have none: "stored_overlay empty_db = (0, JObj [])" by (simp add: stored_overlay_def empty_db_def)
  have empty: "ordered (JObj [])" "validate_overlay settings_defaults (JObj []) [] = Inr ()"
    by (simp_all add: settings_defaults_def)
  obtain s where s: "snapshot_new 0 (JObj []) (JObj []) = Inr s"
    using settings_tiers [OF empty(1,1,2,2), of 0] by blast
  obtain t where t: "snapshot_new 1 first_edit (JObj []) = Inr t"
    using settings_tiers [OF first_edit_ok(1) empty(1) first_edit_ok(2) empty(2), of 1] by blast
  note f = snapshot_newD [OF s] and g = snapshot_newD [OF t]
  have "set_hub s ''runner.heartbeat_seconds'' (jint 30) = Inr t"
    unfolding set_hub_def f(4,5,6,7) demo_edit(3,4,7) first_edit_ok(3) using t by simp
  then show ?thesis
    using s g(6) by (simp add: change_verdict_def none current_settings_def edited_def)
qed

theorem settings_change_outcome_witness:
  "\<exists>w row. snd (mutate toy_hub (\<lambda>_. 0) legacy_context ''runner.heartbeat_seconds'' 0 (Some (jint 30)) (calm empty_db)) = w
    \<and> stored_overlay (db w) = (1, first_edit) \<and> audit_events (db w) = [row] \<and> au_kind row = ''settings.changed''"
proof -
  obtain r w where m: "mutate toy_hub (\<lambda>_. 0) legacy_context ''runner.heartbeat_seconds'' 0 (Some (jint 30)) (calm empty_db) = (r, w)"
    by fastforce
  obtain s t where v: "change_verdict empty_db ''runner.heartbeat_seconds'' 0 (Some (jint 30)) = Inr (s, t)" "sn_hub t = first_edit"
    using first_change by blast
  have "opened_secrets empty_db = []" by (simp add: opened_secrets_def empty_db_def)
  then obtain p where p: "change_payload toy_hub legacy_context s t empty_db = Inr p"
    by (simp add: change_payload_def redact_value_def open_all_def)
  have "revision_counted empty_db" by (simp add: revision_counted_def empty_db_def)
  from settings_change_outcome [OF this m] v p
  have "w = calm (with_event (next_event toy_hub ''settings.changed'' None p (utc_now 0) empty_db)
      (written 0 first_edit (subject legacy_context) (utc_now 0) empty_db))" by simp
  then have "stored_overlay (db w) = (1, first_edit)"
    "audit_events (db w) = [next_event toy_hub ''settings.changed'' None p (utc_now 0) empty_db]"
    by (simp_all add: with_event_written calm_def) (simp add: written_def with_event_def logged_def empty_db_def)
  then show ?thesis using m by (simp add: next_event_def Let_def)
qed

end
