(* ===== verification/HubSignIn.thy ===== *)
theory HubSignIn
  imports HubSessions Settings
begin

text \<open>
  Signing in and out (\<^verbatim>\<open>crates/fabric-hub/src/routes/authn.rs\<close>): the first administrator, password
  and passkey login, refresh, logout, the passkey ceremonies and step-up. The WebAuthn library is a
  parameter: a passkey is the text it is stored as, a ceremony state likewise, and the library answers or
  refuses. Random secrets and identifiers are arguments of the routes.
\<close>

section \<open>Errors and summaries\<close>

definition accounts_error_text :: "accounts_error \<Rightarrow> string" where
  "accounts_error_text e =
     (case e of
        AuthenticationRequired \<Rightarrow> ''authentication is required''
      | InvalidCredentials \<Rightarrow> ''the provided credentials are invalid''
      | SessionExpired \<Rightarrow> ''the session has expired''
      | SessionRevoked \<Rightarrow> ''the session has been revoked''
      | RefreshReplayDetected \<Rightarrow> ''refresh secret reuse detected; the token family has been revoked''
      | AccountDisabled \<Rightarrow> ''the account is disabled''
      | AccountLocked _ \<Rightarrow> ''the account is locked''
      | RecoveryRequired \<Rightarrow> ''recovery must be completed before this operation''
      | StepUpRequired \<Rightarrow> ''a fresh high-assurance authentication (step-up) is required''
      | AssuranceTooLow \<Rightarrow> ''the current session assurance level is too low for this operation''
      | AccountPolicyViolation reason \<Rightarrow> ''the operation violates account policy: '' @ reason
      | LastAdministratorViolation \<Rightarrow> ''this would leave the realm with no enabled administrator''
      | UsernameConflict \<Rightarrow> ''the requested username is already in use''
      | CredentialConflict \<Rightarrow> ''the credential conflicts with an existing one''
      | BootstrapClosed \<Rightarrow> ''bootstrap is closed: a realm administrator already exists''
      | BootstrapLocalOnly \<Rightarrow> ''bootstrap is only permitted from a local/native administrative channel''
      | AuthServiceUnavailable \<Rightarrow> ''the authentication service is temporarily unavailable''
      | RolePolicyViolation \<Rightarrow> ''the role does not authorize this operation''
      | ChallengeInvalid \<Rightarrow> ''the challenge is invalid, expired, or already used''
      | CredentialReplaySuspected \<Rightarrow>
          ''the credential'' @ [CHR 39] @ ''s sign counter did not advance; possible cloned authenticator''
      | RealmAlreadyEstablished \<Rightarrow> ''the realm identity is already established'')"

definition accounts_error_status :: "accounts_error \<Rightarrow> nat" where
  "accounts_error_status e =
     (case e of
        AuthenticationRequired \<Rightarrow> 401 | InvalidCredentials \<Rightarrow> 401 | SessionExpired \<Rightarrow> 401 | SessionRevoked \<Rightarrow> 401
      | RefreshReplayDetected \<Rightarrow> 401
      | AccountDisabled \<Rightarrow> 403 | AccountLocked _ \<Rightarrow> 403 | RecoveryRequired \<Rightarrow> 403 | StepUpRequired \<Rightarrow> 403
      | AssuranceTooLow \<Rightarrow> 403
      | AccountPolicyViolation _ \<Rightarrow> 400
      | LastAdministratorViolation \<Rightarrow> 409 | UsernameConflict \<Rightarrow> 409 | CredentialConflict \<Rightarrow> 409 | BootstrapClosed \<Rightarrow> 409
      | BootstrapLocalOnly \<Rightarrow> 403
      | AuthServiceUnavailable \<Rightarrow> 503
      | RolePolicyViolation \<Rightarrow> 403
      | ChallengeInvalid \<Rightarrow> 400
      | CredentialReplaySuspected \<Rightarrow> 403
      | RealmAlreadyEstablished \<Rightarrow> 409)"

definition api_account_error :: "accounts_error \<Rightarrow> api_error" where
  "api_account_error e =
     \<lparr>err_status = accounts_error_status e, err_code = accounts_error_code e, err_message = accounts_error_text e,
      err_remediation = None\<rparr>"

type_synonym 'a route = "(api_error, 'a) handler"

definition on_accounts :: "'a accounts_op \<Rightarrow> 'a route" where
  "on_accounts m = call api_account_error m"

definition refuse :: "accounts_error \<Rightarrow> 'a route" where
  "refuse e = hfail (api_account_error e)"

text \<open>The roles an account shows: those of its live memberships.\<close>

definition shown_roles :: "account \<Rightarrow> membership list \<Rightarrow> jv" where
  "shown_roles a ms = jstrs (map (\<lambda>m. human_role_str (mb_role m))
     (filter (\<lambda>m. mb_revoked_at m = None \<and> mb_account_id m = ac_account_id a) ms))"

definition summary_of :: "account \<Rightarrow> membership list \<Rightarrow> jv" where
  "summary_of a ms =
     jobj [(''account_id'', JStr (ac_account_id a)), (''username'', JStr (ac_username_display a)),
           (''display_name'', JStr (ac_display_name a)), (''status'', JStr (account_status_str (ac_status a))),
           (''roles'', shown_roles a ms), (''revision'', jint (ac_revision a))]"

definition account_summary :: "account \<Rightarrow> jv route" where
  "account_summary a = hbind (on_accounts (list_memberships (ac_account_id a))) (\<lambda>ms. hret (summary_of a ms))"

definition passkey_summary :: "credential \<Rightarrow> jv" where
  "passkey_summary c =
     jobj [(''credential_id'', JStr (cd_credential_id c)), (''label'', jopt JStr (cd_label c)),
           (''created_at'', JStr (cd_created_at c)), (''last_used_at'', jopt JStr (cd_last_used_at c)),
           (''backup_eligible'', JBool (cd_backup_eligible c)), (''backup_state'', JBool (cd_backup_state c))]"

section \<open>What the routes depend on\<close>

record assertion_result =
  ar_cred_id :: string
  ar_counter :: nat
  ar_backup_eligible :: bool
  ar_backup_state :: bool

record webauthn =
  wa_cred_id :: "string \<Rightarrow> string option"
  wa_start_registration :: "string \<Rightarrow> string \<Rightarrow> string \<Rightarrow> string list option \<Rightarrow> (jv \<times> string) option"
  wa_finish_registration :: "jv \<Rightarrow> string \<Rightarrow> string option"
  wa_start_authentication :: "string list \<Rightarrow> (jv \<times> string) option"
  wa_finish_authentication :: "jv \<Rightarrow> string \<Rightarrow> assertion_result option"
  wa_update :: "string \<Rightarrow> assertion_result \<Rightarrow> string"

text \<open>
  \<open>wa_cred_id\<close> reads a stored passkey (\<open>None\<close> when the text is no passkey); a ceremony state that cannot
  be read and an answer that does not verify are both \<open>None\<close>.
\<close>

record sign_in =
  si_vault :: vault
  si_webauthn :: "webauthn option"
  si_bootstrap_secret :: "string option"

definition vault_of :: "hub \<Rightarrow> sign_in \<Rightarrow> vault" where
  "vault_of h si = (si_vault si)\<lparr>hash_opaque := hash_secret h\<rparr>"

definition default_realm_id :: string where
  "default_realm_id = ''default''"

definition account_event :: "hub \<Rightarrow> string \<Rightarrow> (string \<times> jv) list \<Rightarrow> int \<Rightarrow> unit route" where
  "account_event h kind entries clock = ignoring (audit_append h kind None (jobj entries) clock)"

section \<open>Settings of the sign-in\<close>

definition default_idle_timeout_minutes :: int where
  "default_idle_timeout_minutes = 60"

definition default_absolute_timeout_hours :: int where
  "default_absolute_timeout_hours = 24"

definition default_bootstrap_local_only :: bool where
  "default_bootstrap_local_only = True"

definition effective_auth_settings :: "('e, jv) handler" where
  "effective_auth_settings =
     hbind (attempt get_settings_document) (\<lambda>read.
     hret (case read of
             Inl _ \<Rightarrow> JObj []
           | Inr doc \<Rightarrow> (case snapshot_new (sd_revision doc) (sd_value doc) (JObj []) of
               Inl _ \<Rightarrow> JObj [] | Inr s \<Rightarrow> sn_effective s)))"

definition setting_i64 :: "jv \<Rightarrow> string list \<Rightarrow> int \<Rightarrow> int" where
  "setting_i64 effective path fallback =
     (case value_at effective path of
        Some (JNum (JInt n)) \<Rightarrow> if - (2 ^ 63) \<le> n \<and> n < 2 ^ 63 then n else fallback
      | _ \<Rightarrow> fallback)"

definition setting_bool :: "jv \<Rightarrow> string list \<Rightarrow> bool \<Rightarrow> bool" where
  "setting_bool effective path fallback = (case value_at effective path of Some (JBool b) \<Rightarrow> b | _ \<Rightarrow> fallback)"

definition client_kind_of_request :: "string option \<Rightarrow> client_kind" where
  "client_kind_of_request raw =
     (if raw = Some ''vsix'' then Vsix else if raw = Some ''desktop'' then Desktop
      else if raw = Some ''cli'' then Cli else OtherClient)"

section \<open>Checks\<close>

text \<open>An address of either kind: four octets, or eight groups.\<close>

datatype ip_addr = IPv4 nat nat nat nat | IPv6 "nat list"

fun is_loopback :: "ip_addr \<Rightarrow> bool" where
  "is_loopback (IPv4 a b c d) = (a = 127)"
| "is_loopback (IPv6 gs) = (gs = [0, 0, 0, 0, 0, 0, 0, 1])"

definition bootstrap_source_allowed :: "ip_addr \<Rightarrow> bool \<Rightarrow> string option \<Rightarrow> string option \<Rightarrow> bool" where
  "bootstrap_source_allowed addr local_only presented configured =
     (if local_only \<and> \<not> is_loopback addr then False
      else
        (case configured of
           None \<Rightarrow> True
         | Some expected \<Rightarrow>
             (case presented of None \<Rightarrow> False | Some shown \<Rightarrow> constant_time_eq shown expected)))"

definition challenge_binding_ok :: "hub \<Rightarrow> auth_challenge \<Rightarrow> challenge_purpose \<Rightarrow> string \<Rightarrow> string \<Rightarrow> bool" where
  "challenge_binding_ok h c purpose account token \<longleftrightarrow>
     ch_purpose c = purpose \<and> ch_account_id c = Some account
     \<and> constant_time_eq (hash_secret h token) (ch_challenge_hash c)"

definition login_challenge_binding_ok :: "hub \<Rightarrow> auth_challenge \<Rightarrow> string \<Rightarrow> bool" where
  "login_challenge_binding_ok h c token \<longleftrightarrow>
     ch_purpose c = Authentication \<and> ch_account_id c \<noteq> None
     \<and> constant_time_eq (hash_secret h token) (ch_challenge_hash c)"

definition passkeys_not_configured :: accounts_error where
  "passkeys_not_configured = AccountPolicyViolation ''passkeys_not_configured''"

section \<open>Opening the realm and password login\<close>

definition bootstrap_status_route :: "jv route" where
  "bootstrap_status_route =
     hbind (on_accounts bootstrap_status) (\<lambda>available. hret (jobj [(''bootstrap_open'', JBool available)]))"

record bootstrap_request =
  bq_username :: string
  bq_display_name :: string
  bq_password :: string

definition bootstrap :: "hub \<Rightarrow> sign_in \<Rightarrow> (nat \<Rightarrow> int) \<Rightarrow> fresh_ids \<Rightarrow> string \<Rightarrow> ip_addr \<Rightarrow> string option \<Rightarrow> bootstrap_request \<Rightarrow>
    jv route" where
  "bootstrap h si clk ids salt addr presented q =
     hbind effective_auth_settings (\<lambda>effective.
     if \<not> bootstrap_source_allowed addr
          (setting_bool effective [''auth'', ''bootstrap'', ''local_only''] default_bootstrap_local_only)
          presented (si_bootstrap_secret si) then refuse BootstrapLocalOnly
     else
       hbind (on_accounts (bootstrap_first_administrator (vault_of h si) ids salt default_realm_id (bq_username q)
         (bq_display_name q) (bq_password q) (utc_now (clk 0)))) (\<lambda>a.
       hbind (account_summary a) (\<lambda>summary.
       hbind (account_event h ''account.bootstrap_completed''
         [(''account_id'', JStr (ac_account_id a)), (''username'', JStr (ac_username_normalized a))] (clk 1)) (\<lambda>_.
       hret summary))))"

record login_request =
  lq_username :: string
  lq_password :: string
  lq_client_kind :: "string option"
  lq_client_label :: "string option"
  lq_session_public_key :: "string option"

definition bind_session_key_if_present :: "session \<Rightarrow> string option \<Rightarrow> string \<Rightarrow> unit route" where
  "bind_session_key_if_present s key now =
     (case key of None \<Rightarrow> hret () | Some k \<Rightarrow> on_accounts (bind_public_key (hs_session_id s) k now))"

definition session_body :: "session \<times> string \<times> string \<Rightarrow> jv" where
  "session_body issued =
     (case issued of (s, access, renewal) \<Rightarrow>
        jobj [(''session_id'', JStr (hs_session_id s)), (''account_id'', JStr (hs_account_id s)),
              (''assurance_level'', JStr (assurance_str (hs_assurance_level s))),
              (''access_secret'', JStr access), (''refresh_secret'', JStr renewal),
              (''idle_expires_at'', JStr (hs_idle_expires_at s)),
              (''absolute_expires_at'', JStr (hs_absolute_expires_at s))])"

definition timeouts :: "jv \<Rightarrow> login_request \<Rightarrow> session_request" where
  "timeouts effective q =
     \<lparr>sq_client_kind = client_kind_of_request (lq_client_kind q), sq_client_label = lq_client_label q,
      sq_idle_minutes = setting_i64 effective [''auth'', ''sessions'', ''idle_timeout_minutes''] default_idle_timeout_minutes,
      sq_absolute_hours =
        setting_i64 effective [''auth'', ''sessions'', ''absolute_timeout_hours''] default_absolute_timeout_hours\<rparr>"

definition signed_in :: "hub \<Rightarrow> (nat \<Rightarrow> int) \<Rightarrow> login_request \<Rightarrow> string \<Rightarrow> session \<times> string \<times> string \<Rightarrow> jv route" where
  "signed_in h clk q now issued =
     hbind (bind_session_key_if_present (fst issued) (lq_session_public_key q) now) (\<lambda>_.
     hbind (account_event h ''account.login_succeeded''
       [(''account_id'', JStr (hs_account_id (fst issued))), (''session_id'', JStr (hs_session_id (fst issued))),
        (''client_kind'', JStr (client_kind_str (hs_client_kind (fst issued))))] (clk 8)) (\<lambda>_.
     hret (session_body issued)))"

definition login :: "hub \<Rightarrow> sign_in \<Rightarrow> (nat \<Rightarrow> int) \<Rightarrow> session_draw \<Rightarrow> string \<Rightarrow> login_request \<Rightarrow> jv route" where
  "login h si clk draw salt q =
     (let now = utc_now (clk 0) in
      hbind effective_auth_settings (\<lambda>effective.
      hbind (on_accounts (authenticate_and_issue_session (vault_of h si) draw salt (timeouts effective q)
        (\<lambda>n. clk (Suc n)) default_realm_id (lq_username q) (lq_password q) None now)) (\<lambda>issued.
      signed_in h clk q now issued)))"

definition refresh :: "hub \<Rightarrow> (nat \<Rightarrow> int) \<Rightarrow> string \<Rightarrow> string \<Rightarrow> string \<Rightarrow> jv route" where
  "refresh h clk fresh i presented =
     hbind (outcome_of (rotate_refresh i (hash_secret h presented) (hash_secret h fresh) (utc_now (clk 0)))) (\<lambda>rotated.
     case rotated of
       Inr s \<Rightarrow> hret (jobj [(''session_id'', JStr (hs_session_id s)), (''refresh_secret'', JStr fresh),
           (''idle_expires_at'', JStr (hs_idle_expires_at s)), (''absolute_expires_at'', JStr (hs_absolute_expires_at s))])
     | Inl e \<Rightarrow>
         hbind (if e = RefreshReplayDetected then
             account_event h ''account.refresh_replay_detected'' [(''session_id'', JStr i)] (clk 1) else hret ()) (\<lambda>_.
         refuse e))"

section \<open>Leaving\<close>

definition session_lookup_error :: "accounts_error \<Rightarrow> api_error" where
  "session_lookup_error e =
     (if e = AccountPolicyViolation ''session_not_found'' then api_not_found ''session not found'' else api_account_error e)"

definition may_end :: "auth_context \<Rightarrow> session \<Rightarrow> bool" where
  "may_end actor s \<longleftrightarrow> human_principal actor = Some (hs_account_id s) \<or> ''admin'' \<in> set (roles actor)"

text \<open>Logging out and revoking a session differ in the reason and the event only.\<close>

definition end_session :: "hub \<Rightarrow> (nat \<Rightarrow> int) \<Rightarrow> auth_context \<Rightarrow> string \<Rightarrow> string \<Rightarrow> string \<Rightarrow> jv route" where
  "end_session h clk actor reason event i =
     hbind (call session_lookup_error (get_session i)) (\<lambda>s.
     if \<not> may_end actor s then refuse RolePolicyViolation
     else
       hbind (on_accounts (revoke_session i reason (utc_now (clk 0)))) (\<lambda>_.
       hbind (account_event h event [(''session_id'', JStr i), (''account_id'', JStr (hs_account_id s)),
         (''actor'', attribution actor)] (clk 1)) (\<lambda>_.
       hret (jobj [(''session_id'', JStr i), (''revoked'', JBool True)]))))"

definition logout :: "hub \<Rightarrow> (nat \<Rightarrow> int) \<Rightarrow> auth_context \<Rightarrow> string \<Rightarrow> jv route" where
  "logout h clk actor i = end_session h clk actor ''logout'' ''account.logout'' i"

definition logout_all :: "hub \<Rightarrow> (nat \<Rightarrow> int) \<Rightarrow> auth_context \<Rightarrow> jv route" where
  "logout_all h clk actor =
     (case human_principal actor of
        None \<Rightarrow> refuse RolePolicyViolation
      | Some account \<Rightarrow>
          hbind (on_accounts (revoke_all_for_account account ''logout_all'' (utc_now (clk 0)))) (\<lambda>n.
          hbind (account_event h ''account.logout_all'' [(''account_id'', JStr account), (''revoked_count'', jint (int n)),
            (''actor'', attribution actor)] (clk 1)) (\<lambda>_.
          hret (jobj [(''account_id'', JStr account), (''revoked_count'', jint (int n))]))))"

definition me :: "auth_context \<Rightarrow> jv route" where
  "me actor =
     (case human_principal actor of
        None \<Rightarrow> refuse RolePolicyViolation
      | Some account \<Rightarrow> hbind (on_accounts (get_account account)) account_summary)"

section \<open>Passkeys\<close>

definition stored_passkey :: "webauthn \<Rightarrow> credential \<Rightarrow> (credential \<times> string \<times> string) option" where
  "stored_passkey wa c =
     (case cd_public_key_material c of
        None \<Rightarrow> None
      | Some blob \<Rightarrow> map_option (\<lambda>i. (c, blob, i)) (wa_cred_id wa blob))"

text \<open>The stored passkeys of an account: credential, text, and the identifier inside it.\<close>

definition existing_passkeys :: "webauthn \<Rightarrow> string \<Rightarrow> (credential \<times> string \<times> string) list route" where
  "existing_passkeys wa account =
     hbind (on_accounts (get_active_for_account account)) (\<lambda>cs.
     hret (List.map_filter (stored_passkey wa) (filter (\<lambda>c. cd_kind c = Webauthn) cs)))"

definition fresh_step_up :: "hub \<Rightarrow> auth_context \<Rightarrow> int \<Rightarrow> bool" where
  "fresh_step_up h actor clock \<longleftrightarrow>
     assurance_level actor = Some ''aal2'' \<and>
     (case step_up_at actor of
        None \<Rightarrow> False | Some stamp \<Rightarrow> step_up_is_fresh stamp (utc_now clock) (step_up_freshness_minutes h))"

definition require_step_up_for_additional_passkey :: "hub \<Rightarrow> webauthn \<Rightarrow> auth_context \<Rightarrow> string \<Rightarrow> int \<Rightarrow> unit route" where
  "require_step_up_for_additional_passkey h wa actor account clock =
     hbind (existing_passkeys wa account) (\<lambda>ps.
     if ps = [] \<or> fresh_step_up h actor clock then hret () else refuse StepUpRequired)"

record ceremony_draw =
  cer_token :: string
  cer_id :: string

definition ceremony_ttl_secs :: int where
  "ceremony_ttl_secs = 300"

definition challenge_row :: "hub \<Rightarrow> ceremony_draw \<Rightarrow> challenge_purpose \<Rightarrow> string \<Rightarrow> string option \<Rightarrow> string \<Rightarrow> (nat \<Rightarrow> int) \<Rightarrow> auth_challenge" where
  "challenge_row h draw purpose account seat state clk =
     \<lparr>ch_challenge_id = ''wac-'' @ cer_id draw, ch_purpose = purpose, ch_account_id = Some account, ch_session_id = seat,
      ch_client_identity_id = None, ch_challenge_hash = hash_secret h (cer_token draw), ch_ceremony_state = state,
      ch_created_at = utc_now (clk 1), ch_expires_at = utc_now (clk 2 + ceremony_ttl_secs), ch_consumed_at = None,
      ch_attempt_count = 0, ch_status = PendingChallenge\<rparr>"

text \<open>Issuing a challenge and answering with the options of the library.\<close>

definition offer :: "hub \<Rightarrow> ceremony_draw \<Rightarrow> challenge_purpose \<Rightarrow> string \<Rightarrow> string option \<Rightarrow> (nat \<Rightarrow> int) \<Rightarrow> (jv \<times> string) option \<Rightarrow>
    jv route" where
  "offer h draw purpose account seat clk started =
     (case started of
        None \<Rightarrow> refuse passkeys_not_configured
      | Some (options, state) \<Rightarrow>
          hbind (on_accounts (issue_challenge (challenge_row h draw purpose account seat state clk))) (\<lambda>c.
          hret (jobj [(''challenge_id'', JStr (ch_challenge_id c)), (''options_token'', JStr (cer_token draw)),
                      (''public_key'', options)])))"

definition register_passkey_options :: "hub \<Rightarrow> sign_in \<Rightarrow> (nat \<Rightarrow> int) \<Rightarrow> ceremony_draw \<Rightarrow> auth_context \<Rightarrow> jv route" where
  "register_passkey_options h si clk draw actor =
     (case si_webauthn si of
        None \<Rightarrow> refuse passkeys_not_configured
      | Some wa \<Rightarrow>
          (case human_principal actor of
             None \<Rightarrow> refuse RolePolicyViolation
           | Some account \<Rightarrow>
               hbind (require_step_up_for_additional_passkey h wa actor account (clk 0)) (\<lambda>_.
               hbind (on_accounts (get_account account)) (\<lambda>a.
               hbind (existing_passkeys wa account) (\<lambda>ps.
               let excluded = map (snd \<circ> snd) ps in
               offer h draw Registration account None clk
                 (wa_start_registration wa account (ac_username_display a) (ac_display_name a)
                    (if excluded = [] then None else Some excluded)))))))"

record passkey_answer =
  pa_challenge_id :: string
  pa_options_token :: string
  pa_credential :: jv

text \<open>The flags are read from the passkey as JSON; a text of another shape has neither.\<close>

definition registration_backup_flags :: "hub \<Rightarrow> string \<Rightarrow> bool \<times> bool" where
  "registration_backup_flags h blob =
     (case parse_text h blob of
        Inl _ \<Rightarrow> (False, False)
      | Inr v \<Rightarrow> (setting_bool v [''cred'', ''backup_eligible''] False, setting_bool v [''cred'', ''backup_state''] False))"

definition registered_credential :: "hub \<Rightarrow> string \<Rightarrow> string \<Rightarrow> string \<Rightarrow> string option \<Rightarrow> string \<Rightarrow> credential" where
  "registered_credential h i account blob label now =
     \<lparr>cd_credential_id = ''cred-'' @ i, cd_account_id = account, cd_kind = Webauthn, cd_secret_verifier = None,
      cd_algorithm = None, cd_algorithm_params = None, cd_version = 1, cd_public_key_material = Some blob,
      cd_label = label, cd_created_at = now, cd_last_used_at = None, cd_compromised_at = None, cd_revoked_at = None,
      cd_revision = 0, cd_backup_eligible = fst (registration_backup_flags h blob),
      cd_backup_state = snd (registration_backup_flags h blob)\<rparr>"

definition store_passkey :: "hub \<Rightarrow> (nat \<Rightarrow> int) \<Rightarrow> string \<Rightarrow> auth_context \<Rightarrow> string \<Rightarrow> string option \<Rightarrow> string \<Rightarrow> string \<Rightarrow>
    jv route" where
  "store_passkey h clk i actor account label now blob =
     hbind (on_accounts (add_credential (registered_credential h i account blob label now))) (\<lambda>stored.
     hbind (account_event h ''account.passkey_registered'' [(''account_id'', JStr account),
       (''credential_id'', JStr (cd_credential_id stored)), (''actor'', attribution actor)] (clk 1)) (\<lambda>_.
     hret (passkey_summary stored)))"

definition register_passkey_verify :: "hub \<Rightarrow> sign_in \<Rightarrow> (nat \<Rightarrow> int) \<Rightarrow> string \<Rightarrow> auth_context \<Rightarrow> passkey_answer \<Rightarrow> string option \<Rightarrow>
    jv route" where
  "register_passkey_verify h si clk i actor q label =
     (case si_webauthn si of
        None \<Rightarrow> refuse passkeys_not_configured
      | Some wa \<Rightarrow>
          (case human_principal actor of
             None \<Rightarrow> refuse RolePolicyViolation
           | Some account \<Rightarrow>
               (let now = utc_now (clk 0) in
                hbind (on_accounts (consume_challenge_if_pending (pa_challenge_id q) now)) (\<lambda>c.
                if \<not> challenge_binding_ok h c Registration account (pa_options_token q) then refuse ChallengeInvalid
                else
                  (case wa_finish_registration wa (pa_credential q) (ch_ceremony_state c) of
                     None \<Rightarrow> refuse ChallengeInvalid
                   | Some blob \<Rightarrow> store_passkey h clk i actor account label now blob)))))"

definition remove_passkey :: "hub \<Rightarrow> (nat \<Rightarrow> int) \<Rightarrow> auth_context \<Rightarrow> string \<Rightarrow> jv route" where
  "remove_passkey h clk actor i =
     (case human_principal actor of
        None \<Rightarrow> refuse RolePolicyViolation
      | Some account \<Rightarrow>
          hbind (on_accounts (get_active_for_account account)) (\<lambda>cs.
          if \<not> list_ex (\<lambda>c. cd_kind c = Webauthn \<and> cd_credential_id c = i) cs then hfail (api_not_found ''passkey not found'')
          else
            hbind (on_accounts (revoke_credential i (utc_now (clk 0)))) (\<lambda>_.
            hbind (account_event h ''account.passkey_removed'' [(''account_id'', JStr account), (''credential_id'', JStr i),
              (''actor'', attribution actor)] (clk 1)) (\<lambda>_.
            hret (jobj [(''credential_id'', JStr i), (''revoked'', JBool True)])))))"

section \<open>Passkey login\<close>

definition passkey_login_options :: "hub \<Rightarrow> sign_in \<Rightarrow> (nat \<Rightarrow> int) \<Rightarrow> ceremony_draw \<Rightarrow> string \<Rightarrow> jv route" where
  "passkey_login_options h si clk draw username =
     (case si_webauthn si of
        None \<Rightarrow> refuse passkeys_not_configured
      | Some wa \<Rightarrow>
          (case normalize_username username of
             Inl _ \<Rightarrow> refuse InvalidCredentials
           | Inr name \<Rightarrow>
               hbind (on_accounts (find_by_username default_realm_id name)) (\<lambda>found.
               case found of
                 None \<Rightarrow> refuse InvalidCredentials
               | Some a \<Rightarrow>
                   hbind (existing_passkeys wa (ac_account_id a)) (\<lambda>ps.
                   if ps = [] then refuse InvalidCredentials
                   else offer h draw Authentication (ac_account_id a) None clk
                     (wa_start_authentication wa (map (fst \<circ> snd) ps))))))"

text \<open>The assertion of a verified answer, for the stored passkey it names.\<close>

definition asserted_by :: "webauthn \<Rightarrow> string \<Rightarrow> passkey_answer \<Rightarrow> string \<Rightarrow> (string \<times> assertion) route" where
  "asserted_by wa account q state =
     (case wa_finish_authentication wa (pa_credential q) state of
        None \<Rightarrow> refuse ChallengeInvalid
      | Some r \<Rightarrow>
          hbind (existing_passkeys wa account) (\<lambda>ps.
          case find (\<lambda>p. snd (snd p) = ar_cred_id r) ps of
            None \<Rightarrow> refuse ChallengeInvalid
          | Some (c, blob, _) \<Rightarrow>
              hret (cd_credential_id c,
                \<lparr>as_sign_count = int (ar_counter r), as_public_key_blob = wa_update wa blob r,
                 as_backup_eligible = ar_backup_eligible r, as_backup_state = ar_backup_state r\<rparr>)))"

text \<open>A counter that did not advance is reported; other errors are passed on.\<close>

definition or_replay_event :: "hub \<Rightarrow> (string \<times> jv) list \<Rightarrow> int \<Rightarrow> 'a accounts_op \<Rightarrow> 'a route" where
  "or_replay_event h entries clock m =
     hbind (outcome_of m) (\<lambda>r.
     case r of
       Inr x \<Rightarrow> hret x
     | Inl e \<Rightarrow>
         hbind (if e = CredentialReplaySuspected then account_event h ''account.passkey_replay_suspected'' entries clock
                else hret ()) (\<lambda>_.
         refuse e))"

definition passkey_timeouts :: "string option \<Rightarrow> string option \<Rightarrow> session_request" where
  "passkey_timeouts kind label =
     \<lparr>sq_client_kind = client_kind_of_request kind, sq_client_label = label,
      sq_idle_minutes = default_idle_timeout_minutes, sq_absolute_hours = default_absolute_timeout_hours\<rparr>"

record passkey_login =
  pl_client_kind :: "string option"
  pl_client_label :: "string option"
  pl_session_public_key :: "string option"

definition passkey_session :: "hub \<Rightarrow> sign_in \<Rightarrow> webauthn \<Rightarrow> (nat \<Rightarrow> int) \<Rightarrow> session_draw \<Rightarrow> passkey_login \<Rightarrow> passkey_answer \<Rightarrow>
    auth_challenge \<Rightarrow> string \<Rightarrow> jv route" where
  "passkey_session h si wa clk draw l q c now =
     (let account = opt_default [] (ch_account_id c) in
      hbind (asserted_by wa account q (ch_ceremony_state c)) (\<lambda>(i, x).
      hbind (or_replay_event h [(''account_id'', JStr account), (''credential_id'', JStr i)] (clk 3)
        (authenticate_with_passkey (vault_of h si) draw (passkey_timeouts (pl_client_kind l) (pl_client_label l))
           (\<lambda>n. clk (Suc n)) default_realm_id account i x now)) (\<lambda>issued.
      hbind (bind_session_key_if_present (fst issued) (pl_session_public_key l) now) (\<lambda>_.
      hret (session_body issued)))))"

definition passkey_login_verify :: "hub \<Rightarrow> sign_in \<Rightarrow> (nat \<Rightarrow> int) \<Rightarrow> session_draw \<Rightarrow> passkey_login \<Rightarrow> passkey_answer \<Rightarrow> jv route" where
  "passkey_login_verify h si clk draw l q =
     (case si_webauthn si of
        None \<Rightarrow> refuse passkeys_not_configured
      | Some wa \<Rightarrow>
          (let now = utc_now (clk 0) in
           hbind (on_accounts (consume_challenge_if_pending (pa_challenge_id q) now)) (\<lambda>c.
           if \<not> login_challenge_binding_ok h c (pa_options_token q) then refuse ChallengeInvalid
           else passkey_session h si wa clk draw l q c now)))"

section \<open>Step-up\<close>

definition step_up_options :: "hub \<Rightarrow> sign_in \<Rightarrow> (nat \<Rightarrow> int) \<Rightarrow> ceremony_draw \<Rightarrow> auth_context \<Rightarrow> jv route" where
  "step_up_options h si clk draw actor =
     (case si_webauthn si of
        None \<Rightarrow> refuse passkeys_not_configured
      | Some wa \<Rightarrow>
          (case (human_principal actor, session_id actor) of
             (Some account, Some seat) \<Rightarrow>
               hbind (existing_passkeys wa account) (\<lambda>ps.
               if ps = [] then refuse AssuranceTooLow
               else offer h draw StepUp account (Some seat) clk (wa_start_authentication wa (map (fst \<circ> snd) ps)))
           | _ \<Rightarrow> refuse RolePolicyViolation))"

definition elevate :: "hub \<Rightarrow> sign_in \<Rightarrow> (nat \<Rightarrow> int) \<Rightarrow> string \<Rightarrow> auth_context \<Rightarrow> string \<Rightarrow> string \<Rightarrow> string \<Rightarrow> jv route" where
  "elevate h si clk fresh actor account seat now =
     hbind (on_accounts (rotate_access_secret_and_elevate (vault_of h si) fresh seat now)) (\<lambda>access.
     hbind (account_event h ''account.step_up_completed'' [(''account_id'', JStr account), (''session_id'', JStr seat),
       (''actor'', attribution actor)] (clk 2)) (\<lambda>_.
     hret (jobj [(''session_id'', JStr seat), (''assurance_level'', JStr ''aal2''), (''access_secret'', JStr access),
                 (''stepped_up_at'', JStr now)])))"

definition step_up_with :: "hub \<Rightarrow> sign_in \<Rightarrow> webauthn \<Rightarrow> (nat \<Rightarrow> int) \<Rightarrow> string \<Rightarrow> auth_context \<Rightarrow> string \<Rightarrow> string \<Rightarrow>
    passkey_answer \<Rightarrow> auth_challenge \<Rightarrow> string \<Rightarrow> jv route" where
  "step_up_with h si wa clk fresh actor account seat q c now =
     hbind (asserted_by wa account q (ch_ceremony_state c)) (\<lambda>(i, x).
     hbind (or_replay_event h [(''account_id'', JStr account), (''credential_id'', JStr i), (''actor'', attribution actor)]
       (clk 1) (verify_and_advance_passkey_sign_count account i x now)) (\<lambda>_.
     elevate h si clk fresh actor account seat now))"

definition step_up_verify :: "hub \<Rightarrow> sign_in \<Rightarrow> (nat \<Rightarrow> int) \<Rightarrow> string \<Rightarrow> auth_context \<Rightarrow> passkey_answer \<Rightarrow> jv route" where
  "step_up_verify h si clk fresh actor q =
     (case si_webauthn si of
        None \<Rightarrow> refuse passkeys_not_configured
      | Some wa \<Rightarrow>
          (case (human_principal actor, session_id actor) of
             (Some account, Some seat) \<Rightarrow>
               (let now = utc_now (clk 0) in
                hbind (on_accounts (consume_challenge_if_pending (pa_challenge_id q) now)) (\<lambda>c.
                if \<not> challenge_binding_ok h c StepUp account (pa_options_token q) \<or> ch_session_id c \<noteq> Some seat then
                  refuse ChallengeInvalid
                else step_up_with h si wa clk fresh actor account seat q c now))
           | _ \<Rightarrow> refuse RolePolicyViolation))"

section \<open>Running the routes on a calm store\<close>

text \<open>A successful sequence: its first part succeeded and kept what it keeps.\<close>

lemma hbind_calm_InrE:
  assumes "hbind m f (calm d) = (Inr y, w)" "keeps P m" "P d"
  obtains x d1 where "m (calm d) = (Inr x, calm d1)" "P d1" "f x (calm d1) = (Inr y, w)"
proof -
  obtain r d1 where r: "m (calm d) = (r, calm d1)" "P d1" by (rule calm_keeps [OF assms(2,3)])
  then obtain x where "r = Inr x" using assms(1) by (cases r) (simp_all add: hbind_def)
  then show thesis using that r assms(1) by (simp add: hbind_def)
qed

lemma on_accounts_Inr: "on_accounts m w = (Inr x, w') \<longleftrightarrow> m w = (Inr x, w')"
  by (cases "m w"; cases "fst (m w)") (auto simp: on_accounts_def call_def)

lemma keeps_on_accounts [keeps_intros]: "keeps P m \<Longrightarrow> keeps P (on_accounts m)"
  unfolding on_accounts_def by (rule keeps_call)

lemma people_blind: "audit_blind (holds P)"
  by (simp add: audit_blind_def holds_def)

lemma keeps_account_event [keeps_intros]: "keeps (holds P) (account_event h kind entries clock)"
  unfolding account_event_def by (intro keeps_intros keeps_audit_append people_blind)

text \<open>The tables a request is admitted by.\<close>

definition desk :: "humans \<Rightarrow> account list \<times> membership list \<times> session list" where
  "desk p = (accounts p, memberships p, sessions p)"

lemma keeps_desk:
  "keeps (holds (\<lambda>p. desk p = D)) (upgrade_hash v salt password c phc)"
  "keeps (holds (\<lambda>p. desk p = D)) (record_outcome name fp ok now)"
  "keeps (holds (\<lambda>p. desk p = D)) (enforce_login_throttle kind key t)"
  "keeps (holds (\<lambda>p. desk p = D)) (optional_throttle fp t)"
  "keeps (holds (\<lambda>p. desk p = D)) (consume_challenge_if_pending i now)"
  "keeps (holds (\<lambda>p. desk p = D)) (verify_and_advance_passkey_sign_count account i x now)"
  unfolding upgrade_hash_def rehash_secret_def record_outcome_def record_login_attempt_def optional_throttle_def
    enforce_login_throttle_def consume_challenge_if_pending_def verify_and_advance_passkey_sign_count_def
  by (intro keeps_intros keeps_people_edit;
      simp add: holds_def desk_def rehash_stmt_def edit_credentials_def attempt_stmt_def Let_def
        consume_challenge_stmt_def edit_challenges_def passkey_stmt_def)+

lemma keeps_effective [keeps_intros]: "keeps P effective_auth_settings"
  unfolding effective_auth_settings_def get_settings_document_def by (intro keeps_intros keeps_query)

lemma check_calm [calm_simps]: "check r (calm d) = (r, calm d)"
  by (simp add: check_def)

lemma hbind_check_InrE:
  assumes "hbind (check r) f w = (Inr y, w')"
  obtains x where "r = Inr x" "f x w = (Inr y, w')"
  using assms by (cases r) (auto simp: hbind_def check_def)

lemma issue_session_calm:
  assumes "issue_session t (calm d) = (Inr x, w)"
  shows "x = t \<and> w = calm (d\<lparr>people := (people d)\<lparr>sessions := sessions (people d) @ [t]\<rparr>\<rparr>)
    \<and> (\<forall>y \<in> set (sessions (people d)). hs_session_id y \<noteq> hs_session_id t \<and> hs_access_secret_hash y \<noteq> hs_access_secret_hash t)"
  using assms
  by (auto simp: issue_session_def insert_session_def first_violation_def list_ex_iff hbind_def hret_def calm_simps
      split: if_splits)

lemma hbind_run:
  "hbind (people_read f) F (calm d) = F (f (people d)) (calm d)"
  "hbind (one_row e g) G (calm d) = (case g (people d) of None \<Rightarrow> (Inl e, calm d) | Some x \<Rightarrow> G x (calm d))"
  "hbind (people_edit k) H (calm d) = H (fst (k (people d))) (calm (d\<lparr>people := snd (k (people d))\<rparr>))"
  by (simp_all add: hbind_def calm_simps split: option.split)

lemma hbind_check: "hbind (check r) F w = (case r of Inl e \<Rightarrow> (Inl e, w) | Inr x \<Rightarrow> F x w)"
  by (simp add: hbind_def check_def split: sum.split)

lemma find_in: "find P xs = Some x \<Longrightarrow> x \<in> set xs \<and> P x"
  by (induction xs) (auto split: if_splits)

text \<open>Who has shown who he is: an active account of that name, by one of its passwords.\<close>

definition proves_identity :: "vault \<Rightarrow> string \<Rightarrow> string \<Rightarrow> string \<Rightarrow> humans \<Rightarrow> account \<Rightarrow> bool" where
  "proves_identity v realm name password p a \<longleftrightarrow>
     find (\<lambda>a. ac_realm_id a = realm \<and> ac_username_normalized a = name) (accounts p) = Some a \<and> ac_status a = ActiveAccount
     \<and> (\<exists>c phc. password_of (active_credentials (ac_account_id a) p) = Some (c, phc) \<and> verify_password v password phc = Inr True)"

definition signed_up :: "vault \<Rightarrow> session_draw \<Rightarrow> session_request \<Rightarrow> (nat \<Rightarrow> int) \<Rightarrow> string \<Rightarrow> string \<Rightarrow> db \<Rightarrow>
    session \<times> string \<times> string \<Rightarrow> db \<Rightarrow> account \<Rightarrow> bool" where
  "signed_up v s q clk realm now d issued d1 a \<longleftrightarrow>
     issued = (new_session v s q clk realm Aal1 None a now, sw_access s, sw_refresh s)
     \<and> desk (people d1) = (accounts (people d), memberships (people d), sessions (people d) @ [fst issued])
     \<and> (\<forall>x \<in> set (sessions (people d)). hs_session_id x \<noteq> sw_session_id s \<and> hs_access_secret_hash x \<noteq> hash_opaque v (sw_access s))"

lemma try_authenticate_issues:
  assumes run: "try_authenticate v s salt q clk realm name password now (calm d) = (Inr issued, w)"
  shows "\<exists>a d1. w = calm d1 \<and> proves_identity v realm name password (people d) a
    \<and> signed_up v s q clk realm now d issued d1 a"
proof -
  let ?issue = "\<lambda>a. hbind (issue_session (new_session v s q clk realm Aal1 None a now)) (\<lambda>t. hret (t, sw_access s, sw_refresh s))"
  obtain a c phc where a: "find (\<lambda>a. ac_realm_id a = realm \<and> ac_username_normalized a = name) (accounts (people d)) = Some a"
      "ac_status a = ActiveAccount" "password_of (active_credentials (ac_account_id a) (people d)) = Some (c, phc)"
      "verify_password v password phc = Inr True"
    and r: "hbind (upgrade_hash v salt password c phc) (\<lambda>_. ?issue a) (calm d) = (Inr issued, w)"
    using run
    by (auto simp: try_authenticate_def find_by_username_def get_active_for_account_def hbind_run hbind_check status_admits_def
        hfail_def split: option.splits sum.splits if_splits account_status.splits)
  from r obtain d1 where d1: "desk (people d1) = desk (people d)" "?issue a (calm d1) = (Inr issued, w)"
    by (rule hbind_calm_InrE [OF _ keeps_desk(1) [of "desk (people d)", unfolded holds_def]]) auto
  obtain r1 w1 where r1: "issue_session (new_session v s q clk realm Aal1 None a now) (calm d1) = (r1, w1)" by fastforce
  then obtain t where t: "r1 = Inr t" using d1(2) by (cases r1) (simp_all add: hbind_def)
  note i = issue_session_calm [OF r1 [unfolded t]]
  have "issued = (t, sw_access s, sw_refresh s)" "w = w1" using d1(2) by (simp_all add: hbind_def r1 t hret_def)
  moreover have "proves_identity v realm name password (people d) a"
    using a by (simp add: proves_identity_def)
  ultimately show ?thesis using i d1(1) by (auto simp: signed_up_def desk_def new_session_def)
qed

lemma authenticate_issues:
  assumes run: "authenticate_and_issue_session v s salt q clk realm username password fp now (calm d) = (Inr issued, w)"
  shows "\<exists>name a d1. w = calm d1 \<and> normalize_username username = Inr name \<and> proves_identity v realm name password (people d) a
    \<and> signed_up v s q (\<lambda>n. clk (Suc (Suc n))) realm now d issued d1 a"
proof -
  let ?attempted = "\<lambda>name. try_authenticate v s salt q (\<lambda>n. clk (Suc (Suc n))) realm name password now"
  let ?rest = "\<lambda>name w. case ?attempted name w of (r, w1) \<Rightarrow> hbind (record_outcome name fp (is_ok r) now) (\<lambda>_. check r) w1"
  obtain name where name: "normalize_username username = Inr name"
    using run by (cases "normalize_username username") (simp_all add: authenticate_and_issue_session_def hfail_def)
  have ro: "keeps P (enforce_login_throttle kind key t)" "keeps P (optional_throttle fp t)" for P kind key t
    unfolding optional_throttle_def enforce_login_throttle_def by (intro keeps_intros)+
  have "hbind (enforce_login_throttle ''username'' name (clk 0)) (\<lambda>_. hbind (optional_throttle fp (clk 1)) (\<lambda>_. ?rest name)) (calm d)
      = (Inr issued, w)"
    using run by (simp add: authenticate_and_issue_session_def name)
  then have "hbind (optional_throttle fp (clk 1)) (\<lambda>_. ?rest name) (calm d) = (Inr issued, w)"
    by (rule hbind_calm_InrE [OF _ ro(1) [of "(=) d"] refl]) simp
  then have d2: "?rest name (calm d) = (Inr issued, w)"
    by (rule hbind_calm_InrE [OF _ ro(2) [of "(=) d"] refl]) simp
  have "keeps (holds (\<lambda>_. True)) (?attempted name)" by (rule keeps_try_authenticate) simp
  then obtain r d3 where t: "?attempted name (calm d) = (r, calm d3)" by (rule calm_keeps [where d = d]) (simp_all add: holds_def)
  obtain y d4 where o: "record_outcome name fp (is_ok r) now (calm d3) = (y, calm d4)" "desk (people d4) = desk (people d3)"
    by (rule calm_keeps [OF keeps_desk(2) [of "desk (people d3)", unfolded holds_def], of d3]) auto
  have "hbind (record_outcome name fp (is_ok r) now) (\<lambda>_. check r) (calm d3) = (Inr issued, w)"
    using d2 unfolding t prod.case .
  then have "(case y of Inl e \<Rightarrow> (Inl e, calm d4) | Inr x \<Rightarrow> (r, calm d4)) = (Inr issued, w)"
    unfolding hbind_def o(1) prod.case check_def .
  then have ok: "r = Inr issued" "w = calm d4" by (cases y; simp)+
  from try_authenticate_issues [OF t [unfolded ok(1)]] obtain a d5 where
    "calm d3 = calm d5" "proves_identity v realm name password (people d) a"
    "signed_up v s q (\<lambda>n. clk (Suc (Suc n))) realm now d issued d5 a" by blast
  then show ?thesis using o(2) name ok(2) by (auto simp: signed_up_def desk_def calm_inject)
qed

text \<open>What a request is admitted by, of a session.\<close>

definition seat_key :: "session \<Rightarrow> (string \<times> string \<times> string \<times> string option) \<times> (assurance_level \<times> string option \<times> string \<times> string)" where
  "seat_key s = ((hs_session_id s, hs_account_id s, hs_access_secret_hash s, hs_revoked_at s),
     (hs_assurance_level s, hs_step_up_at s, hs_idle_expires_at s, hs_absolute_expires_at s))"

definition counter :: "humans \<Rightarrow> account list \<times> membership list \<times> _" where
  "counter p = (accounts p, memberships p, map seat_key (sessions p))"

lemma keeps_bind_key: "keeps (holds (\<lambda>p. counter p = S)) (bind_session_key_if_present s key now)"
  unfolding bind_session_key_if_present_def bind_public_key_def
  by (auto split: option.split intro!: keeps_intros keeps_people_edit
      simp: holds_def bind_stmt_def edit_sessions_def update_where_def counter_def seat_key_def)

lemma find_map: "find P (map f xs) = map_option f (find (P \<circ> f) xs)"
  by (induction xs) auto

lemma live_by_access_seat_key:
  assumes "map seat_key (sessions p) = map seat_key (sessions p')" "live_by_access hash p' = Some t"
  shows "\<exists>u. live_by_access hash p = Some u \<and> seat_key u = seat_key t"
proof -
  define P where "P k \<longleftrightarrow> (case k of ((_, _, a, r), _) \<Rightarrow> a = hash \<and> r = None)"
    for k :: "(string \<times> string \<times> string \<times> string option) \<times> (assurance_level \<times> string option \<times> string \<times> string)"
  have f: "find P (map seat_key (sessions q)) = map_option seat_key (live_by_access hash q)" for q
    by (simp add: live_by_access_def find_map comp_def P_def seat_key_def)
  have "map_option seat_key (live_by_access hash p) = Some (seat_key t)"
    using f [of p] f [of p'] unfolding assms(1) assms(2) by simp
  then show ?thesis by (cases "live_by_access hash p") simp_all
qed

lemma session_expired:
  assumes "live_by_access (hash_secret h presented) (people d) = Some s"
    and "hs_idle_expires_at s < utc_now clock \<or> hs_absolute_expires_at s < utc_now clock"
  shows "resolve_human_session h presented clock (calm d) = (Inr session_over, calm d)"
  using assms
  by (simp add: resolve_human_session_def authenticate_validated_session_def validate_by_access_hash_def outcome_of_def
      one_row_def hbind_def hret_def calm_simps Let_def)

text \<open>
  C30. Signing in opens a session that works until it expires. When a login succeeds on a store that
  answers, the name is that of an active account and the password is verified by its stored one; the answer
  carries the drawn access secret and two expiry times; and presenting that secret as a bearer is resolved
  as that account, with its unrevoked roles and the assurance level of a password, as long as neither
  expiry time has passed, and as an expired session from then on.
\<close>

theorem login_session_admitted:
  assumes "placed (people d)" and run: "login h si clk draw salt q (calm d) = (Inr body, w)"
  shows "\<exists>name a idle absolute. normalize_username (lq_username q) = Inr name
    \<and> proves_identity (vault_of h si) default_realm_id name (lq_password q) (people d) a
    \<and> obj_get ''access_secret'' body = Some (JStr (sw_access draw))
    \<and> obj_get ''idle_expires_at'' body = Some (JStr idle) \<and> obj_get ''absolute_expires_at'' body = Some (JStr absolute)
    \<and> (\<forall>clock. (resolve_human_session h (sw_access draw) clock :: session_outcome route) w =
         (Inr (if idle < utc_now clock \<or> absolute < utc_now clock then session_over
               else Authenticated (from_human_session (ac_account_id a)
                 (live_roles (memberships_of (ac_account_id a) (people d))) (sw_session_id draw) ''aal1'' None)), w))"
proof -
  let ?v = "vault_of h si"
  have "keeps ((=) d) effective_auth_settings" by (rule keeps_effective)
  with run [unfolded login_def Let_def] obtain effective where
    r1: "hbind (on_accounts (authenticate_and_issue_session ?v draw salt (timeouts effective q) (\<lambda>n. clk (Suc n))
        default_realm_id (lq_username q) (lq_password q) None (utc_now (clk 0)))) (signed_in h clk q (utc_now (clk 0))) (calm d)
      = (Inr body, w)"
    by (rule hbind_calm_InrE) auto
  obtain x w1 where x: "on_accounts (authenticate_and_issue_session ?v draw salt (timeouts effective q) (\<lambda>n. clk (Suc n))
      default_realm_id (lq_username q) (lq_password q) None (utc_now (clk 0))) (calm d) = (x, w1)" by fastforce
  then obtain issued where i: "x = Inr issued" using r1 by (cases x) (simp_all add: hbind_def)
  from authenticate_issues [OF x [unfolded i on_accounts_Inr]] obtain name a d1 where
    who: "normalize_username (lq_username q) = Inr name" "proves_identity ?v default_realm_id name (lq_password q) (people d) a" and
    a: "w1 = calm d1" "signed_up ?v draw (timeouts effective q) (\<lambda>n. clk (Suc (Suc (Suc n)))) default_realm_id (utc_now (clk 0)) d issued d1 a"
    by blast
  define t where "t = fst issued"
  have t: "issued = (t, sw_access draw, sw_refresh draw)" "hs_access_secret_hash t = hash_secret h (sw_access draw)"
    "hs_session_id t = sw_session_id draw" "hs_account_id t = ac_account_id a" "hs_revoked_at t = None"
    "hs_assurance_level t = Aal1" "hs_step_up_at t = None"
    using a(2) by (simp_all add: signed_up_def t_def new_session_def vault_of_def)
  have rest: "signed_in h clk q (utc_now (clk 0)) issued (calm d1) = (Inr body, w)"
    using r1 by (simp add: hbind_def x i a(1))
  have "keeps (holds (\<lambda>p. counter p = counter (people d1))) (bind_session_key_if_present (fst issued) (lq_session_public_key q) (utc_now (clk 0)))"
    by (rule keeps_bind_key)
  with rest [unfolded signed_in_def] obtain d2 where d2: "counter (people d2) = counter (people d1)"
    and r2: "hbind (account_event h ''account.login_succeeded'' [(''account_id'', JStr (hs_account_id (fst issued))),
       (''session_id'', JStr (hs_session_id (fst issued))), (''client_kind'', JStr (client_kind_str (hs_client_kind (fst issued))))] (clk 8))
       (\<lambda>_. hret (session_body issued)) (calm d2) = (Inr body, w)"
    by (rule hbind_calm_InrE) (auto simp: holds_def)
  obtain d3 where d3: "counter (people d3) = counter (people d2)" "w = calm d3" "body = session_body issued"
    by (rule hbind_calm_InrE [OF r2 keeps_account_event [of "\<lambda>p. counter p = counter (people d2)"]]) (auto simp: hret_def)
  have desk: "accounts (people d1) = accounts (people d)" "memberships (people d1) = memberships (people d)"
    "sessions (people d1) = sessions (people d) @ [t]"
    using a(2) by (simp_all add: signed_up_def desk_def t_def)
  have live: "live_by_access (hash_secret h (sw_access draw)) (people d1) = Some t"
    using a(2) t(2,5) unfolding live_by_access_def desk(3) signed_up_def
    by (intro find_append_new) (simp_all add: vault_of_def)
  have c3: "map seat_key (sessions (people d3)) = map seat_key (sessions (people d1))"
    "accounts (people d3) = accounts (people d)" "memberships (people d3) = memberships (people d)"
    using d3(1) d2 desk by (simp_all add: counter_def)
  obtain u where u: "live_by_access (hash_secret h (sw_access draw)) (people d3) = Some u" "seat_key u = seat_key t"
    using live_by_access_seat_key [OF c3(1) live] by blast
  have acc: "find_account (ac_account_id a) (people d3) = Some a"
    using find_unique [of ac_account_id "accounts (people d)" a] find_in assms(1) who(2)
    by (fastforce simp: find_account_def c3(2) placed_def proves_identity_def)
  have member: "memberships_of i (people d3) = memberships_of i (people d)" for i
    by (simp add: memberships_of_def c3(3))
  have u_is: "hs_account_id u = ac_account_id a" "hs_session_id u = sw_session_id draw" "hs_assurance_level u = Aal1"
    "hs_step_up_at u = None" "hs_idle_expires_at u = hs_idle_expires_at t" "hs_absolute_expires_at u = hs_absolute_expires_at t"
    using u(2) t by (simp_all add: seat_key_def)
  have active: "ac_status a = ActiveAccount" using who(2) by (simp add: proves_identity_def)
  have "(resolve_human_session h (sw_access draw) clock :: session_outcome route) w =
      (Inr (if hs_idle_expires_at t < utc_now clock \<or> hs_absolute_expires_at t < utc_now clock then session_over
         else Authenticated (from_human_session (ac_account_id a)
        (live_roles (memberships_of (ac_account_id a) (people d))) (sw_session_id draw) ''aal1'' None)), w)" for clock
  proof (cases "hs_idle_expires_at t < utc_now clock \<or> hs_absolute_expires_at t < utc_now clock")
    case True
    then show ?thesis using session_expired [OF u(1), of clock] by (simp add: u_is d3(2))
  next
    case False
    have "resolve_human_session h (sw_access draw) clock (calm d3) =
      (Inr (Authenticated (from_human_session (ac_account_id a) (live_roles (memberships_of (ac_account_id a) (people d3)))
         (hs_session_id u) (assurance_str (hs_assurance_level u)) (hs_step_up_at u))), calm d3)"
      by (rule session_admitted [OF u(1)]) (use False u_is acc active in simp_all)
    then show ?thesis using False d3(2) by (simp add: u_is member)
  qed
  moreover have "obj_get ''access_secret'' body = Some (JStr (sw_access draw))"
    "obj_get ''idle_expires_at'' body = Some (JStr (hs_idle_expires_at t))"
    "obj_get ''absolute_expires_at'' body = Some (JStr (hs_absolute_expires_at t))"
    by (simp_all add: d3(3) t(1) session_body_def jobj_def obj_get_def)
  ultimately show ?thesis using who by blast
qed

text \<open>And whoever proves his identity, within the window of the throttle, does get in.\<close>

lemma effective_calm: "\<exists>e. (effective_auth_settings :: jv route) (calm d) = (Inr e, calm d)"
  by (simp add: effective_auth_settings_def hbind_def attempt_def hret_def get_settings_document_def calm_simps)

lemma account_event_calm: "\<exists>d'. account_event h kind entries clock (calm d) = (Inr (), calm d') \<and> people d' = people d"
proof -
  obtain d' where "(ignoring (audit_append h kind None (jobj entries) clock) :: unit route) (calm d) = (Inr (), calm d')" "same_but_audit d d'"
    by (rule calm_ignoring_audit)
  moreover from this have "people d' = people d" by (simp add: same_but_auditD)
  ultimately show ?thesis unfolding account_event_def by blast
qed

lemma try_authenticate_works:
  assumes "proves_identity v realm name password (people d) a"
    and fresh: "\<forall>x \<in> set (sessions (people d)). hs_session_id x \<noteq> sw_session_id s \<and> hs_access_secret_hash x \<noteq> hash_opaque v (sw_access s)"
  shows "\<exists>t d1. try_authenticate v s salt q clk realm name password now (calm d) = (Inr (t, sw_access s, sw_refresh s), calm d1)"
proof -
  from assms(1) obtain c phc where a: "find (\<lambda>a. ac_realm_id a = realm \<and> ac_username_normalized a = name) (accounts (people d)) = Some a"
      "ac_status a = ActiveAccount" "password_of (active_credentials (ac_account_id a) (people d)) = Some (c, phc)"
      "verify_password v password phc = Inr True"
    by (auto simp: proves_identity_def)
  obtain p where up: "upgrade_hash v salt password c phc (calm d) = (Inr (), calm (d\<lparr>people := p\<rparr>))" "sessions p = sessions (people d)"
    by (rule upgrade_hash_calm)
  define t where "t = new_session v s q clk realm Aal1 None a now"
  have "issue_session t (calm (d\<lparr>people := p\<rparr>)) = (Inr t, calm (d\<lparr>people := p\<lparr>sessions := sessions p @ [t]\<rparr>\<rparr>))"
    using fresh
    by (auto simp: issue_session_def insert_session_def first_violation_def list_ex_iff up(2) hbind_def hret_def calm_simps t_def new_session_def)
  then show ?thesis
    by (simp add: try_authenticate_def find_by_username_def get_active_for_account_def hbind_run hbind_check a status_admits_def)
      (simp add: hbind_def up(1) t_def [symmetric] hret_def)
qed

lemma login_works:
  assumes "normalize_username (lq_username q) = Inr name" "lq_session_public_key q = None"
    and "proves_identity (vault_of h si) default_realm_id name (lq_password q) (people d) a"
    and "recent_failures ''username'' name (window_start (clk 1)) (people d) < 5"
    and "\<forall>x \<in> set (sessions (people d)). hs_session_id x \<noteq> sw_session_id draw \<and> hs_access_secret_hash x \<noteq> hash_secret h (sw_access draw)"
  shows "\<exists>body w. login h si clk draw salt q (calm d) = (Inr body, w)"
proof -
  let ?v = "vault_of h si"
  obtain e where e: "(effective_auth_settings :: jv route) (calm d) = (Inr e, calm d)" using effective_calm by blast
  have "hash_opaque ?v (sw_access draw) = hash_secret h (sw_access draw)" by (simp add: vault_of_def)
  with try_authenticate_works [OF assms(3), of draw salt "timeouts e q" "\<lambda>n. clk (Suc (Suc (Suc n)))" "utc_now (clk 0)"] assms(5)
  obtain t d1 where t: "try_authenticate ?v draw salt (timeouts e q) (\<lambda>n. clk (Suc (Suc (Suc n)))) default_realm_id name (lq_password q)
      (utc_now (clk 0)) (calm d) = (Inr (t, sw_access draw, sw_refresh draw), calm d1)" by auto
  have auth: "\<exists>d2. authenticate_and_issue_session ?v draw salt (timeouts e q) (\<lambda>n. clk (Suc n)) default_realm_id (lq_username q) (lq_password q)
      None (utc_now (clk 0)) (calm d) = (Inr (t, sw_access draw, sw_refresh draw), calm d2)"
    using assms(4) [unfolded One_nat_def]
    by (simp add: authenticate_and_issue_session_def assms(1) hbind_def enforce_login_throttle_calm optional_throttle_def hret_def t
        record_outcome_calm check_def Let_def)
  then obtain d2 where a: "on_accounts (authenticate_and_issue_session ?v draw salt (timeouts e q) (\<lambda>n. clk (Suc n)) default_realm_id
      (lq_username q) (lq_password q) None (utc_now (clk 0))) (calm d) = (Inr (t, sw_access draw, sw_refresh draw), calm d2)"
    by (auto simp: on_accounts_Inr)
  obtain d3 where "account_event h ''account.login_succeeded'' [(''account_id'', JStr (hs_account_id t)), (''session_id'', JStr (hs_session_id t)),
      (''client_kind'', JStr (client_kind_str (hs_client_kind t)))] (clk 8) (calm d2) = (Inr (), calm d3)"
    using account_event_calm by blast
  then have "signed_in h clk q (utc_now (clk 0)) (t, sw_access draw, sw_refresh draw) (calm d2)
      = (Inr (session_body (t, sw_access draw, sw_refresh draw)), calm d3)"
    by (simp add: signed_in_def bind_session_key_if_present_def assms(2) hbind_def hret_def)
  then show ?thesis by (simp add: login_def Let_def hbind_def e a)
qed

definition ada :: account where
  "ada = new_account ''ada'' ''default'' ''ada'' ''Ada'' ''Ada L'' None ActiveAccount ''t''"

definition ada_password :: credential where
  "ada_password = new_password ''c1'' ''ada'' ''saltcorrect horse battery'' ''t''"

definition reception :: db where
  "reception = empty_db\<lparr>people := no_people\<lparr>accounts := [ada],
     memberships := [new_membership ''m1'' ''ada'' ''default'' Observer None ''t''],
     credentials := [credential_of.extend ada_password (credential_row_of.fields None)]\<rparr>\<rparr>"

definition demo_sign_in :: sign_in where
  "demo_sign_in = \<lparr>si_vault = toy_vault, si_webauthn = None, si_bootstrap_secret = None\<rparr>"

definition ada_draw :: session_draw where
  "ada_draw = \<lparr>sw_session_id = ''s1'', sw_family_id = ''f1'', sw_access = ''x'', sw_refresh = ''y''\<rparr>"

definition ada_request :: login_request where
  "ada_request = \<lparr>lq_username = ''Ada'', lq_password = ''correct horse battery'', lq_client_kind = None,
     lq_client_label = None, lq_session_public_key = None\<rparr>"

lemma ada_proves: "proves_identity (vault_of toy_hub demo_sign_in) default_realm_id ''ada'' ''correct horse battery'' (people reception) ada"
proof -
  have "ends_with ''correct horse battery'' (''salt'' @ ''correct horse battery'')"
    by (simp add: ends_with_iff_suffix suffix_def)
  then have "verify_password (vault_of toy_hub demo_sign_in) ''correct horse battery'' ''saltcorrect horse battery'' = Inr True"
    by (simp add: verify_password_def vault_of_def demo_sign_in_def toy_vault_def)
  then show ?thesis
    by (simp add: proves_identity_def reception_def empty_db_def no_people_def ada_def new_account_def default_realm_id_def
        active_credentials_def ada_password_def new_password_def credential_of.defs credential_row_of.defs password_of_def)
qed

theorem login_session_admitted_witness:
  "\<exists>body w idle absolute.
     login toy_hub demo_sign_in (\<lambda>_. 1700000000) ada_draw ''salt'' ada_request (calm reception) = (Inr body, w)
     \<and> (\<forall>clock. (resolve_human_session toy_hub ''x'' clock :: session_outcome route) w =
         (Inr (if idle < utc_now clock \<or> absolute < utc_now clock then session_over
               else Authenticated (from_human_session ''ada'' [''observer''] ''s1'' ''aal1'' None)), w))"
proof -
  have n: "normalize_username (lq_username ada_request) = Inr ''ada''" using demo_name by (simp add: ada_request_def)
  have q: "lq_session_public_key ada_request = None" "lq_password ada_request = ''correct horse battery''" by (simp_all add: ada_request_def)
  have none: "recent_failures ''username'' ''ada'' s (people reception) = 0" "sessions (people reception) = []" for s
    by (simp_all add: reception_def empty_db_def no_people_def recent_failures_def affected_def)
  obtain body w where run: "login toy_hub demo_sign_in (\<lambda>_. 1700000000) ada_draw ''salt'' ada_request (calm reception) = (Inr body, w)"
    using login_works [OF n q(1) ada_proves [folded q(2)], of "\<lambda>_. 1700000000" ada_draw "''salt''"] none by auto
  have ok: "placed (people reception)"
    by (simp add: placed_def reception_def empty_db_def no_people_def ada_def new_account_def new_membership_def)
  obtain name a idle absolute where l: "normalize_username (lq_username ada_request) = Inr name"
    "proves_identity (vault_of toy_hub demo_sign_in) default_realm_id name (lq_password ada_request) (people reception) a"
    "\<forall>clock. (resolve_human_session toy_hub (sw_access ada_draw) clock :: session_outcome route) w =
       (Inr (if idle < utc_now clock \<or> absolute < utc_now clock then session_over
             else Authenticated (from_human_session (ac_account_id a) (live_roles (memberships_of (ac_account_id a) (people reception)))
               (sw_session_id ada_draw) ''aal1'' None)), w)"
    using login_session_admitted [OF ok run] by blast
  have "name = ''ada''" using l(1) n by simp
  then have "a = ada" using l(2) ada_proves q(2) by (auto simp: proves_identity_def)
  then have i: "ac_account_id a = ''ada''" by (simp add: ada_def new_account_def)
  have "live_roles (memberships_of ''ada'' (people reception)) = [''observer'']"
    by (simp add: live_roles_def memberships_of_def reception_def new_membership_def)
  moreover have "sw_access ada_draw = ''x''" "sw_session_id ada_draw = ''s1''" by (simp_all add: ada_draw_def)
  ultimately show ?thesis using run l(3) unfolding i by fastforce
qed

end
