(* ===== verification/HubAccounts.thy ===== *)
theory HubAccounts
  imports HubSignIn
begin

text \<open>
  The administration of human accounts (\<^verbatim>\<open>crates/fabric-hub/src/routes/accounts.rs\<close>): the accounts,
  their status, roles, recovery and deletion, export and import, and the sessions of an account. Random
  identifiers and codes are arguments of the routes; \<open>clk\<close> is the clock at its successive readings.
\<close>

section \<open>Requests\<close>

definition account_lookup_error :: "accounts_error \<Rightarrow> api_error" where
  "account_lookup_error e =
     (if e = AccountPolicyViolation ''account_not_found'' then api_not_found ''account not found'' else api_account_error e)"

definition parse_role :: "string \<Rightarrow> (accounts_error, human_role) res" where
  "parse_role raw =
     (if raw = ''observer'' then Inr Observer
      else if raw = ''dispatcher'' then Inr Dispatcher
      else if raw = ''approver'' then Inr Approver
      else if raw = ''reviewer'' then Inr Reviewer
      else if raw = ''admin'' then Inr Admin
      else if raw = ''runner'' then Inl (AccountPolicyViolation ''human_runner_membership_forbidden'')
      else Inl (AccountPolicyViolation (''unrecognized_role:'' @ raw)))"

definition parse_status :: "string \<Rightarrow> (accounts_error, account_status) res" where
  "parse_status raw =
     (if raw = ''active'' then Inr ActiveAccount
      else if raw = ''locked'' then Inr Locked
      else if raw = ''recovery_required'' then Inr RecoveryRequiredStatus
      else Inl (AccountPolicyViolation (''unrecognized_or_unsupported_target_status:'' @ raw)))"

definition transition_allowed :: "account_status \<Rightarrow> account_status \<Rightarrow> bool" where
  "transition_allowed current target \<longleftrightarrow>
     (current, target) \<in> {(Locked, ActiveAccount), (RecoveryRequiredStatus, ActiveAccount), (ActiveAccount, RecoveryRequiredStatus)}"

definition acting_as :: "auth_context \<Rightarrow> string" where
  "acting_as actor = opt_default (subject actor) (human_principal actor)"

definition on_account :: "string \<Rightarrow> account route" where
  "on_account i = call account_lookup_error (get_account i)"

definition refused_by :: "(accounts_error, 'a) res \<Rightarrow> 'a route" where
  "refused_by r = check (map_res_err api_account_error r)"

text \<open>How most routes end: the summary of the account, the event, the answer.\<close>

definition summarised :: "hub \<Rightarrow> account \<Rightarrow> string \<Rightarrow> (string \<times> jv) list \<Rightarrow> int \<Rightarrow> jv route" where
  "summarised h a kind entries clock =
     hbind (account_summary a) (\<lambda>summary. hbind (account_event h kind entries clock) (\<lambda>_. hret summary))"

fun collect_steps :: "('a \<Rightarrow> ('s, 'e, 'b) action) \<Rightarrow> 'a list \<Rightarrow> ('s, 'e, 'b list) action" where
  "collect_steps f [] = hret []"
| "collect_steps f (x # xs) = hbind (f x) (\<lambda>y. hbind (collect_steps f xs) (\<lambda>ys. hret (y # ys)))"

section \<open>Accounts\<close>

definition list_accounts_route :: "int \<Rightarrow> int \<Rightarrow> jv route" where
  "list_accounts_route limit offset =
     hbind (on_accounts (list_accounts default_realm_id limit offset)) (\<lambda>as.
     hbind (collect_steps account_summary as) (\<lambda>summaries.
     hret (jobj [(''accounts'', JArr summaries)])))"

definition create_account_route :: "hub \<Rightarrow> sign_in \<Rightarrow> (nat \<Rightarrow> int) \<Rightarrow> fresh_ids \<Rightarrow> string \<Rightarrow> auth_context \<Rightarrow> string \<Rightarrow> string \<Rightarrow>
    string \<Rightarrow> string \<Rightarrow> jv route" where
  "create_account_route h si clk ids salt actor username display password role_text =
     hbind (refused_by (parse_role role_text)) (\<lambda>role.
     hbind (on_accounts (create_account_with_password (vault_of h si) ids salt default_realm_id username display password
       role (acting_as actor) (utc_now (clk 0)))) (\<lambda>a.
     summarised h a ''account.created''
       [(''account_id'', JStr (ac_account_id a)), (''username'', JStr (ac_username_normalized a)),
        (''role'', JStr (human_role_str role)), (''actor'', attribution actor)] (clk 1)))"

definition get_account_route :: "string \<Rightarrow> jv route" where
  "get_account_route i = hbind (on_account i) account_summary"

text \<open>The target is one of three statuses; the transition is checked on a row read before the update.\<close>

definition update_account_status :: "hub \<Rightarrow> (nat \<Rightarrow> int) \<Rightarrow> auth_context \<Rightarrow> string \<Rightarrow> string \<Rightarrow> int \<Rightarrow> jv route" where
  "update_account_status h clk actor i status_text expected =
     hbind (refused_by (parse_status status_text)) (\<lambda>target.
     hbind (on_account i) (\<lambda>current.
     if \<not> transition_allowed (ac_status current) target then refuse (AccountPolicyViolation ''status_transition_not_permitted'')
     else
       hbind (on_accounts (update_status i expected target (utc_now (clk 0)))) (\<lambda>a.
       summarised h a ''account.status_changed''
         [(''account_id'', JStr i), (''from'', JStr (account_status_str (ac_status current))),
          (''to'', JStr (account_status_str target)), (''actor'', attribution actor)] (clk 1))))"

definition grant_membership_route :: "hub \<Rightarrow> (nat \<Rightarrow> int) \<Rightarrow> string \<Rightarrow> auth_context \<Rightarrow> string \<Rightarrow> string \<Rightarrow> jv route" where
  "grant_membership_route h clk fresh actor i role_text =
     hbind (refused_by (parse_role role_text)) (\<lambda>role.
     hbind (on_account i) (\<lambda>a.
     hbind (on_accounts (grant_membership fresh i (ac_realm_id a) role (acting_as actor) (utc_now (clk 0)))) (\<lambda>_.
     summarised h a ''account.membership_granted''
       [(''account_id'', JStr i), (''role'', JStr (human_role_str role)), (''actor'', attribution actor)] (clk 1))))"

definition revoke_membership_route :: "hub \<Rightarrow> (nat \<Rightarrow> int) \<Rightarrow> auth_context \<Rightarrow> string \<Rightarrow> string \<Rightarrow> jv route" where
  "revoke_membership_route h clk actor i role_text =
     hbind (refused_by (parse_role role_text)) (\<lambda>role.
     hbind (on_account i) (\<lambda>a.
     hbind (on_accounts (list_memberships i)) (\<lambda>ms.
     case find (\<lambda>m. mb_revoked_at m = None \<and> mb_role m = role) ms of
       None \<Rightarrow> hfail (api_not_found ''the account does not hold that role'')
     | Some m \<Rightarrow>
         hbind (on_accounts (revoke_membership_protecting_last_admin (mb_membership_id m) (utc_now (clk 0)))) (\<lambda>_.
         summarised h a ''account.membership_revoked''
           [(''account_id'', JStr i), (''role'', JStr (human_role_str role)), (''actor'', attribution actor)] (clk 1)))))"

definition about_account :: "string \<Rightarrow> auth_context \<Rightarrow> (string \<times> jv) list" where
  "about_account i actor = [(''account_id'', JStr i), (''actor'', attribution actor)]"

definition disable_account :: "hub \<Rightarrow> (nat \<Rightarrow> int) \<Rightarrow> auth_context \<Rightarrow> string \<Rightarrow> int \<Rightarrow> jv route" where
  "disable_account h clk actor i expected =
     hbind (on_accounts (disable_account_protecting_last_admin i expected (utc_now (clk 0)))) (\<lambda>a.
     summarised h a ''account.disabled'' (about_account i actor) (clk 1))"

definition enable_account :: "hub \<Rightarrow> (nat \<Rightarrow> int) \<Rightarrow> auth_context \<Rightarrow> string \<Rightarrow> int \<Rightarrow> jv route" where
  "enable_account h clk actor i expected =
     hbind (on_account i) (\<lambda>current.
     if ac_status current \<noteq> Disabled then refuse (AccountPolicyViolation ''status_transition_not_permitted'')
     else
       hbind (on_accounts (update_status i expected ActiveAccount (utc_now (clk 0)))) (\<lambda>a.
       summarised h a ''account.enabled'' (about_account i actor) (clk 1)))"

section \<open>Recovery and deletion\<close>

record codes_draw =
  cw_batch :: string
  cw_codes :: "nat \<Rightarrow> string \<times> string"

definition generate_recovery_codes_route :: "hub \<Rightarrow> sign_in \<Rightarrow> (nat \<Rightarrow> int) \<Rightarrow> codes_draw \<Rightarrow> auth_context \<Rightarrow> string \<Rightarrow> int \<Rightarrow> jv route" where
  "generate_recovery_codes_route h si clk draw actor i count =
     hbind (on_account i) (\<lambda>_.
     hbind (on_accounts (generate_recovery_codes (vault_of h si) (cw_batch draw) (cw_codes draw) (clk 1) i count
       (utc_now (clk 0)))) (\<lambda>codes.
     hbind (account_event h ''account.recovery_codes_generated''
       [(''account_id'', JStr i), (''count'', jint (int (length codes))), (''actor'', attribution actor)] (clk 2)) (\<lambda>_.
     hret (jobj [(''account_id'', JStr i), (''codes'', jstrs codes)]))))"

definition complete_recovery :: "hub \<Rightarrow> sign_in \<Rightarrow> (nat \<Rightarrow> int) \<Rightarrow> string \<Rightarrow> auth_context \<Rightarrow> string \<Rightarrow> string \<Rightarrow> string \<Rightarrow> jv route" where
  "complete_recovery h si clk salt actor i code password =
     hbind (on_accounts (complete_recovery_with_code (vault_of h si) salt i code password (utc_now (clk 0))
       (utc_now (clk 1)))) (\<lambda>a.
     summarised h a ''account.recovery_completed'' (about_account i actor) (clk 2))"

definition initiate_deletion :: "hub \<Rightarrow> (nat \<Rightarrow> int) \<Rightarrow> auth_context \<Rightarrow> string \<Rightarrow> int \<Rightarrow> jv route" where
  "initiate_deletion h clk actor i expected =
     hbind (on_accounts (initiate_account_deletion i expected (utc_now (clk 0)))) (\<lambda>a.
     summarised h a ''account.deletion_initiated'' (about_account i actor) (clk 1))"

definition complete_deletion :: "hub \<Rightarrow> (nat \<Rightarrow> int) \<Rightarrow> auth_context \<Rightarrow> string \<Rightarrow> int \<Rightarrow> jv route" where
  "complete_deletion h clk actor i expected =
     hbind (on_accounts (complete_account_deletion i expected (utc_now (clk 0)))) (\<lambda>a.
     summarised h a ''account.deletion_completed'' (about_account i actor) (clk 1))"

section \<open>Histories and export\<close>

definition session_summary :: "session \<Rightarrow> bool \<Rightarrow> jv" where
  "session_summary s current =
     jobj [(''session_id'', JStr (hs_session_id s)), (''account_id'', JStr (hs_account_id s)),
           (''client_kind'', JStr (client_kind_str (hs_client_kind s))), (''client_label'', jopt JStr (hs_client_label s)),
           (''assurance_level'', JStr (assurance_str (hs_assurance_level s))),
           (''authenticated_at'', JStr (hs_authenticated_at s)), (''idle_expires_at'', JStr (hs_idle_expires_at s)),
           (''absolute_expires_at'', JStr (hs_absolute_expires_at s)), (''current'', JBool current)]"

definition security_history :: "string \<Rightarrow> int \<Rightarrow> jv route" where
  "security_history i limit =
     hbind (on_account i) (\<lambda>_.
     hbind (on_accounts (account_security_history i limit)) (\<lambda>(attempts, ss).
     hret (jobj [(''account_id'', JStr i),
       (''login_attempts'', JArr (map (\<lambda>(at_time, ok). jobj [(''attempted_at'', JStr at_time), (''successful'', JBool ok)]) attempts)),
       (''sessions'', JArr (map (\<lambda>s. session_summary s False) ss))])))"

definition account_export :: "account \<Rightarrow> membership list \<Rightarrow> jv" where
  "account_export a ms =
     jobj [(''account_id'', JStr (ac_account_id a)), (''username'', JStr (ac_username_display a)),
           (''display_name'', JStr (ac_display_name a)), (''email'', jopt JStr (ac_email_normalized a)),
           (''status'', JStr (account_status_str (ac_status a))), (''roles'', shown_roles a ms),
           (''created_at'', JStr (ac_created_at a))]"

definition export_accounts :: "hub \<Rightarrow> (nat \<Rightarrow> int) \<Rightarrow> auth_context \<Rightarrow> jv route" where
  "export_accounts h clk actor =
     hbind (on_accounts (list_accounts default_realm_id 500 0)) (\<lambda>as.
     hbind (collect_steps (\<lambda>a. hbind (on_accounts (list_memberships (ac_account_id a))) (\<lambda>ms. hret (account_export a ms))) as)
       (\<lambda>exports.
     hbind (account_event h ''account.exported'' [(''count'', jint (int (length exports))), (''actor'', attribution actor)] (clk 0)) (\<lambda>_.
     hret (jobj [(''schema_version'', jint 1), (''exported_at'', JStr (utc_now (clk 1))), (''accounts'', JArr exports)]))))"

section \<open>Import\<close>

record import_record =
  im_username :: string
  im_display_name :: string
  im_email :: "string option"
  im_roles :: "string list"

datatype import_outcome = WouldCreate | SkipExistingUsername | RejectInvalidRecord

fun import_outcome_str :: "import_outcome \<Rightarrow> string" where
  "import_outcome_str WouldCreate = ''would_create''"
| "import_outcome_str SkipExistingUsername = ''skip_existing_username''"
| "import_outcome_str RejectInvalidRecord = ''reject_invalid_record''"

definition mapped_role :: "string list \<Rightarrow> human_role option" where
  "mapped_role raws =
     first_some (\<lambda>raw. case parse_role raw of Inr role \<Rightarrow> if role = Admin then None else Some role | Inl _ \<Rightarrow> None) raws"

text \<open>What is to be done with a record, and the role of the account to make of it.\<close>

definition resolve_import_row :: "import_record \<Rightarrow> (import_outcome \<times> human_role option) route" where
  "resolve_import_row r =
     (case mapped_role (im_roles r) of
        None \<Rightarrow> hret (RejectInvalidRecord, None)
      | Some role \<Rightarrow>
          (case normalize_username (im_username r) of
             Inl _ \<Rightarrow> hret (RejectInvalidRecord, None)
           | Inr name \<Rightarrow>
               hbind (outcome_of (find_by_username default_realm_id name)) (\<lambda>found.
               hret (case found of
                       Inr None \<Rightarrow> (WouldCreate, Some role)
                     | _ \<Rightarrow> (SkipExistingUsername, None)))))"

record import_draw =
  iw_ids :: fresh_ids
  iw_codes :: codes_draw

text \<open>An invited account with five recovery codes; a name taken meanwhile is skipped.\<close>

definition import_account :: "vault \<Rightarrow> import_draw \<Rightarrow> int \<Rightarrow> string \<Rightarrow> string \<Rightarrow> import_record \<Rightarrow> human_role \<Rightarrow>
    (import_outcome \<times> (account \<times> string list) list) route" where
  "import_account v draw clock granted_by now r role =
     hbind (outcome_of (create_invited_account (iw_ids draw) default_realm_id (im_username r) (im_display_name r) (im_email r)
       role granted_by now)) (\<lambda>made.
     case made of
       Inr a \<Rightarrow>
         hbind (on_accounts (generate_recovery_codes v (cw_batch (iw_codes draw)) (cw_codes (iw_codes draw)) clock
           (ac_account_id a) 5 now)) (\<lambda>codes. hret (WouldCreate, [(a, codes)]))
     | Inl e \<Rightarrow> if e = UsernameConflict then hret (SkipExistingUsername, []) else refuse e)"

definition import_row :: "vault \<Rightarrow> import_draw \<Rightarrow> int \<Rightarrow> bool \<Rightarrow> string \<Rightarrow> string \<Rightarrow> import_record \<Rightarrow>
    (import_outcome \<times> (account \<times> string list) list) route" where
  "import_row v draw clock dry_run granted_by now r =
     hbind (resolve_import_row r) (\<lambda>(verdict, candidate).
     case (dry_run, candidate) of
       (False, Some role) \<Rightarrow> import_account v draw clock granted_by now r role
     | _ \<Rightarrow> hret (verdict, []))"

fun import_rows :: "vault \<Rightarrow> (nat \<Rightarrow> import_draw) \<Rightarrow> (nat \<Rightarrow> int) \<Rightarrow> bool \<Rightarrow> string \<Rightarrow> string \<Rightarrow> nat \<Rightarrow> import_record list \<Rightarrow>
    ((string \<times> import_outcome) list \<times> (account \<times> string list) list) route" where
  "import_rows v draws clk dry_run granted_by now n [] = hret ([], [])"
| "import_rows v draws clk dry_run granted_by now n (r # rs) =
     hbind (import_row v (draws n) (clk n) dry_run granted_by now r) (\<lambda>(verdict, made).
     hbind (import_rows v draws clk dry_run granted_by now (Suc n) rs) (\<lambda>(rows, created).
     hret ((im_username r, verdict) # rows, made @ created)))"

definition outcome_count :: "import_outcome \<Rightarrow> (string \<times> import_outcome) list \<Rightarrow> jv" where
  "outcome_count o1 rows = jint (int (length (filter (\<lambda>row. snd row = o1) rows)))"

definition import_counts :: "(string \<times> import_outcome) list \<Rightarrow> (string \<times> jv) list" where
  "import_counts rows =
     [(''would_create'', outcome_count WouldCreate rows), (''skip_existing_username'', outcome_count SkipExistingUsername rows),
      (''reject_invalid_record'', outcome_count RejectInvalidRecord rows)]"

definition created_entry :: "account \<times> string list \<Rightarrow> jv" where
  "created_entry made =
     jobj [(''account_id'', JStr (ac_account_id (fst made))), (''username'', JStr (ac_username_normalized (fst made))),
           (''codes'', jstrs (snd made))]"

definition import_accounts :: "hub \<Rightarrow> sign_in \<Rightarrow> (nat \<Rightarrow> int) \<Rightarrow> (nat \<Rightarrow> import_draw) \<Rightarrow> auth_context \<Rightarrow> import_record list \<Rightarrow> bool \<Rightarrow>
    jv route" where
  "import_accounts h si clk draws actor records dry_run =
     hbind (import_rows (vault_of h si) draws (\<lambda>n. clk (n + 2)) dry_run (acting_as actor) (utc_now (clk 0)) 0 records)
       (\<lambda>(rows, created).
     hbind (account_event h (if dry_run then ''account.import_previewed'' else ''account.import_applied'')
       (import_counts rows @ [(''created_account_ids'', jstrs (map (\<lambda>made. ac_account_id (fst made)) created)),
         (''actor'', attribution actor)]) (clk 1)) (\<lambda>_.
     hret (jobj [(''dry_run'', JBool dry_run),
       (''rows'', JArr (map (\<lambda>row. jobj [(''username'', JStr (fst row)), (''outcome'', JStr (import_outcome_str (snd row)))]) rows)),
       (''summary'', jobj (import_counts rows)), (''created'', JArr (map created_entry created))])))"

section \<open>Policy and sessions\<close>

definition auth_policy :: "jv route" where
  "auth_policy =
     hbind (on_accounts bootstrap_status) (\<lambda>available.
     hret (jobj [(''realm_id'', JStr default_realm_id), (''bootstrap_open'', JBool available),
       (''roles'', jstrs (valid_roles @ [''admin'']))]))"

text \<open>Whose sessions a caller may see: its own, or, as administrator, anybody's.\<close>

definition sessions_target :: "auth_context \<Rightarrow> string option \<Rightarrow> (accounts_error, string) res" where
  "sessions_target actor requested =
     (let own = opt_default [] (human_principal actor) in
      case requested of
        None \<Rightarrow> Inr own
      | Some i \<Rightarrow> if i \<noteq> own \<and> ''admin'' \<notin> set (roles actor) then Inl RolePolicyViolation else Inr i)"

definition list_sessions_route :: "auth_context \<Rightarrow> string option \<Rightarrow> jv route" where
  "list_sessions_route actor requested =
     hbind (refused_by (sessions_target actor requested)) (\<lambda>i.
     hbind (on_accounts (list_sessions i)) (\<lambda>ss.
     hret (jobj [(''sessions'', JArr (map (\<lambda>s. session_summary s (session_id actor = Some (hs_session_id s))) ss))])))"

definition revoke_session_route :: "hub \<Rightarrow> (nat \<Rightarrow> int) \<Rightarrow> auth_context \<Rightarrow> string \<Rightarrow> jv route" where
  "revoke_session_route h clk actor i = end_session h clk actor ''revoked_by_operator'' ''account.session_revoked'' i"

section \<open>What the routes leave open\<close>

lemma account_summary_calm: "account_summary a (calm d) = (Inr (summary_of a (memberships_of (ac_account_id a) (people d))), calm d)"
  by (simp add: account_summary_def hbind_def on_accounts_def call_def list_memberships_def calm_simps hret_def)

lemma summarised_calm: "\<exists>body d'. summarised h a kind entries clock (calm d) = (Inr body, calm d') \<and> people d' = people d"
  using account_event_calm [of h kind entries clock d] by (auto simp: summarised_def hbind_def account_summary_calm hret_def)

text \<open>
  The route that changes a status has no guard for the last administrator: for whoever may call it, it
  sets the only administrator of a realm to \<^verbatim>\<open>recovery_required\<close>, and the realm has none left.
\<close>

lemma patch_removes_last_admin:
  "\<exists>body w. update_account_status h clk actor ''ada'' ''recovery_required'' 0 (calm (empty_db\<lparr>people := sole_admin\<rparr>)) = (Inr body, w)
     \<and> has_admin ''r'' sole_admin \<and> \<not> has_admin ''r'' (people (db w))"
proof -
  let ?d = "empty_db\<lparr>people := sole_admin\<rparr>"
  let ?p = "snd (status_stmt ''ada'' 0 RecoveryRequiredStatus (utc_now (clk 0)) sole_admin)"
  have parse: "parse_status ''recovery_required'' = Inr RecoveryRequiredStatus" by (simp add: parse_status_def)
  have found: "find_account ''ada'' sole_admin = Some (demo_admin ''ada'')" "ac_status (demo_admin ''ada'') = ActiveAccount"
    by (simp_all add: find_account_def sole_admin_def demo_admin_def new_account_def)
  have ok: "transition_allowed ActiveAccount RecoveryRequiredStatus" by (simp add: transition_allowed_def)
  have "fst (status_stmt ''ada'' 0 RecoveryRequiredStatus (utc_now (clk 0)) sole_admin) = 1"
    "\<exists>a. find_account ''ada'' ?p = Some a"
    by (simp_all add: status_stmt_def edit_accounts_def affected_def find_account_def sole_admin_def demo_admin_def new_account_def update_where_def)
  then obtain a where u: "on_accounts (update_status ''ada'' 0 RecoveryRequiredStatus (utc_now (clk 0))) (calm ?d)
      = (Inr a, calm (?d\<lparr>people := ?p\<rparr>))"
    by (auto simp: on_accounts_Inr update_status_def hbind_def calm_simps get_account_def)
  obtain body d' where s: "summarised h a ''account.status_changed'' [(''account_id'', JStr ''ada''),
      (''from'', JStr (account_status_str ActiveAccount)), (''to'', JStr (account_status_str RecoveryRequiredStatus)),
      (''actor'', attribution actor)] (clk 1) (calm (?d\<lparr>people := ?p\<rparr>)) = (Inr body, calm d')" "people d' = ?p"
    using summarised_calm [of h a _ _ "clk 1" "?d\<lparr>people := ?p\<rparr>"] by fastforce
  have "update_account_status h clk actor ''ada'' ''recovery_required'' 0 (calm ?d) = (Inr body, calm d')"
    using u s(1) by (simp add: update_account_status_def hbind_def refused_by_def check_def parse on_account_def call_def get_account_def
        calm_simps found ok)
  moreover have "has_admin ''r'' sole_admin" using unguarded_status_loses_admin by blast
  moreover have "\<not> has_admin ''r'' ?p"
    by (simp add: has_admin_def admin_rows_def status_stmt_def edit_accounts_def sole_admin_def demo_admin_def new_account_def
        update_where_def new_membership_def)
  ultimately show ?thesis using s(2) by auto
qed

text \<open>
  An imported account is invited and gets recovery codes, but a recovery is only for an account whose
  status is \<^verbatim>\<open>recovery_required\<close>, and no route takes an invited account there: whatever code and
  password are given, the recovery is refused and nothing changes.
\<close>

lemma invited_cannot_recover:
  assumes "find_account i (people d) = Some a" "ac_status a = Invited"
  shows "complete_recovery h si clk salt actor i code password (calm d)
    = (Inl (api_account_error (AccountPolicyViolation ''account_not_in_recovery'')), calm d)"
  using assms
  by (simp add: complete_recovery_def hbind_def on_accounts_def call_def complete_recovery_with_code_def get_account_def calm_simps hfail_def)

lemma keeps_insert_codes: "keeps (holds (\<lambda>p. accounts p = as)) (insert_codes v account batch now expires cs)"
proof (induction cs)
  case Nil
  then show ?case by (simp add: keeps_hret)
next
  case (Cons c cs)
  have "keeps (holds (\<lambda>p. accounts p = as)) (people_try unavailable (insert_code (recovery_code v account batch now (Some expires) c)))"
    by (rule keeps_people_try) (auto simp: insert_code_def split: option.splits)
  with Cons show ?case by (auto intro!: keeps_intros)
qed

lemma keeps_generated:
  "keeps (holds (\<lambda>p. accounts p = as)) (on_accounts (generate_recovery_codes v batch draw clock account count now))"
  unfolding generate_recovery_codes_def by (intro keeps_on_accounts keeps_insert_codes)

lemma invited_calm_InrE:
  assumes "create_invited_account ids realm username display email role granted_by now (calm d) = (Inr b, w)"
  obtains d1 where "w = calm d1" "find_account (fresh_account ids) (people d1) = Some b" "ac_status b = Invited"
proof -
  obtain name where name: "normalize_username username = Inr name" "\<not> (role = Admin \<or> \<not> human_assignable role)"
    using assms by (cases "normalize_username username")
      (auto simp: create_invited_account_def hfail_def hbind_def check_def split: if_splits)
  let ?tx = "run_tx [insert_account (new_account (fresh_account ids) realm name username display email Invited now),
      insert_membership (new_membership (fresh_membership ids) (fresh_account ids) realm role (Some granted_by) now)]"
  have run: "hbind (people_try (or_conflict UsernameConflict) ?tx) (\<lambda>_. get_account (fresh_account ids)) (calm d) = (Inr b, w)"
    using assms name(2) by (simp add: create_invited_account_def hbind_def check_def name(1) del: run_tx.simps)
  obtain y p where tx: "?tx (people d) = (y, p)" by fastforce
  obtain u where u: "y = Inr u" using run tx by (cases y) (simp_all add: hbind_def calm_simps del: run_tx.simps)
  obtain p1 where p1: "insert_account (new_account (fresh_account ids) realm name username display email Invited now) (people d) = (Inr (), p1)"
      "run_tx [insert_membership (new_membership (fresh_membership ids) (fresh_account ids) realm role (Some granted_by) now)] p1 = (Inr u, p)"
    using tx unfolding u run_tx_Cons_Inr(1) by blast
  have acc: "accounts p1 = accounts (people d) @ [new_account (fresh_account ids) realm name username display email Invited now]"
    "\<forall>x \<in> set (accounts (people d)). ac_account_id x \<noteq> fresh_account ids"
    using insert_account_InrD(1,2) [OF p1(1)] by (simp_all add: new_account_def)
  have "insert_membership (new_membership (fresh_membership ids) (fresh_account ids) realm role (Some granted_by) now) p1 = (Inr (), p)"
    using p1(2) unfolding run_tx_Cons_Inr by blast
  from insert_membership_InrD(1) [OF this] have "accounts p = accounts p1" by simp
  then have f: "find_account (fresh_account ids) p = Some (new_account (fresh_account ids) realm name username display email Invited now)"
    using acc by (simp add: find_account_def find_append_new new_account_def)
  have "b = new_account (fresh_account ids) realm name username display email Invited now \<and> w = calm (d\<lparr>people := p\<rparr>)"
    using run tx f by (auto simp: u hbind_def calm_simps get_account_def simp del: run_tx.simps)
  then show thesis using that [of "d\<lparr>people := p\<rparr>"] f by (simp add: new_account_def)
qed

lemma imported_account_cannot_recover:
  assumes run: "import_account v draw clock granted_by now r role (calm d) = (Inr (WouldCreate, [(a, codes)]), w)"
  shows "ac_status a = Invited \<and> complete_recovery h si clk salt actor (ac_account_id a) code password w
    = (Inl (api_account_error (AccountPolicyViolation ''account_not_in_recovery'')), w)"
proof -
  let ?create = "create_invited_account (iw_ids draw) default_realm_id (im_username r) (im_display_name r) (im_email r) role granted_by now"
  obtain x w1 where x: "?create (calm d) = (x, w1)" by fastforce
  obtain b where b: "x = Inr b"
    using run x by (cases x) (auto simp: import_account_def hbind_def outcome_of_def hret_def refuse_def hfail_def split: if_splits)
  from x [unfolded b] obtain d1 where d1: "w1 = calm d1" "find_account (fresh_account (iw_ids draw)) (people d1) = Some b"
    "ac_status b = Invited"
    by (rule invited_calm_InrE)
  have i: "ac_account_id b = fresh_account (iw_ids draw)" using d1(2) by (auto simp: find_account_def dest: find_in)
  have "hbind (on_accounts (generate_recovery_codes v (cw_batch (iw_codes draw)) (cw_codes (iw_codes draw)) clock
      (ac_account_id b) 5 now)) (\<lambda>codes. hret (WouldCreate, [(b, codes)])) (calm d1) = (Inr (WouldCreate, [(a, codes)]), w)"
    using run by (simp add: import_account_def hbind_def outcome_of_def x b d1(1))
  then obtain d2 where d2: "accounts (people d2) = accounts (people d1)" "w = calm d2" "a = b"
    by (rule hbind_calm_InrE [OF _ keeps_generated [of "accounts (people d1)"]]) (auto simp: hret_def)
  have "find_account (ac_account_id a) (people d2) = Some a" using d1(2) d2 i by (simp add: find_account_def)
  then show ?thesis using invited_cannot_recover d1(3) d2(2,3) by auto
qed

end
