(* ===== verification/Spec2Isabelle.thy ===== *)
theory Spec2Isabelle
  imports FabricTypes Floats Dates Policy Router Streams AuditChain StoreTasks StoreFleet
    StoreLogs StoreGuards StoreLedger StoreAudit Secrets HubBase HubAuth HubClaims HubApprovals HubStreams HubSessions HubSettings HubAccounts
begin

text \<open>
  A verification library for the core of ForgeWire Fabric: the hub that takes signed work from dispatchers
  and hands it to runners, and the replicated store behind it. The sources are the Rust crates under
  \<^verbatim>\<open>src/crates\<close>; all paths below are relative to it.

  \<^bold>\<open>The program and its parts.\<close> A dispatcher signs an envelope (\<^verbatim>\<open>fabric-protocol\<close>); the hub (\<^verbatim>\<open>fabric-hub\<close>)
  authenticates the request (\<^verbatim>\<open>auth.rs\<close>), checks the clock, the signature, the nonce, the budget and the
  policy (\<^verbatim>\<open>fabric-policy\<close>), and queues the task or holds it for an approval (\<^verbatim>\<open>routes/tasks.rs\<close>,
  \<^verbatim>\<open>routes/approvals.rs\<close>, \<^verbatim>\<open>forgelink.rs\<close>). A runner claims a task that fits it (\<^verbatim>\<open>fabric-claim-router\<close>,
  \<^verbatim>\<open>capabilities.rs\<close>), streams its output (\<^verbatim>\<open>fabric-streams\<close>, \<^verbatim>\<open>routes/streams.rs\<close>) and reports a result.
  Every step is appended to a hash-linked audit log (\<^verbatim>\<open>fabric-audit\<close>), with secrets redacted
  (\<^verbatim>\<open>fabric-secrets\<close>). People sign in, hold roles and administer each other (\<^verbatim>\<open>fabric-accounts\<close>,
  \<^verbatim>\<open>routes/authn.rs\<close>, \<^verbatim>\<open>routes/accounts.rs\<close>), and change settings (\<^verbatim>\<open>fabric-settings\<close>, \<^verbatim>\<open>routes/settings.rs\<close>).
  All durable state is in the tables of rqlite, which \<^verbatim>\<open>fabric-store-rqlite\<close> drives by SQL statements; the
  hub keeps in memory only the buffer of output lines and the queues of standard input.

  \<^bold>\<open>Store.\<close> \<^verbatim>\<open>StoreTypes\<close> and \<^verbatim>\<open>AccountTypes\<close> have the rows and the tables: the record \<open>db\<close>, with the tables of
  people in its field \<open>people\<close>; a row is a record with the columns of the table. \<^verbatim>\<open>StoreCore\<close> has the requests:
  a statement is atomic; a \<open>world\<close> is a database and a script that says, for each coming statement, what
  other clients do before it and whether its reply is given, refused or lost. An operation of a repository
  is a function on worlds, the sequence of its statements as the code sends them: \<^verbatim>\<open>StoreTasks\<close>
  (\<^verbatim>\<open>TaskStore\<close>, \<^verbatim>\<open>ResultStore\<close>), \<^verbatim>\<open>StoreFleet\<close> (\<^verbatim>\<open>RunnerStore\<close>, \<^verbatim>\<open>DispatcherStore\<close>, \<^verbatim>\<open>NonceStore\<close>), \<^verbatim>\<open>StoreLogs\<close>
  (\<^verbatim>\<open>StreamStore\<close>, \<^verbatim>\<open>ProgressStore\<close>, \<^verbatim>\<open>NoteStore\<close>), \<^verbatim>\<open>StoreGuards\<close> (\<^verbatim>\<open>ApprovalStore\<close>, \<^verbatim>\<open>SecretStore\<close>, \<^verbatim>\<open>LabelStore\<close>,
  \<^verbatim>\<open>HostRoleStore\<close>), \<^verbatim>\<open>StoreLedger\<close> (costs, budgets, capabilities, settings, export), \<^verbatim>\<open>StoreAudit\<close> (\<^verbatim>\<open>AuditStore\<close>),
  all of \<^verbatim>\<open>fabric-store-rqlite/src/lib.rs\<close>, and \<^verbatim>\<open>StorePeople\<close> (\<^verbatim>\<open>human_accounts.rs\<close>,
  \<^verbatim>\<open>human_webauthn_challenges.rs\<close>). Errors are values of \<open>store_error\<close> and \<open>accounts_error\<close>.

  \<^bold>\<open>Pure crates.\<close> \<^verbatim>\<open>FabricTypes\<close> (\<^verbatim>\<open>fabric-types\<close>: enumerations and the skew check on 64-bit words), \<^verbatim>\<open>Floats\<close> and
  \<^verbatim>\<open>Dates\<close> (comparison of floats; period keys and timestamp formats of the store and the hub), \<^verbatim>\<open>Policy\<close>
  (\<^verbatim>\<open>fabric-policy\<close>), \<^verbatim>\<open>Router\<close> (\<^verbatim>\<open>fabric-claim-router\<close>), \<^verbatim>\<open>Streams\<close> (\<^verbatim>\<open>fabric-streams\<close>), \<^verbatim>\<open>Json\<close> and \<^verbatim>\<open>Protocol\<close>
  (\<^verbatim>\<open>fabric-protocol\<close>), \<^verbatim>\<open>AuditChain\<close> (\<^verbatim>\<open>fabric-audit\<close>), \<^verbatim>\<open>Secrets\<close> (\<^verbatim>\<open>fabric-secrets\<close>), \<^verbatim>\<open>Settings\<close>
  (\<^verbatim>\<open>fabric-settings\<close>), \<^verbatim>\<open>Capabilities\<close> and \<^verbatim>\<open>ForgeLink\<close> (the modules of the hub of these names).

  \<^bold>\<open>Hub.\<close> A handler is a function on worlds that returns a refusal (status and text) or an answer, composed
  from the calls, guards and early returns of the source. \<^verbatim>\<open>HubBase\<close> (\<^verbatim>\<open>utils.rs\<close>, \<^verbatim>\<open>state.rs\<close>, \<^verbatim>\<open>error.rs\<close>: the
  configuration \<open>hub\<close>, redaction, the audited append, signature and clock checks), \<^verbatim>\<open>HubAuth\<close> (role and step-up
  gates), \<^verbatim>\<open>HubSessions\<close> (the layer \<open>require_bearer\<close>), \<^verbatim>\<open>HubDispatch\<close> and \<^verbatim>\<open>HubClaims\<close> (\<^verbatim>\<open>routes/tasks.rs\<close>),
  \<^verbatim>\<open>HubApprovals\<close>, \<^verbatim>\<open>HubStreams\<close>, \<^verbatim>\<open>HubSettings\<close>, \<^verbatim>\<open>HubSignIn\<close> (\<^verbatim>\<open>routes/authn.rs\<close>) and \<^verbatim>\<open>HubAccounts\<close>
  (\<^verbatim>\<open>routes/accounts.rs\<close>). \<^verbatim>\<open>HubStreams\<close> adds the memory of the hub beside the world.

  \<^bold>\<open>Interfaces.\<close> \<^verbatim>\<open>Interfaces\<close> has the contracts components share, as locales that are interpreted on the model:
  \<open>single_use\<close> (what succeeds once is refused ever after) on nonces, signed dispatches, signed requests,
  approvals consumed and decided, challenges, and the opening of a realm; \<open>key_registry\<close> on runners and
  dispatchers; \<open>version_register\<close> on the settings document; \<open>seq_source\<close> on the stream counter and the stream
  table. \<open>text_format\<close> (\<^verbatim>\<open>Json\<close>) is what a writer of strings and numbers must satisfy for canonical texts to
  be unambiguous; \<open>decision_gate\<close> (\<^verbatim>\<open>Policy\<close>) is the contract of the gates; \<open>peer_rules\<close> (\<^verbatim>\<open>PeopleSafety\<close>) is what
  other nodes may do to the tables of people, once with the guarded steps only and once with all.

  \<^bold>\<open>What is shown.\<close> The properties carry their number where they stand.
  \<^item> Work: no task is claimed twice, by store calls (C1) or routes (C4); the life of a task only moves forward
    (C10); a signed dispatch is accepted once (C3), and which ones, with what effect (C7); who gets which
    task in a signed claim (C8); output is stored without gaps and read back once (C20, C35, C32), flushed
    before the result (C17); the event stream ends (C34).
  \<^item> Policy and approvals: the gates (C21, C22), approvals are decided and consumed once (C15, C16, C18), the
    router implements its contract (C28).
  \<^item> Evidence: canonical texts are unambiguous (C11), an append keeps the audit log a chain (C6) whose last
    hash commits to its events (C5); secrets are sealed under their name (C26) and redacted (C25); budgets
    follow the ledger (C19).
  \<^item> People: the last administrator stays through the guarded operations (C2); tables stay well formed (C36); a
    realm opens once (C13); sign-in works and what it gives (C23, C30); guesses are bounded (C14); passkey
    counters increase (C24); a replayed refresh ends its family (C9); disabled accounts are admitted nowhere
    (C38), session bearers are never taken for automation (C39), signed requests are admitted once (C40);
    changes of administration need an administrator (C12).
  \<^item> Settings: three tiers (C33), one leaf at a time (C29), serialised (C27), recorded or undone (C31).

  Some lemmas show where the code does less than its documentation says: a signed claim can be replayed
  (\<open>claim_replayed\<close>), the audit log forks under two writers (\<open>audit_append_race\<close>), a pruned nonce can come
  back (\<open>nonce_replayed_after_prune\<close>), a weak password spends a recovery code (C37), a plain change of status
  takes the last administrator away (\<open>patch_removes_last_admin\<close>), concurrent appends share a number
  (\<open>stream_append_race\<close>), and others named in the theories.

  \<^bold>\<open>Parameters.\<close> Code that is not in the repository is an argument: hashing, Ed25519 and hex (\<open>crypto\<close>), AES-GCM,
  base64 and the key source (\<open>broker\<close>), password hashing and Unicode tables (\<open>vault\<close>), the WebAuthn library
  (\<open>webauthn\<close>), the HTTP client of ForgeLink (\<open>transport\<close>), texts of floats and JSON strings (fields of \<open>hub\<close>,
  \<open>json_text\<close>, \<open>cap_env\<close>), SQLite's date difference \<open>gap\<close> and REAL addition \<open>fadd\<close>. What a property needs of them
  is a named hypothesis (\<open>codec_ok\<close>, \<open>authentic\<close>, \<open>text_format\<close>, \<open>float_writer\<close>) with an instance in its witness.
  Clock readings and random draws are arguments too.

  \<^bold>\<open>Bounds.\<close> The append retries three times, as in the code. \<open>task_events\<close> has fuel, one unit per round of the
  stream; C34 gives the number of rounds that is enough. Paging takes one request more than there are
  lines (C35). All other recursion is structural. Integers are unbounded except where the code depends on
  their width (skew check, stream counter, policy counter, on 64-bit words); identifiers, revisions and
  counts are taken not to leave 64 bits.

  \<^bold>\<open>Not modelled.\<close> Interference happens between statements; two handlers of one hub are not interleaved on its
  memory (the line buffer, the input queues). Schema migrations, the decoding of request bodies and rows and
  the route table are the framework's. Outside the model: the remaining routes (cluster, set-up, state
  export, health, and thin readers over modelled store operations), start-up and cluster supervision,
  \<^verbatim>\<open>fabric-runner\<close>, \<^verbatim>\<open>loom-runner\<close>, \<^verbatim>\<open>fabric-client\<close>, \<^verbatim>\<open>fabric-cli\<close>, \<^verbatim>\<open>fabric-beacon\<close>, \<^verbatim>\<open>fabric-egress\<close>,
  \<^verbatim>\<open>fabric-history\<close>, \<^verbatim>\<open>fabric-identity\<close>, \<^verbatim>\<open>fabric-topology\<close>, \<^verbatim>\<open>fabric-compute-lanes\<close>, \<^verbatim>\<open>fabric-py\<close>, and everything that
  is not Rust: they are input and output around the operations above.
\<close>

end
